(* ===== verification/Prelude.thy ===== *)
theory Prelude
  imports Main "HOL-Library.Sublist" "HOL-Library.Monad_Syntax"
begin

text \<open>
  Shared vocabulary of the development: the types that stand for Go's values
  (identifiers, clocks, byte strings), the functions of Go's package
  \<^verbatim>\<open>strings\<close> that the modelled code calls, and the generic lemmas on lists and
  options the component theories rely on.
\<close>

section \<open>Types and collections\<close>

text \<open>
  A \<^verbatim>\<open>uuid.UUID\<close> is a natural number, the nil UUID is \<open>0\<close>.
  A \<^verbatim>\<open>time.Time\<close> (and a Postgres \<^verbatim>\<open>timestamptz\<close>) is an integer
  number of ticks; an optional pointer is an \<open>option\<close>.  A Go string is a sequence of
  bytes, which is Isabelle's \<^typ>\<open>string\<close>.
\<close>

type_synonym uuid = nat
type_synonym time = int

definition uuid_Nil :: uuid where
  "uuid_Nil = 0"

text \<open>
  The outcome of every call to a service outside the program (Postgres, Redis) is decided
  by the environment.  A value of type \<open>faults\<close> says, for each call, named by the label
  of the error the code wraps it in, whether that call fails.
\<close>

type_synonym faults = "string \<Rightarrow> bool"

definition no_faults :: faults where
  "no_faults = (\<lambda>_. False)"

lemma no_faults_simp [simp]: "\<not> no_faults l"
  by (simp add: no_faults_def)

named_theorems table_simps "rewrite rules for operations on table rows"

section \<open>Functions of package strings\<close>

text \<open>
  The UTF-8 encodings of the code points for which \<^verbatim>\<open>unicode.IsSpace\<close> holds.
  No encoding is empty, and each begins with a lead byte, so removing one of them from
  either end is what decoding a rune at that end and testing it does.
\<close>

definition space_encodings :: "string list" where
  "space_encodings =
     [[CHR 0x09], [CHR 0x0A], [CHR 0x0B], [CHR 0x0C], [CHR 0x0D], [CHR 0x20],
      [CHR 0xC2, CHR 0x85], [CHR 0xC2, CHR 0xA0], [CHR 0xE1, CHR 0x9A, CHR 0x80],
      [CHR 0xE2, CHR 0x80, CHR 0x80], [CHR 0xE2, CHR 0x80, CHR 0x81],
      [CHR 0xE2, CHR 0x80, CHR 0x82], [CHR 0xE2, CHR 0x80, CHR 0x83],
      [CHR 0xE2, CHR 0x80, CHR 0x84], [CHR 0xE2, CHR 0x80, CHR 0x85],
      [CHR 0xE2, CHR 0x80, CHR 0x86], [CHR 0xE2, CHR 0x80, CHR 0x87],
      [CHR 0xE2, CHR 0x80, CHR 0x88], [CHR 0xE2, CHR 0x80, CHR 0x89],
      [CHR 0xE2, CHR 0x80, CHR 0x8A], [CHR 0xE2, CHR 0x80, CHR 0xA8],
      [CHR 0xE2, CHR 0x80, CHR 0xA9], [CHR 0xE2, CHR 0x80, CHR 0xAF],
      [CHR 0xE2, CHR 0x81, CHR 0x9F], [CHR 0xE3, CHR 0x80, CHR 0x80]]"

function trim_front :: "string list \<Rightarrow> string \<Rightarrow> string" where
  "trim_front es s =
     (case find (\<lambda>e. e \<noteq> [] \<and> prefix e s) es of
        None \<Rightarrow> s
      | Some e \<Rightarrow> trim_front es (drop (length e) s))"
  by pat_completeness auto
termination
proof (relation "measure (\<lambda>(es, s). length s)", simp)
  fix es :: "string list" and s e :: string
  assume "find (\<lambda>e. e \<noteq> [] \<and> prefix e s) es = Some e"
  then have "e \<noteq> []" "prefix e s"
    by (auto simp: find_Some_iff)
  then show "((es, drop (length e) s), es, s) \<in> measure (\<lambda>(es, s). length s)"
    by (auto simp: prefix_def)
qed

declare trim_front.simps [simp del]

definition TrimSpace :: "string \<Rightarrow> string" where
  "TrimSpace s = rev (trim_front (map rev space_encodings) (rev (trim_front space_encodings s)))"

definition HasPrefix :: "string \<Rightarrow> string \<Rightarrow> bool" where
  "HasPrefix s p = prefix p s"

definition TrimSuffix :: "string \<Rightarrow> string \<Rightarrow> string" where
  "TrimSuffix s x = (if suffix x s then take (length s - length x) s else s)"

definition TrimPrefix :: "string \<Rightarrow> string \<Rightarrow> string" where
  "TrimPrefix s x = (if prefix x s then drop (length x) s else s)"

text \<open>\<^verbatim>\<open>strings.Contains\<close>, \<^verbatim>\<open>strings.LastIndex\<close> and
  \<^verbatim>\<open>strings.ReplaceAll\<close> at a one-byte argument.\<close>

definition ContainsByte :: "string \<Rightarrow> char \<Rightarrow> bool" where
  "ContainsByte s c = (c \<in> set s)"

primrec LastIndexByte :: "string \<Rightarrow> char \<Rightarrow> nat option" where
  "LastIndexByte [] c = None"
| "LastIndexByte (x # xs) c =
     (case LastIndexByte xs c of
        Some i \<Rightarrow> Some (Suc i)
      | None \<Rightarrow> if x = c then Some 0 else None)"

definition ReplaceAllByte :: "string \<Rightarrow> char \<Rightarrow> string \<Rightarrow> string" where
  "ReplaceAllByte s c r = concat (map (\<lambda>x. if x = c then r else [x]) s)"

text \<open>\<^verbatim>\<open>strings.ToLower\<close>: bytewise on ASCII, by the Unicode tables otherwise.\<close>

definition lower_byte :: "char \<Rightarrow> char" where
  "lower_byte c =
     (let b = of_char c :: nat in if of_char CHR ''A'' \<le> b \<and> b \<le> of_char CHR ''Z'' then char_of (b + 32) else c)"

definition ToLower :: "(string \<Rightarrow> string) \<Rightarrow> string \<Rightarrow> string" where
  "ToLower unicode s = (if \<forall>c \<in> set s. of_char c < (128 :: nat) then map lower_byte s else unicode s)"

lemma trim_front_suffix: "suffix (trim_front es s) s"
proof (induction es s rule: trim_front.induct)
  case (1 es s)
  show ?case
  proof (cases "find (\<lambda>e. e \<noteq> [] \<and> prefix e s) es")
    case None
    then show ?thesis by (simp add: trim_front.simps)
  next
    case (Some e)
    have "suffix (drop (length e) s) s" by (rule suffix_drop)
    with Some 1 [OF Some] show ?thesis
      by (subst trim_front.simps) (auto intro: suffix_order.trans)
  qed
qed

lemma trim_front_none: "\<forall>e \<in> set es. e \<noteq> [] \<longrightarrow> \<not> prefix e s \<Longrightarrow> trim_front es s = s"
  by (subst trim_front.simps) (auto simp: find_Some_iff split: option.splits)

lemma trim_front_stops: "e \<in> set es \<Longrightarrow> e \<noteq> [] \<Longrightarrow> \<not> prefix e (trim_front es s)"
proof (induction es s rule: trim_front.induct)
  case (1 es s)
  show ?case
  proof (cases "find (\<lambda>e. e \<noteq> [] \<and> prefix e s) es")
    case None
    then have "trim_front es s = s" by (simp add: trim_front.simps)
    with None 1(2,3) show ?thesis by (auto simp: find_None_iff)
  next
    case (Some x)
    then have "trim_front es s = trim_front es (drop (length x) s)" by (subst trim_front.simps) simp
    with 1(1) [OF Some 1(2,3)] show ?thesis by simp
  qed
qed

lemma TrimSpace_idem [simp]: "TrimSpace (TrimSpace s) = TrimSpace s"
proof -
  let ?a = "trim_front space_encodings s" and ?es = "map rev space_encodings"
  have t: "TrimSpace s = rev (trim_front ?es (rev ?a))" by (simp add: TrimSpace_def)
  have "prefix (TrimSpace s) ?a"
    unfolding t using trim_front_suffix [of ?es "rev ?a"] by (simp add: suffix_to_prefix)
  then have "trim_front space_encodings (TrimSpace s) = TrimSpace s"
    using trim_front_stops [of _ space_encodings s] by (intro trim_front_none) (meson prefix_order.trans)
  moreover have "trim_front ?es (rev (TrimSpace s)) = rev (TrimSpace s)"
    using trim_front_stops [of _ ?es "rev ?a"] by (intro trim_front_none) (simp add: t)
  ultimately show ?thesis by (simp add: TrimSpace_def [of "TrimSpace s"])
qed

lemma set_TrimSpace: "set (TrimSpace s) \<subseteq> set s"
proof -
  have front: "set (trim_front es t) \<subseteq> set t" for es t
    using trim_front_suffix by (rule set_mono_suffix)
  show ?thesis
    using front [of "map rev space_encodings" "rev (trim_front space_encodings s)"]
      front [of space_encodings s]
    by (auto simp: TrimSpace_def)
qed

lemma LastIndexByte_None [simp]: "c \<notin> set v \<Longrightarrow> LastIndexByte v c = None"
  by (induction v) auto

lemma LastIndexByte_append:
  "c \<notin> set v \<Longrightarrow> LastIndexByte (u @ c # v) c = Some (length u)"
  by (induction u) auto

lemma TrimSuffix_append [simp]: "TrimSuffix (s @ x) x = s"
  by (simp add: TrimSuffix_def suffix_def)

section \<open>Lists and options\<close>

lemma find_NoneD: "find P xs = None \<Longrightarrow> x \<in> set xs \<Longrightarrow> \<not> P x"
  by (auto simp: find_None_iff)

lemma find_SomeD: "find P xs = Some x \<Longrightarrow> x \<in> set xs \<and> P x"
  by (auto simp: find_Some_iff)

lemma find_unique:
  assumes "x \<in> set xs" "P x" "\<And>y. y \<in> set xs \<Longrightarrow> P y \<Longrightarrow> y = x"
  shows "find P xs = Some x"
  using assms find_NoneD find_SomeD by (metis not_None_eq)

lemma filter_singleton:
  assumes "distinct xs" "x \<in> set xs" "P x" "\<And>y. y \<in> set xs \<Longrightarrow> P y \<Longrightarrow> y = x"
  shows "filter P xs = [x]"
proof -
  have dist: "distinct (filter P xs)" using assms(1) by simp
  have set: "set (filter P xs) = {x}" unfolding set_filter using assms(2-4) by blast
  have "card (set (filter P xs)) = 1" unfolding set by simp
  then have "length (filter P xs) = 1" using distinct_card [OF dist] by simp
  then obtain y where y: "filter P xs = [y]" by (auto simp: length_Suc_conv)
  with set have "y = x" by (simp del: set_filter)
  with y show ?thesis by simp
qed

text \<open>A text splits in one way at a character neither part in front of it contains.\<close>

lemma split_at_char: "c \<notin> set u \<Longrightarrow> c \<notin> set v \<Longrightarrow> u @ c # x = v @ c # y \<longleftrightarrow> u = v \<and> x = y"
proof (induction u arbitrary: v)
  case Nil
  then show ?case by (cases v) auto
next
  case (Cons a u)
  then show ?case by (cases v) auto
qed

lemma split_at_last_char:
  assumes "c \<notin> set u" "c \<notin> set v"
  shows "x @ c # u = y @ c # v \<longleftrightarrow> x = y \<and> u = v"
  using split_at_char [of c "rev u" "rev v" "rev x" "rev y"] assms
  by (metis rev.simps(2) rev_append rev_is_rev_conv set_rev append.assoc append_Cons append_Nil)

lemma find_append: "find P (xs @ ys) = (case find P xs of None \<Rightarrow> find P ys | Some x \<Rightarrow> Some x)"
  by (induction xs) auto

lemma find_append_None: "find P xs = None \<Longrightarrow> find P (xs @ ys) = find P ys"
  by (induction xs) (auto split: if_splits)

lemma find_map_pred: "find P (map f xs) = map_option f (find (\<lambda>x. P (f x)) xs)"
  by (induction xs) auto

lemma distinct_map_inj:
  "distinct (map k xs) \<Longrightarrow> x \<in> set xs \<Longrightarrow> y \<in> set xs \<Longrightarrow> k x = k y \<Longrightarrow> x = y"
  by (auto simp: distinct_map dest: inj_onD)

lemma fold_max_ge: "(b :: int) \<le> fold max xs b \<and> (\<forall>x \<in> set xs. x \<le> fold max xs b)"
proof (induction xs arbitrary: b)
  case (Cons a xs)
  have "max a b \<le> fold max xs (max a b)" "\<forall>x \<in> set xs. x \<le> fold max xs (max a b)"
    using Cons [of "max a b"] by blast+
  then show ?case by simp
qed simp

lemma sorted_le_last: "sorted (map f xs) \<Longrightarrow> x \<in> set xs \<Longrightarrow> f x \<le> (f (last xs) :: 'k::linorder)"
  by (induction xs) auto

lemma bind_Some_iff: "Option.bind m f = Some y \<longleftrightarrow> (\<exists>x. m = Some x \<and> f x = Some y)"
  by (cases m) auto

lemma prefix_append_drop: "prefix p s \<Longrightarrow> s = p @ drop (length p) s"
  by (auto simp: prefix_def)

end
