(* ===== verification/Sql.thy ===== *)
theory Sql
  imports Prelude
begin

text \<open>
  The fragment of SQL the repositories use, over tables that are lists of rows: the row
  predicate of an \<^verbatim>\<open>UPDATE\<close> or \<^verbatim>\<open>DELETE\<close>, the number of rows it
  affects, the \<^verbatim>\<open>LIKE ... ESCAPE '\'\<close> operator, and
  \<^verbatim>\<open>WITH RECURSIVE ... UNION ALL\<close>.
\<close>

section \<open>UPDATE and DELETE\<close>

definition update_rows :: "('r \<Rightarrow> bool) \<Rightarrow> ('r \<Rightarrow> 'r) \<Rightarrow> 'r list \<Rightarrow> 'r list" where
  "update_rows p u rows = map (\<lambda>r. if p r then u r else r) rows"

definition delete_rows :: "('r \<Rightarrow> bool) \<Rightarrow> 'r list \<Rightarrow> 'r list" where
  "delete_rows p rows = filter (\<lambda>r. \<not> p r) rows"

definition rows_affected :: "('r \<Rightarrow> bool) \<Rightarrow> 'r list \<Rightarrow> nat" where
  "rows_affected p rows = length (filter p rows)"

lemma rows_affected_0 [simp]: "rows_affected p rows = 0 \<longleftrightarrow> (\<forall>r \<in> set rows. \<not> p r)"
  by (auto simp: rows_affected_def filter_empty_conv)

lemma set_update_rows [table_simps]:
  "set (update_rows p u rows) = (\<lambda>r. if p r then u r else r) ` set rows"
  by (simp add: update_rows_def)

lemma set_delete_rows [table_simps]: "set (delete_rows p rows) = {r \<in> set rows. \<not> p r}"
  by (auto simp: delete_rows_def)

lemma update_rows_nochange: "(\<And>r. r \<in> set rows \<Longrightarrow> \<not> p r) \<Longrightarrow> update_rows p u rows = rows"
  by (auto simp: update_rows_def intro: map_idI)

lemma map_update_rows:
  "(\<And>r. p r \<Longrightarrow> k (u r) = k r) \<Longrightarrow> map k (update_rows p u rows) = map k rows"
  by (simp add: update_rows_def)

lemma length_update_rows [simp]: "length (update_rows p u rows) = length rows"
  by (simp add: update_rows_def)

section \<open>LIKE with an escape character\<close>

text \<open>
  \<^verbatim>\<open>t LIKE p ESCAPE '\'\<close>: a backslash makes the next pattern character
  literal, \<^verbatim>\<open>%\<close> matches any string, \<^verbatim>\<open>_\<close> any one character.  A
  pattern that ends in the escape character is an error in Postgres; it matches nothing here.
\<close>

fun like :: "string \<Rightarrow> string \<Rightarrow> bool" where
  "like [] t = (t = [])"
| "like (p # ps) t =
     (if p = CHR 0x5C then
        (case ps of
           [] \<Rightarrow> False
         | q # qs \<Rightarrow> (case t of [] \<Rightarrow> False | x # xs \<Rightarrow> x = q \<and> like qs xs))
      else if p = CHR ''%'' then
        like ps t \<or> (case t of [] \<Rightarrow> False | x # xs \<Rightarrow> like (p # ps) xs)
      else
        (case t of
           [] \<Rightarrow> False
         | x # xs \<Rightarrow> (p = CHR ''_'' \<or> x = p) \<and> like ps xs))"

lemma like_percent [simp]: "like [CHR ''%''] t"
  by (induction t) auto

section \<open>WITH RECURSIVE ... UNION ALL\<close>

text \<open>
  The recursive query starts from a working table and repeats the recursive term on the
  rows of the last round until a round yields nothing; all rounds are concatenated.  A
  query over cyclic data never ends: that is the value \<^const>\<open>None\<close>.
\<close>

partial_function (option) recursive_cte :: "('r list \<Rightarrow> 'r list) \<Rightarrow> 'r list \<Rightarrow> 'r list option" where
  "recursive_cte step w =
     (if w = [] then Some []
      else do { rest \<leftarrow> recursive_cte step (step w); Some (w @ rest) })"

declare recursive_cte.simps [code]

text \<open>The recursive terms of the program join the last round with a table, so they act
  on each row of the round by itself.\<close>

definition join_step :: "('r \<Rightarrow> 'r list) \<Rightarrow> 'r list \<Rightarrow> 'r list" where
  "join_step s w = concat (map s w)"

lemma join_step_append: "join_step s (u @ v) = join_step s u @ join_step s v"
  by (simp add: join_step_def)

lemma join_step_Nil [simp]: "join_step s [] = []"
  by (simp add: join_step_def)

lemma join_step_single [simp]: "join_step s [x] = s x"
  by (simp add: join_step_def)

definition cte_ends :: "('r list \<Rightarrow> 'r list) \<Rightarrow> 'r list \<Rightarrow> bool" where
  "cte_ends step w = (\<exists>n. (step ^^ n) w = [])"

lemma recursive_cte_Nil [simp]: "recursive_cte step [] = Some []"
  by (simp add: recursive_cte.simps)

lemma recursive_cte_ends:
  assumes "cte_ends step w"
  shows "\<exists>xs. recursive_cte step w = Some xs"
proof -
  from assms obtain n where "(step ^^ n) w = []" by (auto simp: cte_ends_def)
  then show ?thesis
  proof (induction n arbitrary: w)
    case 0
    then show ?case by simp
  next
    case (Suc n)
    from Suc.prems have "(step ^^ n) (step w) = []" by (simp add: funpow_swap1)
    then obtain xs where "recursive_cte step (step w) = Some xs" using Suc.IH by blast
    then show ?case by (subst recursive_cte.simps) simp
  qed
qed

lemma funpow_join_append:
  "(join_step s ^^ n) (u @ v) = (join_step s ^^ n) u @ (join_step s ^^ n) v"
  by (induction n) (simp_all add: join_step_append)

lemma funpow_join_Nil: "(join_step s ^^ n) [] = []"
  by (induction n) simp_all

lemma funpow_join_later:
  assumes "(join_step s ^^ n) w = []" "n \<le> m"
  shows "(join_step s ^^ m) w = []"
proof -
  from assms(2) obtain k where "m = k + n" by (metis le_Suc_ex add.commute)
  with assms(1) show ?thesis by (simp add: funpow_add funpow_join_Nil)
qed

lemma cte_ends_append:
  assumes "cte_ends (join_step s) u" "cte_ends (join_step s) v"
  shows "cte_ends (join_step s) (u @ v)"
proof -
  from assms obtain n m where n: "(join_step s ^^ n) u = []" and m: "(join_step s ^^ m) v = []"
    by (auto simp: cte_ends_def)
  have "(join_step s ^^ (max n m)) u = []"
    by (rule funpow_join_later [OF n]) simp
  moreover have "(join_step s ^^ (max n m)) v = []"
    by (rule funpow_join_later [OF m]) simp
  ultimately have "(join_step s ^^ (max n m)) (u @ v) = []"
    by (simp only: funpow_join_append append_Nil)
  then show ?thesis unfolding cte_ends_def by blast
qed

lemma cte_ends_all:
  "(\<And>x. x \<in> set w \<Longrightarrow> cte_ends (join_step s) [x]) \<Longrightarrow> cte_ends (join_step s) w"
proof (induction w)
  case Nil
  have "(join_step s ^^ 0) [] = []" by simp
  then show ?case unfolding cte_ends_def by blast
next
  case (Cons x w)
  then have "cte_ends (join_step s) ([x] @ w)"
    by (intro cte_ends_append) auto
  then show ?case by simp
qed

lemma cte_ends_step:
  assumes "cte_ends step (step w)"
  shows "cte_ends step w"
proof -
  from assms obtain n where "(step ^^ n) (step w) = []" by (auto simp: cte_ends_def)
  then have "(step ^^ Suc n) w = []" by (simp add: funpow_swap1)
  then show ?thesis unfolding cte_ends_def by blast
qed

text \<open>A query whose joins go down a well-founded relation returns.\<close>

lemma cte_ends_wf:
  assumes "wf {(y, x). y \<in> set (s x)}"
  shows "cte_ends (join_step s) w"
proof (rule cte_ends_all)
  fix x
  show "cte_ends (join_step s) [x]"
    using assms
  proof (induction x rule: wf_induct_rule)
    case (less x)
    then have "cte_ends (join_step s) (join_step s [x])"
      by (auto intro: cte_ends_all)
    then show ?case by (rule cte_ends_step)
  qed
qed

text \<open>What a query that returns holds: the rows reachable from the start.\<close>

definition joins :: "('r \<Rightarrow> 'r list) \<Rightarrow> ('r \<times> 'r) set" where
  "joins s = {(x, y). y \<in> set (s x)}"

lemma set_join_step: "set (join_step s w) = joins s `` set w"
  by (auto simp: join_step_def joins_def)

lemma recursive_cte_set:
  assumes "recursive_cte (join_step s) w = Some xs"
  shows "set xs = (joins s)\<^sup>* `` set w"
proof (rule recursive_cte.raw_induct
    [where P = "\<lambda>step w xs. step = join_step s \<longrightarrow> set xs = (joins s)\<^sup>* `` set w",
      OF _ assms, THEN mp, OF _ refl])
  fix f step w xs
  assume IH: "\<And>step w xs. f step w = Some xs \<Longrightarrow>
        step = join_step s \<longrightarrow> set xs = (joins s)\<^sup>* `` set w"
    and eq: "(if w = [] then Some [] else Option.bind (f step (step w)) (\<lambda>rest. Some (w @ rest)))
       = Some xs"
  show "step = join_step s \<longrightarrow> set xs = (joins s)\<^sup>* `` set w"
  proof
    assume st: "step = join_step s"
    show "set xs = (joins s)\<^sup>* `` set w"
    proof (cases "w = []")
      case True
      with eq show ?thesis by simp
    next
      case False
      with eq obtain rest where "f step (step w) = Some rest" and xs: "xs = w @ rest"
        by (auto simp: bind_Some_iff)
      with IH st have rest: "set rest = (joins s)\<^sup>* `` (joins s `` set w)"
        by (simp add: set_join_step)
      have "(joins s)\<^sup>* `` set w = set w \<union> (joins s)\<^sup>* `` (joins s `` set w)"
        by (auto elim: converse_rtranclE intro: converse_rtrancl_into_rtrancl)
      with xs rest show ?thesis by simp
    qed
  qed
qed

end
