(* ===== verification/Schema.thy ===== *)
theory Schema
  imports Sql
begin

text \<open>
  The rows of the metadata tables, one record per Go struct, and the database state the
  services share.  Columns that only the database reads (a file's
  \<^verbatim>\<open>pending_upload_object_key\<close>) are fields of the row.
\<close>

record folder =
  f_id :: uuid
  f_ws :: uuid
  f_parent :: "uuid option"
  f_name :: string
  f_path :: string
  f_mode :: string
  f_created_by :: uuid
  f_created_at :: time
  f_updated_at :: time
  f_deleted_at :: "time option"

record file_row =
  fl_id :: uuid
  fl_ws :: uuid
  fl_folder :: uuid
  fl_name :: string
  fl_current :: "uuid option"
  fl_size :: int
  fl_mime :: string
  fl_created_by :: uuid
  fl_created_at :: time
  fl_updated_at :: time
  fl_deleted_at :: "time option"
  fl_pending :: "string option"

record file_version =
  v_id :: uuid
  v_file :: uuid
  v_number :: int
  v_key :: string
  v_size :: int
  v_checksum :: string
  v_created_by :: uuid
  v_created_at :: time
  v_scan_status :: string
  v_scan_detail :: string
  v_scanned_at :: "time option"

record document_row =
  d_id :: uuid
  d_ws :: uuid
  d_folder :: uuid
  d_name :: string
  d_collab :: string
  d_state :: string
  d_vector :: string
  d_floor :: int
  d_snapshot :: int
  d_created_by :: uuid
  d_created_at :: time
  d_updated_at :: time
  d_deleted_at :: "time option"

record permission =
  p_id :: uuid
  p_ws :: uuid
  p_rtype :: string
  p_rid :: uuid
  p_gtype :: string
  p_gid :: uuid
  p_role :: string
  p_created_at :: time
  p_expires_at :: "time option"

record share_link =
  sl_id :: uuid
  sl_ws :: uuid
  sl_rtype :: string
  sl_rid :: uuid
  sl_token :: string
  sl_pwhash :: "string option"
  sl_expires_at :: "time option"
  sl_max :: "int option"
  sl_count :: int
  sl_created_by :: uuid
  sl_created_at :: time

record guest_invite =
  gi_id :: uuid
  gi_ws :: uuid
  gi_email :: string
  gi_folder :: uuid
  gi_role :: string
  gi_expires_at :: "time option"
  gi_accepted_at :: "time option"
  gi_perm :: uuid
  gi_created_by :: uuid
  gi_created_at :: time

record client_room =
  cr_id :: uuid
  cr_ws :: uuid
  cr_name :: string
  cr_folder :: uuid
  cr_link :: uuid
  cr_dropbox :: bool
  cr_expires_at :: "time option"
  cr_created_by :: uuid
  cr_created_at :: time

record file_tag =
  t_id :: uuid
  t_file :: uuid
  t_ws :: uuid
  t_tag :: string
  t_created_by :: uuid
  t_created_at :: time

text \<open>The tables.  A service operation takes the database and returns the new one.\<close>

record db =
  folders :: "folder list"
  files :: "file_row list"
  versions :: "file_version list"
  documents :: "document_row list"
  permissions :: "permission list"
  share_links :: "share_link list"
  guest_invites :: "guest_invite list"
  client_rooms :: "client_room list"
  file_tags :: "file_tag list"

definition empty_db :: db where
  "empty_db = \<lparr>folders = [], files = [], versions = [], documents = [], permissions = [],
     share_links = [], guest_invites = [], client_rooms = [], file_tags = []\<rparr>"

text \<open>A row is visible to the services while it is not soft-deleted.\<close>

definition live :: "folder \<Rightarrow> bool" where
  "live f = (f_deleted_at f = None)"

definition file_live :: "file_row \<Rightarrow> bool" where
  "file_live f = (fl_deleted_at f = None)"

definition doc_live :: "document_row \<Rightarrow> bool" where
  "doc_live d = (d_deleted_at d = None)"

end
