(* ===== verification/Folders.thy ===== *)
theory Folders
  imports Schema
begin

text \<open>
  Package \<^verbatim>\<open>internal/folder\<close>: the folder tree of a workspace, kept as rows
  with a parent pointer and a materialized path, and the operations of its repository
  and service.
\<close>

section \<open>Encryption modes and names\<close>

definition EncryptionManagedEncrypted :: string where
  "EncryptionManagedEncrypted = ''managed_encrypted''"

definition EncryptionStrictZK :: string where
  "EncryptionStrictZK = ''strict_zk''"

definition IsValidEncryptionMode :: "string \<Rightarrow> bool" where
  "IsValidEncryptionMode m = (m = EncryptionManagedEncrypted \<or> m = EncryptionStrictZK)"

definition isValidFolderName :: "string \<Rightarrow> bool" where
  "isValidFolderName name = (name \<noteq> [] \<and> \<not> ContainsByte name CHR ''/'')"

definition sameEncryptionMode :: "string \<Rightarrow> string \<Rightarrow> bool" where
  "sameEncryptionMode a b =
     ((if a = [] then EncryptionManagedEncrypted else a) =
      (if b = [] then EncryptionManagedEncrypted else b))"

datatype folder_error =
    FolderErrInvalidName
  | FolderErrInvalidParent
  | FolderErrInvalidEncryptionMode
  | FolderErrEncryptionModeMismatch
  | FolderErrNotFound
  | FolderErrDB string
  | FolderErrResolver

section \<open>The repository\<close>

text \<open>\<^verbatim>\<open>label\<close> names the call, so that the environment can let any one of
  several lookups of an operation fail.\<close>

definition folder_GetByID :: "faults \<Rightarrow> string \<Rightarrow> db \<Rightarrow> uuid \<Rightarrow> uuid \<Rightarrow> folder_error + folder" where
  "folder_GetByID flt label d ws fid =
     (if flt label then Inl (FolderErrDB label)
      else case find (\<lambda>f. f_ws f = ws \<and> f_id f = fid \<and> live f) (folders d) of
             None \<Rightarrow> Inl FolderErrNotFound
           | Some f \<Rightarrow> Inr f)"

text \<open>The two partial unique indexes of migration 002: no two visible folders of a
  workspace share parent and name.\<close>

definition sibling_clash :: "uuid \<Rightarrow> uuid option \<Rightarrow> string \<Rightarrow> uuid \<Rightarrow> folder list \<Rightarrow> bool" where
  "sibling_clash ws par name fid rows =
     (\<exists>r \<in> set rows. live r \<and> f_ws r = ws \<and> f_parent r = par \<and> f_name r = name \<and> f_id r \<noteq> fid)"

definition folder_row_Create ::
  "faults \<Rightarrow> uuid \<Rightarrow> time \<Rightarrow> folder \<Rightarrow> db \<Rightarrow> (folder_error + folder) \<times> db" where
  "folder_row_Create flt new now f d =
     (let f = (if f_id f = uuid_Nil then f\<lparr>f_id := new\<rparr> else f);
          f = (if f_mode f = [] then f\<lparr>f_mode := EncryptionManagedEncrypted\<rparr> else f);
          f = f\<lparr>f_created_at := now, f_updated_at := now, f_deleted_at := None\<rparr>
      in if flt ''insert folder''
            \<or> f_id f \<in> f_id ` set (folders d)
            \<or> (case f_parent f of None \<Rightarrow> False | Some p \<Rightarrow> p \<notin> f_id ` set (folders d))
            \<or> sibling_clash (f_ws f) (f_parent f) (f_name f) (f_id f) (folders d)
         then (Inl (FolderErrDB ''insert folder''), d)
         else (Inr f, d\<lparr>folders := folders d @ [f]\<rparr>))"

text \<open>Single-row writes of the repository.  The service does not call them; they are part
  of the repository interface.\<close>

definition single_update ::
  "faults \<Rightarrow> string \<Rightarrow> uuid \<Rightarrow> uuid \<Rightarrow> (folder \<Rightarrow> folder) \<Rightarrow> (folder list \<Rightarrow> bool) \<Rightarrow> db
     \<Rightarrow> folder_error option \<times> db" where
  "single_update flt label ws fid u clash d =
     (let target = (\<lambda>r. f_ws r = ws \<and> f_id r = fid \<and> live r)
      in if flt label \<or> clash (filter target (folders d)) then (Some (FolderErrDB label), d)
         else if rows_affected target (folders d) = 0 then (Some FolderErrNotFound, d)
         else (None, d\<lparr>folders := update_rows target u (folders d)\<rparr>))"

definition UpdateNameAndPath ::
  "faults \<Rightarrow> time \<Rightarrow> uuid \<Rightarrow> uuid \<Rightarrow> string \<Rightarrow> string \<Rightarrow> db \<Rightarrow> folder_error option \<times> db" where
  "UpdateNameAndPath flt now ws fid name path d =
     single_update flt ''rename folder'' ws fid
       (\<lambda>r. r\<lparr>f_name := name, f_path := path, f_updated_at := now\<rparr>)
       (\<lambda>rs. \<exists>r \<in> set rs. sibling_clash ws (f_parent r) name fid (folders d)) d"

definition UpdateParentAndPath ::
  "faults \<Rightarrow> time \<Rightarrow> uuid \<Rightarrow> uuid \<Rightarrow> uuid option \<Rightarrow> string \<Rightarrow> db \<Rightarrow> folder_error option \<times> db" where
  "UpdateParentAndPath flt now ws fid par path d =
     single_update flt ''move folder'' ws fid
       (\<lambda>r. r\<lparr>f_parent := par, f_path := path, f_updated_at := now\<rparr>)
       (\<lambda>rs. \<exists>r \<in> set rs. sibling_clash ws par (f_name r) fid (folders d)
              \<or> (case par of None \<Rightarrow> False | Some p \<Rightarrow> p \<notin> f_id ` set (folders d))) d"

definition SoftDelete :: "faults \<Rightarrow> time \<Rightarrow> uuid \<Rightarrow> uuid \<Rightarrow> db \<Rightarrow> folder_error option \<times> db" where
  "SoftDelete flt now ws fid d =
     single_update flt ''delete folder'' ws fid
       (\<lambda>r. r\<lparr>f_deleted_at := Some now, f_updated_at := now\<rparr>) (\<lambda>_. False) d"

definition escapeLikePattern :: "string \<Rightarrow> string" where
  "escapeLikePattern s =
     ReplaceAllByte
       (ReplaceAllByte
         (ReplaceAllByte s CHR 0x5C [CHR 0x5C, CHR 0x5C])
         CHR ''%'' [CHR 0x5C, CHR ''%''])
       CHR ''_'' [CHR 0x5C, CHR ''_'']"

text \<open>The second statement of a rename or move: it rewrites the path of every other
  visible folder below the old path.\<close>

definition rewrite_descendants ::
  "time \<Rightarrow> uuid \<Rightarrow> uuid \<Rightarrow> string \<Rightarrow> string \<Rightarrow> folder list \<Rightarrow> folder list" where
  "rewrite_descendants now ws fid oldPath newPath rows =
     update_rows
       (\<lambda>r. f_ws r = ws \<and> live r \<and> f_id r \<noteq> fid
            \<and> like (escapeLikePattern oldPath @ ''%'') (f_path r))
       (\<lambda>r. r\<lparr>f_path := newPath @ drop (length oldPath) (f_path r), f_updated_at := now\<rparr>)
       rows"

definition RenameWithDescendants ::
  "faults \<Rightarrow> time \<Rightarrow> uuid \<Rightarrow> uuid \<Rightarrow> string \<Rightarrow> string \<Rightarrow> string \<Rightarrow> db \<Rightarrow> folder_error option \<times> db" where
  "RenameWithDescendants flt now ws fid newName oldPath newPath d =
     (let target = (\<lambda>r. f_ws r = ws \<and> f_id r = fid \<and> live r);
          rows = update_rows target
                   (\<lambda>r. r\<lparr>f_name := newName, f_path := newPath, f_updated_at := now\<rparr>) (folders d)
      in if flt ''begin rename'' then (Some (FolderErrDB ''begin rename''), d)
         else if flt ''rename folder''
                 \<or> (\<exists>r \<in> set (folders d). target r \<and>
                      sibling_clash ws (f_parent r) newName fid (folders d))
              then (Some (FolderErrDB ''rename folder''), d)
         else if rows_affected target (folders d) = 0 then (Some FolderErrNotFound, d)
         else if flt ''rewrite descendant paths''
              then (Some (FolderErrDB ''rewrite descendant paths''), d)
         else if flt ''commit rename'' then (Some (FolderErrDB ''commit rename''), d)
         else (None, d\<lparr>folders := rewrite_descendants now ws fid oldPath newPath rows\<rparr>))"

definition MoveWithDescendants ::
  "faults \<Rightarrow> time \<Rightarrow> uuid \<Rightarrow> uuid \<Rightarrow> uuid option \<Rightarrow> string \<Rightarrow> string \<Rightarrow> db \<Rightarrow> folder_error option \<times> db" where
  "MoveWithDescendants flt now ws fid newParent oldPath newPath d =
     (let target = (\<lambda>r. f_ws r = ws \<and> f_id r = fid \<and> live r);
          rows = update_rows target
                   (\<lambda>r. r\<lparr>f_parent := newParent, f_path := newPath, f_updated_at := now\<rparr>) (folders d)
      in if flt ''begin move'' then (Some (FolderErrDB ''begin move''), d)
         else if flt ''move folder''
                 \<or> (\<exists>r \<in> set (folders d). target r \<and>
                      (sibling_clash ws newParent (f_name r) fid (folders d)
                       \<or> (case newParent of None \<Rightarrow> False | Some p \<Rightarrow> p \<notin> f_id ` set (folders d))))
              then (Some (FolderErrDB ''move folder''), d)
         else if rows_affected target (folders d) = 0 then (Some FolderErrNotFound, d)
         else if flt ''rewrite descendant paths''
              then (Some (FolderErrDB ''rewrite descendant paths''), d)
         else if flt ''commit move'' then (Some (FolderErrDB ''commit move''), d)
         else (None, d\<lparr>folders := rewrite_descendants now ws fid oldPath newPath rows\<rparr>))"

text \<open>The recursive queries.  \<open>subtree_rows\<close> walks down the parent pointers of the rows
  that satisfy \<open>vis\<close>, from the row with the given id.\<close>

definition child_rows :: "(folder \<Rightarrow> bool) \<Rightarrow> uuid \<Rightarrow> folder list \<Rightarrow> folder \<Rightarrow> folder list" where
  "child_rows vis ws rows s = filter (\<lambda>f. f_parent f = Some (f_id s) \<and> f_ws f = ws \<and> vis f) rows"

definition subtree_rows :: "(folder \<Rightarrow> bool) \<Rightarrow> uuid \<Rightarrow> uuid \<Rightarrow> folder list \<Rightarrow> folder list option" where
  "subtree_rows vis ws fid rows =
     recursive_cte (join_step (child_rows vis ws rows))
       (filter (\<lambda>f. f_ws f = ws \<and> f_id f = fid \<and> vis f) rows)"

definition ListDescendants :: "faults \<Rightarrow> db \<Rightarrow> uuid \<Rightarrow> uuid \<Rightarrow> (folder_error + folder list) option" where
  "ListDescendants flt d ws fid =
     (if flt ''list descendants'' then Some (Inl (FolderErrDB ''list descendants''))
      else map_option Inr
        (recursive_cte (join_step (child_rows live ws (folders d)))
          (filter (\<lambda>f. f_ws f = ws \<and> f_parent f = Some fid \<and> live f) (folders d))))"

definition parent_rows :: "uuid \<Rightarrow> folder list \<Rightarrow> folder \<Rightarrow> folder list" where
  "parent_rows ws rows c = filter (\<lambda>f. Some (f_id f) = f_parent c \<and> f_ws f = ws \<and> live f) rows"

text \<open>\<^verbatim>\<open>ORDER BY path\<close> sorts by the collation of the database, a parameter: the
  sort key of a text value.\<close>

definition GetAncestors ::
  "(string \<Rightarrow> 'k::linorder) \<Rightarrow> faults \<Rightarrow> db \<Rightarrow> uuid \<Rightarrow> uuid \<Rightarrow> (folder_error + folder list) option" where
  "GetAncestors collate flt d ws fid =
     (if flt ''get ancestors'' then Some (Inl (FolderErrDB ''get ancestors''))
      else map_option
        (\<lambda>chain. Inr (sort_key (\<lambda>f. collate (f_path f)) (filter (\<lambda>f. f_id f \<noteq> fid) chain)))
        (recursive_cte (join_step (parent_rows ws (folders d)))
          (filter (\<lambda>f. f_ws f = ws \<and> f_id f = fid \<and> live f) (folders d))))"

definition ListChildren ::
  "(string \<Rightarrow> 'k::linorder) \<Rightarrow> faults \<Rightarrow> db \<Rightarrow> uuid \<Rightarrow> uuid option \<Rightarrow> folder_error + folder list" where
  "ListChildren collate flt d ws par =
     (if flt ''list children'' then Inl (FolderErrDB ''list children'')
      else Inr (sort_key (\<lambda>f. collate (f_name f))
             (filter (\<lambda>f. f_ws f = ws \<and> f_parent f = par \<and> live f) (folders d))))"

text \<open>\<^verbatim>\<open>SoftDeleteSubtree\<close>: three cascades in one transaction.  The first
  walks visible folders only; the other two walk every folder row, as the rows of the
  first have just been marked deleted.\<close>

definition SoftDeleteSubtree ::
  "faults \<Rightarrow> time \<Rightarrow> uuid \<Rightarrow> uuid \<Rightarrow> db \<Rightarrow> (folder_error option \<times> db) option" where
  "SoftDeleteSubtree flt now ws fid d =
     (if flt ''begin subtree delete'' then Some (Some (FolderErrDB ''begin subtree delete''), d)
      else if flt ''delete folder subtree'' then Some (Some (FolderErrDB ''delete folder subtree''), d)
      else do {
        sub \<leftarrow> subtree_rows live ws fid (folders d);
        let hit = (\<lambda>r. f_ws r = ws \<and> f_id r \<in> f_id ` set sub \<and> live r);
        if rows_affected hit (folders d) = 0 then Some (Some FolderErrNotFound, d)
        else do {
          let rows = update_rows hit
                       (\<lambda>r. r\<lparr>f_deleted_at := Some now, f_updated_at := now\<rparr>) (folders d);
          if flt ''delete files in subtree''
          then Some (Some (FolderErrDB ''delete files in subtree''), d)
          else do {
            all \<leftarrow> subtree_rows (\<lambda>_. True) ws fid rows;
            let fls = update_rows
                        (\<lambda>r. fl_ws r = ws \<and> fl_folder r \<in> f_id ` set all \<and> file_live r)
                        (\<lambda>r. r\<lparr>fl_deleted_at := Some now, fl_updated_at := now\<rparr>) (files d);
            if flt ''delete documents in subtree''
            then Some (Some (FolderErrDB ''delete documents in subtree''), d)
            else do {
              let docs = update_rows
                           (\<lambda>r. d_ws r = ws \<and> d_folder r \<in> f_id ` set all \<and> doc_live r)
                           (\<lambda>r. r\<lparr>d_deleted_at := Some now, d_updated_at := now\<rparr>) (documents d);
              if flt ''commit subtree delete''
              then Some (Some (FolderErrDB ''commit subtree delete''), d)
              else Some (None, d\<lparr>folders := rows, files := fls, documents := docs\<rparr>)
            }
          }
        }
      })"

definition EncryptionModeForFile :: "faults \<Rightarrow> db \<Rightarrow> uuid \<Rightarrow> folder_error + string" where
  "EncryptionModeForFile flt d fileID =
     (if flt ''lookup encryption mode by file''
      then Inl (FolderErrDB ''lookup encryption mode by file'')
      else case find (\<lambda>(x, f). f_id f = fl_folder x \<and> fl_id x = fileID \<and> file_live x \<and> live f)
                  (List.product (files d) (folders d)) of
             None \<Rightarrow> Inr []
           | Some (x, f) \<Rightarrow> Inr (f_mode f))"

section \<open>The service\<close>

text \<open>The workspace's default mode comes from an optional resolver, a parameter.\<close>

type_synonym default_mode_resolver = "(uuid \<Rightarrow> folder_error + string) option"

definition resolveRootDefaultMode :: "default_mode_resolver \<Rightarrow> uuid \<Rightarrow> folder_error + string" where
  "resolveRootDefaultMode wsDefaults ws =
     (case wsDefaults of
        None \<Rightarrow> Inr EncryptionManagedEncrypted
      | Some get \<Rightarrow>
          (case get ws of
             Inl e \<Rightarrow> Inl e
           | Inr mode \<Rightarrow>
               if \<not> IsValidEncryptionMode mode then Inl FolderErrInvalidEncryptionMode
               else Inr mode))"

definition new_folder_row :: "uuid \<Rightarrow> uuid option \<Rightarrow> string \<Rightarrow> string \<Rightarrow> string \<Rightarrow> uuid \<Rightarrow> folder" where
  "new_folder_row ws par name path mode createdBy =
     \<lparr>f_id = uuid_Nil, f_ws = ws, f_parent = par, f_name = name, f_path = path, f_mode = mode,
      f_created_by = createdBy, f_created_at = 0, f_updated_at = 0, f_deleted_at = None\<rparr>"

definition CreateWithMode ::
  "default_mode_resolver \<Rightarrow> faults \<Rightarrow> uuid \<Rightarrow> time \<Rightarrow> uuid \<Rightarrow> uuid option \<Rightarrow> string \<Rightarrow> string \<Rightarrow> uuid
     \<Rightarrow> db \<Rightarrow> (folder_error + folder) \<times> db" where
  "CreateWithMode wsDefaults flt new now ws parentID name0 encryptionMode createdBy d =
     (let name = TrimSpace name0 in
      if \<not> isValidFolderName name then (Inl FolderErrInvalidName, d)
      else if encryptionMode \<noteq> [] \<and> \<not> IsValidEncryptionMode encryptionMode
           then (Inl FolderErrInvalidEncryptionMode, d)
      else case parentID of
        None \<Rightarrow>
          (let path = ''/'' @ name @ ''/'' in
           if encryptionMode = [] then
             (case resolveRootDefaultMode wsDefaults ws of
                Inl e \<Rightarrow> (Inl e, d)
              | Inr resolved \<Rightarrow>
                  folder_row_Create flt new now (new_folder_row ws None name path resolved createdBy) d)
           else folder_row_Create flt new now
                  (new_folder_row ws None name path encryptionMode createdBy) d)
      | Some pid \<Rightarrow>
          (case folder_GetByID flt ''get parent'' d ws pid of
             Inl e \<Rightarrow> (Inl (if e = FolderErrNotFound then FolderErrInvalidParent else e), d)
           | Inr parent \<Rightarrow>
               (let mode = (if f_mode parent = [] then EncryptionManagedEncrypted else f_mode parent)
                in folder_row_Create flt new now
                     (new_folder_row ws (Some pid) name (f_path parent @ name @ ''/'') mode createdBy) d)))"

definition folder_Create ::
  "default_mode_resolver \<Rightarrow> faults \<Rightarrow> uuid \<Rightarrow> time \<Rightarrow> uuid \<Rightarrow> uuid option \<Rightarrow> string \<Rightarrow> uuid
     \<Rightarrow> db \<Rightarrow> (folder_error + folder) \<times> db" where
  "folder_Create wsDefaults flt new now ws parentID name createdBy d =
     CreateWithMode wsDefaults flt new now ws parentID name [] createdBy d"

definition parent_path_of :: "string \<Rightarrow> string" where
  "parent_path_of oldPath =
     (let trimmed = TrimSuffix oldPath ''/'' in
      if trimmed \<noteq> [] then
        (case LastIndexByte trimmed CHR ''/'' of
           Some idx \<Rightarrow> take (idx + 1) trimmed
         | None \<Rightarrow> ''/'')
      else ''/'')"

definition folder_Rename ::
  "faults \<Rightarrow> time \<Rightarrow> uuid \<Rightarrow> uuid \<Rightarrow> string \<Rightarrow> db \<Rightarrow> (folder_error + folder) \<times> db" where
  "folder_Rename flt now ws fid newName0 d =
     (let newName = TrimSpace newName0 in
      if \<not> isValidFolderName newName then (Inl FolderErrInvalidName, d)
      else case folder_GetByID flt ''get folder'' d ws fid of
        Inl e \<Rightarrow> (Inl e, d)
      | Inr f \<Rightarrow>
          (let oldPath = f_path f;
               newPath = parent_path_of oldPath @ newName @ ''/''
           in case RenameWithDescendants flt now ws fid newName oldPath newPath d of
                (Some e, d') \<Rightarrow> (Inl e, d')
              | (None, d') \<Rightarrow> (Inr (f\<lparr>f_name := newName, f_path := newPath\<rparr>), d')))"

text \<open>\<^verbatim>\<open>Move\<close>: its validation yields the path of the new parent, or an error.\<close>

definition move_parent_path ::
  "faults \<Rightarrow> db \<Rightarrow> uuid \<Rightarrow> uuid \<Rightarrow> folder \<Rightarrow> uuid option \<Rightarrow> folder_error + string" where
  "move_parent_path flt d ws fid f newParentID =
     (case newParentID of
        None \<Rightarrow>
          if f_mode f \<noteq> [] \<and> f_mode f \<noteq> EncryptionManagedEncrypted
          then Inl FolderErrEncryptionModeMismatch else Inr ''/''
      | Some pid \<Rightarrow>
          if pid = fid then Inl FolderErrInvalidParent
          else (case folder_GetByID flt ''get new parent'' d ws pid of
                  Inl e \<Rightarrow> Inl (if e = FolderErrNotFound then FolderErrInvalidParent else e)
                | Inr parent \<Rightarrow>
                    if HasPrefix (f_path parent) (f_path f) then Inl FolderErrInvalidParent
                    else if \<not> sameEncryptionMode (f_mode f) (f_mode parent)
                         then Inl FolderErrEncryptionModeMismatch
                    else Inr (f_path parent)))"

definition folder_Move ::
  "faults \<Rightarrow> time \<Rightarrow> uuid \<Rightarrow> uuid \<Rightarrow> uuid option \<Rightarrow> db \<Rightarrow> (folder_error + folder) \<times> db" where
  "folder_Move flt now ws fid newParentID d =
     (case folder_GetByID flt ''get folder'' d ws fid of
        Inl e \<Rightarrow> (Inl e, d)
      | Inr f \<Rightarrow>
          (case move_parent_path flt d ws fid f newParentID of
             Inl e \<Rightarrow> (Inl e, d)
           | Inr newParentPath \<Rightarrow>
               (let oldPath = f_path f; newPath = newParentPath @ f_name f @ ''/''
                in case MoveWithDescendants flt now ws fid newParentID oldPath newPath d of
                     (Some e, d') \<Rightarrow> (Inl e, d')
                   | (None, d') \<Rightarrow>
                       (Inr (f\<lparr>f_parent := newParentID, f_path := newPath\<rparr>), d'))))"

definition folder_Delete :: "faults \<Rightarrow> time \<Rightarrow> uuid \<Rightarrow> uuid \<Rightarrow> db \<Rightarrow> (folder_error option \<times> db) option" where
  "folder_Delete flt now ws fid d = SoftDeleteSubtree flt now ws fid d"

end
