(* ===== verification/Folder_Tree.thy ===== *)
theory Folder_Tree
  imports Folders
begin

text \<open>
  The invariant of the folder table and its preservation: the visible folders of a
  workspace form a forest, their materialized paths spell the chain of names from the
  root, names are unique among siblings, and a whole tree has one encryption mode.
\<close>

section \<open>LIKE with an escaped prefix is a prefix test\<close>

lemma escapeLikePattern_Nil [simp]: "escapeLikePattern [] = []"
  by (simp add: escapeLikePattern_def ReplaceAllByte_def)

lemma escapeLikePattern_Cons:
  "escapeLikePattern (x # s) =
     (if x = CHR 0x5C \<or> x = CHR ''%'' \<or> x = CHR ''_'' then [CHR 0x5C, x] else [x])
       @ escapeLikePattern s"
  by (auto simp: escapeLikePattern_def ReplaceAllByte_def)

lemma like_escaped_prefix: "like (escapeLikePattern p @ ''%'') t = prefix p t"
proof (induction p arbitrary: t)
  case Nil
  show ?case by (simp del: like.simps)
next
  case (Cons x p)
  then show ?case
    by (cases t) (auto simp: escapeLikePattern_Cons)
qed

section \<open>Materialized paths\<close>

definition path_of :: "string list \<Rightarrow> string" where
  "path_of ns = ''/'' @ concat (map (\<lambda>n. n @ ''/'') ns)"

definition names_ok :: "string list \<Rightarrow> bool" where
  "names_ok ns = (\<forall>n \<in> set ns. isValidFolderName n)"

lemma isValidFolderName_iff: "isValidFolderName n \<longleftrightarrow> n \<noteq> [] \<and> CHR ''/'' \<notin> set n"
  by (simp add: isValidFolderName_def ContainsByte_def)

lemma names_ok_simps [simp]:
  "names_ok []"
  "names_ok (n # ns) \<longleftrightarrow> isValidFolderName n \<and> names_ok ns"
  "names_ok (ms @ ns) \<longleftrightarrow> names_ok ms \<and> names_ok ns"
  by (auto simp: names_ok_def)

lemma path_of_snoc: "path_of (ns @ [n]) = path_of ns @ n @ ''/''"
  by (simp add: path_of_def)

lemma prefix_path_segments:
  assumes "names_ok ms" "names_ok ns"
    and "prefix (concat (map (\<lambda>n. n @ ''/'') ms)) (concat (map (\<lambda>n. n @ ''/'') ns))"
  shows "prefix ms ns"
  using assms
proof (induction ms arbitrary: ns)
  case Nil
  then show ?case by simp
next
  case (Cons m ms)
  from Cons.prems(3) obtain n ns' where ns: "ns = n # ns'"
    by (cases ns) (auto simp: prefix_def)
  from Cons.prems(3) obtain r where
    eq: "m @ CHR ''/'' # (concat (map (\<lambda>n. n @ ''/'') ms) @ r)
         = n @ CHR ''/'' # concat (map (\<lambda>n. n @ ''/'') ns')"
    by (auto simp: ns prefix_def)
  have "m = n \<and> concat (map (\<lambda>n. n @ ''/'') ms) @ r = concat (map (\<lambda>n. n @ ''/'') ns')"
    by (rule split_at_char [THEN iffD1, OF _ _ eq]) (use Cons.prems ns in \<open>auto simp: isValidFolderName_iff\<close>)
  with Cons show ?case by (auto simp: ns prefix_def)
qed

lemma prefix_path_of:
  assumes "names_ok ms" "names_ok ns"
  shows "prefix (path_of ms) (path_of ns) \<longleftrightarrow> prefix ms ns"
  using prefix_path_segments [OF assms] by (auto simp: path_of_def prefix_def)

lemma path_of_inject:
  assumes "names_ok ms" "names_ok ns" "path_of ms = path_of ns"
  shows "ms = ns"
  using assms prefix_path_of [of ms ns] prefix_path_of [of ns ms]
  by (simp add: prefix_order.eq_iff)

lemma parent_path_of_snoc:
  assumes "names_ok (ns @ [n])"
  shows "parent_path_of (path_of (ns @ [n])) = path_of ns"
proof -
  obtain p where p: "path_of ns = p @ ''/''"
    by (cases ns rule: rev_cases) (auto simp: path_of_def)
  have trim: "TrimSuffix (path_of (ns @ [n])) ''/'' = p @ CHR ''/'' # n"
    using TrimSuffix_append [of "p @ CHR ''/'' # n" "''/''"] by (simp add: path_of_snoc p)
  have "LastIndexByte (p @ CHR ''/'' # n) CHR ''/'' = Some (length p)"
    using assms by (intro LastIndexByte_append) (auto simp: isValidFolderName_iff)
  then show ?thesis
    unfolding parent_path_of_def trim by (simp add: p)
qed

section \<open>The invariant\<close>

text \<open>\<open>placed rows f\<close>: the parent pointer, path and mode of \<open>f\<close> agree with its parent row.\<close>

definition placed :: "folder list \<Rightarrow> folder \<Rightarrow> bool" where
  "placed rows f =
     (case f_parent f of
        None \<Rightarrow> f_path f = ''/'' @ f_name f @ ''/''
      | Some p \<Rightarrow> (\<exists>g \<in> set rows. live g \<and> f_id g = p \<and> f_ws g = f_ws f
                    \<and> f_path f = f_path g @ f_name f @ ''/'' \<and> f_mode f = f_mode g))"

definition siblings_unique :: "folder list \<Rightarrow> bool" where
  "siblings_unique rows =
     (\<forall>f \<in> set rows. \<forall>g \<in> set rows. live f \<and> live g \<and> f_ws f = f_ws g \<and> f_parent f = f_parent g
        \<and> f_name f = f_name g \<longrightarrow> f = g)"

text \<open>\<open>parents rows\<close>: child and parent id of every row, soft-deleted rows included.\<close>

definition parents :: "folder list \<Rightarrow> (uuid \<times> uuid) set" where
  "parents rows = {(f_id f, p) | f p. f \<in> set rows \<and> f_parent f = Some p}"

definition tree_inv :: "folder list \<Rightarrow> bool" where
  "tree_inv rows =
     (distinct (map f_id rows)
      \<and> (\<forall>f \<in> set rows. live f \<longrightarrow> isValidFolderName (f_name f) \<and> IsValidEncryptionMode (f_mode f)
            \<and> placed rows f)
      \<and> siblings_unique rows
      \<and> Range (parents rows) \<subseteq> f_id ` set rows
      \<and> acyclic (parents rows))"

lemma tree_invD:
  assumes "tree_inv rows" "f \<in> set rows" "live f"
  shows "isValidFolderName (f_name f)" "IsValidEncryptionMode (f_mode f)" "placed rows f"
  using assms by (auto simp: tree_inv_def)

lemma tree_inv_id:
  assumes "tree_inv rows" "f \<in> set rows" "g \<in> set rows" "f_id f = f_id g"
  shows "f = g"
  using assms by (auto simp: tree_inv_def intro: distinct_map_inj)

lemma tree_inv_Nil [simp]: "tree_inv []"
  by (simp add: tree_inv_def siblings_unique_def parents_def acyclic_def)

lemma parents_iff:
  "(a, b) \<in> parents rows \<longleftrightarrow> (\<exists>f \<in> set rows. f_id f = a \<and> f_parent f = Some b)"
  by (auto simp: parents_def)

text \<open>Every visible folder's path spells a non-empty list of valid names.\<close>

lemma names_exist:
  assumes inv: "tree_inv rows"
  shows "f \<in> set rows \<Longrightarrow> live f \<Longrightarrow> \<exists>ns. names_ok (ns @ [f_name f]) \<and> f_path f = path_of (ns @ [f_name f])"
proof (induction "length (f_path f)" arbitrary: f rule: less_induct)
  case less
  note D = tree_invD [OF inv less.prems]
  show ?case
  proof (cases "f_parent f")
    case None
    with D show ?thesis
      by (intro exI [of _ "[]"]) (auto simp: placed_def path_of_def)
  next
    case (Some p)
    with D obtain g where g: "g \<in> set rows" "live g" "f_path f = f_path g @ f_name f @ ''/''"
      by (auto simp: placed_def)
    then have "length (f_path g) < length (f_path f)" by simp
    from less.hyps [OF this g(1,2)] obtain ns where
      "names_ok (ns @ [f_name g])" "f_path g = path_of (ns @ [f_name g])" by blast
    with g(3) D(1) show ?thesis
      by (intro exI [of _ "ns @ [f_name g]"]) (simp add: path_of_def)
  qed
qed

definition names :: "folder \<Rightarrow> string list" where
  "names f = (THE ns. names_ok ns \<and> f_path f = path_of ns)"

lemma names_spec:
  assumes "tree_inv rows" "f \<in> set rows" "live f"
  shows "names_ok (names f)" "f_path f = path_of (names f)" "names f \<noteq> []"
    "last (names f) = f_name f"
proof -
  from names_exist [OF assms] obtain ns where
    ns: "names_ok (ns @ [f_name f])" "f_path f = path_of (ns @ [f_name f])" by blast
  then have "names f = ns @ [f_name f]"
    unfolding names_def by (intro the_equality) (auto intro: path_of_inject)
  with ns show "names_ok (names f)" "f_path f = path_of (names f)" "names f \<noteq> []"
    "last (names f) = f_name f" by auto
qed

lemma names_eqI:
  assumes "tree_inv rows" "f \<in> set rows" "live f" "names_ok ns" "f_path f = path_of ns"
  shows "names f = ns"
  using names_spec [OF assms(1-3)] assms(4,5) by (metis path_of_inject)

lemma names_root:
  assumes "tree_inv rows" "f \<in> set rows" "live f" "f_parent f = None"
  shows "names f = [f_name f]"
  using tree_invD [OF assms(1-3)] assms(4)
  by (intro names_eqI [OF assms(1-3)]) (auto simp: placed_def path_of_def)

lemma names_child:
  assumes "tree_inv rows" "f \<in> set rows" "live f" "f_parent f = Some p"
  obtains g where "g \<in> set rows" "live g" "f_id g = p" "f_ws g = f_ws f"
    "f_mode f = f_mode g" "names f = names g @ [f_name f]"
    "f_path f = f_path g @ f_name f @ ''/''"
proof -
  from tree_invD [OF assms(1-3)] assms(4) obtain g where
    g: "g \<in> set rows" "live g" "f_id g = p" "f_ws g = f_ws f"
      "f_path f = f_path g @ f_name f @ ''/''" "f_mode f = f_mode g"
    by (auto simp: placed_def)
  have "names f = names g @ [f_name f]"
    using names_spec [OF assms(1) g(1,2)] tree_invD(1) [OF assms(1-3)] g(5)
    by (intro names_eqI [OF assms(1-3)]) (auto simp: path_of_snoc)
  with g that show ?thesis by blast
qed

text \<open>A path identifies a visible folder of a workspace.\<close>

lemma path_unique:
  assumes inv: "tree_inv rows"
  shows "f \<in> set rows \<Longrightarrow> live f \<Longrightarrow> g \<in> set rows \<Longrightarrow> live g \<Longrightarrow> f_ws f = f_ws g
     \<Longrightarrow> f_path f = f_path g \<Longrightarrow> f = g"
proof (induction "length (f_path f)" arbitrary: f g rule: less_induct)
  case less
  have same: "names f = names g" by (simp add: names_def less.prems)
  have name: "f_name f = f_name g"
    using names_spec(4) [OF inv less.prems(1,2)] names_spec(4) [OF inv less.prems(3,4)] same by simp
  have "f_parent f = f_parent g"
  proof (cases "f_parent f"; cases "f_parent g")
    fix p q assume p: "f_parent f = Some p" and q: "f_parent g = Some q"
    obtain f' where f': "f' \<in> set rows" "live f'" "f_id f' = p" "f_ws f' = f_ws f"
        "f_path f = f_path f' @ f_name f @ ''/''"
      using names_child [OF inv less.prems(1,2) p] by metis
    obtain g' where g': "g' \<in> set rows" "live g'" "f_id g' = q" "f_ws g' = f_ws g"
        "f_path g = f_path g' @ f_name g @ ''/''"
      using names_child [OF inv less.prems(3,4) q] by metis
    have "f' = g'"
      using f' g' less.prems name by (intro less.hyps) auto
    with f' g' p q show ?thesis by simp
  next
    fix q assume "f_parent f = None" and q: "f_parent g = Some q"
    with names_root [OF inv less.prems(1,2)] same have "names g = [f_name f]" by simp
    with names_child [OF inv less.prems(3,4) q] names_spec(3) [OF inv] show ?thesis
      by (metis append_eq_Cons_conv append_is_Nil_conv not_Cons_self2)
  next
    fix p assume "f_parent g = None" and p: "f_parent f = Some p"
    with names_root [OF inv less.prems(3,4)] same have "names f = [f_name g]" by simp
    with names_child [OF inv less.prems(1,2) p] names_spec(3) [OF inv] show ?thesis
      by (metis append_eq_Cons_conv append_is_Nil_conv not_Cons_self2)
  qed simp
  with inv less.prems name show ?case by (auto simp: tree_inv_def siblings_unique_def)
qed

section \<open>Ancestors\<close>

text \<open>\<open>ancestor_of rows g f\<close>: following the parent pointers of visible folders up from \<open>f\<close>
  (zero or more times) reaches \<open>g\<close>.\<close>

inductive ancestor_of :: "folder list \<Rightarrow> folder \<Rightarrow> folder \<Rightarrow> bool" for rows where
  self: "f \<in> set rows \<Longrightarrow> live f \<Longrightarrow> ancestor_of rows f f"
| up: "f \<in> set rows \<Longrightarrow> live f \<Longrightarrow> f_parent f = Some (f_id h) \<Longrightarrow> f_ws h = f_ws f
       \<Longrightarrow> ancestor_of rows g h \<Longrightarrow> ancestor_of rows g f"

lemma ancestor_of_live:
  assumes "ancestor_of rows g f"
  shows "f \<in> set rows" "live f" "g \<in> set rows" "live g" "f_ws g = f_ws f"
  using assms by (induction rule: ancestor_of.induct) auto

lemma ancestor_of_names:
  assumes "tree_inv rows" "ancestor_of rows g f"
  shows "prefix (names g) (names f) \<and> f_mode g = f_mode f"
  using assms(2)
proof (induction rule: ancestor_of.induct)
  case (self f)
  then show ?case by simp
next
  case (up f h g)
  obtain h' where h': "h' \<in> set rows" "f_id h' = f_id h" "names f = names h' @ [f_name f]"
      "f_mode f = f_mode h'"
    using names_child [OF assms(1) up.hyps(1-3)] by metis
  moreover have "h' = h"
    using tree_inv_id [OF assms(1) h'(1) ancestor_of_live(1) [OF up.hyps(5)] h'(2)] .
  ultimately show ?case using up.IH by (auto intro: prefix_order.trans)
qed

lemma names_ancestor_of:
  assumes inv: "tree_inv rows"
  shows "g \<in> set rows \<Longrightarrow> live g \<Longrightarrow> f \<in> set rows \<Longrightarrow> live f \<Longrightarrow> f_ws g = f_ws f
     \<Longrightarrow> prefix (names g) (names f) \<Longrightarrow> ancestor_of rows g f"
proof (induction "length (names f)" arbitrary: f rule: less_induct)
  case less
  show ?case
  proof (cases "names g = names f")
    case True
    then have "f_path g = f_path f"
      using names_spec(2) [OF inv less.prems(1,2)] names_spec(2) [OF inv less.prems(3,4)] by simp
    with less.prems have "g = f" by (intro path_unique [OF inv]) auto
    with less.prems show ?thesis by (auto intro: ancestor_of.self)
  next
    case False
    show ?thesis
    proof (cases "f_parent f")
      case None
      then have "names f = [f_name f]" by (rule names_root [OF inv less.prems(3,4)])
      with False less.prems(6) names_spec(3) [OF inv less.prems(1,2)] show ?thesis
        by (auto simp: prefix_Cons)
    next
      case (Some p)
      obtain h where h: "h \<in> set rows" "live h" "f_id h = p" "f_ws h = f_ws f"
          "names f = names h @ [f_name f]"
        using names_child [OF inv less.prems(3,4) Some] by metis
      have "prefix (names g) (names h)" using less.prems(6) False h(5) by auto
      then have "ancestor_of rows g h" using h less.prems by (intro less.hyps) auto
      with less.prems(3,4) Some h show ?thesis by (auto intro: ancestor_of.up)
    qed
  qed
qed

lemma prefix_path_ancestor:
  assumes "tree_inv rows" "g \<in> set rows" "live g" "f \<in> set rows" "live f" "f_ws g = f_ws f"
  shows "prefix (f_path g) (f_path f) \<longleftrightarrow> ancestor_of rows g f"
proof -
  have "prefix (f_path g) (f_path f) \<longleftrightarrow> prefix (names g) (names f)"
    using names_spec [OF assms(1-3)] names_spec [OF assms(1,4,5)] by (simp add: prefix_path_of)
  with names_ancestor_of [OF assms] ancestor_of_names [OF assms(1)] show ?thesis by blast
qed

section \<open>Relocating a subtree\<close>

text \<open>
  A rename and a move are the same update of the table: one folder \<open>f\<close> becomes \<open>f'\<close>, and the
  paths below it are rewritten.  \<open>relocated f f' now r\<close> is what row \<open>r\<close> becomes.
\<close>

definition below :: "folder \<Rightarrow> folder \<Rightarrow> bool" where
  "below f r = (f_ws r = f_ws f \<and> live r \<and> f_id r \<noteq> f_id f \<and> prefix (f_path f) (f_path r))"

definition relocated :: "folder \<Rightarrow> folder \<Rightarrow> time \<Rightarrow> folder \<Rightarrow> folder" where
  "relocated f f' now r =
     (if r = f then f'
      else if below f r
      then r\<lparr>f_path := f_path f' @ drop (length (f_path f)) (f_path r), f_updated_at := now\<rparr>
      else r)"

lemma relocate_rows:
  assumes inv: "tree_inv rows" and f: "f \<in> set rows" "live f"
    and f': "u f = f'" "f_id f' = f_id f"
  shows "rewrite_descendants now (f_ws f) (f_id f) (f_path f) (f_path f')
           (update_rows (\<lambda>r. f_ws r = f_ws f \<and> f_id r = f_id f \<and> live r) u rows)
         = map (relocated f f' now) rows"
proof -
  have "r = f" if "r \<in> set rows" "f_id r = f_id f" for r
    using tree_inv_id [OF inv that(1) f(1) that(2)] .
  with f f' show ?thesis
    unfolding rewrite_descendants_def update_rows_def like_escaped_prefix
    by (auto simp: relocated_def below_def)
qed

lemma relocated_fields [simp]:
  "f_id (relocated f f' now r) = (if r = f then f_id f' else f_id r)"
  "f_ws (relocated f f' now r) = (if r = f then f_ws f' else f_ws r)"
  "f_mode (relocated f f' now r) = (if r = f then f_mode f' else f_mode r)"
  "f_name (relocated f f' now r) = (if r = f then f_name f' else f_name r)"
  "f_parent (relocated f f' now r) = (if r = f then f_parent f' else f_parent r)"
  "f_deleted_at (relocated f f' now r) = (if r = f then f_deleted_at f' else f_deleted_at r)"
  by (auto simp: relocated_def)

lemma live_relocated [simp]: "live (relocated f f' now r) = (if r = f then live f' else live r)"
  by (auto simp: live_def)

lemma relocated_path:
  "f_path (relocated f f' now r) =
     (if r = f then f_path f'
      else if below f r then f_path f' @ drop (length (f_path f)) (f_path r) else f_path r)"
  by (auto simp: relocated_def)

text \<open>The parent of a folder strictly below \<open>f\<close> is \<open>f\<close> or strictly below it, and the parent
  of any other folder is not below \<open>f\<close>.\<close>

lemma below_parent:
  assumes inv: "tree_inv rows" and f: "f \<in> set rows" "live f"
    and r: "r \<in> set rows" "live r" "f_parent r = Some p"
    and g: "g \<in> set rows" "live g" "f_id g = p" "f_ws g = f_ws r"
      "f_path r = f_path g @ f_name r @ ''/''"
  shows "r \<noteq> f \<Longrightarrow> below f r \<longleftrightarrow> (g = f \<or> below f g)"
proof -
  assume "r \<noteq> f"
  then have ids: "f_id r \<noteq> f_id f" using tree_inv_id [OF inv r(1) f(1)] by blast
  show ?thesis
  proof
    assume b: "below f r"
    then have "ancestor_of rows f r"
      using prefix_path_ancestor [OF inv f r(1,2)] by (simp add: below_def)
    then show "g = f \<or> below f g"
    proof (cases rule: ancestor_of.cases)
      case self
      with \<open>r \<noteq> f\<close> show ?thesis by simp
    next
      case (up h)
      have "f_id h = f_id g" using up(3) r(3) g(3) by simp
      then have "h = g" by (rule tree_inv_id [OF inv ancestor_of_live(1) [OF up(5)] g(1)])
      with up have "prefix (f_path f) (f_path g)"
        using prefix_path_ancestor [OF inv f g(1,2)] ancestor_of_live(5) [OF up(5)] by simp
      with b g tree_inv_id [OF inv g(1) f(1)] show ?thesis by (auto simp: below_def)
    qed
  next
    assume "g = f \<or> below f g"
    then have "prefix (f_path f) (f_path g)" "f_ws g = f_ws f" by (auto simp: below_def)
    then have "prefix (f_path f) (f_path r)" "f_ws r = f_ws f"
      using g(4,5) by (simp_all add: prefix_prefix)
    with r ids show "below f r" by (simp add: below_def)
  qed
qed

lemma not_below_root:
  assumes inv: "tree_inv rows" and f: "f \<in> set rows" "live f"
    and r: "r \<in> set rows" "live r" "f_parent r = None"
  shows "\<not> below f r"
proof
  assume b: "below f r"
  then have "ancestor_of rows f r"
    using prefix_path_ancestor [OF inv f r(1,2)] by (simp add: below_def)
  then have "r = f" using r(3) by (cases rule: ancestor_of.cases) auto
  with b show False by (simp add: below_def)
qed

text \<open>What the new row must satisfy: it keeps identity and mode, and it is placed under a
  parent outside the subtree (or at the root) with a name no sibling has.\<close>

definition relocation_ok :: "folder list \<Rightarrow> folder \<Rightarrow> folder \<Rightarrow> bool" where
  "relocation_ok rows f f' =
     (f_id f' = f_id f \<and> f_ws f' = f_ws f \<and> f_mode f' = f_mode f \<and> f_deleted_at f' = None
      \<and> isValidFolderName (f_name f')
      \<and> (case f_parent f' of
            None \<Rightarrow> f_path f' = ''/'' @ f_name f' @ ''/''
          | Some p \<Rightarrow> (\<exists>g \<in> set rows. live g \<and> f_id g = p \<and> f_ws g = f_ws f \<and> f_mode g = f_mode f
               \<and> \<not> prefix (f_path f) (f_path g) \<and> f_path f' = f_path g @ f_name f' @ ''/''))
      \<and> \<not> sibling_clash (f_ws f) (f_parent f') (f_name f') (f_id f) rows)"

lemma relocated_placed:
  assumes inv: "tree_inv rows" and f: "f \<in> set rows" "live f"
    and ok: "relocation_ok rows f f'" and r: "r \<in> set rows" "live r"
  shows "placed (map (relocated f f' now) rows) (relocated f f' now r)"
proof (cases "r = f")
  case True
  show ?thesis
  proof (cases "f_parent f'")
    case None
    with ok True show ?thesis by (simp add: placed_def relocation_ok_def relocated_def)
  next
    case (Some p)
    with ok obtain g where g: "g \<in> set rows" "live g" "f_id g = p" "f_ws g = f_ws f"
        "f_mode g = f_mode f" "\<not> prefix (f_path f) (f_path g)"
        "f_path f' = f_path g @ f_name f' @ ''/''"
      by (auto simp: relocation_ok_def)
    then have same: "relocated f f' now g = g" by (auto simp: relocated_def below_def)
    have "relocated f f' now f = f'" by (simp add: relocated_def)
    with True Some g same ok show ?thesis
      unfolding placed_def relocation_ok_def by (auto intro!: bexI [of _ g])
  qed
next
  case False
  show ?thesis
  proof (cases "f_parent r")
    case None
    with not_below_root [OF inv f r] tree_invD(3) [OF inv r] False show ?thesis
      by (simp add: placed_def relocated_path)
  next
    case (Some p)
    obtain g where g: "g \<in> set rows" "live g" "f_id g = p" "f_ws g = f_ws r"
        "f_mode r = f_mode g" "f_path r = f_path g @ f_name r @ ''/''"
      using names_child [OF inv r Some] by metis
    note step = below_parent [OF inv f r Some g(1-4) g(6) False]
    have path: "f_path (relocated f f' now r) =
        f_path (relocated f f' now g) @ f_name r @ ''/''"
      using step g(6) by (auto simp: relocated_path below_def False dest: prefix_length_le)
    have keep: "f_id f' = f_id f" "f_ws f' = f_ws f" "f_mode f' = f_mode f" "live f'"
      using ok by (auto simp: relocation_ok_def live_def)
    show ?thesis
      unfolding placed_def using Some False path keep g
      by (auto intro!: bexI [of _ g])
  qed
qed

lemma relocate_siblings:
  assumes inv: "tree_inv rows" and ok: "relocation_ok rows f f'" and f: "f \<in> set rows"
  shows "siblings_unique (map (relocated f f' now) rows)"
  unfolding siblings_unique_def
proof (clarsimp split del: if_split)
  fix r s
  assume rs: "r \<in> set rows" "s \<in> set rows"
    and same: "if r = f then live f' else live r" "if s = f then live f' else live s"
      "(if r = f then f_ws f' else f_ws r) = (if s = f then f_ws f' else f_ws s)"
      "(if r = f then f_parent f' else f_parent r) = (if s = f then f_parent f' else f_parent s)"
      "(if r = f then f_name f' else f_name r) = (if s = f then f_name f' else f_name s)"
  have clash: "g = f" if "g \<in> set rows" "live g" "f_ws g = f_ws f" "f_parent g = f_parent f'"
      "f_name g = f_name f'" for g
  proof -
    have "\<not> sibling_clash (f_ws f) (f_parent f') (f_name f') (f_id f) rows"
      using ok by (simp add: relocation_ok_def)
    with that have "f_id g = f_id f" by (auto simp: sibling_clash_def)
    then show ?thesis by (rule tree_inv_id [OF inv that(1) f])
  qed
  have ws: "f_ws f' = f_ws f" using ok by (simp add: relocation_ok_def)
  consider "r = f" | "s = f" | "r \<noteq> f" "s \<noteq> f" by blast
  then have "r = s"
  proof cases
    case 1
    with same ws show ?thesis using clash [OF rs(2)] by (cases "s = f") auto
  next
    case 2
    with same ws show ?thesis using clash [OF rs(1)] by (cases "r = f") auto
  next
    case 3
    with same rs inv show ?thesis by (auto simp: tree_inv_def siblings_unique_def)
  qed
  then show "relocated f f' now r = relocated f f' now s" by simp
qed

lemma ancestors_live:
  assumes inv: "tree_inv rows" and g: "g \<in> set rows" "live g"
    and r: "(f_id g, x) \<in> (parents rows)\<^sup>*"
  shows "\<exists>h. ancestor_of rows h g \<and> f_id h = x"
  using r g
proof (induction "f_id g" arbitrary: g rule: converse_rtrancl_induct)
  case base
  then show ?case by (auto intro: ancestor_of.self)
next
  case (step z)
  then obtain g' where "g' \<in> set rows" "f_id g' = f_id g" "f_parent g' = Some z"
    by (auto simp: parents_iff)
  with step.prems have par: "f_parent g = Some z"
    using tree_inv_id [OF inv] by metis
  obtain h where h: "h \<in> set rows" "live h" "f_id h = z" "f_ws h = f_ws g"
    using names_child [OF inv step.prems par] by metis
  from step.hyps(3) [of h] h obtain k where "ancestor_of rows k h" "f_id k = x" by blast
  with h par step.prems show ?case by (auto intro: ancestor_of.up)
qed

lemma parents_relocated:
  assumes inv: "tree_inv rows" and f: "f \<in> set rows" and "f_id f' = f_id f"
  shows "parents (map (relocated f f' now) rows) =
     {(a, b) \<in> parents rows. a \<noteq> f_id f} \<union> {(f_id f, p) | p. f_parent f' = Some p}"
proof -
  have ids: "r = f" if "r \<in> set rows" "f_id r = f_id f" for r
    using tree_inv_id [OF inv that(1) f that(2)] .
  have "(a, b) \<in> parents (map (relocated f f' now) rows) \<longleftrightarrow>
      (a, b) \<in> {(a, b) \<in> parents rows. a \<noteq> f_id f} \<union> {(f_id f, p) | p. f_parent f' = Some p}" for a b
  proof (cases "a = f_id f")
    case True
    then show ?thesis using assms(3) f
      by (auto simp: parents_iff dest: ids split: if_splits intro!: bexI [of _ f])
  next
    case False
    then show ?thesis using assms(3)
      by (force simp: parents_iff split: if_splits)
  qed
  then show ?thesis by auto
qed

lemma relocate_acyclic:
  assumes inv: "tree_inv rows" and f: "f \<in> set rows" "live f" and ok: "relocation_ok rows f f'"
  shows "acyclic (parents (map (relocated f f' now) rows))"
proof -
  let ?r = "{(a, b) \<in> parents rows. a \<noteq> f_id f}"
  have eq: "parents (map (relocated f f' now) rows) = ?r \<union> {(f_id f, p) | p. f_parent f' = Some p}"
    using ok by (intro parents_relocated [OF inv f(1)]) (simp add: relocation_ok_def)
  have acyc: "acyclic ?r"
    by (rule acyclic_subset [of "parents rows"]) (use inv in \<open>auto simp: tree_inv_def\<close>)
  show ?thesis
  proof (cases "f_parent f'")
    case None
    with eq acyc show ?thesis by simp
  next
    case (Some p)
    with ok obtain g where g: "g \<in> set rows" "live g" "f_id g = p" "f_ws g = f_ws f"
        "\<not> prefix (f_path f) (f_path g)"
      by (auto simp: relocation_ok_def)
    have "(p, f_id f) \<notin> ?r\<^sup>*"
    proof
      assume "(p, f_id f) \<in> ?r\<^sup>*"
      then have "(f_id g, f_id f) \<in> (parents rows)\<^sup>*"
        using rtrancl_mono [of ?r "parents rows"] g(3) by auto
      from ancestors_live [OF inv g(1,2) this] obtain h where
        h: "ancestor_of rows h g" "f_id h = f_id f" by blast
      then have "h = f" using tree_inv_id [OF inv ancestor_of_live(3) [OF h(1)] f(1)] by simp
      with h g f show False using prefix_path_ancestor [OF inv f g(1,2)] by simp
    qed
    with Some eq acyc show ?thesis by simp
  qed
qed

lemma relocate_tree_inv:
  assumes inv: "tree_inv rows" and f: "f \<in> set rows" "live f" and ok: "relocation_ok rows f f'"
  shows "tree_inv (map (relocated f f' now) rows)"
proof -
  have keep: "f_id f' = f_id f" "f_mode f' = f_mode f" "isValidFolderName (f_name f')"
    using ok by (auto simp: relocation_ok_def)
  have "map f_id (map (relocated f f' now) rows) = map f_id rows"
    using keep by auto
  then have "distinct (map f_id (map (relocated f f' now) rows))"
    using inv by (simp only: tree_inv_def)
  moreover have "isValidFolderName (f_name r') \<and> IsValidEncryptionMode (f_mode r')
      \<and> placed (map (relocated f f' now) rows) r'"
    if "r' \<in> set (map (relocated f f' now) rows)" "live r'" for r'
  proof -
    from that obtain r where r: "r \<in> set rows" "r' = relocated f f' now r" by auto
    with that(2) f have "live r" by (auto split: if_splits)
    with r relocated_placed [OF inv f ok r(1)] tree_invD [OF inv r(1)] tree_invD(2) [OF inv f] keep
    show ?thesis by simp
  qed
  moreover have "Range (parents (map (relocated f f' now) rows))
      \<subseteq> f_id ` set (map (relocated f f' now) rows)"
  proof -
    have "f_id ` set (map (relocated f f' now) rows) = f_id ` set rows"
      using keep by (auto simp: image_image intro!: image_cong)
    moreover have "p \<in> f_id ` set rows" if "f_parent f' = Some p" for p
      using ok that by (auto simp: relocation_ok_def)
    ultimately show ?thesis
      using inv parents_relocated [OF inv f(1) keep(1)] by (auto simp: tree_inv_def)
  qed
  ultimately show ?thesis
    using relocate_siblings [OF inv ok f(1)] relocate_acyclic [OF inv f ok]
    by (auto simp: tree_inv_def)
qed

end
