(* ===== verification/Folder_Service.thy ===== *)
theory Folder_Service
  imports Folder_Tree "HOL-Library.List_Lexorder" "HOL-Library.Char_ord" "HOL-Library.Multiset"
begin

text \<open>
  What the operations of \<^verbatim>\<open>folder.Service\<close> do to the folder table: they keep the
  tree invariant, fail without a trace, relocate or delete exactly one subtree.
\<close>

section \<open>Lookup\<close>

lemma folder_GetByID_Inr:
  assumes "folder_GetByID flt l d ws fid = Inr f"
  shows "f \<in> set (folders d)" "f_ws f = ws" "f_id f = fid" "live f"
  using assms by (auto simp: folder_GetByID_def split: if_splits option.splits dest: find_SomeD)

lemma folder_GetByID_live:
  assumes "tree_inv (folders d)" "f \<in> set (folders d)" "live f" "\<not> flt l"
  shows "folder_GetByID flt l d (f_ws f) (f_id f) = Inr f"
proof -
  have "find (\<lambda>g. f_ws g = f_ws f \<and> f_id g = f_id f \<and> live g) (folders d) = Some f"
    using assms tree_inv_id by (intro find_unique) auto
  with assms(4) show ?thesis by (simp add: folder_GetByID_def)
qed

section \<open>Create\<close>

lemma tree_inv_snoc:
  assumes inv: "tree_inv rows" and fresh: "f_id f \<notin> f_id ` set rows"
    and valid: "isValidFolderName (f_name f)" "IsValidEncryptionMode (f_mode f)"
    and place: "placed rows f" and live: "live f"
    and clash: "\<not> sibling_clash (f_ws f) (f_parent f) (f_name f) (f_id f) rows"
  shows "tree_inv (rows @ [f])"
proof -
  have placed: "placed rows g \<Longrightarrow> placed (rows @ [f]) g" for g
    by (auto simp: placed_def split: option.splits)
  have par: "p \<in> f_id ` set rows" if "f_parent f = Some p" for p
    using place that by (auto simp: placed_def)
  have eq: "parents (rows @ [f]) = parents rows \<union> {(f_id f, p) | p. f_parent f = Some p}"
    by (auto simp: parents_def)
  have range: "Range (parents rows) \<subseteq> f_id ` set rows" and acyc: "acyclic (parents rows)"
    using inv by (auto simp: tree_inv_def)
  have "(p, f_id f) \<notin> (parents rows)\<^sup>*" if "f_parent f = Some p" for p
  proof
    assume "(p, f_id f) \<in> (parents rows)\<^sup>*"
    then have "p = f_id f \<or> f_id f \<in> Range (parents rows)" by (cases rule: rtranclE) auto
    with par [OF that] fresh range show False by (metis subsetD)
  qed
  then have "acyclic (parents (rows @ [f]))"
    using eq acyc by (cases "f_parent f") auto
  moreover have "siblings_unique (rows @ [f])"
  proof -
    have no: False if "g \<in> set rows" "live g" "f_ws g = f_ws f" "f_parent g = f_parent f"
        "f_name g = f_name f" for g
      using that clash fresh unfolding sibling_clash_def by (metis image_eqI)
    have "siblings_unique rows" using inv by (simp add: tree_inv_def)
    then show ?thesis unfolding siblings_unique_def
      by (intro ballI impI) (auto dest: no no [OF _ _ sym sym sym])
  qed
  moreover have "Range (parents (rows @ [f])) \<subseteq> f_id ` set (rows @ [f])"
    using range par by (auto simp: eq)
  ultimately show ?thesis
    using inv fresh valid placed place live by (auto simp: tree_inv_def)
qed

lemma folder_row_Create_Inl: "folder_row_Create flt new now r d = (Inl e, d') \<Longrightarrow> d' = d"
  by (auto simp: folder_row_Create_def Let_def split: if_splits)

lemma folder_row_Create_Inr:
  assumes "folder_row_Create flt new now r d = (Inr f, d')"
  shows "d' = d\<lparr>folders := folders d @ [f]\<rparr>" "f_id f \<notin> f_id ` set (folders d)" "live f"
    "f_ws f = f_ws r" "f_parent f = f_parent r" "f_name f = f_name r" "f_path f = f_path r"
    "f_mode f = (if f_mode r = [] then EncryptionManagedEncrypted else f_mode r)"
    "\<not> sibling_clash (f_ws f) (f_parent f) (f_name f) (f_id f) (folders d)"
  using assms by (auto simp: folder_row_Create_def Let_def live_def split: if_splits)

lemma resolveRootDefaultMode_valid:
  "resolveRootDefaultMode dm ws = Inr mode \<Longrightarrow> IsValidEncryptionMode mode"
  by (auto simp: resolveRootDefaultMode_def IsValidEncryptionMode_def
      split: option.splits sum.splits if_splits)

lemma valid_mode_nonempty: "IsValidEncryptionMode m \<Longrightarrow> m \<noteq> []"
  by (auto simp: IsValidEncryptionMode_def EncryptionManagedEncrypted_def EncryptionStrictZK_def)

lemma CreateWithMode_Inl:
  "CreateWithMode dm flt new now ws par name m by d = (Inl e, d') \<Longrightarrow> d' = d"
  by (auto simp: CreateWithMode_def Let_def split: if_splits option.splits sum.splits
      dest: folder_row_Create_Inl)

text \<open>A successful \<^verbatim>\<open>CreateWithMode\<close> validated the name and inserted one row.\<close>

lemma CreateWithMode_insert:
  assumes "CreateWithMode dm flt new now ws par name m by d = (Inr f, d')"
  obtains path mode where
    "folder_row_Create flt new now (new_folder_row ws par (TrimSpace name) path mode by) d = (Inr f, d')"
    "isValidFolderName (TrimSpace name)"
    "case par of
       None \<Rightarrow> path = ''/'' @ TrimSpace name @ ''/'' \<and>
         (if m = [] then resolveRootDefaultMode dm ws = Inr mode else mode = m \<and> IsValidEncryptionMode m)
     | Some p \<Rightarrow> (\<exists>g. folder_GetByID flt ''get parent'' d ws p = Inr g
         \<and> path = f_path g @ TrimSpace name @ ''/''
         \<and> mode = (if f_mode g = [] then EncryptionManagedEncrypted else f_mode g))"
proof -
  let ?n = "TrimSpace name"
  have v: "isValidFolderName ?n" and m: "m = [] \<or> IsValidEncryptionMode m"
    using assms by (auto simp: CreateWithMode_def Let_def split: if_splits)
  show thesis
  proof (cases par)
    case None
    show thesis
    proof (cases "m = []")
      case True
      with assms v None obtain mode where "resolveRootDefaultMode dm ws = Inr mode"
        "folder_row_Create flt new now (new_folder_row ws None ?n (''/'' @ ?n @ ''/'') mode by) d = (Inr f, d')"
        by (auto simp: CreateWithMode_def Let_def split: sum.splits)
      with None True v that show thesis by simp
    next
      case False
      with assms v None m have
        "folder_row_Create flt new now (new_folder_row ws None ?n (''/'' @ ?n @ ''/'') m by) d = (Inr f, d')"
        by (auto simp: CreateWithMode_def Let_def)
      with None False v m that show thesis by simp
    qed
  next
    case (Some p)
    with assms v m obtain g where g: "folder_GetByID flt ''get parent'' d ws p = Inr g"
      and row: "folder_row_Create flt new now (new_folder_row ws (Some p) ?n (f_path g @ ?n @ ''/'')
         (if f_mode g = [] then EncryptionManagedEncrypted else f_mode g) by) d = (Inr f, d')"
      by (auto simp: CreateWithMode_def Let_def split: sum.splits)
    show thesis
      by (rule that [of "f_path g @ ?n @ ''/''" "if f_mode g = [] then EncryptionManagedEncrypted else f_mode g"])
         (use Some g row v in simp_all)
  qed
qed

lemma CreateWithMode_tree_inv:
  assumes inv: "tree_inv (folders d)"
    and eq: "CreateWithMode dm flt new now ws par name m by d = (res, d')"
  shows "tree_inv (folders d')"
proof (cases res)
  case (Inl e)
  with eq inv show ?thesis by (auto dest: CreateWithMode_Inl)
next
  case (Inr f)
    obtain path mode where
      row: "folder_row_Create flt new now (new_folder_row ws par (TrimSpace name) path mode by) d = (Inr f, d')"
      and v: "isValidFolderName (TrimSpace name)"
      and how: "case par of
       None \<Rightarrow> path = ''/'' @ TrimSpace name @ ''/'' \<and>
         (if m = [] then resolveRootDefaultMode dm ws = Inr mode else mode = m \<and> IsValidEncryptionMode m)
     | Some p \<Rightarrow> (\<exists>g. folder_GetByID flt ''get parent'' d ws p = Inr g
         \<and> path = f_path g @ TrimSpace name @ ''/''
         \<and> mode = (if f_mode g = [] then EncryptionManagedEncrypted else f_mode g))"
      by (rule CreateWithMode_insert [OF eq [unfolded Inr]])
    note f = folder_row_Create_Inr [OF row, unfolded new_folder_row_def, simplified]
    have "IsValidEncryptionMode (f_mode f) \<and> placed (folders d) f"
    proof (cases par)
      case None
      with how have "IsValidEncryptionMode mode"
        by (auto split: if_splits dest: resolveRootDefaultMode_valid)
      with None how f valid_mode_nonempty show ?thesis by (auto simp: placed_def)
    next
      case (Some p)
      with how obtain g where g: "folder_GetByID flt ''get parent'' d ws p = Inr g"
          "path = f_path g @ TrimSpace name @ ''/''"
          "mode = (if f_mode g = [] then EncryptionManagedEncrypted else f_mode g)" by auto
      note gd = folder_GetByID_Inr [OF g(1)]
      have "IsValidEncryptionMode (f_mode g)" by (rule tree_invD(2) [OF inv gd(1,4)])
      with Some f g gd valid_mode_nonempty show ?thesis
        by (auto simp: placed_def intro!: bexI [of _ g])
    qed
    with f v inv show ?thesis by (auto intro!: tree_inv_snoc)
qed

section \<open>Rename and move\<close>

lemma RenameWithDescendants_error:
  "RenameWithDescendants flt now ws fid n op np d = (Some e, d') \<Longrightarrow> d' = d"
  by (auto simp: RenameWithDescendants_def Let_def split: if_splits)

lemma MoveWithDescendants_error:
  "MoveWithDescendants flt now ws fid par op np d = (Some e, d') \<Longrightarrow> d' = d"
  by (auto simp: MoveWithDescendants_def Let_def split: if_splits)

lemma folder_Rename_Inl: "folder_Rename flt now ws fid n d = (Inl e, d') \<Longrightarrow> d' = d"
  by (auto simp: folder_Rename_def Let_def split: if_splits sum.splits prod.splits option.splits
      dest: RenameWithDescendants_error)

lemma folder_Move_Inl: "folder_Move flt now ws fid par d = (Inl e, d') \<Longrightarrow> d' = d"
  by (auto simp: folder_Move_def Let_def split: if_splits sum.splits prod.splits option.splits
      dest: MoveWithDescendants_error)

text \<open>A rename that succeeds relocates the folder to its new name under the same parent.\<close>

lemma folder_Rename_Inr:
  assumes inv: "tree_inv (folders d)" and ok: "folder_Rename flt now ws fid n d = (Inr r, d')"
  obtains f f' where "f \<in> set (folders d)" "live f" "f_ws f = ws" "f_id f = fid"
    "f' = f\<lparr>f_name := TrimSpace n, f_path := parent_path_of (f_path f) @ TrimSpace n @ ''/'',
            f_updated_at := now\<rparr>"
    "relocation_ok (folders d) f f'" "d' = d\<lparr>folders := map (relocated f f' now) (folders d)\<rparr>"
proof -
  from ok obtain f where get: "folder_GetByID flt ''get folder'' d ws fid = Inr f"
    and v: "isValidFolderName (TrimSpace n)"
    and ren: "RenameWithDescendants flt now ws fid (TrimSpace n) (f_path f)
                (parent_path_of (f_path f) @ TrimSpace n @ ''/'') d = (None, d')"
    by (auto simp: folder_Rename_def Let_def split: if_splits sum.splits prod.splits option.splits)
  note f = folder_GetByID_Inr [OF get]
  let ?u = "\<lambda>r. r\<lparr>f_name := TrimSpace n, f_path := parent_path_of (f_path f) @ TrimSpace n @ ''/'',
            f_updated_at := now\<rparr>"
  have clash: "\<not> sibling_clash ws (f_parent f) (TrimSpace n) fid (folders d)"
    and d': "d' = d\<lparr>folders := rewrite_descendants now ws fid (f_path f)
        (parent_path_of (f_path f) @ TrimSpace n @ ''/'')
        (update_rows (\<lambda>r. f_ws r = ws \<and> f_id r = fid \<and> live r) ?u (folders d))\<rparr>"
    using ren f by (auto simp: RenameWithDescendants_def Let_def split: if_splits)
  have "relocation_ok (folders d) f (?u f)"
  proof (cases "f_parent f")
    case None
    have "parent_path_of (f_path f) = ''/''"
      using parent_path_of_snoc [of "[]" "f_name f"] names_root [OF inv f(1,4) None]
        names_spec [OF inv f(1,4)] by (simp add: path_of_def)
    with None f v clash show ?thesis by (auto simp: relocation_ok_def live_def)
  next
    case (Some p)
    obtain g where g: "g \<in> set (folders d)" "live g" "f_id g = p" "f_ws g = f_ws f"
        "f_mode f = f_mode g" "names f = names g @ [f_name f]"
        "f_path f = f_path g @ f_name f @ ''/''"
      using names_child [OF inv f(1,4) Some] by metis
    have "parent_path_of (f_path f) = f_path g"
      using parent_path_of_snoc [of "names g" "f_name f"] names_spec [OF inv f(1,4)]
        names_spec [OF inv g(1,2)] g(6) by simp
    moreover have "\<not> prefix (f_path f) (f_path g)"
      using g(7) by (auto simp: prefix_def)
    ultimately show ?thesis using Some f v clash g
      by (auto simp: relocation_ok_def live_def intro!: bexI [of _ g])
  qed
  moreover have "d' = d\<lparr>folders := map (relocated f (?u f) now) (folders d)\<rparr>"
    using d' relocate_rows [OF inv f(1,4), of ?u "?u f" now] f by simp
  ultimately show thesis using f that by blast
qed

text \<open>A move that succeeds relocates the folder, under its name, to the new parent.\<close>

lemma folder_Move_Inr:
  assumes inv: "tree_inv (folders d)" and ok: "folder_Move flt now ws fid par d = (Inr r, d')"
  obtains f f' where "f \<in> set (folders d)" "live f" "f_ws f = ws" "f_id f = fid"
    "f_parent f' = par" "f_name f' = f_name f"
    "relocation_ok (folders d) f f'" "d' = d\<lparr>folders := map (relocated f f' now) (folders d)\<rparr>"
    "r = f\<lparr>f_parent := par, f_path := f_path f'\<rparr>"
    "par = None \<Longrightarrow> f_mode f = EncryptionManagedEncrypted"
proof -
  from ok obtain f pp where get: "folder_GetByID flt ''get folder'' d ws fid = Inr f"
    and pp: "move_parent_path flt d ws fid f par = Inr pp"
    and mv: "MoveWithDescendants flt now ws fid par (f_path f) (pp @ f_name f @ ''/'') d = (None, d')"
    and r: "r = f\<lparr>f_parent := par, f_path := pp @ f_name f @ ''/''\<rparr>"
    by (auto simp: folder_Move_def Let_def split: if_splits sum.splits prod.splits option.splits)
  note f = folder_GetByID_Inr [OF get]
  let ?u = "\<lambda>r. r\<lparr>f_parent := par, f_path := pp @ f_name f @ ''/'', f_updated_at := now\<rparr>"
  have clash: "\<not> sibling_clash ws par (f_name f) fid (folders d)"
    and d': "d' = d\<lparr>folders := rewrite_descendants now ws fid (f_path f) (pp @ f_name f @ ''/'')
        (update_rows (\<lambda>r. f_ws r = ws \<and> f_id r = fid \<and> live r) ?u (folders d))\<rparr>"
    using mv f by (auto simp: MoveWithDescendants_def Let_def split: if_splits)
  have mode: "IsValidEncryptionMode (f_mode f)" and name: "isValidFolderName (f_name f)"
    using tree_invD [OF inv f(1,4)] by auto
  have "relocation_ok (folders d) f (?u f)"
  proof (cases par)
    case None
    with pp f name clash show ?thesis
      by (auto simp: relocation_ok_def live_def move_parent_path_def split: if_splits)
  next
    case (Some p)
    with pp obtain g where "folder_GetByID flt ''get new parent'' d ws p = Inr g"
      and g: "\<not> prefix (f_path f) (f_path g)" "sameEncryptionMode (f_mode f) (f_mode g)" "pp = f_path g"
      by (auto simp: move_parent_path_def HasPrefix_def split: if_splits sum.splits)
    note gd = folder_GetByID_Inr [OF this(1)]
    have "f_mode g = f_mode f"
      using g(2) valid_mode_nonempty [OF mode] valid_mode_nonempty [OF tree_invD(2) [OF inv gd(1,4)]]
      by (simp add: sameEncryptionMode_def)
    with Some f name clash g gd show ?thesis
      by (auto simp: relocation_ok_def live_def intro!: bexI [of _ g])
  qed
  moreover have "d' = d\<lparr>folders := map (relocated f (?u f) now) (folders d)\<rparr>"
    using d' relocate_rows [OF inv f(1,4), of ?u "?u f" now] f by simp
  moreover have "f_mode f = EncryptionManagedEncrypted" if "par = None"
    using pp that valid_mode_nonempty [OF mode]
    by (auto simp: move_parent_path_def split: if_splits)
  ultimately show thesis using f r by (intro that [of f "?u f"]) auto
qed

lemma folder_Rename_tree_inv:
  assumes inv: "tree_inv (folders d)" and eq: "folder_Rename flt now ws fid n d = (res, d')"
  shows "tree_inv (folders d')"
proof (cases res)
  case (Inl e)
  with eq inv show ?thesis by (auto dest: folder_Rename_Inl)
next
  case (Inr r)
  with eq obtain f f' where "f \<in> set (folders d)" "live f" "relocation_ok (folders d) f f'"
    "d' = d\<lparr>folders := map (relocated f f' now) (folders d)\<rparr>"
    using folder_Rename_Inr [OF inv] by metis
  with relocate_tree_inv [OF inv] show ?thesis by simp
qed

lemma folder_Move_tree_inv:
  assumes inv: "tree_inv (folders d)" and eq: "folder_Move flt now ws fid par d = (res, d')"
  shows "tree_inv (folders d')"
proof (cases res)
  case (Inl e)
  with eq inv show ?thesis by (auto dest: folder_Move_Inl)
next
  case (Inr r)
  with eq obtain f f' where "f \<in> set (folders d)" "live f" "relocation_ok (folders d) f f'"
    "d' = d\<lparr>folders := map (relocated f f' now) (folders d)\<rparr>"
    using folder_Move_Inr [OF inv] by metis
  with relocate_tree_inv [OF inv] show ?thesis by simp
qed

section \<open>The recursive queries return\<close>

lemma finite_parents: "finite (parents rows)"
proof -
  have "parents rows \<subseteq> (\<lambda>f. (f_id f, the (f_parent f))) ` set rows"
    by (force simp: parents_def)
  then show ?thesis by (rule finite_subset) simp
qed

lemma wf_child_rows:
  assumes "acyclic (parents rows)"
  shows "wf {(y, x). y \<in> set (child_rows vis ws rows x)}"
proof -
  have "wf (inv_image (parents rows) f_id)"
    using assms finite_parents by (intro wf_inv_image finite_acyclic_wf)
  then show ?thesis
    by (rule wf_subset) (auto simp: child_rows_def parents_iff)
qed

lemma wf_parent_rows:
  assumes inv: "tree_inv rows"
  shows "wf {(y, x). y \<in> set (filter (\<lambda>f. Some (f_id f) = f_parent x \<and> f_ws f = ws \<and> live f) rows)
                  \<and> x \<in> set rows}"
proof -
  have "wf (inv_image ((parents rows)\<inverse>) f_id)"
    using inv finite_parents by (intro wf_inv_image finite_acyclic_wf_converse) (auto simp: tree_inv_def)
  then show ?thesis
    by (rule wf_subset) (auto simp: parents_iff)
qed

lemma joins_child_rows:
  "(x, y) \<in> joins (child_rows vis ws rows) \<longleftrightarrow>
     y \<in> set rows \<and> f_parent y = Some (f_id x) \<and> f_ws y = ws \<and> vis y"
  by (auto simp: joins_def child_rows_def)

lemma subtree_rows_returns:
  "acyclic (parents rows) \<Longrightarrow> \<exists>xs. subtree_rows vis ws fid rows = Some xs"
  unfolding subtree_rows_def by (intro recursive_cte_ends cte_ends_wf wf_child_rows)

lemma subtree_live:
  assumes inv: "tree_inv rows" and f: "f \<in> set rows" "live f" "f_ws f = ws" "f_id f = fid"
    and sub: "subtree_rows live ws fid rows = Some xs"
  shows "set xs = {r. ancestor_of rows f r}"
proof -
  have start: "filter (\<lambda>g. f_ws g = ws \<and> f_id g = fid \<and> live g) rows \<noteq> []"
    and same: "set (filter (\<lambda>g. f_ws g = ws \<and> f_id g = fid \<and> live g) rows) = {f}"
    using f tree_inv_id [OF inv] by (auto simp: filter_empty_conv)
  have xs: "set xs = (joins (child_rows live ws rows))\<^sup>* `` {f}"
    using recursive_cte_set [OF sub [unfolded subtree_rows_def]] same by simp
  have "ancestor_of rows f r" if "(f, r) \<in> (joins (child_rows live ws rows))\<^sup>*" for r
    using that
  proof (induction rule: rtrancl_induct)
    case base
    with f show ?case by (auto intro: ancestor_of.self)
  next
    case (step y z)
    then show ?case
      using ancestor_of_live(5) [OF step.IH] f
      by (auto simp: joins_child_rows intro: ancestor_of.up)
  qed
  moreover have "(f, r) \<in> (joins (child_rows live ws rows))\<^sup>*" if "ancestor_of rows f r" for r
    using that f(3)
  proof (induction rule: ancestor_of.induct)
    case (self f)
    then show ?case by simp
  next
    case (up r h g)
    then show ?case
      using ancestor_of_live(5) [OF up.hyps(5)]
      by (auto simp: joins_child_rows intro: rtrancl_into_rtrancl)
  qed
  ultimately show ?thesis using xs by auto
qed

lemma subtree_all:
  assumes inv: "distinct (map f_id rows)" and f: "f \<in> set rows" "f_ws f = ws" "f_id f = fid"
    and sub: "subtree_rows (\<lambda>_. True) ws fid rows = Some xs"
  shows "f_id ` set xs = {i. (i, fid) \<in> (parents (filter (\<lambda>r. f_ws r = ws) rows))\<^sup>*}"
    (is "_ = {i. (i, fid) \<in> ?P\<^sup>*}")
proof -
  let ?J = "joins (child_rows (\<lambda>_. True) ws rows)"
  have same: "set (filter (\<lambda>g. f_ws g = ws \<and> f_id g = fid \<and> True) rows) = {f}"
    using f distinct_map_inj [OF inv] by auto
  have xs: "set xs = ?J\<^sup>* `` {f}"
    using recursive_cte_set [OF sub [unfolded subtree_rows_def]] same by simp
  have "(f_id r, fid) \<in> ?P\<^sup>*" if "(f, r) \<in> ?J\<^sup>*" for r
    using that
  proof (induction rule: rtrancl_induct)
    case base
    with f show ?case by simp
  next
    case (step y z)
    then have "(f_id z, f_id y) \<in> ?P" by (auto simp: joins_child_rows parents_iff)
    then show ?case using step.IH by (rule converse_rtrancl_into_rtrancl)
  qed
  moreover have "\<exists>r. (f, r) \<in> ?J\<^sup>* \<and> f_id r = i" if "(i, fid) \<in> ?P\<^sup>*" for i
    using that
  proof (induction rule: converse_rtrancl_induct)
    case base
    with f show ?case by blast
  next
    case (step y z)
    then obtain r y' where "(f, r) \<in> ?J\<^sup>*" "f_id r = z" "y' \<in> set rows" "f_ws y' = ws" "f_id y' = y"
        "f_parent y' = Some z"
      by (auto simp: parents_iff)
    then show ?case
      by (intro exI [of _ y']) (auto simp: joins_child_rows intro: rtrancl_into_rtrancl)
  qed
  ultimately show ?thesis using xs by (auto simp: image_iff)
qed

section \<open>Delete\<close>

text \<open>The folders below \<open>fid\<close> within a workspace, counting soft-deleted rows.\<close>

definition below_ids :: "uuid \<Rightarrow> folder list \<Rightarrow> uuid \<Rightarrow> uuid set" where
  "below_ids ws rows fid = {i. (i, fid) \<in> (parents (filter (\<lambda>r. f_ws r = ws) rows))\<^sup>*}"

text \<open>The visible folders below a folder are among them, and a visible folder among them is below it.\<close>

lemma ancestor_below_ids:
  assumes "ancestor_of rows f r"
  shows "f_id r \<in> below_ids (f_ws f) rows (f_id f)"
proof -
  have "(f_id r, f_id f) \<in> (parents (filter (\<lambda>r. f_ws r = f_ws f) rows))\<^sup>*"
    using assms
  proof (induction rule: ancestor_of.induct)
    case (up r h g)
    then have "f_ws r = f_ws g" using ancestor_of_live(5) [OF up.hyps(5)] by simp
    with up have "(f_id r, f_id h) \<in> parents (filter (\<lambda>r. f_ws r = f_ws g) rows)"
      by (auto simp: parents_iff)
    then show ?case using up.IH by (rule converse_rtrancl_into_rtrancl)
  qed simp
  then show ?thesis by (simp add: below_ids_def)
qed

lemma below_ids_visible:
  assumes inv: "tree_inv rows" and f: "f \<in> set rows" "live f"
    and g: "g \<in> set rows" "live g" "f_id g \<in> below_ids (f_ws f) rows (f_id f)"
  shows "ancestor_of rows f g"
proof -
  have "(f_id g, f_id f) \<in> (parents (filter (\<lambda>r. f_ws r = f_ws f) rows))\<^sup>*"
    using g(3) by (simp add: below_ids_def)
  then show ?thesis
    using g(1,2)
  proof (induction "f_id g" arbitrary: g rule: converse_rtrancl_induct)
    case base
    have "f = g" by (rule tree_inv_id [OF inv f(1) base(2)]) (fact base(1))
    then show ?case using f by (auto intro: ancestor_of.self)
  next
    case (step z)
    then obtain g' where "g' \<in> set rows" "f_id g' = f_id g" "f_parent g' = Some z"
      by (auto simp: parents_iff)
    moreover from this have "g' = g" using tree_inv_id [OF inv _ step.prems(1)] by blast
    ultimately have par: "f_parent g = Some z" by simp
    obtain h where h: "h \<in> set rows" "live h" "f_id h = z" "f_ws h = f_ws g"
      using names_child [OF inv step.prems par] by metis
    have "ancestor_of rows f h" by (rule step.hyps(3)) (use h in auto)
    then show ?case using step.prems par h by (auto intro: ancestor_of.up)
  qed
qed

definition delete_folder_row :: "time \<Rightarrow> folder \<Rightarrow> folder" where
  "delete_folder_row now r = r\<lparr>f_deleted_at := Some now, f_updated_at := now\<rparr>"

lemma delete_folder_row_fields [simp]:
  "f_id (delete_folder_row now r) = f_id r" "f_ws (delete_folder_row now r) = f_ws r"
  "f_parent (delete_folder_row now r) = f_parent r" "\<not> live (delete_folder_row now r)"
  by (simp_all add: delete_folder_row_def live_def)

lemma parents_map_same:
  assumes "\<And>r. r \<in> set rows \<Longrightarrow> f_id (g r) = f_id r \<and> f_parent (g r) = f_parent r"
  shows "parents (map g rows) = parents rows"
  using assms by (force simp: parents_iff)

lemma parents_ws_map_same:
  assumes "\<And>r. r \<in> set rows \<Longrightarrow> f_id (g r) = f_id r \<and> f_parent (g r) = f_parent r \<and> f_ws (g r) = f_ws r"
  shows "parents (filter (\<lambda>r. f_ws r = ws) (map g rows)) = parents (filter (\<lambda>r. f_ws r = ws) rows)"
  using assms by (force simp: parents_iff)

lemma update_rows_map: "update_rows p u rows = map (\<lambda>r. if p r then u r else r) rows"
  by (simp add: update_rows_def)

lemma SoftDeleteSubtree_returns:
  assumes inv: "tree_inv (folders d)"
  shows "\<exists>res. SoftDeleteSubtree flt now ws fid d = Some res"
proof -
  have acyc: "acyclic (parents (folders d))" using inv by (simp add: tree_inv_def)
  obtain sub where sub: "subtree_rows live ws fid (folders d) = Some sub"
    using subtree_rows_returns [OF acyc] by blast
  let ?hit = "\<lambda>r. f_ws r = ws \<and> f_id r \<in> f_id ` set sub \<and> live r"
  let ?rows = "update_rows ?hit (\<lambda>r. r\<lparr>f_deleted_at := Some now, f_updated_at := now\<rparr>) (folders d)"
  have "parents ?rows = parents (folders d)"
    unfolding update_rows_map by (rule parents_map_same) auto
  with acyc have "acyclic (parents ?rows)" by simp
  then obtain al where "subtree_rows (\<lambda>_. True) ws fid ?rows = Some al"
    using subtree_rows_returns by blast
  with sub show ?thesis
    unfolding SoftDeleteSubtree_def by (auto simp: Let_def)
qed

lemma SoftDeleteSubtree_error:
  "SoftDeleteSubtree flt now ws fid d = Some (Some e, d') \<Longrightarrow> d' = d"
  by (auto simp: SoftDeleteSubtree_def Let_def bind_Some_iff split: if_splits)

lemma SoftDeleteSubtree_ok:
  assumes inv: "tree_inv (folders d)"
    and ok: "SoftDeleteSubtree flt now ws fid d = Some (None, d')"
  obtains f where "f \<in> set (folders d)" "live f" "f_ws f = ws" "f_id f = fid"
    "folders d' = map (\<lambda>r. if ancestor_of (folders d) f r then delete_folder_row now r else r) (folders d)"
    "files d' = map (\<lambda>x. if fl_ws x = ws \<and> fl_folder x \<in> below_ids ws (folders d) fid \<and> file_live x
                        then x\<lparr>fl_deleted_at := Some now, fl_updated_at := now\<rparr> else x) (files d)"
    "documents d' = map (\<lambda>x. if d_ws x = ws \<and> d_folder x \<in> below_ids ws (folders d) fid \<and> doc_live x
                        then x\<lparr>d_deleted_at := Some now, d_updated_at := now\<rparr> else x) (documents d)"
    "d' = d\<lparr>folders := folders d', files := files d', documents := documents d'\<rparr>"
proof -
  have dist: "distinct (map f_id (folders d))" using inv by (simp add: tree_inv_def)
  have "acyclic (parents (folders d))" using inv by (simp add: tree_inv_def)
  then obtain sub where sub: "subtree_rows live ws fid (folders d) = Some sub"
    using subtree_rows_returns by blast
  let ?hit = "\<lambda>r. f_ws r = ws \<and> f_id r \<in> f_id ` set sub \<and> live r"
  let ?rows = "update_rows ?hit (\<lambda>r. r\<lparr>f_deleted_at := Some now, f_updated_at := now\<rparr>) (folders d)"
  from ok sub obtain al where al: "subtree_rows (\<lambda>_. True) ws fid ?rows = Some al"
    and some: "rows_affected ?hit (folders d) \<noteq> 0"
    and d': "d' = d\<lparr>folders := ?rows,
      files := update_rows (\<lambda>r. fl_ws r = ws \<and> fl_folder r \<in> f_id ` set al \<and> file_live r)
                        (\<lambda>r. r\<lparr>fl_deleted_at := Some now, fl_updated_at := now\<rparr>) (files d),
      documents := update_rows (\<lambda>r. d_ws r = ws \<and> d_folder r \<in> f_id ` set al \<and> doc_live r)
                           (\<lambda>r. r\<lparr>d_deleted_at := Some now, d_updated_at := now\<rparr>) (documents d)\<rparr>"
    by (auto simp: SoftDeleteSubtree_def Let_def bind_Some_iff split: if_splits)
  have "\<exists>f \<in> set (folders d). live f \<and> f_ws f = ws \<and> f_id f = fid"
  proof (rule ccontr)
    assume "\<not> ?thesis"
    then have "filter (\<lambda>f. f_ws f = ws \<and> f_id f = fid \<and> live f) (folders d) = []"
      by (auto simp: filter_empty_conv)
    with sub have "sub = []" by (simp add: subtree_rows_def)
    with some show False by simp
  qed
  then obtain f where f: "f \<in> set (folders d)" "live f" "f_ws f = ws" "f_id f = fid" by blast
  have set_sub: "set sub = {r. ancestor_of (folders d) f r}" by (rule subtree_live [OF inv f sub])
  have hit: "?hit r \<longleftrightarrow> ancestor_of (folders d) f r" if "r \<in> set (folders d)" for r
  proof
    assume h: "?hit r"
    then obtain r' where r': "ancestor_of (folders d) f r'" "f_id r = f_id r'" using set_sub by auto
    with tree_inv_id [OF inv that ancestor_of_live(1)] show "ancestor_of (folders d) f r" by metis
  next
    assume a: "ancestor_of (folders d) f r"
    with set_sub ancestor_of_live [OF a] f(3) show "?hit r" by auto
  qed
  have rows: "?rows = map (\<lambda>r. if ancestor_of (folders d) f r then delete_folder_row now r else r) (folders d)"
    unfolding update_rows_map using hit by (auto simp: delete_folder_row_def)
  have "f_id ` set al = below_ids ws (folders d) fid"
  proof -
    let ?g = "\<lambda>r. if ?hit r then r\<lparr>f_deleted_at := Some now, f_updated_at := now\<rparr> else r"
    have "?g f \<in> set (map ?g (folders d))" "f_ws (?g f) = ws" "f_id (?g f) = fid"
      "distinct (map f_id (map ?g (folders d)))"
      using f dist by (auto simp: comp_def if_distrib cong: if_cong)
    from subtree_all [OF this(4) this(1-3)] al have
      "f_id ` set al = {i. (i, fid) \<in> (parents (filter (\<lambda>r. f_ws r = ws) (map ?g (folders d))))\<^sup>*}"
      by (simp add: update_rows_map)
    moreover have "parents (filter (\<lambda>r. f_ws r = ws) (map ?g (folders d)))
        = parents (filter (\<lambda>r. f_ws r = ws) (folders d))"
      by (rule parents_ws_map_same) auto
    ultimately show ?thesis by (simp add: below_ids_def)
  qed
  with d' rows f show thesis
    by (intro that [of f]) (auto simp: update_rows_map)
qed

lemma folder_Delete_tree_inv:
  assumes inv: "tree_inv (folders d)" and eq: "folder_Delete flt now ws fid d = Some (res, d')"
  shows "tree_inv (folders d')"
proof (cases res)
  case (Some e)
  with eq have "d' = d" by (auto simp: folder_Delete_def dest: SoftDeleteSubtree_error)
  with inv show ?thesis by simp
next
  case None
  with eq have "SoftDeleteSubtree flt now ws fid d = Some (None, d')" by (simp add: folder_Delete_def)
  from SoftDeleteSubtree_ok [OF inv this] obtain f where
    rows: "folders d' = map (\<lambda>r. if ancestor_of (folders d) f r then delete_folder_row now r else r) (folders d)"
    by metis
  let ?g = "\<lambda>r. if ancestor_of (folders d) f r then delete_folder_row now r else r"
  have par: "parents (folders d') = parents (folders d)"
    unfolding rows by (rule parents_map_same) auto
  have ids: "map f_id (folders d') = map f_id (folders d)"
    unfolding rows by auto
  have old: "r \<in> set (folders d) \<and> \<not> ancestor_of (folders d) f r" if "r \<in> set (folders d')" "live r" for r
    using that unfolding rows by (auto split: if_splits)
  have place: "placed (folders d') r" if r: "r \<in> set (folders d')" "live r" for r
  proof (cases "f_parent r")
    case None
    with tree_invD(3) [OF inv _ r(2)] old [OF r] have "placed (folders d) r" by blast
    with None show ?thesis by (simp add: placed_def)
  next
    case (Some p)
    obtain g where g: "g \<in> set (folders d)" "live g" "f_id g = p" "f_ws g = f_ws r"
        "f_mode r = f_mode g" "f_path r = f_path g @ f_name r @ ''/''"
      using names_child [OF inv] old [OF r] r(2) Some by metis
    have "\<not> ancestor_of (folders d) f g"
      using ancestor_of.up [of r "folders d" g f] old [OF r] r(2) Some g by auto
    then have "g \<in> set (folders d')" using g(1) unfolding rows by force
    with Some g show ?thesis by (auto simp: placed_def)
  qed
  have sib: "siblings_unique (folders d')"
    using inv old unfolding tree_inv_def siblings_unique_def by blast
  have "f_id ` set (folders d') = f_id ` set (folders d)"
    using ids by (metis set_map)
  then show ?thesis
    using inv old par place sib ids unfolding tree_inv_def by auto
qed

section \<open>Ancestors, root first\<close>

text \<open>What the program needs of the database's text order: a path sorts before the paths it
  is a proper prefix of.\<close>

locale prefix_collation =
  fixes collate :: "string \<Rightarrow> 'k::linorder"
  assumes prefix_less: "strict_prefix p s \<Longrightarrow> collate p < collate s"
begin

lemma sort_path_chain:
  assumes "sorted_wrt (\<lambda>a b. strict_prefix (f_path a) (f_path b)) xs"
  shows "sort_key (\<lambda>f. collate (f_path f)) (rev xs) = xs"
proof (rule sort_key_inj_key_eq)
  show "mset (rev xs) = mset xs" by simp
  have less: "sorted_wrt (\<lambda>a b. collate (f_path a) < collate (f_path b)) xs"
    using assms by (rule sorted_wrt_mono_rel [rotated]) (auto intro: prefix_less)
  then have "sorted_wrt (<) (map (\<lambda>f. collate (f_path f)) xs)" by (simp add: sorted_wrt_map)
  then show "sorted (map (\<lambda>f. collate (f_path f)) xs)" by (simp add: strict_sorted_iff)
  have "distinct (map (\<lambda>f. collate (f_path f)) xs)"
    using \<open>sorted_wrt (<) (map (\<lambda>f. collate (f_path f)) xs)\<close> by (simp add: strict_sorted_iff)
  then show "inj_on (\<lambda>f. collate (f_path f)) (set (rev xs))" by (simp add: distinct_map)
qed

end

text \<open>The byte order of the \<^verbatim>\<open>C\<close> collation is one.\<close>

lemma strict_prefix_less: "strict_prefix (p :: string) s \<Longrightarrow> p < s"
proof (induction p arbitrary: s)
  case Nil
  then show ?case by (cases s) auto
next
  case (Cons x p)
  then show ?case by (cases s) (auto simp: strict_prefix_def)
qed

interpretation byte_order: prefix_collation "\<lambda>s :: string. s"
  by unfold_locales (rule strict_prefix_less)

lemma ancestor_chain:
  assumes inv: "tree_inv rows"
  shows "f \<in> set rows \<Longrightarrow> live f \<Longrightarrow>
    \<exists>xs. recursive_cte (join_step (parent_rows (f_ws f) rows)) [f] = Some (rev (xs @ [f]))
      \<and> sorted_wrt (\<lambda>a b. strict_prefix (f_path a) (f_path b)) (xs @ [f])
      \<and> set (xs @ [f]) = {g. ancestor_of rows g f}"
proof (induction "length (f_path f)" arbitrary: f rule: less_induct)
  case less
  show ?case
  proof (cases "f_parent f")
    case None
    then have "parent_rows (f_ws f) rows f = []" by (simp add: parent_rows_def)
    then have "recursive_cte (join_step (parent_rows (f_ws f) rows)) [f] = Some [f]"
      by (subst recursive_cte.simps) simp
    moreover have "{g. ancestor_of rows g f} = {f}"
      using less.prems None by (auto intro: ancestor_of.self elim: ancestor_of.cases)
    ultimately show ?thesis by (intro exI [of _ "[]"]) simp
  next
    case (Some p)
    obtain g where g: "g \<in> set rows" "live g" "f_id g = p" "f_ws g = f_ws f"
        "f_path f = f_path g @ f_name f @ ''/''"
      using names_child [OF inv less.prems Some] by metis
    have dist: "distinct rows" using inv by (auto simp: tree_inv_def distinct_map)
    have only: "h = g" if "h \<in> set rows" "Some (f_id h) = f_parent f" for h
    proof -
      have "f_id h = f_id g" using that(2) Some g(3) by simp
      then show ?thesis by (rule tree_inv_id [OF inv that(1) g(1)])
    qed
    have up: "parent_rows (f_ws f) rows f = [g]"
      unfolding parent_rows_def
    proof (rule filter_singleton [OF dist g(1)])
      show "Some (f_id g) = f_parent f \<and> f_ws g = f_ws f \<and> live g" using g Some by simp
    next
      fix h
      assume "h \<in> set rows" "Some (f_id h) = f_parent f \<and> f_ws h = f_ws f \<and> live h"
      then show "h = g" by (blast intro: only)
    qed
    obtain xs where xs: "recursive_cte (join_step (parent_rows (f_ws g) rows)) [g] = Some (rev (xs @ [g]))"
        "sorted_wrt (\<lambda>a b. strict_prefix (f_path a) (f_path b)) (xs @ [g])"
        "set (xs @ [g]) = {h. ancestor_of rows h g}"
    proof -
      have "length (f_path g) < length (f_path f)" using g(5) by simp
      from less.hyps [OF this g(1,2)] that show thesis by blast
    qed
    have "recursive_cte (join_step (parent_rows (f_ws f) rows)) [f] = Some (rev ((xs @ [g]) @ [f]))"
      using xs(1) up g(4) by (subst recursive_cte.simps) simp
    moreover have "sorted_wrt (\<lambda>a b. strict_prefix (f_path a) (f_path b)) ((xs @ [g]) @ [f])"
    proof -
      have "strict_prefix (f_path h) (f_path f)" if "h \<in> set (xs @ [g])" for h
      proof -
        from that xs(3) have "ancestor_of rows h g" by blast
        then have pre: "prefix (f_path h) (f_path g)"
          using prefix_path_ancestor [OF inv _ _ g(1,2)] ancestor_of_live by metis
        then have "prefix (f_path h) (f_path f)" "length (f_path h) < length (f_path f)"
          using g(5) prefix_length_le [OF pre] by (simp_all add: prefix_prefix)
        then show ?thesis by (auto simp: strict_prefix_def)
      qed
      with xs(2) show ?thesis by (auto simp: sorted_wrt_append)
    qed
    moreover have "set ((xs @ [g]) @ [f]) = {h. ancestor_of rows h f}"
    proof -
      have "ancestor_of rows h f \<longleftrightarrow> h = f \<or> ancestor_of rows h g" for h
      proof
        assume "ancestor_of rows h f"
        then show "h = f \<or> ancestor_of rows h g"
        proof (cases rule: ancestor_of.cases)
          case (up k)
          have "f_id k = f_id g" using up(3) Some g(3) by simp
          then have "k = g" by (rule tree_inv_id [OF inv ancestor_of_live(1) [OF up(5)] g(1)])
          with up show ?thesis by simp
        qed simp
      next
        assume "h = f \<or> ancestor_of rows h g"
        with less.prems Some g show "ancestor_of rows h f"
          by (auto intro: ancestor_of.self ancestor_of.up)
      qed
      with xs(3) show ?thesis by auto
    qed
    ultimately show ?thesis by blast
  qed
qed

end
