(* ===== verification/Folder_Properties.thy ===== *)
theory Folder_Properties
  imports Folder_Service
begin

text \<open>
  The properties of the folder tree: sequences of service calls as a step relation, and
  what holds in every state they reach.
\<close>

section \<open>Histories of the service\<close>

text \<open>One call of the service with any arguments, under any pattern of database failures.\<close>

inductive folder_step :: "db \<Rightarrow> db \<Rightarrow> bool" where
  create: "folder_step d (snd (CreateWithMode dm flt new now ws par name m by d))"
| rename: "folder_step d (snd (folder_Rename flt now ws fid n d))"
| move: "folder_step d (snd (folder_Move flt now ws fid par d))"
| delete: "folder_Delete flt now ws fid d = Some (res, d') \<Longrightarrow> folder_step d d'"

lemma folder_step_tree_inv: "folder_step d d' \<Longrightarrow> tree_inv (folders d) \<Longrightarrow> tree_inv (folders d')"
  by (induction rule: folder_step.induct)
     (metis prod.collapse CreateWithMode_tree_inv folder_Rename_tree_inv folder_Move_tree_inv
       folder_Delete_tree_inv)+

lemma folder_steps_tree_inv: "folder_step\<^sup>*\<^sup>* d d' \<Longrightarrow> tree_inv (folders d) \<Longrightarrow> tree_inv (folders d')"
  by (induction rule: rtranclp_induct) (auto dest: folder_step_tree_inv)

lemma reachable_tree_inv: "folder_step\<^sup>*\<^sup>* empty_db d \<Longrightarrow> tree_inv (folders d)"
  by (erule folder_steps_tree_inv) (simp add: empty_db_def)

text \<open>A small history: \<open>/a/\<close>, \<open>/a/b/\<close>, \<open>/a/b/c/\<close> and \<open>/d_/\<close> in workspace 7.\<close>

definition ex_db1 :: db where
  "ex_db1 = snd (CreateWithMode None no_faults 1 10 7 None '' a '' [] 9 empty_db)"

definition ex_db2 :: db where
  "ex_db2 = snd (CreateWithMode None no_faults 2 11 7 (Some 1) ''b'' [] 9 ex_db1)"

definition ex_db3 :: db where
  "ex_db3 = snd (CreateWithMode None no_faults 3 12 7 (Some 2) ''c'' [] 9 ex_db2)"

definition ex_db :: db where
  "ex_db = snd (CreateWithMode None no_faults 4 13 7 None ''d_'' [] 9 ex_db3)"

definition ex_row :: "uuid \<Rightarrow> uuid option \<Rightarrow> string \<Rightarrow> string \<Rightarrow> time \<Rightarrow> folder" where
  "ex_row i par n p t = \<lparr>f_id = i, f_ws = 7, f_parent = par, f_name = n, f_path = p,
     f_mode = ''managed_encrypted'', f_created_by = 9, f_created_at = t, f_updated_at = t,
     f_deleted_at = None\<rparr>"

lemma ex_db_folders: "folders ex_db =
    [ex_row 1 None ''a'' ''/a/'' 10, ex_row 2 (Some 1) ''b'' ''/a/b/'' 11,
     ex_row 3 (Some 2) ''c'' ''/a/b/c/'' 12, ex_row 4 None ''d_'' ''/d_/'' 13]"
  by code_simp

lemma ex_db_reachable: "folder_step\<^sup>*\<^sup>* empty_db ex_db"
  unfolding ex_db_def ex_db3_def ex_db2_def ex_db1_def
  by (rule rtranclp.rtrancl_into_rtrancl [OF rtranclp.rtrancl_into_rtrancl
        [OF rtranclp.rtrancl_into_rtrancl [OF rtranclp.rtrancl_into_rtrancl
          [OF rtranclp.rtrancl_refl]]]]) (rule folder_step.create)+

section \<open>Properties\<close>

text \<open>C1 (invariant).  In every state reachable by calls of the folder service, whatever
  database calls fail: ids are unique, every visible folder has a valid name and mode, its
  parent (if any) is a visible folder of the same workspace and mode, its path is the
  parent's path followed by its name, visible siblings have different names, and parent
  pointers (of deleted rows too) form no cycle.\<close>

theorem folder_table_is_forest:
  assumes "folder_step\<^sup>*\<^sup>* empty_db d"
  shows "tree_inv (folders d)"
  using assms by (rule reachable_tree_inv)

theorem folder_table_is_forest_witness:
  "folder_step\<^sup>*\<^sup>* empty_db ex_db \<and> tree_inv (folders ex_db) \<and> length (folders ex_db) = 4"
  using folder_table_is_forest [OF ex_db_reachable] ex_db_reachable by (simp add: ex_db_folders)

text \<open>C2 (safety).  When the lookups succeed, moving a visible folder under a visible folder of
  the same workspace is refused as an invalid parent exactly when the new parent is the
  folder itself or lies below it: the path-prefix test of the code is the cycle test.\<close>

theorem move_refused_iff_below:
  assumes "folder_step\<^sup>*\<^sup>* empty_db d"
    and "f \<in> set (folders d)" "live f" "p \<in> set (folders d)" "live p" "f_ws p = f_ws f"
    and "\<not> flt ''get folder''" "\<not> flt ''get new parent''"
  shows "folder_Move flt now (f_ws f) (f_id f) (Some (f_id p)) d = (Inl FolderErrInvalidParent, d)
         \<longleftrightarrow> ancestor_of (folders d) f p"
proof -
  note inv = reachable_tree_inv [OF assms(1)]
  have get: "folder_GetByID flt ''get folder'' d (f_ws f) (f_id f) = Inr f"
    "folder_GetByID flt ''get new parent'' d (f_ws f) (f_id p) = Inr p"
    using folder_GetByID_live [OF inv assms(2,3)] folder_GetByID_live [OF inv assms(4,5)] assms(6-8)
    by auto
  have anc: "ancestor_of (folders d) f p \<longleftrightarrow> prefix (f_path f) (f_path p)"
    using prefix_path_ancestor [OF inv assms(2-5)] assms(6) by simp
  have self: "f_id p = f_id f \<Longrightarrow> p = f" by (rule tree_inv_id [OF inv assms(4,2)])
  have mv: "MoveWithDescendants flt now ws fid par op np d \<noteq> (Some FolderErrInvalidParent, d'')"
    for ws fid par op np d'' by (auto simp: MoveWithDescendants_def Let_def)
  show ?thesis
    using get anc self mv
    by (auto simp: folder_Move_def move_parent_path_def HasPrefix_def Let_def
        split: if_splits prod.splits option.splits)
qed

lemma ex_db_rows:
  "ex_row 1 None ''a'' ''/a/'' 10 \<in> set (folders ex_db)"
  "ex_row 2 (Some 1) ''b'' ''/a/b/'' 11 \<in> set (folders ex_db)"
  "ex_row 3 (Some 2) ''c'' ''/a/b/c/'' 12 \<in> set (folders ex_db)"
  "ex_row 4 None ''d_'' ''/d_/'' 13 \<in> set (folders ex_db)"
  by (simp_all add: ex_db_folders)

lemma ex_row_live [simp]: "live (ex_row i par n p t)"
  by (simp add: live_def ex_row_def)

lemma ex_row_sel [simp]:
  "f_id (ex_row i par n p t) = i" "f_ws (ex_row i par n p t) = 7"
  "f_parent (ex_row i par n p t) = par" "f_path (ex_row i par n p t) = p"
  by (simp_all add: ex_row_def)

lemma ex_ancestor:
  "ancestor_of (folders ex_db) (ex_row 1 None ''a'' ''/a/'' 10) (ex_row 3 (Some 2) ''c'' ''/a/b/c/'' 12)"
  using prefix_path_ancestor [OF reachable_tree_inv [OF ex_db_reachable] ex_db_rows(1) _ ex_db_rows(3)]
  by simp

theorem move_refused_iff_below_witness:
  "folder_Move no_faults 20 7 1 (Some 3) ex_db = (Inl FolderErrInvalidParent, ex_db)"
  using move_refused_iff_below [OF ex_db_reachable ex_db_rows(1) _ ex_db_rows(3), of no_faults 20]
    ex_ancestor by simp

text \<open>C3 (functional).  A move that succeeds keeps every row, its id, workspace, name and
  mode; it changes the parent pointer of the moved folder only; it replaces the old path
  by the new one in the paths of the folders below it and leaves every other path alone.\<close>

theorem move_relocates_exactly_the_subtree:
  assumes "folder_step\<^sup>*\<^sup>* empty_db d"
    and "folder_Move flt now ws fid par d = (Inr r, d')"
  shows "\<exists>f \<in> set (folders d). \<exists>g. live f \<and> f_ws f = ws \<and> f_id f = fid \<and> r = f\<lparr>f_parent := par, f_path := f_path r\<rparr>
    \<and> folders d' = map g (folders d)
    \<and> (\<forall>x \<in> set (folders d). f_id (g x) = f_id x \<and> f_ws (g x) = f_ws x \<and> f_name (g x) = f_name x
         \<and> f_mode (g x) = f_mode x \<and> f_deleted_at (g x) = f_deleted_at x
         \<and> f_parent (g x) = (if x = f then par else f_parent x)
         \<and> f_path (g x) = (if ancestor_of (folders d) f x
                             then f_path r @ drop (length (f_path f)) (f_path x) else f_path x))"
proof -
  note inv = reachable_tree_inv [OF assms(1)]
  obtain f f' where f: "f \<in> set (folders d)" "live f" "f_ws f = ws" "f_id f = fid"
    and f': "f_parent f' = par" "f_name f' = f_name f" "relocation_ok (folders d) f f'"
    and d': "d' = d\<lparr>folders := map (relocated f f' now) (folders d)\<rparr>"
    and r: "r = f\<lparr>f_parent := par, f_path := f_path f'\<rparr>"
    by (rule folder_Move_Inr [OF inv assms(2)])
  have keep: "f_id f' = f_id f" "f_ws f' = f_ws f" "f_mode f' = f_mode f" "f_deleted_at f' = None"
    using f' by (auto simp: relocation_ok_def)
  have below: "x \<noteq> f \<Longrightarrow> below f x \<longleftrightarrow> ancestor_of (folders d) f x" if x: "x \<in> set (folders d)" for x
    using prefix_path_ancestor [OF inv f(1,2) x] ancestor_of_live [of "folders d" f x]
      tree_inv_id [OF inv x f(1)] by (auto simp: below_def)
  have self: "ancestor_of (folders d) f f" using f by (auto intro: ancestor_of.self)
  have path: "f_path (relocated f f' now x) = (if ancestor_of (folders d) f x
      then f_path r @ drop (length (f_path f)) (f_path x) else f_path x)" if "x \<in> set (folders d)" for x
    using below [OF that] self r by (simp add: relocated_path)
  show ?thesis
    by (rule bexI [OF _ f(1)], rule exI [of _ "relocated f f' now"])
       (use f f' d' r keep path in \<open>auto simp: live_def\<close>)
qed

theorem move_relocates_exactly_the_subtree_witness:
  "\<exists>r d'. folder_Move no_faults 20 7 2 (Some 4) ex_db = (Inr r, d') \<and> f_path r = ''/d_/b/''
     \<and> map f_path (folders d') = [''/a/'', ''/d_/b/'', ''/d_/b/c/'', ''/d_/'']
     \<and> (\<exists>f \<in> set (folders ex_db). f_id f = 2 \<and> ancestor_of (folders ex_db) f f)"
proof -
  obtain r d' where mv: "folder_Move no_faults 20 7 2 (Some 4) ex_db = (Inr r, d')"
      "f_path r = ''/d_/b/''" "map f_path (folders d') = [''/a/'', ''/d_/b/'', ''/d_/b/c/'', ''/d_/'']"
  proof -
    have "case folder_Move no_faults 20 7 2 (Some 4) ex_db of (Inr r, d') \<Rightarrow> f_path r = ''/d_/b/''
        \<and> map f_path (folders d') = [''/a/'', ''/d_/b/'', ''/d_/b/c/'', ''/d_/''] | _ \<Rightarrow> False"
      by code_simp
    with that show thesis by (auto split: prod.splits sum.splits)
  qed
  have "\<exists>f \<in> set (folders ex_db). f_id f = 2 \<and> ancestor_of (folders ex_db) f f"
    using move_relocates_exactly_the_subtree [OF ex_db_reachable mv(1)] by (auto intro: ancestor_of.self)
  with mv show ?thesis by (intro exI [of _ r] exI [of _ d'] conjI)
qed

lemma folder_step_keeps_mode:
  assumes "folder_step d d'" "tree_inv (folders d)" "x \<in> set (folders d)"
  shows "\<exists>x' \<in> set (folders d'). f_id x' = f_id x \<and> f_mode x' = f_mode x \<and> f_ws x' = f_ws x"
  using assms
proof (induction rule: folder_step.induct)
  case (create d dm flt new now ws par name m "by")
  show ?case
  proof (cases "CreateWithMode dm flt new now ws par name m by d")
    case (Pair res d')
    show ?thesis
    proof (cases res)
      case (Inl e)
      with Pair create.prems show ?thesis by (auto dest!: CreateWithMode_Inl)
    next
      case (Inr f)
      with Pair have "CreateWithMode dm flt new now ws par name m by d = (Inr f, d')" by simp
      then have "d' = d\<lparr>folders := folders d @ [f]\<rparr>"
        by (rule CreateWithMode_insert) (rule folder_row_Create_Inr(1))
      with Pair create.prems show ?thesis by auto
    qed
  qed
next
  case (rename d flt now ws fid n)
  show ?case
  proof (cases "folder_Rename flt now ws fid n d")
    case (Pair res d')
    show ?thesis
    proof (cases res)
      case (Inl e)
      with Pair rename.prems show ?thesis by (auto dest!: folder_Rename_Inl)
    next
      case (Inr r)
      with Pair have "folder_Rename flt now ws fid n d = (Inr r, d')" by simp
      from folder_Rename_Inr [OF rename.prems(1) this] obtain f f' where
        "relocation_ok (folders d) f f'" "d' = d\<lparr>folders := map (relocated f f' now) (folders d)\<rparr>" by metis
      with Pair rename.prems show ?thesis
        by (auto simp: relocation_ok_def intro!: bexI [of _ x])
    qed
  qed
next
  case (move d flt now ws fid par)
  show ?case
  proof (cases "folder_Move flt now ws fid par d")
    case (Pair res d')
    show ?thesis
    proof (cases res)
      case (Inl e)
      with Pair move.prems show ?thesis by (auto dest!: folder_Move_Inl)
    next
      case (Inr r)
      with Pair have "folder_Move flt now ws fid par d = (Inr r, d')" by simp
      from folder_Move_Inr [OF move.prems(1) this] obtain f f' where
        "relocation_ok (folders d) f f'" "d' = d\<lparr>folders := map (relocated f f' now) (folders d)\<rparr>" by metis
      with Pair move.prems show ?thesis
        by (auto simp: relocation_ok_def intro!: bexI [of _ x])
    qed
  qed
next
  case (delete flt now ws fid d res d')
  show ?case
  proof (cases res)
    case (Some e)
    with delete have "d' = d" by (auto simp: folder_Delete_def dest: SoftDeleteSubtree_error)
    with delete.prems show ?thesis by auto
  next
    case None
    with delete have "SoftDeleteSubtree flt now ws fid d = Some (None, d')" by (simp add: folder_Delete_def)
    from SoftDeleteSubtree_ok [OF delete.prems(1) this] obtain f where
      "folders d' = map (\<lambda>r. if ancestor_of (folders d) f r then delete_folder_row now r else r) (folders d)"
      by metis
    with delete.prems have "(if ancestor_of (folders d) f x then delete_folder_row now x else x) \<in> set (folders d')"
      by simp
    then show ?thesis by (rule bexI [rotated]) (simp add: delete_folder_row_def)
  qed
qed

text \<open>C4 (invariant).  The encryption mode of a folder never changes: after any further
  calls the row is still there with the mode and workspace it had.  And in every reachable
  state a folder has the mode of the folders above it.\<close>

theorem encryption_mode_fixed_per_tree:
  assumes "folder_step\<^sup>*\<^sup>* empty_db d" "folder_step\<^sup>*\<^sup>* d d'" "x \<in> set (folders d)"
  shows "(\<exists>x' \<in> set (folders d'). f_id x' = f_id x \<and> f_mode x' = f_mode x \<and> f_ws x' = f_ws x)
    \<and> (\<forall>f g. ancestor_of (folders d') f g \<longrightarrow> f_mode g = f_mode f)"
proof -
  note inv = reachable_tree_inv [OF assms(1)]
  have "\<exists>x' \<in> set (folders d'). f_id x' = f_id x \<and> f_mode x' = f_mode x \<and> f_ws x' = f_ws x"
    using assms(2)
  proof (induction rule: rtranclp_induct)
    case base
    with assms(3) show ?case by blast
  next
    case (step y z)
    then obtain x' where x': "x' \<in> set (folders y)" "f_id x' = f_id x" "f_mode x' = f_mode x" "f_ws x' = f_ws x"
      by blast
    from folder_step_keeps_mode [OF step.hyps(2) folder_steps_tree_inv [OF step.hyps(1) inv] x'(1)] x'
    show ?case by simp
  qed
  moreover have "tree_inv (folders d')" by (rule folder_steps_tree_inv [OF assms(2) inv])
  ultimately show ?thesis using ancestor_of_names by metis
qed

theorem encryption_mode_fixed_per_tree_witness:
  "(\<exists>x' \<in> set (folders ex_db). f_id x' = 4 \<and> f_mode x' = ''managed_encrypted'')
   \<and> f_mode (ex_row 3 (Some 2) ''c'' ''/a/b/c/'' 12) = f_mode (ex_row 1 None ''a'' ''/a/'' 10)"
proof -
  note use = encryption_mode_fixed_per_tree [OF ex_db_reachable rtranclp.rtrancl_refl ex_db_rows(4)]
  from use ex_ancestor have
    "f_mode (ex_row 3 (Some 2) ''c'' ''/a/b/c/'' 12) = f_mode (ex_row 1 None ''a'' ''/a/'' 10)"
    by blast
  moreover from use have "\<exists>x' \<in> set (folders ex_db). f_id x' = 4 \<and> f_mode x' = ''managed_encrypted''"
    by (auto simp: ex_row_def)
  ultimately show ?thesis by blast
qed

text \<open>The SQL condition \<^verbatim>\<open>path LIKE escape(p) || '%' ESCAPE '\'\<close>
  that selects the descendants holds exactly of the paths that start with \<open>p\<close>, whatever
  wildcards a folder name contains.\<close>

theorem escaped_like_is_prefix: "like (escapeLikePattern p @ ''%'') t \<longleftrightarrow> HasPrefix t p"
  by (simp add: like_escaped_prefix HasPrefix_def)

text \<open>C5 (termination and functional).  Deleting a folder in a reachable state always
  returns (the recursive queries end).  If it succeeds, the folder was visible in the
  workspace, exactly it and the visible folders below it are marked deleted, and so are
  exactly the visible files and documents of the workspace stored in a folder below it;
  no other row changes.\<close>

theorem delete_removes_exactly_the_subtree:
  assumes "folder_step\<^sup>*\<^sup>* empty_db d0" "folders d = folders d0"
  shows "\<exists>res d'. folder_Delete flt now ws fid d = Some (res, d') \<and>
    (res = None \<longrightarrow> (\<exists>f \<in> set (folders d). live f \<and> f_ws f = ws \<and> f_id f = fid
       \<and> folders d' = map (\<lambda>r. if ancestor_of (folders d) f r then delete_folder_row now r else r) (folders d)
       \<and> files d' = map (\<lambda>x. if fl_ws x = ws \<and> fl_folder x \<in> below_ids ws (folders d) fid \<and> file_live x
             then x\<lparr>fl_deleted_at := Some now, fl_updated_at := now\<rparr> else x) (files d)
       \<and> documents d' = map (\<lambda>x. if d_ws x = ws \<and> d_folder x \<in> below_ids ws (folders d) fid \<and> doc_live x
             then x\<lparr>d_deleted_at := Some now, d_updated_at := now\<rparr> else x) (documents d)
       \<and> (\<forall>r. ancestor_of (folders d) f r \<longrightarrow> f_id r \<in> below_ids ws (folders d) fid)))"
proof -
  have inv: "tree_inv (folders d)" using reachable_tree_inv [OF assms(1)] assms(2) by simp
  obtain res d' where ret: "SoftDeleteSubtree flt now ws fid d = Some (res, d')"
    using SoftDeleteSubtree_returns [OF inv] by fastforce
  show ?thesis
  proof (cases res)
    case None
    with ret have "SoftDeleteSubtree flt now ws fid d = Some (None, d')" by simp
    then obtain f where f: "f \<in> set (folders d)" "live f" "f_ws f = ws" "f_id f = fid"
      and rest: "folders d' = map (\<lambda>r. if ancestor_of (folders d) f r then delete_folder_row now r else r) (folders d)"
       "files d' = map (\<lambda>x. if fl_ws x = ws \<and> fl_folder x \<in> below_ids ws (folders d) fid \<and> file_live x
             then x\<lparr>fl_deleted_at := Some now, fl_updated_at := now\<rparr> else x) (files d)"
       "documents d' = map (\<lambda>x. if d_ws x = ws \<and> d_folder x \<in> below_ids ws (folders d) fid \<and> doc_live x
             then x\<lparr>d_deleted_at := Some now, d_updated_at := now\<rparr> else x) (documents d)"
      by (rule SoftDeleteSubtree_ok [OF inv])
    have "\<forall>r. ancestor_of (folders d) f r \<longrightarrow> f_id r \<in> below_ids ws (folders d) fid"
      using ancestor_below_ids f(3,4) by blast
    with ret rest f show ?thesis unfolding folder_Delete_def by blast
  next
    case (Some e)
    with ret show ?thesis unfolding folder_Delete_def by blast
  qed
qed

theorem delete_removes_exactly_the_subtree_witness:
  "\<exists>d'. folder_Delete no_faults 30 7 2 ex_db = Some (None, d')
     \<and> map f_deleted_at (folders d') = [None, Some 30, Some 30, None] \<and> 3 \<in> below_ids 7 (folders ex_db) 2"
proof -
  have run: "case folder_Delete no_faults 30 7 2 ex_db of Some (None, d') \<Rightarrow>
      map f_deleted_at (folders d') = [None, Some 30, Some 30, None] | _ \<Rightarrow> False"
    by code_simp
  then obtain d' where d': "folder_Delete no_faults 30 7 2 ex_db = Some (None, d')"
      "map f_deleted_at (folders d') = [None, Some 30, Some 30, None]"
    by (auto split: option.splits prod.splits)
  with delete_removes_exactly_the_subtree [OF ex_db_reachable refl, of no_faults 30 7 2]
  obtain f where f: "f \<in> set (folders ex_db)" "f_ws f = 7" "f_id f = 2"
    "\<And>r. ancestor_of (folders ex_db) f r \<Longrightarrow> f_id r \<in> below_ids 7 (folders ex_db) 2" by auto
  have "f = ex_row 2 (Some 1) ''b'' ''/a/b/'' 11" using f(1,3) by (auto simp: ex_db_folders)
  moreover have "ancestor_of (folders ex_db) (ex_row 2 (Some 1) ''b'' ''/a/b/'' 11) (ex_row 3 (Some 2) ''c'' ''/a/b/c/'' 12)"
    using prefix_path_ancestor [OF reachable_tree_inv [OF ex_db_reachable] ex_db_rows(2) _ ex_db_rows(3)]
    by simp
  ultimately have "f_id (ex_row 3 (Some 2) ''c'' ''/a/b/c/'' 12) \<in> below_ids 7 (folders ex_db) 2"
    using f(4) by blast
  then have "3 \<in> below_ids 7 (folders ex_db) 2" by (simp only: ex_row_sel)
  with d' show ?thesis by (intro exI [of _ d'] conjI)
qed

text \<open>With a text order in which a path sorts before its extensions, the
  ancestors of a visible folder are returned root first: exactly the visible folders above
  it, each once, every path extending the one before it.\<close>

theorem ancestors_root_first:
  assumes "folder_step\<^sup>*\<^sup>* empty_db d" "prefix_collation collate"
    and "f \<in> set (folders d)" "live f" "\<not> flt ''get ancestors''"
  shows "\<exists>xs. GetAncestors collate flt d (f_ws f) (f_id f) = Some (Inr xs)
    \<and> set xs = {g. ancestor_of (folders d) g f} - {f} \<and> distinct xs
    \<and> sorted_wrt (\<lambda>a b. strict_prefix (f_path a) (f_path b)) (xs @ [f])"
proof -
  note inv = reachable_tree_inv [OF assms(1)]
  obtain xs where xs: "recursive_cte (join_step (parent_rows (f_ws f) (folders d))) [f] = Some (rev (xs @ [f]))"
      "sorted_wrt (\<lambda>a b. strict_prefix (f_path a) (f_path b)) (xs @ [f])"
      "set (xs @ [f]) = {g. ancestor_of (folders d) g f}"
    using ancestor_chain [OF inv assms(3,4)] by blast
  have dist: "distinct (folders d)" using inv by (auto simp: tree_inv_def distinct_map)
  have start: "filter (\<lambda>g. f_ws g = f_ws f \<and> f_id g = f_id f \<and> live g) (folders d) = [f]"
    by (rule filter_singleton [OF dist assms(3)]) (use assms(4) tree_inv_id [OF inv _ assms(3)] in auto)
  have strict: "strict_prefix (f_path a) (f_path f)" if "a \<in> set xs" for a
    using xs(2) that by (simp add: sorted_wrt_append)
  have notin: "f \<notin> set xs" using strict by blast
  have ids: "f_id a \<noteq> f_id f" if "a \<in> set xs" for a
  proof
    assume "f_id a = f_id f"
    moreover have "a \<in> set (folders d)" using that xs(3) ancestor_of_live(3) by fastforce
    ultimately have "a = f" using tree_inv_id [OF inv _ assms(3)] by blast
    with that notin show False by simp
  qed
  have "filter (\<lambda>g. f_id g \<noteq> f_id f) (rev (xs @ [f])) = rev xs"
    using ids by (auto simp: filter_id_conv)
  moreover have sorted: "sorted_wrt (\<lambda>a b. strict_prefix (f_path a) (f_path b)) xs"
    using xs(2) by (simp add: sorted_wrt_append)
  ultimately have "GetAncestors collate flt d (f_ws f) (f_id f) = Some (Inr xs)"
    using xs(1) start assms(5) prefix_collation.sort_path_chain [OF assms(2) sorted]
    by (simp add: GetAncestors_def)
  moreover have "distinct xs"
    using sorted by (induction xs) (auto simp: strict_prefix_def)
  ultimately show ?thesis using xs(2,3) notin by (intro exI [of _ xs]) auto
qed

theorem ancestors_root_first_witness:
  "GetAncestors (\<lambda>s. s) no_faults ex_db 7 3 = Some (Inr [ex_row 1 None ''a'' ''/a/'' 10, ex_row 2 (Some 1) ''b'' ''/a/b/'' 11])
   \<and> {g. ancestor_of (folders ex_db) g (ex_row 3 (Some 2) ''c'' ''/a/b/c/'' 12)} - {ex_row 3 (Some 2) ''c'' ''/a/b/c/'' 12}
     = {ex_row 1 None ''a'' ''/a/'' 10, ex_row 2 (Some 1) ''b'' ''/a/b/'' 11}"
proof -
  have run: "GetAncestors (\<lambda>s. s) no_faults ex_db 7 3
      = Some (Inr [ex_row 1 None ''a'' ''/a/'' 10, ex_row 2 (Some 1) ''b'' ''/a/b/'' 11])"
    by code_simp
  with ancestors_root_first [OF ex_db_reachable byte_order.prefix_collation_axioms ex_db_rows(3), of no_faults]
  show ?thesis by auto
qed

end
