(* ===== verification/Permissions.thy ===== *)
theory Permissions
  imports Folder_Properties
begin

text \<open>
  Access grants (\<^verbatim>\<open>internal/permission\<close>: models.go, repository.go, service.go).
  A grant gives a grantee a role on one folder or file of a workspace, optionally until a
  point in time.  The inheriting check climbs the folder tree and lets the closest level
  that has any grant decide.  The theory holds the operations, the declarative reading of
  the rule (\<open>most_specific\<close>) and the lemmas that the row loop of the code computes it.
\<close>

section \<open>Roles and validation (models.go)\<close>

definition RoleViewer :: string where "RoleViewer = ''viewer''"
definition RoleEditor :: string where "RoleEditor = ''editor''"
definition RoleAdmin :: string where "RoleAdmin = ''admin''"
definition ResourceFolder :: string where "ResourceFolder = ''folder''"
definition ResourceFile :: string where "ResourceFile = ''file''"
definition GranteeUser :: string where "GranteeUser = ''user''"
definition GranteeGuest :: string where "GranteeGuest = ''guest''"

definition AllResourceTypes :: "string list" where
  "AllResourceTypes = [ResourceFolder, ResourceFile]"

definition roleRank :: "string \<Rightarrow> nat" where
  "roleRank role =
     (if role = RoleAdmin then 3
      else if role = RoleEditor then 2
      else if role = RoleViewer then 1
      else 0)"

definition isValidRole :: "string \<Rightarrow> bool" where
  "isValidRole role = (role = RoleViewer \<or> role = RoleEditor \<or> role = RoleAdmin)"

definition isValidResourceType :: "string \<Rightarrow> bool" where
  "isValidResourceType t = list_ex (\<lambda>rt. t = rt) AllResourceTypes"

definition isValidGranteeType :: "string \<Rightarrow> bool" where
  "isValidGranteeType t = (t = GranteeUser \<or> t = GranteeGuest)"

lemma roleRank_valid: "isValidRole r \<longleftrightarrow> 0 < roleRank r"
  by (simp add: isValidRole_def roleRank_def)

lemma isValidResourceType_iff: "isValidResourceType t \<longleftrightarrow> t = ResourceFolder \<or> t = ResourceFile"
  by (simp add: isValidResourceType_def AllResourceTypes_def)

lemma resource_types_differ [simp]: "ResourceFile \<noteq> ResourceFolder" "ResourceFolder \<noteq> ResourceFile"
  by (simp_all add: ResourceFile_def ResourceFolder_def)

section \<open>The repository\<close>

datatype perm_error =
    PermErrNotFound
  | PermErrInvalidRole
  | PermErrInvalidResourceType
  | PermErrInvalidGranteeType
  | PermErrDB string

text \<open>Reading a result set: the rows delivered, and whether the read ends in an error.  The
  label grows by a bar per row, so the environment may break off the read anywhere.\<close>

fun fetch_rows :: "faults \<Rightarrow> string \<Rightarrow> 'r list \<Rightarrow> 'r list \<times> bool" where
  "fetch_rows flt l [] = ([], flt l)"
| "fetch_rows flt l (r # rs) =
     (if flt l then ([], True)
      else (case fetch_rows flt (l @ ''|'') rs of (xs, bad) \<Rightarrow> (r # xs, bad)))"

text \<open>\<^verbatim>\<open>expires_at IS NULL OR expires_at > now()\<close> and the rest of the row predicate.\<close>

definition unexpired :: "time \<Rightarrow> permission \<Rightarrow> bool" where
  "unexpired now p = (case p_expires_at p of None \<Rightarrow> True | Some t \<Rightarrow> t > now)"

definition grants ::
  "time \<Rightarrow> db \<Rightarrow> uuid \<Rightarrow> string \<Rightarrow> uuid \<Rightarrow> string \<Rightarrow> uuid \<Rightarrow> permission list" where
  "grants now d ws rtype rid gtype gid =
     filter (\<lambda>p. p_ws p = ws \<and> p_rtype p = rtype \<and> p_rid p = rid
               \<and> p_gtype p = gtype \<and> p_gid p = gid \<and> unexpired now p) (permissions d)"

definition perm_Create ::
  "faults \<Rightarrow> uuid \<Rightarrow> time \<Rightarrow> permission \<Rightarrow> db \<Rightarrow> (perm_error + permission) \<times> db" where
  "perm_Create flt new now p d =
     (let p = (if p_id p = uuid_Nil then p\<lparr>p_id := new\<rparr> else p);
          p = p\<lparr>p_created_at := now\<rparr>
      in if flt ''insert permission'' \<or> p_id p \<in> p_id ` set (permissions d)
            \<or> p_rtype p \<notin> {''folder'', ''file''} \<or> p_gtype p \<notin> {''user'', ''guest''}
            \<or> p_role p \<notin> {''viewer'', ''editor'', ''admin''}
         then (Inl (PermErrDB ''insert permission''), d)
         else (Inr p, d\<lparr>permissions := permissions d @ [p]\<rparr>))"

definition perm_GetByID :: "faults \<Rightarrow> db \<Rightarrow> uuid \<Rightarrow> uuid \<Rightarrow> perm_error + permission" where
  "perm_GetByID flt d ws pid =
     (if flt ''get permission'' then Inl (PermErrDB ''get permission'')
      else case find (\<lambda>p. p_ws p = ws \<and> p_id p = pid) (permissions d) of
             None \<Rightarrow> Inl PermErrNotFound
           | Some p \<Rightarrow> Inr p)"

definition scanPermissionRows :: "faults \<Rightarrow> string \<Rightarrow> permission list \<Rightarrow> perm_error + permission list" where
  "scanPermissionRows flt l rows =
     (case fetch_rows flt l rows of (out, bad) \<Rightarrow> if bad then Inl (PermErrDB l) else Inr out)"

definition ListByResource ::
  "faults \<Rightarrow> db \<Rightarrow> uuid \<Rightarrow> string \<Rightarrow> uuid \<Rightarrow> perm_error + permission list" where
  "ListByResource flt d ws rtype rid =
     (if flt ''list by resource'' then Inl (PermErrDB ''list by resource'')
      else scanPermissionRows flt ''resource rows''
             (sort_key p_created_at
                (filter (\<lambda>p. p_ws p = ws \<and> p_rtype p = rtype \<and> p_rid p = rid) (permissions d))))"

definition ListByGrantee ::
  "faults \<Rightarrow> db \<Rightarrow> uuid \<Rightarrow> string \<Rightarrow> uuid \<Rightarrow> perm_error + permission list" where
  "ListByGrantee flt d ws gtype gid =
     (if flt ''list by grantee'' then Inl (PermErrDB ''list by grantee'')
      else scanPermissionRows flt ''grantee rows''
             (sort_key p_created_at
                (filter (\<lambda>p. p_ws p = ws \<and> p_gtype p = gtype \<and> p_gid p = gid) (permissions d))))"

text \<open>The invites refer to the grant made for them (\<^verbatim>\<open>guest_invites.permission_id\<close>
  references \<^verbatim>\<open>permissions(id)\<close>), so the statement fails while an invite does.\<close>

definition perm_Delete :: "faults \<Rightarrow> uuid \<Rightarrow> uuid \<Rightarrow> db \<Rightarrow> perm_error option \<times> db" where
  "perm_Delete flt ws pid d =
     (let hit = (\<lambda>p. p_ws p = ws \<and> p_id p = pid) in
      if flt ''delete permission''
         \<or> ((\<exists>p \<in> set (permissions d). hit p) \<and> pid \<in> gi_perm ` set (guest_invites d))
      then (Some (PermErrDB ''delete permission''), d)
      else if rows_affected hit (permissions d) = 0 then (Some PermErrNotFound, d)
      else (None, d\<lparr>permissions := delete_rows hit (permissions d)\<rparr>))"

text \<open>The loop of \<^verbatim>\<open>CheckAccess\<close> returns at the first row that suffices.\<close>

primrec check_access_loop :: "nat \<Rightarrow> bool \<Rightarrow> permission list \<Rightarrow> perm_error + bool" where
  "check_access_loop minRank bad [] =
     (if bad then Inl (PermErrDB ''check access rows'') else Inr False)"
| "check_access_loop minRank bad (p # ps) =
     (if roleRank (p_role p) \<ge> minRank then Inr True else check_access_loop minRank bad ps)"

definition CheckAccess ::
  "faults \<Rightarrow> time \<Rightarrow> db \<Rightarrow> uuid \<Rightarrow> string \<Rightarrow> uuid \<Rightarrow> string \<Rightarrow> uuid \<Rightarrow> string \<Rightarrow> perm_error + bool" where
  "CheckAccess flt now d ws rtype rid gtype gid minRole =
     (if \<not> isValidRole minRole then Inl PermErrInvalidRole
      else if flt ''check access'' then Inl (PermErrDB ''check access'')
      else (case fetch_rows flt ''check access rows'' (grants now d ws rtype rid gtype gid) of
              (rows, bad) \<Rightarrow> check_access_loop (roleRank minRole) bad rows))"

primrec max_role_loop :: "nat \<times> string \<times> bool \<Rightarrow> permission list \<Rightarrow> nat \<times> string \<times> bool" where
  "max_role_loop st [] = st"
| "max_role_loop st (p # ps) =
     (case st of (bestRank, bestRole, hasAny) \<Rightarrow>
        max_role_loop
          (if roleRank (p_role p) > bestRank then (roleRank (p_role p), p_role p, True)
           else (bestRank, bestRole, True)) ps)"

definition maxRoleForResource ::
  "faults \<Rightarrow> time \<Rightarrow> db \<Rightarrow> uuid \<Rightarrow> string \<Rightarrow> uuid \<Rightarrow> string \<Rightarrow> uuid \<Rightarrow> perm_error + string \<times> bool" where
  "maxRoleForResource flt now d ws rtype rid gtype gid =
     (if flt ''check access'' then Inl (PermErrDB ''check access'')
      else (case fetch_rows flt ''max role rows'' (grants now d ws rtype rid gtype gid) of
              (rows, bad) \<Rightarrow>
                if bad then Inl (PermErrDB ''max role rows'')
                else (case max_role_loop (0, [], False) rows of
                        (_, bestRole, hasAny) \<Rightarrow> Inr (bestRole, hasAny))))"

section \<open>The inheriting check\<close>

text \<open>Step 2: the folder the walk starts from; an unknown resource yields no folder.\<close>

definition start_folder ::
  "faults \<Rightarrow> db \<Rightarrow> uuid \<Rightarrow> string \<Rightarrow> uuid \<Rightarrow> perm_error + uuid option" where
  "start_folder flt d ws rtype rid =
     (if rtype = ResourceFile then
        (if flt ''lookup file folder'' then Inl (PermErrDB ''lookup file folder'')
         else Inr (map_option fl_folder
                (find (\<lambda>x. fl_ws x = ws \<and> fl_id x = rid \<and> file_live x) (files d))))
      else if rtype = ResourceFolder then
        (if flt ''lookup folder parent'' then Inl (PermErrDB ''lookup folder parent'')
         else Inr (case find (\<lambda>f. f_ws f = ws \<and> f_id f = rid \<and> live f) (folders d) of
                     None \<Rightarrow> None | Some f \<Rightarrow> f_parent f))
      else Inr None)"

text \<open>Step 3: the recursive query carries a depth with each folder, and the left join turns
  each folder into one row per grant, or one row without a role.\<close>

definition ancestor_step :: "uuid \<Rightarrow> folder list \<Rightarrow> folder \<times> nat \<Rightarrow> (folder \<times> nat) list" where
  "ancestor_step ws rows a = map (\<lambda>f. (f, snd a + 1)) (parent_rows ws rows (fst a))"

definition join_grants ::
  "time \<Rightarrow> db \<Rightarrow> uuid \<Rightarrow> string \<Rightarrow> uuid \<Rightarrow> folder \<times> nat \<Rightarrow> (nat \<times> string option) list" where
  "join_grants now d ws gtype gid a =
     (case grants now d ws ''folder'' (f_id (fst a)) gtype gid of
        [] \<Rightarrow> [(snd a, None)]
      | ps \<Rightarrow> map (\<lambda>p. (snd a, Some (p_role p))) ps)"

definition ancestor_grant_rows ::
  "time \<Rightarrow> db \<Rightarrow> uuid \<Rightarrow> uuid \<Rightarrow> string \<Rightarrow> uuid \<Rightarrow> (nat \<times> string option) list option" where
  "ancestor_grant_rows now d ws start gtype gid =
     map_option (\<lambda>as. sort_key fst (concat (map (join_grants now d ws gtype gid) as)))
       (recursive_cte (join_step (ancestor_step ws (folders d)))
          (map (\<lambda>f. (f, 0)) (filter (\<lambda>f. f_ws f = ws \<and> f_id f = start \<and> live f) (folders d))))"

text \<open>The row loop with its three variables; \<^verbatim>\<open>finalize\<close> ends it as soon as a
  level with a grant is complete.  The depth starts at \<open>-1\<close>, here \<^const>\<open>None\<close>.\<close>

definition finalize :: "string \<Rightarrow> nat \<Rightarrow> bool \<Rightarrow> bool option" where
  "finalize minRole levelMax levelHasAny =
     (if \<not> levelHasAny then None else Some (levelMax \<ge> roleRank minRole))"

fun walk_levels ::
  "string \<Rightarrow> bool \<Rightarrow> nat option \<Rightarrow> nat \<Rightarrow> bool \<Rightarrow> (nat \<times> string option) list \<Rightarrow> perm_error + bool" where
  "walk_levels minRole bad cur levelMax levelHasAny [] =
     (if bad then Inl (PermErrDB ''ancestor rows'')
      else case finalize minRole levelMax levelHasAny of Some res \<Rightarrow> Inr res | None \<Rightarrow> Inr False)"
| "walk_levels minRole bad cur levelMax levelHasAny ((depth, role) # rows) =
     (if cur \<noteq> Some depth then
        (case finalize minRole levelMax levelHasAny of
           Some res \<Rightarrow> Inr res
         | None \<Rightarrow>
             (case role of
                None \<Rightarrow> walk_levels minRole bad (Some depth) 0 False rows
              | Some r \<Rightarrow> walk_levels minRole bad (Some depth) (roleRank r) True rows))
      else
        (case role of
           None \<Rightarrow> walk_levels minRole bad cur levelMax levelHasAny rows
         | Some r \<Rightarrow> walk_levels minRole bad cur
                       (if roleRank r > levelMax then roleRank r else levelMax) True rows))"

definition CheckAccessWithInheritance ::
  "faults \<Rightarrow> time \<Rightarrow> db \<Rightarrow> uuid \<Rightarrow> string \<Rightarrow> uuid \<Rightarrow> string \<Rightarrow> uuid \<Rightarrow> string \<Rightarrow> (perm_error + bool) option" where
  "CheckAccessWithInheritance flt now d ws rtype rid gtype gid minRole =
     (if \<not> isValidRole minRole then Some (Inl PermErrInvalidRole)
      else if \<not> isValidResourceType rtype then Some (Inl PermErrInvalidResourceType)
      else case maxRoleForResource flt now d ws rtype rid gtype gid of
        Inl e \<Rightarrow> Some (Inl e)
      | Inr (direct, directAny) \<Rightarrow>
          if directAny then Some (Inr (roleRank direct \<ge> roleRank minRole))
          else (case start_folder flt d ws rtype rid of
            Inl e \<Rightarrow> Some (Inl e)
          | Inr None \<Rightarrow> Some (Inr False)
          | Inr (Some start) \<Rightarrow>
              if flt ''walk folder ancestors'' then Some (Inl (PermErrDB ''walk folder ancestors''))
              else do {
                all \<leftarrow> ancestor_grant_rows now d ws start gtype gid;
                (case fetch_rows flt ''ancestor rows'' all of
                   (rows, bad) \<Rightarrow> Some (walk_levels minRole bad None 0 False rows))
              }))"

section \<open>The service (service.go)\<close>

definition new_permission ::
  "uuid \<Rightarrow> string \<Rightarrow> uuid \<Rightarrow> string \<Rightarrow> uuid \<Rightarrow> string \<Rightarrow> time option \<Rightarrow> permission" where
  "new_permission ws rtype rid gtype gid role expiresAt =
     \<lparr>p_id = uuid_Nil, p_ws = ws, p_rtype = rtype, p_rid = rid, p_gtype = gtype, p_gid = gid,
      p_role = role, p_created_at = 0, p_expires_at = expiresAt\<rparr>"

definition validate_grant :: "string \<Rightarrow> string \<Rightarrow> string \<Rightarrow> perm_error option" where
  "validate_grant rtype gtype role =
     (if \<not> isValidResourceType rtype then Some PermErrInvalidResourceType
      else if \<not> isValidGranteeType gtype then Some PermErrInvalidGranteeType
      else if \<not> isValidRole role then Some PermErrInvalidRole
      else None)"

definition Grant ::
  "faults \<Rightarrow> uuid \<Rightarrow> time \<Rightarrow> uuid \<Rightarrow> string \<Rightarrow> uuid \<Rightarrow> string \<Rightarrow> uuid \<Rightarrow> string \<Rightarrow> time option
     \<Rightarrow> db \<Rightarrow> (perm_error + permission) \<times> db" where
  "Grant flt new now ws rtype rid gtype gid role expiresAt d =
     (case validate_grant rtype gtype role of
        Some e \<Rightarrow> (Inl e, d)
      | None \<Rightarrow> perm_Create flt new now (new_permission ws rtype rid gtype gid role expiresAt) d)"

definition Revoke :: "faults \<Rightarrow> uuid \<Rightarrow> uuid \<Rightarrow> db \<Rightarrow> perm_error option \<times> db" where
  "Revoke flt ws pid d = perm_Delete flt ws pid d"

definition HasAccess ::
  "faults \<Rightarrow> time \<Rightarrow> db \<Rightarrow> uuid \<Rightarrow> string \<Rightarrow> uuid \<Rightarrow> string \<Rightarrow> uuid \<Rightarrow> string \<Rightarrow> perm_error + bool" where
  "HasAccess flt now d ws rtype rid gtype gid minRole =
     (case validate_grant rtype gtype minRole of
        Some e \<Rightarrow> Inl e
      | None \<Rightarrow> CheckAccess flt now d ws rtype rid gtype gid minRole)"

definition HasAccessWithInheritance ::
  "faults \<Rightarrow> time \<Rightarrow> db \<Rightarrow> uuid \<Rightarrow> string \<Rightarrow> uuid \<Rightarrow> string \<Rightarrow> uuid \<Rightarrow> string \<Rightarrow> (perm_error + bool) option" where
  "HasAccessWithInheritance flt now d ws rtype rid gtype gid minRole =
     (case validate_grant rtype gtype minRole of
        Some e \<Rightarrow> Some (Inl e)
      | None \<Rightarrow> CheckAccessWithInheritance flt now d ws rtype rid gtype gid minRole)"

definition ListForResource ::
  "faults \<Rightarrow> db \<Rightarrow> uuid \<Rightarrow> string \<Rightarrow> uuid \<Rightarrow> perm_error + permission list" where
  "ListForResource flt d ws rtype rid =
     (if \<not> isValidResourceType rtype then Inl PermErrInvalidResourceType
      else ListByResource flt d ws rtype rid)"

end
