(* ===== verification/Permission_Rules.thy ===== *)
theory Permission_Rules
  imports Permissions
begin

text \<open>
  The rule of the inheriting access check, stated on its own, and the proof that the queries
  and loops of \<^verbatim>\<open>repository.go\<close> compute it.
\<close>

section \<open>Most-specific-wins\<close>

text \<open>Levels of grants, closest first: the first level with any grant decides, by its best role.\<close>

definition suffices :: "string \<Rightarrow> permission list \<Rightarrow> bool" where
  "suffices minRole ps = (\<exists>p \<in> set ps. roleRank (p_role p) \<ge> roleRank minRole)"

primrec most_specific :: "string \<Rightarrow> permission list list \<Rightarrow> bool" where
  "most_specific m [] = False"
| "most_specific m (l # ls) = (if l = [] then most_specific m ls else suffices m l)"

lemma most_specific_iff:
  "most_specific m ls \<longleftrightarrow> (\<exists>i < length ls. ls ! i \<noteq> [] \<and> (\<forall>j < i. ls ! j = []) \<and> suffices m (ls ! i))"
proof (induction ls)
  case (Cons l ls)
  show ?case
  proof (cases "l = []")
    case True
    have "(\<exists>i < length (l # ls). (l # ls) ! i \<noteq> [] \<and> (\<forall>j < i. (l # ls) ! j = []) \<and> suffices m ((l # ls) ! i))
      \<longleftrightarrow> (\<exists>i < length ls. ls ! i \<noteq> [] \<and> (\<forall>j < i. ls ! j = []) \<and> suffices m (ls ! i))"
      using True by (simp add: Ex_less_Suc2 All_less_Suc2)
    with Cons True show ?thesis by simp
  next
    case False
    then show ?thesis by (simp add: Ex_less_Suc2 All_less_Suc2)
  qed
qed simp

section \<open>Reading result sets\<close>

lemma fetch_rows_no_faults [simp]: "fetch_rows no_faults l rows = (rows, False)"
  by (induction rows arbitrary: l) auto

lemma fetch_rows_prefix: "fetch_rows flt l rows = (xs, bad) \<Longrightarrow> prefix xs rows \<and> (\<not> bad \<longrightarrow> xs = rows)"
proof (induction rows arbitrary: l xs)
  case (Cons r rs)
  then show ?case by (auto split: if_splits prod.splits)
qed auto

section \<open>The loops\<close>

lemma check_access_loop_ok:
  "check_access_loop (roleRank m) False ps = Inr (suffices m ps)"
  by (induction ps) (auto simp: suffices_def)

lemma check_access_loop_prefix:
  assumes "check_access_loop k bad xs = Inr b" "prefix xs ps" "\<not> bad \<longrightarrow> xs = ps"
  shows "check_access_loop k False ps = Inr b"
  using assms
proof (induction xs arbitrary: ps)
  case (Cons x xs)
  then show ?case by (cases ps) (auto split: if_splits)
qed (auto split: if_splits)

abbreviation best :: "nat \<Rightarrow> permission list \<Rightarrow> nat" where
  "best k ps \<equiv> fold (\<lambda>p b. max (roleRank (p_role p)) b) ps k"

lemma best_ge: "r \<le> best k ps \<longleftrightarrow> r \<le> k \<or> (\<exists>p \<in> set ps. r \<le> roleRank (p_role p))"
  by (induction ps arbitrary: k) (auto simp: le_max_iff_disj)

lemma best_max_nat: "(if roleRank r > k then roleRank r else k) = max (roleRank r) k"
  by (simp add: max_def)

lemma max_role_loop_best:
  "roleRank role = k \<Longrightarrow> \<exists>role'. max_role_loop (k, role, any) ps = (best k ps, role', any \<or> ps \<noteq> [])
     \<and> roleRank role' = best k ps"
proof (induction ps arbitrary: k role any)
  case (Cons p ps)
  show ?case
  proof (cases "roleRank (p_role p) > k")
    case True
    then show ?thesis using Cons.IH [of "p_role p" "roleRank (p_role p)" True] by (simp add: max_def)
  next
    case False
    then show ?thesis using Cons.IH [of role k True] Cons.prems by (simp add: max_def)
  qed
qed auto

lemma roleRank_Nil [simp]: "roleRank [] = 0"
  by (simp add: roleRank_def RoleAdmin_def RoleEditor_def RoleViewer_def)

lemma maxRoleForResource_ok:
  assumes "maxRoleForResource flt now d ws rt rid gt gid = Inr (role, any)"
  shows "any \<longleftrightarrow> grants now d ws rt rid gt gid \<noteq> []"
    and "any \<Longrightarrow> roleRank role \<ge> roleRank m \<longleftrightarrow> suffices m (grants now d ws rt rid gt gid)"
proof -
  let ?ps = "grants now d ws rt rid gt gid"
  obtain xs bad where f: "fetch_rows flt ''max role rows'' ?ps = (xs, bad)" by fastforce
  obtain role' where r: "max_role_loop (0, [], False) ?ps = (best 0 ?ps, role', ?ps \<noteq> [])"
    "roleRank role' = best 0 ?ps" using max_role_loop_best [of "[]" 0 False ?ps] by auto
  from assms f have "\<not> bad" "\<not> flt ''check access''"
    by (auto simp: maxRoleForResource_def split: if_splits)
  with assms f r fetch_rows_prefix [OF f] have eq: "role = role'" "any \<longleftrightarrow> ?ps \<noteq> []"
    by (auto simp: maxRoleForResource_def)
  then show "any \<longleftrightarrow> ?ps \<noteq> []" by simp
  show "roleRank role \<ge> roleRank m \<longleftrightarrow> suffices m ?ps" if a: any
  proof -
    obtain p where "p \<in> set ?ps" using a eq by (cases ?ps) auto
    then show ?thesis using r(2) eq(1) by (auto simp: best_ge suffices_def)
  qed
qed

section \<open>The walk\<close>

definition level_rows :: "nat \<Rightarrow> permission list \<Rightarrow> (nat \<times> string option) list" where
  "level_rows k l = (case l of [] \<Rightarrow> [(k, None)] | ps \<Rightarrow> map (\<lambda>p. (k, Some (p_role p))) ps)"

primrec rows_of :: "nat \<Rightarrow> permission list list \<Rightarrow> (nat \<times> string option) list" where
  "rows_of k [] = []"
| "rows_of k (l # ls) = level_rows k l @ rows_of (Suc k) ls"

lemma level_rows_Cons [simp]:
  "level_rows k [] = [(k, None)]"
  "level_rows k (p # ps) = (k, Some (p_role p)) # map (\<lambda>p. (k, Some (p_role p))) ps"
  by (simp_all add: level_rows_def)

lemma rows_of_depth: "x \<in> set (rows_of k ls) \<Longrightarrow> fst x \<ge> k"
proof (induction ls arbitrary: k)
  case (Cons l ls)
  then show ?case by (cases l) (auto dest: Suc_leD)
qed simp

lemma rows_of_sorted: "sorted (map fst (rows_of k ls))"
proof (induction ls arbitrary: k)
  case (Cons l ls)
  have "sorted (map fst (level_rows k l)) \<and> (\<forall>x \<in> set (level_rows k l). fst x = k)"
    by (cases l) (auto simp: comp_def map_replicate_const)
  moreover have "\<forall>x \<in> set (rows_of (Suc k) ls). k \<le> fst x"
    using rows_of_depth by (meson Suc_leD)
  ultimately show ?case using Cons by (auto simp: sorted_append)
qed simp

lemma walk_within_level:
  "walk_levels m bad (Some k) mx True (map (\<lambda>p. (k, Some (p_role p))) ps @ rest)
     = walk_levels m bad (Some k) (best mx ps) True rest"
  by (induction ps arbitrary: mx) (simp_all add: best_max_nat)

lemma walk_next_level:
  "walk_levels m False (Some k) mx True (rows_of (Suc k) ls) = Inr (mx \<ge> roleRank m)"
proof (cases ls)
  case (Cons l ls')
  then show ?thesis by (cases l) (auto simp: finalize_def)
qed (simp add: finalize_def)

lemma walk_levels_most_specific:
  "(\<And>j. j \<ge> k \<Longrightarrow> cur \<noteq> Some j)
    \<Longrightarrow> walk_levels m False cur 0 False (rows_of k ls) = Inr (most_specific m ls)"
proof (induction ls arbitrary: k cur)
  case Nil
  then show ?case by (simp add: finalize_def)
next
  case (Cons l ls)
  have cur: "cur \<noteq> Some k" using Cons.prems by blast
  show ?case
  proof (cases l)
    case Nil
    then show ?thesis using cur Cons.IH [of "Suc k" "Some k"] by (simp add: finalize_def)
  next
    case (Cons p ps)
    then show ?thesis using cur
      by (simp add: finalize_def walk_within_level walk_next_level best_ge suffices_def)
  qed
qed

lemma walk_levels_prefix:
  assumes "walk_levels m bad cur mx any xs = Inr b" "prefix xs rows" "\<not> bad \<longrightarrow> xs = rows"
  shows "walk_levels m False cur mx any rows = Inr b"
  using assms
proof (induction xs arbitrary: rows cur mx any)
  case Nil
  then show ?case by (auto split: if_splits)
next
  case (Cons x xs)
  then obtain ys where ys: "rows = x # ys" "prefix xs ys" "\<not> bad \<longrightarrow> xs = ys"
    by (cases rows) auto
  obtain depth role where x: "x = (depth, role)" by fastforce
  show ?case
    using Cons.prems(1) Cons.IH [OF _ ys(2,3)]
    by (auto simp: ys(1) x split: if_splits option.splits)
qed

section \<open>The chain of folders\<close>

lemma recursive_cte_Some_Cons:
  assumes "recursive_cte (join_step s) [x] = Some cs"
  obtains rest where "cs = x # rest" "recursive_cte (join_step s) (s x) = Some rest"
proof -
  have eq: "recursive_cte (join_step s) [x]
      = do { rest \<leftarrow> recursive_cte (join_step s) (s x); Some ([x] @ rest) }"
    by (subst recursive_cte.simps) simp
  with assms that show thesis by (auto simp: bind_Some_iff)
qed

lemma zip_upt_Cons: "zip (x # cs) [k..<k + length (x # cs)] = (x, k) # zip cs [Suc k..<Suc k + length cs]"
proof -
  have "[k..<k + length (x # cs)] = k # [Suc k..<k + length (x # cs)]" by (rule upt_conv_Cons) simp
  then show ?thesis by (simp del: upt_Suc)
qed

text \<open>A query that follows one row at a time, with a depth beside each row.\<close>

lemma recursive_cte_depth:
  assumes single: "\<And>x. length (s x) \<le> 1"
    and "recursive_cte (join_step s) [x] = Some cs"
  shows "recursive_cte (join_step (\<lambda>a. map (\<lambda>f. (f, snd a + 1)) (s (fst a)))) [(x, k)]
    = Some (zip cs [k..<k + length cs])"
  using assms(2)
proof (induction cs arbitrary: x k)
  case Nil
  then show ?case by (elim recursive_cte_Some_Cons) simp
next
  case (Cons c cs)
  obtain rest where r: "c # cs = x # rest" "recursive_cte (join_step s) (s x) = Some rest"
    using recursive_cte_Some_Cons [OF Cons.prems] .
  let ?t = "\<lambda>a. map (\<lambda>f. (f, snd a + 1)) (s (fst a))"
  have "recursive_cte (join_step ?t) (?t (x, k)) = Some (zip cs [Suc k..<Suc k + length cs])"
  proof (cases "s x")
    case Nil
    with r show ?thesis by simp
  next
    case (Cons y ys)
    with single [of x] have "s x = [y]" by (cases ys) auto
    with r Cons.IH [of y "Suc k"] show ?thesis by simp
  qed
  then show ?case
    using r(1) zip_upt_Cons [of c cs k] by (subst recursive_cte.simps) (simp del: upt_Suc)
qed

lemma parent_rows_single:
  assumes "tree_inv rows"
  shows "length (parent_rows ws rows x) \<le> 1"
proof -
  have "distinct (map f_id rows)" using assms by (simp add: tree_inv_def)
  then have "distinct (map f_id (parent_rows ws rows x))"
    unfolding parent_rows_def by (simp add: distinct_map_filter)
  moreover have "set (map f_id (parent_rows ws rows x)) \<subseteq> set_option (f_parent x)"
    by (auto simp: parent_rows_def)
  ultimately have "length (map f_id (parent_rows ws rows x)) \<le> card (set_option (f_parent x))"
    by (cases "f_parent x") (metis distinct_card card_mono finite.emptyI finite.insertI option.set)+
  then show ?thesis by (cases "f_parent x") auto
qed

text \<open>The rows the walk reads, for a visible start folder: the levels of its chain.\<close>

abbreviation folder_level :: "time \<Rightarrow> db \<Rightarrow> uuid \<Rightarrow> string \<Rightarrow> uuid \<Rightarrow> folder \<Rightarrow> permission list" where
  "folder_level now d ws gt gid g \<equiv> grants now d ws ResourceFolder (f_id g) gt gid"

lemma join_grants_level:
  "join_grants now d ws gt gid (g, k) = level_rows k (folder_level now d ws gt gid g)"
  by (simp add: join_grants_def level_rows_def ResourceFolder_def split: list.splits)

lemma joined_rows_of:
  "concat (map (join_grants now d ws gt gid) (zip cs [k..<k + length cs]))
     = rows_of k (map (folder_level now d ws gt gid) cs)"
proof (induction cs arbitrary: k)
  case (Cons c cs)
  then show ?case using zip_upt_Cons [of c cs k] Cons [of "Suc k"]
    by (simp add: join_grants_level del: upt_Suc)
qed simp

text \<open>The chain of a visible folder: itself, its parent and so on up to the root.\<close>

definition chain :: "folder list \<Rightarrow> folder \<Rightarrow> folder list \<Rightarrow> bool" where
  "chain rows f cs \<longleftrightarrow> cs \<noteq> [] \<and> hd cs = f \<and> set cs = {g. ancestor_of rows g f}
     \<and> sorted_wrt (\<lambda>a b. strict_prefix (f_path b) (f_path a)) cs"

lemma ancestor_grant_rows_chain:
  assumes inv: "tree_inv (folders d)" and f: "f \<in> set (folders d)" "live f"
  obtains cs where "chain (folders d) f cs"
    "ancestor_grant_rows now d (f_ws f) (f_id f) gt gid
       = Some (rows_of 0 (map (folder_level now d (f_ws f) gt gid) cs))"
proof -
  obtain xs where xs: "recursive_cte (join_step (parent_rows (f_ws f) (folders d))) [f] = Some (rev (xs @ [f]))"
      "sorted_wrt (\<lambda>a b. strict_prefix (f_path a) (f_path b)) (xs @ [f])"
      "set (xs @ [f]) = {g. ancestor_of (folders d) g f}"
    using ancestor_chain [OF inv f] by blast
  let ?cs = "rev (xs @ [f])"
  have "chain (folders d) f ?cs"
    using xs(2,3) by (simp add: chain_def sorted_wrt_rev sorted_wrt_append)
  moreover have dist: "distinct (folders d)" using inv by (auto simp: tree_inv_def distinct_map)
  have start: "filter (\<lambda>g. f_ws g = f_ws f \<and> f_id g = f_id f \<and> live g) (folders d) = [f]"
    by (rule filter_singleton [OF dist f(1)]) (use f(2) tree_inv_id [OF inv _ f(1)] in auto)
  have step: "ancestor_step (f_ws f) (folders d) =
      (\<lambda>a. map (\<lambda>f. (f, snd a + 1)) (parent_rows (f_ws f) (folders d) (fst a)))"
    by (rule ext) (simp add: ancestor_step_def)
  have "recursive_cte (join_step (ancestor_step (f_ws f) (folders d))) [(f, 0)]
      = Some (zip ?cs [0..<0 + length ?cs])"
    unfolding step by (rule recursive_cte_depth [OF parent_rows_single [OF inv] xs(1)])
  then have "ancestor_grant_rows now d (f_ws f) (f_id f) gt gid
       = Some (rows_of 0 (map (folder_level now d (f_ws f) gt gid) ?cs))"
    using joined_rows_of [of now d "f_ws f" gt gid ?cs 0] rows_of_sorted
    by (simp add: ancestor_grant_rows_def start sort_key_id_if_sorted del: rev_append)
  ultimately show thesis using that by blast
qed

section \<open>Decisions under failures\<close>

lemma CheckAccess_Inr:
  assumes "CheckAccess flt now d ws rt rid gt gid m = Inr b"
  shows "b = suffices m (grants now d ws rt rid gt gid)" "isValidRole m"
proof -
  obtain xs bad where f: "fetch_rows flt ''check access rows'' (grants now d ws rt rid gt gid) = (xs, bad)"
    by fastforce
  with assms show "isValidRole m" by (auto simp: CheckAccess_def split: if_splits)
  from f assms have "check_access_loop (roleRank m) bad xs = Inr b"
    by (auto simp: CheckAccess_def split: if_splits)
  from check_access_loop_prefix [OF this] fetch_rows_prefix [OF f]
  have "check_access_loop (roleRank m) False (grants now d ws rt rid gt gid) = Inr b" by simp
  then show "b = suffices m (grants now d ws rt rid gt gid)" by (simp add: check_access_loop_ok)
qed

lemma maxRoleForResource_no_faults:
  "maxRoleForResource flt now d ws rt rid gt gid = Inr x
    \<Longrightarrow> maxRoleForResource no_faults now d ws rt rid gt gid = Inr x"
  by (auto simp: maxRoleForResource_def split: if_splits prod.splits dest!: fetch_rows_prefix)

lemma maxRoleForResource_total: "\<exists>x. maxRoleForResource no_faults now d ws rt rid gt gid = Inr x"
  by (simp add: maxRoleForResource_def split: prod.splits)

lemma start_folder_no_faults:
  "start_folder flt d ws rt rid = Inr x \<Longrightarrow> start_folder no_faults d ws rt rid = Inr x"
  by (auto simp: start_folder_def split: if_splits)

lemma inherit_no_faults:
  assumes "CheckAccessWithInheritance flt now d ws rt rid gt gid m = Some (Inr b)"
  shows "CheckAccessWithInheritance no_faults now d ws rt rid gt gid m = Some (Inr b)"
proof -
  have valid: "isValidRole m" "isValidResourceType rt"
    using assms by (auto simp: CheckAccessWithInheritance_def split: if_splits)
  then obtain role any where max: "maxRoleForResource flt now d ws rt rid gt gid = Inr (role, any)"
    using assms by (auto simp: CheckAccessWithInheritance_def split: sum.splits)
  note max0 = maxRoleForResource_no_faults [OF max]
  show ?thesis
  proof (cases any)
    case True
    with assms valid max max0 show ?thesis by (simp add: CheckAccessWithInheritance_def)
  next
    case False
    then obtain st where st: "start_folder flt d ws rt rid = Inr st"
      using assms valid max by (auto simp: CheckAccessWithInheritance_def split: sum.splits)
    note st0 = start_folder_no_faults [OF st]
    show ?thesis
    proof (cases st)
      case None
      with assms valid max max0 st st0 False show ?thesis by (simp add: CheckAccessWithInheritance_def)
    next
      case (Some s)
      obtain rows where rows: "ancestor_grant_rows now d ws s gt gid = Some rows"
        using assms valid max st False Some
        by (auto simp: CheckAccessWithInheritance_def bind_Some_iff split: if_splits)
      obtain xs bad where f: "fetch_rows flt ''ancestor rows'' rows = (xs, bad)" by fastforce
      have "walk_levels m bad None 0 False xs = Inr b"
        using assms valid max st False Some rows f
        by (auto simp: CheckAccessWithInheritance_def split: if_splits)
      from walk_levels_prefix [OF this] fetch_rows_prefix [OF f]
      have "walk_levels m False None 0 False rows = Inr b" by simp
      with valid max0 st0 False Some rows show ?thesis by (simp add: CheckAccessWithInheritance_def)
    qed
  qed
qed

text \<open>The check of a resource whose direct grants do not decide, from a visible folder upwards.\<close>

lemma inherit_from_chain:
  assumes "isValidRole m" "isValidResourceType rt"
    and "start_folder no_faults d (f_ws f) rt rid = Inr (Some (f_id f))"
    and "ancestor_grant_rows now d (f_ws f) (f_id f) gt gid
           = Some (rows_of 0 (map (folder_level now d (f_ws f) gt gid) cs))"
  shows "CheckAccessWithInheritance no_faults now d (f_ws f) rt rid gt gid m
    = Some (Inr (most_specific m (grants now d (f_ws f) rt rid gt gid
              # map (folder_level now d (f_ws f) gt gid) cs)))"
proof -
  obtain role any where max: "maxRoleForResource no_faults now d (f_ws f) rt rid gt gid = Inr (role, any)"
    using maxRoleForResource_total by (metis surj_pair)
  have walk: "walk_levels m False None 0 False (rows_of 0 ls) = Inr (most_specific m ls)" for ls
    by (rule walk_levels_most_specific) simp
  show ?thesis
    using assms max maxRoleForResource_ok [OF max] walk
    by (simp add: CheckAccessWithInheritance_def)
qed

lemma inherit_no_start:
  assumes "isValidRole m" "isValidResourceType rt" "start_folder no_faults d ws rt rid = Inr None"
  shows "CheckAccessWithInheritance no_faults now d ws rt rid gt gid m
    = Some (Inr (most_specific m [grants now d ws rt rid gt gid]))"
proof -
  obtain role any where max: "maxRoleForResource no_faults now d ws rt rid gt gid = Inr (role, any)"
    using maxRoleForResource_total by (metis surj_pair)
  show ?thesis
    using assms max maxRoleForResource_ok [OF max]
    by (simp add: CheckAccessWithInheritance_def)
qed

lemma find_visible_folder:
  assumes "tree_inv (folders d)" "f \<in> set (folders d)" "live f"
  shows "find (\<lambda>g. f_ws g = f_ws f \<and> f_id g = f_id f \<and> live g) (folders d) = Some f"
  by (rule find_unique) (use assms tree_inv_id [OF assms(1) _ assms(2)] in auto)

lemma folder_chain_decides:
  assumes inv: "tree_inv (folders d)" and f: "f \<in> set (folders d)" "live f" and m: "isValidRole m"
  obtains cs where "chain (folders d) f cs"
    "CheckAccessWithInheritance no_faults now d (f_ws f) ResourceFolder (f_id f) gt gid m
       = Some (Inr (most_specific m (map (folder_level now d (f_ws f) gt gid) cs)))"
proof (cases "f_parent f")
  case None
  have rt: "isValidResourceType ResourceFolder" by (simp add: isValidResourceType_iff)
  have "start_folder no_faults d (f_ws f) ResourceFolder (f_id f) = Inr None"
    using None find_visible_folder [OF inv f] by (simp add: start_folder_def)
  note res = inherit_no_start [OF m rt this, of now gt gid]
  have "{g. ancestor_of (folders d) g f} = {f}"
    using None f by (auto intro: ancestor_of.self elim: ancestor_of.cases)
  then have "chain (folders d) f [f]" by (simp add: chain_def)
  with res that show thesis by simp
next
  case (Some p)
  have rt: "isValidResourceType ResourceFolder" by (simp add: isValidResourceType_iff)
  obtain g where g: "g \<in> set (folders d)" "live g" "f_id g = p" "f_ws g = f_ws f"
      "f_path f = f_path g @ f_name f @ ''/''"
    using names_child [OF inv f Some] by metis
  obtain cs where cs: "chain (folders d) g cs"
    "ancestor_grant_rows now d (f_ws g) (f_id g) gt gid
       = Some (rows_of 0 (map (folder_level now d (f_ws g) gt gid) cs))"
    by (rule ancestor_grant_rows_chain [OF inv g(1,2)])
  have "start_folder no_faults d (f_ws g) ResourceFolder (f_id f) = Inr (Some (f_id g))"
    using Some g(3,4) find_visible_folder [OF inv f] by (simp add: start_folder_def)
  from inherit_from_chain [OF m rt this cs(2)] g(4)
  have res: "CheckAccessWithInheritance no_faults now d (f_ws f) ResourceFolder (f_id f) gt gid m
       = Some (Inr (most_specific m (map (folder_level now d (f_ws f) gt gid) (f # cs))))" by simp
  have only: "h = g" if "h \<in> set (folders d)" "f_id h = p" for h
    by (rule tree_inv_id [OF inv that(1) g(1)]) (simp add: that(2) g(3))
  have set: "{h. ancestor_of (folders d) h f} = insert f {h. ancestor_of (folders d) h g}"
  proof (intro set_eqI iffI)
    fix h assume "h \<in> {h. ancestor_of (folders d) h f}"
    then have "ancestor_of (folders d) h f" by simp
    then show "h \<in> insert f {h. ancestor_of (folders d) h g}"
    proof cases
      case (up k)
      have "k \<in> set (folders d)" using up(5) by (rule ancestor_of_live(1))
      moreover have "f_id k = p" using up(3) Some by simp
      ultimately have "k = g" by (rule only)
      with up show ?thesis by simp
    qed simp
  next
    fix h assume "h \<in> insert f {h. ancestor_of (folders d) h g}"
    then show "h \<in> {h. ancestor_of (folders d) h f}"
      using f Some g by (auto intro: ancestor_of.self ancestor_of.up [of f _ g])
  qed
  have "strict_prefix (f_path h) (f_path f)" if "h \<in> set cs" for h
  proof -
    have "h = g \<or> strict_prefix (f_path h) (f_path g)"
      using cs(1) that by (cases cs) (auto simp: chain_def)
    moreover have "strict_prefix (f_path g) (f_path f)"
      by (subst g(5)) (simp add: strict_prefix_def)
    ultimately show ?thesis using prefix_order.less_trans by blast
  qed
  with cs(1) set have "chain (folders d) f (f # cs)" by (simp add: chain_def)
  with res that show thesis by blast
qed

lemma file_chain_decides:
  assumes inv: "tree_inv (folders d)" and g: "g \<in> set (folders d)" "live g" and m: "isValidRole m"
    and x: "find (\<lambda>y. fl_ws y = f_ws g \<and> fl_id y = fl_id x \<and> file_live y) (files d) = Some x"
    and gx: "fl_folder x = f_id g"
  obtains cs where "chain (folders d) g cs"
    "CheckAccessWithInheritance no_faults now d (f_ws g) ResourceFile (fl_id x) gt gid m
       = Some (Inr (most_specific m (grants now d (f_ws g) ResourceFile (fl_id x) gt gid
                                      # map (folder_level now d (f_ws g) gt gid) cs)))"
proof -
  have rt: "isValidResourceType ResourceFile" by (simp add: isValidResourceType_iff)
  obtain cs where cs: "chain (folders d) g cs"
    "ancestor_grant_rows now d (f_ws g) (f_id g) gt gid
       = Some (rows_of 0 (map (folder_level now d (f_ws g) gt gid) cs))"
    by (rule ancestor_grant_rows_chain [OF inv g])
  have "start_folder no_faults d (f_ws g) ResourceFile (fl_id x) = Inr (Some (f_id g))"
    using x gx by (simp add: start_folder_def)
  from inherit_from_chain [OF m rt this cs(2)] cs(1) that show thesis by blast
qed

end
