(* ===== verification/Permission_Properties.thy ===== *)
theory Permission_Properties
  imports Permission_Rules
begin

text \<open>
  The properties of the access checks: the inheriting check is the most-specific-wins rule on
  the chain of visible folders, failures never turn into decisions, workspaces do not see
  each other's rows, and grants and revocations have exactly their effect.
\<close>

section \<open>Workspaces are separate\<close>

text \<open>What a workspace holds of the tables that access checks read.\<close>

definition workspace_rows :: "uuid \<Rightarrow> db \<Rightarrow> db" where
  "workspace_rows ws d = d\<lparr>folders := filter (\<lambda>f. f_ws f = ws) (folders d),
     files := filter (\<lambda>x. fl_ws x = ws) (files d),
     permissions := filter (\<lambda>p. p_ws p = ws) (permissions d)\<rparr>"

lemma find_filter: "(\<And>x. P x \<Longrightarrow> Q x) \<Longrightarrow> find P (filter Q xs) = find P xs"
  by (induction xs) auto

lemma filter_filter_implies: "(\<And>x. P x \<Longrightarrow> Q x) \<Longrightarrow> filter P (filter Q xs) = filter P xs"
  by (auto intro: filter_cong)

lemma grants_workspace [simp]:
  "grants now (workspace_rows ws d) ws rt rid gt gid = grants now d ws rt rid gt gid"
  unfolding grants_def workspace_rows_def by (simp add: conj_commute conj_left_commute)

lemma start_folder_workspace [simp]:
  "start_folder flt (workspace_rows ws d) ws rt rid = start_folder flt d ws rt rid"
proof -
  have "find (\<lambda>x. fl_ws x = ws \<and> fl_id x = rid \<and> file_live x) (filter (\<lambda>x. fl_ws x = ws) (files d))
      = find (\<lambda>x. fl_ws x = ws \<and> fl_id x = rid \<and> file_live x) (files d)"
    by (rule find_filter) simp
  moreover have "find (\<lambda>f. f_ws f = ws \<and> f_id f = rid \<and> live f) (filter (\<lambda>f. f_ws f = ws) (folders d))
      = find (\<lambda>f. f_ws f = ws \<and> f_id f = rid \<and> live f) (folders d)"
    by (rule find_filter) simp
  ultimately show ?thesis by (simp add: start_folder_def workspace_rows_def)
qed

lemma parent_rows_workspace:
  "parent_rows ws (filter (\<lambda>f. f_ws f = ws) rows) = parent_rows ws rows"
  by (rule ext) (simp add: parent_rows_def conj_commute conj_left_commute)

lemma ancestor_grant_rows_workspace [simp]:
  "ancestor_grant_rows now (workspace_rows ws d) ws start gt gid = ancestor_grant_rows now d ws start gt gid"
proof -
  have "join_grants now (workspace_rows ws d) ws gt gid = join_grants now d ws gt gid"
    by (rule ext) (simp add: join_grants_def)
  moreover have "ancestor_step ws (folders (workspace_rows ws d)) = ancestor_step ws (folders d)"
    by (rule ext) (simp add: ancestor_step_def workspace_rows_def parent_rows_workspace)
  moreover have "filter (\<lambda>f. f_ws f = ws \<and> f_id f = start \<and> live f) (folders (workspace_rows ws d))
      = filter (\<lambda>f. f_ws f = ws \<and> f_id f = start \<and> live f) (folders d)"
    by (simp add: workspace_rows_def conj_commute conj_left_commute)
  ultimately show ?thesis by (simp add: ancestor_grant_rows_def)
qed

lemma maxRoleForResource_workspace [simp]:
  "maxRoleForResource flt now (workspace_rows ws d) ws rt rid gt gid = maxRoleForResource flt now d ws rt rid gt gid"
  by (simp add: maxRoleForResource_def)

lemma access_workspace:
  "CheckAccess flt now (workspace_rows ws d) ws rt rid gt gid m = CheckAccess flt now d ws rt rid gt gid m"
  "CheckAccessWithInheritance flt now (workspace_rows ws d) ws rt rid gt gid m
     = CheckAccessWithInheritance flt now d ws rt rid gt gid m"
  by (simp_all add: CheckAccess_def CheckAccessWithInheritance_def
      cong: sum.case_cong option.case_cong prod.case_cong if_cong)

lemma perm_Create_Inr:
  assumes "perm_Create flt new now p d = (Inr q, d')"
  shows "d' = d\<lparr>permissions := permissions d @ [q]\<rparr>" "p_ws q = p_ws p"
    "q = p\<lparr>p_id := p_id q, p_created_at := now\<rparr>" "p_id q \<notin> p_id ` set (permissions d)"
    "isValidRole (p_role q)"
  using assms
  by (auto simp: perm_Create_def Let_def isValidRole_def RoleViewer_def RoleEditor_def RoleAdmin_def
      split: if_splits)

lemma perm_Create_Inl: "perm_Create flt new now p d = (Inl e, d') \<Longrightarrow> d' = d"
  by (auto simp: perm_Create_def Let_def split: if_splits)

lemma perm_Create_other_workspace:
  assumes "perm_Create flt new now p d = (res, d')" "w \<noteq> p_ws p"
  shows "workspace_rows w d' = workspace_rows w d"
proof (cases res)
  case (Inl e)
  with assms(1) have "perm_Create flt new now p d = (Inl e, d')" by simp
  then have "d' = d" by (rule perm_Create_Inl)
  then show ?thesis by simp
next
  case (Inr q)
  with assms show ?thesis using perm_Create_Inr(1,2) [of flt new now p d q d']
    by (simp add: workspace_rows_def)
qed

lemma perm_Delete_None:
  assumes "perm_Delete flt ws pid d = (None, d')"
  shows "d' = d\<lparr>permissions := filter (\<lambda>p. \<not> (p_ws p = ws \<and> p_id p = pid)) (permissions d)\<rparr>"
  using assms by (auto simp: perm_Delete_def Let_def delete_rows_def split: if_splits)

lemma perm_Delete_Some: "perm_Delete flt ws pid d = (Some e, d') \<Longrightarrow> d' = d"
  by (auto simp: perm_Delete_def Let_def split: if_splits)

lemma perm_Delete_other_workspace:
  assumes "perm_Delete flt ws pid d = (res, d')" "w \<noteq> ws"
  shows "workspace_rows w d' = workspace_rows w d"
proof (cases res)
  case (Some e)
  with assms(1) perm_Delete_Some show ?thesis by metis
next
  case None
  with assms(1) have d': "d' = d\<lparr>permissions := filter (\<lambda>p. \<not> (p_ws p = ws \<and> p_id p = pid)) (permissions d)\<rparr>"
    using perm_Delete_None by metis
  have "filter (\<lambda>p. p_ws p = w) (permissions d') = filter (\<lambda>p. p_ws p = w) (permissions d)"
    unfolding d' using assms(2) by (auto intro!: filter_cong)
  then show ?thesis unfolding d' by (simp add: workspace_rows_def)
qed

lemma Grant_Inr:
  assumes "Grant flt new now ws rt rid gt gid role ex d = (Inr p, d')"
  shows "d' = d\<lparr>permissions := permissions d @ [p]\<rparr>"
    "p = (new_permission ws rt rid gt gid role ex)\<lparr>p_id := p_id p, p_created_at := now\<rparr>"
    "validate_grant rt gt role = None"
proof -
  from assms show v: "validate_grant rt gt role = None"
    by (auto simp: Grant_def split: option.splits)
  with assms have "perm_Create flt new now (new_permission ws rt rid gt gid role ex) d = (Inr p, d')"
    by (simp add: Grant_def)
  from perm_Create_Inr(1,3) [OF this]
  show "d' = d\<lparr>permissions := permissions d @ [p]\<rparr>"
    "p = (new_permission ws rt rid gt gid role ex)\<lparr>p_id := p_id p, p_created_at := now\<rparr>" by simp_all
qed

section \<open>Properties\<close>

text \<open>Example rows for the witnesses: the folder history of before, a file in \<open>/a/b/c/\<close>, an
  admin grant on \<open>/a/\<close> and a viewer grant on \<open>/a/b/\<close> that expires at 100, both for user 9.\<close>

definition ex_file :: file_row where
  "ex_file = \<lparr>fl_id = 21, fl_ws = 7, fl_folder = 3, fl_name = ''x'', fl_current = None, fl_size = 0,
     fl_mime = [], fl_created_by = 9, fl_created_at = 14, fl_updated_at = 14, fl_deleted_at = None,
     fl_pending = None\<rparr>"

definition ex_perm_db :: db where
  "ex_perm_db = snd (Grant no_faults 52 16 7 ''folder'' 2 ''user'' 9 ''viewer'' (Some 100)
     (snd (Grant no_faults 51 15 7 ''folder'' 1 ''user'' 9 ''admin'' None (ex_db\<lparr>files := [ex_file]\<rparr>))))"

lemma ex_perm_db_folders: "folders ex_perm_db = folders ex_db"
  by code_simp

lemma ex_perm_db_rows:
  "ex_row 3 (Some 2) ''c'' ''/a/b/c/'' 12 \<in> set (folders ex_perm_db)" "ex_file \<in> set (files ex_perm_db)"
  by (simp_all only: ex_perm_db_folders ex_db_rows) code_simp

text \<open>C6 (equivalence).  The inheriting check of a visible folder returns and decides by the
  most-specific-wins rule: of the folder and the visible folders above it, closest first,
  the first that has any unexpired grant for the grantee decides, by its highest role.\<close>

theorem folder_access_is_most_specific:
  assumes "folder_step\<^sup>*\<^sup>* empty_db d0" "folders d = folders d0" "f \<in> set (folders d)" "live f"
    and "isValidGranteeType gt" "isValidRole m"
  shows "\<exists>cs. chain (folders d) f cs \<and>
    HasAccessWithInheritance no_faults now d (f_ws f) ResourceFolder (f_id f) gt gid m
      = Some (Inr (most_specific m (map (folder_level now d (f_ws f) gt gid) cs)))"
proof -
  have inv: "tree_inv (folders d)" using reachable_tree_inv [OF assms(1)] assms(2) by simp
  have "validate_grant ResourceFolder gt m = None"
    using assms(5,6) by (simp add: validate_grant_def isValidResourceType_iff)
  then show ?thesis
    using folder_chain_decides [OF inv assms(3,4,6), of now gt gid]
    unfolding HasAccessWithInheritance_def by (metis option.simps(4))
qed

theorem folder_access_is_most_specific_witness:
  "HasAccessWithInheritance no_faults 50 ex_perm_db 7 ''folder'' 3 ''user'' 9 ''editor'' = Some (Inr False)
   \<and> HasAccessWithInheritance no_faults 100 ex_perm_db 7 ''folder'' 3 ''user'' 9 ''editor'' = Some (Inr True)
   \<and> (\<exists>cs. chain (folders ex_perm_db) (ex_row 3 (Some 2) ''c'' ''/a/b/c/'' 12) cs
        \<and> \<not> most_specific ''editor'' (map (folder_level 50 ex_perm_db 7 ''user'' 9) cs))"
proof -
  have run: "HasAccessWithInheritance no_faults 50 ex_perm_db 7 ''folder'' 3 ''user'' 9 ''editor'' = Some (Inr False)"
    "HasAccessWithInheritance no_faults 100 ex_perm_db 7 ''folder'' 3 ''user'' 9 ''editor'' = Some (Inr True)"
    by code_simp+
  have "isValidGranteeType ''user''" "isValidRole ''editor''" by code_simp+
  from folder_access_is_most_specific [OF ex_db_reachable ex_perm_db_folders ex_perm_db_rows(1) _ this, of 50 9]
    run(1) have "\<exists>cs. chain (folders ex_perm_db) (ex_row 3 (Some 2) ''c'' ''/a/b/c/'' 12) cs
        \<and> \<not> most_specific ''editor'' (map (folder_level 50 ex_perm_db 7 ''user'' 9) cs)"
    by (auto simp: ResourceFolder_def)
  with run show ?thesis by simp
qed

text \<open>C7 (equivalence).  The inheriting check of a visible file in a visible folder: the
  grants on the file itself form the closest level, then come its folder and the folders
  above it.\<close>

theorem file_access_is_most_specific:
  assumes "folder_step\<^sup>*\<^sup>* empty_db d0" "folders d = folders d0"
    and "distinct (map fl_id (files d))" "x \<in> set (files d)" "file_live x"
    and "g \<in> set (folders d)" "live g" "fl_folder x = f_id g" "fl_ws x = f_ws g"
    and "isValidGranteeType gt" "isValidRole m"
  shows "\<exists>cs. chain (folders d) g cs \<and>
    HasAccessWithInheritance no_faults now d (fl_ws x) ResourceFile (fl_id x) gt gid m
      = Some (Inr (most_specific m (grants now d (fl_ws x) ResourceFile (fl_id x) gt gid
                                      # map (folder_level now d (fl_ws x) gt gid) cs)))"
proof -
  have inv: "tree_inv (folders d)" using reachable_tree_inv [OF assms(1)] assms(2) by simp
  have find: "find (\<lambda>y. fl_ws y = f_ws g \<and> fl_id y = fl_id x \<and> file_live y) (files d) = Some x"
    by (rule find_unique [OF assms(4)]) (use assms(5,9) distinct_map_inj [OF assms(3) _ assms(4)] in auto)
  have "validate_grant ResourceFile gt m = None"
    using assms(10,11) by (simp add: validate_grant_def isValidResourceType_iff)
  then show ?thesis
    using file_chain_decides [OF inv assms(6,7,11) find assms(8), of now gt gid]
    unfolding HasAccessWithInheritance_def assms(9) by (metis option.simps(4))
qed

theorem file_access_is_most_specific_witness:
  "\<exists>cs. chain (folders ex_perm_db) (ex_row 3 (Some 2) ''c'' ''/a/b/c/'' 12) cs
     \<and> most_specific ''admin'' (grants 100 ex_perm_db 7 ''file'' 21 ''user'' 9 # map (folder_level 100 ex_perm_db 7 ''user'' 9) cs)"
proof -
  have run: "HasAccessWithInheritance no_faults 100 ex_perm_db 7 ''file'' 21 ''user'' 9 ''admin'' = Some (Inr True)"
    by code_simp
  have v: "isValidGranteeType ''user''" "isValidRole ''admin''" by code_simp+
  have d: "distinct (map fl_id (files ex_perm_db))" "file_live ex_file" by code_simp+
  from file_access_is_most_specific [OF ex_db_reachable ex_perm_db_folders d(1) ex_perm_db_rows(2) d(2)
      ex_perm_db_rows(1) _ _ _ v, of 100 9] run
  show ?thesis by (auto simp: ResourceFile_def ex_file_def)
qed

text \<open>C8 (safety).  Whatever database calls fail, and wherever a result set breaks off: if
  an access check returns a decision at all, it is the decision of a run without failures.\<close>

theorem failures_never_change_a_decision:
  "(\<forall>b. HasAccessWithInheritance flt now d ws rt rid gt gid m = Some (Inr b)
      \<longrightarrow> HasAccessWithInheritance no_faults now d ws rt rid gt gid m = Some (Inr b))
   \<and> (\<forall>b. HasAccess flt now d ws rt rid gt gid m = Inr b
      \<longrightarrow> HasAccess no_faults now d ws rt rid gt gid m = Inr b)"
proof -
  have "CheckAccess no_faults now d ws rt rid gt gid m = Inr b"
    if "CheckAccess flt now d ws rt rid gt gid m = Inr b" for b
    using CheckAccess_Inr [OF that] by (simp add: CheckAccess_def check_access_loop_ok)
  then show ?thesis
    by (auto simp: HasAccess_def HasAccessWithInheritance_def split: option.splits dest: inherit_no_faults)
qed

definition ex_faults :: faults where
  "ex_faults l = (l = ''ancestor rows||'')"

theorem failures_never_change_a_decision_witness:
  "HasAccessWithInheritance ex_faults 50 ex_perm_db 7 ''file'' 21 ''user'' 9 ''viewer'' = Some (Inl (PermErrDB ''ancestor rows''))
   \<and> HasAccessWithInheritance ex_faults 50 ex_perm_db 7 ''folder'' 2 ''user'' 9 ''viewer'' = Some (Inr True)
   \<and> HasAccessWithInheritance no_faults 50 ex_perm_db 7 ''folder'' 2 ''user'' 9 ''viewer'' = Some (Inr True)"
proof -
  have "HasAccessWithInheritance ex_faults 50 ex_perm_db 7 ''file'' 21 ''user'' 9 ''viewer'' = Some (Inl (PermErrDB ''ancestor rows''))"
    "HasAccessWithInheritance ex_faults 50 ex_perm_db 7 ''folder'' 2 ''user'' 9 ''viewer'' = Some (Inr True)"
    by code_simp+
  with failures_never_change_a_decision [of ex_faults 50 ex_perm_db 7 "''folder''" 2 "''user''" 9 "''viewer''"]
  show ?thesis by blast
qed

text \<open>C9 (safety).  The decision about a resource of a workspace depends on the rows of that
  workspace only: removing every folder, file and grant of the other workspaces changes no
  answer and no error.\<close>

theorem access_depends_on_own_workspace_only:
  "HasAccess flt now (workspace_rows ws d) ws rt rid gt gid m = HasAccess flt now d ws rt rid gt gid m
   \<and> HasAccessWithInheritance flt now (workspace_rows ws d) ws rt rid gt gid m
     = HasAccessWithInheritance flt now d ws rt rid gt gid m"
  by (simp add: HasAccess_def HasAccessWithInheritance_def access_workspace cong: option.case_cong)

text \<open>After a successful grant the grantee has every role up to the granted
  one on the resource, directly, until the grant expires; from its expiry on every check
  answers as if the grant had not been made.\<close>

theorem grant_effective_until_expiry:
  assumes "Grant flt new now ws rt rid gt gid role ex d = (Inr p, d')"
  shows "(\<forall>t. (case ex of None \<Rightarrow> True | Some e \<Rightarrow> t < e) \<longrightarrow>
      (\<forall>m. 0 < roleRank m \<and> roleRank m \<le> roleRank role \<longrightarrow> HasAccess no_faults t d' ws rt rid gt gid m = Inr True))
    \<and> (\<forall>t rt' rid' gt' gid' m. (case ex of None \<Rightarrow> False | Some e \<Rightarrow> t \<ge> e) \<longrightarrow>
      HasAccess no_faults t d' ws rt' rid' gt' gid' m = HasAccess no_faults t d ws rt' rid' gt' gid' m)"
proof -
  note g = Grant_Inr [OF assms]
  have p: "p_ws p = ws" "p_rtype p = rt" "p_rid p = rid" "p_gtype p = gt" "p_gid p = gid"
    "p_role p = role" "p_expires_at p = ex"
    by (subst g(2), simp add: new_permission_def)+
  have granted: "\<forall>t. (case ex of None \<Rightarrow> True | Some e \<Rightarrow> t < e) \<longrightarrow>
      (\<forall>m. 0 < roleRank m \<and> roleRank m \<le> roleRank role \<longrightarrow> HasAccess no_faults t d' ws rt rid gt gid m = Inr True)"
  proof (intro allI impI)
    fix t m
    assume t: "case ex of None \<Rightarrow> True | Some e \<Rightarrow> t < e" and m: "0 < roleRank m \<and> roleRank m \<le> roleRank role"
    have "p \<in> set (grants t d' ws rt rid gt gid)"
      using p t g(1) by (auto simp: grants_def unexpired_def split: option.splits)
    with p(6) m have "suffices m (grants t d' ws rt rid gt gid)" by (auto simp: suffices_def)
    moreover have "validate_grant rt gt m = None" "isValidRole m"
      using g(3) m by (auto simp: validate_grant_def roleRank_valid split: if_splits)
    ultimately show "HasAccess no_faults t d' ws rt rid gt gid m = Inr True"
      by (simp add: HasAccess_def CheckAccess_def check_access_loop_ok)
  qed
  have "grants t d' ws rt' rid' gt' gid' = grants t d ws rt' rid' gt' gid'"
    if "case ex of None \<Rightarrow> False | Some e \<Rightarrow> t \<ge> e" for t rt' rid' gt' gid'
    using p(7) g(1) that by (auto simp: grants_def unexpired_def split: option.splits)
  then have "\<forall>t rt' rid' gt' gid' m. (case ex of None \<Rightarrow> False | Some e \<Rightarrow> t \<ge> e) \<longrightarrow>
      HasAccess no_faults t d' ws rt' rid' gt' gid' m = HasAccess no_faults t d ws rt' rid' gt' gid' m"
    by (auto simp: HasAccess_def CheckAccess_def split: option.splits)
  with granted show ?thesis by blast
qed

theorem grant_effective_until_expiry_witness:
  "\<exists>p d'. Grant no_faults 60 20 7 ''file'' 21 ''guest'' 77 ''editor'' (Some 90) ex_perm_db = (Inr p, d')
     \<and> HasAccess no_faults 89 d' 7 ''file'' 21 ''guest'' 77 ''viewer'' = Inr True
     \<and> HasAccess no_faults 90 d' 7 ''file'' 21 ''guest'' 77 ''viewer'' = Inr False"
proof -
  have ok: "case Grant no_faults 60 20 7 ''file'' 21 ''guest'' 77 ''editor'' (Some 90) ex_perm_db of
      (Inr p, d') \<Rightarrow> True | _ \<Rightarrow> False" by code_simp
  then obtain p d' where g: "Grant no_faults 60 20 7 ''file'' 21 ''guest'' 77 ''editor'' (Some 90) ex_perm_db = (Inr p, d')"
    by (auto split: prod.splits sum.splits)
  have r: "0 < roleRank ''viewer'' \<and> roleRank ''viewer'' \<le> roleRank ''editor''" by code_simp
  have "HasAccess no_faults 90 ex_perm_db 7 ''file'' 21 ''guest'' 77 ''viewer'' = Inr False" by code_simp
  with grant_effective_until_expiry [OF g] r g show ?thesis
    by (intro exI [of _ p] exI [of _ d']) simp
qed

end
