(* ===== verification/Permission_Cache.thy ===== *)
theory Permission_Cache
  imports Permission_Properties Decimal
begin

text \<open>
  The Redis-backed cache in front of the permission repository
  (\<^verbatim>\<open>internal/permission/cache.go\<close>): entries are keyed by a per-workspace
  generation counter, a change of the workspace increments the counter, and each replica
  remembers the counter for half a second.  The theory holds the operations of one replica,
  the commands of Redis they use, and the lemma that no two cache keys collide.
\<close>

section \<open>The commands of Redis\<close>

text \<open>A store maps a key to a value and, for keys with a time to live, the time at which the
  key disappears.  Times are in nanoseconds, as \<^verbatim>\<open>time.Duration\<close>.\<close>

type_synonym redis = "string \<rightharpoonup> string \<times> time option"

datatype redis_reply = RedisErr | RedisNil | RedisVal string

definition redis_live :: "time \<Rightarrow> string \<Rightarrow> redis \<Rightarrow> string option" where
  "redis_live now k r =
     (case r k of
        None \<Rightarrow> None
      | Some (v, None) \<Rightarrow> Some v
      | Some (v, Some e) \<Rightarrow> if now < e then Some v else None)"

definition redis_Get :: "faults \<Rightarrow> string \<Rightarrow> time \<Rightarrow> string \<Rightarrow> redis \<Rightarrow> redis_reply" where
  "redis_Get flt l now k r =
     (if flt l then RedisErr
      else case redis_live now k r of None \<Rightarrow> RedisNil | Some v \<Rightarrow> RedisVal v)"

definition redis_Set :: "faults \<Rightarrow> string \<Rightarrow> time \<Rightarrow> string \<Rightarrow> string \<Rightarrow> time \<Rightarrow> redis \<Rightarrow> bool \<times> redis" where
  "redis_Set flt l now k v ttl r =
     (if flt l then (False, r) else (True, r(k \<mapsto> (v, Some (now + ttl)))))"

text \<open>\<^verbatim>\<open>INCR\<close>: a missing key counts as 0; a value that is no 64-bit integer, or
  the largest one, is an error.\<close>

definition redis_Incr :: "faults \<Rightarrow> string \<Rightarrow> time \<Rightarrow> string \<Rightarrow> redis \<Rightarrow> int option \<times> redis" where
  "redis_Incr flt l now k r =
     (if flt l then (None, r)
      else case redis_live now k r of
        None \<Rightarrow> (Some 1, r(k \<mapsto> (show_int 1, None)))
      | Some v \<Rightarrow>
          (case ParseInt10 v of
             None \<Rightarrow> (None, r)
           | Some i \<Rightarrow>
               if int64_range (i + 1)
               then (Some (i + 1), r(k \<mapsto> (show_int (i + 1), map_option snd (r k) \<bind> id)))
               else (None, r)))"

section \<open>Keys\<close>

definition CacheKeyVersion :: string where "CacheKeyVersion = ''v1''"
definition CacheKeyPrefix :: string where "CacheKeyPrefix = ''ws:perm''"
definition generationStaleAfter :: time where "generationStaleAfter = 500 * 1000000"
definition cacheValueAllow :: string where "cacheValueAllow = ''a''"
definition cacheValueDeny :: string where "cacheValueDeny = ''d''"
definition cacheKindFlat :: string where "cacheKindFlat = ''f''"
definition cacheKindInheritance :: string where "cacheKindInheritance = ''i''"

text \<open>The text of a UUID comes from the uuid package; it is the parameter \<open>us\<close>.\<close>

definition generationKey :: "(uuid \<Rightarrow> string) \<Rightarrow> uuid \<Rightarrow> string" where
  "generationKey us ws = CacheKeyPrefix @ '':'' @ CacheKeyVersion @ '':gen:'' @ us ws"

definition entryKey ::
  "(uuid \<Rightarrow> string) \<Rightarrow> uuid \<Rightarrow> int \<Rightarrow> string \<Rightarrow> uuid \<Rightarrow> string \<Rightarrow> uuid \<Rightarrow> string \<Rightarrow> string \<Rightarrow> string" where
  "entryKey us ws gen rtype rid gtype gid kind minRole =
     CacheKeyPrefix @ '':'' @ CacheKeyVersion @ '':'' @ us ws @ '':gen'' @ show_int gen @ '':''
       @ rtype @ '':'' @ us rid @ '':'' @ gtype @ '':'' @ us gid @ '':'' @ kind @ '':'' @ minRole"

section \<open>The generation counter\<close>

text \<open>The local copies of one replica: value and time of the fetch, per workspace.\<close>

type_synonym gen_cache = "uuid \<rightharpoonup> int \<times> time"

text \<open>\<^verbatim>\<open>loadGeneration\<close> in its three critical sections: the read lock, the
  Redis round trip, and the write lock with the monotonic guard.\<close>

definition gen_local :: "time \<Rightarrow> uuid \<Rightarrow> gen_cache \<Rightarrow> int option" where
  "gen_local now ws c =
     (case c ws of
        None \<Rightarrow> None
      | Some (v, fetchedAt) \<Rightarrow> if now - fetchedAt < generationStaleAfter then Some v else None)"

definition gen_fetch :: "(uuid \<Rightarrow> string) \<Rightarrow> faults \<Rightarrow> time \<Rightarrow> uuid \<Rightarrow> redis \<Rightarrow> perm_error + int" where
  "gen_fetch us flt now ws r =
     (case redis_Get flt ''read generation'' now (generationKey us ws) r of
        RedisErr \<Rightarrow> Inl (PermErrDB ''read generation'')
      | RedisNil \<Rightarrow> Inr 0
      | RedisVal raw \<Rightarrow>
          (case ParseInt10 raw of None \<Rightarrow> Inl (PermErrDB ''parse generation'') | Some g \<Rightarrow> Inr g))"

definition gen_store :: "time \<Rightarrow> uuid \<Rightarrow> int \<Rightarrow> gen_cache \<Rightarrow> int \<times> gen_cache" where
  "gen_store now ws gen c =
     (case c ws of
        None \<Rightarrow> (gen, c(ws \<mapsto> (gen, now)))
      | Some (existing, _) \<Rightarrow>
          if gen \<ge> existing then (gen, c(ws \<mapsto> (gen, now))) else (existing, c))"

definition loadGeneration ::
  "(uuid \<Rightarrow> string) \<Rightarrow> faults \<Rightarrow> time \<Rightarrow> uuid \<Rightarrow> gen_cache \<Rightarrow> redis \<Rightarrow> (perm_error + int) \<times> gen_cache" where
  "loadGeneration us flt now ws c r =
     (case gen_local now ws c of
        Some v \<Rightarrow> (Inr v, c)
      | None \<Rightarrow>
          (case gen_fetch us flt now ws r of
             Inl e \<Rightarrow> (Inl e, c)
           | Inr gen \<Rightarrow> (case gen_store now ws gen c of (g, c') \<Rightarrow> (Inr g, c'))))"

text \<open>\<^verbatim>\<open>bustWorkspace\<close>: the increment in Redis, then the store of the result in
  the local copy (which has no guard).\<close>

definition bust_incr :: "(uuid \<Rightarrow> string) \<Rightarrow> faults \<Rightarrow> time \<Rightarrow> uuid \<Rightarrow> redis \<Rightarrow> int option \<times> redis" where
  "bust_incr us flt now ws r = redis_Incr flt ''bust'' now (generationKey us ws) r"

definition bust_store :: "time \<Rightarrow> uuid \<Rightarrow> int \<Rightarrow> gen_cache \<Rightarrow> gen_cache" where
  "bust_store now ws gen c = c(ws \<mapsto> (gen, now))"

definition bustWorkspace ::
  "(uuid \<Rightarrow> string) \<Rightarrow> faults \<Rightarrow> time \<Rightarrow> uuid \<Rightarrow> gen_cache \<Rightarrow> redis \<Rightarrow> gen_cache \<times> redis" where
  "bustWorkspace us flt now ws c r =
     (case bust_incr us flt now ws r of
        (None, r') \<Rightarrow> (c, r')
      | (Some gen, r') \<Rightarrow> (bust_store now ws gen c, r'))"

section \<open>Checks and changes through the cache\<close>

text \<open>The shared read-through path.  \<open>ans\<close> is the outcome of the delegate's check, used only
  where the code calls it; \<^const>\<open>None\<close> is a check that does not return.\<close>

definition cachedAccessCheck ::
  "(uuid \<Rightarrow> string) \<Rightarrow> time \<Rightarrow> faults \<Rightarrow> time \<Rightarrow> string \<Rightarrow> uuid \<Rightarrow> string \<Rightarrow> uuid \<Rightarrow> string \<Rightarrow> uuid \<Rightarrow> string
     \<Rightarrow> (perm_error + bool) option \<Rightarrow> gen_cache \<Rightarrow> redis
     \<Rightarrow> (perm_error + bool) option \<times> gen_cache \<times> redis" where
  "cachedAccessCheck us ttl flt now kind ws rtype rid gtype gid minRole ans c r =
     (case loadGeneration us flt now ws c r of
        (Inl e, c') \<Rightarrow> (ans, c', r)
      | (Inr gen, c') \<Rightarrow>
          (let key = entryKey us ws gen rtype rid gtype gid kind minRole;
               fill = (case ans of
                         None \<Rightarrow> (None, c', r)
                       | Some (Inl derr) \<Rightarrow> (Some (Inl derr), c', r)
                       | Some (Inr allowed) \<Rightarrow>
                           (let stored = (if allowed then cacheValueAllow else cacheValueDeny)
                            in (Some (Inr allowed), c', snd (redis_Set flt ''set entry'' now key stored ttl r))))
           in case redis_Get flt ''get entry'' now key r of
                RedisVal val \<Rightarrow>
                  if val = cacheValueAllow then (Some (Inr True), c', r)
                  else if val = cacheValueDeny then (Some (Inr False), c', r)
                  else fill
              | RedisNil \<Rightarrow> fill
              | RedisErr \<Rightarrow> (ans, c', r)))"

definition cached_CheckAccess ::
  "(uuid \<Rightarrow> string) \<Rightarrow> time \<Rightarrow> faults \<Rightarrow> time \<Rightarrow> db \<Rightarrow> uuid \<Rightarrow> string \<Rightarrow> uuid \<Rightarrow> string \<Rightarrow> uuid \<Rightarrow> string
     \<Rightarrow> gen_cache \<Rightarrow> redis \<Rightarrow> (perm_error + bool) option \<times> gen_cache \<times> redis" where
  "cached_CheckAccess us ttl flt now d ws rtype rid gtype gid minRole c r =
     cachedAccessCheck us ttl flt now cacheKindFlat ws rtype rid gtype gid minRole
       (Some (CheckAccess flt now d ws rtype rid gtype gid minRole)) c r"

definition cached_CheckAccessWithInheritance ::
  "(uuid \<Rightarrow> string) \<Rightarrow> time \<Rightarrow> faults \<Rightarrow> time \<Rightarrow> db \<Rightarrow> uuid \<Rightarrow> string \<Rightarrow> uuid \<Rightarrow> string \<Rightarrow> uuid \<Rightarrow> string
     \<Rightarrow> gen_cache \<Rightarrow> redis \<Rightarrow> (perm_error + bool) option \<times> gen_cache \<times> redis" where
  "cached_CheckAccessWithInheritance us ttl flt now d ws rtype rid gtype gid minRole c r =
     cachedAccessCheck us ttl flt now cacheKindInheritance ws rtype rid gtype gid minRole
       (CheckAccessWithInheritance flt now d ws rtype rid gtype gid minRole) c r"

definition cached_Create ::
  "(uuid \<Rightarrow> string) \<Rightarrow> faults \<Rightarrow> uuid \<Rightarrow> time \<Rightarrow> permission \<Rightarrow> db \<Rightarrow> gen_cache \<Rightarrow> redis
     \<Rightarrow> (perm_error + permission) \<times> db \<times> gen_cache \<times> redis" where
  "cached_Create us flt new now p d c r =
     (case perm_Create flt new now p d of
        (Inl e, d') \<Rightarrow> (Inl e, d', c, r)
      | (Inr q, d') \<Rightarrow> (case bustWorkspace us flt now (p_ws q) c r of (c', r') \<Rightarrow> (Inr q, d', c', r')))"

definition cached_Delete ::
  "(uuid \<Rightarrow> string) \<Rightarrow> faults \<Rightarrow> time \<Rightarrow> uuid \<Rightarrow> uuid \<Rightarrow> db \<Rightarrow> gen_cache \<Rightarrow> redis
     \<Rightarrow> perm_error option \<times> db \<times> gen_cache \<times> redis" where
  "cached_Delete us flt now ws pid d c r =
     (case perm_Delete flt ws pid d of
        (Some e, d') \<Rightarrow> (Some e, d', c, r)
      | (None, d') \<Rightarrow> (case bustWorkspace us flt now ws c r of (c', r') \<Rightarrow> (None, d', c', r')))"

section \<open>Keys do not collide\<close>

text \<open>What the cache relies on of the text of a UUID.\<close>

locale uuid_text =
  fixes us :: "uuid \<Rightarrow> string"
  assumes us_inj: "us a = us b \<Longrightarrow> a = b"
    and us_no_colon: "CHR '':'' \<notin> set (us a)"
    and us_not_gen: "us a \<noteq> ''gen''"

text \<open>Cutting a text at its first colon.\<close>

lemma colon_split:
  "CHR '':'' \<notin> set u \<Longrightarrow> CHR '':'' \<notin> set v
    \<Longrightarrow> u @ CHR '':'' # x = v @ CHR '':'' # y \<longleftrightarrow> u = v \<and> x = y"
  by (rule split_at_char)

lemma colon_split_end:
  "CHR '':'' \<notin> set u \<Longrightarrow> CHR '':'' \<notin> set v \<Longrightarrow> u @ CHR '':'' # x \<noteq> v"
  by auto

context uuid_text
begin

lemma us_eq [simp]: "us a = us b \<longleftrightarrow> a = b"
  using us_inj by blast

lemma entryKey_inj:
  assumes "isValidResourceType rt" "isValidResourceType rt'" "isValidGranteeType gt" "isValidGranteeType gt'"
    and "CHR '':'' \<notin> set k" "CHR '':'' \<notin> set k'"
  shows "entryKey us ws g rt rid gt gid k m = entryKey us ws' g' rt' rid' gt' gid' k' m'
    \<longleftrightarrow> ws = ws' \<and> g = g' \<and> rt = rt' \<and> rid = rid' \<and> gt = gt' \<and> gid = gid' \<and> k = k' \<and> m = m'"
proof -
  have "CHR '':'' \<notin> set t" if "isValidResourceType t \<or> isValidGranteeType t" for t
    using that by (auto simp: isValidResourceType_iff ResourceFolder_def ResourceFile_def
        isValidGranteeType_def GranteeUser_def GranteeGuest_def)
  with assms(1-4) have no: "CHR '':'' \<notin> set rt" "CHR '':'' \<notin> set rt'" "CHR '':'' \<notin> set gt" "CHR '':'' \<notin> set gt'"
    by auto
  show ?thesis
    using no assms(5,6) us_no_colon by (auto simp: entryKey_def colon_split)
qed

lemma generationKey_inj: "generationKey us ws = generationKey us ws' \<longleftrightarrow> ws = ws'"
  by (simp add: generationKey_def)

lemma generationKey_not_entryKey: "generationKey us ws \<noteq> entryKey us ws' g rt rid gt gid k m"
proof
  assume "generationKey us ws = entryKey us ws' g rt rid gt gid k m"
  then have "''gen'' @ CHR '':'' # us ws = us ws' @ CHR '':'' # (''gen'' @ show_int g @ '':'' @ rt @ '':''
      @ us rid @ '':'' @ gt @ '':'' @ us gid @ '':'' @ k @ '':'' @ m)"
    by (simp add: generationKey_def entryKey_def)
  then have "us ws' = ''gen''" using colon_split [of "''gen''" "us ws'"] us_no_colon by auto
  then show False using us_not_gen by blast
qed

end

text \<open>One text form: the decimal number.\<close>

interpretation decimal_ids: uuid_text show_nat
proof unfold_locales
  show "show_nat a = show_nat b \<Longrightarrow> a = b" for a b by (rule show_nat_inj)
  show "show_nat a \<noteq> ''gen''" for a
  proof
    assume "show_nat a = ''gen''"
    then have "CHR ''g'' \<in> set (show_nat a)" by simp
    then obtain k where "k < 10" "CHR ''g'' = digit k" using show_nat_digits by blast
    moreover have "(of_char CHR ''g'' :: nat) = 103" by simp
    ultimately show False using of_char_digit [of k] by simp
  qed
qed simp

end
