(* ===== verification/Cache_System.thy ===== *)
theory Cache_System
  imports Permission_Cache
begin

text \<open>
  Replicas that share Postgres and Redis, each with its own copies of the generation counters.  Requests run at
  once, step by step: a check reads the local copy, reads the counter, stores it, reads the entry, asks the
  repository and writes the entry; a change is made in the database, then increments the counter, then stores
  it.  Every command of Redis may fail, and the reply of an increment may be lost.  History variables
  record the database before each change of a workspace, and the increments.  The theory holds the steps and the
  invariant they keep.
\<close>

section \<open>The system\<close>

record access_query =
  aq_flat :: bool
  aq_rtype :: string
  aq_rid :: uuid
  aq_gtype :: string
  aq_gid :: uuid
  aq_min :: string

definition aq_valid :: "access_query \<Rightarrow> bool" where
  "aq_valid q = (validate_grant (aq_rtype q) (aq_gtype q) (aq_min q) = None)"

definition delegate_check :: "faults \<Rightarrow> time \<Rightarrow> db \<Rightarrow> uuid \<Rightarrow> access_query \<Rightarrow> (perm_error + bool) option" where
  "delegate_check flt now d ws q =
     (if aq_flat q
      then Some (CheckAccess flt now d ws (aq_rtype q) (aq_rid q) (aq_gtype q) (aq_gid q) (aq_min q))
      else CheckAccessWithInheritance flt now d ws (aq_rtype q) (aq_rid q) (aq_gtype q) (aq_gid q) (aq_min q))"

definition cached_check ::
  "(uuid \<Rightarrow> string) \<Rightarrow> time \<Rightarrow> faults \<Rightarrow> time \<Rightarrow> db \<Rightarrow> uuid \<Rightarrow> access_query \<Rightarrow> gen_cache \<Rightarrow> redis
     \<Rightarrow> (perm_error + bool) option \<times> gen_cache \<times> redis" where
  "cached_check us ttl flt now d ws q c r =
     (if aq_flat q
      then cached_CheckAccess us ttl flt now d ws (aq_rtype q) (aq_rid q) (aq_gtype q) (aq_gid q) (aq_min q) c r
      else cached_CheckAccessWithInheritance us ttl flt now d ws
             (aq_rtype q) (aq_rid q) (aq_gtype q) (aq_gid q) (aq_min q) c r)"

definition entry_key :: "(uuid \<Rightarrow> string) \<Rightarrow> uuid \<Rightarrow> int \<Rightarrow> access_query \<Rightarrow> string" where
  "entry_key us ws g q = entryKey us ws g (aq_rtype q) (aq_rid q) (aq_gtype q) (aq_gid q)
     (if aq_flat q then cacheKindFlat else cacheKindInheritance) (aq_min q)"

text \<open>Where a request is.  \<open>jb_seen\<close> counts the changes of the workspace at its start, its own included.\<close>

datatype phase =
    Opening access_query
  | Fetching access_query
  | Fetched access_query int
  | Keyed access_query int
  | Deciding access_query int
  | Bypassing access_query
  | Filling access_query int bool
  | Answered access_query bool
  | Busting
  | Storing int
  | Over

record job =
  jb_replica :: nat
  jb_ws :: uuid
  jb_start :: time
  jb_seen :: nat
  jb_phase :: phase

record cache_system =
  sy_now :: time
  sy_db :: db
  sy_redis :: redis
  sy_gen :: "nat \<Rightarrow> gen_cache"
  sy_jobs :: "nat \<rightharpoonup> job"
  sy_past :: "uuid \<Rightarrow> (db \<times> time) list"
  sy_busts :: "uuid \<Rightarrow> (nat \<times> time) list"

definition cold_start :: "time \<Rightarrow> db \<Rightarrow> cache_system" where
  "cold_start t d = \<lparr>sy_now = t, sy_db = d, sy_redis = Map.empty, sy_gen = (\<lambda>_. Map.empty), sy_jobs = Map.empty,
     sy_past = (\<lambda>_. []), sy_busts = (\<lambda>_. [])\<rparr>"

definition put_job :: "nat \<Rightarrow> job \<Rightarrow> cache_system \<Rightarrow> cache_system" where
  "put_job j x s = s\<lparr>sy_jobs := (sy_jobs s)(j \<mapsto> x)\<rparr>"

definition enter :: "phase \<Rightarrow> nat \<Rightarrow> job \<Rightarrow> cache_system \<Rightarrow> cache_system" where
  "enter ph j x s = put_job j (x\<lparr>jb_phase := ph\<rparr>) s"

definition put_gen :: "nat \<Rightarrow> gen_cache \<Rightarrow> cache_system \<Rightarrow> cache_system" where
  "put_gen i c s = s\<lparr>sy_gen := (sy_gen s)(i := c)\<rparr>"

text \<open>A request makes steps for at most \<open>lim\<close>.\<close>

definition runs :: "time \<Rightarrow> nat \<Rightarrow> job \<Rightarrow> cache_system \<Rightarrow> bool" where
  "runs lim j x s \<longleftrightarrow> sy_jobs s j = Some x \<and> sy_now s \<le> jb_start x + lim"

definition open_check :: "nat \<Rightarrow> nat \<Rightarrow> uuid \<Rightarrow> access_query \<Rightarrow> cache_system \<Rightarrow> cache_system" where
  "open_check j i ws q s = put_job j \<lparr>jb_replica = i, jb_ws = ws, jb_start = sy_now s, jb_seen = length (sy_past s ws), jb_phase = Opening q\<rparr> s"

definition change :: "nat \<Rightarrow> nat \<Rightarrow> uuid \<Rightarrow> db \<Rightarrow> cache_system \<Rightarrow> cache_system" where
  "change j i ws d' s =
     put_job j \<lparr>jb_replica = i, jb_ws = ws, jb_start = sy_now s, jb_seen = Suc (length (sy_past s ws)), jb_phase = Busting\<rparr>
       (s\<lparr>sy_db := d', sy_past := (sy_past s)(ws := sy_past s ws @ [(sy_db s, sy_now s)])\<rparr>)"

definition counted :: "uuid \<Rightarrow> redis \<Rightarrow> cache_system \<Rightarrow> cache_system" where
  "counted ws r' s = s\<lparr>sy_redis := r', sy_busts := (sy_busts s)(ws := sy_busts s ws @ [(length (sy_past s ws), sy_now s)])\<rparr>"

definition entry_reply :: "redis_reply \<Rightarrow> access_query \<Rightarrow> int \<Rightarrow> phase" where
  "entry_reply reply q g =
     (case reply of
        RedisVal val \<Rightarrow>
          if val = cacheValueAllow then Answered q True
          else if val = cacheValueDeny then Answered q False
          else Deciding q g
      | RedisNil \<Rightarrow> Deciding q g
      | RedisErr \<Rightarrow> Bypassing q)"

text \<open>The changes: a grant, a revocation, and a change of the workspace's folders and files, after which the
  service calls \<^verbatim>\<open>BustWorkspace\<close>.  A decision of the repository counts as one read of the database.\<close>

inductive cache_step :: "(uuid \<Rightarrow> string) \<Rightarrow> time \<Rightarrow> time \<Rightarrow> cache_system \<Rightarrow> cache_system \<Rightarrow> bool" for us ttl lim where
  tick: "sy_now s \<le> t \<Longrightarrow> cache_step us ttl lim s (s\<lparr>sy_now := t\<rparr>)"
| opens: "aq_valid q \<Longrightarrow> sy_jobs s j = None \<Longrightarrow> cache_step us ttl lim s (open_check j i ws q s)"
| local: "runs lim j x s \<Longrightarrow> jb_phase x = Opening q
    \<Longrightarrow> cache_step us ttl lim s
      (enter (case gen_local (sy_now s) (jb_ws x) (sy_gen s (jb_replica x)) of Some g \<Rightarrow> Keyed q g | None \<Rightarrow> Fetching q) j x s)"
| fetch: "runs lim j x s \<Longrightarrow> jb_phase x = Fetching q
    \<Longrightarrow> cache_step us ttl lim s
      (enter (case gen_fetch us flt (sy_now s) (jb_ws x) (sy_redis s) of Inr g \<Rightarrow> Fetched q g | Inl _ \<Rightarrow> Bypassing q) j x s)"
| store: "runs lim j x s \<Longrightarrow> jb_phase x = Fetched q g
    \<Longrightarrow> gen_store (sy_now s) (jb_ws x) g (sy_gen s (jb_replica x)) = (g', c')
    \<Longrightarrow> cache_step us ttl lim s (enter (Keyed q g') j x (put_gen (jb_replica x) c' s))"
| get: "runs lim j x s \<Longrightarrow> jb_phase x = Keyed q g
    \<Longrightarrow> cache_step us ttl lim s
      (enter (entry_reply (redis_Get flt ''get entry'' (sy_now s) (entry_key us (jb_ws x) g q) (sy_redis s)) q g) j x s)"
| decide: "runs lim j x s \<Longrightarrow> jb_phase x = Deciding q g
    \<Longrightarrow> cache_step us ttl lim s
      (enter (case delegate_check flt (sy_now s) (sy_db s) (jb_ws x) q of Some (Inr b) \<Rightarrow> Filling q g b | _ \<Rightarrow> Over) j x s)"
| bypass: "runs lim j x s \<Longrightarrow> jb_phase x = Bypassing q
    \<Longrightarrow> cache_step us ttl lim s
      (enter (case delegate_check flt (sy_now s) (sy_db s) (jb_ws x) q of Some (Inr b) \<Rightarrow> Answered q b | _ \<Rightarrow> Over) j x s)"
| fill: "runs lim j x s \<Longrightarrow> jb_phase x = Filling q g b
    \<Longrightarrow> cache_step us ttl lim s (enter (Answered q b) j x
      (s\<lparr>sy_redis := snd (redis_Set flt ''set entry'' (sy_now s) (entry_key us (jb_ws x) g q)
          (if b then cacheValueAllow else cacheValueDeny) ttl (sy_redis s))\<rparr>))"
| grant: "sy_jobs s j = None \<Longrightarrow> perm_Create flt new (sy_now s) p (sy_db s) = (Inr q, d')
    \<Longrightarrow> cache_step us ttl lim s (change j i (p_ws q) d' s)"
| revoke: "sy_jobs s j = None \<Longrightarrow> perm_Delete flt ws pid (sy_db s) = (None, d')
    \<Longrightarrow> cache_step us ttl lim s (change j i ws d' s)"
| tree: "sy_jobs s j = None \<Longrightarrow> (\<And>w. w \<noteq> ws \<Longrightarrow> workspace_rows w d' = workspace_rows w (sy_db s))
    \<Longrightarrow> cache_step us ttl lim s (change j i ws d' s)"
| incr: "runs lim j x s \<Longrightarrow> jb_phase x = Busting \<Longrightarrow> bust_incr us flt (sy_now s) (jb_ws x) (sy_redis s) = (Some g, r')
    \<Longrightarrow> cache_step us ttl lim s (enter (Storing g) j x (counted (jb_ws x) r' s))"
| reply_lost: "runs lim j x s \<Longrightarrow> jb_phase x = Busting \<Longrightarrow> bust_incr us flt (sy_now s) (jb_ws x) (sy_redis s) = (Some g, r')
    \<Longrightarrow> cache_step us ttl lim s (enter Over j x (counted (jb_ws x) r' s))"
| incr_failed: "runs lim j x s \<Longrightarrow> jb_phase x = Busting \<Longrightarrow> bust_incr us flt (sy_now s) (jb_ws x) (sy_redis s) = (None, r')
    \<Longrightarrow> cache_step us ttl lim s (enter Over j x (s\<lparr>sy_redis := r'\<rparr>))"
| saved: "runs lim j x s \<Longrightarrow> jb_phase x = Storing g
    \<Longrightarrow> cache_step us ttl lim s (enter Over j x
      (put_gen (jb_replica x) (bust_store (sy_now s) (jb_ws x) g (sy_gen s (jb_replica x))) s))"

text \<open>The database after the first \<open>n\<close> changes of the workspace, and when it was that.\<close>

definition version :: "cache_system \<Rightarrow> uuid \<Rightarrow> nat \<Rightarrow> db" where
  "version s ws n = (if n < length (sy_past s ws) then fst (sy_past s ws ! n) else sy_db s)"

definition current :: "cache_system \<Rightarrow> uuid \<Rightarrow> nat \<Rightarrow> time \<Rightarrow> bool" where
  "current s ws n t \<longleftrightarrow> n \<le> length (sy_past s ws) \<and> (0 < n \<longrightarrow> snd (sy_past s ws ! (n - 1)) \<le> t)
     \<and> (n < length (sy_past s ws) \<longrightarrow> t \<le> snd (sy_past s ws ! n))"

section \<open>What the cache relies on of its delegate\<close>

text \<open>A decision depends on the workspace's own rows, and a run with failures that decides
  decides as one without.\<close>

locale access_delegate =
  fixes answer :: "faults \<Rightarrow> time \<Rightarrow> 's \<Rightarrow> uuid \<Rightarrow> access_query \<Rightarrow> (perm_error + bool) option"
    and view :: "uuid \<Rightarrow> 's \<Rightarrow> 'v"
  assumes answer_view: "view ws d = view ws d' \<Longrightarrow> answer flt now d ws q = answer flt now d' ws q"
    and answer_sound: "answer flt now d ws q = Some (Inr b) \<Longrightarrow> answer no_faults now d ws q = Some (Inr b)"
begin

text \<open>A decision taken in some version stays a decision of that version when other
  workspaces change.\<close>

lemma decision_kept:
  assumes "answer flt now d ws q = Some (Inr b)" "view ws d = view ws d'"
  shows "answer no_faults now d' ws q = Some (Inr b)"
  using answer_sound [OF assms(1)] answer_view [OF assms(2)] by simp

end

interpretation repo: access_delegate delegate_check workspace_rows
proof unfold_locales
  show "delegate_check flt now d ws q = delegate_check flt now d' ws q"
    if "workspace_rows ws d = workspace_rows ws d'" for ws d d' flt now q
    using that access_workspace [of flt now ws d] access_workspace [of flt now ws d']
    unfolding delegate_check_def by metis
  have flat: "CheckAccess no_faults now d ws rt rid gt gid m = Inr b"
    if "CheckAccess flt now d ws rt rid gt gid m = Inr b" for flt now d ws rt rid gt gid m b
    using CheckAccess_Inr [OF that] by (simp add: CheckAccess_def check_access_loop_ok)
  show "delegate_check no_faults now d ws q = Some (Inr b)"
    if "delegate_check flt now d ws q = Some (Inr b)" for flt now d ws q b
    using that by (auto simp: delegate_check_def inherit_no_faults flat split: if_splits)
qed

section \<open>The invariant\<close>

definition entry_val :: "bool \<Rightarrow> string" where
  "entry_val b = (if b then cacheValueAllow else cacheValueDeny)"

lemma entry_val_inj [simp]: "entry_val b = entry_val b' \<longleftrightarrow> b = b'"
  by (auto simp: entry_val_def cacheValueAllow_def cacheValueDeny_def)

text \<open>A generation was the counter at \<open>t\<close> or later: the increments beyond it came after.\<close>

definition known :: "cache_system \<Rightarrow> uuid \<Rightarrow> int \<Rightarrow> time \<Rightarrow> bool" where
  "known s ws g t \<longleftrightarrow> t \<le> sy_now s \<and> 0 \<le> g \<and> g \<le> int (length (sy_busts s ws))
     \<and> (\<forall>k < length (sy_busts s ws). g \<le> int k \<longrightarrow> t \<le> snd (sy_busts s ws ! k))"

definition recent :: "time \<Rightarrow> cache_system \<Rightarrow> uuid \<Rightarrow> int \<Rightarrow> time \<Rightarrow> bool" where
  "recent lim s ws g t0 \<longleftrightarrow> (\<exists>t. t0 < t + generationStaleAfter + lim \<and> known s ws g t)"

text \<open>The answer is the repository's on the \<open>n\<close>-th database at \<open>t\<close>, when that was the current one.\<close>

definition decided :: "cache_system \<Rightarrow> uuid \<Rightarrow> access_query \<Rightarrow> bool \<Rightarrow> nat \<Rightarrow> time \<Rightarrow> bool" where
  "decided s ws q b n t \<longleftrightarrow> t \<le> sy_now s \<and> current s ws n t \<and> delegate_check no_faults t (version s ws n) ws q = Some (Inr b)"

text \<open>The \<open>n\<close>-th database has all changes that the first \<open>g\<close> increments followed.\<close>

definition covers :: "cache_system \<Rightarrow> uuid \<Rightarrow> int \<Rightarrow> nat \<Rightarrow> bool" where
  "covers s ws g n \<longleftrightarrow> g \<le> int (length (sy_busts s ws)) \<and> (\<forall>k < nat g. fst (sy_busts s ws ! k) \<le> n)"

definition answered :: "time \<Rightarrow> time \<Rightarrow> cache_system \<Rightarrow> uuid \<Rightarrow> time \<Rightarrow> access_query \<Rightarrow> bool \<Rightarrow> bool" where
  "answered ttl lim s ws t0 q b \<longleftrightarrow> (\<exists>n t. t0 < t + ttl + lim \<and> decided s ws q b n t
     \<and> (\<forall>(m, tb) \<in> set (sy_busts s ws). tb + generationStaleAfter + lim \<le> t0 \<longrightarrow> m \<le> n))"

fun phase_ok :: "time \<Rightarrow> time \<Rightarrow> cache_system \<Rightarrow> uuid \<Rightarrow> time \<Rightarrow> nat \<Rightarrow> phase \<Rightarrow> bool" where
  "phase_ok ttl lim s ws t0 n0 (Opening q) = aq_valid q"
| "phase_ok ttl lim s ws t0 n0 (Fetching q) = aq_valid q"
| "phase_ok ttl lim s ws t0 n0 (Bypassing q) = aq_valid q"
| "phase_ok ttl lim s ws t0 n0 (Fetched q g) = (aq_valid q \<and> known s ws g t0)"
| "phase_ok ttl lim s ws t0 n0 (Keyed q g) = (aq_valid q \<and> recent lim s ws g t0)"
| "phase_ok ttl lim s ws t0 n0 (Deciding q g) = (aq_valid q \<and> recent lim s ws g t0)"
| "phase_ok ttl lim s ws t0 n0 (Filling q g b) =
     (aq_valid q \<and> recent lim s ws g t0 \<and> (\<exists>n t. t0 \<le> t \<and> decided s ws q b n t \<and> covers s ws g n))"
| "phase_ok ttl lim s ws t0 n0 (Answered q b) = answered ttl lim s ws t0 q b"
| "phase_ok ttl lim s ws t0 n0 Busting = (n0 \<le> length (sy_past s ws))"
| "phase_ok ttl lim s ws t0 n0 (Storing g) = (known s ws g t0 \<and> 1 \<le> g \<and> n0 \<le> fst (sy_busts s ws ! nat (g - 1)))"
| "phase_ok ttl lim s ws t0 n0 Over = True"

definition job_ok :: "time \<Rightarrow> time \<Rightarrow> cache_system \<Rightarrow> job \<Rightarrow> bool" where
  "job_ok ttl lim s x \<longleftrightarrow> jb_start x \<le> sy_now s \<and> phase_ok ttl lim s (jb_ws x) (jb_start x) (jb_seen x) (jb_phase x)"

definition history_ok :: "cache_system \<Rightarrow> bool" where
  "history_ok s \<longleftrightarrow> (\<forall>ws. (\<forall>x \<in> set (sy_past s ws). snd x \<le> sy_now s)
     \<and> (\<forall>(m, t) \<in> set (sy_busts s ws). m \<le> length (sy_past s ws) \<and> t \<le> sy_now s))"

definition counter_ok :: "(uuid \<Rightarrow> string) \<Rightarrow> cache_system \<Rightarrow> bool" where
  "counter_ok us s \<longleftrightarrow> (\<forall>ws. int64_range (int (length (sy_busts s ws))) \<and> sy_redis s (generationKey us ws) =
     (if sy_busts s ws = [] then None else Some (show_int (int (length (sy_busts s ws))), None)))"

definition local_ok :: "time \<Rightarrow> cache_system \<Rightarrow> bool" where
  "local_ok lim s \<longleftrightarrow> (\<forall>i ws g t. sy_gen s i ws = Some (g, t) \<longrightarrow> known s ws g (t - lim))"

definition entry_ok :: "time \<Rightarrow> time \<Rightarrow> cache_system \<Rightarrow> uuid \<Rightarrow> int \<Rightarrow> access_query \<Rightarrow> string \<Rightarrow> time option \<Rightarrow> bool" where
  "entry_ok ttl lim s ws g q val e \<longleftrightarrow> (\<exists>tw b n t. val = entry_val b \<and> e = Some (tw + ttl) \<and> tw \<le> t + lim
     \<and> decided s ws q b n t \<and> covers s ws g n)"

definition entries_ok :: "(uuid \<Rightarrow> string) \<Rightarrow> time \<Rightarrow> time \<Rightarrow> cache_system \<Rightarrow> bool" where
  "entries_ok us ttl lim s \<longleftrightarrow> (\<forall>ws g q val e. aq_valid q \<longrightarrow>
     sy_redis s (entry_key us ws g q) = Some (val, e) \<longrightarrow> entry_ok ttl lim s ws g q val e)"

definition coherent :: "(uuid \<Rightarrow> string) \<Rightarrow> time \<Rightarrow> time \<Rightarrow> cache_system \<Rightarrow> bool" where
  "coherent us ttl lim s \<longleftrightarrow> history_ok s \<and> counter_ok us s \<and> local_ok lim s \<and> entries_ok us ttl lim s
     \<and> (\<forall>j x. sy_jobs s j = Some x \<longrightarrow> job_ok ttl lim s x)"

lemma coherent_cold_start: "coherent us ttl lim (cold_start t d)"
  by (simp add: coherent_def history_ok_def counter_ok_def local_ok_def entries_ok_def cold_start_def int64_range_def)

section \<open>Later states\<close>

text \<open>What every step does to clock and history.\<close>

definition later :: "cache_system \<Rightarrow> cache_system \<Rightarrow> bool" where
  "later s s' \<longleftrightarrow> sy_now s \<le> sy_now s'
     \<and> (\<forall>ws. \<exists>xs. sy_past s' ws = sy_past s ws @ xs \<and> (\<forall>x \<in> set xs. sy_now s \<le> snd x))
     \<and> (\<forall>ws. \<exists>ys. sy_busts s' ws = sy_busts s ws @ ys \<and> (\<forall>y \<in> set ys. sy_now s \<le> snd y))
     \<and> (\<forall>ws n. n \<le> length (sy_past s ws) \<longrightarrow> workspace_rows ws (version s' ws n) = workspace_rows ws (version s ws n))"

lemma later_now: "later s s' \<Longrightarrow> sy_now s \<le> sy_now s'"
  by (simp add: later_def)

lemma later_past:
  assumes "later s s'"
  obtains xs where "sy_past s' ws = sy_past s ws @ xs" "\<And>x. x \<in> set xs \<Longrightarrow> sy_now s \<le> snd x"
  using assms unfolding later_def by blast

lemma later_busts:
  assumes "later s s'"
  obtains ys where "sy_busts s' ws = sy_busts s ws @ ys" "\<And>y. y \<in> set ys \<Longrightarrow> sy_now s \<le> snd y"
  using assms unfolding later_def by blast

lemma later_put_job [simp]: "later s (put_job j x s') = later s s'" "later s (enter ph j x s') = later s s'"
  by (simp_all add: later_def put_job_def enter_def version_def)

lemma later_trans: "later s s' \<Longrightarrow> later s' s'' \<Longrightarrow> later s s''"
proof -
  assume l: "later s s'" "later s' s''"
  have "\<exists>xs. sy_past s'' ws = sy_past s ws @ xs \<and> (\<forall>x \<in> set xs. sy_now s \<le> snd x)" for ws
  proof -
    obtain xs where "sy_past s' ws = sy_past s ws @ xs" "\<And>x. x \<in> set xs \<Longrightarrow> sy_now s \<le> snd x" using later_past [OF l(1)] by blast
    moreover obtain ys where "sy_past s'' ws = sy_past s' ws @ ys" "\<And>x. x \<in> set ys \<Longrightarrow> sy_now s' \<le> snd x" using later_past [OF l(2)] by blast
    ultimately show ?thesis using later_now [OF l(1)] by (intro exI [of _ "xs @ ys"]) fastforce
  qed
  moreover have "\<exists>ys. sy_busts s'' ws = sy_busts s ws @ ys \<and> (\<forall>y \<in> set ys. sy_now s \<le> snd y)" for ws
  proof -
    obtain xs where "sy_busts s' ws = sy_busts s ws @ xs" "\<And>x. x \<in> set xs \<Longrightarrow> sy_now s \<le> snd x" using later_busts [OF l(1)] by blast
    moreover obtain ys where "sy_busts s'' ws = sy_busts s' ws @ ys" "\<And>x. x \<in> set ys \<Longrightarrow> sy_now s' \<le> snd x" using later_busts [OF l(2)] by blast
    ultimately show ?thesis using later_now [OF l(1)] by (intro exI [of _ "xs @ ys"]) fastforce
  qed
  moreover have "workspace_rows ws (version s'' ws n) = workspace_rows ws (version s ws n)" if "n \<le> length (sy_past s ws)" for ws n
  proof -
    have "n \<le> length (sy_past s' ws)" using that later_past [OF l(1), of ws] by (metis length_append trans_le_add1)
    then show ?thesis using l that by (simp add: later_def)
  qed
  ultimately show ?thesis using later_now [OF l(1)] later_now [OF l(2)] by (simp add: later_def)
qed

lemma later_same:
  assumes "sy_now s \<le> sy_now s'" "sy_past s' = sy_past s" "sy_busts s' = sy_busts s" "sy_db s' = sy_db s"
  shows "later s s'"
  using assms by (simp add: later_def version_def)

lemma known_later: "later s s' \<Longrightarrow> known s ws g t \<Longrightarrow> known s' ws g t"
proof -
  assume l: "later s s'" and k: "known s ws g t"
  obtain ys where ys: "sy_busts s' ws = sy_busts s ws @ ys" "\<And>y. y \<in> set ys \<Longrightarrow> sy_now s \<le> snd y"
    using later_busts [OF l] by blast
  have "t \<le> snd (sy_busts s' ws ! k')" if "k' < length (sy_busts s' ws)" "g \<le> int k'" for k'
  proof (cases "k' < length (sy_busts s ws)")
    case True
    then show ?thesis using k that(2) by (simp add: ys(1) known_def nth_append)
  next
    case False
    then have "sy_busts s' ws ! k' \<in> set ys" using that(1) by (simp add: ys(1) nth_append)
    then have "sy_now s \<le> snd (sy_busts s' ws ! k')" by (rule ys(2))
    then show ?thesis using k by (simp add: known_def)
  qed
  then show ?thesis using k later_now [OF l] by (simp add: known_def ys(1))
qed

lemma known_mono: "known s ws g t \<Longrightarrow> g \<le> h \<Longrightarrow> h \<le> int (length (sy_busts s ws)) \<Longrightarrow> known s ws h t"
  by (simp add: known_def)

lemma known_earlier: "known s ws g t \<Longrightarrow> t' \<le> t \<Longrightarrow> known s ws g t'"
  by (fastforce simp: known_def)

lemma recent_later: "later s s' \<Longrightarrow> recent lim s ws g t0 \<Longrightarrow> recent lim s' ws g t0"
  using known_later unfolding recent_def by blast

lemma current_later:
  assumes "later s s'" "current s ws n t" "t \<le> sy_now s"
  shows "current s' ws n t"
proof -
  obtain xs where xs: "sy_past s' ws = sy_past s ws @ xs" "\<And>x. x \<in> set xs \<Longrightarrow> sy_now s \<le> snd x"
    using later_past [OF assms(1)] by blast
  have "t \<le> snd (sy_past s' ws ! n)" if "n < length (sy_past s' ws)"
  proof (cases "n < length (sy_past s ws)")
    case True
    then show ?thesis using assms(2) by (simp add: xs(1) current_def nth_append)
  next
    case False
    then have "sy_past s' ws ! n \<in> set xs" using that by (simp add: xs(1) nth_append)
    then have "sy_now s \<le> snd (sy_past s' ws ! n)" by (rule xs(2))
    then show ?thesis using assms(3) by simp
  qed
  moreover have "snd (sy_past s' ws ! (n - 1)) \<le> t" if "0 < n"
  proof -
    have "n - 1 < length (sy_past s ws)" using assms(2) that by (auto simp: current_def)
    then show ?thesis using assms(2) that by (simp add: xs(1) current_def nth_append)
  qed
  ultimately show ?thesis using assms(2) by (simp add: current_def xs(1))
qed

lemma decided_later:
  assumes "later s s'" "decided s ws q b n t"
  shows "decided s' ws q b n t"
proof -
  have "n \<le> length (sy_past s ws)" using assms(2) by (simp add: decided_def current_def)
  then have "workspace_rows ws (version s ws n) = workspace_rows ws (version s' ws n)"
    using assms(1) by (simp add: later_def)
  then have "delegate_check no_faults t (version s' ws n) ws q = Some (Inr b)"
    using assms(2) unfolding decided_def by (blast intro: repo.decision_kept)
  then show ?thesis
    using assms current_later [OF assms(1)] later_now [OF assms(1)] by (auto simp: decided_def)
qed

lemma covers_later:
  assumes "later s s'" "covers s ws g n"
  shows "covers s' ws g n"
proof -
  obtain ys where "sy_busts s' ws = sy_busts s ws @ ys" using later_busts [OF assms(1)] by blast
  then show ?thesis using assms(2) by (auto simp: covers_def nth_append)
qed

lemma answered_later:
  assumes "later s s'" "answered ttl lim s ws t0 q b" "t0 \<le> sy_now s" "0 \<le> lim"
  shows "answered ttl lim s' ws t0 q b"
proof -
  obtain n t where o: "t0 < t + ttl + lim" "decided s ws q b n t"
    "\<forall>(m, tb) \<in> set (sy_busts s ws). tb + generationStaleAfter + lim \<le> t0 \<longrightarrow> m \<le> n" using assms(2) by (auto simp: answered_def)
  obtain ys where ys: "sy_busts s' ws = sy_busts s ws @ ys" "\<And>y. y \<in> set ys \<Longrightarrow> sy_now s \<le> snd y"
    using later_busts [OF assms(1)] by blast
  have "0 < generationStaleAfter" by (simp add: generationStaleAfter_def)
  then have "\<forall>(m, tb) \<in> set (sy_busts s' ws). tb + generationStaleAfter + lim \<le> t0 \<longrightarrow> m \<le> n"
    using o(3) ys assms(3,4) by fastforce
  with o(1) decided_later [OF assms(1) o(2)] show ?thesis unfolding answered_def by blast
qed

lemma phase_ok_later:
  assumes "later s s'" "phase_ok ttl lim s ws t0 n0 ph" "t0 \<le> sy_now s" "0 \<le> lim"
  shows "phase_ok ttl lim s' ws t0 n0 ph"
proof (cases ph)
  case (Filling q g b)
  then show ?thesis
    using assms recent_later [OF assms(1)] decided_later [OF assms(1)] covers_later [OF assms(1)] by auto blast
next
  case (Answered q b)
  then show ?thesis using assms answered_later [OF assms(1)] by simp
next
  case Busting
  obtain xs where "sy_past s' ws = sy_past s ws @ xs" using later_past [OF assms(1)] by blast
  then show ?thesis using assms(2) Busting by simp
next
  case (Storing g)
  obtain ys where "sy_busts s' ws = sy_busts s ws @ ys" using later_busts [OF assms(1)] by blast
  moreover have "nat (g - 1) < length (sy_busts s ws)" using assms(2) Storing by (auto simp: known_def)
  ultimately show ?thesis using assms(2) Storing known_later [OF assms(1)] by (simp add: nth_append)
qed (use assms known_later [OF assms(1)] recent_later [OF assms(1)] in auto)

lemma job_ok_later: "later s s' \<Longrightarrow> job_ok ttl lim s x \<Longrightarrow> 0 \<le> lim \<Longrightarrow> job_ok ttl lim s' x"
  using phase_ok_later later_now by (fastforce simp: job_ok_def)

lemma entry_ok_later: "later s s' \<Longrightarrow> entry_ok ttl lim s ws g q val e \<Longrightarrow> entry_ok ttl lim s' ws g q val e"
  using decided_later covers_later unfolding entry_ok_def by blast

text \<open>So a later state is coherent if what is new in it is all right.\<close>

lemma coherent_later:
  assumes l: "later s s'" and coh: "coherent us ttl lim s" and lim: "0 \<le> lim" and hist: "history_ok s'" and cnt: "counter_ok us s'"
    and gen: "\<And>i ws g t. sy_gen s' i ws = Some (g, t) \<Longrightarrow> sy_gen s i ws = Some (g, t) \<or> known s' ws g (t - lim)"
    and ent: "\<And>ws g q val e. aq_valid q \<Longrightarrow> sy_redis s' (entry_key us ws g q) = Some (val, e)
      \<Longrightarrow> sy_redis s (entry_key us ws g q) = Some (val, e) \<or> entry_ok ttl lim s' ws g q val e"
    and jobs: "\<And>j x. sy_jobs s' j = Some x \<Longrightarrow> sy_jobs s j = Some x \<or> job_ok ttl lim s' x"
  shows "coherent us ttl lim s'"
proof -
  have "known s' ws g (t - lim)" if "sy_gen s' i ws = Some (g, t)" for i ws g t
    using gen [OF that] coh known_later [OF l] by (auto simp: coherent_def local_ok_def)
  moreover have "entry_ok ttl lim s' ws g q val e" if "aq_valid q" "sy_redis s' (entry_key us ws g q) = Some (val, e)" for ws g q val e
    using ent [OF that] coh that(1) entry_ok_later [OF l] by (auto simp: coherent_def entries_ok_def)
  moreover have "job_ok ttl lim s' x" if "sy_jobs s' j = Some x" for j x
    using jobs [OF that] coh job_ok_later [OF l _ lim] by (auto simp: coherent_def)
  ultimately show ?thesis using hist cnt by (simp add: coherent_def local_ok_def entries_ok_def)
qed

section \<open>Every step keeps the invariant\<close>

lemma coherentD:
  assumes "coherent us ttl lim s"
  shows "history_ok s" "counter_ok us s" "sy_gen s i ws = Some (g, t) \<Longrightarrow> known s ws g (t - lim)"
    "aq_valid q \<Longrightarrow> sy_redis s (entry_key us ws g q) = Some (val, e) \<Longrightarrow> entry_ok ttl lim s ws g q val e"
    "sy_jobs s j = Some x \<Longrightarrow> job_ok ttl lim s x"
  using assms by (auto simp: coherent_def local_ok_def entries_ok_def)

lemma runs_bounds:
  assumes "coherent us ttl lim s" "runs lim j x s"
  shows "jb_start x \<le> sy_now s" "sy_now s - lim \<le> jb_start x" "0 \<le> lim"
    "phase_ok ttl lim s (jb_ws x) (jb_start x) (jb_seen x) (jb_phase x)"
  using coherentD(5) [OF assms(1), of j x] assms(2) by (auto simp: runs_def job_ok_def)

lemma coherent_tick:
  assumes "coherent us ttl lim s" "sy_now s \<le> t" "0 \<le> lim"
  shows "coherent us ttl lim (s\<lparr>sy_now := t\<rparr>)"
proof (rule coherent_later [OF _ assms(1,3)])
  show "history_ok (s\<lparr>sy_now := t\<rparr>)" using coherentD(1) [OF assms(1)] assms(2) by (fastforce simp: history_ok_def)
  show "counter_ok us (s\<lparr>sy_now := t\<rparr>)" using coherentD(2) [OF assms(1)] by (simp add: counter_ok_def)
qed (use assms(2) in \<open>simp_all add: later_same\<close>)

lemma coherent_put_job:
  assumes "coherent us ttl lim s" "0 \<le> lim" "job_ok ttl lim s x"
  shows "coherent us ttl lim (put_job j x s)"
proof (rule coherent_later [OF _ assms(1,2)])
  show l: "later s (put_job j x s)" by (simp add: later_same put_job_def)
  show "history_ok (put_job j x s)" using coherentD(1) [OF assms(1)] by (simp add: history_ok_def put_job_def)
  show "counter_ok us (put_job j x s)" using coherentD(2) [OF assms(1)] by (simp add: counter_ok_def put_job_def)
  show "sy_jobs s j' = Some y \<or> job_ok ttl lim (put_job j x s) y" if "sy_jobs (put_job j x s) j' = Some y" for j' y
    using that job_ok_later [OF l assms(3,2)] by (auto simp: put_job_def split: if_splits)
qed (simp_all add: put_job_def)

lemma coherent_enter:
  assumes "coherent us ttl lim s" "runs lim j x s" "phase_ok ttl lim s (jb_ws x) (jb_start x) (jb_seen x) ph"
  shows "coherent us ttl lim (enter ph j x s)"
  unfolding enter_def
  by (rule coherent_put_job) (use assms runs_bounds [OF assms(1,2)] in \<open>simp_all add: job_ok_def\<close>)

lemma coherent_put_gen:
  assumes "coherent us ttl lim s" "0 \<le> lim" "known s ws g (sy_now s - lim)"
  shows "coherent us ttl lim (put_gen i ((sy_gen s i)(ws \<mapsto> (g, sy_now s))) s)" (is "coherent us ttl lim ?s")
proof (rule coherent_later [OF _ assms(1,2)])
  show l: "later s ?s" by (simp add: later_same put_gen_def)
  show "history_ok ?s" using coherentD(1) [OF assms(1)] by (simp add: history_ok_def put_gen_def)
  show "counter_ok us ?s" using coherentD(2) [OF assms(1)] by (simp add: counter_ok_def put_gen_def)
  show "sy_gen s i' w = Some (h, t) \<or> known ?s w h (t - lim)" if "sy_gen ?s i' w = Some (h, t)" for i' w h t
    using that known_later [OF l assms(3)] by (auto simp: put_gen_def split: if_splits)
qed (simp_all add: put_gen_def)

text \<open>Reading the counter.\<close>

lemma counter_fetch:
  assumes "counter_ok us s" "gen_fetch us flt now ws (sy_redis s) = Inr g"
  shows "g = int (length (sy_busts s ws))"
proof -
  have "int64_range (int (length (sy_busts s ws)))"
    "sy_redis s (generationKey us ws) =
     (if sy_busts s ws = [] then None else Some (show_int (int (length (sy_busts s ws))), None))"
    using assms(1) by (auto simp: counter_ok_def)
  then show ?thesis using assms(2) ParseInt10_show_int
    by (auto simp: gen_fetch_def redis_Get_def redis_live_def split: if_splits)
qed

lemma counter_known: "t \<le> sy_now s \<Longrightarrow> known s ws (int (length (sy_busts s ws))) t"
  by (simp add: known_def)

text \<open>The guard of the store keeps the larger value.\<close>

lemma gen_store_known:
  assumes "coherent us ttl lim s" "0 \<le> lim" "gen_store (sy_now s) ws g (sy_gen s i) = (g', c')" "known s ws g t" "sy_now s - lim \<le> t"
  shows "coherent us ttl lim (put_gen i c' s)" "known s ws g' t" "g \<le> g'"
proof -
  have g: "known s ws g (sy_now s - lim)" using known_earlier [OF assms(4,5)] .
  have "put_gen i (sy_gen s i) s = s" by (simp add: put_gen_def)
  then show "coherent us ttl lim (put_gen i c' s)"
    using assms(1,3) coherent_put_gen [OF assms(1,2) g]
    by (auto simp: gen_store_def split: option.splits prod.splits if_splits)
  have "h \<le> int (length (sy_busts s ws))" if "sy_gen s i ws = Some (h, t')" for h t'
    using coherentD(3) [OF assms(1) that] by (simp add: known_def)
  with assms(3,4) show "known s ws g' t" "g \<le> g'"
    by (auto simp: gen_store_def intro: known_mono split: option.splits prod.splits if_splits)
qed

text \<open>Answers.\<close>

lemma decided_now:
  assumes "history_ok s" "delegate_check flt (sy_now s) (sy_db s) ws q = Some (Inr b)"
  shows "decided s ws q b (length (sy_past s ws)) (sy_now s)"
proof -
  have "snd (sy_past s ws ! (length (sy_past s ws) - 1)) \<le> sy_now s" if "sy_past s ws \<noteq> []"
  proof -
    have "sy_past s ws ! (length (sy_past s ws) - 1) \<in> set (sy_past s ws)" using that by (intro nth_mem) simp
    then show ?thesis using assms(1) unfolding history_ok_def by blast
  qed
  then show ?thesis using repo.answer_sound [OF assms(2)] by (simp add: decided_def current_def version_def)
qed

lemma covers_now: "history_ok s \<Longrightarrow> g \<le> int (length (sy_busts s ws)) \<Longrightarrow> covers s ws g (length (sy_past s ws))"
proof -
  assume h: "history_ok s" "g \<le> int (length (sy_busts s ws))"
  have "fst (sy_busts s ws ! k) \<le> length (sy_past s ws)" if "k < nat g" for k
  proof -
    have "sy_busts s ws ! k \<in> set (sy_busts s ws)" using that h(2) by (intro nth_mem) simp
    then show ?thesis using h(1) by (fastforce simp: history_ok_def)
  qed
  then show ?thesis using h(2) by (simp add: covers_def)
qed

lemma answered_covers:
  assumes "recent lim s ws g t0" "covers s ws g n" "decided s ws q b n t" "t0 < t + ttl + lim"
  shows "answered ttl lim s ws t0 q b"
proof -
  obtain t1 where t1: "t0 < t1 + generationStaleAfter + lim" "known s ws g t1" using assms(1) by (auto simp: recent_def)
  have "m \<le> n" if m: "(m, tb) \<in> set (sy_busts s ws)" "tb + generationStaleAfter + lim \<le> t0" for m tb
  proof -
    obtain k where k: "k < length (sy_busts s ws)" "sy_busts s ws ! k = (m, tb)" using m(1) by (auto simp: in_set_conv_nth)
    have "int k < g"
    proof (rule ccontr)
      assume "\<not> int k < g"
      then have "t1 \<le> snd (sy_busts s ws ! k)" using t1(2) k(1) by (simp add: known_def)
      then have "t1 \<le> tb" by (simp add: k(2))
      with t1(1) m(2) show False by simp
    qed
    then have "k < nat g" by simp
    then have "fst (sy_busts s ws ! k) \<le> n" using assms(2) by (simp add: covers_def)
    then show ?thesis by (simp add: k(2))
  qed
  then show ?thesis using assms(3,4) unfolding answered_def by blast
qed

lemma redis_liveE:
  assumes "redis_live now k r = Some v"
  obtains e where "r k = Some (v, e)" "e = None \<or> now < the e"
  using assms by (auto simp: redis_live_def split: option.splits prod.splits if_splits)

lemma entry_hit:
  assumes coh: "coherent us ttl lim s" and q: "aq_valid q" and t0: "t0 \<le> sy_now s"
    and get: "redis_Get flt l (sy_now s) (entry_key us ws g q) (sy_redis s) = RedisVal (entry_val b)"
  obtains n t where "decided s ws q b n t" "covers s ws g n" "t0 < t + ttl + lim"
proof -
  have "redis_live (sy_now s) (entry_key us ws g q) (sy_redis s) = Some (entry_val b)"
    using get by (auto simp: redis_Get_def split: option.splits if_splits)
  then obtain e where e: "sy_redis s (entry_key us ws g q) = Some (entry_val b, e)" "e = None \<or> sy_now s < the e"
    by (rule redis_liveE)
  obtain tw b' n t where o: "entry_val b = entry_val b'" "e = Some (tw + ttl)" "tw \<le> t + lim" "decided s ws q b' n t"
    "covers s ws g n" using coherentD(4) [OF coh q e(1)] unfolding entry_ok_def by blast
  have "t0 < t + ttl + lim" using e(2) o(2,3) t0 by simp
  with that o show thesis by simp
qed

lemma coherent_reply:
  assumes coh: "coherent us ttl lim s" and x: "runs lim j x s" "jb_phase x = Keyed q g"
  shows "phase_ok ttl lim s (jb_ws x) (jb_start x) (jb_seen x)
    (entry_reply (redis_Get flt l (sy_now s) (entry_key us (jb_ws x) g q) (sy_redis s)) q g)"
proof -
  note b = runs_bounds [OF coh x(1)]
  from b(4) x(2) have q: "aq_valid q" "recent lim s (jb_ws x) g (jb_start x)" by simp_all
  have hit: "answered ttl lim s (jb_ws x) (jb_start x) q v"
    if "redis_Get flt l (sy_now s) (entry_key us (jb_ws x) g q) (sy_redis s) = RedisVal (entry_val v)" for v
    using entry_hit [OF coh q(1) b(1) that] answered_covers [OF q(2)] by metis
  show ?thesis
    using q hit [of True] hit [of False] by (auto simp: entry_reply_def entry_val_def split: redis_reply.split)
qed

context uuid_text
begin

lemma entry_key_inj:
  assumes "aq_valid q" "aq_valid q'"
  shows "entry_key us ws g q = entry_key us ws' g' q' \<longleftrightarrow> ws = ws' \<and> g = g' \<and> q = q'"
proof -
  have v: "isValidResourceType (aq_rtype x)" "isValidGranteeType (aq_gtype x)" if "aq_valid x" for x
    using that by (auto simp: aq_valid_def validate_grant_def split: if_splits)
  have k: "CHR '':'' \<notin> set (if b then cacheKindFlat else cacheKindInheritance)" for b
    by (simp add: cacheKindFlat_def cacheKindInheritance_def)
  have kk: "(if b then cacheKindFlat else cacheKindInheritance) = (if b' then cacheKindFlat else cacheKindInheritance)
      \<longleftrightarrow> b = b'" for b b' by (auto simp: cacheKindFlat_def cacheKindInheritance_def)
  show ?thesis
    unfolding entry_key_def
    by (subst entryKey_inj [OF v(1) [OF assms(1)] v(1) [OF assms(2)] v(2) [OF assms(1)] v(2) [OF assms(2)] k k])
       (auto simp: kk)
qed

lemma generation_key_apart: "generationKey us ws \<noteq> entry_key us ws' g q"
  unfolding entry_key_def by (rule generationKey_not_entryKey)


lemma coherent_fill:
  assumes coh: "coherent us ttl lim s" "0 \<le> lim" and q: "aq_valid q" and new: "entry_ok ttl lim s ws g q (entry_val b) (Some (sy_now s + ttl))"
  shows "coherent us ttl lim (s\<lparr>sy_redis := snd (redis_Set flt l (sy_now s) (entry_key us ws g q) (entry_val b) ttl (sy_redis s))\<rparr>)"
    (is "coherent us ttl lim ?s")
proof (rule coherent_later [OF _ coh])
  show l: "later s ?s" by (simp add: later_same)
  show "history_ok ?s" using coherentD(1) [OF coh(1)] by (simp add: history_ok_def)
  show "counter_ok us ?s" using coherentD(2) [OF coh(1)] generation_key_apart by (simp add: counter_ok_def redis_Set_def)
  show "sy_redis s (entry_key us w h p) = Some (val, e) \<or> entry_ok ttl lim ?s w h p val e"
    if p: "aq_valid p" and at: "sy_redis ?s (entry_key us w h p) = Some (val, e)" for w h p val e
    using at entry_ok_later [OF l new] entry_key_inj [OF p q, of w h ws g] by (auto simp: redis_Set_def split: if_splits)
qed simp_all

text \<open>An increment yields the number of increments.\<close>

lemma incr_result:
  assumes "counter_ok us s" "bust_incr us flt now ws (sy_redis s) = (res, r')"
  defines "n \<equiv> int (length (sy_busts s ws)) + 1"
  shows "res = None \<Longrightarrow> r' = sy_redis s"
    and "res = Some g \<Longrightarrow> g = n \<and> r' = (sy_redis s)(generationKey us ws \<mapsto> (show_int n, None)) \<and> int64_range n"
proof -
  have cnt: "int64_range (int (length (sy_busts s ws)))" "sy_redis s (generationKey us ws) =
     (if sy_busts s ws = [] then None else Some (show_int (int (length (sy_busts s ws))), None))"
    using assms(1) by (auto simp: counter_ok_def)
  show "res = None \<Longrightarrow> r' = sy_redis s"
    and "res = Some g \<Longrightarrow> g = n \<and> r' = (sy_redis s)(generationKey us ws \<mapsto> (show_int n, None)) \<and> int64_range n"
    using assms(2) cnt(2) ParseInt10_show_int [OF cnt(1)]
    by (auto simp: bust_incr_def redis_Incr_def redis_live_def n_def int64_range_def split: if_splits option.splits)
qed

lemma coherent_counted:
  assumes coh: "coherent us ttl lim s" "0 \<le> lim" and incr: "bust_incr us flt (sy_now s) ws (sy_redis s) = (Some g, r')"
  shows "coherent us ttl lim (counted ws r' s)" "later s (counted ws r' s)" "g = int (length (sy_busts s ws)) + 1"
proof -
  let ?s = "counted ws r' s"
  note r = incr_result(2) [OF coherentD(2) [OF coh(1)] incr refl]
  show "g = int (length (sy_busts s ws)) + 1" using r by simp
  show l: "later s ?s" by (simp add: later_def counted_def version_def)
  show "coherent us ttl lim ?s"
  proof (rule coherent_later [OF l coh])
    show "history_ok ?s" using coherentD(1) [OF coh(1)] by (auto simp: history_ok_def counted_def)
    have "int64_range 0" by (simp add: int64_range_def)
    then show "counter_ok us ?s" using coherentD(2) [OF coh(1)] r
      by (simp add: counter_ok_def counted_def generationKey_inj add.commute)
    show "sy_redis s (entry_key us w h p) = Some (val, e) \<or> entry_ok ttl lim ?s w h p val e"
      if "sy_redis ?s (entry_key us w h p) = Some (val, e)" for w h p val e
      using that r generation_key_apart [of ws w h p] by (auto simp: counted_def)
  qed (simp_all add: counted_def)
qed

end

lemma coherent_change:
  assumes coh: "coherent us ttl lim s" "0 \<le> lim" and other: "\<And>w. w \<noteq> ws \<Longrightarrow> workspace_rows w d' = workspace_rows w (sy_db s)"
  shows "coherent us ttl lim (change j i ws d' s)" "later s (change j i ws d' s)"
proof -
  let ?s = "s\<lparr>sy_db := d', sy_past := (sy_past s)(ws := sy_past s ws @ [(sy_db s, sy_now s)])\<rparr>"
  let ?x = "\<lparr>jb_replica = i, jb_ws = ws, jb_start = sy_now s, jb_seen = Suc (length (sy_past s ws)), jb_phase = Busting\<rparr>"
  have v: "workspace_rows w (version ?s w n) = workspace_rows w (version s w n)" if "n \<le> length (sy_past s w)" for w n
    using that other [of w] by (cases "w = ws") (auto simp: version_def nth_append)
  have l: "later s ?s" unfolding later_def using v by simp
  have c: "coherent us ttl lim ?s"
  proof (rule coherent_later [OF l coh])
    show "history_ok ?s" using coherentD(1) [OF coh(1)] by (fastforce simp: history_ok_def)
    show "counter_ok us ?s" using coherentD(2) [OF coh(1)] by (simp add: counter_ok_def)
  qed simp_all
  have eq: "change j i ws d' s = put_job j ?x ?s" by (simp add: change_def)
  show "coherent us ttl lim (change j i ws d' s)"
    unfolding eq by (rule coherent_put_job [OF c coh(2)]) (simp add: job_ok_def)
  show "later s (change j i ws d' s)" using l by (simp add: eq)
qed

context uuid_text
begin

lemma cache_step_coherent:
  assumes "cache_step us ttl lim s s'" "coherent us ttl lim s" "0 \<le> lim" "0 < ttl"
  shows "coherent us ttl lim s' \<and> later s s'"
  using assms
proof (induction rule: cache_step.induct)
  case (tick s t)
  then show ?case by (simp add: coherent_tick later_same)
next
  case (opens q s j i ws)
  then show ?case by (simp add: open_check_def coherent_put_job job_ok_def later_same)
next
  case (local j x s q)
  note b = runs_bounds [OF local.prems(1) local.hyps(1)]
  have "recent lim s (jb_ws x) g (jb_start x)" if "gen_local (sy_now s) (jb_ws x) (sy_gen s (jb_replica x)) = Some g" for g
  proof -
    from that obtain t where t: "sy_gen s (jb_replica x) (jb_ws x) = Some (g, t)" "sy_now s - t < generationStaleAfter"
      by (auto simp: gen_local_def split: option.splits if_splits)
    from coherentD(3) [OF local.prems(1) t(1)] show ?thesis
      unfolding recent_def using t(2) b(1) by (intro exI [of _ "t - lim"]) simp
  qed
  then show ?case
    using local b(4) by (auto simp: later_same intro!: coherent_enter split: option.split)
next
  case (fetch j x s q flt)
  note b = runs_bounds [OF fetch.prems(1) fetch.hyps(1)]
  have "known s (jb_ws x) g (jb_start x)" if "gen_fetch us flt (sy_now s) (jb_ws x) (sy_redis s) = Inr g" for g
    using counter_fetch [OF coherentD(2) [OF fetch.prems(1)] that] counter_known [OF b(1)] by simp
  then show ?case
    using fetch b(4) by (auto simp: later_same intro!: coherent_enter split: sum.split)
next
  case (store j x s q g g' c')
  note b = runs_bounds [OF store.prems(1) store.hyps(1)]
  from b(4) store.hyps(2) have q: "aq_valid q" "known s (jb_ws x) g (jb_start x)" by simp_all
  note st = gen_store_known [OF store.prems(1) b(3) store.hyps(3) q(2) b(2)]
  let ?s = "put_gen (jb_replica x) c' s"
  have l: "later s ?s" by (simp add: put_gen_def later_same)
  have "recent lim ?s (jb_ws x) g' (jb_start x)"
    unfolding recent_def using known_later [OF l st(2)] b(3)
    by (intro exI [of _ "jb_start x"]) (simp add: generationStaleAfter_def)
  moreover have "runs lim j x ?s" using store.hyps(1) by (simp add: runs_def put_gen_def)
  ultimately show ?case using l q(1) by (auto intro!: coherent_enter [OF st(1)])
next
  case (get j x s q g flt)
  then show ?case by (auto simp: later_same intro!: coherent_enter coherent_reply)
next
  case (decide j x s q g flt)
  note b = runs_bounds [OF decide.prems(1) decide.hyps(1)]
  from b(4) decide.hyps(2) have q: "aq_valid q" "recent lim s (jb_ws x) g (jb_start x)" by simp_all
  note hist = coherentD(1) [OF decide.prems(1)]
  have "g \<le> int (length (sy_busts s (jb_ws x)))" using q(2) by (auto simp: recent_def known_def)
  note c = covers_now [OF hist this]
  have "\<exists>n t. jb_start x \<le> t \<and> decided s (jb_ws x) q v n t \<and> covers s (jb_ws x) g n"
    if "delegate_check flt (sy_now s) (sy_db s) (jb_ws x) q = Some (Inr v)" for v
    using decided_now [OF hist that] c b(1) by blast
  then show ?case
    using decide q by (auto simp: later_same intro!: coherent_enter split: option.split sum.split)
next
  case (bypass j x s q flt)
  note b = runs_bounds [OF bypass.prems(1) bypass.hyps(1)]
  note hist = coherentD(1) [OF bypass.prems(1)]
  have "answered ttl lim s (jb_ws x) (jb_start x) q v"
    if "delegate_check flt (sy_now s) (sy_db s) (jb_ws x) q = Some (Inr v)" for v
    using decided_now [OF hist that] b(1,3) bypass.prems(3) hist
    unfolding answered_def history_ok_def by (intro exI [of _ "length (sy_past s (jb_ws x))"] exI [of _ "sy_now s"]) auto
  then show ?case
    using bypass by (auto simp: later_same intro!: coherent_enter split: option.split sum.split)
next
  case (fill j x s q g v flt)
  note b = runs_bounds [OF fill.prems(1) fill.hyps(1)]
  from b(4) fill.hyps(2) obtain n t where q: "aq_valid q" "recent lim s (jb_ws x) g (jb_start x)" "jb_start x \<le> t"
    "decided s (jb_ws x) q v n t" "covers s (jb_ws x) g n" by auto
  let ?s = "s\<lparr>sy_redis := snd (redis_Set flt ''set entry'' (sy_now s) (entry_key us (jb_ws x) g q) (entry_val v) ttl (sy_redis s))\<rparr>"
  have "sy_now s \<le> t + lim" using b(2) q(3) by simp
  then have "entry_ok ttl lim s (jb_ws x) g q (entry_val v) (Some (sy_now s + ttl))" unfolding entry_ok_def using q(4,5) by blast
  from coherent_fill [OF fill.prems(1,2) q(1) this] have c: "coherent us ttl lim ?s" .
  have l: "later s ?s" by (simp add: later_same)
  have "answered ttl lim s (jb_ws x) (jb_start x) q v"
    by (rule answered_covers [OF q(2,5,4)]) (use q(3) b(3) fill.prems(3) in simp)
  then have "answered ttl lim ?s (jb_ws x) (jb_start x) q v" by (rule answered_later [OF l _ b(1) fill.prems(2)])
  moreover have "runs lim j x ?s" using fill.hyps(1) by (simp add: runs_def)
  ultimately have "coherent us ttl lim (enter (Answered q v) j x ?s)" by (intro coherent_enter [OF c]) auto
  then show ?case using l by (simp add: entry_val_def)
next
  case (grant s j flt new p q d' i)
  from perm_Create_Inr(2) [OF grant.hyps(2)] perm_Create_other_workspace [OF grant.hyps(2)] grant.prems
  show ?case by (auto intro!: coherent_change)
next
  case (revoke s j flt ws pid d' i)
  from perm_Delete_other_workspace [OF revoke.hyps(2)] revoke.prems
  show ?case by (auto intro!: coherent_change)
next
  case (tree s j ws d' i)
  then show ?case by (auto intro!: coherent_change)
next
  case (incr j x s flt g r')
  note b = runs_bounds [OF incr.prems(1) incr.hyps(1)]
  note c = coherent_counted [OF incr.prems(1,2) incr.hyps(3)]
  let ?s = "counted (jb_ws x) r' s"
  have "known ?s (jb_ws x) g (jb_start x)"
    using c(3) b(1) by (simp add: known_def counted_def)
  moreover have "jb_seen x \<le> fst (sy_busts ?s (jb_ws x) ! nat (g - 1))"
    using b(4) incr.hyps(2) c(3) by (simp add: counted_def)
  moreover have "runs lim j x ?s" using incr.hyps(1) by (simp add: runs_def counted_def)
  ultimately show ?case using c by (auto intro!: coherent_enter [OF c(1)])
next
  case (reply_lost j x s flt g r')
  note c = coherent_counted [OF reply_lost.prems(1,2) reply_lost.hyps(3)]
  have "runs lim j x (counted (jb_ws x) r' s)" using reply_lost.hyps(1) by (simp add: runs_def counted_def)
  then show ?case using c(2) by (auto intro!: coherent_enter [OF c(1)])
next
  case (incr_failed j x s flt r')
  have "r' = sy_redis s" using incr_result(1) [OF coherentD(2) [OF incr_failed.prems(1)] incr_failed.hyps(3)] by simp
  then show ?case using incr_failed by (auto simp: later_same intro!: coherent_enter)
next
  case (saved j x s g)
  note b = runs_bounds [OF saved.prems(1) saved.hyps(1)]
  have k: "known s (jb_ws x) g (sy_now s - lim)" using b(4) saved.hyps(2) known_earlier [OF _ b(2)] by simp
  let ?s = "put_gen (jb_replica x) (bust_store (sy_now s) (jb_ws x) g (sy_gen s (jb_replica x))) s"
  have c: "coherent us ttl lim ?s" using coherent_put_gen [OF saved.prems(1,2) k] by (simp add: bust_store_def)
  have "runs lim j x ?s" using saved.hyps(1) by (simp add: runs_def put_gen_def)
  then show ?case by (auto simp: put_gen_def later_same intro!: coherent_enter [OF c, unfolded put_gen_def])
qed

lemma cache_run:
  assumes "(cache_step us ttl lim)\<^sup>*\<^sup>* s s'" "coherent us ttl lim s" "0 \<le> lim" "0 < ttl"
  shows "coherent us ttl lim s' \<and> later s s'"
  using assms(1)
proof (induction rule: rtranclp_induct)
  case base
  show ?case using assms(2) by (simp add: later_same)
next
  case (step y z)
  with cache_step_coherent [OF step(2) _ assms(3,4)] show ?case using later_trans by blast
qed

lemma reachable_coherent:
  assumes "(cache_step us ttl lim)\<^sup>*\<^sup>* (cold_start t d) s" "0 \<le> lim" "0 < ttl"
  shows "coherent us ttl lim s"
  using cache_run [OF assms(1) coherent_cold_start assms(2,3)] by blast

end

end
