(* ===== verification/Cache_Coherence.thy ===== *)
theory Cache_Coherence
  imports Cache_System
begin

text \<open>
  How stale a cached decision can be, with requests of all replicas interleaved step by step and Redis failing at
  any of them: the bounds by the lifetime of an entry and by the age of a local copy of the counter, and what
  a replica sees of its own changes.
\<close>

section \<open>The operations as runs\<close>

text \<open>A check through the cache that nothing interrupts is a run of the system.\<close>

definition asked :: "nat \<Rightarrow> uuid \<Rightarrow> cache_system \<Rightarrow> phase \<Rightarrow> job" where
  "asked i ws s ph = \<lparr>jb_replica = i, jb_ws = ws, jb_start = sy_now s, jb_seen = length (sy_past s ws), jb_phase = ph\<rparr>"

definition with_copies :: "nat \<Rightarrow> gen_cache \<Rightarrow> redis \<Rightarrow> cache_system \<Rightarrow> cache_system" where
  "with_copies i c r s = s\<lparr>sy_gen := (sy_gen s)(i := c), sy_redis := r\<rparr>"

lemma asked_state [simp]:
  "jb_phase (asked i ws s ph) = ph" "jb_ws (asked i ws s ph) = ws" "jb_replica (asked i ws s ph) = i" "jb_start (asked i ws s ph) = sy_now s"
  "enter ph' j (asked i ws s ph) (put_job j (asked i ws s ph) S) = put_job j (asked i ws s ph') S"
  by (simp_all add: asked_def enter_def put_job_def)

lemma with_copies_simps [simp]:
  "sy_now (with_copies i c r s) = sy_now s" "sy_db (with_copies i c r s) = sy_db s" "sy_redis (with_copies i c r s) = r"
  "sy_gen (with_copies i c r s) i = c" "with_copies i (sy_gen s i) (sy_redis s) s = s"
  by (simp_all add: with_copies_def)

lemma put_job_simps [simp]:
  "sy_now (put_job j x s) = sy_now s" "sy_db (put_job j x s) = sy_db s" "sy_redis (put_job j x s) = sy_redis s" "sy_gen (put_job j x s) = sy_gen s"
  "sy_past (put_job j x s) = sy_past s" "sy_busts (put_job j x s) = sy_busts s" "sy_jobs (put_job j x s) = (sy_jobs s)(j \<mapsto> x)"
  by (simp_all add: put_job_def)

lemma asked_runs: "0 \<le> lim \<Longrightarrow> sy_now S = sy_now s \<Longrightarrow> runs lim j (asked i ws s ph) (put_job j (asked i ws s ph) S)"
  by (simp add: runs_def)

lemma opened: "open_check j i ws q s = put_job j (asked i ws s (Opening q)) s"
  by (simp add: open_check_def asked_def)

lemma cached_check_eq:
  "cached_check us ttl flt now d ws q c r =
     cachedAccessCheck us ttl flt now (if aq_flat q then cacheKindFlat else cacheKindInheritance) ws
       (aq_rtype q) (aq_rid q) (aq_gtype q) (aq_gid q) (aq_min q) (delegate_check flt now d ws q) c r"
  by (simp add: cached_check_def cached_CheckAccess_def cached_CheckAccessWithInheritance_def delegate_check_def)

lemma load_run:
  assumes "loadGeneration us flt (sy_now s) ws (sy_gen s i) (sy_redis s) = (res, c')" "0 \<le> lim"
  shows "(cache_step us ttl lim)\<^sup>*\<^sup>* (put_job j (asked i ws s (Opening q)) s)
    (put_job j (asked i ws s (case res of Inr g \<Rightarrow> Keyed q g | Inl _ \<Rightarrow> Bypassing q)) (with_copies i c' (sy_redis s) s))"
proof -
  let ?at = "\<lambda>ph S. put_job j (asked i ws s ph) S"
  have run: "runs lim j (asked i ws s ph) (?at ph s)" for ph by (rule asked_runs [OF assms(2) refl])
  have one: "cache_step us ttl lim (?at (Opening q) s)
      (?at (case gen_local (sy_now s) ws (sy_gen s i) of Some g \<Rightarrow> Keyed q g | None \<Rightarrow> Fetching q) s)"
    using cache_step.local [OF run, of "Opening q" q us ttl] by simp
  show ?thesis
  proof (cases "gen_local (sy_now s) ws (sy_gen s i)")
    case (Some g)
    then have "res = Inr g" "c' = sy_gen s i" using assms(1) by (simp_all add: loadGeneration_def)
    then show ?thesis using one Some by (simp add: r_into_rtranclp)
  next
    case None
    have two: "cache_step us ttl lim (?at (Fetching q) s)
        (?at (case gen_fetch us flt (sy_now s) ws (sy_redis s) of Inr g \<Rightarrow> Fetched q g | Inl _ \<Rightarrow> Bypassing q) s)"
      using cache_step.fetch [OF run, of "Fetching q" q us ttl flt] by simp
    show ?thesis
    proof (cases "gen_fetch us flt (sy_now s) ws (sy_redis s)")
      case (Inl e)
      then have "res = Inl e" "c' = sy_gen s i" using assms(1) None by (simp_all add: loadGeneration_def)
      then show ?thesis using one two None Inl by (simp add: converse_rtranclp_into_rtranclp r_into_rtranclp)
    next
      case (Inr g)
      obtain g' c where st: "gen_store (sy_now s) ws g (sy_gen s i) = (g', c)" by fastforce
      then have res: "res = Inr g'" "c' = c" using assms(1) None Inr by (simp_all add: loadGeneration_def)
      have "put_gen i c (?at (Fetched q g) s) = ?at (Fetched q g) (with_copies i c (sy_redis s) s)"
        by (simp add: put_gen_def put_job_def with_copies_def)
      then have "cache_step us ttl lim (?at (Fetched q g) s) (?at (Keyed q g') (with_copies i c (sy_redis s) s))"
        using cache_step.store [OF run, of "Fetched q g" q g g' c us ttl] st by simp
      with one two None Inr res show ?thesis
        by (simp add: converse_rtranclp_into_rtranclp [OF _ converse_rtranclp_into_rtranclp] r_into_rtranclp)
    qed
  qed
qed

lemma cached_check_run:
  assumes "cached_check us ttl flt (sy_now s) (sy_db s) ws q (sy_gen s i) (sy_redis s) = (Some (Inr b), c', r')"
    "aq_valid q" "sy_jobs s j = None" "0 \<le> lim"
  shows "(cache_step us ttl lim)\<^sup>*\<^sup>* s (put_job j (asked i ws s (Answered q b)) (with_copies i c' r' s))"
proof -
  obtain res c where load: "loadGeneration us flt (sy_now s) ws (sy_gen s i) (sy_redis s) = (res, c)" by fastforce
  let ?s = "with_copies i c (sy_redis s) s"
  let ?at = "\<lambda>ph. put_job j (asked i ws s ph) ?s"
  have start: "(cache_step us ttl lim)\<^sup>*\<^sup>* s (?at (case res of Inr g \<Rightarrow> Keyed q g | Inl _ \<Rightarrow> Bypassing q))"
    using cache_step.opens [OF assms(2,3), of us ttl lim i ws] load_run [OF load assms(4), of ttl j q] unfolding opened
    by (rule converse_rtranclp_into_rtranclp)
  have run: "runs lim j (asked i ws s ph) (?at ph)" for ph by (rule asked_runs [OF assms(4)]) simp
  have bypassed: "cache_step us ttl lim (?at (Bypassing q)) (?at (Answered q b))"
    if "delegate_check flt (sy_now s) (sy_db s) ws q = Some (Inr b)"
    using cache_step.bypass [OF run, of "Bypassing q" q us ttl flt] that by simp
  show ?thesis
  proof (cases res)
    case (Inl e)
    then have "delegate_check flt (sy_now s) (sy_db s) ws q = Some (Inr b)" "c' = c" "r' = sy_redis s"
      using assms(1) load by (simp_all add: cached_check_eq cachedAccessCheck_def)
    then show ?thesis using start bypassed Inl by simp
  next
    case (Inr g)
    let ?reply = "redis_Get flt ''get entry'' (sy_now s) (entry_key us ws g q) (sy_redis s)"
    have key: "entryKey us ws g (aq_rtype q) (aq_rid q) (aq_gtype q) (aq_gid q)
        (if aq_flat q then cacheKindFlat else cacheKindInheritance) (aq_min q) = entry_key us ws g q"
      by (simp add: entry_key_def)
    have got: "cache_step us ttl lim (?at (Keyed q g)) (?at (entry_reply ?reply q g))"
      using cache_step.get [OF run, of "Keyed q g" q g us ttl flt] by simp
    have filled: "(cache_step us ttl lim)\<^sup>*\<^sup>* (?at (Deciding q g)) (put_job j (asked i ws s (Answered q b)) (with_copies i c' r' s))"
      if d: "delegate_check flt (sy_now s) (sy_db s) ws q = Some (Inr b)" "c' = c"
        "r' = snd (redis_Set flt ''set entry'' (sy_now s) (entry_key us ws g q) (if b then cacheValueAllow else cacheValueDeny) ttl (sy_redis s))"
    proof -
      have a: "cache_step us ttl lim (?at (Deciding q g)) (?at (Filling q g b))"
        using cache_step.decide [OF run, of "Deciding q g" q g us ttl flt] d(1) by simp
      have "?at (Filling q g b)\<lparr>sy_redis := r'\<rparr> = put_job j (asked i ws s (Filling q g b)) (with_copies i c r' s)"
        by (simp add: put_job_def with_copies_def)
      then have "cache_step us ttl lim (?at (Filling q g b)) (put_job j (asked i ws s (Answered q b)) (with_copies i c' r' s))"
        using cache_step.fill [OF run, of "Filling q g b" q g b us ttl flt] d(2,3) by simp
      with a show ?thesis by (meson r_into_rtranclp rtranclp.rtrancl_into_rtrancl)
    qed
    have out: "(Some (Inr b), c', r') = (case ?reply of
        RedisVal val \<Rightarrow> if val = cacheValueAllow then (Some (Inr True), c, sy_redis s)
          else if val = cacheValueDeny then (Some (Inr False), c, sy_redis s)
          else (case delegate_check flt (sy_now s) (sy_db s) ws q of None \<Rightarrow> (None, c, sy_redis s)
            | Some (Inl derr) \<Rightarrow> (Some (Inl derr), c, sy_redis s)
            | Some (Inr allowed) \<Rightarrow> (Some (Inr allowed), c,
                snd (redis_Set flt ''set entry'' (sy_now s) (entry_key us ws g q) (if allowed then cacheValueAllow else cacheValueDeny) ttl (sy_redis s))))
      | RedisNil \<Rightarrow> (case delegate_check flt (sy_now s) (sy_db s) ws q of None \<Rightarrow> (None, c, sy_redis s)
            | Some (Inl derr) \<Rightarrow> (Some (Inl derr), c, sy_redis s)
            | Some (Inr allowed) \<Rightarrow> (Some (Inr allowed), c,
                snd (redis_Set flt ''set entry'' (sy_now s) (entry_key us ws g q) (if allowed then cacheValueAllow else cacheValueDeny) ttl (sy_redis s))))
      | RedisErr \<Rightarrow> (delegate_check flt (sy_now s) (sy_db s) ws q, c, sy_redis s))"
      using assms(1) load Inr by (simp add: cached_check_eq cachedAccessCheck_def key Let_def
        cong: redis_reply.case_cong option.case_cong sum.case_cong if_cong)
    have "(cache_step us ttl lim)\<^sup>*\<^sup>* (?at (entry_reply ?reply q g)) (put_job j (asked i ws s (Answered q b)) (with_copies i c' r' s))"
    proof (cases ?reply)
      case RedisErr
      then show ?thesis using out bypassed by (simp add: entry_reply_def r_into_rtranclp)
    next
      case RedisNil
      then show ?thesis using out filled by (auto simp: entry_reply_def split: option.splits sum.splits)
    next
      case (RedisVal val)
      then show ?thesis using out filled by (auto simp: entry_reply_def split: option.splits sum.splits if_splits)
    qed
    with got have "(cache_step us ttl lim)\<^sup>*\<^sup>* (?at (Keyed q g)) (put_job j (asked i ws s (Answered q b)) (with_copies i c' r' s))"
      by (rule converse_rtranclp_into_rtranclp)
    moreover have "(cache_step us ttl lim)\<^sup>*\<^sup>* s (?at (Keyed q g))" using start Inr by simp
    ultimately show ?thesis by (rule rtranclp_trans [rotated])
  qed
qed

section \<open>A replica's own changes\<close>

text \<open>From when a replica has stored the generation \<open>g\<close> of a change, \<open>n0\<close> changes in: its copy stays at least \<open>g\<close>, and
  the checks it has started since (not in \<open>old\<close>) go by a generation from \<open>g\<close> on.\<close>

fun own_phase :: "time \<Rightarrow> cache_system \<Rightarrow> uuid \<Rightarrow> int \<Rightarrow> nat \<Rightarrow> time \<Rightarrow> phase \<Rightarrow> bool" where
  "own_phase w s ws g n0 t0 (Keyed q h) = (g \<le> h)"
| "own_phase w s ws g n0 t0 (Deciding q h) = (g \<le> h)"
| "own_phase w s ws g n0 t0 (Filling q h b) = (g \<le> h)"
| "own_phase w s ws g n0 t0 (Answered q b) = (\<exists>n t. n0 \<le> n \<and> t0 < t + w \<and> decided s ws q b n t)"
| "own_phase w s ws g n0 t0 _ = True"

definition own_job :: "time \<Rightarrow> cache_system \<Rightarrow> uuid \<Rightarrow> int \<Rightarrow> nat \<Rightarrow> bool \<Rightarrow> job \<Rightarrow> bool" where
  "own_job w s ws g n0 fresh x \<longleftrightarrow> (\<forall>h. jb_phase x = Storing h \<longrightarrow> g \<le> h)
     \<and> (fresh \<longrightarrow> own_phase w s ws g n0 (jb_start x) (jb_phase x))"

definition own_inv :: "time \<Rightarrow> cache_system \<Rightarrow> nat \<Rightarrow> uuid \<Rightarrow> int \<Rightarrow> nat \<Rightarrow> nat set \<Rightarrow> bool" where
  "own_inv w s i ws g n0 old \<longleftrightarrow> (1 \<le> g \<and> g \<le> int (length (sy_busts s ws)) \<and> n0 \<le> fst (sy_busts s ws ! nat (g - 1)))
     \<and> (\<exists>h t. sy_gen s i ws = Some (h, t) \<and> g \<le> h)
     \<and> (\<forall>j x. sy_jobs s j = Some x \<and> jb_replica x = i \<and> jb_ws x = ws \<longrightarrow> own_job w s ws g n0 (j \<notin> old) x)"

lemma own_phase_later: "later s s' \<Longrightarrow> own_phase w s ws g n0 t0 ph \<Longrightarrow> own_phase w s' ws g n0 t0 ph"
  by (cases ph) (auto dest: decided_later)

lemma own_job_later: "later s s' \<Longrightarrow> own_job w s ws g n0 fresh x \<Longrightarrow> own_job w s' ws g n0 fresh x"
  using own_phase_later by (auto simp: own_job_def)

lemma decided_enter: "decided (enter ph j x s) ws q b n t = decided s ws q b n t"
  by (simp add: decided_def current_def version_def enter_def)

lemma own_later:
  assumes l: "later s s'" and own: "own_inv w s i ws g n0 old"
    and gen: "\<And>h t. sy_gen s i ws = Some (h, t) \<Longrightarrow> g \<le> h \<Longrightarrow> \<exists>h t. sy_gen s' i ws = Some (h, t) \<and> g \<le> h"
    and jobs: "\<And>j x. sy_jobs s' j = Some x \<Longrightarrow> jb_replica x = i \<Longrightarrow> jb_ws x = ws
      \<Longrightarrow> sy_jobs s j = Some x \<or> own_job w s' ws g n0 (j \<notin> old) x"
  shows "own_inv w s' i ws g n0 old"
proof -
  obtain ys where ys: "sy_busts s' ws = sy_busts s ws @ ys" using later_busts [OF l] by blast
  have b: "1 \<le> g" "g \<le> int (length (sy_busts s ws))" "n0 \<le> fst (sy_busts s ws ! nat (g - 1))" using own by (auto simp: own_inv_def)
  have "own_job w s' ws g n0 (j \<notin> old) x" if "sy_jobs s' j = Some x" "jb_replica x = i" "jb_ws x = ws" for j x
    using jobs [OF that] that own own_job_later [OF l] by (auto simp: own_inv_def)
  moreover have "\<exists>h t. sy_gen s' i ws = Some (h, t) \<and> g \<le> h" using gen own by (auto simp: own_inv_def)
  moreover have "nat (g - 1) < length (sy_busts s ws)" using b(1,2) by simp
  ultimately show ?thesis using b by (simp add: own_inv_def ys nth_append)
qed

text \<open>The entries of a generation from \<open>g\<close> on have the change.\<close>

lemma own_covers:
  assumes "own_inv w s i ws g n0 old" "covers s ws h n" "g \<le> h"
  shows "n0 \<le> n"
proof -
  have "1 \<le> g" "n0 \<le> fst (sy_busts s ws ! nat (g - 1))" using assms(1) by (auto simp: own_inv_def)
  moreover have "nat (g - 1) < nat h" using \<open>1 \<le> g\<close> assms(3) by simp
  then have "fst (sy_busts s ws ! nat (g - 1)) \<le> n" using assms(2) unfolding covers_def by blast
  ultimately show ?thesis by simp
qed

lemma own_present: "own_inv w s i ws g n0 old \<Longrightarrow> history_ok s \<Longrightarrow> n0 \<le> length (sy_past s ws)"
  using own_covers [OF _ covers_now, of w s i ws g n0 old g] by (auto simp: own_inv_def)

lemma own_enter:
  assumes l: "later s s'" and own: "own_inv w s i ws g n0 old" and x: "runs lim j x s" and jobs: "sy_jobs s' = sy_jobs s"
    and gen: "sy_gen s' i ws = sy_gen s i ws \<or> (\<exists>h t. sy_gen s' i ws = Some (h, t) \<and> g \<le> h)"
    and ph: "jb_replica x = i \<Longrightarrow> jb_ws x = ws \<Longrightarrow> own_job w s ws g n0 (j \<notin> old) x \<Longrightarrow>
      (\<forall>h. ph = Storing h \<longrightarrow> g \<le> h) \<and> (j \<notin> old \<longrightarrow> own_phase w (enter ph j x s') ws g n0 (jb_start x) ph)"
  shows "own_inv w (enter ph j x s') i ws g n0 old"
proof (rule own_later [OF _ own])
  show "later s (enter ph j x s')" using l by simp
  show "\<exists>h t. sy_gen (enter ph j x s') i ws = Some (h, t) \<and> g \<le> h" if "sy_gen s i ws = Some (h, t)" "g \<le> h" for h t
    using gen that by (auto simp: enter_def)
  fix k y
  assume y: "sy_jobs (enter ph j x s') k = Some y" "jb_replica y = i" "jb_ws y = ws"
  show "sy_jobs s k = Some y \<or> own_job w (enter ph j x s') ws g n0 (k \<notin> old) y"
  proof (cases "k = j")
    case True
    then have eq: "y = x\<lparr>jb_phase := ph\<rparr>" using y(1) by (simp add: enter_def)
    have x': "jb_replica x = i" "jb_ws x = ws" using y(2,3) by (simp_all add: eq)
    have "own_job w s ws g n0 (j \<notin> old) x" using own x x' by (simp add: own_inv_def runs_def)
    from ph [OF x' this] show ?thesis unfolding own_job_def eq True by simp
  next
    case False
    then show ?thesis using y(1) jobs by (simp add: enter_def)
  qed
qed

lemma own_job_new [simp]:
  "own_job w s ws g n0 fresh \<lparr>jb_replica = i, jb_ws = ws', jb_start = t, jb_seen = n, jb_phase = Opening q\<rparr>"
  "own_job w s ws g n0 fresh \<lparr>jb_replica = i, jb_ws = ws', jb_start = t, jb_seen = n, jb_phase = Busting\<rparr>"
  by (simp_all add: own_job_def)

lemma own_new_job:
  assumes l: "later s s'" and own: "own_inv w s i ws g n0 old" and "sy_gen s' = sy_gen s" "sy_jobs s' = (sy_jobs s)(j \<mapsto> x)"
    and "own_job w s' ws g n0 (j \<notin> old) x"
  shows "own_inv w s' i ws g n0 old"
  by (rule own_later [OF l own]) (use assms(3-5) in \<open>auto split: if_splits\<close>)

context uuid_text
begin

lemma own_step:
  assumes "cache_step us ttl lim s s'" "coherent us ttl lim s" "0 \<le> lim" "0 < ttl" "own_inv (ttl + lim) s i ws g n0 old"
  shows "own_inv (ttl + lim) s' i ws g n0 old"
proof -
  have later: "later s s'" using cache_step_coherent [OF assms(1-4)] by blast
  note hist = coherentD(1) [OF assms(2)]
  obtain v t where copy: "sy_gen s i ws = Some (v, t)" "g \<le> v" using assms(5) by (auto simp: own_inv_def)
  show ?thesis
    using assms(1)
  proof cases
    case (tick t)
    show ?thesis by (rule own_later [OF later assms(5)]) (simp_all add: tick)
  next
    case (opens q j i' ws')
    show ?thesis by (rule own_new_job [OF later assms(5)], simp_all add: opens open_check_def put_job_def, simp_all?)
  next
    case (local j x q)
    show ?thesis unfolding local(1)
      by (rule own_enter [OF _ assms(5) local(2)])
        (use copy in \<open>auto simp: later_same gen_local_def split: option.splits if_splits\<close>)
  next
    case (fetch j x q flt)
    show ?thesis unfolding fetch(1)
      by (rule own_enter [OF _ assms(5) fetch(2)]) (auto simp: later_same split: sum.splits)
  next
    case (store j x q h g' c')
    have "v \<le> g' \<and> (\<exists>t. c' ws = Some (g', t) \<or> c' ws = Some (v, t) \<and> g' = v)" if "jb_replica x = i" "jb_ws x = ws"
      using store(4) copy(1) that by (auto simp: gen_store_def split: if_splits)
    then show ?thesis unfolding store(1)
      by (intro own_enter [OF _ assms(5) store(2)])
        (use copy store(4) in \<open>auto simp: later_same put_gen_def gen_store_def split: if_splits option.splits\<close>)
  next
    case (get j x q h flt)
    note b = runs_bounds [OF assms(2) get(2)]
    show ?thesis unfolding get(1)
    proof (rule own_enter [OF _ assms(5) get(2)])
      let ?key = "entry_key us (jb_ws x) h q"
      assume x: "jb_replica x = i" "jb_ws x = ws" "own_job (ttl + lim) s ws g n0 (j \<notin> old) x"
      let ?ph = "entry_reply (redis_Get flt ''get entry'' (sy_now s) ?key (sy_redis s)) q h"
      have l: "later s (enter ?ph j x s)" by (simp add: later_same)
      have "own_phase (ttl + lim) s ws g n0 (jb_start x) ?ph" if fresh: "j \<notin> old"
      proof -
        have h: "g \<le> h" using x(3) fresh get(3) by (simp add: own_job_def)
        have q: "aq_valid q" using b(4) get(3) by simp
        have hit: "\<exists>n t. n0 \<le> n \<and> jb_start x < t + (ttl + lim) \<and> decided s ws q r n t"
          if got: "redis_Get flt ''get entry'' (sy_now s) ?key (sy_redis s) = RedisVal (entry_val r)" for r
        proof -
          obtain n t where "covers s ws h n" "decided s ws q r n t" "jb_start x < t + ttl + lim"
            using entry_hit [OF assms(2) q b(1) got] x(2) by blast
          with own_covers [OF assms(5) _ h] show ?thesis by (metis add.assoc)
        qed
        show ?thesis using h hit [of True] hit [of False]
          by (auto simp: entry_reply_def entry_val_def split: redis_reply.split)
      qed
      then show "(\<forall>ha. ?ph = Storing ha \<longrightarrow> g \<le> ha) \<and>
          (j \<notin> old \<longrightarrow> own_phase (ttl + lim) (enter ?ph j x s) ws g n0 (jb_start x) ?ph)"
        using own_phase_later [OF l] by (auto simp: entry_reply_def split: redis_reply.splits if_splits)
    qed (simp_all add: later_same)
  next
    case (decide j x q h flt)
    show ?thesis unfolding decide(1)
      by (rule own_enter [OF _ assms(5) decide(2)])
        (use decide(3) in \<open>auto simp: later_same own_job_def split: option.splits sum.splits\<close>)
  next
    case (bypass j x q flt)
    note b = runs_bounds [OF assms(2) bypass(2)]
    have "\<exists>n t. n0 \<le> n \<and> jb_start x < t + (ttl + lim) \<and> decided s ws q r n t"
      if "delegate_check flt (sy_now s) (sy_db s) ws q = Some (Inr r)" for r
      using decided_now [OF hist that] own_present [OF assms(5) hist] b(1) assms(3,4) by (intro exI conjI) auto
    then show ?thesis unfolding bypass(1)
      by (intro own_enter [OF _ assms(5) bypass(2)])
        (auto simp: later_same decided_enter split: option.splits sum.splits)
  next
    case (fill j x q h r flt)
    note b = runs_bounds [OF assms(2) fill(2)]
    from b(4) fill(3) obtain n t where d: "jb_start x \<le> t" "decided s (jb_ws x) q r n t" "covers s (jb_ws x) h n" by auto
    let ?s = "s\<lparr>sy_redis := snd (redis_Set flt ''set entry'' (sy_now s) (entry_key us (jb_ws x) h q)
      (if r then cacheValueAllow else cacheValueDeny) ttl (sy_redis s))\<rparr>"
    have l: "later s (enter (Answered q r) j x ?s)" by (simp add: later_same)
    show ?thesis unfolding fill(1)
    proof (rule own_enter [OF _ assms(5) fill(2)])
      assume x: "jb_replica x = i" "jb_ws x = ws" "own_job (ttl + lim) s ws g n0 (j \<notin> old) x"
      have "own_phase (ttl + lim) s ws g n0 (jb_start x) (Answered q r)" if "j \<notin> old"
      proof -
        have "g \<le> h" using x(3) that fill(3) by (simp add: own_job_def)
        then have "n0 \<le> n" using own_covers [OF assms(5) _ \<open>g \<le> h\<close>] d(3) x(2) by simp
        moreover have "jb_start x < t + (ttl + lim)" using d(1) assms(3,4) by simp
        ultimately show ?thesis using d(2) x(2) by auto
      qed
      then show "(\<forall>ha. Answered q r = Storing ha \<longrightarrow> g \<le> ha) \<and>
          (j \<notin> old \<longrightarrow> own_phase (ttl + lim) (enter (Answered q r) j x ?s) ws g n0 (jb_start x) (Answered q r))"
        using own_phase_later [OF l] by blast
    qed (simp_all add: later_same)
  next
    case (grant j flt new p q d' i')
    show ?thesis by (rule own_new_job [OF later assms(5)], simp_all add: grant change_def put_job_def, simp_all?)
  next
    case (revoke j flt ws' pid d' i')
    show ?thesis by (rule own_new_job [OF later assms(5)], simp_all add: revoke change_def put_job_def, simp_all?)
  next
    case (tree j ws' d' i')
    show ?thesis by (rule own_new_job [OF later assms(5)], simp_all add: tree change_def put_job_def, simp_all?)
  next
    case (incr j x flt h r')
    note c = coherent_counted [OF assms(2,3) incr(4)]
    show ?thesis unfolding incr(1)
      by (rule own_enter [OF c(2) assms(5) incr(2)])
        (use c(3) assms(5) in \<open>auto simp: counted_def own_inv_def\<close>)
  next
    case (reply_lost j x flt h r')
    note c = coherent_counted [OF assms(2,3) reply_lost(4)]
    show ?thesis unfolding reply_lost(1)
      by (rule own_enter [OF c(2) assms(5) reply_lost(2)]) (auto simp: counted_def)
  next
    case (incr_failed j x flt r')
    show ?thesis unfolding incr_failed(1)
      by (rule own_enter [OF _ assms(5) incr_failed(2)]) (auto simp: later_same)
  next
    case (saved j x h)
    have "sy_jobs s j = Some x" using saved(2) by (simp add: runs_def)
    then have "g \<le> h" if "jb_replica x = i" "jb_ws x = ws"
      using that assms(5) saved(3) unfolding own_inv_def own_job_def by blast
    then show ?thesis unfolding saved(1)
      by (intro own_enter [OF _ assms(5) saved(2)]) (auto simp: later_same put_gen_def bust_store_def)
  qed
qed

lemma own_run:
  assumes "(cache_step us ttl lim)\<^sup>*\<^sup>* s s'" "coherent us ttl lim s" "0 \<le> lim" "0 < ttl" "own_inv (ttl + lim) s i ws g n0 old"
  shows "own_inv (ttl + lim) s' i ws g n0 old"
  using assms(1)
proof (induction rule: rtranclp_induct)
  case base
  show ?case by (rule assms(5))
next
  case (step y z)
  from own_step [OF step(2) _ assms(3,4) step(3)] cache_run [OF step(1) assms(2-4)] show ?case by blast
qed

end

text \<open>A change of the workspace, made by the replica when \<open>n0\<close> or more changes were, was counted and the count stored
  at the replica before request \<open>l\<close> came in, and no smaller count was about to be stored there.\<close>

definition bust_saved ::
  "(uuid \<Rightarrow> string) \<Rightarrow> time \<Rightarrow> time \<Rightarrow> nat \<Rightarrow> uuid \<Rightarrow> nat \<Rightarrow> nat \<Rightarrow> cache_system \<Rightarrow> cache_system \<Rightarrow> bool" where
  "bust_saved us ttl lim i ws n0 l s s' \<longleftrightarrow> (\<exists>s2 j x g. (cache_step us ttl lim)\<^sup>*\<^sup>* s s2 \<and> sy_jobs s2 l = None
     \<and> runs lim j x s2 \<and> jb_replica x = i \<and> jb_ws x = ws \<and> jb_phase x = Storing g \<and> n0 \<le> jb_seen x
     \<and> (\<forall>k y h. sy_jobs s2 k = Some y \<and> jb_replica y = i \<and> jb_ws y = ws \<and> jb_phase y = Storing h \<longrightarrow> g \<le> h)
     \<and> (cache_step us ttl lim)\<^sup>*\<^sup>* (enter Over j x (put_gen i (bust_store (sy_now s2) ws g (sy_gen s2 i)) s2)) s')"

context uuid_text
begin

lemma saved_seen:
  assumes "bust_saved us ttl lim i ws n0 l s s'" "coherent us ttl lim s" "0 \<le> lim" "0 < ttl"
    "sy_jobs s' l = Some y" "jb_replica y = i" "jb_ws y = ws" "jb_phase y = Answered q b"
  shows "\<exists>n t. n0 \<le> n \<and> jb_start y < t + (ttl + lim) \<and> decided s' ws q b n t"
proof -
  obtain s2 j x g where run: "(cache_step us ttl lim)\<^sup>*\<^sup>* s s2" and l: "sy_jobs s2 l = None"
    and x: "runs lim j x s2" "jb_replica x = i" "jb_ws x = ws" "jb_phase x = Storing g" "n0 \<le> jb_seen x"
    and others: "\<forall>k y h. sy_jobs s2 k = Some y \<and> jb_replica y = i \<and> jb_ws y = ws \<and> jb_phase y = Storing h \<longrightarrow> g \<le> h"
    and rest: "(cache_step us ttl lim)\<^sup>*\<^sup>* (enter Over j x (put_gen i (bust_store (sy_now s2) ws g (sy_gen s2 i)) s2)) s'"
    using assms(1) unfolding bust_saved_def by blast
  let ?s3 = "enter Over j x (put_gen i (bust_store (sy_now s2) ws g (sy_gen s2 i)) s2)"
  have coh2: "coherent us ttl lim s2" using cache_run [OF run assms(2-4)] by blast
  have "cache_step us ttl lim s2 ?s3" using cache_step.saved [OF x(1,4)] by (simp add: x(2,3))
  then have coh3: "coherent us ttl lim ?s3" using cache_step_coherent coh2 assms(3,4) by blast
  have g: "known s2 ws g (jb_start x)" "1 \<le> g" "jb_seen x \<le> fst (sy_busts s2 ws ! nat (g - 1))"
    using runs_bounds(4) [OF coh2 x(1)] x(3,4) by auto
  have "own_inv (ttl + lim) ?s3 i ws g n0 (dom (sy_jobs s2))"
    using g x others by (auto simp: own_inv_def own_job_def known_def enter_def put_gen_def bust_store_def runs_def)
  from own_run [OF rest coh3 assms(3,4) this] have own: "own_inv (ttl + lim) s' i ws g n0 (dom (sy_jobs s2))" .
  have "l \<notin> dom (sy_jobs s2)" using l by blast
  then have "own_job (ttl + lim) s' ws g n0 True y" using own assms(5-7) unfolding own_inv_def by metis
  with assms(8) show ?thesis by (auto simp: own_job_def)
qed

text \<open>A change that was made more than a lifetime before a check is in what the check answers by.\<close>

lemma old_change_seen:
  assumes "coherent us ttl lim s" "later (change j i ws d' s) s'"
    "current s' ws n t" "sy_now s < t"
  shows "Suc (length (sy_past s ws)) \<le> n"
proof (rule ccontr)
  let ?c = "length (sy_past s ws)"
  assume "\<not> Suc ?c \<le> n"
  then have n: "n \<le> ?c" by simp
  obtain xs where "sy_past s' ws = sy_past (change j i ws d' s) ws @ xs" using later_past [OF assms(2)] by blast
  then have past: "sy_past s' ws = sy_past s ws @ (sy_db s, sy_now s) # xs" by (simp add: change_def)
  have "snd (sy_past s' ws ! n) \<le> sy_now s"
  proof (cases "n < ?c")
    case True
    then have "sy_past s ws ! n \<in> set (sy_past s ws)" by simp
    then have "snd (sy_past s ws ! n) \<le> sy_now s" using coherentD(1) [OF assms(1)] unfolding history_ok_def by blast
    then show ?thesis using True by (simp add: past nth_append)
  next
    case False
    then show ?thesis using n by (simp add: past nth_append)
  qed
  moreover have "t \<le> snd (sy_past s' ws ! n)" using assms(3) n by (simp add: current_def past)
  ultimately show False using assms(4) by simp
qed

end

section \<open>Properties\<close>

text \<open>C10 (bounds).  Requests of all replicas interleave step by step; any command of Redis may fail, replies of increments may be
  lost, and each request takes at most \<open>lim\<close>.  The answer of a check, through the cache or not, is the repository's on a
  database of the workspace that was current at some time \<open>t\<close> later than the start of the check less the lifetime of an
  entry less \<open>lim\<close>: this holds for changes whose increment failed, too.  And that database has every change
  whose increment was counted 500 ms and \<open>lim\<close> before the check started.\<close>

theorem cached_decision_bounded_staleness:
  assumes "uuid_text us" "0 < ttl" "0 \<le> lim" "(cache_step us ttl lim)\<^sup>*\<^sup>* (cold_start t0 d0) s"
    and "sy_jobs s j = Some x" "jb_phase x = Answered q b"
  shows "\<exists>n t. jb_start x - ttl - lim < t \<and> t \<le> sy_now s \<and> current s (jb_ws x) n t
    \<and> delegate_check no_faults t (version s (jb_ws x) n) (jb_ws x) q = Some (Inr b)
    \<and> (\<forall>(m, tb) \<in> set (sy_busts s (jb_ws x)). tb + generationStaleAfter + lim \<le> jb_start x \<longrightarrow> m \<le> n)"
proof -
  have "coherent us ttl lim s" by (rule uuid_text.reachable_coherent [OF assms(1,4,3,2)])
  then have "answered ttl lim s (jb_ws x) (jb_start x) q b" using coherentD(5) [OF _ assms(5)] assms(6) by (fastforce simp: job_ok_def)
  then obtain n t where o: "jb_start x < t + ttl + lim" "decided s (jb_ws x) q b n t"
    "\<forall>(m, tb) \<in> set (sy_busts s (jb_ws x)). tb + generationStaleAfter + lim \<le> jb_start x \<longrightarrow> m \<le> n"
    unfolding answered_def by blast
  show ?thesis
    by (intro exI [of _ n] exI [of _ t] conjI) (use o in \<open>simp_all add: decided_def\<close>)
qed

text \<open>A world for the witnesses: replica 0 answers a check for the viewer of \<open>/a/b/c/\<close> at 98, at 100 the grant that
  denies it the role of editor expires, and at 103 the cached answer is still served.\<close>

definition ex_query :: access_query where
  "ex_query = \<lparr>aq_flat = False, aq_rtype = ''folder'', aq_rid = 2, aq_gtype = ''user'', aq_gid = 9, aq_min = ''editor''\<rparr>"

definition ex_first :: "(perm_error + bool) option \<times> gen_cache \<times> redis" where
  "ex_first = cached_check show_nat 30 no_faults 98 ex_perm_db 7 ex_query Map.empty Map.empty"

definition ex_second :: "(perm_error + bool) option \<times> gen_cache \<times> redis" where
  "ex_second = cached_check show_nat 30 no_faults 103 ex_perm_db 7 ex_query (fst (snd ex_first)) (snd (snd ex_first))"

lemma ex_query_valid: "aq_valid ex_query"
  by code_simp

definition ex_sys :: cache_system where
  "ex_sys = (with_copies 0 (fst (snd ex_first)) (snd (snd ex_first)) (cold_start 98 ex_perm_db))
     \<lparr>sy_now := 103, sy_jobs := [0 \<mapsto> asked 0 7 (cold_start 98 ex_perm_db) (Answered ex_query False)]\<rparr>"

lemma ex_sys_reachable: "(cache_step show_nat 30 5)\<^sup>*\<^sup>* (cold_start 98 ex_perm_db) ex_sys"
proof -
  have "fst ex_first = Some (Inr False)" by code_simp
  then have run: "cached_check show_nat 30 no_faults 98 ex_perm_db 7 ex_query Map.empty Map.empty
      = (Some (Inr False), fst (snd ex_first), snd (snd ex_first))" by (metis ex_first_def prod.collapse)
  let ?s = "put_job 0 (asked 0 7 (cold_start 98 ex_perm_db) (Answered ex_query False))
    (with_copies 0 (fst (snd ex_first)) (snd (snd ex_first)) (cold_start 98 ex_perm_db))"
  have "(cache_step show_nat 30 5)\<^sup>*\<^sup>* (cold_start 98 ex_perm_db) ?s"
    by (rule cached_check_run [where flt = no_faults, OF _ ex_query_valid]) (simp_all add: run cold_start_def)
  moreover have "cache_step show_nat 30 5 ?s (?s\<lparr>sy_now := 103\<rparr>)" by (rule cache_step.tick) (simp add: cold_start_def)
  moreover have "?s\<lparr>sy_now := 103\<rparr> = ex_sys" by (simp add: ex_sys_def put_job_def with_copies_def cold_start_def)
  ultimately show ?thesis by (simp add: rtranclp.rtrancl_into_rtrancl)
qed

lemma ex_sys_simps: "sy_now ex_sys = 103" "sy_db ex_sys = ex_perm_db" "sy_gen ex_sys 0 = fst (snd ex_first)"
    "sy_redis ex_sys = snd (snd ex_first)" "sy_jobs ex_sys 1 = None" "sy_jobs ex_sys 2 = None" "sy_past ex_sys = (\<lambda>_. [])" "sy_busts ex_sys = (\<lambda>_. [])"
  by (simp_all add: ex_sys_def with_copies_def cold_start_def)

theorem cached_decision_bounded_staleness_witness:
  "delegate_check no_faults 103 ex_perm_db 7 ex_query = Some (Inr True) \<and> fst ex_second = Some (Inr False)
   \<and> (\<exists>s n t. 103 - 30 - 5 < t \<and> t \<le> 103 \<and> current s 7 n t \<and> delegate_check no_faults t (version s 7 n) 7 ex_query = Some (Inr False))"
proof -
  have now: "delegate_check no_faults 103 ex_perm_db 7 ex_query = Some (Inr True)" by code_simp
  have second: "fst ex_second = Some (Inr False)" by code_simp
  then obtain c r where "cached_check show_nat 30 no_faults (sy_now ex_sys) (sy_db ex_sys) 7 ex_query (sy_gen ex_sys 0) (sy_redis ex_sys)
      = (Some (Inr False), c, r)" by (metis ex_second_def ex_sys_simps(1-4) prod.collapse)
  note run = cached_check_run [OF this ex_query_valid ex_sys_simps(5), of 5]
  let ?s = "put_job 1 (asked 0 7 ex_sys (Answered ex_query False)) (with_copies 0 c r ex_sys)"
  have reach: "(cache_step show_nat 30 5)\<^sup>*\<^sup>* (cold_start 98 ex_perm_db) ?s" using run ex_sys_reachable by simp
  have "sy_now ?s = 103" "sy_jobs ?s 1 = Some (asked 0 7 ex_sys (Answered ex_query False))" by (simp_all add: ex_sys_simps)
  from cached_decision_bounded_staleness [OF decimal_ids.uuid_text_axioms _ _ reach this(2), of ex_query False] this(1)
  obtain n t where "103 - 30 - 5 < t" "t \<le> 103" "current ?s 7 n t"
      "delegate_check no_faults t (version ?s 7 n) 7 ex_query = Some (Inr False)" by (auto simp: ex_sys_simps)
  with now second show ?thesis by blast
qed

text \<open>C11 (safety).  After a revocation, the repository no longer has the grant, and a check of the workspace is
  answered from a database in which the revocation is made,
  \<^item> on any replica and whatever failed, if it started a lifetime of an entry and \<open>lim\<close> after the revocation;
  \<^item> on any replica, if it started 500 ms and \<open>lim\<close> after an increment that followed the revocation was counted;
  \<^item> on the replica that made the revocation (or a later change), from when the replica has stored the count of
    the change, unless a smaller count was about to be stored there.\<close>

theorem revocation_takes_effect:
  assumes "uuid_text us" "0 < ttl" "0 \<le> lim" "(cache_step us ttl lim)\<^sup>*\<^sup>* (cold_start t0 d0) s"
    and "perm_Delete flt ws pid (sy_db s) = (None, d')" "sy_jobs s j = None" "(cache_step us ttl lim)\<^sup>*\<^sup>* (change j i ws d' s) s'"
    and "sy_jobs s' l = Some y" "jb_ws y = ws" "jb_phase y = Answered q b"
    and "sy_now s + ttl + lim \<le> jb_start y
      \<or> (\<exists>(m, tb) \<in> set (sy_busts s' ws). Suc (length (sy_past s ws)) \<le> m \<and> tb + generationStaleAfter + lim \<le> jb_start y)
      \<or> bust_saved us ttl lim (jb_replica y) ws (Suc (length (sy_past s ws))) l (change j i ws d' s) s'"
  shows "(\<exists>n t. Suc (length (sy_past s ws)) \<le> n \<and> n \<le> length (sy_past s' ws) \<and> t \<le> sy_now s'
      \<and> delegate_check no_faults t (version s' ws n) ws q = Some (Inr b))
    \<and> workspace_rows ws (version s' ws (Suc (length (sy_past s ws)))) = workspace_rows ws d'
    \<and> (\<forall>p \<in> set (permissions d'). \<not> (p_ws p = ws \<and> p_id p = pid))"
proof -
  let ?c = "length (sy_past s ws)" and ?s1 = "change j i ws d' s"
  note coh0 = uuid_text.reachable_coherent [OF assms(1,4,3,2)]
  have "cache_step us ttl lim s ?s1" by (rule cache_step.revoke [OF assms(6,5)])
  then have coh1: "coherent us ttl lim ?s1" using uuid_text.cache_step_coherent [OF assms(1) _ coh0 assms(3,2)] by blast
  note end' = uuid_text.cache_run [OF assms(1,7) coh1 assms(3,2)]
  have "answered ttl lim s' ws (jb_start y) q b" using coherentD(5) [OF conjunct1 [OF end'] assms(8)] assms(9,10) by (simp add: job_ok_def)
  then obtain n t where o: "jb_start y < t + ttl + lim" "decided s' ws q b n t"
    "\<forall>(m, tb) \<in> set (sy_busts s' ws). tb + generationStaleAfter + lim \<le> jb_start y \<longrightarrow> m \<le> n"
    unfolding answered_def by blast
  have "\<exists>n t. Suc ?c \<le> n \<and> decided s' ws q b n t"
    using assms(11)
  proof (elim disjE)
    assume "sy_now s + ttl + lim \<le> jb_start y"
    then have "Suc ?c \<le> n"
      using uuid_text.old_change_seen [OF assms(1) coh0 conjunct2 [OF end'], of n t] o(1,2) by (simp add: decided_def)
    with o(2) show ?thesis by blast
  next
    assume "\<exists>(m, tb) \<in> set (sy_busts s' ws). Suc ?c \<le> m \<and> tb + generationStaleAfter + lim \<le> jb_start y"
    then have "Suc ?c \<le> n" using o(3) by fastforce
    with o(2) show ?thesis by blast
  next
    assume "bust_saved us ttl lim (jb_replica y) ws (Suc ?c) l ?s1 s'"
    from uuid_text.saved_seen [OF assms(1) this coh1 assms(3,2,8) refl assms(9,10)] show ?thesis by blast
  qed
  moreover have "workspace_rows ws (version s' ws (Suc ?c)) = workspace_rows ws d'"
  proof -
    have "Suc ?c = length (sy_past ?s1 ws)" "version ?s1 ws (Suc ?c) = d'" by (simp_all add: change_def version_def)
    with conjunct2 [OF end'] show ?thesis unfolding later_def by force
  qed
  ultimately show ?thesis using perm_Delete_None [OF assms(5)] by (auto simp: decided_def current_def)
qed

text \<open>At 103 the replica revokes the grant of the folder above, counts and stores the change, and answers the next check.\<close>

definition ex_revoked :: db where
  "ex_revoked = snd (perm_Delete no_faults 7 51 ex_perm_db)"

definition ex_count :: "int option \<times> redis" where
  "ex_count = bust_incr show_nat no_faults 103 7 (snd (snd ex_first))"

definition ex_third :: "(perm_error + bool) option \<times> gen_cache \<times> redis" where
  "ex_third = cached_check show_nat 30 no_faults 103 ex_revoked 7 ex_query (bust_store 103 7 1 (fst (snd ex_first))) (snd ex_count)"

theorem revocation_takes_effect_witness:
  "fst ex_third = Some (Inr False)
   \<and> (\<exists>s' n t. 1 \<le> n \<and> n \<le> length (sy_past s' 7) \<and> workspace_rows 7 (version s' 7 1) = workspace_rows 7 ex_revoked
     \<and> delegate_check no_faults t (version s' 7 n) 7 ex_query = Some (Inr False))"
proof -
  let ?s1 = "change 1 0 7 ex_revoked ex_sys"
  let ?x = "\<lparr>jb_replica = 0, jb_ws = 7, jb_start = 103, jb_seen = 1, jb_phase = Busting\<rparr>"
  let ?s2 = "enter (Storing 1) 1 ?x (counted 7 (snd ex_count) ?s1)"
  let ?y = "?x\<lparr>jb_phase := Storing 1\<rparr>"
  let ?s3 = "enter Over 1 ?y (put_gen 0 (bust_store 103 7 1 (fst (snd ex_first))) ?s2)"
  have del: "perm_Delete no_faults 7 51 (sy_db ex_sys) = (None, ex_revoked)"
  proof -
    have "fst (perm_Delete no_faults 7 51 ex_perm_db) = None" by code_simp
    then show ?thesis by (simp add: ex_revoked_def ex_sys_simps prod_eq_iff)
  qed
  have "fst ex_count = Some 1" by code_simp
  then have count: "bust_incr show_nat no_faults (sy_now ?s1) (jb_ws ?x) (sy_redis ?s1) = (Some 1, snd ex_count)"
    by (simp add: change_def ex_sys_simps ex_count_def prod_eq_iff)
  have "cache_step show_nat 30 5 ?s1 ?s2"
    using cache_step.incr [of 5 1 ?x ?s1, OF _ _ count] by (simp add: runs_def change_def ex_sys_simps)
  then have one: "(cache_step show_nat 30 5)\<^sup>*\<^sup>* ?s1 ?s2" ..
  have fields: "sy_now ?s3 = 103" "sy_db ?s3 = ex_revoked" "sy_gen ?s3 0 = bust_store 103 7 1 (fst (snd ex_first))"
    "sy_redis ?s3 = snd ex_count" "sy_jobs ?s3 2 = None" "sy_jobs ?s2 2 = None"
    by (simp_all add: enter_def put_gen_def counted_def change_def ex_sys_simps)
  have third: "fst ex_third = Some (Inr False)" by code_simp
  then obtain c r where "cached_check show_nat 30 no_faults (sy_now ?s3) (sy_db ?s3) 7 ex_query (sy_gen ?s3 0) (sy_redis ?s3)
      = (Some (Inr False), c, r)" unfolding fields by (metis ex_third_def prod.collapse)
  note check = cached_check_run [OF this ex_query_valid fields(5), of 5]
  let ?s4 = "put_job 2 (asked 0 7 ?s3 (Answered ex_query False)) (with_copies 0 c r ?s3)"
  have three: "(cache_step show_nat 30 5)\<^sup>*\<^sup>* ?s3 ?s4" using check by simp
  have y: "runs 5 1 ?y ?s2" by (simp add: runs_def enter_def counted_def change_def ex_sys_simps)
  have s3: "?s3 = enter Over 1 ?y (put_gen 0 (bust_store (sy_now ?s2) 7 1 (sy_gen ?s2 0)) ?s2)"
    by (simp add: enter_def counted_def change_def ex_sys_simps)
  have others: "\<forall>k y h. sy_jobs ?s2 k = Some y \<and> jb_replica y = 0 \<and> jb_ws y = 7 \<and> jb_phase y = Storing h \<longrightarrow> 1 \<le> h"
    by (auto simp: enter_def counted_def change_def put_job_def ex_sys_def asked_def split: if_splits)
  have "cache_step show_nat 30 5 ?s2 ?s3" unfolding s3 using cache_step.saved [OF y, of 1] by simp
  then have all: "(cache_step show_nat 30 5)\<^sup>*\<^sup>* ?s1 ?s4" using one three by simp
  have "bust_saved show_nat 30 5 0 7 (Suc (length (sy_past ex_sys 7))) 2 ?s1 ?s4"
    unfolding bust_saved_def
    by (intro exI [of _ ?s2] exI [of _ 1] exI [of _ ?y] exI [of _ "1 :: int"] conjI one fields(6) y others)
      (use three s3 in \<open>simp_all add: ex_sys_simps\<close>)
  then have "(\<exists>n t. Suc (length (sy_past ex_sys 7)) \<le> n \<and> n \<le> length (sy_past ?s4 7) \<and> t \<le> sy_now ?s4
      \<and> delegate_check no_faults t (version ?s4 7 n) 7 ex_query = Some (Inr False))
    \<and> workspace_rows 7 (version ?s4 7 (Suc (length (sy_past ex_sys 7)))) = workspace_rows 7 ex_revoked"
    using revocation_takes_effect [OF decimal_ids.uuid_text_axioms _ _ ex_sys_reachable del ex_sys_simps(5) all,
        of 2 "asked 0 7 ?s3 (Answered ex_query False)" ex_query False]
    by simp
  then have "\<exists>n t. 1 \<le> n \<and> n \<le> length (sy_past ?s4 7) \<and> workspace_rows 7 (version ?s4 7 1) = workspace_rows 7 ex_revoked
      \<and> delegate_check no_faults t (version ?s4 7 n) 7 ex_query = Some (Inr False)"
    by (simp only: ex_sys_simps list.size One_nat_def) blast
  with third show ?thesis by blast
qed

text \<open>The increment and the local store of \<^verbatim>\<open>bustWorkspace\<close> are two
  steps, and the store has no guard.  If two busts of a replica interleave so that the later
  increment is stored first, the replica keeps the earlier generation and reads with it for
  up to 500 ms, although both busts have returned; stored in order, it reads the later one.\<close>

theorem interleaved_busts_roll_back:
  assumes "r0 (generationKey us ws) = map_option (\<lambda>v. (v, None)) old"
    and "bust_incr us flt1 t1 ws r0 = (Some g1, r1)" "bust_incr us flt2 t2 ws r1 = (Some g2, r2)"
    and "t3 \<le> t4" "t4 \<le> now" "now - t3 < generationStaleAfter"
  shows "g1 < g2
    \<and> fst (loadGeneration us flt now ws (bust_store t4 ws g1 (bust_store t3 ws g2 c)) r2) = Inr g1
    \<and> fst (loadGeneration us flt now ws (bust_store t4 ws g2 (bust_store t3 ws g1 c)) r2) = Inr g2"
proof -
  have "r1 (generationKey us ws) = Some (show_int g1, None) \<and> int64_range g1"
    using assms(1,2) by (cases old)
      (auto simp: bust_incr_def redis_Incr_def int64_range_def split: if_splits option.splits)
  then have "g2 = g1 + 1"
    using assms(3) ParseInt10_show_int [of g1]
    by (auto simp: bust_incr_def redis_Incr_def redis_live_def split: if_splits option.splits)
  then show ?thesis
    using assms(4-6) by (simp add: loadGeneration_def gen_local_def bust_store_def)
qed

theorem interleaved_busts_roll_back_witness:
  "bust_incr show_nat no_faults 5 7 Map.empty = (Some 1, [generationKey show_nat 7 \<mapsto> (show_int 1, None)])
   \<and> fst (loadGeneration show_nat no_faults 9 7 (bust_store 8 7 1 (bust_store 7 7 2 Map.empty))
        [generationKey show_nat 7 \<mapsto> (show_int 2, None)]) = Inr 1"
proof -
  have a: "bust_incr show_nat no_faults 5 7 Map.empty = (Some 1, [generationKey show_nat 7 \<mapsto> (show_int 1, None)])"
    by (simp add: bust_incr_def redis_Incr_def redis_live_def)
  have p: "ParseInt10 (show_int 1) = Some 1" by (rule ParseInt10_show_int) (simp add: int64_range_def)
  have b: "bust_incr show_nat no_faults 6 7 [generationKey show_nat 7 \<mapsto> (show_int 1, None)]
      = (Some 2, [generationKey show_nat 7 \<mapsto> (show_int 2, None)])"
    by (simp add: bust_incr_def redis_Incr_def redis_live_def p int64_range_def)
  from interleaved_busts_roll_back [OF _ a b, of None 7 8 9] a show ?thesis
    by (simp add: generationStaleAfter_def)
qed


end
