(* ===== verification/Files.thy ===== *)
theory Files
  imports Folders
begin

text \<open>
  Files, their versions and tags (\<^verbatim>\<open>internal/file\<close>: file.go, repository.go,
  service.go, tag.go).  A file row points at its current version; uploads leave a pending
  object key on the row until they are confirmed.
\<close>

datatype file_error =
    FileErrNotFound
  | FileErrInvalidName
  | FileErrInvalidTag
  | FileErrVersionConflict
  | FileErrTagAlreadyExists
  | FileErrDuplicateName
  | FileErrNegativeSize
  | FileErrKeyRequired
  | FileErrDB string

section \<open>The repository: file rows\<close>

text \<open>The partial unique index on visible rows: workspace, folder and name.\<close>

definition name_clash :: "uuid \<Rightarrow> uuid \<Rightarrow> string \<Rightarrow> uuid \<Rightarrow> file_row list \<Rightarrow> bool" where
  "name_clash ws folder name self rows =
     (\<exists>r \<in> set rows. file_live r \<and> fl_ws r = ws \<and> fl_folder r = folder \<and> fl_name r = name \<and> fl_id r \<noteq> self)"

text \<open>\<^verbatim>\<open>CreateFile\<close> reports any unique violation, of the name or of the id, as a
  duplicate name; a folder id that is no folder violates the foreign key.\<close>

definition CreateFile :: "faults \<Rightarrow> uuid \<Rightarrow> time \<Rightarrow> file_row \<Rightarrow> db \<Rightarrow> (file_error + file_row) \<times> db" where
  "CreateFile flt new now f d =
     (let f = (if fl_id f = uuid_Nil then f\<lparr>fl_id := new\<rparr> else f);
          f = (if fl_mime f = [] then f\<lparr>fl_mime := ''application/octet-stream''\<rparr> else f);
          f = f\<lparr>fl_current := None, fl_pending := None, fl_deleted_at := None,
                fl_created_at := now, fl_updated_at := now\<rparr>
      in if flt ''insert file'' then (Inl (FileErrDB ''insert file''), d)
         else if fl_id f \<in> fl_id ` set (files d)
                 \<or> name_clash (fl_ws f) (fl_folder f) (fl_name f) (fl_id f) (files d)
              then (Inl FileErrDuplicateName, d)
         else if fl_folder f \<notin> f_id ` set (folders d) then (Inl (FileErrDB ''insert file''), d)
         else (Inr f, d\<lparr>files := files d @ [f]\<rparr>))"

text \<open>The shape of the single-statement updates of a visible row.  \<open>viol\<close> says when the new
  row violates a constraint.\<close>

definition visible_file :: "uuid \<Rightarrow> uuid \<Rightarrow> file_row \<Rightarrow> bool" where
  "visible_file ws fid r = (fl_ws r = ws \<and> fl_id r = fid \<and> file_live r)"

definition update_file ::
  "faults \<Rightarrow> string \<Rightarrow> uuid \<Rightarrow> uuid \<Rightarrow> (file_row \<Rightarrow> bool) \<Rightarrow> (file_row \<Rightarrow> file_row) \<Rightarrow> db
     \<Rightarrow> file_error option \<times> db" where
  "update_file flt l ws fid viol u d =
     (if flt l \<or> (\<exists>r \<in> set (files d). visible_file ws fid r \<and> viol r)
      then (Some (FileErrDB l), d)
      else if rows_affected (visible_file ws fid) (files d) = 0 then (Some FileErrNotFound, d)
      else (None, d\<lparr>files := update_rows (visible_file ws fid) u (files d)\<rparr>))"

definition repo_SetPendingUploadObjectKey ::
  "faults \<Rightarrow> time \<Rightarrow> uuid \<Rightarrow> uuid \<Rightarrow> string \<Rightarrow> db \<Rightarrow> file_error option \<times> db" where
  "repo_SetPendingUploadObjectKey flt now ws fid key d =
     update_file flt ''set pending upload object key'' ws fid (\<lambda>_. False)
       (\<lambda>r. r\<lparr>fl_pending := Some key, fl_updated_at := now\<rparr>) d"

record pending_orphan =
  po_file :: uuid
  po_key :: string
  po_created_at :: time

definition is_orphan :: "uuid \<Rightarrow> file_row \<Rightarrow> bool" where
  "is_orphan ws r = (fl_ws r = ws \<and> fl_pending r \<noteq> None \<and> fl_current r = None \<and> file_live r)"

definition ListPendingUploadOrphans ::
  "faults \<Rightarrow> db \<Rightarrow> uuid \<Rightarrow> time \<Rightarrow> int \<Rightarrow> file_error + pending_orphan list" where
  "ListPendingUploadOrphans flt d ws olderThan limit0 =
     (let limit = (if limit0 \<le> 0 then 100 else limit0) in
      if flt ''list pending orphans'' then Inl (FileErrDB ''list pending orphans'')
      else Inr (map (\<lambda>r. \<lparr>po_file = fl_id r, po_key = the (fl_pending r), po_created_at = fl_created_at r\<rparr>)
             (take (nat limit)
               (sort_key fl_created_at
                 (filter (\<lambda>r. is_orphan ws r \<and> fl_created_at r < olderThan) (files d))))))"

text \<open>A hard delete: version rows that refer to the file forbid it, tag rows go with it.\<close>

definition DeletePendingOrphan :: "faults \<Rightarrow> uuid \<Rightarrow> uuid \<Rightarrow> db \<Rightarrow> file_error option \<times> db" where
  "DeletePendingOrphan flt ws fid d =
     (let hit = (\<lambda>r. fl_id r = fid \<and> is_orphan ws r) in
      if flt ''delete pending orphan''
         \<or> ((\<exists>r \<in> set (files d). hit r) \<and> fid \<in> v_file ` set (versions d))
      then (Some (FileErrDB ''delete pending orphan''), d)
      else if rows_affected hit (files d) = 0 then (Some FileErrNotFound, d)
      else (None, d\<lparr>files := delete_rows hit (files d),
                    file_tags := delete_rows (\<lambda>t. t_file t = fid) (file_tags d)\<rparr>))"

definition GetFileByID :: "faults \<Rightarrow> db \<Rightarrow> uuid \<Rightarrow> uuid \<Rightarrow> file_error + file_row" where
  "GetFileByID flt d ws fid =
     (if flt ''get file'' then Inl (FileErrDB ''get file'')
      else case find (visible_file ws fid) (files d) of
             None \<Rightarrow> Inl FileErrNotFound
           | Some f \<Rightarrow> Inr f)"

definition UpdateFile ::
  "faults \<Rightarrow> time \<Rightarrow> uuid \<Rightarrow> uuid \<Rightarrow> string \<Rightarrow> uuid \<Rightarrow> db \<Rightarrow> file_error option \<times> db" where
  "UpdateFile flt now ws fid name folderID d =
     update_file flt ''update file'' ws fid
       (\<lambda>r. name_clash ws folderID name fid (files d) \<or> folderID \<notin> f_id ` set (folders d))
       (\<lambda>r. r\<lparr>fl_name := name, fl_folder := folderID, fl_updated_at := now\<rparr>) d"

definition RenameFile :: "faults \<Rightarrow> time \<Rightarrow> uuid \<Rightarrow> uuid \<Rightarrow> string \<Rightarrow> db \<Rightarrow> file_error option \<times> db" where
  "RenameFile flt now ws fid name d =
     update_file flt ''rename file'' ws fid
       (\<lambda>r. name_clash ws (fl_folder r) name fid (files d))
       (\<lambda>r. r\<lparr>fl_name := name, fl_updated_at := now\<rparr>) d"

definition DeleteFile :: "faults \<Rightarrow> time \<Rightarrow> uuid \<Rightarrow> uuid \<Rightarrow> db \<Rightarrow> file_error option \<times> db" where
  "DeleteFile flt now ws fid d =
     update_file flt ''delete file'' ws fid (\<lambda>_. False)
       (\<lambda>r. r\<lparr>fl_deleted_at := Some now, fl_updated_at := now\<rparr>) d"

definition MoveFile :: "faults \<Rightarrow> time \<Rightarrow> uuid \<Rightarrow> uuid \<Rightarrow> uuid \<Rightarrow> db \<Rightarrow> file_error option \<times> db" where
  "MoveFile flt now ws fid folderID d =
     update_file flt ''move file'' ws fid
       (\<lambda>r. name_clash ws folderID (fl_name r) fid (files d) \<or> folderID \<notin> f_id ` set (folders d))
       (\<lambda>r. r\<lparr>fl_folder := folderID, fl_updated_at := now\<rparr>) d"

definition UpdateFileSize :: "faults \<Rightarrow> time \<Rightarrow> uuid \<Rightarrow> uuid \<Rightarrow> int \<Rightarrow> db \<Rightarrow> file_error option \<times> db" where
  "UpdateFileSize flt now ws fid sz d =
     update_file flt ''update file size'' ws fid (\<lambda>_. False)
       (\<lambda>r. r\<lparr>fl_size := sz, fl_updated_at := now\<rparr>) d"

definition ListFilesByFolder ::
  "(string \<Rightarrow> 'k::linorder) \<Rightarrow> faults \<Rightarrow> db \<Rightarrow> uuid \<Rightarrow> uuid \<Rightarrow> file_error + file_row list" where
  "ListFilesByFolder collate flt d ws folderID =
     (if flt ''list files'' then Inl (FileErrDB ''list files'')
      else Inr (sort_key (\<lambda>r. collate (fl_name r))
             (filter (\<lambda>r. fl_ws r = ws \<and> fl_folder r = folderID \<and> file_live r) (files d))))"

definition ListFilesInFolderSubtree ::
  "faults \<Rightarrow> db \<Rightarrow> uuid \<Rightarrow> uuid \<Rightarrow> (file_error + file_row list) option" where
  "ListFilesInFolderSubtree flt d ws folderID =
     (if flt ''list files in subtree'' then Some (Inl (FileErrDB ''list files in subtree''))
      else do {
        subtree \<leftarrow> subtree_rows live ws folderID (folders d);
        Some (Inr (sort_key fl_id
          (filter (\<lambda>r. fl_ws r = ws \<and> fl_folder r \<in> f_id ` set subtree \<and> file_live r) (files d))))
      })"

section \<open>The repository: versions\<close>

text \<open>\<^verbatim>\<open>version_number\<close> is a 32-bit column; the next number beyond it is an error.\<close>

definition next_version_number :: "uuid \<Rightarrow> file_version list \<Rightarrow> int" where
  "next_version_number fid vs =
     fold max (map v_number (filter (\<lambda>v. v_file v = fid) vs)) 0 + 1"

text \<open>The body of the version transaction: a fresh row, or the stored row of a replay.  The
  result carries whether the row is fresh and the version as the caller sees it afterwards.\<close>

definition insertVersionTx ::
  "faults \<Rightarrow> uuid \<Rightarrow> time \<Rightarrow> uuid \<Rightarrow> file_version \<Rightarrow> db \<Rightarrow> (file_error + bool \<times> file_version) \<times> db" where
  "insertVersionTx flt new now ws v d =
     (let v = (if v_id v = uuid_Nil then v\<lparr>v_id := new\<rparr> else v);
          num = next_version_number (v_file v) (versions d)
      in if flt ''verify file ownership'' then (Inl (FileErrDB ''verify file ownership''), d)
         else if rows_affected (visible_file ws (v_file v)) (files d) = 0 then (Inl FileErrNotFound, d)
         else if flt ''insert file version'' \<or> num > 2147483647
              then (Inl (FileErrDB ''insert file version''), d)
         else case find (\<lambda>x. v_id x = v_id v) (versions d) of
           None \<Rightarrow>
             (let v = v\<lparr>v_number := num, v_created_at := now, v_scan_status := ''pending'',
                       v_scan_detail := [], v_scanned_at := None\<rparr>
              in (Inr (True, v), d\<lparr>versions := versions d @ [v]\<rparr>))
         | Some stored \<Rightarrow>
             if flt ''re-fetch existing version'' then (Inl (FileErrDB ''re-fetch existing version''), d)
             else if v_file stored \<noteq> v_file v \<or> v_key stored \<noteq> v_key v
                  then (Inl FileErrVersionConflict, d)
             else (Inr (False, stored), d))"

text \<open>The transactions around it.  An error rolls the whole transaction back.\<close>

definition CreateFileVersion ::
  "faults \<Rightarrow> uuid \<Rightarrow> time \<Rightarrow> uuid \<Rightarrow> file_version \<Rightarrow> db \<Rightarrow> (file_error + file_version) \<times> db" where
  "CreateFileVersion flt new now ws v d =
     (if flt ''begin create version'' then (Inl (FileErrDB ''begin create version''), d)
      else case insertVersionTx flt new now ws v d of
        (Inl e, _) \<Rightarrow> (Inl e, d)
      | (Inr (_, v), d') \<Rightarrow>
          if flt ''commit create version'' then (Inl (FileErrDB ''commit create version''), d)
          else (Inr v, d'))"

definition CreateVersionAndSetCurrent ::
  "faults \<Rightarrow> uuid \<Rightarrow> time \<Rightarrow> uuid \<Rightarrow> file_version \<Rightarrow> db \<Rightarrow> (file_error + file_version) \<times> db" where
  "CreateVersionAndSetCurrent flt new now ws v d =
     (if flt ''begin create+set version'' then (Inl (FileErrDB ''begin create+set version''), d)
      else case insertVersionTx flt new now ws v d of
        (Inl e, _) \<Rightarrow> (Inl e, d)
      | (Inr (_, v), d') \<Rightarrow>
          (case update_file flt ''set current version'' ws (v_file v) (\<lambda>_. False)
                  (\<lambda>r. r\<lparr>fl_current := Some (v_id v), fl_updated_at := now\<rparr>) d' of
             (Some e, _) \<Rightarrow> (Inl e, d)
           | (None, d'') \<Rightarrow>
               if flt ''commit create+set version'' then (Inl (FileErrDB ''commit create+set version''), d)
               else (Inr v, d'')))"

definition repo_ConfirmVersion ::
  "faults \<Rightarrow> uuid \<Rightarrow> time \<Rightarrow> uuid \<Rightarrow> file_version \<Rightarrow> db \<Rightarrow> (file_error + bool \<times> file_version) \<times> db" where
  "repo_ConfirmVersion flt new now ws v d =
     (if flt ''begin confirm version'' then (Inl (FileErrDB ''begin confirm version''), d)
      else case insertVersionTx flt new now ws v d of
        (Inl e, _) \<Rightarrow> (Inl e, d)
      | (Inr (fresh, v), d') \<Rightarrow>
          if \<not> fresh then
            (if flt ''commit confirm version'' then (Inl (FileErrDB ''commit confirm version''), d)
             else (Inr (False, v), d'))
          else
            (case update_file flt ''confirm version'' ws (v_file v) (\<lambda>_. False)
                    (\<lambda>r. r\<lparr>fl_current := Some (v_id v), fl_size := v_size v, fl_pending := None,
                           fl_updated_at := now\<rparr>) d' of
               (Some e, _) \<Rightarrow> (Inl e, d)
             | (None, d'') \<Rightarrow>
                 if flt ''commit confirm version'' then (Inl (FileErrDB ''commit confirm version''), d)
                 else (Inr (True, v), d'')))"

definition ListVersions :: "faults \<Rightarrow> db \<Rightarrow> uuid \<Rightarrow> uuid \<Rightarrow> file_error + file_version list" where
  "ListVersions flt d ws fid =
     (if flt ''verify file workspace'' then Inl (FileErrDB ''verify file workspace'')
      else if rows_affected (visible_file ws fid) (files d) = 0 then Inl FileErrNotFound
      else if flt ''list versions'' then Inl (FileErrDB ''list versions'')
      else Inr (sort_key (\<lambda>v. - v_number v) (filter (\<lambda>v. v_file v = fid) (versions d))))"

definition GetVersionByID :: "faults \<Rightarrow> db \<Rightarrow> uuid \<Rightarrow> uuid \<Rightarrow> file_error + file_version" where
  "GetVersionByID flt d ws vid =
     (if flt ''get version by id'' then Inl (FileErrDB ''get version by id'')
      else case find (\<lambda>v. v_id v = vid \<and>
                       list_ex (\<lambda>f. fl_id f = v_file v \<and> fl_ws f = ws \<and> file_live f) (files d)) (versions d) of
             None \<Rightarrow> Inl FileErrNotFound
           | Some v \<Rightarrow> Inr v)"

definition SetCurrentVersion :: "faults \<Rightarrow> time \<Rightarrow> uuid \<Rightarrow> uuid \<Rightarrow> uuid \<Rightarrow> db \<Rightarrow> file_error option \<times> db" where
  "SetCurrentVersion flt now ws fid vid d =
     update_file flt ''set current version'' ws fid (\<lambda>_. vid \<notin> v_id ` set (versions d))
       (\<lambda>r. r\<lparr>fl_current := Some vid, fl_updated_at := now\<rparr>) d"

section \<open>The repository: tags\<close>

definition repo_AddTag ::
  "faults \<Rightarrow> uuid \<Rightarrow> time \<Rightarrow> uuid \<Rightarrow> uuid \<Rightarrow> uuid \<Rightarrow> string \<Rightarrow> db \<Rightarrow> (file_error + file_tag) \<times> db" where
  "repo_AddTag flt new now ws fid createdBy tag d =
     (if flt ''begin add tag'' then (Inl (FileErrDB ''begin add tag''), d)
      else if flt ''verify file'' then (Inl (FileErrDB ''verify file''), d)
      else if rows_affected (visible_file ws fid) (files d) = 0 then (Inl FileErrNotFound, d)
      else
        (let t = \<lparr>t_id = new, t_file = fid, t_ws = ws, t_tag = tag, t_created_by = createdBy, t_created_at = now\<rparr>
         in if flt ''insert tag'' then (Inl (FileErrDB ''insert tag''), d)
            else if new \<in> t_id ` set (file_tags d) \<or> (\<exists>x \<in> set (file_tags d). t_file x = fid \<and> t_tag x = tag)
                 then (Inl FileErrTagAlreadyExists, d)
            else if flt ''commit add tag'' then (Inl (FileErrDB ''commit add tag''), d)
            else (Inr t, d\<lparr>file_tags := file_tags d @ [t]\<rparr>)))"

definition repo_RemoveTag :: "faults \<Rightarrow> uuid \<Rightarrow> uuid \<Rightarrow> string \<Rightarrow> db \<Rightarrow> file_error option \<times> db" where
  "repo_RemoveTag flt ws fid tag d =
     (let hit = (\<lambda>t. t_ws t = ws \<and> t_file t = fid \<and> t_tag t = tag) in
      if flt ''delete tag'' then (Some (FileErrDB ''delete tag''), d)
      else if rows_affected hit (file_tags d) = 0 then (Some FileErrNotFound, d)
      else (None, d\<lparr>file_tags := delete_rows hit (file_tags d)\<rparr>))"

definition ListTagsByFile ::
  "(string \<Rightarrow> 'k::linorder) \<Rightarrow> faults \<Rightarrow> db \<Rightarrow> uuid \<Rightarrow> uuid \<Rightarrow> file_error + file_tag list" where
  "ListTagsByFile collate flt d ws fid =
     (if flt ''list tags by file'' then Inl (FileErrDB ''list tags by file'')
      else Inr (sort_key (\<lambda>t. collate (t_tag t)) (filter (\<lambda>t. t_ws t = ws \<and> t_file t = fid) (file_tags d))))"

definition ListTagsByWorkspace ::
  "(string \<Rightarrow> 'k::linorder) \<Rightarrow> faults \<Rightarrow> db \<Rightarrow> uuid \<Rightarrow> file_error + file_tag list" where
  "ListTagsByWorkspace collate flt d ws =
     (if flt ''list tags by workspace'' then Inl (FileErrDB ''list tags by workspace'')
      else Inr (sort_key (\<lambda>t. collate (t_tag t))
             (sort_key t_created_at (filter (\<lambda>t. t_ws t = ws) (file_tags d)))))"

section \<open>The service\<close>

definition new_file_row :: "uuid \<Rightarrow> uuid \<Rightarrow> string \<Rightarrow> string \<Rightarrow> uuid \<Rightarrow> file_row" where
  "new_file_row ws folderID name mime createdBy =
     \<lparr>fl_id = uuid_Nil, fl_ws = ws, fl_folder = folderID, fl_name = name, fl_current = None, fl_size = 0,
      fl_mime = mime, fl_created_by = createdBy, fl_created_at = 0, fl_updated_at = 0,
      fl_deleted_at = None, fl_pending = None\<rparr>"

definition file_Create ::
  "faults \<Rightarrow> uuid \<Rightarrow> time \<Rightarrow> uuid \<Rightarrow> uuid \<Rightarrow> string \<Rightarrow> string \<Rightarrow> uuid \<Rightarrow> db \<Rightarrow> (file_error + file_row) \<times> db" where
  "file_Create flt new now ws folderID name0 mime createdBy d =
     (let name = TrimSpace name0 in
      if name = [] then (Inl FileErrInvalidName, d)
      else CreateFile flt new now (new_file_row ws folderID name mime createdBy) d)"

text \<open>An update followed by a read of the row; the read may fail after the update is done.\<close>

definition then_get :: "faults \<Rightarrow> uuid \<Rightarrow> uuid \<Rightarrow> file_error option \<times> db \<Rightarrow> (file_error + file_row) \<times> db" where
  "then_get flt ws fid res =
     (case res of (Some e, d') \<Rightarrow> (Inl e, d') | (None, d') \<Rightarrow> (GetFileByID flt d' ws fid, d'))"

definition file_Rename ::
  "faults \<Rightarrow> time \<Rightarrow> uuid \<Rightarrow> uuid \<Rightarrow> string \<Rightarrow> db \<Rightarrow> (file_error + file_row) \<times> db" where
  "file_Rename flt now ws fid newName0 d =
     (let newName = TrimSpace newName0 in
      if newName = [] then (Inl FileErrInvalidName, d)
      else then_get flt ws fid (RenameFile flt now ws fid newName d))"

definition file_Move :: "faults \<Rightarrow> time \<Rightarrow> uuid \<Rightarrow> uuid \<Rightarrow> uuid \<Rightarrow> db \<Rightarrow> (file_error + file_row) \<times> db" where
  "file_Move flt now ws fid folderID d = then_get flt ws fid (MoveFile flt now ws fid folderID d)"

definition file_SetPendingUploadObjectKey ::
  "faults \<Rightarrow> time \<Rightarrow> uuid \<Rightarrow> uuid \<Rightarrow> string \<Rightarrow> db \<Rightarrow> file_error option \<times> db" where
  "file_SetPendingUploadObjectKey flt now ws fid key0 d =
     (let key = TrimSpace key0 in
      if key = [] then (Some FileErrKeyRequired, d)
      else repo_SetPendingUploadObjectKey flt now ws fid key d)"

definition ConfirmVersion ::
  "faults \<Rightarrow> uuid \<Rightarrow> time \<Rightarrow> uuid \<Rightarrow> file_version \<Rightarrow> db \<Rightarrow> (file_error + bool \<times> file_version) \<times> db" where
  "ConfirmVersion flt new now ws v d =
     (if v_size v < 0 then (Inl FileErrNegativeSize, d) else repo_ConfirmVersion flt new now ws v d)"

definition UpdateSize :: "faults \<Rightarrow> time \<Rightarrow> uuid \<Rightarrow> uuid \<Rightarrow> int \<Rightarrow> db \<Rightarrow> file_error option \<times> db" where
  "UpdateSize flt now ws fid sz d =
     (if sz < 0 then (Some FileErrNegativeSize, d) else UpdateFileSize flt now ws fid sz d)"

text \<open>Tags are trimmed and put in lower case; the case mapping of Unicode text is the
  parameter \<open>lower\<close>.\<close>

definition MaxTagLength :: nat where "MaxTagLength = 64"

definition normalizeTag :: "(string \<Rightarrow> string) \<Rightarrow> string \<Rightarrow> string" where
  "normalizeTag lower t0 =
     (let t = lower (TrimSpace t0) in
      if ContainsByte t CHR ''/'' \<or> ContainsByte t CHR ''%'' then [] else t)"

definition AddTag ::
  "(string \<Rightarrow> string) \<Rightarrow> faults \<Rightarrow> uuid \<Rightarrow> time \<Rightarrow> uuid \<Rightarrow> uuid \<Rightarrow> uuid \<Rightarrow> string \<Rightarrow> db
     \<Rightarrow> (file_error + file_tag) \<times> db" where
  "AddTag lower flt new now ws fid createdBy tag0 d =
     (let tag = normalizeTag lower tag0 in
      if tag = [] \<or> length tag > MaxTagLength then (Inl FileErrInvalidTag, d)
      else repo_AddTag flt new now ws fid createdBy tag d)"

definition RemoveTag ::
  "(string \<Rightarrow> string) \<Rightarrow> faults \<Rightarrow> uuid \<Rightarrow> uuid \<Rightarrow> string \<Rightarrow> db \<Rightarrow> file_error option \<times> db" where
  "RemoveTag lower flt ws fid tag0 d =
     (let tag = normalizeTag lower tag0 in
      if tag = [] then (Some FileErrInvalidTag, d) else repo_RemoveTag flt ws fid tag d)"

end
