(* ===== verification/File_Properties.thy ===== *)
theory File_Properties
  imports Files Folder_Properties
begin

text \<open>
  The properties of files, versions and tags: an invariant of the tables under every
  operation of the service, the idempotence of confirming an upload, and the agreement of
  the subtree listing with the recursive delete.
\<close>

section \<open>The invariant\<close>

definition files_ok :: "file_row list \<Rightarrow> bool" where
  "files_ok rows \<longleftrightarrow> distinct (map fl_id rows) \<and> (\<forall>x \<in> set rows. fl_name x \<noteq> []
     \<and> (file_live x \<longrightarrow> \<not> name_clash (fl_ws x) (fl_folder x) (fl_name x) (fl_id x) rows))"

definition versions_ok :: "file_version list \<Rightarrow> bool" where
  "versions_ok vs \<longleftrightarrow> distinct (map v_id vs) \<and> distinct (map (\<lambda>v. (v_file v, v_number v)) vs)
     \<and> (\<forall>v \<in> set vs. 1 \<le> v_number v \<and> v_number v \<le> 2147483647)"

definition current_ok :: "file_row list \<Rightarrow> file_version list \<Rightarrow> bool" where
  "current_ok rows vs \<longleftrightarrow> (\<forall>x \<in> set rows. \<forall>vid. fl_current x = Some vid \<longrightarrow>
     (\<exists>v \<in> set vs. v_id v = vid \<and> v_file v = fl_id x))"

definition tags_ok :: "file_tag list \<Rightarrow> bool" where
  "tags_ok ts \<longleftrightarrow> distinct (map (\<lambda>t. (t_file t, t_tag t)) ts)
     \<and> (\<forall>t \<in> set ts. t_tag t \<noteq> [] \<and> length (t_tag t) \<le> MaxTagLength
          \<and> CHR ''/'' \<notin> set (t_tag t) \<and> CHR ''%'' \<notin> set (t_tag t))"

definition file_inv :: "db \<Rightarrow> bool" where
  "file_inv d \<longleftrightarrow> files_ok (files d) \<and> versions_ok (versions d) \<and> current_ok (files d) (versions d)
     \<and> tags_ok (file_tags d)"

lemma files_ok_id: "files_ok rows \<Longrightarrow> x \<in> set rows \<Longrightarrow> y \<in> set rows \<Longrightarrow> fl_id x = fl_id y \<Longrightarrow> x = y"
  by (auto simp: files_ok_def dest: distinct_map_inj)

text \<open>Updating one visible row keeps the table in order when the new row takes no name in use.\<close>

lemma files_ok_update:
  assumes ok: "files_ok rows"
    and u: "\<And>r. r \<in> set rows \<Longrightarrow> visible_file ws fid r \<Longrightarrow> fl_id (u r) = fl_id r \<and> fl_ws (u r) = fl_ws r
      \<and> fl_name (u r) \<noteq> [] \<and> (file_live (u r) \<longrightarrow> \<not> name_clash ws (fl_folder (u r)) (fl_name (u r)) fid rows)"
  shows "files_ok (update_rows (visible_file ws fid) u rows)"
proof -
  let ?f = "\<lambda>r. if visible_file ws fid r then u r else r"
  have ids: "fl_id (?f r) = fl_id r" if "r \<in> set rows" for r using u [OF that] by auto
  then have dist: "distinct (map fl_id (update_rows (visible_file ws fid) u rows))"
    using ok by (simp add: files_ok_def update_rows_def cong: map_cong)
  have clash: "\<not> name_clash (fl_ws (?f x)) (fl_folder (?f x)) (fl_name (?f x)) (fl_id (?f x)) (map ?f rows)"
    if x: "x \<in> set rows" "file_live (?f x)" for x
  proof
    assume "name_clash (fl_ws (?f x)) (fl_folder (?f x)) (fl_name (?f x)) (fl_id (?f x)) (map ?f rows)"
    then obtain y where y: "y \<in> set rows" "file_live (?f y)" "fl_ws (?f y) = fl_ws (?f x)"
        "fl_folder (?f y) = fl_folder (?f x)" "fl_name (?f y) = fl_name (?f x)" "fl_id (?f y) \<noteq> fl_id (?f x)"
      by (auto simp: name_clash_def)
    have ne: "fl_id y \<noteq> fl_id x" using y(6) ids x(1) y(1) by simp
    have only: "\<not> (visible_file ws fid x \<and> visible_file ws fid y)" using ne by (auto simp: visible_file_def)
    show False
    proof (cases "visible_file ws fid x")
      case True
      then have "\<not> name_clash ws (fl_folder (u x)) (fl_name (u x)) fid rows" "fl_ws (u x) = ws"
        using u [OF x(1) True] x(2) by (auto simp: visible_file_def)
      moreover have "\<not> visible_file ws fid y" "fl_id x = fid" using True only by (auto simp: visible_file_def)
      ultimately show False using y True ne by (auto simp: name_clash_def)
    next
      case nx: False
      show False
      proof (cases "visible_file ws fid y")
        case True
        then have "\<not> name_clash ws (fl_folder (u y)) (fl_name (u y)) fid rows" "fl_ws (u y) = ws"
          using u [OF y(1) True] y(2) by (auto simp: visible_file_def)
        moreover have "fl_id y = fid" using True by (simp add: visible_file_def)
        ultimately show False using y True nx x ne by (auto simp: name_clash_def)
      next
        case False
        have "\<not> name_clash (fl_ws x) (fl_folder x) (fl_name x) (fl_id x) rows"
          using ok x nx by (simp add: files_ok_def)
        moreover have "name_clash (fl_ws x) (fl_folder x) (fl_name x) (fl_id x) rows"
          unfolding name_clash_def using y(1-5) nx False ne by (intro bexI [of _ y]) simp_all
        ultimately show False by contradiction
      qed
    qed
  qed
  have "fl_name (?f x) \<noteq> []" if "x \<in> set rows" for x
    using that u [OF that] ok by (auto simp: files_ok_def)
  with clash have "\<forall>x \<in> ?f ` set rows. fl_name x \<noteq> [] \<and>
      (file_live x \<longrightarrow> \<not> name_clash (fl_ws x) (fl_folder x) (fl_name x) (fl_id x) (map ?f rows))"
    by blast
  with dist show ?thesis unfolding files_ok_def update_rows_def set_map by blast
qed

lemma current_ok_update:
  assumes "current_ok rows vs"
    and "\<And>r. r \<in> set rows \<Longrightarrow> p r \<Longrightarrow> fl_id (u r) = fl_id r
      \<and> (fl_current (u r) = fl_current r \<or> (\<exists>v \<in> set vs. fl_current (u r) = Some (v_id v) \<and> v_file v = fl_id r))"
  shows "current_ok (update_rows p u rows) vs"
  using assms unfolding current_ok_def update_rows_def by (fastforce split: if_splits)

lemma update_file_cases:
  assumes "update_file flt l ws fid viol u d = (e, d')"
  shows "e \<noteq> None \<and> d' = d \<or>
    e = None \<and> d' = d\<lparr>files := update_rows (visible_file ws fid) u (files d)\<rparr>
      \<and> (\<forall>r \<in> set (files d). visible_file ws fid r \<longrightarrow> \<not> viol r)"
  using assms by (auto simp: update_file_def split: if_splits)

text \<open>An update through \<open>update_file\<close> that keeps ids, workspaces and current versions.\<close>

lemma file_inv_update_file:
  assumes inv: "file_inv d" and run: "update_file flt l ws fid viol u d = (e, d')"
    and u: "\<And>r. r \<in> set (files d) \<Longrightarrow> visible_file ws fid r \<Longrightarrow> \<not> viol r \<Longrightarrow>
      fl_id (u r) = fl_id r \<and> fl_ws (u r) = fl_ws r \<and> fl_name (u r) \<noteq> []
      \<and> (file_live (u r) \<longrightarrow> \<not> name_clash ws (fl_folder (u r)) (fl_name (u r)) fid (files d))
      \<and> (fl_current (u r) = fl_current r \<or> (\<exists>v \<in> set (versions d). fl_current (u r) = Some (v_id v) \<and> v_file v = fl_id r))"
  shows "file_inv d'"
proof (cases e)
  case (Some x)
  with update_file_cases [OF run] inv show ?thesis by auto
next
  case None
  with update_file_cases [OF run] have d': "d' = d\<lparr>files := update_rows (visible_file ws fid) u (files d)\<rparr>"
    and viol: "\<And>r. r \<in> set (files d) \<Longrightarrow> visible_file ws fid r \<Longrightarrow> \<not> viol r" by auto
  have "files_ok (update_rows (visible_file ws fid) u (files d))"
    by (rule files_ok_update) (use inv u viol in \<open>auto simp: file_inv_def\<close>)
  moreover have "current_ok (update_rows (visible_file ws fid) u (files d)) (versions d)"
    by (rule current_ok_update) (use inv u viol in \<open>auto simp: file_inv_def\<close>)
  ultimately show ?thesis using inv d' by (simp add: file_inv_def)
qed

lemma no_self_clash:
  assumes "file_inv d" "r \<in> set (files d)" "visible_file ws fid r"
  shows "\<not> name_clash ws (fl_folder r) (fl_name r) fid (files d)" "fl_name r \<noteq> []"
  using assms by (auto simp: file_inv_def files_ok_def visible_file_def)

section \<open>Every operation keeps it\<close>

lemma TrimSpace_name_update:
  "file_inv d \<Longrightarrow> name \<noteq> [] \<Longrightarrow> RenameFile flt now ws fid name d = (e, d') \<Longrightarrow> file_inv d'"
  unfolding RenameFile_def by (erule file_inv_update_file, assumption) auto

lemma then_get_db: "snd (then_get flt ws fid res) = snd res"
  by (cases res) (auto simp: then_get_def split: option.splits)

lemma files_ok_insert:
  assumes ok: "files_ok rows" and x: "fl_id x \<notin> fl_id ` set rows" "fl_name x \<noteq> []"
    and clash: "\<not> name_clash (fl_ws x) (fl_folder x) (fl_name x) (fl_id x) rows"
  shows "files_ok (rows @ [x])"
proof -
  have old: "\<not> name_clash (fl_ws y) (fl_folder y) (fl_name y) (fl_id y) (rows @ [x])"
    if y: "y \<in> set rows" "file_live y" for y
  proof
    assume "name_clash (fl_ws y) (fl_folder y) (fl_name y) (fl_id y) (rows @ [x])"
    moreover have "\<not> name_clash (fl_ws y) (fl_folder y) (fl_name y) (fl_id y) rows"
      using ok y by (simp add: files_ok_def)
    ultimately have "fl_ws x = fl_ws y" "fl_folder x = fl_folder y" "fl_name x = fl_name y"
      by (auto simp: name_clash_def)
    moreover have "fl_id y \<noteq> fl_id x" using x(1) y(1) by (metis image_eqI)
    ultimately have "name_clash (fl_ws x) (fl_folder x) (fl_name x) (fl_id x) rows"
      unfolding name_clash_def using y by (intro bexI [of _ y]) simp_all
    with clash show False by contradiction
  qed
  moreover have "\<not> name_clash (fl_ws x) (fl_folder x) (fl_name x) (fl_id x) (rows @ [x])"
    using clash by (simp add: name_clash_def)
  ultimately show ?thesis using ok x by (simp add: files_ok_def)
qed

lemma file_inv_Create:
  assumes "file_inv d"
  shows "file_inv (snd (file_Create flt new now ws folder name mime by d))"
proof -
  have repo: "file_inv (snd (CreateFile flt new now f d))" if f: "fl_name f \<noteq> []" for f
  proof (cases "CreateFile flt new now f d")
    case (Pair res d')
    show ?thesis
    proof (cases res)
      case (Inl e)
      with Pair assms show ?thesis by (auto simp: CreateFile_def Let_def split: if_splits)
    next
      case (Inr x)
      have d': "d' = d\<lparr>files := files d @ [x]\<rparr>" "fl_current x = None" "fl_name x = fl_name f"
        "fl_id x \<notin> fl_id ` set (files d)"
        "\<not> name_clash (fl_ws x) (fl_folder x) (fl_name x) (fl_id x) (files d)"
        using Pair Inr by (auto simp: CreateFile_def Let_def split: if_splits)
      have "files_ok (files d @ [x])"
        by (rule files_ok_insert) (use assms f d' in \<open>simp_all add: file_inv_def\<close>)
      moreover have "current_ok (files d @ [x]) (versions d)"
        using assms d'(2) by (auto simp: file_inv_def current_ok_def)
      ultimately show ?thesis using assms Pair d'(1) by (simp add: file_inv_def)
    qed
  qed
  show ?thesis using assms repo by (simp add: file_Create_def Let_def new_file_row_def)
qed

lemma file_inv_DeleteOrphan:
  assumes "file_inv d"
  shows "file_inv (snd (DeletePendingOrphan flt ws fid d))"
proof -
  have "name_clash ws' folder name self (files d)" if "name_clash ws' folder name self (filter q (files d))"
    for ws' folder name self q using that unfolding name_clash_def by (simp, blast)
  then have "files_ok (delete_rows p (files d))" for p
    using assms unfolding file_inv_def files_ok_def delete_rows_def
    by (simp add: distinct_map_filter) blast
  moreover have "current_ok (delete_rows p (files d)) (versions d)" for p
    using assms by (auto simp: file_inv_def current_ok_def delete_rows_def)
  moreover have "tags_ok (delete_rows q (file_tags d))" for q
    using assms by (auto simp: file_inv_def tags_ok_def delete_rows_def distinct_map_filter)
  ultimately show ?thesis using assms by (auto simp: DeletePendingOrphan_def Let_def file_inv_def)
qed

lemma next_version_bound: "v \<in> set vs \<Longrightarrow> v_file v = fid \<Longrightarrow> v_number v < next_version_number fid vs"
  using fold_max_ge [of 0 "map v_number (filter (\<lambda>v. v_file v = fid) vs)"]
  by (force simp: next_version_number_def)

lemma next_version_pos: "1 \<le> next_version_number fid vs"
  using fold_max_ge [of 0] by (simp add: next_version_number_def)

text \<open>The version transaction adds one row with a new number, or finds the stored row.\<close>

lemma insertVersionTx_cases:
  assumes "insertVersionTx flt new now ws v d = (Inr (fresh, v'), d')"
  shows "v_file v' = v_file v \<and> v_key v' = v_key v \<and> v_id v' = (if v_id v = uuid_Nil then new else v_id v)
    \<and> (\<exists>r \<in> set (files d). visible_file ws (v_file v) r)
    \<and> (if fresh then d' = d\<lparr>versions := versions d @ [v']\<rparr> \<and> v_id v' \<notin> v_id ` set (versions d)
          \<and> v_number v' = next_version_number (v_file v) (versions d) \<and> v_number v' \<le> 2147483647
          \<and> v_size v' = v_size v
       else d' = d \<and> find (\<lambda>x. v_id x = v_id v') (versions d) = Some v')"
proof (cases "find (\<lambda>x. v_id x = (if v_id v = uuid_Nil then new else v_id v)) (versions d)")
  case None
  then have nin: "(if v_id v = uuid_Nil then new else v_id v) \<notin> v_id ` set (versions d)"
    by (auto simp: find_None_iff)
  from assms have "\<exists>r \<in> set (files d). visible_file ws (v_file v) r" "fresh"
    "next_version_number (v_file v) (versions d) \<le> 2147483647"
    using None by (auto simp: insertVersionTx_def Let_def split: if_splits)
  moreover from assms have "v' = (if v_id v = uuid_Nil then v\<lparr>v_id := new\<rparr> else v)\<lparr>
      v_number := next_version_number (v_file v) (versions d), v_created_at := now,
      v_scan_status := ''pending'', v_scan_detail := [], v_scanned_at := None\<rparr>"
    "d' = d\<lparr>versions := versions d @ [v']\<rparr>"
    using None by (auto simp: insertVersionTx_def Let_def split: if_splits)
  ultimately show ?thesis using nin by (cases "v_id v = uuid_Nil") simp_all
next
  case (Some x)
  from find_SomeD [OF Some] have id: "v_id x = (if v_id v = uuid_Nil then new else v_id v)" by simp
  with Some assms have "v' = x" "\<not> fresh" "d' = d" "v_file x = v_file v" "v_key x = v_key v"
    "\<exists>r \<in> set (files d). visible_file ws (v_file v) r"
    by (auto simp: insertVersionTx_def Let_def split: if_splits)
  with Some id show ?thesis by simp
qed

lemma insertVersionTx_inv:
  assumes "file_inv d" "insertVersionTx flt new now ws v d = (Inr (fresh, v'), d')"
  shows "file_inv d' \<and> v' \<in> set (versions d') \<and> files d' = files d"
proof (cases fresh)
  case False
  with insertVersionTx_cases [OF assms(2)] assms(1) show ?thesis by (auto dest: find_SomeD)
next
  case True
  note c = insertVersionTx_cases [OF assms(2)]
  have new: "(v_file v', v_number v') \<notin> (\<lambda>v. (v_file v, v_number v)) ` set (versions d)"
    using c True next_version_bound by fastforce
  have "versions_ok (versions d @ [v'])"
    using assms(1) c True new next_version_pos by (auto simp: file_inv_def versions_ok_def)
  moreover have "current_ok (files d) (versions d @ [v'])"
    using assms(1) by (auto simp: file_inv_def current_ok_def)
  ultimately show ?thesis using assms(1) c True by (auto simp: file_inv_def)
qed

text \<open>The service operations as steps; other operations leave the three tables alone.\<close>

inductive file_step :: "(string \<Rightarrow> string) \<Rightarrow> db \<Rightarrow> db \<Rightarrow> bool" for lower where
  create: "file_step lower d (snd (file_Create flt new now ws folder name mime by d))"
| rename: "file_step lower d (snd (file_Rename flt now ws fid name d))"
| move: "file_step lower d (snd (file_Move flt now ws fid folder d))"
| delete: "file_step lower d (snd (DeleteFile flt now ws fid d))"
| pending: "file_step lower d (snd (file_SetPendingUploadObjectKey flt now ws fid key d))"
| orphan: "file_step lower d (snd (DeletePendingOrphan flt ws fid d))"
| version: "file_step lower d (snd (CreateVersionAndSetCurrent flt new now ws v d))"
| bare_version: "file_step lower d (snd (CreateFileVersion flt new now ws v d))"
| confirm: "file_step lower d (snd (ConfirmVersion flt new now ws v d))"
| resize: "file_step lower d (snd (UpdateSize flt now ws fid sz d))"
| tag: "file_step lower d (snd (AddTag lower flt new now ws fid by t d))"
| untag: "file_step lower d (snd (RemoveTag lower flt ws fid t d))"
| subtree: "folder_Delete flt now ws fid d = Some (res, d') \<Longrightarrow> file_step lower d d'"
| other: "files d' = files d \<Longrightarrow> versions d' = versions d \<Longrightarrow> file_tags d' = file_tags d \<Longrightarrow> file_step lower d d'"

lemma file_inv_same:
  "file_inv d \<Longrightarrow> files d' = files d \<Longrightarrow> versions d' = versions d \<Longrightarrow> file_tags d' = file_tags d \<Longrightarrow> file_inv d'"
  by (simp add: file_inv_def)

lemma file_inv_simple_update:
  assumes "file_inv d" "update_file flt l ws fid viol u d = (e, d')"
    and "\<And>r. fl_id (u r) = fl_id r \<and> fl_ws (u r) = fl_ws r \<and> fl_name (u r) = fl_name r
      \<and> fl_folder (u r) = fl_folder r \<and> fl_current (u r) = fl_current r"
  shows "file_inv d'"
  by (rule file_inv_update_file [OF assms(1,2)]) (use assms(3) no_self_clash [OF assms(1)] in auto)

lemma file_inv_Rename: "file_inv d \<Longrightarrow> file_inv (snd (file_Rename flt now ws fid name d))"
  using TrimSpace_name_update [of d "TrimSpace name" flt now ws fid]
  by (cases "RenameFile flt now ws fid (TrimSpace name) d") (auto simp: file_Rename_def Let_def then_get_db)

lemma file_inv_Move: "file_inv d \<Longrightarrow> file_inv (snd (file_Move flt now ws fid folder d))"
proof -
  assume inv: "file_inv d"
  obtain e d' where run: "MoveFile flt now ws fid folder d = (e, d')" by fastforce
  have "file_inv d'"
    by (rule file_inv_update_file [OF inv run [unfolded MoveFile_def]])
       (use no_self_clash(2) [OF inv] in auto)
  then show ?thesis by (simp add: file_Move_def then_get_db run)
qed

lemma file_inv_updates:
  assumes "file_inv d"
  shows "file_inv (snd (DeleteFile flt now ws fid d))"
    and "file_inv (snd (file_SetPendingUploadObjectKey flt now ws fid key d))"
    and "file_inv (snd (UpdateSize flt now ws fid sz d))"
proof -
  obtain e d' where run: "DeleteFile flt now ws fid d = (e, d')" by fastforce
  have "file_inv d'" by (rule file_inv_simple_update [OF assms run [unfolded DeleteFile_def]]) simp
  then show "file_inv (snd (DeleteFile flt now ws fid d))" using run by simp
  obtain e d' where run: "repo_SetPendingUploadObjectKey flt now ws fid (TrimSpace key) d = (e, d')" by fastforce
  have "file_inv d'"
    by (rule file_inv_simple_update [OF assms run [unfolded repo_SetPendingUploadObjectKey_def]]) simp
  then show "file_inv (snd (file_SetPendingUploadObjectKey flt now ws fid key d))"
    using run assms by (simp add: file_SetPendingUploadObjectKey_def Let_def)
  obtain e d' where run: "UpdateFileSize flt now ws fid sz d = (e, d')" by fastforce
  have "file_inv d'" by (rule file_inv_simple_update [OF assms run [unfolded UpdateFileSize_def]]) simp
  then show "file_inv (snd (UpdateSize flt now ws fid sz d))" using run assms by (simp add: UpdateSize_def)
qed

text \<open>Pointing a file at a version of its own.\<close>

lemma file_inv_set_current:
  assumes inv: "file_inv d" and v: "v \<in> set (versions d)"
    and run: "update_file flt l ws (v_file v) (\<lambda>_. False) u d = (e, d')"
    and u: "\<And>r. fl_id (u r) = fl_id r \<and> fl_ws (u r) = fl_ws r \<and> fl_name (u r) = fl_name r
      \<and> fl_folder (u r) = fl_folder r \<and> fl_current (u r) = Some (v_id v)"
  shows "file_inv d'"
proof (rule file_inv_update_file [OF inv run])
  fix r
  assume r: "r \<in> set (files d)" "visible_file ws (v_file v) r" "\<not> False"
  have "v_file v = fl_id r" using r(2) by (simp add: visible_file_def)
  then show "fl_id (u r) = fl_id r \<and> fl_ws (u r) = fl_ws r \<and> fl_name (u r) \<noteq> []
      \<and> (file_live (u r) \<longrightarrow> \<not> name_clash ws (fl_folder (u r)) (fl_name (u r)) (v_file v) (files d))
      \<and> (fl_current (u r) = fl_current r \<or> (\<exists>v \<in> set (versions d). fl_current (u r) = Some (v_id v) \<and> v_file v = fl_id r))"
    using u [of r] v no_self_clash [OF inv r(1,2)] by auto
qed

lemma file_inv_versions:
  assumes inv: "file_inv d"
  shows "file_inv (snd (CreateFileVersion flt new now ws v d))"
    and "file_inv (snd (CreateVersionAndSetCurrent flt new now ws v d))"
    and "file_inv (snd (ConfirmVersion flt new now ws v d))"
proof -
  obtain res d1 where tx: "insertVersionTx flt new now ws v d = (res, d1)" by fastforce
  have "file_inv (snd (CreateFileVersion flt new now ws v d)) \<and> file_inv (snd (CreateVersionAndSetCurrent flt new now ws v d))
    \<and> file_inv (snd (ConfirmVersion flt new now ws v d))"
  proof (cases res)
    case (Inl e)
    with tx inv show ?thesis
      by (simp add: CreateFileVersion_def CreateVersionAndSetCurrent_def ConfirmVersion_def repo_ConfirmVersion_def)
  next
    case (Inr p)
    obtain fresh v' where p: "p = (fresh, v')" by fastforce
    have i: "file_inv d1" "v' \<in> set (versions d1)" using insertVersionTx_inv [OF inv] tx Inr p by auto
    let ?u = "\<lambda>r. r\<lparr>fl_current := Some (v_id v'), fl_updated_at := now\<rparr>"
    let ?w = "\<lambda>r. r\<lparr>fl_current := Some (v_id v'), fl_size := v_size v', fl_pending := None, fl_updated_at := now\<rparr>"
    obtain e2 d2 where s: "update_file flt ''set current version'' ws (v_file v') (\<lambda>_. False) ?u d1 = (e2, d2)" by fastforce
    obtain e3 d3 where c: "update_file flt ''confirm version'' ws (v_file v') (\<lambda>_. False) ?w d1 = (e3, d3)" by fastforce
    have "file_inv d2" by (rule file_inv_set_current [OF i s]) simp
    moreover have "file_inv d3" by (rule file_inv_set_current [OF i c]) simp
    ultimately show ?thesis
      using tx Inr p i(1) inv s c
      by (simp add: CreateFileVersion_def CreateVersionAndSetCurrent_def ConfirmVersion_def repo_ConfirmVersion_def
          split: option.splits)
  qed
  then show "file_inv (snd (CreateFileVersion flt new now ws v d))"
    "file_inv (snd (CreateVersionAndSetCurrent flt new now ws v d))"
    "file_inv (snd (ConfirmVersion flt new now ws v d))" by simp_all
qed

lemma file_inv_tags:
  assumes "file_inv d"
  shows "file_inv (snd (AddTag lower flt new now ws fid by t d))" "file_inv (snd (RemoveTag lower flt ws fid t d))"
proof -
  have norm: "CHR ''/'' \<notin> set (normalizeTag lower t)" "CHR ''%'' \<notin> set (normalizeTag lower t)"
    by (auto simp: normalizeTag_def Let_def ContainsByte_def)
  have add: "tags_ok (file_tags d @ [x])"
    if "t_tag x \<noteq> []" "length (t_tag x) \<le> MaxTagLength" "CHR ''/'' \<notin> set (t_tag x)" "CHR ''%'' \<notin> set (t_tag x)"
      "\<not> (\<exists>y \<in> set (file_tags d). t_file y = t_file x \<and> t_tag y = t_tag x)" for x
    using assms that by (auto simp: file_inv_def tags_ok_def)
  show "file_inv (snd (AddTag lower flt new now ws fid by t d))"
  proof (cases "normalizeTag lower t = [] \<or> MaxTagLength < length (normalizeTag lower t)")
    case True
    then show ?thesis using assms by (auto simp: AddTag_def Let_def)
  next
    case False
    let ?x = "\<lparr>t_id = new, t_file = fid, t_ws = ws, t_tag = normalizeTag lower t, t_created_by = by, t_created_at = now\<rparr>"
    have "file_inv (d\<lparr>file_tags := file_tags d @ [?x]\<rparr>)"
      if "\<not> (\<exists>y \<in> set (file_tags d). t_file y = fid \<and> t_tag y = normalizeTag lower t)"
      using assms False norm add [of ?x] that by (simp add: file_inv_def)
    then show ?thesis using assms False by (simp add: AddTag_def Let_def repo_AddTag_def)
  qed
  have "tags_ok (delete_rows q (file_tags d))" for q
    using assms by (auto simp: file_inv_def tags_ok_def delete_rows_def distinct_map_filter)
  then show "file_inv (snd (RemoveTag lower flt ws fid t d))"
    using assms by (simp add: RemoveTag_def Let_def repo_RemoveTag_def file_inv_def)
qed

text \<open>The cascade of a folder delete only marks file rows deleted.\<close>

lemma files_ok_mark_deleted:
  assumes "files_ok rows"
  shows "files_ok (update_rows p (\<lambda>r. r\<lparr>fl_deleted_at := Some now, fl_updated_at := now\<rparr>) rows)"
proof -
  have "distinct (map fl_id (update_rows p (\<lambda>r. r\<lparr>fl_deleted_at := Some now, fl_updated_at := now\<rparr>) rows))"
    using assms by (subst map_update_rows) (simp_all add: files_ok_def)
  then show ?thesis
    using assms by (auto simp: files_ok_def update_rows_def name_clash_def file_live_def)
qed

lemma file_inv_subtree:
  assumes "folder_Delete flt now ws fid d = Some (res, d')" "file_inv d"
  shows "file_inv d'"
proof -
  have keep: "update_rows (\<lambda>_. False) u (files d) = files d" for u by (rule update_rows_nochange) simp
  have "\<exists>p. files d' = update_rows p (\<lambda>r. r\<lparr>fl_deleted_at := Some now, fl_updated_at := now\<rparr>) (files d)
      \<and> versions d' = versions d \<and> file_tags d' = file_tags d"
    using assms(1) keep [symmetric]
    by (auto simp: folder_Delete_def SoftDeleteSubtree_def Let_def bind_Some_iff split: if_splits)
  then obtain p where p: "files d' = update_rows p (\<lambda>r. r\<lparr>fl_deleted_at := Some now, fl_updated_at := now\<rparr>) (files d)"
      "versions d' = versions d" "file_tags d' = file_tags d" by blast
  have "current_ok (files d') (versions d')"
    unfolding p by (rule current_ok_update) (use assms(2) in \<open>auto simp: file_inv_def\<close>)
  then show ?thesis using assms(2) p files_ok_mark_deleted by (simp add: file_inv_def)
qed

lemma file_step_inv: "file_step lower d d' \<Longrightarrow> file_inv d \<Longrightarrow> file_inv d'"
  by (induction rule: file_step.induct)
     (auto intro: file_inv_Create file_inv_Rename file_inv_Move file_inv_updates file_inv_DeleteOrphan
       file_inv_versions file_inv_tags file_inv_subtree file_inv_same)

lemma file_reachable_inv: "(file_step lower)\<^sup>*\<^sup>* empty_db d \<Longrightarrow> file_inv d"
  by (induction rule: rtranclp_induct)
     (auto simp: empty_db_def file_inv_def files_ok_def versions_ok_def current_ok_def tags_ok_def dest: file_step_inv)

text \<open>No step removes or changes a version.\<close>

lemma find_append_Some: "find P xs = Some y \<Longrightarrow> find P (xs @ ys) = Some y"
  by (induction xs) auto

lemma update_file_versions [simp]: "versions (snd (update_file flt l ws fid viol u d)) = versions d"
  by (auto simp: update_file_def)

lemma insertVersionTx_append:
  "insertVersionTx flt new now ws v d = (res, d') \<Longrightarrow> \<exists>xs. versions d' = versions d @ xs"
  by (auto simp: insertVersionTx_def Let_def split: if_splits option.splits)

lemma confirm_appends:
  shows "\<exists>xs. versions (snd (CreateFileVersion flt new now ws v d)) = versions d @ xs"
    and "\<exists>xs. versions (snd (CreateVersionAndSetCurrent flt new now ws v d)) = versions d @ xs"
    and "\<exists>xs. versions (snd (ConfirmVersion flt new now ws v d)) = versions d @ xs"
proof -
  obtain res d1 where tx: "insertVersionTx flt new now ws v d = (res, d1)" by fastforce
  from insertVersionTx_append [OF tx] obtain xs where xs: "versions d1 = versions d @ xs" by blast
  have upd: "versions d2 = versions d @ xs" if "update_file fl l w i viol u d1 = (e, d2)" for fl l w i viol u e d2
    using update_file_versions [of fl l w i viol u d1] that xs by simp
  have "\<exists>ys. versions d = versions d @ ys" by (rule exI [of _ "[]"]) simp
  then show "\<exists>xs. versions (snd (CreateFileVersion flt new now ws v d)) = versions d @ xs"
    "\<exists>xs. versions (snd (CreateVersionAndSetCurrent flt new now ws v d)) = versions d @ xs"
    "\<exists>xs. versions (snd (ConfirmVersion flt new now ws v d)) = versions d @ xs"
    using tx xs
    by (auto simp: CreateFileVersion_def CreateVersionAndSetCurrent_def ConfirmVersion_def repo_ConfirmVersion_def
        dest: upd split: sum.splits prod.splits option.splits)
qed

lemma file_step_append: "file_step lower d d' \<Longrightarrow> \<exists>xs. versions d' = versions d @ xs"
proof (induction rule: file_step.induct)
  case (subtree flt now ws fid d res d')
  then show ?case
    by (auto simp: folder_Delete_def SoftDeleteSubtree_def Let_def bind_Some_iff split: if_splits)
qed (auto simp: file_Create_def CreateFile_def file_Rename_def RenameFile_def file_Move_def MoveFile_def DeleteFile_def
      file_SetPendingUploadObjectKey_def repo_SetPendingUploadObjectKey_def DeletePendingOrphan_def UpdateSize_def
      UpdateFileSize_def AddTag_def repo_AddTag_def RemoveTag_def repo_RemoveTag_def then_get_db Let_def
      intro: confirm_appends)

lemma file_steps_append: "(file_step lower)\<^sup>*\<^sup>* d d' \<Longrightarrow> \<exists>xs. versions d' = versions d @ xs"
proof (induction rule: rtranclp_induct)
  case (step y z)
  then show ?case using file_step_append [OF step(2)] by force
qed simp

lemma ConfirmVersion_stored:
  assumes "ConfirmVersion flt new now ws v d = (Inr (fresh, v1), d1)" "v_id v \<noteq> uuid_Nil"
  shows "v_file v1 = v_file v \<and> v_key v1 = v_key v \<and> find (\<lambda>x. v_id x = v_id v) (versions d1) = Some v1"
proof -
  from assms(1) obtain tx where tx: "insertVersionTx flt new now ws v d = (Inr (fresh, v1), tx)"
    and keep: "versions d1 = versions tx"
    by (auto simp: ConfirmVersion_def repo_ConfirmVersion_def update_file_def split: if_splits sum.splits prod.splits option.splits)
  note c = insertVersionTx_cases [OF tx]
  have v1: "v_id v1 = v_id v" "v_file v1 = v_file v" "v_key v1 = v_key v" using c assms(2) by auto
  have "find (\<lambda>x. v_id x = v_id v) (versions tx) = Some v1"
  proof (cases fresh)
    case True
    with c have nin: "v_id v1 \<notin> v_id ` set (versions d)" "versions tx = versions d @ [v1]" by auto
    have "find (\<lambda>x. v_id x = v_id v) (versions d) = None"
      using nin(1) v1(1) unfolding find_None_iff by (metis image_eqI)
    then show ?thesis using nin(2) v1(1) by (simp add: find_append_None)
  qed (use c v1(1) in auto)
  with v1 keep show ?thesis by simp
qed

text \<open>A confirm of a version that is stored.\<close>

lemma confirm_replay:
  assumes "find (\<lambda>x. v_id x = v_id v') (versions d) = Some v1" "v_id v' \<noteq> uuid_Nil"
  shows "snd (ConfirmVersion flt new now ws v' d) = d"
    and "next_version_number (v_file v') (versions d) \<le> 2147483647 \<Longrightarrow> fst (ConfirmVersion no_faults new now ws v' d) =
      (if v_size v' < 0 then Inl FileErrNegativeSize
       else if \<not> (\<exists>r \<in> set (files d). visible_file ws (v_file v') r) then Inl FileErrNotFound
       else if v_file v' = v_file v1 \<and> v_key v' = v_key v1 then Inr (False, v1) else Inl FileErrVersionConflict)"
proof -
  have "snd (insertVersionTx flt new now ws v' d) = d"
    "\<And>b w. fst (insertVersionTx flt new now ws v' d) = Inr (b, w) \<Longrightarrow> \<not> b"
    using assms by (auto simp: insertVersionTx_def Let_def split: if_splits)
  then show "snd (ConfirmVersion flt new now ws v' d) = d"
    by (cases "insertVersionTx flt new now ws v' d")
       (auto simp: ConfirmVersion_def repo_ConfirmVersion_def split: sum.splits)
  show "fst (ConfirmVersion no_faults new now ws v' d) =
      (if v_size v' < 0 then Inl FileErrNegativeSize
       else if \<not> (\<exists>r \<in> set (files d). visible_file ws (v_file v') r) then Inl FileErrNotFound
       else if v_file v' = v_file v1 \<and> v_key v' = v_key v1 then Inr (False, v1) else Inl FileErrVersionConflict)"
    if "next_version_number (v_file v') (versions d) \<le> 2147483647"
    using assms that by (auto simp: ConfirmVersion_def repo_ConfirmVersion_def insertVersionTx_def Let_def)
qed

section \<open>Properties\<close>

text \<open>C13 (invariant).  After any sequence of operations, under any failures: file ids are
  unique and names not empty, visible files of a folder have different names, version ids
  are unique, the versions of a file have different numbers between 1 and the largest
  32-bit integer, the current version of a file is one of its own versions, and the tags of
  a file are different, non-empty, at most 64 bytes long and without slash or percent sign.\<close>

theorem file_tables_stay_consistent:
  assumes "(file_step lower)\<^sup>*\<^sup>* empty_db d"
  shows "file_inv d"
  using assms by (rule file_reachable_inv)

text \<open>A history: a folder table is given, a file is created in folder 3 and its upload
  confirmed as version 31.\<close>

definition fx_db0 :: db where
  "fx_db0 = snd (file_Create no_faults 21 40 7 3 '' report '' [] 9 ex_db)"

definition fx_version :: file_version where
  "fx_version = \<lparr>v_id = 31, v_file = 21, v_number = 0, v_key = ''k1'', v_size = 5, v_checksum = ''c'',
     v_created_by = 9, v_created_at = 0, v_scan_status = [], v_scan_detail = [], v_scanned_at = None\<rparr>"

definition fx_db :: db where
  "fx_db = snd (ConfirmVersion no_faults 0 41 7 fx_version fx_db0)"

lemma fx_db_reachable: "(file_step (\<lambda>t. t))\<^sup>*\<^sup>* empty_db fx_db"
proof -
  have "file_step (\<lambda>t. t) empty_db ex_db" by (rule file_step.other) code_simp+
  moreover have "file_step (\<lambda>t. t) ex_db fx_db0" unfolding fx_db0_def by (rule file_step.create)
  moreover have "file_step (\<lambda>t. t) fx_db0 fx_db" unfolding fx_db_def by (rule file_step.confirm)
  ultimately show ?thesis by (meson rtranclp.rtrancl_into_rtrancl rtranclp.rtrancl_refl)
qed

theorem file_tables_stay_consistent_witness:
  "file_inv fx_db \<and> map fl_current (files fx_db) = [Some 31] \<and> map v_number (versions fx_db) = [1]"
proof -
  have "map fl_current (files fx_db) = [Some 31] \<and> map v_number (versions fx_db) = [1]" by code_simp
  with file_tables_stay_consistent [OF fx_db_reachable] show ?thesis by simp
qed

text \<open>C14 (safety).  Confirming an upload is idempotent, however late it is repeated: after a confirm of a
  version id has succeeded and any further operations have been made (newer versions, other
  current versions, moves, deletions), a confirm of the same version id never changes the
  database, so that a newer version stays the current one with its size, whatever the retry
  claims and whatever fails.  Without failures it reports the stored version as not fresh, refuses a
  different file or key as a conflict, and does not find a file that is deleted or another workspace's.\<close>

theorem confirm_retry_is_idempotent:
  assumes "ConfirmVersion flt new now ws v d = (Inr (fresh, v1), d1)" "v_id v \<noteq> uuid_Nil"
    and "(file_step lower)\<^sup>*\<^sup>* d1 d2" "v_id v' = v_id v"
  shows "snd (ConfirmVersion flt' new' now' ws' v' d2) = d2
    \<and> (next_version_number (v_file v') (versions d2) \<le> 2147483647 \<longrightarrow>
      fst (ConfirmVersion no_faults new' now' ws' v' d2) =
        (if v_size v' < 0 then Inl FileErrNegativeSize
         else if \<not> (\<exists>r \<in> set (files d2). visible_file ws' (v_file v') r) then Inl FileErrNotFound
         else if v_file v' = v_file v \<and> v_key v' = v_key v then Inr (False, v1)
         else Inl FileErrVersionConflict))"
proof -
  from ConfirmVersion_stored [OF assms(1,2)] have v1: "v_file v1 = v_file v" "v_key v1 = v_key v"
    and stored: "find (\<lambda>x. v_id x = v_id v) (versions d1) = Some v1" by blast+
  obtain xs where "versions d2 = versions d1 @ xs" using file_steps_append [OF assms(3)] by blast
  then have found: "find (\<lambda>x. v_id x = v_id v') (versions d2) = Some v1"
    using stored assms(4) by (simp add: find_append_Some)
  show ?thesis using confirm_replay [OF found] v1 assms(2,4) by simp
qed

text \<open>A newer version is confirmed; then the confirm of version 31 is repeated with another size.\<close>

definition fx_newer :: db where
  "fx_newer = snd (ConfirmVersion no_faults 0 50 7 (fx_version\<lparr>v_id := 32, v_key := ''k2'', v_size := 8\<rparr>) fx_db)"

theorem confirm_retry_is_idempotent_witness:
  "map fl_current (files fx_newer) = [Some 32] \<and> map fl_size (files fx_newer) = [8]
   \<and> ConfirmVersion no_faults 0 99 7 (fx_version\<lparr>v_size := 777\<rparr>) fx_newer
     = (Inr (False, fx_version\<lparr>v_number := 1, v_created_at := 41, v_scan_status := ''pending''\<rparr>), fx_newer)"
proof -
  let ?v1 = "fx_version\<lparr>v_number := 1, v_created_at := 41, v_scan_status := ''pending''\<rparr>"
  let ?v = "fx_version\<lparr>v_size := 777\<rparr>"
  have "fst (ConfirmVersion no_faults 0 41 7 fx_version fx_db0) = Inr (True, ?v1)" by code_simp
  then have run: "ConfirmVersion no_faults 0 41 7 fx_version fx_db0 = (Inr (True, ?v1), fx_db)"
    by (simp add: fx_db_def prod_eq_iff)
  have "file_step (\<lambda>t. t) fx_db fx_newer" unfolding fx_newer_def by (rule file_step.confirm)
  then have later: "(file_step (\<lambda>t. t))\<^sup>*\<^sup>* fx_db fx_newer" ..
  have number: "next_version_number (v_file ?v) (versions fx_newer) \<le> 2147483647" by code_simp
  have vis: "list_ex (visible_file 7 (v_file ?v)) (files fx_newer)" by code_simp
  have "snd (ConfirmVersion no_faults 0 99 7 ?v fx_newer) = fx_newer
    \<and> fst (ConfirmVersion no_faults 0 99 7 ?v fx_newer) = Inr (False, ?v1)"
    using confirm_retry_is_idempotent [OF run _ later, of ?v no_faults 0 99 7] number vis
    by (auto simp: fx_version_def uuid_Nil_def list_ex_iff)
  moreover have "map fl_current (files fx_newer) = [Some 32]" "map fl_size (files fx_newer) = [8]" by code_simp+
  ultimately show ?thesis by (simp add: prod_eq_iff)
qed

text \<open>When every visible file lies in a visible folder of its workspace,
  the listing of a folder's subtree returns exactly the file rows that a recursive delete of
  the folder then marks deleted, each once.\<close>

theorem subtree_listing_is_cascade:
  assumes "folder_step\<^sup>*\<^sup>* empty_db d0" "folders d = folders d0" "distinct (files d)"
    and "\<And>x. x \<in> set (files d) \<Longrightarrow> file_live x \<Longrightarrow> fl_ws x = ws
           \<Longrightarrow> \<exists>g \<in> set (folders d). live g \<and> f_ws g = ws \<and> f_id g = fl_folder x"
    and "folder_Delete flt now ws fid d = Some (None, d')"
  shows "\<exists>xs. ListFilesInFolderSubtree no_faults d ws fid = Some (Inr xs) \<and> distinct xs
    \<and> files d' = map (\<lambda>x. if x \<in> set xs then x\<lparr>fl_deleted_at := Some now, fl_updated_at := now\<rparr> else x) (files d)"
proof -
  have inv: "tree_inv (folders d)" using reachable_tree_inv [OF assms(1)] assms(2) by simp
  have "SoftDeleteSubtree flt now ws fid d = Some (None, d')" using assms(5) by (simp add: folder_Delete_def)
  then obtain f where f: "f \<in> set (folders d)" "live f" "f_ws f = ws" "f_id f = fid"
    and fl: "files d' = map (\<lambda>x. if fl_ws x = ws \<and> fl_folder x \<in> below_ids ws (folders d) fid \<and> file_live x
             then x\<lparr>fl_deleted_at := Some now, fl_updated_at := now\<rparr> else x) (files d)"
    by (rule SoftDeleteSubtree_ok [OF inv])
  have "acyclic (parents (folders d))" using inv by (simp add: tree_inv_def)
  then obtain sub where sub: "subtree_rows live ws fid (folders d) = Some sub"
    using subtree_rows_returns by blast
  have ids: "f_id ` set sub = f_id ` {r. ancestor_of (folders d) f r}"
    using subtree_live [OF inv f sub] by simp
  have iff: "fl_folder x \<in> f_id ` set sub \<longleftrightarrow> fl_folder x \<in> below_ids ws (folders d) fid"
    if x: "x \<in> set (files d)" "file_live x" "fl_ws x = ws" for x
  proof
    assume "fl_folder x \<in> f_id ` set sub"
    then show "fl_folder x \<in> below_ids ws (folders d) fid"
      unfolding ids using ancestor_below_ids f(3,4) by fastforce
  next
    assume b: "fl_folder x \<in> below_ids ws (folders d) fid"
    obtain g where g: "g \<in> set (folders d)" "live g" "f_ws g = ws" "f_id g = fl_folder x"
      using assms(4) [OF x] by blast
    have "f_id g \<in> below_ids (f_ws f) (folders d) (f_id f)" using b g(4) f(3,4) by simp
    then have "ancestor_of (folders d) f g" by (rule below_ids_visible [OF inv f(1,2) g(1,2)])
    then show "fl_folder x \<in> f_id ` set sub" unfolding ids using g(4) by (metis image_eqI mem_Collect_eq)
  qed
  let ?xs = "sort_key fl_id (filter (\<lambda>r. fl_ws r = ws \<and> fl_folder r \<in> f_id ` set sub \<and> file_live r) (files d))"
  have "ListFilesInFolderSubtree no_faults d ws fid = Some (Inr ?xs)"
    using sub by (simp add: ListFilesInFolderSubtree_def)
  moreover have "distinct ?xs" using assms(3) by simp
  moreover have "files d' = map (\<lambda>x. if x \<in> set ?xs then x\<lparr>fl_deleted_at := Some now, fl_updated_at := now\<rparr> else x) (files d)"
    unfolding fl using iff by (auto intro!: map_cong)
  ultimately show ?thesis by blast
qed

lemma fx_db_folders: "folders fx_db = folders ex_db"
  by code_simp

theorem subtree_listing_is_cascade_witness:
  "\<exists>d' xs. folder_Delete no_faults 50 7 1 fx_db = Some (None, d') \<and> map fl_deleted_at (files d') = [Some 50]
     \<and> ListFilesInFolderSubtree no_faults fx_db 7 1 = Some (Inr xs) \<and> map fl_id xs = [21] \<and> distinct xs"
proof -
  have "case folder_Delete no_faults 50 7 1 fx_db of Some (None, d') \<Rightarrow> map fl_deleted_at (files d') = [Some 50] | _ \<Rightarrow> False"
    by code_simp
  then obtain d' where d': "folder_Delete no_faults 50 7 1 fx_db = Some (None, d')" "map fl_deleted_at (files d') = [Some 50]"
    by (auto split: option.splits prod.splits)
  have list: "case ListFilesInFolderSubtree no_faults fx_db 7 1 of Some (Inr xs) \<Rightarrow> map fl_id xs = [21] | _ \<Rightarrow> False"
    by code_simp
  have dist: "distinct (files fx_db)" by code_simp
  have "list_all (\<lambda>x. \<exists>g \<in> set (folders fx_db). live g \<and> f_ws g = 7 \<and> f_id g = fl_folder x) (files fx_db)" by code_simp
  then have placed: "\<exists>g \<in> set (folders fx_db). live g \<and> f_ws g = 7 \<and> f_id g = fl_folder x"
    if "x \<in> set (files fx_db)" "file_live x" "fl_ws x = 7" for x using that by (simp add: list_all_iff)
  obtain xs where "ListFilesInFolderSubtree no_faults fx_db 7 1 = Some (Inr xs)" "distinct xs"
    using subtree_listing_is_cascade [OF ex_db_reachable fx_db_folders dist placed d'(1)] by blast
  with d' list show ?thesis by auto
qed

definition fx_moved :: db where
  "fx_moved = (case folder_Delete no_faults 42 7 2 ex_db of
     Some (_, d1) \<Rightarrow> snd (file_Move no_faults 44 7 21 2 (snd (file_Create no_faults 21 43 7 1 ''r'' [] 9 d1)))
   | None \<Rightarrow> ex_db)"

text \<open>The listing and the cascade of a recursive delete can disagree: the
  repository's move does not look at the target folder, so after folder 2 (below folder 1)
  is deleted, a file can be created in folder 1 and moved into folder 2; deleting folder 1
  then marks the file deleted, although the listing of folder 1's subtree does not have it.\<close>

theorem cascade_can_exceed_listing:
  "\<exists>d'. ListFilesInFolderSubtree no_faults fx_moved 7 1 = Some (Inr [])
     \<and> folder_Delete no_faults 50 7 1 fx_moved = Some (None, d')
     \<and> map fl_deleted_at (files fx_moved) = [None] \<and> map fl_deleted_at (files d') = [Some 50]"
proof -
  have "case folder_Delete no_faults 50 7 1 fx_moved of Some (None, d') \<Rightarrow> map fl_deleted_at (files d') = [Some 50] | _ \<Rightarrow> False"
    by code_simp
  then obtain d' where "folder_Delete no_faults 50 7 1 fx_moved = Some (None, d')" "map fl_deleted_at (files d') = [Some 50]"
    by (auto split: option.splits prod.splits)
  moreover have "ListFilesInFolderSubtree no_faults fx_moved 7 1 = Some (Inr [])"
    "map fl_deleted_at (files fx_moved) = [None]" by code_simp+
  ultimately show ?thesis by (intro exI [of _ d'] conjI)
qed

end
