(* ===== verification/Orphan_GC.thy ===== *)
theory Orphan_GC
  imports Files
begin

text \<open>
  Reclaiming uploads that were never confirmed (\<^verbatim>\<open>internal/gc/orphan.go\<close>).  The scan
  and the deletions are separate transactions, so confirms and other requests may land in
  between: the function \<open>env\<close> says what happens to the database before each iteration.
\<close>

definition DefaultPendingUploadTTL :: time where
  "DefaultPendingUploadTTL = 7 * 24 * 3600 * 1000000000"

definition DefaultPerWorkspaceLimit :: int where
  "DefaultPerWorkspaceLimit = 500"

record gc_result =
  gr_ws :: uuid
  gr_found :: nat
  gr_rows :: nat
  gr_objects :: nat

datatype gc_error = GCListOrphans file_error | GCDeleteRow file_error | GCCancelled | GCListWorkspaces

text \<open>A storage client answers whether the deletion of a key succeeds; \<^const>\<open>None\<close> is an
  unconfigured workspace.  The last component of the state lists the keys deleted so far.\<close>

type_synonym storage_deleter = "(string \<Rightarrow> bool) option"

fun gc_orphans ::
  "(nat \<Rightarrow> faults) \<Rightarrow> (nat \<Rightarrow> db \<Rightarrow> db) \<Rightarrow> (nat \<Rightarrow> bool) \<Rightarrow> storage_deleter \<Rightarrow> uuid \<Rightarrow> nat \<Rightarrow> pending_orphan list
     \<Rightarrow> gc_result \<Rightarrow> db \<Rightarrow> string list \<Rightarrow> (gc_error option \<times> gc_result) \<times> db \<times> string list" where
  "gc_orphans flt env cancelled deleter ws i [] res d del = ((None, res), d, del)"
| "gc_orphans flt env cancelled deleter ws i (o' # os) res d0 del =
     (let d = env i d0 in
      if cancelled i then ((Some GCCancelled, res), d, del)
      else case DeletePendingOrphan (flt i) ws (po_file o') d of
        (Some e, d') \<Rightarrow>
          if e = FileErrNotFound then gc_orphans flt env cancelled deleter ws (Suc i) os res d' del
          else ((Some (GCDeleteRow e), res), d', del)
      | (None, d') \<Rightarrow>
          (let res = res\<lparr>gr_rows := gr_rows res + 1\<rparr> in
           case deleter of
             None \<Rightarrow> gc_orphans flt env cancelled deleter ws (Suc i) os res d' del
           | Some delete_object \<Rightarrow>
               if delete_object (po_key o')
               then gc_orphans flt env cancelled deleter ws (Suc i) os
                      (res\<lparr>gr_objects := gr_objects res + 1\<rparr>) d' (del @ [po_key o'])
               else gc_orphans flt env cancelled deleter ws (Suc i) os res d' del))"

definition GCWorkspace ::
  "faults \<Rightarrow> (nat \<Rightarrow> faults) \<Rightarrow> (nat \<Rightarrow> db \<Rightarrow> db) \<Rightarrow> (nat \<Rightarrow> bool) \<Rightarrow> (uuid \<Rightarrow> storage_deleter) option \<Rightarrow> time \<Rightarrow> int \<Rightarrow> time \<Rightarrow> uuid
     \<Rightarrow> db \<Rightarrow> string list \<Rightarrow> (gc_error option \<times> gc_result) \<times> db \<times> string list" where
  "GCWorkspace flt flts env cancelled resolver ttl limit now ws d del =
     (let empty = \<lparr>gr_ws = ws, gr_found = 0, gr_rows = 0, gr_objects = 0\<rparr>;
          cutoff = now - ttl
      in case ListPendingUploadOrphans flt d ws cutoff limit of
           Inl e \<Rightarrow> ((Some (GCListOrphans e), empty), d, del)
         | Inr orphans \<Rightarrow>
             (let res = empty\<lparr>gr_found := length orphans\<rparr> in
              if orphans = [] then ((None, res), d, del)
              else gc_orphans flts env cancelled (case resolver of None \<Rightarrow> None | Some get \<Rightarrow> get ws)
                     ws 0 orphans res d del))"

record gc_summary =
  gs_workspaces :: nat
  gs_found :: nat
  gs_rows :: nat
  gs_objects :: nat
  gs_errors :: "(uuid \<times> gc_error) list"

text \<open>\<^verbatim>\<open>GCAll\<close>: one sick workspace does not end the run.  The counts of a workspace
  that fails half-way are not added to the summary.\<close>

fun gc_workspaces ::
  "(nat \<Rightarrow> faults) \<Rightarrow> (nat \<Rightarrow> nat \<Rightarrow> faults) \<Rightarrow> (nat \<Rightarrow> nat \<Rightarrow> db \<Rightarrow> db) \<Rightarrow> (nat \<Rightarrow> bool) \<Rightarrow> (nat \<Rightarrow> nat \<Rightarrow> bool)
     \<Rightarrow> (uuid \<Rightarrow> storage_deleter) option \<Rightarrow> time \<Rightarrow> int \<Rightarrow> (nat \<Rightarrow> time) \<Rightarrow> nat
     \<Rightarrow> uuid list \<Rightarrow> gc_summary \<Rightarrow> db \<Rightarrow> string list \<Rightarrow> (gc_error option \<times> gc_summary) \<times> db \<times> string list" where
  "gc_workspaces flt flts env stop cancelled resolver ttl limit now k [] sm d del = ((None, sm), d, del)"
| "gc_workspaces flt flts env stop cancelled resolver ttl limit now k (ws # ids) sm d del =
     (if stop k then ((Some GCCancelled, sm), d, del)
      else case GCWorkspace (flt k) (flts k) (env k) (cancelled k) resolver ttl limit (now k) ws d del of
        ((Some e, res), d', del') \<Rightarrow>
          gc_workspaces flt flts env stop cancelled resolver ttl limit now (Suc k) ids
            (sm\<lparr>gs_errors := gs_errors sm @ [(ws, e)]\<rparr>) d' del'
      | ((None, res), d', del') \<Rightarrow>
          gc_workspaces flt flts env stop cancelled resolver ttl limit now (Suc k) ids
            (sm\<lparr>gs_found := gs_found sm + gr_found res, gs_rows := gs_rows sm + gr_rows res,
                 gs_objects := gs_objects sm + gr_objects res\<rparr>) d' del')"

definition GCAll ::
  "faults \<Rightarrow> (nat \<Rightarrow> faults) \<Rightarrow> (nat \<Rightarrow> nat \<Rightarrow> faults) \<Rightarrow> (nat \<Rightarrow> nat \<Rightarrow> db \<Rightarrow> db) \<Rightarrow> (nat \<Rightarrow> bool) \<Rightarrow> (nat \<Rightarrow> nat \<Rightarrow> bool)
     \<Rightarrow> (uuid \<Rightarrow> storage_deleter) option \<Rightarrow> time \<Rightarrow> int \<Rightarrow> (nat \<Rightarrow> time)
     \<Rightarrow> uuid list \<Rightarrow> db \<Rightarrow> string list \<Rightarrow> (gc_error option \<times> gc_summary) \<times> db \<times> string list" where
  "GCAll flt0 flt flts env stop cancelled resolver ttl limit now ids d del =
     (let sm = \<lparr>gs_workspaces = length ids, gs_found = 0, gs_rows = 0, gs_objects = 0, gs_errors = []\<rparr> in
      if flt0 ''list workspaces''
      then ((Some GCListWorkspaces, sm\<lparr>gs_workspaces := 0\<rparr>), d, del)
      else gc_workspaces flt flts env stop cancelled resolver ttl limit now 0 ids sm d del)"

section \<open>Confirmed uploads are safe\<close>

definition confirmed :: "uuid \<Rightarrow> db \<Rightarrow> bool" where
  "confirmed fid d \<longleftrightarrow> distinct (map fl_id (files d)) \<and> (\<exists>r \<in> set (files d). fl_id r = fid \<and> fl_current r \<noteq> None)"

lemma confirmed_not_orphan: "confirmed fid d \<Longrightarrow> r \<in> set (files d) \<Longrightarrow> fl_id r = fid \<Longrightarrow> \<not> is_orphan ws r"
  using distinct_map_inj [of fl_id "files d"] by (fastforce simp: confirmed_def is_orphan_def)

lemma DeletePendingOrphan_confirmed:
  assumes "DeletePendingOrphan flt ws x d = (e, d')" "confirmed fid d"
  shows "confirmed fid d'" "x = fid \<Longrightarrow> e \<noteq> None"
proof -
  note no = confirmed_not_orphan [OF assms(2), of _ ws]
  obtain r where r: "r \<in> set (files d)" "fl_id r = fid" "fl_current r \<noteq> None"
    using assms(2) by (auto simp: confirmed_def)
  have "distinct (map fl_id (files d'))"
    using assms by (auto simp: DeletePendingOrphan_def Let_def confirmed_def delete_rows_def distinct_map_filter
        split: if_splits)
  moreover have "r \<in> set (files d')"
    using assms(1) r no by (auto simp: DeletePendingOrphan_def Let_def delete_rows_def split: if_splits)
  ultimately show "confirmed fid d'" using r(2,3) by (auto simp: confirmed_def)
  show "x = fid \<Longrightarrow> e \<noteq> None"
    using assms(1) no by (auto simp: DeletePendingOrphan_def Let_def split: if_splits)
qed

text \<open>One iteration: what it deletes and how it goes on.\<close>

definition gc_progress :: "gc_result \<Rightarrow> string list \<Rightarrow> gc_result \<Rightarrow> bool" where
  "gc_progress res ks res' \<longleftrightarrow> gr_found res' = gr_found res \<and> gr_rows res' \<le> gr_rows res + 1
     \<and> gr_objects res' = gr_objects res + length ks \<and> gr_rows res + length ks \<le> gr_rows res'"

lemma gc_orphans_step:
  assumes "gc_orphans flt env cancelled deleter ws i (x # os) res d del = (out, d', del')"
  obtains (stop) "del' = del" "snd out = res" "fst out \<noteq> None"
      "d' = env i d \<or> (\<exists>e. DeletePendingOrphan (flt i) ws (po_file x) (env i d) = (e, d'))"
  | (next_one) e d1 ks res' where "DeletePendingOrphan (flt i) ws (po_file x) (env i d) = (e, d1)"
      "gc_orphans flt env cancelled deleter ws (Suc i) os res' d1 (del @ ks) = (out, d', del')"
      "set ks \<subseteq> {po_key x}" "e \<noteq> None \<Longrightarrow> ks = []" "gc_progress res ks res'"
proof -
  obtain e d1 where del1: "DeletePendingOrphan (flt i) ws (po_file x) (env i d) = (e, d1)" by fastforce
  show thesis
  proof (cases "cancelled i \<or> (e \<noteq> None \<and> e \<noteq> Some FileErrNotFound)")
    case True
    with assms del1 stop show thesis by (auto simp: Let_def split: if_splits)
  next
    case go: False
    show thesis
    proof (cases e)
      case (Some e')
      with assms del1 go show thesis
        by (intro next_one [of e d1 res "[]"]) (auto simp: Let_def gc_progress_def)
    next
      case None
      let ?res = "res\<lparr>gr_rows := gr_rows res + 1\<rparr>"
      show thesis
      proof (cases "case deleter of None \<Rightarrow> False | Some f \<Rightarrow> f (po_key x)")
        case True
        with assms del1 go None show thesis
          by (intro next_one [of e d1 "?res\<lparr>gr_objects := gr_objects res + 1\<rparr>" "[po_key x]"])
             (auto simp: Let_def gc_progress_def split: option.splits)
      next
        case False
        with assms del1 go None show thesis
          by (intro next_one [of e d1 ?res "[]"]) (auto simp: Let_def gc_progress_def split: option.splits)
      qed
    qed
  qed
qed

text \<open>Once the upload is confirmed, the loop deletes keys of other orphans only.\<close>

lemma gc_orphans_confirmed:
  assumes keep: "\<And>i d. confirmed fid d \<Longrightarrow> confirmed fid (env i d)"
    and "os \<noteq> [] \<Longrightarrow> confirmed fid (env i d)"
    and "gc_orphans flt env cancelled deleter ws i os res d del = (out, d', del')"
  shows "(os \<noteq> [] \<longrightarrow> confirmed fid d') \<and> set del' \<subseteq> set del \<union> po_key ` {x \<in> set os. po_file x \<noteq> fid}"
  using assms(2,3)
proof (induction os arbitrary: i res d del)
  case Nil
  then show ?case by simp
next
  case (Cons x os)
  have c0: "confirmed fid (env i d)" using Cons.prems(1) by simp
  from Cons.prems(2) show ?case
  proof (cases rule: gc_orphans_step)
    case stop
    with c0 DeletePendingOrphan_confirmed(1) [OF _ c0] show ?thesis by auto
  next
    case (next_one e d1 ks res')
    note c = DeletePendingOrphan_confirmed [OF next_one(1) c0]
    have "(os \<noteq> [] \<longrightarrow> confirmed fid d') \<and> set del' \<subseteq> set (del @ ks) \<union> po_key ` {x \<in> set os. po_file x \<noteq> fid}"
      by (rule Cons.IH [OF _ next_one(2)]) (rule keep [OF c(1)])
    moreover have "os = [] \<Longrightarrow> d' = d1" using next_one(2) by simp
    moreover have "po_file x = fid \<Longrightarrow> ks = []" using c(2) next_one(4) by blast
    ultimately show ?thesis using c(1) next_one(3) by (cases "os = []"; cases "ks = []") auto
  qed
qed

text \<open>A confirm that lands before the turn of its file.\<close>

lemma gc_orphans_confirm_lands:
  assumes keep: "\<And>i d. confirmed fid d \<Longrightarrow> confirmed fid (env i d)"
    and "\<And>d. confirmed fid (env (i + length xs) d)" "ys \<noteq> []"
    and "gc_orphans flt env cancelled deleter ws i (xs @ ys) res d del = (out, d', del')"
    and "fid \<notin> po_file ` set xs"
  shows "set del' \<subseteq> set del \<union> po_key ` {x \<in> set (xs @ ys). po_file x \<noteq> fid}
    \<and> (fst out = None \<longrightarrow> confirmed fid d')"
  using assms(2,4,5)
proof (induction xs arbitrary: i res d del)
  case Nil
  have run: "gc_orphans flt env cancelled deleter ws i ys res d del = (out, d', del')"
    using Nil(2) by simp
  have "(ys \<noteq> [] \<longrightarrow> confirmed fid d')
      \<and> set del' \<subseteq> set del \<union> po_key ` {x \<in> set ys. po_file x \<noteq> fid}"
  proof (rule gc_orphans_confirmed [OF _ _ run])
    show "confirmed fid (env j c)" if "confirmed fid c" for j c using that by (rule keep)
    show "confirmed fid (env i d)" using Nil(1) [of d] by simp
  qed
  then show ?case using assms(3) by simp
next
  case (Cons x xs)
  have xs: "gc_orphans flt env cancelled deleter ws i (x # (xs @ ys)) res d del = (out, d', del')"
    using Cons.prems(2) by simp
  then show ?case
  proof (cases rule: gc_orphans_step)
    case (next_one e d1 ks res')
    have "set del' \<subseteq> set (del @ ks) \<union> po_key ` {x \<in> set (xs @ ys). po_file x \<noteq> fid}
      \<and> (fst out = None \<longrightarrow> confirmed fid d')"
      by (rule Cons.IH [OF _ next_one(2)]) (use Cons.prems in auto)
    moreover have "set ks \<subseteq> po_key ` {y \<in> set (x # xs @ ys). po_file y \<noteq> fid}"
      using next_one(3) Cons.prems(3) by auto
    moreover have "po_key ` {y \<in> set (xs @ ys). po_file y \<noteq> fid} \<subseteq> po_key ` {y \<in> set (x # xs @ ys). po_file y \<noteq> fid}"
      by auto
    ultimately show ?thesis unfolding append_Cons set_append by blast
  qed auto
qed

lemma gc_orphans_counts:
  assumes "gc_orphans flt env cancelled deleter ws i os res d del = ((err, res'), d', del')"
    and "gr_objects res \<le> gr_rows res"
  shows "gr_objects res' \<le> gr_rows res' \<and> gr_rows res' \<le> gr_rows res + length os
    \<and> gr_found res' = gr_found res \<and> length del' = length del + (gr_objects res' - gr_objects res)
    \<and> gr_objects res \<le> gr_objects res'"
  using assms
proof (induction os arbitrary: i res d del)
  case (Cons x os)
  from Cons.prems(1) show ?case
  proof (cases rule: gc_orphans_step)
    case stop
    with Cons.prems(2) show ?thesis by simp
  next
    case (next_one e d1 ks res1)
    have "gr_objects res1 \<le> gr_rows res1" using next_one(5) Cons.prems(2) by (simp add: gc_progress_def)
    from Cons.IH [OF next_one(2) this] next_one(5) show ?thesis by (simp add: gc_progress_def)
  qed
qed auto

section \<open>Properties\<close>

text \<open>C12 (safety).  Whatever other requests do between the scan and the deletions: if the
  upload of a scanned file is confirmed at any time before the collector reaches the file
  (and stays confirmed), then, the keys of the scanned files being different, its storage
  object is not deleted; and a run that completes leaves its row in place, confirmed.\<close>

theorem confirmed_upload_survives_gc:
  assumes "ListPendingUploadOrphans flt d ws (now - ttl) limit = Inr os" "x \<in> set os"
    and "inj_on po_key (set os)" "distinct (map po_file os)"
    and "os = xs @ ys" "x \<in> set ys"
    and "\<And>d. confirmed (po_file x) (env (length xs) d)"
    and "\<And>i d. confirmed (po_file x) d \<Longrightarrow> confirmed (po_file x) (env i d)"
    and "GCWorkspace flt flts env cancelled resolver ttl limit now ws d del = (out, d', del')" "po_key x \<notin> set del"
  shows "po_key x \<notin> set del' \<and> (fst out = None \<longrightarrow> confirmed (po_file x) d')"
proof -
  have ne: "os \<noteq> []" using assms(2) by auto
  with assms(1,9) obtain res deleter where
    run: "gc_orphans flts env cancelled deleter ws 0 (xs @ ys) res d del = (out, d', del')"
    by (auto simp: GCWorkspace_def Let_def assms(5))
  have "po_file x \<notin> po_file ` set xs"
    using assms(4,5,6) by auto
  moreover have "ys \<noteq> []" using assms(6) by auto
  ultimately have "set del' \<subseteq> set del \<union> po_key ` {y \<in> set (xs @ ys). po_file y \<noteq> po_file x}
      \<and> (fst out = None \<longrightarrow> confirmed (po_file x) d')"
    using gc_orphans_confirm_lands [OF assms(8) _ _ run] assms(7) by simp
  moreover have "po_key x \<notin> po_key ` {y \<in> set os. po_file y \<noteq> po_file x}"
    using assms(2,3) by (auto dest: inj_onD)
  ultimately show ?thesis using assms(5,10) by auto
qed

text \<open>Two pending uploads of workspace 7; the first is confirmed just before its turn.\<close>

definition gc_file :: "uuid \<Rightarrow> string \<Rightarrow> string \<Rightarrow> file_row" where
  "gc_file i n k = (new_file_row 7 1 n [] 9)\<lparr>fl_id := i, fl_pending := Some k, fl_created_at := int i\<rparr>"

definition gc_db :: db where
  "gc_db = empty_db\<lparr>files := [gc_file 21 ''x'' ''k21'', gc_file 22 ''y'' ''k22'']\<rparr>"

definition gc_version :: file_version where
  "gc_version = \<lparr>v_id = 31, v_file = 21, v_number = 0, v_key = ''k21'', v_size = 5, v_checksum = [], v_created_by = 9,
     v_created_at = 0, v_scan_status = [], v_scan_detail = [], v_scanned_at = None\<rparr>"

definition gc_confirmed_db :: db where
  "gc_confirmed_db = snd (ConfirmVersion no_faults 0 50 7 gc_version gc_db)"

definition gc_env :: "nat \<Rightarrow> db \<Rightarrow> db" where
  "gc_env i d = (if i = 0 then gc_confirmed_db else d)"

theorem confirmed_upload_survives_gc_witness:
  "(\<exists>os. ListPendingUploadOrphans no_faults gc_db 7 100 500 = Inr os \<and> map po_key os = [''k21'', ''k22''])
   \<and> (case GCWorkspace no_faults (\<lambda>_. no_faults) gc_env (\<lambda>_. False) (Some (\<lambda>_. Some (\<lambda>_. True))) 900 500 1000 7 gc_db [] of
        (out, d', del') \<Rightarrow> del' = [''k22''] \<and> ''k21'' \<notin> set del' \<and> map fl_id (files d') = [21])"
proof -
  let ?a = "\<lparr>po_file = 21, po_key = ''k21'', po_created_at = 21\<rparr>" and ?b = "\<lparr>po_file = 22, po_key = ''k22'', po_created_at = 22\<rparr>"
  have os: "ListPendingUploadOrphans no_faults gc_db 7 (1000 - 900) 500 = Inr [?a, ?b]" by code_simp
  have run: "case GCWorkspace no_faults (\<lambda>_. no_faults) gc_env (\<lambda>_. False) (Some (\<lambda>_. Some (\<lambda>_. True))) 900 500 1000 7 gc_db [] of
        (out, d', del') \<Rightarrow> del' = [''k22''] \<and> map fl_id (files d') = [21]" by code_simp
  obtain out d' del' where gc: "GCWorkspace no_faults (\<lambda>_. no_faults) gc_env (\<lambda>_. False) (Some (\<lambda>_. Some (\<lambda>_. True))) 900 500 1000 7 gc_db []
      = (out, d', del')" using prod_cases3 by blast
  have conf: "confirmed 21 gc_confirmed_db" by code_simp
  have "''k21'' \<notin> set del'"
    using confirmed_upload_survives_gc [OF os _ _ _ _ _ _ _ gc, of ?a "[]" "[?a, ?b]"] conf
    by (simp add: gc_env_def)
  with os run gc show ?thesis by simp
qed

text \<open>A run for a workspace reports as found the scanned orphans, at most the
  limit; it removes at most that many rows and deletes at most as many objects as rows; the
  count of deleted objects is exactly the number of keys deleted from storage; every scanned
  row is an unconfirmed upload older than the time to live.\<close>

theorem gc_counts_bounded:
  assumes "GCWorkspace flt flts env cancelled resolver ttl limit now ws d del = ((err, res), d', del')" "0 < limit"
  shows "gr_objects res \<le> gr_rows res \<and> gr_rows res \<le> gr_found res \<and> int (gr_found res) \<le> limit
    \<and> length del' = length del + gr_objects res
    \<and> (\<forall>os. ListPendingUploadOrphans flt d ws (now - ttl) limit = Inr os \<longrightarrow> gr_found res = length os
        \<and> (\<forall>x \<in> set os. \<exists>r \<in> set (files d). fl_id r = po_file x \<and> fl_pending r = Some (po_key x)
             \<and> fl_current r = None \<and> file_live r \<and> fl_ws r = ws \<and> fl_created_at r < now - ttl))"
proof (cases "ListPendingUploadOrphans flt d ws (now - ttl) limit")
  case (Inl e)
  with assms show ?thesis by (auto simp: GCWorkspace_def Let_def)
next
  case (Inr os)
  have rows: "\<exists>r \<in> set (files d). fl_id r = po_file x \<and> fl_pending r = Some (po_key x)
      \<and> fl_current r = None \<and> file_live r \<and> fl_ws r = ws \<and> fl_created_at r < now - ttl" if "x \<in> set os" for x
  proof -
    from that Inr obtain r where "r \<in> set (files d)" "is_orphan ws r" "fl_created_at r < now - ttl"
      "x = \<lparr>po_file = fl_id r, po_key = the (fl_pending r), po_created_at = fl_created_at r\<rparr>"
      by (auto simp: ListPendingUploadOrphans_def Let_def split: if_splits dest!: in_set_takeD)
    then show ?thesis by (intro bexI [of _ r]) (auto simp: is_orphan_def)
  qed
  have len: "int (length os) \<le> limit"
    using Inr assms(2) by (auto simp: ListPendingUploadOrphans_def Let_def split: if_splits)
  let ?res = "\<lparr>gr_ws = ws, gr_found = length os, gr_rows = 0, gr_objects = 0\<rparr>"
  have "gr_objects res \<le> gr_rows res \<and> gr_rows res \<le> length os \<and> gr_found res = length os
      \<and> length del' = length del + gr_objects res"
  proof (cases "os = []")
    case True
    with Inr assms(1) show ?thesis by (auto simp: GCWorkspace_def Let_def)
  next
    case False
    with Inr assms(1) obtain deleter where
      "gc_orphans flts env cancelled deleter ws 0 os ?res d del = ((err, res), d', del')"
      by (auto simp: GCWorkspace_def Let_def)
    from gc_orphans_counts [OF this] show ?thesis by simp
  qed
  with Inr rows len show ?thesis by auto
qed

theorem gc_counts_bounded_witness:
  "case GCWorkspace no_faults (\<lambda>_. no_faults) gc_env (\<lambda>_. False) None 900 500 1000 7 gc_db [] of
     ((err, res), d', del') \<Rightarrow> gr_found res = 2 \<and> gr_rows res = 1 \<and> gr_objects res = 0 \<and> int (gr_found res) \<le> 500"
proof -
  obtain err res d' del' where gc: "GCWorkspace no_faults (\<lambda>_. no_faults) gc_env (\<lambda>_. False) None 900 500 1000 7 gc_db [] = ((err, res), d', del')"
    by (metis prod.collapse)
  have run: "case GCWorkspace no_faults (\<lambda>_. no_faults) gc_env (\<lambda>_. False) None 900 500 1000 7 gc_db [] of
     ((err, res), d', del') \<Rightarrow> gr_found res = 2 \<and> gr_rows res = 1 \<and> gr_objects res = 0" by code_simp
  with gc gc_counts_bounded [OF gc] show ?thesis by simp
qed

end
