(* ===== verification/Sharing.thy ===== *)
theory Sharing
  imports Permissions
begin

text \<open>
  Share links, guest invites and client rooms (\<^verbatim>\<open>internal/sharing\<close>: models.go,
  repository.go, service.go, client_room.go, client_room_repository.go, templates.go).
  Hashing and comparing passwords (bcrypt), random bytes, address syntax and name-based
  identifiers come from outside and are parameters.
\<close>

datatype share_error =
    ShareErrNotFound
  | ShareErrInvalidResourceType
  | ShareErrInvalidRole
  | ShareErrInvalidEmail
  | ShareErrLinkExpired
  | ShareErrLinkExhausted
  | ShareErrPasswordRequired
  | ShareErrPasswordIncorrect
  | ShareErrInviteExpired
  | ShareErrInviteAlreadyUsed
  | ShareErrMaxDownloads
  | ShareErrNoGranter
  | ShareErrHash
  | ShareErrInvalidRoomName
  | ShareErrUnknownTemplate
  | ShareErrPermission perm_error
  | ShareErrFolder folder_error
  | ShareErrDB string

section \<open>The link (models.go)\<close>

definition RequiresPassword :: "share_link \<Rightarrow> bool" where
  "RequiresPassword s = (case sl_pwhash s of None \<Rightarrow> False | Some h \<Rightarrow> h \<noteq> [])"

definition IsExpired :: "share_link \<Rightarrow> time \<Rightarrow> bool" where
  "IsExpired s now = (case sl_expires_at s of None \<Rightarrow> False | Some t \<Rightarrow> \<not> t > now)"

definition IsExhausted :: "share_link \<Rightarrow> bool" where
  "IsExhausted s = (case sl_max s of None \<Rightarrow> False | Some m \<Rightarrow> sl_count s \<ge> m)"

definition IsValidResourceType :: "string \<Rightarrow> bool" where
  "IsValidResourceType t = (t = ResourceFolder \<or> t = ResourceFile)"

definition sharing_isValidRole :: "string \<Rightarrow> bool" where
  "sharing_isValidRole role = (role = ''viewer'' \<or> role = ''editor'' \<or> role = ''admin'')"

section \<open>Repository: share links\<close>

definition int32_max :: int where "int32_max = 2147483647"

definition repo_CreateShareLink ::
  "faults \<Rightarrow> uuid \<Rightarrow> time \<Rightarrow> share_link \<Rightarrow> db \<Rightarrow> (share_error + share_link) \<times> db" where
  "repo_CreateShareLink flt new now link d =
     (let link = (if sl_id link = uuid_Nil then link\<lparr>sl_id := new\<rparr> else link);
          link = link\<lparr>sl_count := 0, sl_created_at := now\<rparr>
      in if flt ''insert share link'' \<or> sl_id link \<in> sl_id ` set (share_links d)
            \<or> sl_token link \<in> sl_token ` set (share_links d)
            \<or> sl_rtype link \<notin> {''folder'', ''file''}
            \<or> (case sl_max link of None \<Rightarrow> False | Some m \<Rightarrow> \<not> (0 < m \<and> m \<le> int32_max))
         then (Inl (ShareErrDB ''insert share link''), d)
         else (Inr link, d\<lparr>share_links := share_links d @ [link]\<rparr>))"

definition GetShareLinkByToken :: "faults \<Rightarrow> db \<Rightarrow> string \<Rightarrow> share_error + share_link" where
  "GetShareLinkByToken flt d token =
     (if flt ''get share link'' then Inl (ShareErrDB ''get share link'')
      else case find (\<lambda>l. sl_token l = token) (share_links d) of
             None \<Rightarrow> Inl ShareErrNotFound | Some l \<Rightarrow> Inr l)"

definition GetShareLinkByID :: "faults \<Rightarrow> db \<Rightarrow> uuid \<Rightarrow> uuid \<Rightarrow> share_error + share_link" where
  "GetShareLinkByID flt d ws i =
     (if flt ''get share link'' then Inl (ShareErrDB ''get share link'')
      else case find (\<lambda>l. sl_ws l = ws \<and> sl_id l = i) (share_links d) of
             None \<Rightarrow> Inl ShareErrNotFound | Some l \<Rightarrow> Inr l)"

text \<open>A client room refers to its link, which forbids deleting the link first.\<close>

definition DeleteShareLink :: "faults \<Rightarrow> uuid \<Rightarrow> uuid \<Rightarrow> db \<Rightarrow> share_error option \<times> db" where
  "DeleteShareLink flt ws i d =
     (let hit = (\<lambda>l. sl_ws l = ws \<and> sl_id l = i) in
      if flt ''delete share link''
         \<or> ((\<exists>l \<in> set (share_links d). hit l) \<and> i \<in> cr_link ` set (client_rooms d))
      then (Some (ShareErrDB ''delete share link''), d)
      else if rows_affected hit (share_links d) = 0 then (Some ShareErrNotFound, d)
      else (None, d\<lparr>share_links := delete_rows hit (share_links d)\<rparr>))"

definition may_increment :: "uuid \<Rightarrow> share_link \<Rightarrow> bool" where
  "may_increment i l = (sl_id l = i \<and> (case sl_max l of None \<Rightarrow> True | Some m \<Rightarrow> sl_count l < m))"

definition IncrementDownloadCount :: "faults \<Rightarrow> uuid \<Rightarrow> db \<Rightarrow> share_error option \<times> db" where
  "IncrementDownloadCount flt i d =
     (if flt ''increment download count''
         \<or> (\<exists>l \<in> set (share_links d). may_increment i l \<and> sl_count l \<ge> int32_max)
      then (Some (ShareErrDB ''increment download count''), d)
      else if rows_affected (may_increment i) (share_links d) > 0
           then (None, d\<lparr>share_links :=
                  update_rows (may_increment i) (\<lambda>l. l\<lparr>sl_count := sl_count l + 1\<rparr>) (share_links d)\<rparr>)
      else if flt ''disambiguate increment failure''
           then (Some (ShareErrDB ''disambiguate increment failure''), d)
      else if \<not> (\<exists>l \<in> set (share_links d). sl_id l = i) then (Some ShareErrNotFound, d)
      else (Some ShareErrLinkExhausted, d))"

section \<open>Repository: guest invites\<close>

definition repo_CreateGuestInvite ::
  "faults \<Rightarrow> uuid \<Rightarrow> time \<Rightarrow> guest_invite \<Rightarrow> db \<Rightarrow> (share_error + guest_invite) \<times> db" where
  "repo_CreateGuestInvite flt new now invite d =
     (let invite = (if gi_id invite = uuid_Nil then invite\<lparr>gi_id := new\<rparr> else invite);
          invite = invite\<lparr>gi_accepted_at := None, gi_created_at := now\<rparr>
      in if flt ''insert guest invite'' \<or> gi_id invite \<in> gi_id ` set (guest_invites d)
            \<or> gi_role invite \<notin> {''viewer'', ''editor'', ''admin''}
            \<or> gi_folder invite \<notin> f_id ` set (folders d)
            \<or> gi_perm invite \<notin> p_id ` set (permissions d)
         then (Inl (ShareErrDB ''insert guest invite''), d)
         else (Inr invite, d\<lparr>guest_invites := guest_invites d @ [invite]\<rparr>))"

definition GetGuestInviteByID :: "faults \<Rightarrow> db \<Rightarrow> uuid \<Rightarrow> uuid \<Rightarrow> share_error + guest_invite" where
  "GetGuestInviteByID flt d ws i =
     (if flt ''get guest invite'' then Inl (ShareErrDB ''get guest invite'')
      else case find (\<lambda>g. gi_ws g = ws \<and> gi_id g = i) (guest_invites d) of
             None \<Rightarrow> Inl ShareErrNotFound | Some g \<Rightarrow> Inr g)"

definition GetGuestInviteByIDAnyWorkspace :: "faults \<Rightarrow> db \<Rightarrow> uuid \<Rightarrow> share_error + guest_invite" where
  "GetGuestInviteByIDAnyWorkspace flt d i =
     (if flt ''get guest invite'' then Inl (ShareErrDB ''get guest invite'')
      else case find (\<lambda>g. gi_id g = i) (guest_invites d) of
             None \<Rightarrow> Inl ShareErrNotFound | Some g \<Rightarrow> Inr g)"

definition ListGuestInvitesByFolder :: "faults \<Rightarrow> db \<Rightarrow> uuid \<Rightarrow> uuid \<Rightarrow> share_error + guest_invite list" where
  "ListGuestInvitesByFolder flt d ws folderID =
     (if flt ''list guest invites'' then Inl (ShareErrDB ''list guest invites'')
      else Inr (sort_key (\<lambda>g. - gi_created_at g)
             (filter (\<lambda>g. gi_ws g = ws \<and> gi_folder g = folderID) (guest_invites d))))"

definition repo_AcceptGuestInvite :: "faults \<Rightarrow> uuid \<Rightarrow> uuid \<Rightarrow> time \<Rightarrow> db \<Rightarrow> share_error option \<times> db" where
  "repo_AcceptGuestInvite flt ws i acceptedAt d =
     (let hit = (\<lambda>g. gi_ws g = ws \<and> gi_id g = i \<and> gi_accepted_at g = None) in
      if flt ''accept guest invite'' then (Some (ShareErrDB ''accept guest invite''), d)
      else if rows_affected hit (guest_invites d) = 0 then (Some ShareErrNotFound, d)
      else (None, d\<lparr>guest_invites :=
              update_rows hit (\<lambda>g. g\<lparr>gi_accepted_at := Some acceptedAt\<rparr>) (guest_invites d)\<rparr>))"

definition DeleteGuestInvite :: "faults \<Rightarrow> uuid \<Rightarrow> uuid \<Rightarrow> db \<Rightarrow> share_error option \<times> db" where
  "DeleteGuestInvite flt ws i d =
     (let hit = (\<lambda>g. gi_ws g = ws \<and> gi_id g = i) in
      if flt ''delete guest invite'' then (Some (ShareErrDB ''delete guest invite''), d)
      else if rows_affected hit (guest_invites d) = 0 then (Some ShareErrNotFound, d)
      else (None, d\<lparr>guest_invites := delete_rows hit (guest_invites d)\<rparr>))"

definition expired_guest :: "time \<Rightarrow> permission \<Rightarrow> bool" where
  "expired_guest now p = (p_gtype p = ''guest'' \<and> (case p_expires_at p of None \<Rightarrow> False | Some t \<Rightarrow> t < now))"

definition ExpireGuestPermissions :: "faults \<Rightarrow> time \<Rightarrow> db \<Rightarrow> (share_error + nat) \<times> db" where
  "ExpireGuestPermissions flt now d =
     (if flt ''expire guests: begin'' then (Inl (ShareErrDB ''expire guests: begin''), d)
      else if flt ''expire guests: delete invites'' then (Inl (ShareErrDB ''expire guests: delete invites''), d)
      else
        (let gone = p_id ` set (filter (expired_guest now) (permissions d));
             invites = delete_rows (\<lambda>g. gi_perm g \<in> gone) (guest_invites d)
         in if flt ''expire guests: delete perms'' then (Inl (ShareErrDB ''expire guests: delete perms''), d)
            else if flt ''expire guests: commit'' then (Inl (ShareErrDB ''expire guests: commit''), d)
            else (Inr (rows_affected (expired_guest now) (permissions d)),
                  d\<lparr>guest_invites := invites,
                    permissions := delete_rows (expired_guest now) (permissions d)\<rparr>)))"

section \<open>The service: share links\<close>

text \<open>\<^verbatim>\<open>base64.RawURLEncoding\<close> over random bytes, six bits at a time.\<close>

definition url_alphabet :: string where
  "url_alphabet = ''ABCDEFGHIJKLMNOPQRSTUVWXYZabcdefghijklmnopqrstuvwxyz0123456789-_''"

fun RawURLEncode :: "nat list \<Rightarrow> string" where
  "RawURLEncode (a # b # c # rest) =
     [url_alphabet ! (a div 4), url_alphabet ! (a mod 4 * 16 + b div 16),
      url_alphabet ! (b mod 16 * 4 + c div 64), url_alphabet ! (c mod 64)] @ RawURLEncode rest"
| "RawURLEncode [a, b] =
     [url_alphabet ! (a div 4), url_alphabet ! (a mod 4 * 16 + b div 16), url_alphabet ! (b mod 16 * 4)]"
| "RawURLEncode [a] = [url_alphabet ! (a div 4), url_alphabet ! (a mod 4 * 16)]"
| "RawURLEncode [] = []"

definition tokenBytes :: nat where "tokenBytes = 32"

definition generateToken :: "faults \<Rightarrow> (nat \<Rightarrow> nat) \<Rightarrow> share_error + string" where
  "generateToken flt random =
     (if flt ''generate token'' then Inl (ShareErrDB ''generate token'')
      else Inr (RawURLEncode (map (\<lambda>i. random i mod 256) [0..<tokenBytes])))"

definition CreateShareLink ::
  "(string \<Rightarrow> string option) \<Rightarrow> (nat \<Rightarrow> nat) \<Rightarrow> faults \<Rightarrow> uuid \<Rightarrow> time \<Rightarrow> uuid \<Rightarrow> string \<Rightarrow> uuid \<Rightarrow> string
     \<Rightarrow> time option \<Rightarrow> int option \<Rightarrow> uuid \<Rightarrow> db \<Rightarrow> (share_error + share_link) \<times> db" where
  "CreateShareLink HashPassword random flt new now ws rtype rid password expiresAt maxDownloads createdBy d =
     (if \<not> IsValidResourceType rtype then (Inl ShareErrInvalidResourceType, d)
      else if (case maxDownloads of None \<Rightarrow> False | Some m \<Rightarrow> m \<le> 0) then (Inl ShareErrMaxDownloads, d)
      else case generateToken flt random of
        Inl e \<Rightarrow> (Inl e, d)
      | Inr token \<Rightarrow>
          (let link = \<lparr>sl_id = uuid_Nil, sl_ws = ws, sl_rtype = rtype, sl_rid = rid, sl_token = token,
                       sl_pwhash = None, sl_expires_at = expiresAt, sl_max = maxDownloads, sl_count = 0,
                       sl_created_by = createdBy, sl_created_at = 0\<rparr>
           in if password \<noteq> [] then
                (case HashPassword password of
                   None \<Rightarrow> (Inl ShareErrHash, d)
                 | Some h \<Rightarrow> repo_CreateShareLink flt new now (link\<lparr>sl_pwhash := Some h\<rparr>) d)
              else repo_CreateShareLink flt new now link d))"

text \<open>\<^verbatim>\<open>ResolveShareLink\<close> after the lookup; the lookup and the increment are
  separate statements, between which other requests may run.\<close>

definition resolve_link ::
  "(string \<Rightarrow> string \<Rightarrow> bool) \<Rightarrow> faults \<Rightarrow> time \<Rightarrow> string \<Rightarrow> share_link \<Rightarrow> db \<Rightarrow> (share_error + share_link) \<times> db" where
  "resolve_link compare flt now password link d =
     (if IsExpired link now then (Inl ShareErrLinkExpired, d)
      else if RequiresPassword link \<and> password = [] then (Inl ShareErrPasswordRequired, d)
      else if RequiresPassword link \<and> \<not> compare (the (sl_pwhash link)) password
           then (Inl ShareErrPasswordIncorrect, d)
      else case IncrementDownloadCount flt (sl_id link) d of
        (Some e, d') \<Rightarrow> (Inl e, d')
      | (None, d') \<Rightarrow> (Inr (link\<lparr>sl_count := sl_count link + 1\<rparr>), d'))"

definition ResolveShareLink ::
  "(string \<Rightarrow> string \<Rightarrow> bool) \<Rightarrow> faults \<Rightarrow> time \<Rightarrow> string \<Rightarrow> string \<Rightarrow> db \<Rightarrow> (share_error + share_link) \<times> db" where
  "ResolveShareLink compare flt now token password d =
     (case GetShareLinkByToken flt d token of
        Inl e \<Rightarrow> (Inl e, d)
      | Inr link \<Rightarrow> resolve_link compare flt now password link d)"

definition RevokeShareLink :: "faults \<Rightarrow> uuid \<Rightarrow> uuid \<Rightarrow> db \<Rightarrow> share_error option \<times> db" where
  "RevokeShareLink flt ws i d = DeleteShareLink flt ws i d"

section \<open>The service: guest invites\<close>

text \<open>\<^verbatim>\<open>PermissionGranter\<close>, the interface to the permission service: a grant
  yields the id of the new permission.  The first argument of a grant is the id a new row
  gets.\<close>

record permission_granter =
  pg_grant :: "uuid \<Rightarrow> time \<Rightarrow> uuid \<Rightarrow> string \<Rightarrow> uuid \<Rightarrow> string \<Rightarrow> uuid \<Rightarrow> string \<Rightarrow> time option
                 \<Rightarrow> db \<Rightarrow> (perm_error + uuid) \<times> db"
  pg_revoke :: "uuid \<Rightarrow> uuid \<Rightarrow> db \<Rightarrow> perm_error option \<times> db"

definition permission_service :: "faults \<Rightarrow> permission_granter" where
  "permission_service flt =
     \<lparr>pg_grant = (\<lambda>new now ws rtype rid gtype gid role ex d.
                    case Grant flt new now ws rtype rid gtype gid role ex d of
                      (Inl e, d') \<Rightarrow> (Inl e, d') | (Inr p, d') \<Rightarrow> (Inr (p_id p), d')),
      pg_revoke = (\<lambda>ws pid d. Revoke flt ws pid d)\<rparr>"

definition CreateGuestInvite ::
  "(string \<Rightarrow> bool) \<Rightarrow> (uuid \<Rightarrow> string \<Rightarrow> uuid) \<Rightarrow> permission_granter option \<Rightarrow> faults \<Rightarrow> uuid \<Rightarrow> uuid \<Rightarrow> time
     \<Rightarrow> uuid \<Rightarrow> string \<Rightarrow> uuid \<Rightarrow> string \<Rightarrow> time option \<Rightarrow> uuid \<Rightarrow> db \<Rightarrow> (share_error + guest_invite) \<times> db" where
  "CreateGuestInvite ParseAddress guestGranteeID perms flt newP newI now ws email0 folderID role expiresAt createdBy d =
     (let email = TrimSpace email0 in
      if \<not> ParseAddress email then (Inl ShareErrInvalidEmail, d)
      else if \<not> sharing_isValidRole role then (Inl ShareErrInvalidRole, d)
      else case perms of
        None \<Rightarrow> (Inl ShareErrNoGranter, d)
      | Some pg \<Rightarrow>
          (case pg_grant pg newP now ws ResourceFolder folderID ''guest'' (guestGranteeID ws email) role expiresAt d of
             (Inl e, d') \<Rightarrow> (Inl (ShareErrPermission e), d')
           | (Inr pid, d') \<Rightarrow>
               (let invite = \<lparr>gi_id = uuid_Nil, gi_ws = ws, gi_email = email, gi_folder = folderID, gi_role = role,
                           gi_expires_at = expiresAt, gi_accepted_at = None, gi_perm = pid,
                           gi_created_by = createdBy, gi_created_at = 0\<rparr>
                in case repo_CreateGuestInvite flt newI now invite d' of
                     (Inl e, d'') \<Rightarrow> (Inl e, snd (pg_revoke pg ws pid d''))
                   | (Inr invite, d'') \<Rightarrow> (Inr invite, d''))))"

definition AcceptGuestInvite ::
  "faults \<Rightarrow> time \<Rightarrow> uuid \<Rightarrow> uuid \<Rightarrow> db \<Rightarrow> (share_error + guest_invite) \<times> db" where
  "AcceptGuestInvite flt now ws i d =
     (case GetGuestInviteByID flt d ws i of
        Inl e \<Rightarrow> (Inl e, d)
      | Inr invite \<Rightarrow>
          if (case gi_expires_at invite of None \<Rightarrow> False | Some t \<Rightarrow> \<not> t > now) then (Inl ShareErrInviteExpired, d)
          else if gi_accepted_at invite \<noteq> None then (Inl ShareErrInviteAlreadyUsed, d)
          else (case repo_AcceptGuestInvite flt ws i now d of
                  (Some e, d') \<Rightarrow> (Inl e, d')
                | (None, d') \<Rightarrow> (Inr (invite\<lparr>gi_accepted_at := Some now\<rparr>), d')))"

text \<open>\<^verbatim>\<open>RevokeGuestInvite\<close> drops the outcome of the revocation.\<close>

definition RevokeGuestInvite ::
  "permission_granter option \<Rightarrow> faults \<Rightarrow> uuid \<Rightarrow> uuid \<Rightarrow> db \<Rightarrow> share_error option \<times> db" where
  "RevokeGuestInvite perms flt ws i d =
     (case GetGuestInviteByID flt d ws i of
        Inl e \<Rightarrow> (Some e, d)
      | Inr invite \<Rightarrow>
          (let d' = (case perms of
                       None \<Rightarrow> d
                     | Some pg \<Rightarrow> if gi_perm invite \<noteq> uuid_Nil then snd (pg_revoke pg ws (gi_perm invite) d) else d)
           in DeleteGuestInvite flt ws i d'))"

definition computeInviteStatus :: "time \<Rightarrow> guest_invite \<Rightarrow> string" where
  "computeInviteStatus now invite =
     (if gi_accepted_at invite \<noteq> None then ''accepted''
      else if (case gi_expires_at invite of None \<Rightarrow> False | Some t \<Rightarrow> \<not> t > now) then ''expired''
      else ''pending'')"

text \<open>Display names, with their fallbacks; a resolver may fail.\<close>

definition ResolveWorkspaceName :: "(uuid \<Rightarrow> string option) option \<Rightarrow> uuid \<Rightarrow> string" where
  "ResolveWorkspaceName resolver ws =
     (case resolver of
        None \<Rightarrow> ''your workspace''
      | Some get \<Rightarrow> (case get ws of Some name \<Rightarrow> if name \<noteq> [] then name else ''your workspace''
                               | None \<Rightarrow> ''your workspace''))"

definition ResolveFolderName :: "(uuid \<Rightarrow> uuid \<Rightarrow> string option) option \<Rightarrow> uuid \<Rightarrow> uuid \<Rightarrow> string" where
  "ResolveFolderName resolver ws folderID =
     (case resolver of
        None \<Rightarrow> ''a shared folder''
      | Some get \<Rightarrow> (case get ws folderID of Some name \<Rightarrow> if name \<noteq> [] then name else ''a shared folder''
                                      | None \<Rightarrow> ''a shared folder''))"

record guest_invite_preview =
  gp_id :: uuid
  gp_ws :: uuid
  gp_ws_name :: string
  gp_folder_name :: string
  gp_email :: string
  gp_role :: string
  gp_expires_at :: "time option"
  gp_accepted_at :: "time option"
  gp_status :: string

definition GetGuestInvitePreview ::
  "(uuid \<Rightarrow> string option) option \<Rightarrow> (uuid \<Rightarrow> uuid \<Rightarrow> string option) option \<Rightarrow> faults \<Rightarrow> time \<Rightarrow> db \<Rightarrow> uuid
     \<Rightarrow> share_error + guest_invite_preview" where
  "GetGuestInvitePreview wsName folderName flt now d i =
     (case GetGuestInviteByIDAnyWorkspace flt d i of
        Inl e \<Rightarrow> Inl e
      | Inr invite \<Rightarrow> Inr \<lparr>gp_id = gi_id invite, gp_ws = gi_ws invite, gp_ws_name = ResolveWorkspaceName wsName (gi_ws invite),
          gp_folder_name = ResolveFolderName folderName (gi_ws invite) (gi_folder invite), gp_email = gi_email invite,
          gp_role = gi_role invite, gp_expires_at = gi_expires_at invite, gp_accepted_at = gi_accepted_at invite,
          gp_status = computeInviteStatus now invite\<rparr>)"

definition ExpireGuestAccess :: "faults \<Rightarrow> time \<Rightarrow> db \<Rightarrow> (share_error + nat) \<times> db" where
  "ExpireGuestAccess flt now d = ExpireGuestPermissions flt now d"

section \<open>Client rooms\<close>

definition room_repo_Create ::
  "faults \<Rightarrow> uuid \<Rightarrow> time \<Rightarrow> client_room \<Rightarrow> db \<Rightarrow> (share_error + client_room) \<times> db" where
  "room_repo_Create flt new now room d =
     (let room = (if cr_id room = uuid_Nil then room\<lparr>cr_id := new\<rparr> else room);
          room = room\<lparr>cr_created_at := now\<rparr>
      in if flt ''insert client room'' \<or> cr_id room \<in> cr_id ` set (client_rooms d)
            \<or> cr_folder room \<in> cr_folder ` set (client_rooms d) \<or> cr_link room \<in> cr_link ` set (client_rooms d)
            \<or> cr_folder room \<notin> f_id ` set (folders d) \<or> cr_link room \<notin> sl_id ` set (share_links d)
         then (Inl (ShareErrDB ''insert client room''), d)
         else (Inr room, d\<lparr>client_rooms := client_rooms d @ [room]\<rparr>))"

definition room_repo_Get :: "faults \<Rightarrow> db \<Rightarrow> uuid \<Rightarrow> uuid \<Rightarrow> share_error + client_room" where
  "room_repo_Get flt d ws i =
     (if flt ''get client room'' then Inl (ShareErrDB ''get client room'')
      else case find (\<lambda>r. cr_ws r = ws \<and> cr_id r = i) (client_rooms d) of
             None \<Rightarrow> Inl ShareErrNotFound | Some r \<Rightarrow> Inr r)"

definition room_repo_List :: "faults \<Rightarrow> db \<Rightarrow> uuid \<Rightarrow> share_error + client_room list" where
  "room_repo_List flt d ws =
     (if flt ''list client rooms'' then Inl (ShareErrDB ''list client rooms'')
      else Inr (sort_key (\<lambda>r. - cr_created_at r) (filter (\<lambda>r. cr_ws r = ws) (client_rooms d))))"

definition room_repo_Delete :: "faults \<Rightarrow> uuid \<Rightarrow> uuid \<Rightarrow> db \<Rightarrow> share_error option \<times> db" where
  "room_repo_Delete flt ws i d =
     (let hit = (\<lambda>r. cr_ws r = ws \<and> cr_id r = i) in
      if flt ''delete client room'' then (Some (ShareErrDB ''delete client room''), d)
      else if rows_affected hit (client_rooms d) = 0 then (Some ShareErrNotFound, d)
      else (None, d\<lparr>client_rooms := delete_rows hit (client_rooms d)\<rparr>))"

record room_input =
  ri_name :: string
  ri_password :: string
  ri_expires_at :: "time option"
  ri_dropbox :: bool

text \<open>The identifiers and random bytes a call draws.\<close>

record room_draws =
  rd_folder :: uuid
  rd_link :: uuid
  rd_room :: uuid
  rd_random :: "nat \<Rightarrow> nat"
  rd_subs :: "nat \<Rightarrow> uuid"

definition room_Create ::
  "(string \<Rightarrow> string option) \<Rightarrow> default_mode_resolver \<Rightarrow> faults \<Rightarrow> room_draws \<Rightarrow> time \<Rightarrow> uuid \<Rightarrow> uuid \<Rightarrow> room_input
     \<Rightarrow> db \<Rightarrow> (share_error + client_room \<times> share_link) \<times> db" where
  "room_Create HashPassword dm flt dr now ws createdBy inp d =
     (let name = TrimSpace (ri_name inp) in
      if name = [] \<or> ContainsByte name CHR ''/'' then (Inl ShareErrInvalidRoomName, d)
      else case folder_Create dm flt (rd_folder dr) now ws None name createdBy d of
        (Inl e, d1) \<Rightarrow> (Inl (ShareErrFolder e), d1)
      | (Inr fref, d1) \<Rightarrow>
          (case CreateShareLink HashPassword (rd_random dr) flt (rd_link dr) now ws ResourceFolder (f_id fref)
                  (ri_password inp) (ri_expires_at inp) None createdBy d1 of
             (Inl e, d2) \<Rightarrow> (Inl e, d2)
           | (Inr link, d2) \<Rightarrow>
               (let room = \<lparr>cr_id = uuid_Nil, cr_ws = ws, cr_name = name, cr_folder = f_id fref, cr_link = sl_id link,
                            cr_dropbox = ri_dropbox inp, cr_expires_at = ri_expires_at inp,
                            cr_created_by = createdBy, cr_created_at = 0\<rparr>
                in case room_repo_Create flt (rd_room dr) now room d2 of
                     (Inl e, d3) \<Rightarrow> (Inl e, snd (RevokeShareLink flt ws (sl_id link) d3))
                   | (Inr room, d3) \<Rightarrow> (Inr (room, link), d3))))"

definition room_Delete :: "faults \<Rightarrow> uuid \<Rightarrow> uuid \<Rightarrow> db \<Rightarrow> share_error option \<times> db" where
  "room_Delete flt ws i d =
     (case room_repo_Get flt d ws i of
        Inl e \<Rightarrow> (Some e, d)
      | Inr room \<Rightarrow>
          (case room_repo_Delete flt ws i d of
             (Some e, d1) \<Rightarrow> (Some e, d1)
           | (None, d1) \<Rightarrow>
               (case RevokeShareLink flt ws (cr_link room) d1 of
                  (Some e, d2) \<Rightarrow> (if e \<noteq> ShareErrNotFound then Some e else None, d2)
                | (None, d2) \<Rightarrow> (None, d2))))"

section \<open>Room templates\<close>

definition builtinTemplates :: "(string \<times> string list) list" where
  "builtinTemplates =
     [(''agency'', [''Briefs'', ''Assets'', ''Deliverables'', ''Feedback'']),
      (''accounting'', [''Tax Documents'', ''Invoices'', ''Receipts'', ''Reports'']),
      (''legal'', [''Contracts'', ''Discovery'', ''Correspondence'', ''Court Filings'']),
      (''construction'', [''Plans'', ''Permits'', ''Inspections'', ''Change Orders'']),
      (''clinic'', [''Patient Files'', ''Lab Results'', ''Referrals'', ''Billing''])]"

definition GetTemplate :: "string \<Rightarrow> share_error + string list" where
  "GetTemplate name = (case map_of builtinTemplates name of None \<Rightarrow> Inl ShareErrUnknownTemplate | Some subs \<Rightarrow> Inr subs)"

fun create_subfolders ::
  "default_mode_resolver \<Rightarrow> (nat \<Rightarrow> faults) \<Rightarrow> (nat \<Rightarrow> uuid) \<Rightarrow> nat \<Rightarrow> time \<Rightarrow> uuid \<Rightarrow> uuid \<Rightarrow> uuid \<Rightarrow> string list \<Rightarrow> db
     \<Rightarrow> uuid list \<times> db" where
  "create_subfolders dm flts news k now ws parent createdBy [] d = ([], d)"
| "create_subfolders dm flts news k now ws parent createdBy (name # subs) d =
     (case folder_Create dm (flts k) (news k) now ws (Some parent) name createdBy d of
        (Inl e, d') \<Rightarrow> create_subfolders dm flts news (Suc k) now ws parent createdBy subs d'
      | (Inr fref, d') \<Rightarrow>
          (case create_subfolders dm flts news (Suc k) now ws parent createdBy subs d' of
             (ids, d'') \<Rightarrow> (f_id fref # ids, d'')))"

definition CreateFromTemplate ::
  "(string \<Rightarrow> string option) \<Rightarrow> default_mode_resolver \<Rightarrow> faults \<Rightarrow> (nat \<Rightarrow> faults) \<Rightarrow> room_draws \<Rightarrow> time \<Rightarrow> uuid \<Rightarrow> uuid \<Rightarrow> room_input
     \<Rightarrow> string \<Rightarrow> db \<Rightarrow> (share_error + client_room \<times> share_link \<times> uuid list) \<times> db" where
  "CreateFromTemplate HashPassword dm flt flts dr now ws createdBy inp templateName d =
     (case GetTemplate templateName of
        Inl e \<Rightarrow> (Inl e, d)
      | Inr subs \<Rightarrow>
          (case room_Create HashPassword dm flt dr now ws createdBy inp d of
             (Inl e, d') \<Rightarrow> (Inl e, d')
           | (Inr (room, link), d') \<Rightarrow>
               (case create_subfolders dm flts (rd_subs dr) 0 now ws (cr_folder room) createdBy subs d' of
                  (ids, d'') \<Rightarrow> (Inr (room, link, ids), d''))))"

end
