(* ===== verification/Sharing_Properties.thy ===== *)
theory Sharing_Properties
  imports Sharing Permission_Properties
begin

text \<open>
  The properties of share links, guest invites and client rooms.  The contract the sharing
  service relies on of the permission service is a locale, interpreted on the model of that
  service.
\<close>

section \<open>The contract of the permission granter\<close>

definition guest_grant :: "permission \<Rightarrow> uuid \<Rightarrow> uuid \<Rightarrow> string \<Rightarrow> uuid \<Rightarrow> string \<Rightarrow> uuid \<Rightarrow> string \<Rightarrow> time option \<Rightarrow> bool" where
  "guest_grant p pid ws rt rid gt gid role ex \<longleftrightarrow> p_id p = pid \<and> p_ws p = ws \<and> p_rtype p = rt \<and> p_rid p = rid
     \<and> p_gtype p = gt \<and> p_gid p = gid \<and> p_role p = role \<and> p_expires_at p = ex"

locale granter_contract =
  fixes grant :: "uuid \<Rightarrow> time \<Rightarrow> uuid \<Rightarrow> string \<Rightarrow> uuid \<Rightarrow> string \<Rightarrow> uuid \<Rightarrow> string \<Rightarrow> time option
                    \<Rightarrow> db \<Rightarrow> (perm_error + uuid) \<times> db"
    and revoke :: "uuid \<Rightarrow> uuid \<Rightarrow> db \<Rightarrow> perm_error option \<times> db"
  assumes grant_fails: "grant new now ws rt rid gt gid role ex d = (Inl e, d') \<Longrightarrow> d' = d"
    and grant_adds: "grant new now ws rt rid gt gid role ex d = (Inr pid, d') \<Longrightarrow>
      \<exists>p. d' = d\<lparr>permissions := permissions d @ [p]\<rparr> \<and> guest_grant p pid ws rt rid gt gid role ex
        \<and> pid \<notin> p_id ` set (permissions d)"
    and revoke_fails: "revoke ws pid d = (Some e, d') \<Longrightarrow> d' = d"
    and revoke_removes: "revoke ws pid d = (None, d') \<Longrightarrow>
      d' = d\<lparr>permissions := filter (\<lambda>p. \<not> (p_ws p = ws \<and> p_id p = pid)) (permissions d)\<rparr>"
    and revoke_referenced: "p \<in> set (permissions d) \<Longrightarrow> p_ws p = ws \<Longrightarrow> p_id p = pid
      \<Longrightarrow> pid \<in> gi_perm ` set (guest_invites d) \<Longrightarrow> fst (revoke ws pid d) \<noteq> None"
begin

text \<open>Grant followed by a revocation that succeeds: nothing is left.\<close>

lemma grant_revoke:
  assumes "grant new now ws rt rid gt gid role ex d = (Inr pid, d1)" "revoke ws pid d1 = (None, d2)"
  shows "d2 = d"
proof -
  obtain p where p: "d1 = d\<lparr>permissions := permissions d @ [p]\<rparr>" "guest_grant p pid ws rt rid gt gid role ex"
    "pid \<notin> p_id ` set (permissions d)" using grant_adds [OF assms(1)] by blast
  have "filter (\<lambda>p. \<not> (p_ws p = ws \<and> p_id p = pid)) (permissions d1) = permissions d"
  proof -
    have "p_id x \<noteq> pid" if "x \<in> set (permissions d)" for x using p(3) that by (metis image_eqI)
    then have "filter (\<lambda>p. \<not> (p_ws p = ws \<and> p_id p = pid)) (permissions d) = permissions d"
      by (simp add: filter_id_conv)
    with p(1,2) show ?thesis by (simp add: guest_grant_def)
  qed
  with revoke_removes [OF assms(2)] p(1) show ?thesis by simp
qed

lemma create_invite_ok:
  assumes "CreateGuestInvite pa gg (Some \<lparr>pg_grant = grant, pg_revoke = revoke\<rparr>) flt newP newI now ws email folder role ex by d
      = (Inr g, d')"
  obtains p where "d' = d\<lparr>permissions := permissions d @ [p], guest_invites := guest_invites d @ [g]\<rparr>"
    "guest_grant p (gi_perm g) ws ResourceFolder folder ''guest'' (gg ws (TrimSpace email)) role ex"
    "gi_expires_at g = ex" "gi_folder g = folder" "gi_role g = role" "gi_ws g = ws" "gi_email g = TrimSpace email"
    "gi_accepted_at g = None"
proof -
  from assms obtain pid d1 where g1: "grant newP now ws ResourceFolder folder ''guest'' (gg ws (TrimSpace email)) role ex d
      = (Inr pid, d1)"
    by (auto simp: CreateGuestInvite_def Let_def split: if_splits sum.splits prod.splits)
  obtain p where p: "d1 = d\<lparr>permissions := permissions d @ [p]\<rparr>"
      "guest_grant p pid ws ResourceFolder folder ''guest'' (gg ws (TrimSpace email)) role ex"
    using grant_adds [OF g1] by blast
  from assms g1 have "d' = d1\<lparr>guest_invites := guest_invites d1 @ [g]\<rparr>" "gi_perm g = pid"
    "gi_expires_at g = ex" "gi_folder g = folder" "gi_role g = role" "gi_ws g = ws" "gi_email g = TrimSpace email"
    "gi_accepted_at g = None"
    by (auto simp: CreateGuestInvite_def Let_def repo_CreateGuestInvite_def split: if_splits)
  with p that show thesis by simp
qed

lemma create_invite_error:
  assumes "CreateGuestInvite pa gg (Some \<lparr>pg_grant = grant, pg_revoke = revoke\<rparr>) flt newP newI now ws email folder role ex by d
      = (Inl e, d')"
  shows "d' = d \<or> (\<exists>pid d1 e. grant newP now ws ResourceFolder folder ''guest'' (gg ws (TrimSpace email)) role ex d
      = (Inr pid, d1) \<and> d' = d1 \<and> fst (revoke ws pid d1) = Some e)"
proof (cases "grant newP now ws ResourceFolder folder ''guest'' (gg ws (TrimSpace email)) role ex d")
  case (Pair r d1)
  show ?thesis
  proof (cases r)
    case (Inl x)
    with Pair have g: "grant newP now ws ResourceFolder folder ''guest'' (gg ws (TrimSpace email)) role ex d = (Inl x, d1)"
      by simp
    from assms g grant_fails [OF g] show ?thesis
      by (auto simp: CreateGuestInvite_def Let_def split: if_splits)
  next
    case (Inr pid)
    with Pair have g: "grant newP now ws ResourceFolder folder ''guest'' (gg ws (TrimSpace email)) role ex d = (Inr pid, d1)"
      by simp
    have "d' = d \<or> d' = snd (revoke ws pid d1)"
      using assms g
      by (auto simp: CreateGuestInvite_def Let_def repo_CreateGuestInvite_def split: if_splits)
    moreover obtain er d2 where r: "revoke ws pid d1 = (er, d2)" by fastforce
    moreover have "er = None \<Longrightarrow> d2 = d" using grant_revoke [OF g] r by blast
    moreover have "er \<noteq> None \<Longrightarrow> d2 = d1" using revoke_fails r by blast
    ultimately show ?thesis using g by (cases er) auto
  qed
qed

text \<open>The order of \<^verbatim>\<open>RevokeGuestInvite\<close>, invite last, makes the revocation fail.\<close>

lemma revoke_invite_keeps_grant:
  assumes "RevokeGuestInvite (Some \<lparr>pg_grant = grant, pg_revoke = revoke\<rparr>) flt ws i d = (None, d')"
    and g: "g \<in> set (guest_invites d)" "gi_ws g = ws" "gi_id g = i" "distinct (map gi_id (guest_invites d))"
    and p: "p \<in> set (permissions d)" "p_id p = gi_perm g" "p_ws p = ws"
  shows "permissions d' = permissions d \<and> g \<notin> set (guest_invites d')"
proof -
  have find: "find (\<lambda>x. gi_ws x = ws \<and> gi_id x = i) (guest_invites d) = Some g"
  proof (rule find_unique [OF g(1)])
    show "y = g" if "y \<in> set (guest_invites d)" "gi_ws y = ws \<and> gi_id y = i" for y
      by (rule distinct_map_inj [OF g(4) that(1) g(1)]) (simp add: that(2) g(3))
  qed (use g in simp)
  with assms(1) have get: "GetGuestInviteByID flt d ws i = Inr g"
    by (auto simp: GetGuestInviteByID_def RevokeGuestInvite_def split: if_splits)
  have "gi_perm g \<in> gi_perm ` set (guest_invites d)" using g(1) by simp
  then have "fst (revoke ws (gi_perm g) d) \<noteq> None" using p by (intro revoke_referenced) auto
  then have same: "snd (revoke ws (gi_perm g) d) = d"
    using revoke_fails by (metis prod.collapse option.exhaust)
  have "DeleteGuestInvite flt ws i d = (None, d')"
    using assms(1) get same by (auto simp: RevokeGuestInvite_def Let_def split: if_splits)
  then show ?thesis using g by (auto simp: DeleteGuestInvite_def Let_def delete_rows_def split: if_splits)
qed

end

lemma permission_service_eta:
  "permission_service flt = \<lparr>pg_grant = pg_grant (permission_service flt), pg_revoke = pg_revoke (permission_service flt)\<rparr>"
  by simp

interpretation guests: granter_contract "pg_grant (permission_service flt)" "pg_revoke (permission_service flt)" for flt
proof unfold_locales
  fix new now ws rt rid gt gid role ex d e d' pid p
  have G: "pg_grant (permission_service flt) new now ws rt rid gt gid role ex d
      = (case Grant flt new now ws rt rid gt gid role ex d of (Inl e, d') \<Rightarrow> (Inl e, d') | (Inr p, d') \<Rightarrow> (Inr (p_id p), d'))"
    by (simp add: permission_service_def)
  show "d' = d" if "pg_grant (permission_service flt) new now ws rt rid gt gid role ex d = (Inl e, d')"
    using that unfolding G Grant_def
    by (auto split: prod.splits sum.splits option.splits dest: perm_Create_Inl)
  show "\<exists>p. d' = d\<lparr>permissions := permissions d @ [p]\<rparr> \<and> guest_grant p pid ws rt rid gt gid role ex
        \<and> pid \<notin> p_id ` set (permissions d)"
    if "pg_grant (permission_service flt) new now ws rt rid gt gid role ex d = (Inr pid, d')"
  proof -
    from that obtain p where p: "Grant flt new now ws rt rid gt gid role ex d = (Inr p, d')" "p_id p = pid"
      unfolding G by (auto split: prod.splits sum.splits)
    note g = Grant_Inr [OF p(1)]
    have "perm_Create flt new now (new_permission ws rt rid gt gid role ex) d = (Inr p, d')"
      using p(1) g(3) by (simp add: Grant_def)
    from perm_Create_Inr(4) [OF this] have fresh: "pid \<notin> p_id ` set (permissions d)" using p(2) by simp
    have "guest_grant p pid ws rt rid gt gid role ex"
      unfolding guest_grant_def using p(2) by (intro conjI) (simp, (subst g(2), simp add: new_permission_def)+)
    with g(1) fresh show ?thesis by blast
  qed
  have R: "pg_revoke (permission_service flt) ws pid d = perm_Delete flt ws pid d" for d
    by (simp add: permission_service_def Revoke_def)
  show "d' = d" if "pg_revoke (permission_service flt) ws pid d = (Some e, d')" for e :: perm_error
    using that unfolding R by (rule perm_Delete_Some)
  show "d' = d\<lparr>permissions := filter (\<lambda>p. \<not> (p_ws p = ws \<and> p_id p = pid)) (permissions d)\<rparr>"
    if "pg_revoke (permission_service flt) ws pid d = (None, d')"
    using that unfolding R by (rule perm_Delete_None)
  show "fst (pg_revoke (permission_service flt) ws pid d) \<noteq> None"
    if "p \<in> set (permissions d)" "p_ws p = ws" "p_id p = pid" "pid \<in> gi_perm ` set (guest_invites d)"
    using that unfolding R by (auto simp: perm_Delete_def Let_def)
qed

section \<open>Concurrent resolutions of share links\<close>

text \<open>A resolution is a lookup and, later, the rest.  A schedule interleaves the two halves of
  any number of callers; the state holds the database, the link each caller has looked up,
  and the ids of the links resolved successfully so far.\<close>

datatype share_event =
    Lookup nat faults string
  | Finish nat faults time string

type_synonym share_state = "db \<times> (nat \<rightharpoonup> share_link) \<times> uuid list"

fun share_event_step :: "(string \<Rightarrow> string \<Rightarrow> bool) \<Rightarrow> share_event \<Rightarrow> share_state \<Rightarrow> share_state" where
  "share_event_step cmp (Lookup c flt token) (d, held, ok) =
     (case GetShareLinkByToken flt d token of Inl _ \<Rightarrow> (d, held, ok) | Inr l \<Rightarrow> (d, held(c \<mapsto> l), ok))"
| "share_event_step cmp (Finish c flt now pw) (d, held, ok) =
     (case held c of
        None \<Rightarrow> (d, held, ok)
      | Some l \<Rightarrow>
          (case resolve_link cmp flt now pw l d of
             (Inl _, d') \<Rightarrow> (d', held(c := None), ok)
           | (Inr l', d') \<Rightarrow> (d', held(c := None), sl_id l' # ok)))"

lemma IncrementDownloadCount_ok:
  assumes "IncrementDownloadCount flt i d = (None, d')"
  shows "d' = d\<lparr>share_links := update_rows (may_increment i) (\<lambda>l. l\<lparr>sl_count := sl_count l + 1\<rparr>) (share_links d)\<rparr>"
    "\<exists>l \<in> set (share_links d). may_increment i l"
  using assms by (auto simp: IncrementDownloadCount_def rows_affected_def filter_empty_conv split: if_splits)

lemma IncrementDownloadCount_error: "IncrementDownloadCount flt i d = (Some e, d') \<Longrightarrow> d' = d"
  by (auto simp: IncrementDownloadCount_def split: if_splits)

lemma resolve_link_ok:
  assumes "resolve_link cmp flt now pw l d = (Inr l', d')"
  shows "sl_id l' = sl_id l" "IncrementDownloadCount flt (sl_id l) d = (None, d')"
  using assms by (auto simp: resolve_link_def split: if_splits prod.splits option.splits)

lemma resolve_link_error: "resolve_link cmp flt now pw l d = (Inl e, d') \<Longrightarrow> d' = d"
  by (auto simp: resolve_link_def split: if_splits prod.splits option.splits dest: IncrementDownloadCount_error)

definition counted :: "share_link \<Rightarrow> int \<Rightarrow> share_state \<Rightarrow> bool" where
  "counted l m st \<longleftrightarrow> (case st of (d, held, ok) \<Rightarrow> distinct (map sl_id (share_links d))
     \<and> l\<lparr>sl_count := sl_count l + int (count_list ok (sl_id l))\<rparr> \<in> set (share_links d)
     \<and> sl_count l + int (count_list ok (sl_id l)) \<le> m)"

lemma counted_step:
  assumes "counted l m st" "sl_max l = Some m"
  shows "counted l m (share_event_step cmp ev st)"
proof (cases st)
  case (fields d held ok)
  let ?l = "l\<lparr>sl_count := sl_count l + int (count_list ok (sl_id l))\<rparr>"
  have inv: "distinct (map sl_id (share_links d))" "?l \<in> set (share_links d)" "sl_count ?l \<le> m"
    using assms(1) fields by (auto simp: counted_def)
  show ?thesis
  proof (cases ev)
    case (Lookup c flt token)
    with assms fields show ?thesis by (auto simp: counted_def split: sum.splits)
  next
    case (Finish c flt now pw)
    show ?thesis
    proof (cases "\<exists>h l' d'. held c = Some h \<and> resolve_link cmp flt now pw h d = (Inr l', d')")
      case False
      then have "\<exists>held'. share_event_step cmp ev st = (d, held', ok)"
        using Finish fields by (auto split: option.splits prod.splits sum.splits dest: resolve_link_error)
      with assms(1) fields show ?thesis by (auto simp: counted_def)
    next
      case True
      then obtain h l' d' where h: "held c = Some h" "resolve_link cmp flt now pw h d = (Inr l', d')" by blast
      note r = resolve_link_ok [OF h(2)]
      note i = IncrementDownloadCount_ok [OF r(2)]
      have st': "share_event_step cmp ev st = (d', held(c := None), sl_id h # ok)"
        using Finish fields h r(1) by simp
      have ids: "distinct (map sl_id (share_links d'))"
        using inv(1) unfolding i(1) by (simp add: map_update_rows)
      show ?thesis
      proof (cases "sl_id h = sl_id l")
        case False
        then have "\<not> may_increment (sl_id h) ?l" by (auto simp: may_increment_def)
        then have "?l \<in> set (share_links d')" using inv(2) unfolding i(1) by (auto simp: update_rows_def)
        with ids inv(3) False show ?thesis by (simp add: st' counted_def)
      next
        case same: True
        obtain x where x: "x \<in> set (share_links d)" "may_increment (sl_id h) x" using i(2) by blast
        have "x = ?l" by (rule distinct_map_inj [OF inv(1) x(1) inv(2)]) (use x(2) same in \<open>simp add: may_increment_def\<close>)
        with x(2) assms(2) same have may: "may_increment (sl_id h) ?l" "sl_count ?l < m"
          by (simp_all add: may_increment_def)
        have "?l\<lparr>sl_count := sl_count ?l + 1\<rparr> \<in> set (share_links d')"
          unfolding i(1) using inv(2) may(1) by (force simp: update_rows_def)
        with ids may(2) same show ?thesis by (simp add: st' counted_def ac_simps)
      qed
    qed
  qed
qed

section \<open>Properties\<close>

text \<open>C15 (safety).  However the lookups and increments of concurrent resolutions interleave
  and whatever fails: a link with a download cap is resolved successfully at most as often
  as the cap leaves room for.\<close>

theorem download_cap_never_exceeded:
  assumes "distinct (map sl_id (share_links d))" "l \<in> set (share_links d)" "sl_max l = Some m" "sl_count l \<le> m"
    and "fold (share_event_step cmp) evs (d, Map.empty, []) = (d', held, ok)"
  shows "sl_count l + int (count_list ok (sl_id l)) \<le> m
    \<and> l\<lparr>sl_count := sl_count l + int (count_list ok (sl_id l))\<rparr> \<in> set (share_links d')"
proof -
  have "counted l m st \<Longrightarrow> counted l m (fold (share_event_step cmp) evs st)" for st
    by (induction evs arbitrary: st) (simp_all add: counted_step assms(3))
  moreover have "counted l m (d, Map.empty, [])" using assms(1,2,4) by (simp add: counted_def)
  ultimately have "counted l m (d', held, ok)" using assms(5) by metis
  then show ?thesis by (simp add: counted_def)
qed

definition sx_link :: share_link where
  "sx_link = \<lparr>sl_id = 61, sl_ws = 7, sl_rtype = ''folder'', sl_rid = 2, sl_token = ''tok'', sl_pwhash = None,
     sl_expires_at = None, sl_max = Some 1, sl_count = 0, sl_created_by = 9, sl_created_at = 0\<rparr>"

definition sx_db :: db where
  "sx_db = ex_db\<lparr>share_links := [sx_link]\<rparr>"

text \<open>Two callers look the link up before either increments it: only one succeeds.\<close>

theorem download_cap_never_exceeded_witness:
  "\<exists>d' held ok. fold (share_event_step (\<lambda>_ _. True))
       [Lookup 0 no_faults ''tok'', Lookup 1 no_faults ''tok'', Finish 0 no_faults 5 [], Finish 1 no_faults 5 []]
       (sx_db, Map.empty, []) = (d', held, ok) \<and> ok = [61] \<and> int (count_list ok 61) \<le> 1"
proof -
  let ?run = "fold (share_event_step (\<lambda>_ _. True))
       [Lookup 0 no_faults ''tok'', Lookup 1 no_faults ''tok'', Finish 0 no_faults 5 [], Finish 1 no_faults 5 []]
       (sx_db, Map.empty, [])"
  obtain d' held ok where run: "?run = (d', held, ok)" using prod_cases3 by blast
  have "snd (snd ?run) = [61]" by code_simp
  with run have ok: "ok = [61]" by simp
  have l: "distinct (map sl_id (share_links sx_db))" "sx_link \<in> set (share_links sx_db)" "sl_max sx_link = Some 1" "sl_count sx_link \<le> 1"
    by (simp_all add: sx_db_def sx_link_def)
  from download_cap_never_exceeded [OF l run] have "int (count_list ok 61) \<le> 1" by (simp add: sx_link_def)
  with run ok show ?thesis by blast
qed

text \<open>C16 (functional).  Without failures, resolving a token succeeds exactly when a link with
  the token exists, has not expired, the password (if the link has one) is given and
  matches, and the cap is not reached; then exactly that link's count goes up by one, and
  otherwise nothing changes.\<close>

theorem resolve_exactly_when_allowed:
  assumes "distinct (map sl_id (share_links d))" "distinct (map sl_token (share_links d))"
    and "\<And>l. l \<in> set (share_links d) \<Longrightarrow> sl_count l < int32_max"
  shows "((\<exists>l'. fst (ResolveShareLink cmp no_faults now token pw d) = Inr l') \<longleftrightarrow>
      (\<exists>l \<in> set (share_links d). sl_token l = token \<and> \<not> IsExpired l now \<and> \<not> IsExhausted l
         \<and> (RequiresPassword l \<longrightarrow> pw \<noteq> [] \<and> cmp (the (sl_pwhash l)) pw)))
    \<and> snd (ResolveShareLink cmp no_faults now token pw d) =
      (if \<exists>l'. fst (ResolveShareLink cmp no_faults now token pw d) = Inr l'
       then d\<lparr>share_links := map (\<lambda>l. if sl_token l = token then l\<lparr>sl_count := sl_count l + 1\<rparr> else l) (share_links d)\<rparr>
       else d)"
proof -
  let ?r = "ResolveShareLink cmp no_faults now token pw d"
  show ?thesis
  proof (cases "find (\<lambda>l. sl_token l = token) (share_links d)")
    case None
    then have "?r = (Inl ShareErrNotFound, d)" by (simp add: ResolveShareLink_def GetShareLinkByToken_def)
    then show ?thesis using None by (auto simp: find_None_iff)
  next
    case (Some l)
    then have l: "l \<in> set (share_links d)" "sl_token l = token" by (auto dest: find_SomeD)
    have tok: "x = l" if "x \<in> set (share_links d)" "sl_token x = token" for x
      by (rule distinct_map_inj [OF assms(2) that(1) l(1)]) (simp add: that(2) l(2))
    have idl: "x = l" if "x \<in> set (share_links d)" "sl_id x = sl_id l" for x
      by (rule distinct_map_inj [OF assms(1) that(1) l(1) that(2)])
    have r: "?r = resolve_link cmp no_faults now pw l d"
      using Some by (simp add: ResolveShareLink_def GetShareLinkByToken_def)
    have may: "may_increment (sl_id l) x \<longleftrightarrow> x = l \<and> \<not> IsExhausted l" if x: "x \<in> set (share_links d)" for x
    proof (cases "x = l")
      case True
      then show ?thesis by (simp add: may_increment_def IsExhausted_def not_le split: option.split)
    next
      case False
      then have "sl_id x \<noteq> sl_id l" using idl [OF x] by blast
      with False show ?thesis by (simp add: may_increment_def)
    qed
    have upd: "update_rows (may_increment (sl_id l)) (\<lambda>l. l\<lparr>sl_count := sl_count l + 1\<rparr>) (share_links d)
        = map (\<lambda>l. if sl_token l = token then l\<lparr>sl_count := sl_count l + 1\<rparr> else l) (share_links d)" if "\<not> IsExhausted l"
      unfolding update_rows_def
    proof (intro map_cong refl)
      fix x assume x: "x \<in> set (share_links d)"
      have "may_increment (sl_id l) x \<longleftrightarrow> sl_token x = token" using may [OF x] that tok [OF x] l(2) by blast
      then show "(if may_increment (sl_id l) x then x\<lparr>sl_count := sl_count x + 1\<rparr> else x)
        = (if sl_token x = token then x\<lparr>sl_count := sl_count x + 1\<rparr> else x)" by simp
    qed
    have inc: "IncrementDownloadCount no_faults (sl_id l) d = (if IsExhausted l then (Some ShareErrLinkExhausted, d)
        else (None, d\<lparr>share_links := map (\<lambda>l. if sl_token l = token then l\<lparr>sl_count := sl_count l + 1\<rparr> else l) (share_links d)\<rparr>))"
    proof (cases "IsExhausted l")
      case True
      then have "\<forall>x \<in> set (share_links d). \<not> may_increment (sl_id l) x" using may by blast
      then show ?thesis using True l(1) by (auto simp: IncrementDownloadCount_def)
    next
      case False
      have "\<not> (\<exists>x \<in> set (share_links d). may_increment (sl_id l) x \<and> sl_count x \<ge> int32_max)"
        using assms(3) by (meson not_less)
      moreover have "rows_affected (may_increment (sl_id l)) (share_links d) > 0"
        using may [OF l(1)] False l(1) by (auto simp: rows_affected_def filter_empty_conv)
      ultimately show ?thesis using False upd by (simp add: IncrementDownloadCount_def)
    qed
    have ex: "(\<exists>x \<in> set (share_links d). sl_token x = token \<and> P x) \<longleftrightarrow> P l" for P
      using tok l by blast
    show ?thesis unfolding r ex by (simp add: resolve_link_def inc)
  qed
qed

theorem resolve_exactly_when_allowed_witness:
  "\<exists>l'. fst (ResolveShareLink (\<lambda>_ _. False) no_faults 5 ''tok'' [] sx_db) = Inr l'"
proof -
  have "distinct (map sl_id (share_links sx_db))" "distinct (map sl_token (share_links sx_db))"
    "\<And>l. l \<in> set (share_links sx_db) \<Longrightarrow> sl_count l < int32_max"
    by (auto simp: sx_db_def sx_link_def int32_max_def)
  from resolve_exactly_when_allowed [OF this, of "\<lambda>_ _. False" 5 "''tok''" "[]"] show ?thesis
    by (simp add: sx_db_def sx_link_def IsExpired_def IsExhausted_def RequiresPassword_def)
qed

section \<open>Guest invites\<close>

lemma HasAccess_permissions: "permissions d' = permissions d \<Longrightarrow>
    HasAccess flt t d' ws rt rid gt gid m = HasAccess flt t d ws rt rid gt gid m"
  by (simp add: HasAccess_def CheckAccess_def grants_def cong: option.case_cong)

lemma HasAccess_granted:
  assumes "guest_grant p pid ws rt rid gt gid role ex" "p \<in> set (permissions d)"
    and "validate_grant rt gt role = None" "case ex of None \<Rightarrow> True | Some e \<Rightarrow> t < e"
  shows "HasAccess no_faults t d ws rt rid gt gid role = Inr True"
proof -
  have p: "p \<in> set (grants t d ws rt rid gt gid)"
    using assms(1,2,4) by (auto simp: guest_grant_def grants_def unexpired_def split: option.splits)
  have role: "isValidRole role" using assms(3) by (auto simp: validate_grant_def split: if_splits)
  then have "suffices role (grants t d ws rt rid gt gid)"
    using p assms(1) by (auto simp: suffices_def guest_grant_def)
  with role assms(3) show ?thesis by (simp add: HasAccess_def CheckAccess_def check_access_loop_ok)
qed

text \<open>Revoking a guest invite does not revoke the guest's access.  The permission
  is deleted before the invite that refers to it, the foreign key forbids that, and the
  error is dropped: a revocation that reports success removes the invite and leaves the
  grant and every answer of an access check as they were.\<close>

theorem revoked_invite_keeps_access:
  assumes "RevokeGuestInvite (Some (permission_service flt)) flt' ws i d = (None, d')"
    and "g \<in> set (guest_invites d)" "gi_ws g = ws" "gi_id g = i" "distinct (map gi_id (guest_invites d))"
    and "p \<in> set (permissions d)" "p_id p = gi_perm g" "p_ws p = ws"
  shows "g \<notin> set (guest_invites d') \<and> p \<in> set (permissions d')
    \<and> (\<forall>flt t ws rt rid gt gid m. HasAccess flt t d' ws rt rid gt gid m = HasAccess flt t d ws rt rid gt gid m)"
proof -
  have run: "RevokeGuestInvite (Some \<lparr>pg_grant = pg_grant (permission_service flt), pg_revoke = pg_revoke (permission_service flt)\<rparr>)
      flt' ws i d = (None, d')"
    unfolding permission_service_eta [of flt, symmetric] by (rule assms(1))
  have "permissions d' = permissions d \<and> g \<notin> set (guest_invites d')"
    by (rule guests.revoke_invite_keeps_grant [OF run assms(2-)])
  with assms(6) show ?thesis by (simp add: HasAccess_permissions [of d' d])
qed

text \<open>Folder 2 of workspace 7 is shared with a guest, and the invite revoked.\<close>

definition guest_id :: "uuid \<Rightarrow> string \<Rightarrow> uuid" where
  "guest_id ws email = 1000 + ws"

definition sx_invite_run :: "(share_error + guest_invite) \<times> db" where
  "sx_invite_run = CreateGuestInvite (\<lambda>_. True) guest_id (Some (permission_service no_faults)) no_faults
     70 71 20 7 ''bob'' 2 ''viewer'' (Some 90) 9 ex_db"

definition sx_invited :: db where "sx_invited = snd sx_invite_run"

theorem revoked_invite_keeps_access_witness:
  "\<exists>d'. RevokeGuestInvite (Some (permission_service no_faults)) no_faults 7 71 sx_invited = (None, d')
     \<and> guest_invites d' = [] \<and> HasAccess no_faults 30 d' 7 ''folder'' 2 ''guest'' 1007 ''viewer'' = Inr True"
proof -
  let ?g = "\<lparr>gi_id = 71, gi_ws = 7, gi_email = ''bob'', gi_folder = 2, gi_role = ''viewer'', gi_expires_at = Some 90,
    gi_accepted_at = None, gi_perm = 70, gi_created_by = 9, gi_created_at = 20\<rparr>"
  let ?p = "\<lparr>p_id = 70, p_ws = 7, p_rtype = ''folder'', p_rid = 2, p_gtype = ''guest'', p_gid = 1007, p_role = ''viewer'',
    p_created_at = 20, p_expires_at = Some 90\<rparr>"
  have rows: "guest_invites sx_invited = [?g]" "permissions sx_invited = [?p]" by code_simp+
  obtain d' where run: "RevokeGuestInvite (Some (permission_service no_faults)) no_faults 7 71 sx_invited = (None, d')"
    "guest_invites d' = []"
  proof -
    have "case RevokeGuestInvite (Some (permission_service no_faults)) no_faults 7 71 sx_invited of
        (e, d') \<Rightarrow> e = None \<and> guest_invites d' = []" by code_simp
    then show thesis using that by (auto split: prod.splits)
  qed
  have "HasAccess no_faults 30 sx_invited 7 ''folder'' 2 ''guest'' 1007 ''viewer'' = Inr True" by code_simp
  with revoked_invite_keeps_access [OF run(1), of ?g ?p] run show ?thesis by (simp add: rows)
qed

text \<open>Creating a guest invite: on success exactly one grant and one invite are
  added, with the same expiry, and the guest has the invited role until then.  On an error
  the database is unchanged, except when the grant was made and the compensating revocation
  failed too; then the database is the one right after the grant.\<close>

theorem invite_creation_outcome:
  assumes "CreateGuestInvite pa gg (Some (permission_service flt)) flt' newP newI now ws email folder role ex by d = (r, d')"
  shows "case r of
      Inr g \<Rightarrow> (\<exists>p. d' = d\<lparr>permissions := permissions d @ [p], guest_invites := guest_invites d @ [g]\<rparr> \<and> gi_perm g = p_id p
        \<and> p_expires_at p = ex \<and> gi_expires_at g = ex \<and> gi_email g = TrimSpace email \<and> gi_accepted_at g = None
        \<and> (\<forall>t. (case ex of None \<Rightarrow> True | Some e \<Rightarrow> t < e)
             \<longrightarrow> HasAccess no_faults t d' ws ''folder'' folder ''guest'' (gg ws (TrimSpace email)) role = Inr True))
    | Inl e \<Rightarrow> d' = d \<or> (\<exists>p e'. Grant flt newP now ws ''folder'' folder ''guest'' (gg ws (TrimSpace email)) role ex d = (Inr p, d')
        \<and> fst (Revoke flt ws (p_id p) d') = Some e')"
proof (cases r)
  case (Inr g)
  have run: "CreateGuestInvite pa gg (Some \<lparr>pg_grant = pg_grant (permission_service flt), pg_revoke = pg_revoke (permission_service flt)\<rparr>)
      flt' newP newI now ws email folder role ex by d = (Inr g, d')"
    unfolding permission_service_eta [of flt, symmetric] using assms Inr by simp
  have valid: "validate_grant ''folder'' ''guest'' role = None"
    using assms Inr by (auto simp: CreateGuestInvite_def Let_def sharing_isValidRole_def validate_grant_def isValidResourceType_def
        isValidGranteeType_def isValidRole_def AllResourceTypes_def ResourceFolder_def GranteeUser_def GranteeGuest_def
        RoleViewer_def RoleEditor_def RoleAdmin_def split: if_splits)
  obtain p where p: "d' = d\<lparr>permissions := permissions d @ [p], guest_invites := guest_invites d @ [g]\<rparr>"
    "guest_grant p (gi_perm g) ws ResourceFolder folder ''guest'' (gg ws (TrimSpace email)) role ex"
    and g: "gi_expires_at g = ex" "gi_email g = TrimSpace email" "gi_accepted_at g = None"
    using guests.create_invite_ok [OF run] by metis
  have "HasAccess no_faults t d' ws ''folder'' folder ''guest'' (gg ws (TrimSpace email)) role = Inr True"
    if "case ex of None \<Rightarrow> True | Some e \<Rightarrow> t < e" for t
    by (rule HasAccess_granted [OF p(2) [unfolded ResourceFolder_def] _ valid that]) (simp add: p(1))
  with p g Inr show ?thesis by (auto simp: guest_grant_def)
next
  case (Inl e)
  have run: "CreateGuestInvite pa gg (Some \<lparr>pg_grant = pg_grant (permission_service flt), pg_revoke = pg_revoke (permission_service flt)\<rparr>)
      flt' newP newI now ws email folder role ex by d = (Inl e, d')"
    unfolding permission_service_eta [of flt, symmetric] using assms Inl by simp
  from guests.create_invite_error [OF run] Inl show ?thesis
    by (auto simp: permission_service_def ResourceFolder_def split: prod.splits sum.splits)
qed

theorem invite_creation_outcome_witness:
  "\<exists>g d'. sx_invite_run = (Inr g, d')
     \<and> HasAccess no_faults 89 d' 7 ''folder'' 2 ''guest'' (guest_id 7 (TrimSpace ''bob'')) ''viewer'' = Inr True"
proof -
  have "case sx_invite_run of (Inr g, d') \<Rightarrow> True | _ \<Rightarrow> False" by code_simp
  then obtain g d' where run: "sx_invite_run = (Inr g, d')" by (auto split: prod.splits sum.splits)
  have "\<forall>t < 90. HasAccess no_faults t d' 7 ''folder'' 2 ''guest'' (guest_id 7 (TrimSpace ''bob'')) ''viewer'' = Inr True"
    using invite_creation_outcome [OF run [unfolded sx_invite_run_def]] by (simp, elim exE conjE)
  then have "HasAccess no_faults 89 d' 7 ''folder'' 2 ''guest'' (guest_id 7 (TrimSpace ''bob'')) ''viewer'' = Inr True"
    by simp
  with run show ?thesis by blast
qed

text \<open>The sweep of expired guests removes exactly the expired guest grants and
  the invites that refer to them, so no invite refers to a missing grant afterwards; it
  reports their number and changes no access decision from its time on.  If it fails,
  nothing is removed.\<close>

theorem guest_sweep_is_invisible:
  assumes "ExpireGuestAccess flt now d = (r, d')" "distinct (map p_id (permissions d))"
    and "gi_perm ` set (guest_invites d) \<subseteq> p_id ` set (permissions d)"
  shows "(\<forall>n. r = Inr n \<longrightarrow> permissions d' = filter (\<lambda>p. \<not> expired_guest now p) (permissions d)
        \<and> n = length (permissions d) - length (permissions d')
        \<and> guest_invites d' = filter (\<lambda>g. gi_perm g \<in> p_id ` set (permissions d')) (guest_invites d))
    \<and> (\<forall>e. r = Inl e \<longrightarrow> d' = d)
    \<and> (\<forall>flt t ws rt rid gt gid m. now \<le> t \<longrightarrow> HasAccess flt t d' ws rt rid gt gid m = HasAccess flt t d ws rt rid gt gid m)"
proof (cases r)
  case (Inl e)
  with assms(1) have "d' = d" by (auto simp: ExpireGuestAccess_def ExpireGuestPermissions_def Let_def split: if_splits)
  with Inl show ?thesis by simp
next
  case (Inr n)
  with assms(1) have d': "permissions d' = filter (\<lambda>p. \<not> expired_guest now p) (permissions d)"
    "guest_invites d' = filter (\<lambda>g. gi_perm g \<notin> p_id ` {p \<in> set (permissions d). expired_guest now p}) (guest_invites d)"
    "n = length (filter (expired_guest now) (permissions d))"
    by (auto simp: ExpireGuestAccess_def ExpireGuestPermissions_def Let_def delete_rows_def rows_affected_def split: if_splits)
  have "gi_perm g \<notin> p_id ` {p \<in> set (permissions d). expired_guest now p} \<longleftrightarrow> gi_perm g \<in> p_id ` set (permissions d')"
    if g: "g \<in> set (guest_invites d)" for g
  proof -
    obtain p where p: "p \<in> set (permissions d)" "p_id p = gi_perm g" using assms(3) g by force
    have "q = p" if "q \<in> set (permissions d)" "p_id q = p_id p" for q
      by (rule distinct_map_inj [OF assms(2) that(1) p(1) that(2)])
    then have "gi_perm g \<in> p_id ` {q \<in> set (permissions d). P q} \<longleftrightarrow> P p" for P
      unfolding p(2) [symmetric] using p(1) by (auto intro: image_eqI)
    from this [of "expired_guest now"] this [of "\<lambda>q. \<not> expired_guest now q"] show ?thesis by (simp add: d'(1))
  qed
  then have inv: "guest_invites d' = filter (\<lambda>g. gi_perm g \<in> p_id ` set (permissions d')) (guest_invites d)"
    unfolding d'(2) by (intro filter_cong refl)
  have len: "n = length (permissions d) - length (permissions d')"
    using sum_length_filter_compl [of "expired_guest now" "permissions d"] by (simp add: d'(1,3))
  have "grants t d' ws rt rid gt gid = grants t d ws rt rid gt gid" if "now \<le> t" for t ws rt rid gt gid
    unfolding grants_def d'(1) filter_filter using that
    by (intro filter_cong refl) (auto simp: expired_guest_def unexpired_def split: option.splits)
  then have "now \<le> t \<Longrightarrow> HasAccess flt t d' ws rt rid gt gid m = HasAccess flt t d ws rt rid gt gid m" for flt t ws rt rid gt gid m
    by (simp add: HasAccess_def CheckAccess_def cong: option.case_cong)
  with Inr d'(1) inv len show ?thesis by simp
qed

theorem guest_sweep_is_invisible_witness:
  "\<exists>d'. ExpireGuestAccess no_faults 91 sx_invited = (Inr 1, d') \<and> permissions d' = [] \<and> guest_invites d' = []
     \<and> HasAccess no_faults 91 d' 7 ''folder'' 2 ''guest'' 1007 ''viewer'' = HasAccess no_faults 91 sx_invited 7 ''folder'' 2 ''guest'' 1007 ''viewer''"
proof -
  have "case ExpireGuestAccess no_faults 91 sx_invited of (r, d') \<Rightarrow> r = Inr 1 \<and> permissions d' = [] \<and> guest_invites d' = []"
    by code_simp
  then obtain d' where run: "ExpireGuestAccess no_faults 91 sx_invited = (Inr 1, d')" "permissions d' = []" "guest_invites d' = []"
    by (auto split: prod.splits)
  have "distinct (map p_id (permissions sx_invited))" "gi_perm ` set (guest_invites sx_invited) \<subseteq> p_id ` set (permissions sx_invited)"
    by code_simp+
  from guest_sweep_is_invisible [OF run(1) this] run show ?thesis by simp
qed

end
