(* ===== verification/Room_Properties.thy ===== *)
theory Room_Properties
  imports Sharing_Properties
begin

text \<open>
  The properties of client rooms: what a creation leaves behind when it succeeds and when
  any of its steps fails, and what deleting a room does to its public link.
\<close>

section \<open>The steps of a creation\<close>

lemma folder_Create_ok:
  assumes "folder_Create dm flt new now ws par name by d = (Inr f, d')"
  shows "d' = d\<lparr>folders := folders d @ [f]\<rparr>" "live f" "f_ws f = ws" "f_parent f = par" "f_name f = TrimSpace name"
  by (rule CreateWithMode_insert [OF assms [unfolded folder_Create_def]],
      auto dest: folder_row_Create_Inr simp: new_folder_row_def)+

lemma folder_Create_error: "folder_Create dm flt new now ws par name by d = (Inl e, d') \<Longrightarrow> d' = d"
  unfolding folder_Create_def by (rule CreateWithMode_Inl)

lemma CreateShareLink_error:
  "CreateShareLink h rnd flt new now ws rt rid pw ex mx by d = (Inl e, d') \<Longrightarrow> d' = d"
  by (auto simp: CreateShareLink_def repo_CreateShareLink_def Let_def split: if_splits sum.splits option.splits)

lemma CreateShareLink_ok:
  assumes "CreateShareLink h rnd flt new now ws rt rid pw ex mx by d = (Inr l, d')"
  shows "d' = d\<lparr>share_links := share_links d @ [l]\<rparr>" "sl_ws l = ws" "sl_rtype l = rt" "sl_rid l = rid"
    "sl_expires_at l = ex" "sl_id l \<notin> sl_id ` set (share_links d)" "sl_count l = 0" "sl_max l = mx"
    "sl_token l \<notin> sl_token ` set (share_links d)"
  using assms by (auto simp: CreateShareLink_def repo_CreateShareLink_def Let_def split: if_splits sum.splits option.splits)

lemma room_repo_Create_error: "room_repo_Create flt new now room d = (Inl e, d') \<Longrightarrow> d' = d"
  by (auto simp: room_repo_Create_def Let_def split: if_splits)

lemma room_repo_Create_ok:
  assumes "room_repo_Create flt new now room d = (Inr r, d')"
  shows "d' = d\<lparr>client_rooms := client_rooms d @ [r]\<rparr>" "r = room\<lparr>cr_id := cr_id r, cr_created_at := cr_created_at r\<rparr>"
  using assms by (auto simp: room_repo_Create_def Let_def split: if_splits)

text \<open>Revoking the link just created gives back the links there were.\<close>

lemma revoke_fresh_link:
  assumes "share_links d = ls @ [l]" "sl_id l \<notin> sl_id ` set ls" "sl_ws l = ws"
    and "sl_id l \<notin> cr_link ` set (client_rooms d)" "\<not> flt ''delete share link''"
  shows "snd (RevokeShareLink flt ws (sl_id l) d) = d\<lparr>share_links := ls\<rparr>"
proof -
  have "filter (\<lambda>x. \<not> (sl_ws x = ws \<and> sl_id x = sl_id l)) ls = ls"
    using assms(2) by (intro filter_True) (metis image_eqI)
  then show ?thesis using assms(1,3-)
    by (simp add: RevokeShareLink_def DeleteShareLink_def rows_affected_def delete_rows_def Let_def)
qed

section \<open>Properties\<close>

text \<open>Creating a client room.  On success the room, a link for the room's folder
  with the room's expiry and no download cap, and the folder, a visible root folder of the
  workspace with the room's name, have been added and refer to each other.  On an error no
  room has been added, and unless the deletion of the link fails as well no link is left,
  so that no public token leads to a half-made room.\<close>

theorem room_creation_outcome:
  assumes "room_Create h dm flt dr now ws by inp d = (r, d')"
    and "cr_link ` set (client_rooms d) \<subseteq> sl_id ` set (share_links d)"
  shows "case r of
      Inr (room, link) \<Rightarrow> (\<exists>f. d' = d\<lparr>folders := folders d @ [f], share_links := share_links d @ [link],
            client_rooms := client_rooms d @ [room]\<rparr>
          \<and> live f \<and> f_ws f = ws \<and> f_parent f = None \<and> f_name f = cr_name room \<and> cr_folder room = f_id f \<and> cr_link room = sl_id link
          \<and> sl_ws link = ws \<and> sl_rtype link = ''folder'' \<and> sl_rid link = f_id f \<and> sl_expires_at link = cr_expires_at room
          \<and> sl_max link = None)
    | Inl e \<Rightarrow> client_rooms d' = client_rooms d \<and> (share_links d' = share_links d \<or> flt ''delete share link'')
        \<and> (folders d' = folders d \<or> (\<exists>f. folders d' = folders d @ [f]))"
proof -
  let ?n = "TrimSpace (ri_name inp)"
  show ?thesis
  proof (cases "?n = [] \<or> ContainsByte ?n CHR ''/''")
    case True
    with assms(1) show ?thesis by (auto simp: room_Create_def)
  next
    case name: False
    obtain r1 d1 where s1: "folder_Create dm flt (rd_folder dr) now ws None ?n by d = (r1, d1)" by fastforce
    show ?thesis
    proof (cases r1)
      case (Inl e)
      with s1 have "d1 = d" by (simp add: folder_Create_error)
      with assms(1) name s1 Inl show ?thesis by (auto simp: room_Create_def)
    next
      case (Inr f)
      note f = folder_Create_ok [OF s1 [unfolded Inr]]
      obtain r2 d2 where s2: "CreateShareLink h (rd_random dr) flt (rd_link dr) now ws ResourceFolder (f_id f)
          (ri_password inp) (ri_expires_at inp) None by d1 = (r2, d2)" by fastforce
      show ?thesis
      proof (cases r2)
        case e: (Inl e)
        with s2 have "d2 = d1" by (simp add: CreateShareLink_error)
        with assms(1) name s1 s2 Inr e f(1) show ?thesis by (auto simp: room_Create_def)
      next
        case l: (Inr l)
        note lk = CreateShareLink_ok [OF s2 [unfolded l]]
        let ?room = "\<lparr>cr_id = uuid_Nil, cr_ws = ws, cr_name = ?n, cr_folder = f_id f, cr_link = sl_id l,
           cr_dropbox = ri_dropbox inp, cr_expires_at = ri_expires_at inp, cr_created_by = by, cr_created_at = 0\<rparr>"
        obtain r3 d3 where s3: "room_repo_Create flt (rd_room dr) now ?room d2 = (r3, d3)" by fastforce
        show ?thesis
        proof (cases r3)
          case e: (Inl e)
          have d3: "d3 = d2" using s3 e by (simp add: room_repo_Create_error)
          have out: "r = Inl e" "d' = snd (RevokeShareLink flt ws (sl_id l) d2)"
            using assms(1) name s1 s2 s3 Inr l e d3 by (simp_all add: room_Create_def)
          have "share_links d2 = share_links d @ [l]" "client_rooms d2 = client_rooms d" "sl_id l \<notin> sl_id ` set (share_links d)"
            using lk(1,6) f(1) by simp_all
          moreover have "sl_id l \<notin> cr_link ` set (client_rooms d)" using assms(2) lk(6) f(1) by auto
          ultimately have "\<not> flt ''delete share link'' \<Longrightarrow> d' = d2\<lparr>share_links := share_links d\<rparr>"
            unfolding out(2) using lk(2) by (intro revoke_fresh_link) simp_all
          moreover have "client_rooms d' = client_rooms d2 \<and> folders d' = folders d2"
            unfolding out(2) by (simp add: RevokeShareLink_def DeleteShareLink_def Let_def)
          ultimately show ?thesis using out(1) lk(1) f(1) by auto
        next
          case rm: (Inr room)
          note ro = room_repo_Create_ok [OF s3 [unfolded rm]]
          have out: "r = Inr (room, l)" "d' = d3" using assms(1) name s1 s2 s3 Inr l rm by (simp_all add: room_Create_def)
          have "cr_folder room = f_id f" "cr_link room = sl_id l" "cr_name room = f_name f" "cr_expires_at room = ri_expires_at inp"
            by (subst ro(2), simp add: f(5))+
          with out ro(1) lk f show ?thesis by (auto simp: ResourceFolder_def)
        qed
      qed
    qed
  qed
qed

definition rx_input :: room_input where
  "rx_input = \<lparr>ri_name = '' Acme '', ri_password = [], ri_expires_at = Some 90, ri_dropbox = True\<rparr>"

definition rx_draws :: room_draws where
  "rx_draws = \<lparr>rd_folder = 80, rd_link = 81, rd_room = 82, rd_random = (\<lambda>i. i), rd_subs = (\<lambda>i. 90 + i)\<rparr>"

definition rx_run :: "(share_error + client_room \<times> share_link) \<times> db" where
  "rx_run = room_Create Some None no_faults rx_draws 20 7 9 rx_input ex_db"

definition rx_db :: db where "rx_db = snd rx_run"

theorem room_creation_outcome_witness:
  "\<exists>room link d'. rx_run = (Inr (room, link), d') \<and> cr_name room = ''Acme'' \<and> sl_rid link = cr_folder room
     \<and> sl_expires_at link = cr_expires_at room"
proof -
  have "case rx_run of (Inr (room, link), d') \<Rightarrow> cr_name room = ''Acme'' | _ \<Rightarrow> False" by code_simp
  then obtain room link d' where run: "rx_run = (Inr (room, link), d')" "cr_name room = ''Acme''"
    by (auto split: prod.splits sum.splits)
  have "cr_link ` set (client_rooms ex_db) \<subseteq> sl_id ` set (share_links ex_db)" by code_simp
  from room_creation_outcome [OF run(1) [unfolded rx_run_def] this]
  have "sl_rid link = cr_folder room \<and> sl_expires_at link = cr_expires_at room"
    unfolding sum.case prod.case by (elim exE conjE) (intro conjI, simp_all only:)
  with run show ?thesis by blast
qed

text \<open>Deleting a client room that succeeds removes the room and its link:
  from then on the link's token resolves to nothing, whatever password is given.  The
  folder and its files stay.\<close>

theorem deleted_room_link_is_dead:
  assumes "room_Delete flt ws i d = (None, d')"
    and "room \<in> set (client_rooms d)" "cr_ws room = ws" "cr_id room = i" "distinct (map cr_id (client_rooms d))"
    and "l \<in> set (share_links d)" "sl_id l = cr_link room" "sl_ws l = ws" "distinct (map sl_token (share_links d))"
  shows "(\<forall>r \<in> set (client_rooms d'). \<not> (cr_ws r = ws \<and> cr_id r = i))
    \<and> (\<forall>cmp now pw. ResolveShareLink cmp no_faults now (sl_token l) pw d' = (Inl ShareErrNotFound, d'))
    \<and> folders d' = folders d \<and> files d' = files d"
proof -
  have find: "find (\<lambda>r. cr_ws r = ws \<and> cr_id r = i) (client_rooms d) = Some room"
  proof (rule find_unique [OF assms(2)])
    show "y = room" if "y \<in> set (client_rooms d)" "cr_ws y = ws \<and> cr_id y = i" for y
      by (rule distinct_map_inj [OF assms(5) that(1) assms(2)]) (simp add: that(2) assms(4))
  qed (use assms in simp)
  then have get: "room_repo_Get flt d ws i = Inr room"
    using assms(1) by (auto simp: room_repo_Get_def room_Delete_def split: if_splits)
  let ?d1 = "d\<lparr>client_rooms := delete_rows (\<lambda>r. cr_ws r = ws \<and> cr_id r = i) (client_rooms d)\<rparr>"
  have del: "room_repo_Delete flt ws i d = (None, ?d1)"
    using assms(1) get by (auto simp: room_Delete_def room_repo_Delete_def Let_def split: if_splits)
  have "\<exists>x \<in> set (share_links d). sl_ws x = ws \<and> sl_id x = cr_link room" using assms(6-8) by blast
  then have ne: "rows_affected (\<lambda>x. sl_ws x = ws \<and> sl_id x = cr_link room) (share_links d) \<noteq> 0"
    by (auto simp: rows_affected_def filter_empty_conv)
  have d': "d' = ?d1\<lparr>share_links := delete_rows (\<lambda>x. sl_ws x = ws \<and> sl_id x = cr_link room) (share_links d)\<rparr>"
    using assms(1) get del ne
    by (auto simp: room_Delete_def RevokeShareLink_def DeleteShareLink_def Let_def split: if_splits)
  have "sl_token x \<noteq> sl_token l" if x: "x \<in> set (share_links d')" for x
  proof
    assume "sl_token x = sl_token l"
    moreover have "x \<in> set (share_links d)" "\<not> (sl_ws x = ws \<and> sl_id x = cr_link room)"
      using x by (auto simp: d' delete_rows_def)
    ultimately have "x = l" using distinct_map_inj [OF assms(9) _ assms(6)] by blast
    with x assms(7,8) show False by (simp add: d' delete_rows_def)
  qed
  then have "find (\<lambda>x. sl_token x = sl_token l) (share_links d') = None" by (simp add: find_None_iff)
  then show ?thesis
    by (auto simp: ResolveShareLink_def GetShareLinkByToken_def no_faults_def d' delete_rows_def)
qed

theorem deleted_room_link_is_dead_witness:
  "\<exists>d' token. room_Delete no_faults 7 82 rx_db = (None, d') \<and> length token = 43
     \<and> fst (ResolveShareLink (\<lambda>_ _. True) no_faults 30 token [] d') = Inl ShareErrNotFound
     \<and> (case ResolveShareLink (\<lambda>_ _. True) no_faults 30 token [] rx_db of (Inr _, _) \<Rightarrow> True | _ \<Rightarrow> False)"
proof -
  let ?room = "hd (client_rooms rx_db)" and ?l = "hd (share_links rx_db)"
  have "fst (room_Delete no_faults 7 82 rx_db) = None" by code_simp
  then obtain d' where run: "room_Delete no_faults 7 82 rx_db = (None, d')" by (metis prod.collapse)
  have "client_rooms rx_db \<noteq> [] \<and> share_links rx_db \<noteq> []" by code_simp
  then have mem: "?room \<in> set (client_rooms rx_db)" "?l \<in> set (share_links rx_db)" by auto
  have eqs: "cr_ws ?room = 7" "cr_id ?room = 82" "distinct (map cr_id (client_rooms rx_db))" "sl_id ?l = cr_link ?room"
    "sl_ws ?l = 7" "distinct (map sl_token (share_links rx_db))" by code_simp+
  have before: "case ResolveShareLink (\<lambda>_ _. True) no_faults 30 (sl_token ?l) [] rx_db of (Inr _, _) \<Rightarrow> True | _ \<Rightarrow> False"
    by code_simp
  have len: "length (sl_token ?l) = 43" by code_simp
  have "ResolveShareLink (\<lambda>_ _. True) no_faults 30 (sl_token ?l) [] d' = (Inl ShareErrNotFound, d')"
    using deleted_room_link_is_dead [OF run mem(1) eqs(1,2,3) mem(2) eqs(4,5,6)] by blast
  then have "fst (ResolveShareLink (\<lambda>_ _. True) no_faults 30 (sl_token ?l) [] d') = Inl ShareErrNotFound" by simp
  with run before len show ?thesis by (intro exI [of _ d'] exI [of _ "sl_token ?l"] conjI)
qed

end
