(* ===== verification/Audit_Log.thy ===== *)
theory Audit_Log
  imports Schema
begin

text \<open>
  The audit log (\<^verbatim>\<open>internal/audit\<close>: audit.go, chain.go, repository.go,
  service.go): entries chained per workspace by a keyed hash, the walk that verifies the
  chain, and the background writer.  HMAC-SHA256, the decoding and printing of JSON and the
  casts of Postgres (\<^verbatim>\<open>inet\<close>, \<^verbatim>\<open>jsonb\<close>) are parameters.
\<close>

section \<open>Entries\<close>

record audit_entry =
  ae_id :: uuid
  ae_ws :: uuid
  ae_actor :: "uuid option"
  ae_action :: string
  ae_rtype :: "string option"
  ae_rid :: "uuid option"
  ae_ip :: "string option"
  ae_ua :: "string option"
  ae_meta :: string
  ae_created :: time
  ae_seq :: int
  ae_prev :: string
  ae_hash :: string

text \<open>What the code takes from outside: the keyed hash, \<^verbatim>\<open>json.Decode\<close> followed by
  \<^verbatim>\<open>json.Marshal\<close>, the text Postgres returns for an address, and the JSON text it
  returns for a stored document; \<^const>\<open>None\<close> is an error.\<close>

record audit_env =
  env_mac :: "string \<Rightarrow> string \<Rightarrow> string"
  env_json :: "string \<Rightarrow> string option"
  env_inet :: "string \<Rightarrow> string option"
  env_jsonb :: "string \<Rightarrow> string option"

section \<open>The hash chain (chain.go)\<close>

fun be_bytes :: "nat \<Rightarrow> nat \<Rightarrow> string" where
  "be_bytes 0 n = []"
| "be_bytes (Suc k) n = be_bytes k (n div 256) @ [char_of (n mod 256)]"

definition uuid_bytes :: "uuid \<Rightarrow> string" where
  "uuid_bytes u = be_bytes 16 u"

text \<open>\<^verbatim>\<open>uint64(x)\<close> of a signed integer wraps.\<close>

definition uint64_of :: "int \<Rightarrow> nat" where
  "uint64_of x = nat (x mod 18446744073709551616)"

definition putUint64 :: "nat \<Rightarrow> string" where
  "putUint64 v = be_bytes 8 v"

definition putField :: "string \<Rightarrow> string" where
  "putField p = putUint64 (length p mod 18446744073709551616) @ p"

definition putOptString :: "string option \<Rightarrow> string" where
  "putOptString s = (case s of None \<Rightarrow> [CHR 0x00] | Some x \<Rightarrow> CHR 0x01 # putField x)"

definition putOptUUID :: "uuid option \<Rightarrow> string" where
  "putOptUUID u = (case u of None \<Rightarrow> [CHR 0x00] | Some x \<Rightarrow> CHR 0x01 # putField (uuid_bytes x))"

definition canonicalJSON :: "audit_env \<Rightarrow> string \<Rightarrow> string option" where
  "canonicalJSON env raw = (if TrimSpace raw = [] then Some [] else env_json env raw)"

definition UnixMicro :: "time \<Rightarrow> int" where
  "UnixMicro t = t div 1000"

definition genesis_message :: "uuid \<Rightarrow> string" where
  "genesis_message ws = ''zk-drive/audit-chain/genesis/v1'' @ CHR 0x00 # uuid_bytes ws"

definition genesis :: "audit_env \<Rightarrow> string \<Rightarrow> uuid \<Rightarrow> string" where
  "genesis env key ws = env_mac env key (genesis_message ws)"

definition payload :: "audit_entry \<Rightarrow> int \<Rightarrow> string \<Rightarrow> string \<Rightarrow> string" where
  "payload e seq prevHash canonMeta =
     putUint64 (uint64_of seq) @ putField prevHash @ putField (uuid_bytes (ae_id e)) @ putField (uuid_bytes (ae_ws e))
       @ putOptUUID (ae_actor e) @ putField (ae_action e) @ putOptString (ae_rtype e) @ putOptUUID (ae_rid e)
       @ putOptString (ae_ip e) @ putOptString (ae_ua e) @ putUint64 (uint64_of (UnixMicro (ae_created e)))
       @ putField canonMeta"

definition entry_message :: "audit_entry \<Rightarrow> int \<Rightarrow> string \<Rightarrow> string \<Rightarrow> string" where
  "entry_message e seq prevHash canonMeta =
     ''zk-drive/audit-chain/entry/v1'' @ CHR 0x00 # payload e seq prevHash canonMeta"

definition compute :: "audit_env \<Rightarrow> string \<Rightarrow> audit_entry \<Rightarrow> int \<Rightarrow> string \<Rightarrow> string option" where
  "compute env key e seq prevHash =
     (case canonicalJSON env (ae_meta e) of
        None \<Rightarrow> None
      | Some canonMeta \<Rightarrow> Some (env_mac env key (entry_message e seq prevHash canonMeta)))"

section \<open>The tables\<close>

text \<open>The \<^verbatim>\<open>seq\<close> column is null in rows from before the chain.\<close>

record audit_row =
  ar_entry :: audit_entry
  ar_seq :: "int option"

record chain_head =
  ch_ws :: uuid
  ch_seq :: int
  ch_hash :: string
  ch_updated_at :: time

record audit_db =
  audit_log :: "audit_row list"
  chain_heads :: "chain_head list"

definition scanRow :: "audit_row \<Rightarrow> audit_entry" where
  "scanRow r = (ar_entry r)\<lparr>ae_seq := (case ar_seq r of None \<Rightarrow> 0 | Some s \<Rightarrow> s)\<rparr>"

datatype audit_error =
    AuditErrDB string
  | AuditErrMetadata

section \<open>Repository (repository.go)\<close>

text \<open>The zero \<^verbatim>\<open>time.Time\<close>, 1 January of year 1.\<close>

definition zero_time :: time where "zero_time = - 62135596800 * 1000000000"

definition stamp :: "uuid \<Rightarrow> time \<Rightarrow> audit_entry \<Rightarrow> audit_entry" where
  "stamp new now e =
     (let e = (if ae_id e = uuid_Nil then e\<lparr>ae_id := new\<rparr> else e);
          e = (if ae_created e = zero_time then e\<lparr>ae_created := now\<rparr> else e)
      in e\<lparr>ae_created := ae_created e - ae_created e mod 1000\<rparr>)"

text \<open>What the insert stores of the address and the metadata: absent when empty, else what
  the cast makes of it.\<close>

definition stored_ip :: "audit_env \<Rightarrow> string option \<Rightarrow> string option option" where
  "stored_ip env ip =
     (case ip of
        None \<Rightarrow> Some None
      | Some x \<Rightarrow> if x = [] then Some None else map_option Some (env_inet env x))"

definition stored_meta :: "audit_env \<Rightarrow> string \<Rightarrow> string option" where
  "stored_meta env m = (if m = [] then Some [] else env_jsonb env m)"

definition chain_head_of :: "audit_db \<Rightarrow> uuid \<Rightarrow> chain_head option" where
  "chain_head_of d ws = find (\<lambda>h. ch_ws h = ws) (chain_heads d)"

definition ensure_head :: "audit_env \<Rightarrow> string \<Rightarrow> time \<Rightarrow> uuid \<Rightarrow> audit_db \<Rightarrow> audit_db" where
  "ensure_head env key now ws d =
     (case chain_head_of d ws of
        Some _ \<Rightarrow> d
      | None \<Rightarrow> d\<lparr>chain_heads := chain_heads d @
            [\<lparr>ch_ws = ws, ch_seq = 0, ch_hash = genesis env key ws, ch_updated_at = now\<rparr>]\<rparr>)"

definition insert_audit ::
  "audit_env \<Rightarrow> faults \<Rightarrow> audit_entry \<Rightarrow> int \<Rightarrow> string \<Rightarrow> string \<Rightarrow> audit_db \<Rightarrow> audit_db option" where
  "insert_audit env flt e seq prevHash entryHash d =
     (case (stored_ip env (ae_ip e), stored_meta env (ae_meta e)) of
        (Some ip, Some meta) \<Rightarrow>
          if flt ''insert audit''
             \<or> (\<exists>r \<in> set (audit_log d). ae_ws (ar_entry r) = ae_ws e
                  \<and> (ae_id (ar_entry r) = ae_id e \<or> ar_seq r = Some seq))
          then None
          else Some (d\<lparr>audit_log := audit_log d @
                 [\<lparr>ar_entry = e\<lparr>ae_ip := ip, ae_meta := meta, ae_seq := seq, ae_prev := prevHash, ae_hash := entryHash\<rparr>,
                   ar_seq = Some seq\<rparr>]\<rparr>)
      | _ \<Rightarrow> None)"

definition advance_head :: "time \<Rightarrow> uuid \<Rightarrow> int \<Rightarrow> string \<Rightarrow> audit_db \<Rightarrow> audit_db" where
  "advance_head now ws seq entryHash d =
     d\<lparr>chain_heads := update_rows (\<lambda>h. ch_ws h = ws)
         (\<lambda>h. h\<lparr>ch_seq := seq, ch_hash := entryHash, ch_updated_at := now\<rparr>) (chain_heads d)\<rparr>"

text \<open>\<^verbatim>\<open>Log\<close>: one transaction, which locks the head row of the workspace, so that
  calls for a workspace run one after the other; any error rolls it back.\<close>

definition audit_Log ::
  "audit_env \<Rightarrow> string \<Rightarrow> faults \<Rightarrow> uuid \<Rightarrow> time \<Rightarrow> audit_entry \<Rightarrow> audit_db \<Rightarrow> (audit_error + audit_entry) \<times> audit_db" where
  "audit_Log env key flt new now e0 d =
     (let e = stamp new now e0; ws = ae_ws e in
      if flt ''insert audit: begin'' then (Inl (AuditErrDB ''insert audit: begin''), d)
      else if flt ''insert audit: ensure chain head'' then (Inl (AuditErrDB ''insert audit: ensure chain head''), d)
      else let d1 = ensure_head env key now ws d in
        case chain_head_of d1 ws of
          None \<Rightarrow> (Inl (AuditErrDB ''insert audit: lock chain head''), d)
        | Some h \<Rightarrow>
            if flt ''insert audit: lock chain head'' then (Inl (AuditErrDB ''insert audit: lock chain head''), d)
            else let seq = ch_seq h + 1; prevHash = ch_hash h in
              case compute env key e seq prevHash of
                None \<Rightarrow> (Inl AuditErrMetadata, d)
              | Some entryHash \<Rightarrow>
                  (case insert_audit env flt e seq prevHash entryHash d1 of
                     None \<Rightarrow> (Inl (AuditErrDB ''insert audit''), d)
                   | Some d2 \<Rightarrow>
                       if flt ''insert audit: advance chain head''
                       then (Inl (AuditErrDB ''insert audit: advance chain head''), d)
                       else if flt ''insert audit: commit'' then (Inl (AuditErrDB ''insert audit: commit''), d)
                       else (Inr (e\<lparr>ae_seq := seq, ae_prev := prevHash, ae_hash := entryHash\<rparr>),
                             advance_head now ws seq entryHash d2)))"

definition ChainHead :: "faults \<Rightarrow> audit_db \<Rightarrow> uuid \<Rightarrow> audit_error + chain_head" where
  "ChainHead flt d ws =
     (if flt ''audit chain head'' then Inl (AuditErrDB ''audit chain head'')
      else case chain_head_of d ws of
        None \<Rightarrow> Inr \<lparr>ch_ws = ws, ch_seq = 0, ch_hash = [], ch_updated_at = zero_time\<rparr>
      | Some h \<Rightarrow> Inr h)"

record chain_verification =
  cv_ws :: uuid
  cv_valid :: bool
  cv_rows :: nat
  cv_head_seq :: int
  cv_first_invalid :: int
  cv_detail :: string

text \<open>The walk.  Its state between rows is the last row seen (the code's \<^verbatim>\<open>first\<close> is
  \<^const>\<open>None\<close>); the outcome is an error, an invalid row with its reason, or the last row.
  \<open>bad\<close> tells that the result set breaks off after the rows given.\<close>

datatype walk_result = WalkError audit_error | WalkInvalid nat int string | WalkEnd nat "audit_entry option"

fun verify_rows ::
  "audit_env \<Rightarrow> string \<Rightarrow> bool \<Rightarrow> audit_entry option \<Rightarrow> nat \<Rightarrow> audit_entry list \<Rightarrow> walk_result" where
  "verify_rows env key bad prev n [] =
     (if bad then WalkError (AuditErrDB ''verify chain: iterate'') else WalkEnd n prev)"
| "verify_rows env key bad prev n (e # es) =
     (if (case prev of None \<Rightarrow> False | Some p \<Rightarrow> ae_seq e \<noteq> ae_seq p + 1)
      then WalkInvalid (Suc n) (ae_seq e) ''sequence gap''
      else if (case prev of None \<Rightarrow> False | Some p \<Rightarrow> ae_prev e \<noteq> ae_hash p)
      then WalkInvalid (Suc n) (ae_seq e) ''broken link''
      else case compute env key e (ae_seq e) (ae_prev e) of
        None \<Rightarrow> WalkError AuditErrMetadata
      | Some want \<Rightarrow>
          if want \<noteq> ae_hash e then WalkInvalid (Suc n) (ae_seq e) ''entry_hash mismatch''
          else verify_rows env key bad (Some e) (Suc n) es)"

definition chained_rows :: "audit_db \<Rightarrow> uuid \<Rightarrow> audit_entry list" where
  "chained_rows d ws =
     sort_key ae_seq (map scanRow (filter (\<lambda>r. ae_ws (ar_entry r) = ws \<and> ar_seq r \<noteq> None) (audit_log d)))"

text \<open>The head and the rows are read by two statements, from the databases \<open>d\<close> and \<open>d'\<close>; other
  requests may run between them.  \<open>brk\<close> is the number of rows delivered before the result set
  breaks off, if it does.\<close>

definition VerifyChain_at ::
  "audit_env \<Rightarrow> string \<Rightarrow> faults \<Rightarrow> nat option \<Rightarrow> audit_db \<Rightarrow> audit_db \<Rightarrow> uuid \<Rightarrow> audit_error + chain_verification" where
  "VerifyChain_at env key flt brk d d' ws =
     (case ChainHead flt d ws of
        Inl e \<Rightarrow> Inl e
      | Inr head \<Rightarrow>
          let res = \<lparr>cv_ws = ws, cv_valid = False, cv_rows = 0, cv_head_seq = ch_seq head,
                     cv_first_invalid = 0, cv_detail = []\<rparr>
          in if flt ''verify chain: query rows'' then Inl (AuditErrDB ''verify chain: query rows'')
             else case verify_rows env key (brk \<noteq> None) None 0
                         (case brk of None \<Rightarrow> chained_rows d' ws | Some k \<Rightarrow> take k (chained_rows d' ws)) of
               WalkError e \<Rightarrow> Inl e
             | WalkInvalid n s detail \<Rightarrow> Inr (res\<lparr>cv_rows := n, cv_first_invalid := s, cv_detail := detail\<rparr>)
             | WalkEnd n None \<Rightarrow> Inr (res\<lparr>cv_rows := n, cv_valid := True\<rparr>)
             | WalkEnd n (Some l) \<Rightarrow>
                 if ae_seq l \<noteq> ch_seq head
                 then Inr (res\<lparr>cv_rows := n, cv_first_invalid := ae_seq l, cv_detail := ''head seq''\<rparr>)
                 else if ae_hash l \<noteq> ch_hash head
                 then Inr (res\<lparr>cv_rows := n, cv_first_invalid := ae_seq l, cv_detail := ''head_hash''\<rparr>)
                 else Inr (res\<lparr>cv_rows := n, cv_valid := True\<rparr>))"

definition VerifyChain ::
  "audit_env \<Rightarrow> string \<Rightarrow> faults \<Rightarrow> nat option \<Rightarrow> audit_db \<Rightarrow> uuid \<Rightarrow> audit_error + chain_verification" where
  "VerifyChain env key flt brk d ws = VerifyChain_at env key flt brk d d ws"

definition normalizePaging :: "int \<Rightarrow> int \<Rightarrow> int \<times> int" where
  "normalizePaging limit offset =
     (let limit = (if limit \<le> 0 then 50 else limit);
          limit = (if limit > 200 then 200 else limit);
          offset = (if offset < 0 then 0 else offset)
      in (limit, offset))"

definition audit_List :: "faults \<Rightarrow> audit_db \<Rightarrow> uuid \<Rightarrow> string \<Rightarrow> int \<Rightarrow> int \<Rightarrow> audit_error + audit_entry list" where
  "audit_List flt d ws action limit0 offset0 =
     (case normalizePaging limit0 offset0 of
        (limit, offset) \<Rightarrow>
          if flt ''list audit'' then Inl (AuditErrDB ''list audit'')
          else Inr (take (nat limit) (drop (nat offset)
                 (sort_key (\<lambda>e. - ae_created e)
                   (map scanRow (filter (\<lambda>r. ae_ws (ar_entry r) = ws \<and> (action = [] \<or> ae_action (ar_entry r) = action))
                      (audit_log d)))))))"

section \<open>The service (service.go)\<close>

definition audit_clientIP :: "string \<Rightarrow> string" where
  "audit_clientIP addr =
     (if addr = [] then []
      else case LastIndexByte addr CHR '':'' of
        None \<Rightarrow> addr
      | Some i \<Rightarrow>
          if i > 0 then TrimSuffix (TrimPrefix (take i addr) ''['') '']'' else addr)"

text \<open>\<^verbatim>\<open>LogAction\<close>: the entry it builds.  \<open>remote\<close> is the request's remote address and
  user agent, if there is a request; \<open>meta\<close> the marshalled metadata, empty if there is none or
  it does not marshal.\<close>

definition action_entry ::
  "uuid \<Rightarrow> uuid option \<Rightarrow> string \<Rightarrow> string \<Rightarrow> uuid option \<Rightarrow> (string \<times> string) option \<Rightarrow> string \<Rightarrow> audit_entry" where
  "action_entry ws actor action rtype rid remote meta =
     \<lparr>ae_id = uuid_Nil, ae_ws = ws, ae_actor = actor, ae_action = action,
      ae_rtype = (if rtype \<noteq> [] then Some rtype else None), ae_rid = rid,
      ae_ip = (case remote of None \<Rightarrow> None | Some (addr, _) \<Rightarrow> let ip = audit_clientIP addr in if ip \<noteq> [] then Some ip else None),
      ae_ua = (case remote of None \<Rightarrow> None | Some (_, ua) \<Rightarrow> if ua \<noteq> [] then Some ua else None),
      ae_meta = meta, ae_created = zero_time, ae_seq = 0, ae_prev = [], ae_hash = []\<rparr>"

definition defaultBufferSize :: nat where "defaultBufferSize = 1024"

text \<open>The writer: a bounded queue, closed once.  \<open>taken\<close> lists the entries handed to the
  repository, in order.  \<open>pick\<close> is the choice of \<^verbatim>\<open>select\<close> when the channel is
  closed and has room.\<close>

record audit_writer =
  aw_queue :: "audit_entry list"
  aw_closed :: bool
  aw_done :: bool
  aw_taken :: "audit_entry list"

definition writer_Log :: "bool \<Rightarrow> audit_entry \<Rightarrow> audit_writer \<Rightarrow> audit_writer" where
  "writer_Log pick e w =
     (let room = length (aw_queue w) < defaultBufferSize in
      if aw_closed w \<and> (pick \<or> \<not> room) then w
      else if room then w\<lparr>aw_queue := aw_queue w @ [e]\<rparr>
      else w)"

definition writer_Close :: "audit_writer \<Rightarrow> audit_writer" where
  "writer_Close w = w\<lparr>aw_closed := True\<rparr>"

text \<open>One turn of \<^verbatim>\<open>run\<close>: it takes an entry, or, closed and drained, ends.\<close>

definition writer_run :: "audit_writer \<Rightarrow> audit_writer" where
  "writer_run w =
     (if aw_done w then w
      else case aw_queue w of
        e # es \<Rightarrow> w\<lparr>aw_queue := es, aw_taken := aw_taken w @ [e]\<rparr>
      | [] \<Rightarrow> if aw_closed w then w\<lparr>aw_done := True\<rparr> else w)"

definition audit_flush ::
  "audit_env \<Rightarrow> string \<Rightarrow> faults \<Rightarrow> uuid \<Rightarrow> time \<Rightarrow> audit_entry \<Rightarrow> audit_db \<Rightarrow> audit_db" where
  "audit_flush env key flt new now e d = snd (audit_Log env key flt new now e d)"

end
