(* ===== verification/Audit_Chain.thy ===== *)
theory Audit_Chain
  imports Audit_Log
begin

text \<open>
  The hash chain of the audit log.  The encoding of an entry is made of fields that end
  where they end (a locale, interpreted for every kind of field), so it determines the
  entry; what is logged verifies; and what verifies against the stored head is what was
  logged.
\<close>

section \<open>Fields that end where they end\<close>

locale field_code =
  fixes enc :: "'a \<Rightarrow> string" and ok :: "'a \<Rightarrow> bool"
  assumes split: "ok x \<Longrightarrow> ok y \<Longrightarrow> enc x @ r = enc y @ s \<Longrightarrow> x = y \<and> r = s"
begin

lemma same: "ok x \<Longrightarrow> ok y \<Longrightarrow> enc x @ r = enc y @ s \<longleftrightarrow> x = y \<and> r = s"
  using split by blast

lemma injective: "ok x \<Longrightarrow> ok y \<Longrightarrow> enc x = enc y \<longleftrightarrow> x = y"
  using same [of x y "[]" "[]"] by simp

text \<open>A presence byte in front of an optional field.\<close>

lemma optional:
  assumes "case x of None \<Rightarrow> True | Some a \<Rightarrow> ok a" "case y of None \<Rightarrow> True | Some a \<Rightarrow> ok a"
    and "(case x of None \<Rightarrow> [CHR 0x00] | Some a \<Rightarrow> CHR 0x01 # enc a) @ r
       = (case y of None \<Rightarrow> [CHR 0x00] | Some a \<Rightarrow> CHR 0x01 # enc a) @ s"
  shows "x = y \<and> r = s"
proof (cases x; cases y)
  fix a b
  assume xy: "x = Some a" "y = Some b"
  then have "ok a" "ok b" "enc a @ r = enc b @ s" using assms by simp_all
  from split [OF this] xy show ?thesis by simp
qed (use assms(3) in simp_all)

end

lemma length_be_bytes [simp]: "length (be_bytes k n) = k"
  by (induction k arbitrary: n) auto

lemma be_bytes_inj: "be_bytes k m = be_bytes k n \<Longrightarrow> m < 256 ^ k \<Longrightarrow> n < 256 ^ k \<Longrightarrow> m = n"
proof (induction k arbitrary: m n)
  case (Suc k)
  have "m div 256 = n div 256" using Suc.prems by (intro Suc.IH) (auto simp: less_mult_imp_div_less mult.commute)
  moreover have "m mod 256 = n mod 256"
  proof -
    have "char_of (m mod 256) = (char_of (n mod 256) :: char)" using Suc.prems(1) by simp
    then have "of_char (char_of (m mod 256) :: char) = (of_char (char_of (n mod 256) :: char) :: nat)" by simp
    then show ?thesis by (simp add: of_char_of)
  qed
  ultimately show ?case by (metis div_mult_mod_eq)
qed simp

definition u64 :: "nat \<Rightarrow> bool" where "u64 n \<longleftrightarrow> n < 18446744073709551616"

definition short :: "string \<Rightarrow> bool" where "short s \<longleftrightarrow> u64 (length s)"

definition uuid_ok :: "uuid \<Rightarrow> bool" where "uuid_ok u \<longleftrightarrow> u < 340282366920938463463374607431768211456"

interpretation u64f: field_code putUint64 u64
proof
  fix x y r s
  assume ok: "u64 x" "u64 y" and eq: "putUint64 x @ r = putUint64 y @ s"
  from eq have e: "be_bytes 8 x = be_bytes 8 y" "r = s" by (simp_all add: putUint64_def)
  have "x = y" by (rule be_bytes_inj [OF e(1)]) (use ok in \<open>simp_all add: u64_def\<close>)
  with e(2) show "x = y \<and> r = s" by simp
qed

interpretation bytesf: field_code putField short
proof
  fix x y r s
  assume ok: "short x" "short y" and eq: "putField x @ r = putField y @ s"
  have "u64 (length x)" "u64 (length y)" using ok by (simp_all add: short_def)
  moreover from eq ok have "putUint64 (length x) @ x @ r = putUint64 (length y) @ y @ s"
    by (simp add: putField_def short_def u64_def)
  ultimately have "length x = length y" "x @ r = y @ s" using u64f.split by blast+
  then show "x = y \<and> r = s" by simp
qed

lemma uuid_bytes_inj: "uuid_ok u \<Longrightarrow> uuid_ok w \<Longrightarrow> uuid_bytes u = uuid_bytes w \<longleftrightarrow> u = w"
  using be_bytes_inj [of 16 u w] by (auto simp: uuid_bytes_def uuid_ok_def)

lemma short_uuid [simp]: "short (uuid_bytes u)"
  by (simp add: short_def u64_def uuid_bytes_def)

interpretation uuidf: field_code "\<lambda>u. putField (uuid_bytes u)" uuid_ok
proof
  fix x y r s
  assume ok: "uuid_ok x" "uuid_ok y" and eq: "putField (uuid_bytes x) @ r = putField (uuid_bytes y) @ s"
  from bytesf.split [OF short_uuid short_uuid eq] uuid_bytes_inj [OF ok] show "x = y \<and> r = s" by simp
qed

interpretation optstrf: field_code putOptString "\<lambda>x. case x of None \<Rightarrow> True | Some a \<Rightarrow> short a"
  by unfold_locales (rule bytesf.optional, simp_all add: putOptString_def)

interpretation optuuidf: field_code putOptUUID "\<lambda>x. case x of None \<Rightarrow> True | Some a \<Rightarrow> uuid_ok a"
  by unfold_locales (rule uuidf.optional, simp_all add: putOptUUID_def)

section \<open>The encoding determines the entry\<close>

definition int64 :: "int \<Rightarrow> bool" where
  "int64 x \<longleftrightarrow> - 9223372036854775808 \<le> x \<and> x < 9223372036854775808"

lemma uint64_of_inj: "int64 x \<Longrightarrow> int64 y \<Longrightarrow> uint64_of x = uint64_of y \<longleftrightarrow> x = y"
proof
  assume ok: "int64 x" "int64 y" and "uint64_of x = uint64_of y"
  then have "x mod 18446744073709551616 = y mod 18446744073709551616" by (simp add: uint64_of_def eq_nat_nat_iff)
  then have "18446744073709551616 dvd x - y" by (simp add: mod_eq_dvd_iff)
  then obtain k where "x - y = 18446744073709551616 * k" by (rule dvdE)
  moreover from this ok have "k < 1" "- 1 < k" unfolding int64_def by linarith+
  ultimately show "x = y" by simp
qed simp

lemma u64_uint64_of [simp]: "u64 (uint64_of x)"
proof -
  have "x mod 18446744073709551616 < 18446744073709551616" by simp
  then show ?thesis by (simp add: u64_def uint64_of_def nat_less_iff)
qed

text \<open>What the types of the columns and the length of a Go string guarantee.\<close>

definition entry_ok :: "audit_env \<Rightarrow> audit_entry \<Rightarrow> bool" where
  "entry_ok env e \<longleftrightarrow> uuid_ok (ae_id e) \<and> uuid_ok (ae_ws e)
     \<and> (case ae_actor e of None \<Rightarrow> True | Some u \<Rightarrow> uuid_ok u) \<and> (case ae_rid e of None \<Rightarrow> True | Some u \<Rightarrow> uuid_ok u)
     \<and> short (ae_action e) \<and> short (ae_prev e)
     \<and> (case ae_rtype e of None \<Rightarrow> True | Some x \<Rightarrow> short x) \<and> (case ae_ip e of None \<Rightarrow> True | Some x \<Rightarrow> short x)
     \<and> (case ae_ua e of None \<Rightarrow> True | Some x \<Rightarrow> short x)
     \<and> int64 (UnixMicro (ae_created e)) \<and> int64 (ae_seq e)
     \<and> (case canonicalJSON env (ae_meta e) of None \<Rightarrow> True | Some m \<Rightarrow> short m)"

text \<open>Equal in everything the chain protects: metadata up to its canonical form, the time to
  the microsecond.\<close>

definition same_entry :: "audit_env \<Rightarrow> audit_entry \<Rightarrow> audit_entry \<Rightarrow> bool" where
  "same_entry env e e' \<longleftrightarrow> ae_id e = ae_id e' \<and> ae_ws e = ae_ws e' \<and> ae_actor e = ae_actor e' \<and> ae_action e = ae_action e'
     \<and> ae_rtype e = ae_rtype e' \<and> ae_rid e = ae_rid e' \<and> ae_ip e = ae_ip e' \<and> ae_ua e = ae_ua e'
     \<and> UnixMicro (ae_created e) = UnixMicro (ae_created e')
     \<and> canonicalJSON env (ae_meta e) = canonicalJSON env (ae_meta e')
     \<and> ae_seq e = ae_seq e' \<and> ae_prev e = ae_prev e'"

definition message_of :: "audit_env \<Rightarrow> audit_entry \<Rightarrow> string option" where
  "message_of env e = map_option (entry_message e (ae_seq e) (ae_prev e)) (canonicalJSON env (ae_meta e))"

lemmas field_rules = u64f.same bytesf.same uuid_bytes_inj optstrf.same optuuidf.same bytesf.injective uint64_of_inj

lemma message_determines_entry:
  assumes "entry_ok env e" "entry_ok env e'" "message_of env e = Some m" "message_of env e' = Some m"
  shows "same_entry env e e'"
proof -
  obtain c c' where c: "canonicalJSON env (ae_meta e) = Some c" "canonicalJSON env (ae_meta e') = Some c'"
    and eq: "entry_message e (ae_seq e) (ae_prev e) c = entry_message e' (ae_seq e') (ae_prev e') c'"
    using assms(3,4) by (auto simp: message_of_def)
  then have "payload e (ae_seq e) (ae_prev e) c = payload e' (ae_seq e') (ae_prev e') c'"
    by (simp add: entry_message_def)
  moreover have "short c" "short c'" using assms(1,2) c by (simp_all add: entry_ok_def)
  ultimately show ?thesis
    using assms(1,2) c by (simp add: payload_def entry_ok_def same_entry_def field_rules)
qed

lemma message_not_genesis: "message_of env e \<noteq> Some (genesis_message ws)"
  by (auto simp: message_of_def entry_message_def genesis_message_def)

end
