(* ===== verification/Audit_Properties.thy ===== *)
theory Audit_Properties
  imports Audit_Chain "HOL-Library.Code_Target_Nat"
begin

text \<open>
  The properties of the audit log: what is logged verifies, what verifies was logged, and
  what breaks the verification of an untouched log.
\<close>

section \<open>Linked entries\<close>

fun linked :: "audit_env \<Rightarrow> string \<Rightarrow> audit_entry list \<Rightarrow> bool" where
  "linked env key [] = True"
| "linked env key (e # es) =
     (compute env key e (ae_seq e) (ae_prev e) = Some (ae_hash e)
      \<and> (case es of [] \<Rightarrow> True | f # _ \<Rightarrow> ae_seq f = ae_seq e + 1 \<and> ae_prev f = ae_hash e)
      \<and> linked env key es)"

lemma linked_snoc:
  "linked env key (es @ [e]) \<longleftrightarrow> linked env key es \<and> compute env key e (ae_seq e) (ae_prev e) = Some (ae_hash e)
     \<and> (es = [] \<or> ae_seq e = ae_seq (last es) + 1 \<and> ae_prev e = ae_hash (last es))"
  by (induction es) (auto split: list.splits)

lemma linked_drop: "linked env key es \<Longrightarrow> linked env key (drop k es)"
proof (induction es arbitrary: k)
  case (Cons e es)
  then show ?case by (cases k) auto
qed simp

lemma verify_rows_linked:
  "verify_rows env key bad prev n es = WalkEnd n' l \<longleftrightarrow>
     \<not> bad \<and> linked env key es \<and> n' = n + length es \<and> l = (if es = [] then prev else Some (last es))
     \<and> (case (prev, es) of (Some p, e # _) \<Rightarrow> ae_seq e = ae_seq p + 1 \<and> ae_prev e = ae_hash p | _ \<Rightarrow> True)"
proof (induction es arbitrary: prev n)
  case (Cons e es)
  let ?link = "case prev of None \<Rightarrow> True | Some p \<Rightarrow> ae_seq e = ae_seq p + 1 \<and> ae_prev e = ae_hash p"
  show ?case
  proof (cases "?link \<and> compute env key e (ae_seq e) (ae_prev e) = Some (ae_hash e)")
    case True
    then have step: "verify_rows env key bad prev n (e # es) = verify_rows env key bad (Some e) (Suc n) es"
      by (cases prev) auto
    show ?thesis unfolding step Cons.IH using True by (cases prev; cases es) auto
  next
    case False
    then have "verify_rows env key bad prev n (e # es) \<noteq> WalkEnd n' l"
      by (cases prev; cases "compute env key e (ae_seq e) (ae_prev e)") auto
    with False show ?thesis by (cases prev) auto
  qed
qed (auto split: option.splits)

lemma chain_valid_counts:
  assumes "VerifyChain env key no_faults None d ws = Inr v" "cv_valid v"
  shows "cv_rows v = length (chained_rows d ws)" "\<exists>h. ChainHead no_faults d ws = Inr h \<and> cv_head_seq v = ch_seq h"
proof -
  obtain h where h: "ChainHead no_faults d ws = Inr h"
    by (cases "chain_head_of d ws") (auto simp: ChainHead_def no_faults_def)
  obtain n l where w: "verify_rows env key False None 0 (chained_rows d ws) = WalkEnd n l"
    using assms h by (cases "verify_rows env key False None 0 (chained_rows d ws)")
      (auto simp: VerifyChain_def VerifyChain_at_def Let_def no_faults_def)
  then have n: "n = length (chained_rows d ws)" unfolding verify_rows_linked by simp
  have "cv_rows v = n \<and> cv_head_seq v = ch_seq h"
    using assms h w by (cases l) (auto simp: VerifyChain_def VerifyChain_at_def Let_def no_faults_def split: if_splits)
  with n h show "cv_rows v = length (chained_rows d ws)" "\<exists>h. ChainHead no_faults d ws = Inr h \<and> cv_head_seq v = ch_seq h"
    by blast+
qed

lemma linked_last_seq: "linked env key es \<Longrightarrow> es \<noteq> [] \<Longrightarrow> ae_seq (last es) = ae_seq (hd es) + int (length es) - 1"
proof (induction es rule: rev_induct)
  case (snoc x es)
  then show ?case by (cases "es = []") (auto simp: linked_snoc)
qed simp

lemma chain_valid_iff:
  "(\<exists>v. VerifyChain env key no_faults None d ws = Inr v \<and> cv_valid v) \<longleftrightarrow>
     linked env key (chained_rows d ws)
     \<and> (chained_rows d ws \<noteq> [] \<longrightarrow> (\<exists>h. ChainHead no_faults d ws = Inr h
          \<and> ae_seq (last (chained_rows d ws)) = ch_seq h \<and> ae_hash (last (chained_rows d ws)) = ch_hash h))"
  (is "?valid \<longleftrightarrow> ?chain")
proof -
  let ?es = "chained_rows d ws"
  obtain h where h: "ChainHead no_faults d ws = Inr h"
    by (cases "chain_head_of d ws") (auto simp: ChainHead_def no_faults_def)
  show ?thesis
  proof (cases "verify_rows env key False None 0 ?es")
    case (WalkEnd n l)
    then have w: "linked env key ?es" "l = (if ?es = [] then None else Some (last ?es))"
      unfolding verify_rows_linked by auto
    show ?thesis
      using WalkEnd w h by (auto simp: VerifyChain_def VerifyChain_at_def Let_def no_faults_def)
  next
    case (WalkError e)
    then have "\<not> linked env key ?es" using verify_rows_linked [of env key False None 0 ?es] by (auto split: list.splits)
    with WalkError h show ?thesis by (auto simp: VerifyChain_def VerifyChain_at_def Let_def no_faults_def)
  next
    case (WalkInvalid n s t)
    then have "\<not> linked env key ?es" using verify_rows_linked [of env key False None 0 ?es] by (auto split: list.splits)
    with WalkInvalid h show ?thesis by (auto simp: VerifyChain_def VerifyChain_at_def Let_def no_faults_def)
  qed
qed

section \<open>What logging does to the chain\<close>

lemma insort_key_snoc: "f a \<le> f x \<Longrightarrow> insort_key f a (ys @ [x]) = insort_key f a ys @ [x]"
  by (induction ys) auto

lemma sort_key_snoc: "(\<And>y. y \<in> set xs \<Longrightarrow> f y \<le> f x) \<Longrightarrow> sort_key f (xs @ [x]) = sort_key f xs @ [x]"
  by (induction xs) (simp_all add: insort_key_snoc)

definition new_row :: "audit_env \<Rightarrow> audit_entry \<Rightarrow> string option \<Rightarrow> string \<Rightarrow> chain_head \<Rightarrow> string \<Rightarrow> audit_entry" where
  "new_row env e ip meta h hash = e\<lparr>ae_ip := ip, ae_meta := meta, ae_seq := ch_seq h + 1, ae_prev := ch_hash h, ae_hash := hash\<rparr>"

text \<open>A successful \<^verbatim>\<open>Log\<close> appends one row after the head and moves the head.\<close>

lemma audit_Log_ok:
  assumes "audit_Log env key flt new now e0 d = (Inr e', d')"
  obtains h e ip meta hash where "e = stamp new now e0" "chain_head_of (ensure_head env key now (ae_ws e) d) (ae_ws e) = Some h"
    "compute env key e (ch_seq h + 1) (ch_hash h) = Some hash"
    "stored_ip env (ae_ip e) = Some ip" "stored_meta env (ae_meta e) = Some meta"
    "audit_log d' = audit_log d @ [\<lparr>ar_entry = new_row env e ip meta h hash, ar_seq = Some (ch_seq h + 1)\<rparr>]"
    "d' = advance_head now (ae_ws e) (ch_seq h + 1) hash (ensure_head env key now (ae_ws e) d\<lparr>audit_log := audit_log d'\<rparr>)"
proof -
  let ?e = "stamp new now e0"
  let ?d1 = "ensure_head env key now (ae_ws ?e) d"
  have log: "audit_log ?d1 = audit_log d" by (simp add: ensure_head_def split: option.splits)
  obtain h hash d2 where h: "chain_head_of ?d1 (ae_ws ?e) = Some h" "compute env key ?e (ch_seq h + 1) (ch_hash h) = Some hash"
    "insert_audit env flt ?e (ch_seq h + 1) (ch_hash h) hash ?d1 = Some d2" "d' = advance_head now (ae_ws ?e) (ch_seq h + 1) hash d2"
    using assms by (auto simp: audit_Log_def Let_def split: if_splits option.splits)
  from h(3) log obtain ip meta where i: "stored_ip env (ae_ip ?e) = Some ip" "stored_meta env (ae_meta ?e) = Some meta"
    "d2 = ?d1\<lparr>audit_log := audit_log d @ [\<lparr>ar_entry = new_row env ?e ip meta h hash, ar_seq = Some (ch_seq h + 1)\<rparr>]\<rparr>"
    by (auto simp: insert_audit_def new_row_def split: option.splits if_splits)
  show thesis
  proof (rule that [OF refl h(1,2) i(1,2)])
    show log': "audit_log d' = audit_log d @ [\<lparr>ar_entry = new_row env ?e ip meta h hash, ar_seq = Some (ch_seq h + 1)\<rparr>]"
      by (simp add: h(4) i(3) advance_head_def)
    show "d' = advance_head now (ae_ws ?e) (ch_seq h + 1) hash (?d1\<lparr>audit_log := audit_log d'\<rparr>)"
      unfolding log' by (simp add: h(4) i(3))
  qed
qed

lemma audit_Log_error: "audit_Log env key flt new now e0 d = (Inl er, d') \<Longrightarrow> d' = d"
  by (auto simp: audit_Log_def Let_def split: if_splits option.splits)

lemma chain_head_of_ensure:
  "chain_head_of (ensure_head env key now ws d) w =
     (if w = ws \<and> chain_head_of d ws = None
      then Some \<lparr>ch_ws = ws, ch_seq = 0, ch_hash = genesis env key ws, ch_updated_at = now\<rparr> else chain_head_of d w)"
  by (auto simp: ensure_head_def chain_head_of_def find_append split: option.splits)

lemma chain_head_of_advance:
  "chain_head_of (advance_head now ws seq hash d) w =
     map_option (\<lambda>h. if w = ws then h\<lparr>ch_seq := seq, ch_hash := hash, ch_updated_at := now\<rparr> else h) (chain_head_of d w)"
proof -
  have "find (\<lambda>h. ch_ws h = w) (update_rows (\<lambda>h. ch_ws h = ws)
          (\<lambda>h. h\<lparr>ch_seq := seq, ch_hash := hash, ch_updated_at := now\<rparr>) hs)
      = map_option (\<lambda>h. if w = ws then h\<lparr>ch_seq := seq, ch_hash := hash, ch_updated_at := now\<rparr> else h)
          (find (\<lambda>h. ch_ws h = w) hs)" for hs
    by (induction hs) (auto simp: update_rows_def)
  then show ?thesis by (simp add: chain_head_of_def advance_head_def)
qed

section \<open>Honest logs\<close>

text \<open>An entry the database stores as it was hashed: its address is the one Postgres prints,
  and storing its metadata keeps the canonical form.\<close>

definition faithful :: "audit_env \<Rightarrow> audit_entry \<Rightarrow> bool" where
  "faithful env e \<longleftrightarrow> stored_ip env (ae_ip e) = Some (ae_ip e)
     \<and> (case stored_meta env (ae_meta e) of None \<Rightarrow> True | Some m \<Rightarrow> canonicalJSON env m = canonicalJSON env (ae_meta e))"

inductive audit_step :: "audit_env \<Rightarrow> string \<Rightarrow> audit_db \<Rightarrow> audit_db \<Rightarrow> bool" for env key where
  log: "faithful env e \<Longrightarrow> audit_step env key d (snd (audit_Log env key flt new now e d))"

definition no_audit :: audit_db where "no_audit = \<lparr>audit_log = [], chain_heads = []\<rparr>"

definition anchored :: "audit_env \<Rightarrow> string \<Rightarrow> uuid \<Rightarrow> audit_entry list \<Rightarrow> int \<Rightarrow> string \<Rightarrow> bool" where
  "anchored env key ws es n g \<longleftrightarrow> linked env key es \<and>
     (if es = [] then n = 0 \<and> g = genesis env key ws
      else ae_seq (hd es) = 1 \<and> ae_prev (hd es) = genesis env key ws \<and> ae_seq (last es) = n \<and> ae_hash (last es) = g)"

definition chain_inv :: "audit_env \<Rightarrow> string \<Rightarrow> audit_db \<Rightarrow> bool" where
  "chain_inv env key d \<longleftrightarrow> (\<forall>ws. case chain_head_of d ws of
       None \<Rightarrow> chained_rows d ws = []
     | Some h \<Rightarrow> anchored env key ws (chained_rows d ws) (ch_seq h) (ch_hash h))"

lemma linked_seq_bound: "linked env key es \<Longrightarrow> e \<in> set es \<Longrightarrow> ae_seq e \<le> ae_seq (last es)"
proof (induction es rule: rev_induct)
  case (snoc x es)
  then show ?case by (cases "es = []") (auto simp: linked_snoc)
qed simp

lemma compute_same:
  assumes "ae_id e' = ae_id e" "ae_ws e' = ae_ws e" "ae_actor e' = ae_actor e" "ae_action e' = ae_action e"
    "ae_rtype e' = ae_rtype e" "ae_rid e' = ae_rid e" "ae_ip e' = ae_ip e" "ae_ua e' = ae_ua e" "ae_created e' = ae_created e"
    "canonicalJSON env (ae_meta e') = canonicalJSON env (ae_meta e)"
  shows "compute env key e' s p = compute env key e s p"
  using assms by (simp add: compute_def entry_message_def payload_def split: option.split)

lemma stamp_fields [simp]:
  "ae_ws (stamp new now e) = ae_ws e" "ae_ip (stamp new now e) = ae_ip e" "ae_meta (stamp new now e) = ae_meta e"
  by (simp_all add: stamp_def Let_def)

text \<open>The rows of the log that the walk sees, after an append.\<close>

lemma chained_rows_append:
  assumes "audit_log d' = audit_log d @ [\<lparr>ar_entry = x, ar_seq = Some s\<rparr>]" "ae_seq x = s"
    and "\<And>e. e \<in> set (chained_rows d (ae_ws x)) \<Longrightarrow> ae_seq e \<le> s"
  shows "chained_rows d' ws = (if ws = ae_ws x then chained_rows d ws @ [x] else chained_rows d ws)"
proof -
  have x: "scanRow \<lparr>ar_entry = x, ar_seq = Some s\<rparr> = x" using assms(2) by (simp add: scanRow_def)
  show ?thesis
  proof (cases "ws = ae_ws x")
    case True
    let ?xs = "map scanRow (filter (\<lambda>r. ae_ws (ar_entry r) = ws \<and> ar_seq r \<noteq> None) (audit_log d))"
    have "sort_key ae_seq (?xs @ [x]) = sort_key ae_seq ?xs @ [x]"
      by (rule sort_key_snoc) (use assms(2,3) True in \<open>simp add: chained_rows_def\<close>)
    with True show ?thesis by (simp add: chained_rows_def assms(1) x)
  next
    case False
    then show ?thesis by (simp add: chained_rows_def assms(1))
  qed
qed

lemma audit_Log_chain:
  assumes inv: "chain_inv env key d" and "faithful env e0" and log: "audit_Log env key flt new now e0 d = (Inr e', d')"
  shows "chain_inv env key d'"
proof -
  obtain h e ip meta hash where e: "e = stamp new now e0"
    and h: "chain_head_of (ensure_head env key now (ae_ws e) d) (ae_ws e) = Some h"
    and hash: "compute env key e (ch_seq h + 1) (ch_hash h) = Some hash"
    and st: "stored_ip env (ae_ip e) = Some ip" "stored_meta env (ae_meta e) = Some meta"
    and rows: "audit_log d' = audit_log d @ [\<lparr>ar_entry = new_row env e ip meta h hash, ar_seq = Some (ch_seq h + 1)\<rparr>]"
    and d': "d' = advance_head now (ae_ws e) (ch_seq h + 1) hash (ensure_head env key now (ae_ws e) d\<lparr>audit_log := audit_log d'\<rparr>)"
    by (rule audit_Log_ok [OF log])
  let ?x = "new_row env e ip meta h hash"
  let ?es = "chained_rows d (ae_ws e)"
  have anch: "anchored env key (ae_ws e) ?es (ch_seq h) (ch_hash h)"
    using inv [unfolded chain_inv_def, rule_format, of "ae_ws e"] h
    by (auto simp: chain_head_of_ensure anchored_def split: if_splits option.splits)
  have "ip = ae_ip e" "canonicalJSON env meta = canonicalJSON env (ae_meta e)"
    using assms(2) st e by (simp_all add: faithful_def)
  then have "compute env key ?x (ch_seq h + 1) (ch_hash h) = Some hash"
    unfolding hash [symmetric] by (intro compute_same) (simp_all add: new_row_def)
  then have x: "compute env key ?x (ae_seq ?x) (ae_prev ?x) = Some (ae_hash ?x)" "ae_seq ?x = ch_seq h + 1"
    "ae_prev ?x = ch_hash h" "ae_hash ?x = hash" "ae_ws ?x = ae_ws e"
    by (simp_all add: new_row_def)
  have le: "ae_seq y \<le> ch_seq h + 1" if "y \<in> set ?es" for y
    using linked_seq_bound [of env key ?es y] anch that by (auto simp: anchored_def split: if_splits)
  have rows': "chained_rows d' ws = (if ws = ae_ws e then chained_rows d ws @ [?x] else chained_rows d ws)" for ws
    using chained_rows_append [OF rows x(2)] le x(5) by simp
  have head': "chain_head_of d' ws = (if ws = ae_ws e then Some (h\<lparr>ch_seq := ch_seq h + 1, ch_hash := hash, ch_updated_at := now\<rparr>)
      else chain_head_of d ws)" for ws
  proof -
    have "chain_head_of (ensure_head env key now (ae_ws e) d\<lparr>audit_log := l\<rparr>) w
        = chain_head_of (ensure_head env key now (ae_ws e) d) w" for l w by (simp add: chain_head_of_def)
    with h show ?thesis by (subst d') (auto simp: chain_head_of_advance chain_head_of_ensure option.map_ident)
  qed
  have "anchored env key (ae_ws e) (?es @ [?x]) (ch_seq h + 1) hash"
    using anch x unfolding anchored_def by (simp add: linked_snoc split: if_splits)
  with inv show ?thesis by (auto simp: chain_inv_def rows' head' cong: option.case_cong)
qed

lemma audit_reachable_inv: "(audit_step env key)\<^sup>*\<^sup>* no_audit d \<Longrightarrow> chain_inv env key d"
proof (induction rule: rtranclp_induct)
  case base
  show ?case by (simp add: chain_inv_def no_audit_def chain_head_of_def chained_rows_def)
next
  case (step d d')
  from step(2) show ?case
  proof cases
    case (log e flt new now)
    show ?thesis
    proof (cases "audit_Log env key flt new now e d")
      case (Pair r d2)
      with log step.IH show ?thesis
        by (cases r) (auto dest: audit_Log_error intro: audit_Log_chain)
    qed
  qed
qed

section \<open>What verifies was logged\<close>

definition messages :: "audit_env \<Rightarrow> audit_entry list \<Rightarrow> string set" where
  "messages env es = {m. \<exists>e \<in> set es. message_of env e = Some m}"

lemma compute_message: "compute env key e (ae_seq e) (ae_prev e) = Some h \<longleftrightarrow>
    (\<exists>m. message_of env e = Some m \<and> env_mac env key m = h)"
  by (auto simp: compute_def message_of_def split: option.splits)

text \<open>Two linked lists with the same last hash, one of them anchored at the genesis: the other
  is a suffix of it.\<close>

lemma linked_suffix:
  assumes "linked env key ys" "anchored env key ws xs n g" "ys \<noteq> [] \<Longrightarrow> ae_hash (last ys) = g"
    and "inj_on (env_mac env key) ({genesis_message ws} \<union> messages env xs \<union> messages env ys)"
    and "\<And>e. e \<in> set xs \<union> set ys \<Longrightarrow> entry_ok env e"
  shows "\<exists>k. list_all2 (same_entry env) ys (drop k xs)"
  using assms
proof (induction ys arbitrary: xs n g rule: rev_induct)
  case Nil
  then show ?case by (intro exI [of _ "length xs"]) simp
next
  case (snoc y ys)
  obtain m where m: "message_of env y = Some m" "env_mac env key m = ae_hash y"
    using snoc.prems(1) by (auto simp: linked_snoc compute_message)
  have my: "m \<in> messages env (ys @ [y])" using m(1) by (auto simp: messages_def)
  have inj: "a = b" if "env_mac env key a = env_mac env key b"
      "a \<in> {genesis_message ws} \<union> messages env xs \<union> messages env (ys @ [y])"
      "b \<in> {genesis_message ws} \<union> messages env xs \<union> messages env (ys @ [y])" for a b
    using snoc.prems(4) that by (rule inj_onD)
  have "xs \<noteq> []"
  proof
    assume "xs = []"
    with snoc.prems(2,3) m(2) have "env_mac env key m = env_mac env key (genesis_message ws)"
      by (simp add: anchored_def genesis_def)
    then have "m = genesis_message ws" by (rule inj) (use my in simp_all)
    with m(1) message_not_genesis show False by metis
  qed
  then obtain zs x where xs: "xs = zs @ [x]" by (metis rev_exhaust)
  obtain mx where mx: "message_of env x = Some mx" "env_mac env key mx = ae_hash x"
    using snoc.prems(2) xs by (auto simp: anchored_def linked_snoc compute_message)
  have "mx = m"
  proof (rule inj)
    show "env_mac env key mx = env_mac env key m" using mx m snoc.prems(2,3) xs by (simp add: anchored_def)
  qed (use mx(1) my xs in \<open>auto simp: messages_def\<close>)
  then have same: "same_entry env y x"
    using m(1) mx(1) snoc.prems(5) xs by (intro message_determines_entry) auto
  show ?case
  proof (cases "ys = []")
    case True
    with same xs show ?thesis by (intro exI [of _ "length zs"]) simp
  next
    case False
    then have link: "ae_prev y = ae_hash (last ys)" "linked env key ys" using snoc.prems(1) by (auto simp: linked_snoc)
    have anch: "anchored env key ws zs (ae_seq x - 1) (ae_prev x)"
      using snoc.prems(2) unfolding xs anchored_def by (cases "zs = []") (auto simp: linked_snoc)
    have "\<exists>k. list_all2 (same_entry env) ys (drop k zs)"
    proof (rule snoc.IH [OF link(2) anch])
      show "ae_hash (last ys) = ae_prev x" using link(1) same by (simp add: same_entry_def)
      show "inj_on (env_mac env key) ({genesis_message ws} \<union> messages env zs \<union> messages env ys)"
        by (rule inj_on_subset [OF snoc.prems(4)]) (auto simp: messages_def xs)
      show "entry_ok env e" if "e \<in> set zs \<union> set ys" for e using that snoc.prems(5) xs by auto
    qed
    then obtain k where k: "list_all2 (same_entry env) ys (drop k zs)" by blast
    then have "k \<le> length zs" using False by (metis drop_all list_all2_Nil2 nat_le_linear)
    with k same xs show ?thesis by (intro exI [of _ k]) (simp add: list_all2_appendI)
  qed
qed

section \<open>Properties\<close>

text \<open>C17 (roundtrip).  The bytes an entry is authenticated by determine it: two entries whose
  identifiers, lengths and times fit their columns have the same message exactly when they
  agree in every field, the position and the previous hash included, metadata up to its
  canonical form and times to the microsecond.\<close>

theorem entry_encoding_is_injective:
  assumes "entry_ok env e" "entry_ok env e'"
    and "canonicalJSON env (ae_meta e) = Some c" "canonicalJSON env (ae_meta e') = Some c'"
  shows "entry_message e (ae_seq e) (ae_prev e) c = entry_message e' (ae_seq e') (ae_prev e') c' \<longleftrightarrow> same_entry env e e'"
proof
  assume "entry_message e (ae_seq e) (ae_prev e) c = entry_message e' (ae_seq e') (ae_prev e') c'"
  with assms(3,4) show "same_entry env e e'"
    by (intro message_determines_entry [OF assms(1,2)]) (simp_all add: message_of_def)
qed (use assms(3,4) in \<open>simp add: same_entry_def entry_message_def payload_def\<close>)

text \<open>An environment: the "hash" is the message itself, documents and addresses are stored as
  given.\<close>

definition ax_env :: audit_env where
  "ax_env = \<lparr>env_mac = (\<lambda>k m. CHR ''h'' # k @ m), env_json = Some, env_inet = Some, env_jsonb = Some\<rparr>"

definition ax_entry :: "uuid \<Rightarrow> audit_entry" where
  "ax_entry i = (action_entry 7 (Some 9) ''auth.login'' [] None (Some (''10.0.0.1:443'', ''curl'')) ''{}'')\<lparr>ae_id := i\<rparr>"

definition ax_db :: audit_db where
  "ax_db = snd (audit_Log ax_env ''k'' no_faults 51 2000 (ax_entry 51)
     (snd (audit_Log ax_env ''k'' no_faults 50 1000 (ax_entry 50) no_audit)))"

lemma ax_db_reachable: "(audit_step ax_env ''k'')\<^sup>*\<^sup>* no_audit ax_db"
proof -
  have "faithful ax_env (ax_entry 50)" "faithful ax_env (ax_entry 51)" by code_simp+
  then have "audit_step ax_env ''k'' no_audit (snd (audit_Log ax_env ''k'' no_faults 50 1000 (ax_entry 50) no_audit))"
    "audit_step ax_env ''k'' (snd (audit_Log ax_env ''k'' no_faults 50 1000 (ax_entry 50) no_audit)) ax_db"
    unfolding ax_db_def by (simp_all add: audit_step.log)
  then show ?thesis by (meson converse_rtranclp_into_rtranclp rtranclp.rtrancl_refl)
qed

theorem entry_encoding_is_injective_witness:
  "entry_message (ax_entry 50) 0 [] ''{}'' \<noteq> entry_message (ax_entry 51) 0 [] ''{}''"
proof -
  have ok: "entry_ok ax_env (ax_entry 50)" "entry_ok ax_env (ax_entry 51)" by code_simp+
  have "\<not> same_entry ax_env (ax_entry 50) (ax_entry 51)" by code_simp
  moreover have "canonicalJSON ax_env (ae_meta (ax_entry 50)) = Some ''{}''" "canonicalJSON ax_env (ae_meta (ax_entry 51)) = Some ''{}''"
    "ae_seq (ax_entry 50) = 0" "ae_prev (ax_entry 50) = []" "ae_seq (ax_entry 51) = 0" "ae_prev (ax_entry 51) = []" by code_simp+
  ultimately show ?thesis using entry_encoding_is_injective [OF ok, of "''{}''" "''{}''"] by simp
qed

text \<open>C18 (invariant).  Whatever was logged in whatever workspaces, and whatever failed: if the
  database stores each entry as it was hashed, the verification of any workspace finds the
  chain valid, has walked every row, and the rows are as many as the head counts.\<close>

theorem honest_log_verifies:
  assumes "(audit_step env key)\<^sup>*\<^sup>* no_audit d"
  shows "\<exists>v. VerifyChain env key no_faults None d ws = Inr v \<and> cv_valid v
    \<and> cv_rows v = length (chained_rows d ws) \<and> cv_head_seq v = int (cv_rows v)"
proof -
  have "chain_inv env key d" by (rule audit_reachable_inv [OF assms])
  then have inv: "case chain_head_of d ws of None \<Rightarrow> chained_rows d ws = []
     | Some h \<Rightarrow> anchored env key ws (chained_rows d ws) (ch_seq h) (ch_hash h)" by (simp add: chain_inv_def)
  then have "\<exists>v. VerifyChain env key no_faults None d ws = Inr v \<and> cv_valid v" unfolding chain_valid_iff
    by (auto simp: anchored_def ChainHead_def no_faults_def split: option.splits if_splits)
  then obtain v where v: "VerifyChain env key no_faults None d ws = Inr v" "cv_valid v" by blast
  have "ch_seq h = int (length (chained_rows d ws))" if "ChainHead no_faults d ws = Inr h" for h
    using inv that linked_last_seq [of env key "chained_rows d ws"]
    by (auto simp: ChainHead_def no_faults_def anchored_def split: option.splits if_splits)
  with v chain_valid_counts [OF v] show ?thesis by auto
qed

theorem honest_log_verifies_witness:
  "\<exists>v. VerifyChain ax_env ''k'' no_faults None ax_db 7 = Inr v \<and> cv_valid v \<and> cv_rows v = 2 \<and> cv_head_seq v = 2"
proof -
  have "length (chained_rows ax_db 7) = 2" by code_simp
  with honest_log_verifies [OF ax_db_reachable, of 7] show ?thesis by auto
qed

text \<open>C19 (safety).  Tampering with the entries shows.  Take a log written through the service and any other
  content of the table \<^verbatim>\<open>audit_log\<close>, the table of chain heads being as the service wrote it.  If the keyed
  hash has no collision among the messages involved and the verification of a workspace
  reports the chain valid, then the rows of the workspace are the newest ones that were
  logged, unchanged and in order: nothing was altered, inserted, reordered or, if a row is left,
  cut off at the end.\<close>

theorem valid_chain_is_what_was_logged:
  assumes "(audit_step env key)\<^sup>*\<^sup>* no_audit d" "chain_heads d' = chain_heads d"
    and "VerifyChain env key no_faults None d' ws = Inr v" "cv_valid v"
    and "inj_on (env_mac env key) ({genesis_message ws} \<union> messages env (chained_rows d ws) \<union> messages env (chained_rows d' ws))"
    and "\<And>m. env_mac env key m \<noteq> []"
    and "\<And>e. e \<in> set (chained_rows d ws) \<union> set (chained_rows d' ws) \<Longrightarrow> entry_ok env e"
  shows "\<exists>k. list_all2 (same_entry env) (chained_rows d' ws) (drop k (chained_rows d ws))"
proof -
  let ?ys = "chained_rows d' ws"
  have inv: "chain_inv env key d" by (rule audit_reachable_inv [OF assms(1)])
  have heads: "chain_head_of d' w = chain_head_of d w" for w using assms(2) by (simp add: chain_head_of_def)
  have "\<exists>v. VerifyChain env key no_faults None d' ws = Inr v \<and> cv_valid v" using assms(3,4) by blast
  then have ys: "linked env key ?ys" and hd: "?ys \<noteq> [] \<Longrightarrow> \<exists>h. ChainHead no_faults d' ws = Inr h \<and> ae_hash (last ?ys) = ch_hash h"
    unfolding chain_valid_iff by auto
  show ?thesis
  proof (cases "chain_head_of d ws")
    case (Some h)
    then have "anchored env key ws (chained_rows d ws) (ch_seq h) (ch_hash h)"
      using inv [unfolded chain_inv_def, rule_format, of ws] by simp
    then show ?thesis
      by (rule linked_suffix [OF ys _ _ assms(5,7)]) (use hd heads Some in \<open>auto simp: ChainHead_def no_faults_def\<close>)
  next
    case None
    have "?ys = []"
    proof (rule ccontr)
      assume ne: "?ys \<noteq> []"
      then have "ae_hash (last ?ys) = []" using hd heads None by (auto simp: ChainHead_def no_faults_def)
      moreover have "compute env key (last ?ys) (ae_seq (last ?ys)) (ae_prev (last ?ys)) = Some (ae_hash (last ?ys))"
        using ys ne by (metis append_butlast_last_id linked_snoc)
      ultimately show False using assms(6) by (auto simp: compute_message)
    qed
    then show ?thesis by (intro exI [of _ "length (chained_rows d ws)"]) simp
  qed
qed

theorem valid_chain_is_what_was_logged_witness:
  "\<exists>k. list_all2 (same_entry ax_env) (chained_rows (ax_db\<lparr>audit_log := tl (audit_log ax_db)\<rparr>) 7) (drop k (chained_rows ax_db 7))"
proof -
  let ?d' = "ax_db\<lparr>audit_log := tl (audit_log ax_db)\<rparr>"
  have "case VerifyChain ax_env ''k'' no_faults None ?d' 7 of Inr v \<Rightarrow> cv_valid v | Inl _ \<Rightarrow> False" by code_simp
  then obtain v where v: "VerifyChain ax_env ''k'' no_faults None ?d' 7 = Inr v" "cv_valid v" by (auto split: sum.splits)
  have "inj_on (env_mac ax_env ''k'') A" for A by (simp add: ax_env_def inj_on_def)
  moreover have "env_mac ax_env ''k'' m \<noteq> []" for m by (simp add: ax_env_def)
  moreover have "\<forall>e \<in> set (chained_rows ax_db 7 @ chained_rows ?d' 7). entry_ok ax_env e" by code_simp
  ultimately show ?thesis by (intro valid_chain_is_what_was_logged [OF ax_db_reachable _ v]) auto
qed

text \<open>The heads are needed: whoever can also write the table of chain heads cuts off the newest entry and sets
  the head back to the entry before it, and the verification reports the chain valid.\<close>

definition ax_cut :: audit_db where
  "ax_cut = ax_db\<lparr>audit_log := butlast (audit_log ax_db),
     chain_heads := [\<lparr>ch_ws = 7, ch_seq = 1, ch_hash = ae_hash (hd (chained_rows ax_db 7)), ch_updated_at = 1000\<rparr>]\<rparr>"

theorem cut_with_head_set_back_verifies:
  "\<exists>v. VerifyChain ax_env ''k'' no_faults None ax_cut 7 = Inr v \<and> cv_valid v
     \<and> length (chained_rows ax_cut 7) = 1 \<and> length (chained_rows ax_db 7) = 2"
proof -
  have "case VerifyChain ax_env ''k'' no_faults None ax_cut 7 of Inr v \<Rightarrow> cv_valid v | Inl _ \<Rightarrow> False"
    "length (chained_rows ax_cut 7) = 1" "length (chained_rows ax_db 7) = 2" by code_simp+
  then show ?thesis by (auto split: sum.splits)
qed

text \<open>The hash covers the address as the caller wrote it, the table stores it as
  Postgres prints it.  If the two differ (letters of an IPv6 address in upper case, say),
  the entry is written and the verification of the workspace, on a log nobody touched, no
  longer reports it valid.\<close>

theorem normalised_address_breaks_chain:
  assumes "(audit_step env key)\<^sup>*\<^sup>* no_audit d" "audit_Log env key flt new now e0 d = (Inr e', d')"
    and "ae_ip e0 = Some x" "x \<noteq> []" "env_inet env x = Some x'" "x' \<noteq> x"
    and "entry_ok env e'" "entry_ok env (last (chained_rows d' (ae_ws e0)))"
    and "inj_on (env_mac env key) (messages env [e', last (chained_rows d' (ae_ws e0))])"
  shows "\<not> (\<exists>v. VerifyChain env key no_faults None d' (ae_ws e0) = Inr v \<and> cv_valid v)"
proof
  assume "\<exists>v. VerifyChain env key no_faults None d' (ae_ws e0) = Inr v \<and> cv_valid v"
  then have lk: "linked env key (chained_rows d' (ae_ws e0))" by (simp add: chain_valid_iff)
  obtain h e ip meta hash where e: "e = stamp new now e0"
    and h: "chain_head_of (ensure_head env key now (ae_ws e) d) (ae_ws e) = Some h"
    and hash: "compute env key e (ch_seq h + 1) (ch_hash h) = Some hash"
    and st: "stored_ip env (ae_ip e) = Some ip" "stored_meta env (ae_meta e) = Some meta"
    and rows: "audit_log d' = audit_log d @ [\<lparr>ar_entry = new_row env e ip meta h hash, ar_seq = Some (ch_seq h + 1)\<rparr>]"
    and "d' = advance_head now (ae_ws e) (ch_seq h + 1) hash (ensure_head env key now (ae_ws e) d\<lparr>audit_log := audit_log d'\<rparr>)"
    by (rule audit_Log_ok [OF assms(2)])
  let ?x = "new_row env e ip meta h hash" and ?es = "chained_rows d (ae_ws e0)"
  have e': "e' = e\<lparr>ae_seq := ch_seq h + 1, ae_prev := ch_hash h, ae_hash := hash\<rparr>"
    using assms(2) h hash by (auto simp: audit_Log_def Let_def e [symmetric] split: if_splits option.splits)
  have "chain_inv env key d" by (rule audit_reachable_inv [OF assms(1)])
  then have "anchored env key (ae_ws e) ?es (ch_seq h) (ch_hash h)"
    using h e by (auto simp: chain_inv_def chain_head_of_ensure anchored_def split: if_splits option.splits dest: spec [of _ "ae_ws e0"])
  then have "ae_seq y \<le> ch_seq h + 1" if "y \<in> set ?es" for y
    using linked_seq_bound [of env key ?es y] that by (auto simp: anchored_def split: if_splits)
  then have "chained_rows d' (ae_ws e0) = ?es @ [?x]"
    using chained_rows_append [OF rows, of "ae_ws e0"] e by (simp add: new_row_def)
  then have last: "last (chained_rows d' (ae_ws e0)) = ?x" and "compute env key ?x (ae_seq ?x) (ae_prev ?x) = Some (ae_hash ?x)"
    using lk by (simp_all add: linked_snoc)
  then obtain m where "message_of env ?x = Some m" "env_mac env key m = ae_hash ?x"
    by (auto simp only: compute_message)
  then have m: "message_of env ?x = Some m" "env_mac env key m = hash" by (simp_all add: new_row_def)
  have "compute env key e' (ae_seq e') (ae_prev e') = Some hash"
    unfolding hash [symmetric] e' by (simp add: compute_def entry_message_def payload_def cong: option.case_cong)
  then obtain m' where m': "message_of env e' = Some m'" "env_mac env key m' = hash" by (auto simp: compute_message)
  have "m' = m"
  proof (rule inj_onD [OF assms(9)])
    show "env_mac env key m' = env_mac env key m" using m(2) m'(2) by simp
    show "m' \<in> messages env [e', last (chained_rows d' (ae_ws e0))]" using m'(1) by (simp add: messages_def)
    show "m \<in> messages env [e', last (chained_rows d' (ae_ws e0))]" unfolding last using m(1) by (simp add: messages_def)
  qed
  then have "same_entry env e' ?x"
    using m(1) m'(1) assms(7,8) unfolding last by (intro message_determines_entry) simp_all
  moreover have "ae_ip e' = Some x" "ae_ip ?x = Some x'"
    using assms(3-5) st e e' by (simp_all add: stored_ip_def new_row_def)
  ultimately show False using assms(6) by (simp add: same_entry_def)
qed

text \<open>Postgres prints addresses in lower case; here for the one letter the example has.\<close>

definition lower_env :: audit_env where
  "lower_env = ax_env\<lparr>env_inet := (\<lambda>s. Some (map (\<lambda>c. if c = CHR ''D'' then CHR ''d'' else c) s))\<rparr>"

definition upper_entry :: audit_entry where
  "upper_entry = action_entry 7 None ''auth.login'' [] None (Some (''[2001:D::1]:443'', [])) []"

theorem normalised_address_breaks_chain_witness:
  "\<exists>e' d'. audit_Log lower_env ''k'' no_faults 50 1000 upper_entry no_audit = (Inr e', d')
     \<and> \<not> (\<exists>v. VerifyChain lower_env ''k'' no_faults None d' 7 = Inr v \<and> cv_valid v)"
proof -
  let ?run = "audit_Log lower_env ''k'' no_faults 50 1000 upper_entry no_audit"
  have "case ?run of (Inr e', d') \<Rightarrow> entry_ok lower_env e' \<and> entry_ok lower_env (last (chained_rows d' 7)) | _ \<Rightarrow> False"
    by code_simp
  then obtain e' d' where run: "?run = (Inr e', d')" and ok: "entry_ok lower_env e'" "entry_ok lower_env (last (chained_rows d' 7))"
    by (auto split: prod.splits sum.splits)
  have ip: "ae_ip upper_entry = Some ''2001:D::1''" "ae_ws upper_entry = 7" by code_simp+
  have "inj_on (env_mac lower_env ''k'') A" for A by (simp add: lower_env_def ax_env_def inj_on_def)
  from normalised_address_breaks_chain [OF rtranclp.rtrancl_refl run ip(1) _ _ _ ok(1) _ this, of "''2001:d::1''"] ok(2) run ip(2)
  show ?thesis by (simp add: lower_env_def)
qed

text \<open>The server rewrites the remote address to the bare address of the client
  when a proxy reports it.  Of a bare IPv6 address the audit service cuts the last group
  off, taking it for a port; when what remains is not an address, the insert fails and the
  entry is lost without a trace in the log.\<close>

theorem bare_ipv6_entry_is_lost:
  assumes "host = a @ CHR '':'' # g" "CHR '':'' \<notin> set g" "a \<noteq> []" "hd a \<noteq> CHR ''[''" "last a \<noteq> CHR '']''"
    and "env_inet env a = None"
  shows "audit_clientIP host = a
    \<and> audit_flush env key flt new now (action_entry ws actor act rt rid (Some (host, ua)) meta) d = d"
proof -
  have "LastIndexByte host CHR '':'' = Some (length a)"
    unfolding assms(1) using assms(2) by (induction a) auto
  moreover have "\<not> prefix ''['' a" using assms(3,4) by (cases a) auto
  moreover have "\<not> suffix '']'' a" using assms(3,5) by (cases a rule: rev_cases) (auto simp: suffix_def)
  ultimately have ip: "audit_clientIP host = a"
    using assms(1,3) by (simp add: audit_clientIP_def TrimPrefix_def TrimSuffix_def)
  let ?e = "action_entry ws actor act rt rid (Some (host, ua)) meta"
  have "ae_ip (stamp new now ?e) = Some a" using ip assms(3) by (simp add: action_entry_def)
  then have "insert_audit env flt (stamp new now ?e) s p h d1 = None" for s p h d1
    using assms(3,6) by (simp add: insert_audit_def stored_ip_def)
  then have "snd (audit_Log env key flt new now ?e d) = d"
    by (auto simp: audit_Log_def Let_def split: option.splits)
  with ip show ?thesis by (simp add: audit_flush_def)
qed

theorem bare_ipv6_entry_is_lost_witness:
  "audit_flush (ax_env\<lparr>env_inet := (\<lambda>s. if s = ''2001:db8:'' then None else Some s)\<rparr>) ''k'' no_faults 50 1000
     (action_entry 7 None ''auth.login'' [] None (Some (''2001:db8::1'', ''curl'')) []) no_audit = no_audit"
  using bare_ipv6_entry_is_lost [of "''2001:db8::1''" "''2001:db8:''" "''1''"
      "ax_env\<lparr>env_inet := (\<lambda>s. if s = ''2001:db8:'' then None else Some s)\<rparr>"] by simp

text \<open>The verification reads the chain head and then the rows, without a
  transaction around them.  If an entry of the workspace is logged in between, it reports the
  untouched log invalid: the newest row is one ahead of the head it read.\<close>

theorem verification_races_with_logging:
  assumes "(audit_step env key)\<^sup>*\<^sup>* no_audit d" "faithful env e" "audit_Log env key flt new now e d = (Inr e', d')"
  shows "\<exists>v. VerifyChain_at env key no_faults None d d' (ae_ws e) = Inr v \<and> \<not> cv_valid v
    \<and> cv_detail v = ''head seq'' \<and> cv_first_invalid v = cv_head_seq v + 1"
proof -
  let ?ws = "ae_ws e"
  have inv: "chain_inv env key d" by (rule audit_reachable_inv [OF assms(1)])
  have inv': "chain_inv env key d'" by (rule audit_Log_chain [OF inv assms(2,3)])
  obtain h st ip meta hash where st: "st = stamp new now e"
    and h: "chain_head_of (ensure_head env key now (ae_ws st) d) (ae_ws st) = Some h"
    and "compute env key st (ch_seq h + 1) (ch_hash h) = Some hash"
    and "stored_ip env (ae_ip st) = Some ip" "stored_meta env (ae_meta st) = Some meta"
    and rows: "audit_log d' = audit_log d @ [\<lparr>ar_entry = new_row env st ip meta h hash, ar_seq = Some (ch_seq h + 1)\<rparr>]"
    and d': "d' = advance_head now (ae_ws st) (ch_seq h + 1) hash (ensure_head env key now (ae_ws st) d\<lparr>audit_log := audit_log d'\<rparr>)"
    by (rule audit_Log_ok [OF assms(3)])
  have ws: "ae_ws st = ?ws" using st by simp
  obtain g where g: "ChainHead no_faults d ?ws = Inr g" "ch_seq g = ch_seq h"
    using h ws by (auto simp: ChainHead_def no_faults_def chain_head_of_ensure split: option.splits if_splits)
  have "chain_head_of (ensure_head env key now (ae_ws st) d\<lparr>audit_log := l\<rparr>) w
        = chain_head_of (ensure_head env key now (ae_ws st) d) w" for l w by (simp add: chain_head_of_def)
  then have "chain_head_of d' ?ws = Some (h\<lparr>ch_seq := ch_seq h + 1, ch_hash := hash, ch_updated_at := now\<rparr>)"
    using h ws by (subst d') (simp add: chain_head_of_advance)
  then have anch: "anchored env key ?ws (chained_rows d' ?ws) (ch_seq h + 1) hash"
    using inv' [unfolded chain_inv_def, rule_format, of ?ws] by simp
  have ne: "chained_rows d' ?ws \<noteq> []"
    using rows ws by (auto simp: chained_rows_def new_row_def set_empty [symmetric] simp del: set_empty)
  with anch have lk: "linked env key (chained_rows d' ?ws)" "ae_seq (last (chained_rows d' ?ws)) = ch_seq h + 1"
    by (simp_all add: anchored_def)
  then have "verify_rows env key False None 0 (chained_rows d' ?ws) = WalkEnd (length (chained_rows d' ?ws)) (Some (last (chained_rows d' ?ws)))"
    unfolding verify_rows_linked using ne by simp
  with g lk(2) show ?thesis by (simp add: VerifyChain_at_def Let_def no_faults_def)
qed

theorem verification_races_with_logging_witness:
  "\<exists>v. VerifyChain_at ax_env ''k'' no_faults None ax_db
       (snd (audit_Log ax_env ''k'' no_faults 52 3000 (ax_entry 52) ax_db)) 7 = Inr v \<and> \<not> cv_valid v"
proof -
  have "case audit_Log ax_env ''k'' no_faults 52 3000 (ax_entry 52) ax_db of (Inr _, _) \<Rightarrow> True | _ \<Rightarrow> False" by code_simp
  then obtain e' d' where run: "audit_Log ax_env ''k'' no_faults 52 3000 (ax_entry 52) ax_db = (Inr e', d')"
    by (auto split: prod.splits sum.splits)
  have "faithful ax_env (ax_entry 52)" "ae_ws (ax_entry 52) = 7" by code_simp+
  with verification_races_with_logging [OF ax_db_reachable _ run] run show ?thesis by auto
qed

end
