(* ===== verification/Audit_Archive.thy ===== *)
theory Audit_Archive
  imports Audit_Properties Decimal "HOL-Library.List_Lexorder" "HOL-Library.Char_ord"
begin

text \<open>
  The cold archive of the audit log (\<^verbatim>\<open>internal/audit\<close>: archive_repository.go,
  archive.go): rows past their retention are uploaded page by page and then deleted.  The
  encoding of a page (JSON lines, gzip), the text of identifiers and the month Postgres
  assigns to a time are parameters, as are failures, clocks and fresh identifiers.
\<close>

section \<open>Months\<close>

text \<open>The number of a day, from 1 January 1970.\<close>

definition day_number :: "int \<Rightarrow> int \<Rightarrow> int \<Rightarrow> int" where
  "day_number y m d =
     (let y' = (if m \<le> 2 then y - 1 else y); era = y' div 400; yoe = y' - era * 400;
          doy = (153 * (if m > 2 then m - 3 else m + 9) + 2) div 5 + d - 1;
          doe = yoe * 365 + yoe div 4 - yoe div 100 + doy
      in era * 146097 + doe - 719468)"

definition month_start :: "int \<Rightarrow> int \<Rightarrow> time" where
  "month_start y m = day_number y m 1 * (86400 * 1000000000)"

definition parseYearMonthRange :: "string \<Rightarrow> (time \<times> time) option" where
  "parseYearMonthRange s =
     (if length s = 7 \<and> s ! 4 = CHR ''-'' then
        (case (parse_unsigned (take 4 s), parse_unsigned (drop 5 s)) of
           (Some y, Some m) \<Rightarrow>
             if 1 \<le> m \<and> m \<le> 12
             then Some (month_start (int y) (int m),
                        if m = 12 then month_start (int y + 1) 1 else month_start (int y) (int m + 1))
             else None
         | _ \<Rightarrow> None)
      else None)"

section \<open>State and surroundings\<close>

record archive_run =
  rr_id :: uuid
  rr_run :: uuid
  rr_ws :: uuid
  rr_cutoff :: time
  rr_month :: string
  rr_key :: string
  rr_rows :: nat
  rr_bytes :: int
  rr_started :: time
  rr_completed :: time
  rr_error :: "string option"

text \<open>The tables and the objects in storage.  \<open>as_tick\<close> counts the occasions on which the
  surroundings decide; it selects their next decision.\<close>

record archive_state =
  as_db :: audit_db
  as_runs :: "archive_run list"
  as_objects :: "string \<rightharpoonup> string"
  as_tick :: nat

record archive_io =
  io_encode :: "audit_entry list \<Rightarrow> (string \<times> int) option"
  io_uuid :: "uuid \<Rightarrow> string"
  io_month :: "time \<Rightarrow> string"
  io_flt :: "nat \<Rightarrow> faults"
  io_batch :: "nat \<Rightarrow> uuid"
  io_record :: "nat \<Rightarrow> uuid"
  io_clock :: "nat \<Rightarrow> time"
  io_done :: "nat \<Rightarrow> time"
  io_expired :: "nat \<Rightarrow> bool"

record archive_cfg =
  cf_days :: int
  cf_prefix :: string
  cf_max :: int

datatype archive_error = ArchErr string

record workspace_month =
  wm_ws :: uuid
  wm_month :: string
  wm_rows :: nat

section \<open>Repository (archive_repository.go)\<close>

definition EnumerateWorkspaceMonths ::
  "(time \<Rightarrow> string) \<Rightarrow> faults \<Rightarrow> time \<Rightarrow> audit_db \<Rightarrow> archive_error + workspace_month list" where
  "EnumerateWorkspaceMonths month flt cutoff d =
     (if flt ''enumerate audit months'' then Inl (ArchErr ''enumerate audit months'')
      else let old = filter (\<lambda>e. ae_created e < cutoff) (map ar_entry (audit_log d));
               keys = remdups (map (\<lambda>e. (ae_ws e, month (ae_created e))) old)
           in Inr (map (\<lambda>(ws, ym). \<lparr>wm_ws = ws, wm_month = ym,
                       wm_rows = length (filter (\<lambda>e. ae_ws e = ws \<and> month (ae_created e) = ym) old)\<rparr>)
                (sort_key fst (sort_key snd keys))))"

definition in_batch :: "uuid \<Rightarrow> time \<Rightarrow> time \<times> time \<Rightarrow> uuid \<Rightarrow> audit_row \<Rightarrow> bool" where
  "in_batch ws cutoff rng after r =
     (let e = ar_entry r in ae_ws e = ws \<and> ae_created e < cutoff \<and> fst rng \<le> ae_created e
        \<and> ae_created e < snd rng \<and> after < ae_id e)"

definition FetchBatch ::
  "faults \<Rightarrow> uuid \<Rightarrow> string \<Rightarrow> time \<Rightarrow> int \<Rightarrow> uuid \<Rightarrow> audit_db \<Rightarrow> archive_error + audit_entry list" where
  "FetchBatch flt ws ym cutoff limit after d =
     (if limit \<le> 0 then Inl (ArchErr ''fetch limit must be positive'')
      else case parseYearMonthRange ym of
        None \<Rightarrow> Inl (ArchErr ''parse year-month'')
      | Some rng \<Rightarrow>
          if flt ''fetch audit batch'' then Inl (ArchErr ''fetch audit batch'')
          else Inr (take (nat limit) (sort_key ae_id (map scanRow (filter (in_batch ws cutoff rng after) (audit_log d))))))"

definition DeleteBatch :: "faults \<Rightarrow> uuid \<Rightarrow> uuid list \<Rightarrow> audit_db \<Rightarrow> (archive_error + nat) \<times> audit_db" where
  "DeleteBatch flt ws ids d =
     (let hit = (\<lambda>r. ae_ws (ar_entry r) = ws \<and> ae_id (ar_entry r) \<in> set ids) in
      if ids = [] then (Inr 0, d)
      else if flt ''delete audit batch'' then (Inl (ArchErr ''delete audit batch''), d)
      else (Inr (rows_affected hit (audit_log d)), d\<lparr>audit_log := delete_rows hit (audit_log d)\<rparr>))"

definition RecordRun ::
  "faults \<Rightarrow> string \<Rightarrow> uuid \<Rightarrow> archive_run \<Rightarrow> archive_run list \<Rightarrow> (archive_error + archive_run) \<times> archive_run list" where
  "RecordRun flt op new record runs =
     (let record = (if rr_id record = uuid_Nil then record\<lparr>rr_id := new\<rparr> else record) in
      if flt op \<or> rr_id record \<in> rr_id ` set runs then (Inl (ArchErr op), runs)
      else (Inr record, runs @ [record]))"

definition SetRunError :: "faults \<Rightarrow> uuid \<Rightarrow> string \<Rightarrow> archive_run list \<Rightarrow> archive_error option \<times> archive_run list" where
  "SetRunError flt i msg runs =
     (if flt ''set archive run error'' then (Some (ArchErr ''set archive run error''), runs)
      else if rows_affected (\<lambda>u. rr_id u = i) runs = 0 then (Some (ArchErr ''archive run not found''), runs)
      else (None, update_rows (\<lambda>u. rr_id u = i) (\<lambda>u. u\<lparr>rr_error := Some msg\<rparr>) runs))"

definition ListRuns :: "faults \<Rightarrow> uuid \<Rightarrow> archive_run list \<Rightarrow> archive_error + archive_run list" where
  "ListRuns flt ws runs =
     (if flt ''list archive runs'' then Inl (ArchErr ''list archive runs'')
      else Inr (sort_key (\<lambda>u. - rr_completed u) (filter (\<lambda>u. rr_ws u = ws) runs)))"

section \<open>The service (archive.go)\<close>

definition MinRetentionDays :: int where "MinRetentionDays = 7"
definition defaultMaxRowsPerBatch :: int where "defaultMaxRowsPerBatch = 50000"

definition NewArchiveService :: "archive_cfg \<Rightarrow> archive_error + archive_cfg" where
  "NewArchiveService cfg =
     (if cf_days cfg < MinRetentionDays then Inl (ArchErr ''retention'')
      else if TrimSpace (cf_prefix cfg) = [] then Inl (ArchErr ''archive prefix is required'')
      else let cfg = (if cf_max cfg \<le> 0 then cfg\<lparr>cf_max := defaultMaxRowsPerBatch\<rparr> else cfg);
               cfg = (if \<not> suffix ''/'' (cf_prefix cfg) then cfg\<lparr>cf_prefix := cf_prefix cfg @ ''/''\<rparr> else cfg)
           in Inr cfg)"

definition buildObjectKey :: "archive_cfg \<Rightarrow> archive_io \<Rightarrow> uuid \<Rightarrow> string \<Rightarrow> uuid \<Rightarrow> string" where
  "buildObjectKey cfg io ws ym batch = cf_prefix cfg @ io_uuid io ws @ ''/'' @ ym @ ''/'' @ io_uuid io batch @ ''.jsonl.gz''"

definition recordPreUploadFailure ::
  "faults \<Rightarrow> uuid \<Rightarrow> archive_run \<Rightarrow> archive_run list \<Rightarrow> archive_run list" where
  "recordPreUploadFailure flt new record runs =
     snd (RecordRun flt ''record upload failure'' new
       (record\<lparr>rr_rows := 0, rr_bytes := 0, rr_error := Some ''s3 upload''\<rparr>) runs)"

definition markRunDeleteFailure :: "faults \<Rightarrow> uuid \<Rightarrow> archive_run list \<Rightarrow> archive_run list" where
  "markRunDeleteFailure flt i runs = snd (SetRunError flt i ''delete batch'' runs)"

text \<open>One page of \<^verbatim>\<open>archiveBucket\<close>: fetch, encode, upload, record, delete.  An upload that
  reports an error may have landed all the same.\<close>

datatype page_result = PageError string nat int | PageDone | PageLast nat int | PageNext nat int uuid

definition archive_page ::
  "archive_cfg \<Rightarrow> archive_io \<Rightarrow> uuid \<Rightarrow> time \<Rightarrow> workspace_month \<Rightarrow> uuid \<Rightarrow> archive_state \<Rightarrow> page_result \<times> archive_state" where
  "archive_page cfg io runID cutoff m after s0 =
     (let n = as_tick s0; s = s0\<lparr>as_tick := Suc n\<rparr>; flt = io_flt io n; startedAt = io_clock io n in
      case FetchBatch flt (wm_ws m) (wm_month m) cutoff (cf_max cfg) after (as_db s) of
        Inl e \<Rightarrow> (PageError ''fetch batch'' 0 0, s)
      | Inr entries \<Rightarrow>
          if entries = [] then (PageDone, s)
          else (case io_encode io entries of
             None \<Rightarrow> (PageError ''encode jsonl.gz'' 0 0, s)
           | Some (body, byteCount) \<Rightarrow>
               let key = buildObjectKey cfg io (wm_ws m) (wm_month m) (io_batch io n);
                   record = \<lparr>rr_id = uuid_Nil, rr_run = runID, rr_ws = wm_ws m, rr_cutoff = cutoff, rr_month = wm_month m,
                             rr_key = key, rr_rows = length entries, rr_bytes = byteCount, rr_started = startedAt,
                             rr_completed = io_done io n, rr_error = None\<rparr>;
                   uploaded = s\<lparr>as_objects := (as_objects s)(key \<mapsto> body)\<rparr>
               in if flt ''s3 upload'' then
                    let s' = (if flt ''s3 upload landed'' then uploaded else s)
                    in (PageError ''s3 upload'' 0 0,
                        s'\<lparr>as_runs := recordPreUploadFailure flt (io_record io n) record (as_runs s')\<rparr>)
                  else (case RecordRun flt ''record run'' (io_record io n) record (as_runs uploaded) of
                    (Inl e, _) \<Rightarrow> (PageError ''record run'' 0 0, uploaded)
                  | (Inr record, runs) \<Rightarrow>
                      let recorded = uploaded\<lparr>as_runs := runs\<rparr> in
                      (case DeleteBatch flt (wm_ws m) (map ae_id entries) (as_db recorded) of
                         (Inl e, _) \<Rightarrow>
                           (PageError ''delete batch'' (length entries) byteCount,
                            recorded\<lparr>as_runs := markRunDeleteFailure flt (rr_id record) runs\<rparr>)
                       | (Inr deleted, d') \<Rightarrow>
                           let s' = recorded\<lparr>as_db := d'\<rparr> in
                           if int (length entries) < cf_max cfg then (PageLast (length entries) byteCount, s')
                           else (PageNext (length entries) byteCount (ae_id (last entries)), s')))))"

text \<open>What is left to fetch shrinks from page to page.\<close>

definition pages_left :: "uuid \<Rightarrow> archive_state \<Rightarrow> nat" where
  "pages_left after s = length (filter (\<lambda>r. after < ae_id (ar_entry r)) (audit_log (as_db s)))"

lemma scanRow_fields [simp]: "ae_id (scanRow r) = ae_id (ar_entry r)" "ae_ws (scanRow r) = ae_ws (ar_entry r)"
    "ae_created (scanRow r) = ae_created (ar_entry r)"
  by (simp_all add: scanRow_def)

lemma FetchBatch_rows:
  assumes "FetchBatch flt ws ym cutoff limit after d = Inr es" "e \<in> set es"
  obtains r rng where "r \<in> set (audit_log d)" "scanRow r = e" "in_batch ws cutoff rng after r"
  using assms by (auto simp: FetchBatch_def split: if_splits option.splits dest!: in_set_takeD)

lemma archive_page_next:
  assumes "archive_page cfg io runID cutoff m after s = (PageNext k b a, s')"
  shows "pages_left a s' < pages_left after s"
proof -
  obtain flt es where f: "FetchBatch flt (wm_ws m) (wm_month m) cutoff (cf_max cfg) after (as_db s) = Inr es"
    and es: "es \<noteq> []" "a = ae_id (last es)"
    and sub: "set (audit_log (as_db s')) \<subseteq> set (audit_log (as_db s))"
    and del: "audit_log (as_db s') = filter (\<lambda>r. \<not> (ae_ws (ar_entry r) = wm_ws m \<and> ae_id (ar_entry r) \<in> ae_id ` set es)) (audit_log (as_db s))"
    using assms by (auto simp: archive_page_def Let_def DeleteBatch_def RecordRun_def delete_rows_def
        split: sum.splits list.splits option.splits if_splits)
  obtain r where r: "r \<in> set (audit_log (as_db s))" "scanRow r = last es" "after < ae_id (ar_entry r)"
    by (rule FetchBatch_rows [OF f, of "last es"]) (use es in \<open>auto simp: in_batch_def Let_def\<close>)
  then have a: "a = ae_id (ar_entry r)" "after < a" using es(2) scanRow_fields(1) [of r] by simp_all
  let ?left = "filter (\<lambda>x. after < ae_id (ar_entry x)) (audit_log (as_db s))"
  let ?P = "\<lambda>x. \<not> (ae_ws (ar_entry x) = wm_ws m \<and> ae_id (ar_entry x) \<in> ae_id ` set es) \<and> a < ae_id (ar_entry x)"
  have "filter (\<lambda>x. a < ae_id (ar_entry x)) (audit_log (as_db s')) = filter ?P ?left"
    unfolding del filter_filter using a(2) by (intro filter_cong) auto
  moreover have "length (filter ?P ?left) < length ?left"
    by (rule length_filter_less [of r]) (use r a(1) in simp_all)
  ultimately show ?thesis by (simp add: pages_left_def)
qed

function archive_pages ::
  "archive_cfg \<Rightarrow> archive_io \<Rightarrow> uuid \<Rightarrow> time \<Rightarrow> workspace_month \<Rightarrow> uuid \<Rightarrow> nat \<Rightarrow> int \<Rightarrow> archive_state
     \<Rightarrow> (archive_error option \<times> nat \<times> int) \<times> archive_state" where
  "archive_pages cfg io runID cutoff m after totalRows totalBytes s =
     (case archive_page cfg io runID cutoff m after s of
        (PageError e r b, s') \<Rightarrow> ((Some (ArchErr e), totalRows + r, totalBytes + b), s')
      | (PageDone, s') \<Rightarrow> ((None, totalRows, totalBytes), s')
      | (PageLast r b, s') \<Rightarrow> ((None, totalRows + r, totalBytes + b), s')
      | (PageNext r b after', s') \<Rightarrow>
          archive_pages cfg io runID cutoff m after' (totalRows + r) (totalBytes + b) s')"
  by pat_completeness auto
termination
  by (relation "measure (\<lambda>(cfg, io, runID, cutoff, m, after, r, b, s). pages_left after s)")
     (auto dest: archive_page_next [OF sym])

declare archive_pages.simps [simp del]

definition archiveBucket ::
  "archive_cfg \<Rightarrow> archive_io \<Rightarrow> uuid \<Rightarrow> time \<Rightarrow> workspace_month \<Rightarrow> archive_state
     \<Rightarrow> (archive_error option \<times> nat \<times> int) \<times> archive_state" where
  "archiveBucket cfg io runID cutoff m s = archive_pages cfg io runID cutoff m uuid_Nil 0 0 s"

record run_result =
  rs_total :: nat
  rs_ok :: nat
  rs_failed :: nat
  rs_rows :: nat
  rs_bytes :: int
  rs_errors :: "archive_error list"

fun archiveWorkspace ::
  "archive_cfg \<Rightarrow> archive_io \<Rightarrow> uuid \<Rightarrow> time \<Rightarrow> workspace_month list \<Rightarrow> run_result \<Rightarrow> archive_state
     \<Rightarrow> run_result \<times> archive_state" where
  "archiveWorkspace cfg io runID cutoff [] res s = (res, s)"
| "archiveWorkspace cfg io runID cutoff (m # ms) res s0 =
     (let s = s0\<lparr>as_tick := Suc (as_tick s0)\<rparr> in
      if io_expired io (as_tick s0)
      then (res\<lparr>rs_failed := rs_failed res + length (m # ms), rs_errors := rs_errors res @ [ArchErr ''timed out'']\<rparr>, s)
      else case archiveBucket cfg io runID cutoff m s of
        ((err, rows, bytesUp), s') \<Rightarrow>
          let res = res\<lparr>rs_rows := rs_rows res + rows, rs_bytes := rs_bytes res + bytesUp\<rparr> in
          (case err of
             Some e \<Rightarrow> archiveWorkspace cfg io runID cutoff ms
                         (res\<lparr>rs_failed := rs_failed res + 1, rs_errors := rs_errors res @ [e]\<rparr>) s'
           | None \<Rightarrow> archiveWorkspace cfg io runID cutoff ms (res\<lparr>rs_ok := rs_ok res + 1\<rparr>) s'))"

text \<open>Grouping by workspace, in the order of first appearance.\<close>

fun add_bucket :: "workspace_month \<Rightarrow> (uuid \<times> workspace_month list) list \<Rightarrow> (uuid \<times> workspace_month list) list" where
  "add_bucket b [] = [(wm_ws b, [b])]"
| "add_bucket b ((ws, ms) # gs) = (if ws = wm_ws b then (ws, ms @ [b]) # gs else (ws, ms) # add_bucket b gs)"

definition group_buckets :: "workspace_month list \<Rightarrow> (uuid \<times> workspace_month list) list" where
  "group_buckets bs = fold add_bucket bs []"

fun archive_groups ::
  "archive_cfg \<Rightarrow> archive_io \<Rightarrow> uuid \<Rightarrow> time \<Rightarrow> (uuid \<times> workspace_month list) list \<Rightarrow> run_result \<Rightarrow> archive_state
     \<Rightarrow> (archive_error option \<times> run_result) \<times> archive_state" where
  "archive_groups cfg io runID cutoff [] res s = ((None, res), s)"
| "archive_groups cfg io runID cutoff ((ws, ms) # gs) res s0 =
     (let s = s0\<lparr>as_tick := Suc (as_tick s0)\<rparr> in
      if io_expired io (as_tick s0)
      then ((Some (ArchErr ''run cancelled''),
             res\<lparr>rs_failed := rs_failed res + sum_list (map (\<lambda>g. length (snd g)) ((ws, ms) # gs)),
                 rs_errors := rs_errors res @ [ArchErr ''run cancelled'']\<rparr>), s)
      else case archiveWorkspace cfg io runID cutoff ms res s of
        (res', s') \<Rightarrow> archive_groups cfg io runID cutoff gs res' s')"

definition archive_Run ::
  "archive_cfg \<Rightarrow> archive_io \<Rightarrow> uuid \<Rightarrow> archive_state \<Rightarrow> (archive_error option \<times> run_result) \<times> archive_state" where
  "archive_Run cfg io runID s0 =
     (let n = as_tick s0; s = s0\<lparr>as_tick := Suc n\<rparr>;
          cutoff = io_clock io n - cf_days cfg * (24 * 3600 * 1000000000);
          res = \<lparr>rs_total = 0, rs_ok = 0, rs_failed = 0, rs_rows = 0, rs_bytes = 0, rs_errors = []\<rparr>
      in case EnumerateWorkspaceMonths (io_month io) (io_flt io n) cutoff (as_db s) of
           Inl e \<Rightarrow> ((Some e, res), s)
         | Inr buckets \<Rightarrow>
             archive_groups cfg io runID cutoff (group_buckets buckets) (res\<lparr>rs_total := length buckets\<rparr>) s)"

end
