(* ===== verification/Archive_Properties.thy ===== *)
theory Archive_Properties
  imports Audit_Archive
begin

text \<open>
  The properties of the audit archive: no row is lost, the counters of a run add up, and
  what an archive that stops half-way does to the verification of the hash chain.
\<close>

section \<open>Object keys\<close>

text \<open>What the archive relies on of the text of an identifier.\<close>

locale key_text =
  fixes text_of :: "uuid \<Rightarrow> string"
  assumes text_inj: "text_of a = text_of b \<Longrightarrow> a = b"
    and text_no_slash: "CHR ''/'' \<notin> set (text_of a)"
begin

lemma buildObjectKey_batch:
  assumes "io_uuid io = text_of" "buildObjectKey cfg io ws ym a = buildObjectKey cfg io ws' ym' b"
  shows "a = b"
proof -
  have no: "CHR ''/'' \<notin> set (text_of c @ ''.jsonl.gz'')" for c using text_no_slash by simp
  have "(cf_prefix cfg @ text_of ws @ ''/'' @ ym) @ CHR ''/'' # (text_of a @ ''.jsonl.gz'')
      = (cf_prefix cfg @ text_of ws' @ ''/'' @ ym') @ CHR ''/'' # (text_of b @ ''.jsonl.gz'')"
    using assms(2) by (simp add: buildObjectKey_def assms(1))
  from this [unfolded split_at_last_char [OF no no]] have "text_of a @ ''.jsonl.gz'' = text_of b @ ''.jsonl.gz''" ..
  then show ?thesis using text_inj by simp
qed

end

interpretation decimal_keys: key_text show_nat
proof unfold_locales
  show "show_nat a = show_nat b \<Longrightarrow> a = b" for a b by (rule show_nat_inj)
  show "CHR ''/'' \<notin> set (show_nat a)" for a
  proof
    assume "CHR ''/'' \<in> set (show_nat a)"
    then obtain k where "k < 10" "CHR ''/'' = digit k" using show_nat_digits by blast
    moreover have "(of_char CHR ''/'' :: nat) = 47" by simp
    ultimately show False using of_char_digit [of k] by simp
  qed
qed

section \<open>From state to state\<close>

definition run_kept :: "archive_run list \<Rightarrow> archive_run list \<Rightarrow> bool" where
  "run_kept us us' \<longleftrightarrow> (\<forall>u \<in> set us. \<exists>u' \<in> set us'. rr_key u' = rr_key u \<and> rr_ws u' = rr_ws u \<and> rr_rows u' = rr_rows u)"

lemma run_kept_refl [simp]: "run_kept us us"
  by (auto simp: run_kept_def)

lemma run_kept_trans: "run_kept us us' \<Longrightarrow> run_kept us' us'' \<Longrightarrow> run_kept us us''"
  unfolding run_kept_def by metis

lemma run_kept_RecordRun: "run_kept us (snd (RecordRun flt op new u us))"
  by (auto simp: RecordRun_def Let_def run_kept_def)

lemma run_kept_SetRunError: "run_kept us (snd (SetRunError flt i msg us))"
proof -
  have "run_kept us (map g us)" if "\<And>u. rr_key (g u) = rr_key u \<and> rr_ws (g u) = rr_ws u \<and> rr_rows (g u) = rr_rows u" for g
    using that by (auto simp: run_kept_def)
  then show ?thesis by (simp add: SetRunError_def update_rows_def)
qed

text \<open>A row is archived: a recorded run names an object that holds a page with the row.\<close>

definition archived :: "archive_io \<Rightarrow> archive_state \<Rightarrow> audit_row \<Rightarrow> bool" where
  "archived io s r \<longleftrightarrow> (\<exists>es body b. \<exists>u \<in> set (as_runs s). scanRow r \<in> set es \<and> io_encode io es = Some (body, b)
     \<and> as_objects s (rr_key u) = Some body \<and> rr_ws u = ae_ws (ar_entry r) \<and> rr_rows u = length es)"

definition rows_unique :: "archive_state \<Rightarrow> bool" where
  "rows_unique s \<longleftrightarrow> distinct (map (\<lambda>r. (ae_ws (ar_entry r), ae_id (ar_entry r))) (audit_log (as_db s)))"

definition keys_fresh :: "archive_cfg \<Rightarrow> archive_io \<Rightarrow> archive_state \<Rightarrow> bool" where
  "keys_fresh cfg io s \<longleftrightarrow> (\<forall>n ws ym. as_tick s \<le> n \<longrightarrow> as_objects s (buildObjectKey cfg io ws ym (io_batch io n)) = None)"

definition moves :: "archive_io \<Rightarrow> time \<Rightarrow> archive_state \<Rightarrow> archive_state \<Rightarrow> bool" where
  "moves io cutoff s s' \<longleftrightarrow> as_tick s \<le> as_tick s' \<and> as_objects s \<subseteq>\<^sub>m as_objects s' \<and> run_kept (as_runs s) (as_runs s')
     \<and> chain_heads (as_db s') = chain_heads (as_db s)
     \<and> (\<exists>P. audit_log (as_db s') = filter P (audit_log (as_db s))
          \<and> (\<forall>r \<in> set (audit_log (as_db s)). \<not> P r \<longrightarrow> archived io s' r \<and> ae_created (ar_entry r) < cutoff))"

lemma archived_mono: "archived io s r \<Longrightarrow> as_objects s \<subseteq>\<^sub>m as_objects s' \<Longrightarrow> run_kept (as_runs s) (as_runs s') \<Longrightarrow> archived io s' r"
  unfolding archived_def run_kept_def map_le_def by (metis domI)

lemma moves_trans:
  assumes "moves io cutoff s s'" "moves io cutoff s' s''"
  shows "moves io cutoff s s''"
proof -
  obtain P where P: "audit_log (as_db s') = filter P (audit_log (as_db s))"
    "\<And>r. r \<in> set (audit_log (as_db s)) \<Longrightarrow> \<not> P r \<Longrightarrow> archived io s' r \<and> ae_created (ar_entry r) < cutoff"
    using assms(1) by (auto simp: moves_def)
  obtain Q where Q: "audit_log (as_db s'') = filter Q (audit_log (as_db s'))"
    "\<And>r. r \<in> set (audit_log (as_db s')) \<Longrightarrow> \<not> Q r \<Longrightarrow> archived io s'' r \<and> ae_created (ar_entry r) < cutoff"
    using assms(2) by (auto simp: moves_def)
  have "archived io s'' r \<and> ae_created (ar_entry r) < cutoff"
    if r: "r \<in> set (audit_log (as_db s))" "\<not> (P r \<and> Q r)" for r
  proof (cases "P r")
    case True
    with r Q(2) [of r] P(1) show ?thesis by simp
  next
    case False
    with P(2) [OF r(1)] assms(2) show ?thesis by (auto simp: moves_def intro: archived_mono)
  qed
  moreover have "audit_log (as_db s'') = filter (\<lambda>r. P r \<and> Q r) (audit_log (as_db s))"
    unfolding Q(1) P(1) by (simp add: conj_commute)
  moreover have "as_objects s \<subseteq>\<^sub>m as_objects s''" using assms by (auto simp: moves_def intro: map_le_trans)
  moreover have "run_kept (as_runs s) (as_runs s'')" using assms by (auto simp: moves_def intro: run_kept_trans)
  ultimately show ?thesis using assms unfolding moves_def by (intro conjI exI [of _ "\<lambda>r. P r \<and> Q r"]) auto
qed

lemma moves_tick [simp]: "moves io cutoff s (s\<lparr>as_tick := Suc (as_tick s)\<rparr>)"
  by (simp add: moves_def) (auto intro: exI [of _ "\<lambda>_. True"])

section \<open>Pages, months, runs\<close>

abbreviation page_key :: "archive_cfg \<Rightarrow> archive_io \<Rightarrow> workspace_month \<Rightarrow> archive_state \<Rightarrow> string" where
  "page_key cfg io m s \<equiv> buildObjectKey cfg io (wm_ws m) (wm_month m) (io_batch io (as_tick s))"

text \<open>What a page changes.\<close>

lemma archive_page_frame:
  assumes "archive_page cfg io runID cutoff m after s = (p, s')"
  shows "as_tick s' = Suc (as_tick s)" "run_kept (as_runs s) (as_runs s')"
    "as_objects s' = as_objects s \<or> (\<exists>body. as_objects s' = (as_objects s)(page_key cfg io m s \<mapsto> body))"
  using assms run_kept_RecordRun [of "as_runs s"] run_kept_trans [OF run_kept_RecordRun run_kept_SetRunError]
  by (auto simp: archive_page_def Let_def recordPreUploadFailure_def markRunDeleteFailure_def
      split: sum.splits list.splits option.splits if_splits prod.splits) (metis snd_conv)+

lemma archive_page_rows:
  assumes "archive_page cfg io runID cutoff m after s = (p, s')" "as_db s' \<noteq> as_db s"
  obtains flt es body b u where
    "FetchBatch flt (wm_ws m) (wm_month m) cutoff (cf_max cfg) after (as_db s) = Inr es" "io_encode io es = Some (body, b)"
    "as_objects s' = (as_objects s)(page_key cfg io m s \<mapsto> body)"
    "u \<in> set (as_runs s')" "rr_key u = page_key cfg io m s" "rr_ws u = wm_ws m" "rr_rows u = length es"
    "as_db s' = (as_db s)\<lparr>audit_log := filter (\<lambda>r. \<not> (ae_ws (ar_entry r) = wm_ws m \<and> ae_id (ar_entry r) \<in> ae_id ` set es))
         (audit_log (as_db s))\<rparr>"
proof -
  let ?n = "as_tick s"
  let ?flt = "io_flt io ?n"
  obtain es where f: "FetchBatch ?flt (wm_ws m) (wm_month m) cutoff (cf_max cfg) after (as_db s) = Inr es" and ne: "es \<noteq> []"
    using assms by (auto simp: archive_page_def Let_def split: sum.splits if_splits)
  obtain body b where en: "io_encode io es = Some (body, b)"
    using assms f ne by (auto simp: archive_page_def Let_def split: option.splits)
  have up: "\<not> ?flt ''s3 upload''" using assms f ne en by (auto simp: archive_page_def Let_def split: if_splits)
  let ?rec = "\<lparr>rr_id = uuid_Nil, rr_run = runID, rr_ws = wm_ws m, rr_cutoff = cutoff, rr_month = wm_month m,
      rr_key = page_key cfg io m s, rr_rows = length es, rr_bytes = b, rr_started = io_clock io ?n,
      rr_completed = io_done io ?n, rr_error = None\<rparr>"
  obtain u runs where rc: "RecordRun ?flt ''record run'' (io_record io ?n) ?rec (as_runs s) = (Inr u, runs)"
    using assms f ne en up by (auto simp: archive_page_def Let_def split: sum.splits prod.splits)
  obtain k d' where dl: "DeleteBatch ?flt (wm_ws m) (map ae_id es) (as_db s) = (Inr k, d')"
    using assms f ne en up rc by (auto simp: archive_page_def Let_def split: sum.splits prod.splits)
  have s': "as_runs s' = runs" "as_objects s' = (as_objects s)(page_key cfg io m s \<mapsto> body)" "as_db s' = d'"
    using assms(1) f ne en up rc dl by (auto simp: archive_page_def Let_def split: if_splits)
  have "u \<in> set runs" "rr_key u = page_key cfg io m s" "rr_ws u = wm_ws m" "rr_rows u = length es"
    using rc by (auto simp: RecordRun_def Let_def split: if_splits)
  moreover have "d' = (as_db s)\<lparr>audit_log := filter (\<lambda>r. \<not> (ae_ws (ar_entry r) = wm_ws m \<and> ae_id (ar_entry r) \<in> ae_id ` set es))
         (audit_log (as_db s))\<rparr>"
    using dl ne by (auto simp: DeleteBatch_def Let_def delete_rows_def split: if_splits)
  ultimately show thesis using that [OF f en s'(2)] s' by simp
qed

definition archive_ready :: "archive_cfg \<Rightarrow> archive_io \<Rightarrow> archive_state \<Rightarrow> bool" where
  "archive_ready cfg io s \<longleftrightarrow> rows_unique s \<and> keys_fresh cfg io s"

definition batches_ok :: "archive_io \<Rightarrow> bool" where
  "batches_ok io \<longleftrightarrow> key_text (io_uuid io) \<and> inj (io_batch io)"

lemma rows_unique_eq:
  assumes "rows_unique s" "r \<in> set (audit_log (as_db s))" "r' \<in> set (audit_log (as_db s))"
    and "ae_ws (ar_entry r) = ae_ws (ar_entry r')" "ae_id (ar_entry r) = ae_id (ar_entry r')"
  shows "r = r'"
  by (rule distinct_map_inj [OF assms(1) [unfolded rows_unique_def] assms(2,3)]) (simp add: assms(4,5))

lemma archive_page_moves:
  assumes "batches_ok io" "archive_ready cfg io s" "archive_page cfg io runID cutoff m after s = (p, s')"
  shows "moves io cutoff s s' \<and> archive_ready cfg io s'"
proof -
  note fr = archive_page_frame [OF assms(3)]
  have new: "as_objects s (page_key cfg io m s) = None" using assms(2) by (simp add: archive_ready_def keys_fresh_def)
  have obj: "as_objects s \<subseteq>\<^sub>m as_objects s'" using fr(3) new by (auto simp: map_le_def dom_def)
  have "buildObjectKey cfg io ws ym (io_batch io n) \<noteq> page_key cfg io m s" if "Suc (as_tick s) \<le> n" for n ws ym
  proof
    assume "buildObjectKey cfg io ws ym (io_batch io n) = page_key cfg io m s"
    then have "io_batch io n = io_batch io (as_tick s)"
      using key_text.buildObjectKey_batch [OF _ refl] assms(1) by (auto simp: batches_ok_def)
    then show False using assms(1) that by (auto simp: batches_ok_def dest!: injD)
  qed
  then have fresh: "keys_fresh cfg io s'"
    using assms(2) fr(1,3) by (auto simp: archive_ready_def keys_fresh_def)
  show ?thesis
  proof (cases "as_db s' = as_db s")
    case True
    with fr(1,2) obj fresh assms(2) show ?thesis
      by (auto simp: moves_def archive_ready_def rows_unique_def intro: exI [of _ "\<lambda>_. True"])
  next
    case False
    obtain flt es body b u where f: "FetchBatch flt (wm_ws m) (wm_month m) cutoff (cf_max cfg) after (as_db s) = Inr es"
      and a: "io_encode io es = Some (body, b)" "as_objects s' = (as_objects s)(page_key cfg io m s \<mapsto> body)"
        "u \<in> set (as_runs s')" "rr_key u = page_key cfg io m s" "rr_ws u = wm_ws m" "rr_rows u = length es"
      and d': "as_db s' = (as_db s)\<lparr>audit_log := filter (\<lambda>r. \<not> (ae_ws (ar_entry r) = wm_ws m \<and> ae_id (ar_entry r) \<in> ae_id ` set es))
         (audit_log (as_db s))\<rparr>"
      by (rule archive_page_rows [OF assms(3) False])
    have "archived io s' r \<and> ae_created (ar_entry r) < cutoff"
      if r: "r \<in> set (audit_log (as_db s))" "ae_ws (ar_entry r) = wm_ws m" "ae_id (ar_entry r) \<in> ae_id ` set es" for r
    proof -
      obtain e where e: "e \<in> set es" "ae_id e = ae_id (ar_entry r)" using r(3) by auto
      obtain r' rng where r': "r' \<in> set (audit_log (as_db s))" "scanRow r' = e" "in_batch (wm_ws m) cutoff rng after r'"
        by (rule FetchBatch_rows [OF f e(1)])
      have "ae_ws (ar_entry r') = wm_ws m" "ae_created (ar_entry r') < cutoff" using r'(3) by (simp_all add: in_batch_def Let_def)
      moreover have "r' = r"
        using assms(2) r(1,2) r'(1,2) e(2) calculation(1) scanRow_fields(1) [of r']
        by (intro rows_unique_eq [of s]) (simp_all add: archive_ready_def)
      ultimately show ?thesis unfolding archived_def using a r(2) r'(2) e(1)
        by (intro conjI exI [of _ es] exI [of _ body] exI [of _ b] bexI [of _ u]) simp_all
    qed
    then have "moves io cutoff s s'"
      unfolding moves_def using fr(1,2) obj
      by (intro conjI exI [of _ "\<lambda>r. \<not> (ae_ws (ar_entry r) = wm_ws m \<and> ae_id (ar_entry r) \<in> ae_id ` set es)"]) (simp_all add: d')
    moreover have "rows_unique s'" using assms(2) by (simp add: archive_ready_def rows_unique_def d' distinct_map_filter)
    ultimately show ?thesis using fresh by (simp add: archive_ready_def)
  qed
qed

lemma archive_ready_tick [simp]: "archive_ready cfg io s \<Longrightarrow> archive_ready cfg io (s\<lparr>as_tick := Suc (as_tick s)\<rparr>)"
  by (auto simp: archive_ready_def rows_unique_def keys_fresh_def)

lemma archive_pages_moves:
  assumes "batches_ok io" "archive_ready cfg io s" "archive_pages cfg io runID cutoff m after r b s = (out, s')"
  shows "moves io cutoff s s' \<and> archive_ready cfg io s'"
  using assms
proof (induction cfg io runID cutoff m after r b s rule: archive_pages.induct)
  case (1 cfg io runID cutoff m after r b s)
  obtain p s1 where pg: "archive_page cfg io runID cutoff m after s = (p, s1)" by fastforce
  have step: "moves io cutoff s s1" "archive_ready cfg io s1"
    using archive_page_moves [OF 1(2,3) pg] by simp_all
  show ?case
  proof (cases "\<exists>k n a. p = PageNext k n a")
    case True
    then obtain k n a where p: "p = PageNext k n a" by blast
    have "archive_pages cfg io runID cutoff m a (r + k) (b + n) s1 = (out, s')"
      using 1(4) pg p by (subst (asm) archive_pages.simps) simp
    then have "moves io cutoff s1 s' \<and> archive_ready cfg io s'"
      using 1(1) [OF pg [symmetric] p 1(2) step(2)] by simp
    with step(1) show ?thesis by (blast intro: moves_trans)
  next
    case False
    then have "s' = s1" using 1(4) pg by (subst (asm) archive_pages.simps) (cases p, auto)
    with step show ?thesis by simp
  qed
qed

lemma archiveWorkspace_moves:
  assumes "batches_ok io"
  shows "archive_ready cfg io s \<Longrightarrow> archiveWorkspace cfg io runID cutoff ms res s = (res', s')
    \<Longrightarrow> moves io cutoff s s' \<and> archive_ready cfg io s'"
proof (induction ms arbitrary: res s)
  case Nil
  then show ?case by (auto simp: moves_def intro: exI [of _ "\<lambda>_. True"])
next
  case (Cons m ms)
  let ?s = "s\<lparr>as_tick := Suc (as_tick s)\<rparr>"
  obtain err k b s1 where bk: "archiveBucket cfg io runID cutoff m ?s = ((err, k, b), s1)" by (metis prod.collapse)
  have m1: "moves io cutoff ?s s1" "archive_ready cfg io s1"
    using archive_pages_moves [OF assms _ bk [unfolded archiveBucket_def]] Cons.prems(1) by simp_all
  show ?case
  proof (cases "io_expired io (as_tick s)")
    case True
    with Cons.prems show ?thesis by auto
  next
    case False
    then obtain res1 where "archiveWorkspace cfg io runID cutoff ms res1 s1 = (res', s')"
      using Cons.prems(2) bk by (auto simp: Let_def split: option.splits)
    from Cons.IH [OF m1(2) this] m1(1) moves_tick [of io cutoff s] show ?thesis by (blast intro: moves_trans)
  qed
qed

lemma archive_groups_moves:
  assumes "batches_ok io"
  shows "archive_ready cfg io s \<Longrightarrow> archive_groups cfg io runID cutoff gs res s = (out, s')
    \<Longrightarrow> moves io cutoff s s' \<and> archive_ready cfg io s'"
proof (induction gs arbitrary: res s)
  case Nil
  then show ?case by (auto simp: moves_def intro: exI [of _ "\<lambda>_. True"])
next
  case (Cons g gs)
  obtain ws ms where g: "g = (ws, ms)" by fastforce
  let ?s = "s\<lparr>as_tick := Suc (as_tick s)\<rparr>"
  obtain res1 s1 where w: "archiveWorkspace cfg io runID cutoff ms res ?s = (res1, s1)" by fastforce
  have m1: "moves io cutoff ?s s1" "archive_ready cfg io s1"
    using archiveWorkspace_moves [OF assms _ w] Cons.prems(1) by simp_all
  show ?case
  proof (cases "io_expired io (as_tick s)")
    case True
    with Cons.prems g show ?thesis by auto
  next
    case False
    then have "archive_groups cfg io runID cutoff gs res1 s1 = (out, s')" using Cons.prems(2) g w by simp
    from Cons.IH [OF m1(2) this] m1(1) moves_tick [of io cutoff s] show ?thesis by (blast intro: moves_trans)
  qed
qed

section \<open>Counters\<close>

definition errors_match :: "run_result \<Rightarrow> bool" where
  "errors_match res \<longleftrightarrow> (rs_failed res = 0 \<longleftrightarrow> rs_errors res = [])"

lemma archiveWorkspace_counts:
  "archiveWorkspace cfg io runID cutoff ms res s = (res', s') \<Longrightarrow>
     rs_total res' = rs_total res \<and> rs_ok res' + rs_failed res' = rs_ok res + rs_failed res + length ms
     \<and> (errors_match res \<longrightarrow> errors_match res')"
proof (induction ms arbitrary: res s)
  case (Cons m ms)
  let ?s = "s\<lparr>as_tick := Suc (as_tick s)\<rparr>"
  obtain err k b s1 where bk: "archiveBucket cfg io runID cutoff m ?s = ((err, k, b), s1)" by (metis prod.collapse)
  let ?res = "res\<lparr>rs_rows := rs_rows res + k, rs_bytes := rs_bytes res + b\<rparr>"
  show ?case
  proof (cases "io_expired io (as_tick s)")
    case True
    with Cons.prems show ?thesis by (auto simp: errors_match_def)
  next
    case go: False
    show ?thesis
    proof (cases err)
      case None
      with go Cons.prems bk have "archiveWorkspace cfg io runID cutoff ms (?res\<lparr>rs_ok := rs_ok res + 1\<rparr>) s1 = (res', s')"
        by (simp add: Let_def)
      from Cons.IH [OF this] show ?thesis by (simp add: errors_match_def)
    next
      case (Some e)
      with go Cons.prems bk have "archiveWorkspace cfg io runID cutoff ms
          (?res\<lparr>rs_failed := rs_failed res + 1, rs_errors := rs_errors res @ [e]\<rparr>) s1 = (res', s')"
        by (simp add: Let_def)
      from Cons.IH [OF this] show ?thesis by (simp add: errors_match_def)
    qed
  qed
qed simp

lemma archive_groups_counts:
  "archive_groups cfg io runID cutoff gs res s = ((err, res'), s') \<Longrightarrow>
     rs_total res' = rs_total res
     \<and> rs_ok res' + rs_failed res' = rs_ok res + rs_failed res + sum_list (map (\<lambda>g. length (snd g)) gs)
     \<and> (errors_match res \<and> (\<forall>g \<in> set gs. snd g \<noteq> []) \<longrightarrow> errors_match res')"
proof (induction gs arbitrary: res s)
  case (Cons g gs)
  obtain ws ms where g: "g = (ws, ms)" by fastforce
  let ?s = "s\<lparr>as_tick := Suc (as_tick s)\<rparr>"
  obtain res1 s1 where w: "archiveWorkspace cfg io runID cutoff ms res ?s = (res1, s1)" by fastforce
  show ?case
  proof (cases "io_expired io (as_tick s)")
    case True
    with Cons.prems g show ?thesis by (auto simp: errors_match_def)
  next
    case False
    then have "archive_groups cfg io runID cutoff gs res1 s1 = ((err, res'), s')" using Cons.prems g w by simp
    from Cons.IH [OF this] archiveWorkspace_counts [OF w] g show ?thesis by auto
  qed
qed simp

lemma group_buckets_counts:
  "sum_list (map (\<lambda>g. length (snd g)) (group_buckets bs)) = length bs" "\<forall>g \<in> set (group_buckets bs). snd g \<noteq> []"
proof -
  have add: "sum_list (map (\<lambda>g. length (snd g)) (add_bucket b gs)) = Suc (sum_list (map (\<lambda>g. length (snd g)) gs))
      \<and> ((\<forall>g \<in> set gs. snd g \<noteq> []) \<longrightarrow> (\<forall>g \<in> set (add_bucket b gs). snd g \<noteq> []))" for b gs
    by (induction b gs rule: add_bucket.induct) auto
  have "sum_list (map (\<lambda>g. length (snd g)) (fold add_bucket bs gs)) = length bs + sum_list (map (\<lambda>g. length (snd g)) gs)
      \<and> ((\<forall>g \<in> set gs. snd g \<noteq> []) \<longrightarrow> (\<forall>g \<in> set (fold add_bucket bs gs). snd g \<noteq> []))" for gs
  proof (induction bs arbitrary: gs)
    case (Cons b bs)
    from Cons.IH [of "add_bucket b gs"] add [of b gs] show ?case by auto
  qed simp
  from this [of "[]"] show "sum_list (map (\<lambda>g. length (snd g)) (group_buckets bs)) = length bs" "\<forall>g \<in> set (group_buckets bs). snd g \<noteq> []"
    by (simp_all add: group_buckets_def)
qed

section \<open>Gaps\<close>

lemma linked_seqs: "linked env key es \<Longrightarrow> i < length es \<Longrightarrow> ae_seq (es ! i) = ae_seq (hd es) + int i"
proof (induction es arbitrary: i)
  case (Cons e es)
  show ?case
  proof (cases i)
    case (Suc j)
    then obtain f fs where es: "es = f # fs" using Cons.prems(2) by (cases es) auto
    have "ae_seq (es ! j) = ae_seq (hd es) + int j" using Cons Suc by simp
    with Cons.prems(1) Suc es show ?thesis by simp
  qed simp
qed simp

lemma linked_between:
  assumes "linked env key es" "x \<in> set es" "z \<in> set es" "ae_seq x < s" "s < ae_seq z"
  shows "\<exists>w \<in> set es. ae_seq w = s"
proof -
  obtain i k where i: "i < length es" "x = es ! i" and k: "k < length es" "z = es ! k"
    using assms(2,3) by (metis in_set_conv_nth)
  let ?j = "nat (s - ae_seq (hd es))"
  have ord: "ae_seq (hd es) + int i < s" "s < ae_seq (hd es) + int k"
    using assms(4,5) linked_seqs [OF assms(1)] i k by simp_all
  then have j: "?j < length es" "int ?j = s - ae_seq (hd es)" using k(1) by linarith+
  then have "ae_seq (es ! ?j) = s" using linked_seqs [OF assms(1) j(1)] by simp
  with j(1) show ?thesis by (meson nth_mem)
qed

lemma linked_seq_inj:
  assumes "linked env key es" "x \<in> set es" "y \<in> set es" "ae_seq x = ae_seq y"
  shows "x = y"
  using assms linked_seqs [OF assms(1)] by (auto simp: in_set_conv_nth)

section \<open>Properties\<close>

text \<open>C20 (safety).  No audit row is lost, wherever a run fails: after a run with fresh object
  keys, every row of the log is still in the log, or it was older than the cutoff and a
  recorded run names an object that holds it; rows are only removed, the chain heads and the
  objects there were stay.\<close>

theorem archive_loses_no_row:
  assumes "archive_Run cfg io runID s = (out, s')" "key_text (io_uuid io)" "inj (io_batch io)" "rows_unique s" "keys_fresh cfg io s"
  shows "(\<forall>r \<in> set (audit_log (as_db s)). r \<in> set (audit_log (as_db s'))
        \<or> (archived io s' r \<and> ae_created (ar_entry r) < io_clock io (as_tick s) - cf_days cfg * (24 * 3600 * 1000000000)))
    \<and> set (audit_log (as_db s')) \<subseteq> set (audit_log (as_db s))
    \<and> chain_heads (as_db s') = chain_heads (as_db s) \<and> as_objects s \<subseteq>\<^sub>m as_objects s'"
proof -
  let ?s = "s\<lparr>as_tick := Suc (as_tick s)\<rparr>"
  let ?cutoff = "io_clock io (as_tick s) - cf_days cfg * (24 * 3600 * 1000000000)"
  have io: "batches_ok io" using assms(2,3) by (simp add: batches_ok_def)
  have ready: "archive_ready cfg io ?s" using assms(4,5) by (intro archive_ready_tick) (simp add: archive_ready_def)
  have "moves io ?cutoff ?s s'"
  proof (cases "EnumerateWorkspaceMonths (io_month io) (io_flt io (as_tick s)) ?cutoff (as_db s)")
    case (Inl e)
    with assms(1) show ?thesis by (auto simp: archive_Run_def Let_def moves_def intro: exI [of _ "\<lambda>_. True"])
  next
    case (Inr bs)
    with assms(1) obtain res where "archive_groups cfg io runID ?cutoff (group_buckets bs) res ?s = (out, s')"
      by (auto simp: archive_Run_def Let_def)
    from archive_groups_moves [OF io ready this] show ?thesis by simp
  qed
  then show ?thesis by (auto simp: moves_def)
qed

text \<open>Three entries of workspace 7, logged in the order of the ids 60, 50, 70; a run with pages
  of one row, whose second upload fails.\<close>

definition gx_log :: "uuid \<Rightarrow> time \<Rightarrow> audit_db \<Rightarrow> audit_db" where
  "gx_log i t d = snd (audit_Log ax_env ''k'' no_faults i t (ax_entry i) d)"

definition gx_db :: audit_db where "gx_db = gx_log 70 3000 (gx_log 50 2000 (gx_log 60 1000 no_audit))"

definition gx_io :: archive_io where
  "gx_io = \<lparr>io_encode = (\<lambda>es. Some (concat (map (\<lambda>e. show_nat (ae_id e) @ '' '') es), int (length es))), io_uuid = show_nat,
     io_month = (\<lambda>_. ''1970-01''), io_flt = (\<lambda>n op. n = 4 \<and> op = ''s3 upload''), io_batch = (\<lambda>n. 100 + n), io_record = (\<lambda>n. 200 + n),
     io_clock = (\<lambda>_. 10 * 86400 * 1000000000), io_done = (\<lambda>_. 10 * 86400 * 1000000000), io_expired = (\<lambda>_. False)\<rparr>"

definition gx_cfg :: archive_cfg where "gx_cfg = \<lparr>cf_days = 7, cf_prefix = ''audit/'', cf_max = 1\<rparr>"

definition gx_start :: archive_state where
  "gx_start = \<lparr>as_db = gx_db, as_runs = [], as_objects = Map.empty, as_tick = 0\<rparr>"

definition gx_end :: archive_state where "gx_end = snd (archive_Run gx_cfg gx_io 300 gx_start)"

lemma gx_db_reachable: "(audit_step ax_env ''k'')\<^sup>*\<^sup>* no_audit gx_db"
proof -
  have "faithful ax_env (ax_entry 50)" "faithful ax_env (ax_entry 60)" "faithful ax_env (ax_entry 70)" by code_simp+
  then have "audit_step ax_env ''k'' no_audit (gx_log 60 1000 no_audit)"
    "audit_step ax_env ''k'' (gx_log 60 1000 no_audit) (gx_log 50 2000 (gx_log 60 1000 no_audit))"
    "audit_step ax_env ''k'' (gx_log 50 2000 (gx_log 60 1000 no_audit)) gx_db"
    unfolding gx_db_def gx_log_def by (simp_all add: audit_step.log)
  then show ?thesis by (meson converse_rtranclp_into_rtranclp rtranclp.rtrancl_refl)
qed

theorem archive_loses_no_row_witness:
  "map (\<lambda>r. ae_id (ar_entry r)) (audit_log (as_db gx_end)) = [60, 70]
   \<and> archived gx_io gx_end (audit_log gx_db ! 1)"
proof -
  let ?r = "audit_log gx_db ! 1"
  have r: "ae_id (ar_entry ?r) = 50" "1 < length (audit_log gx_db)" by code_simp+
  have left: "map (\<lambda>r. ae_id (ar_entry r)) (audit_log (as_db gx_end)) = [60, 70]" by code_simp
  obtain out where run: "archive_Run gx_cfg gx_io 300 gx_start = (out, gx_end)" unfolding gx_end_def by (metis prod.collapse)
  have "key_text (io_uuid gx_io)" by (simp add: gx_io_def decimal_keys.key_text_axioms)
  moreover have "inj (io_batch gx_io)" by (simp add: gx_io_def inj_def)
  moreover have "rows_unique gx_start" by code_simp
  moreover have "keys_fresh gx_cfg gx_io gx_start" by (simp add: keys_fresh_def gx_start_def)
  ultimately have "?r \<in> set (audit_log (as_db gx_end)) \<or> archived gx_io gx_end ?r"
    using archive_loses_no_row [OF run] nth_mem [OF r(2)] by (auto simp: gx_start_def)
  moreover have "?r \<notin> set (audit_log (as_db gx_end))"
  proof
    assume "?r \<in> set (audit_log (as_db gx_end))"
    then have "50 \<in> set (map (\<lambda>r. ae_id (ar_entry r)) (audit_log (as_db gx_end)))" unfolding set_map r(1) [symmetric] by (rule imageI)
    then show False unfolding left by simp
  qed
  ultimately show ?thesis using left by blast
qed

text \<open>However a run ends, the months it counts as done and as failed add up to
  the months it found, and it reports an error exactly when a month failed.\<close>

theorem archive_counters_add_up:
  assumes "archive_Run cfg io runID s = ((err, res), s')"
  shows "rs_ok res + rs_failed res = rs_total res \<and> (rs_failed res = 0 \<longleftrightarrow> rs_errors res = [])"
proof (cases "EnumerateWorkspaceMonths (io_month io) (io_flt io (as_tick s))
    (io_clock io (as_tick s) - cf_days cfg * (24 * 3600 * 1000000000)) (as_db s)")
  case (Inl e)
  with assms show ?thesis by (auto simp: archive_Run_def Let_def)
next
  case (Inr bs)
  with assms have "archive_groups cfg io runID (io_clock io (as_tick s) - cf_days cfg * (24 * 3600 * 1000000000)) (group_buckets bs)
      \<lparr>rs_total = length bs, rs_ok = 0, rs_failed = 0, rs_rows = 0, rs_bytes = 0, rs_errors = []\<rparr> (s\<lparr>as_tick := Suc (as_tick s)\<rparr>)
      = ((err, res), s')" by (simp add: archive_Run_def Let_def)
  from archive_groups_counts [OF this] group_buckets_counts [of bs] show ?thesis by (simp add: errors_match_def)
qed

theorem archive_counters_add_up_witness:
  "\<exists>err res s'. archive_Run gx_cfg gx_io 300 gx_start = ((err, res), s')
     \<and> rs_total res = 1 \<and> rs_failed res = 1 \<and> rs_rows res = 1 \<and> rs_errors res \<noteq> []"
proof -
  obtain err res s' where run: "archive_Run gx_cfg gx_io 300 gx_start = ((err, res), s')" by (metis prod.collapse)
  have "case archive_Run gx_cfg gx_io 300 gx_start of ((err, res), s') \<Rightarrow> rs_total res = 1 \<and> rs_failed res = 1 \<and> rs_rows res = 1"
    by code_simp
  with run archive_counters_add_up [OF run] show ?thesis by auto
qed

text \<open>The archive deletes rows in the order of their random ids, the verification
  expects the oldest rows to go first.  If a deletion removes a row and leaves one logged
  before and one logged after it, the verification no longer reports the untouched log
  valid.  (A run that stops between two pages of a month does that.)\<close>

theorem archived_middle_breaks_chain:
  assumes "(audit_step env key)\<^sup>*\<^sup>* no_audit d" "DeleteBatch flt ws ids d = (Inr n, d')"
    and "x \<in> set (chained_rows d ws)" "y \<in> set (chained_rows d ws)" "z \<in> set (chained_rows d ws)"
    and "ae_seq x < ae_seq y" "ae_seq y < ae_seq z"
    and "ae_id x \<notin> set ids" "ae_id y \<in> set ids" "ae_id z \<notin> set ids"
  shows "\<not> (\<exists>v. VerifyChain env key no_faults None d' ws = Inr v \<and> cv_valid v)"
proof
  assume "\<exists>v. VerifyChain env key no_faults None d' ws = Inr v \<and> cv_valid v"
  then have lk': "linked env key (chained_rows d' ws)" by (simp add: chain_valid_iff)
  have "chain_inv env key d" by (rule audit_reachable_inv [OF assms(1)])
  then have lk: "linked env key (chained_rows d ws)"
    unfolding chain_inv_def anchored_def by (auto dest!: spec [of _ ws] split: option.splits)
  have "audit_log d' = filter (\<lambda>r. \<not> (ae_ws (ar_entry r) = ws \<and> ae_id (ar_entry r) \<in> set ids)) (audit_log d)"
    using assms(2,9) by (auto simp: DeleteBatch_def Let_def delete_rows_def split: if_splits)
  then have "filter (\<lambda>r. ae_ws (ar_entry r) = ws \<and> ar_seq r \<noteq> None) (audit_log d')
      = filter (\<lambda>r. ae_id (scanRow r) \<notin> set ids) (filter (\<lambda>r. ae_ws (ar_entry r) = ws \<and> ar_seq r \<noteq> None) (audit_log d))"
    by (simp, intro filter_cong) auto
  then have rows: "chained_rows d' ws = filter (\<lambda>e. ae_id e \<notin> set ids) (chained_rows d ws)"
    by (simp add: chained_rows_def filter_sort filter_map o_def)
  have "x \<in> set (chained_rows d' ws)" "z \<in> set (chained_rows d' ws)" using assms(3,5,8,10) rows by simp_all
  from linked_between [OF lk' this assms(6,7)] obtain w where w: "w \<in> set (chained_rows d' ws)" "ae_seq w = ae_seq y" by blast
  then have "w \<in> set (chained_rows d ws)" "ae_id w \<notin> set ids" using rows by simp_all
  moreover from this have "w = y" using linked_seq_inj [OF lk _ assms(4) w(2)] by blast
  ultimately show False using assms(9) by simp
qed

theorem archived_middle_breaks_chain_witness:
  "(\<exists>v. VerifyChain ax_env ''k'' no_faults None gx_db 7 = Inr v \<and> cv_valid v)
   \<and> (\<exists>n d'. DeleteBatch no_faults 7 [50] gx_db = (Inr n, d') \<and> d' = as_db gx_end
        \<and> \<not> (\<exists>v. VerifyChain ax_env ''k'' no_faults None d' 7 = Inr v \<and> cv_valid v))"
proof -
  have "case VerifyChain ax_env ''k'' no_faults None gx_db 7 of Inr v \<Rightarrow> cv_valid v | Inl _ \<Rightarrow> False" by code_simp
  then have before: "\<exists>v. VerifyChain ax_env ''k'' no_faults None gx_db 7 = Inr v \<and> cv_valid v" by (auto split: sum.splits)
  have "case DeleteBatch no_faults 7 [50] gx_db of (Inr n, d') \<Rightarrow> audit_log d' = audit_log (as_db gx_end) \<and> chain_heads d' = chain_heads (as_db gx_end)
      | _ \<Rightarrow> False" by code_simp
  then obtain n d' where del: "DeleteBatch no_faults 7 [50] gx_db = (Inr n, d')" "d' = as_db gx_end"
    by (auto split: prod.splits sum.splits)
  let ?es = "chained_rows gx_db 7"
  have len: "length ?es = 3" "map ae_id ?es = [60, 50, 70]" "map ae_seq ?es = [1, 2, 3]" by code_simp+
  then obtain a b c where es: "?es = [a, b, c]" by (auto simp: numeral_3_eq_3 length_Suc_conv)
  have "\<not> (\<exists>v. VerifyChain ax_env ''k'' no_faults None d' 7 = Inr v \<and> cv_valid v)"
    using len es by (intro archived_middle_breaks_chain [OF gx_db_reachable del(1), of a b c]) simp_all
  with before del show ?thesis by blast
qed

end
