(* ===== verification/Totp.thy ===== *)
theory Totp
  imports Schema
begin

text \<open>
  The second factor (\<^verbatim>\<open>internal/totp\<close>): enrolment, verification of one-time codes and
  recovery codes.  What the code takes from elsewhere is in the record \<open>totp_env\<close>, one value
  per call: the validation of a code against a secret (package \<^verbatim>\<open>otp\<close>), bcrypt, the
  encryption of the secret at rest, the parsing and drawing of an \<^verbatim>\<open>otpauth\<close> address,
  random bytes, and the Unicode case mapping of texts that are not ASCII.
\<close>

section \<open>Constants, errors and rows\<close>

definition SecretBytes :: nat where "SecretBytes = 20"
definition PeriodSeconds :: nat where "PeriodSeconds = 30"
definition SkewPeriods :: nat where "SkewPeriods = 1"
definition RecoveryCodeCount :: nat where "RecoveryCodeCount = 10"
definition RecoveryCodeGroups :: nat where "RecoveryCodeGroups = 5"
definition RecoveryCodeGroupSize :: nat where "RecoveryCodeGroupSize = 2"

definition recoveryAlphabet :: string where
  "recoveryAlphabet = ''abcdefghjkmnpqrstuvwxyz23456789''"

lemmas recovery_sizes = RecoveryCodeGroups_def RecoveryCodeGroupSize_def

datatype totp_error =
    TotpErrNotEnrolled
  | TotpErrAlreadyActivated
  | TotpErrNotActivated
  | TotpErrInvalidCode
  | TotpErrCodeReplayed
  | TotpErrLabelRequired
  | TotpErr string  \<comment> \<open>an error wrapped in this text\<close>

record totp_credential =
  tc_user :: uuid
  tc_secret :: string
  tc_activated :: "time option"
  tc_last_used :: "time option"
  tc_created :: time
  tc_updated :: time

record recovery_code =
  rc_id :: uuid
  rc_user :: uuid
  rc_hash :: string
  rc_used :: "time option"
  rc_created :: time

record totp_db =
  credentials :: "totp_credential list"
  recovery_codes :: "recovery_code list"

definition IsActivated :: "totp_credential \<Rightarrow> bool" where
  "IsActivated c = (tc_activated c \<noteq> None)"

record totp_status =
  ts_enabled :: bool
  ts_pending :: bool
  ts_activated :: "time option"
  ts_last_used :: "time option"
  ts_remaining :: nat

record validate_opts =
  vo_period :: nat
  vo_skew :: nat
  vo_digits :: nat
  vo_algorithm :: string

record totp_env =
  te_ValidateCustom :: "string \<Rightarrow> string \<Rightarrow> time \<Rightarrow> validate_opts \<Rightarrow> bool"
  te_encrypt :: "string \<Rightarrow> string option"
  te_decrypt :: "string \<Rightarrow> string option"
  te_hash :: "nat \<Rightarrow> string \<Rightarrow> string option"  \<comment> \<open>bcrypt with the salt of the \<open>n\<close>-th call\<close>
  te_compare :: "string \<Rightarrow> string \<Rightarrow> bool"
  te_NewKeyFromURL :: "string \<Rightarrow> string option"  \<comment> \<open>the address of the parsed key\<close>
  te_qr :: "string \<Rightarrow> string option"
  te_secret_byte :: "nat \<Rightarrow> nat"
  te_random :: "nat \<Rightarrow> nat \<Rightarrow> nat \<Rightarrow> nat"  \<comment> \<open>code, read, position in the buffer\<close>
  te_random_fails :: "nat \<Rightarrow> nat \<Rightarrow> bool"
  te_unicode_lower :: "string \<Rightarrow> string"
  te_stored :: "time \<Rightarrow> time"  \<comment> \<open>the value a timestamp column keeps of a time\<close>
  te_now :: time  \<comment> \<open>the clock of the database\<close>
  te_ids :: "nat \<Rightarrow> uuid"  \<comment> \<open>identifiers drawn by the database\<close>

section \<open>The repository\<close>

definition GetCredential :: "faults \<Rightarrow> totp_db \<Rightarrow> uuid \<Rightarrow> totp_error + totp_credential" where
  "GetCredential flt d u =
     (if flt ''get credential'' then Inl (TotpErr ''get credential'')
      else case find (\<lambda>c. tc_user c = u) (credentials d) of
        None \<Rightarrow> Inl TotpErrNotEnrolled
      | Some c \<Rightarrow> Inr c)"

definition UpsertCredential ::
  "totp_env \<Rightarrow> faults \<Rightarrow> uuid \<Rightarrow> string \<Rightarrow> time option \<Rightarrow> time option \<Rightarrow> totp_db \<Rightarrow> totp_error option \<times> totp_db" where
  "UpsertCredential env flt u secret activated last_used d =
     (if flt ''upsert totp credential'' then (Some (TotpErr ''upsert totp credential''), d)
      else if \<exists>c \<in> set (credentials d). tc_user c = u
      then (None, d\<lparr>credentials := update_rows (\<lambda>c. tc_user c = u)
              (\<lambda>c. c\<lparr>tc_secret := secret, tc_activated := activated, tc_last_used := last_used, tc_updated := te_now env\<rparr>)
              (credentials d)\<rparr>)
      else (None, d\<lparr>credentials := credentials d @
              [\<lparr>tc_user = u, tc_secret = secret, tc_activated = activated, tc_last_used = last_used,
                tc_created = te_now env, tc_updated = te_now env\<rparr>]\<rparr>))"

text \<open>One transaction: whatever fails, nothing of it stays.\<close>

definition recovery_rows :: "totp_env \<Rightarrow> uuid \<Rightarrow> string list \<Rightarrow> recovery_code list" where
  "recovery_rows env u hashes =
     map (\<lambda>(i, h). \<lparr>rc_id = te_ids env i, rc_user = u, rc_hash = h, rc_used = None, rc_created = te_now env\<rparr>)
       (zip [0..<length hashes] hashes)"

definition repo_FinalizeEnrollment ::
  "totp_env \<Rightarrow> faults \<Rightarrow> uuid \<Rightarrow> time \<Rightarrow> string list \<Rightarrow> totp_db \<Rightarrow> totp_error option \<times> totp_db" where
  "repo_FinalizeEnrollment env flt u activatedAt hashes d =
     (if flt ''begin finalize tx'' then (Some (TotpErr ''begin finalize tx''), d)
      else if flt ''activate totp credential'' then (Some (TotpErr ''activate totp credential''), d)
      else if rows_affected (\<lambda>c. tc_user c = u) (credentials d) = 0 then (Some TotpErrNotEnrolled, d)
      else if flt ''wipe prior recovery codes'' then (Some (TotpErr ''wipe prior recovery codes''), d)
      else if hashes \<noteq> [] \<and> flt ''insert recovery code'' then (Some (TotpErr ''insert recovery code''), d)
      else if hashes \<noteq> [] \<and> flt ''close recovery code batch'' then (Some (TotpErr ''close recovery code batch''), d)
      else if flt ''commit finalize'' then (Some (TotpErr ''commit finalize''), d)
      else (None,
        d\<lparr>credentials := update_rows (\<lambda>c. tc_user c = u)
             (\<lambda>c. c\<lparr>tc_activated := Some (te_stored env activatedAt), tc_updated := te_now env\<rparr>) (credentials d),
          recovery_codes := delete_rows (\<lambda>r. rc_user r = u) (recovery_codes d) @ recovery_rows env u hashes\<rparr>))"

text \<open>The foreign keys of both tables point to the users: deleting a credential deletes no
  recovery code.\<close>

definition DeleteCredential :: "faults \<Rightarrow> uuid \<Rightarrow> totp_db \<Rightarrow> totp_error option \<times> totp_db" where
  "DeleteCredential flt u d =
     (if flt ''delete totp credential'' then (Some (TotpErr ''delete totp credential''), d)
      else if rows_affected (\<lambda>c. tc_user c = u) (credentials d) = 0 then (Some TotpErrNotEnrolled, d)
      else (None, d\<lparr>credentials := delete_rows (\<lambda>c. tc_user c = u) (credentials d)\<rparr>))"

definition UpdateLastUsed :: "totp_env \<Rightarrow> faults \<Rightarrow> uuid \<Rightarrow> time \<Rightarrow> totp_db \<Rightarrow> totp_error option \<times> totp_db" where
  "UpdateLastUsed env flt u at d =
     (if flt ''update last_used_at'' then (Some (TotpErr ''update last_used_at''), d)
      else if rows_affected (\<lambda>c. tc_user c = u) (credentials d) = 0 then (Some TotpErrNotEnrolled, d)
      else (None, d\<lparr>credentials := update_rows (\<lambda>c. tc_user c = u)
              (\<lambda>c. c\<lparr>tc_last_used := Some (te_stored env at), tc_updated := te_now env\<rparr>) (credentials d)\<rparr>))"

definition unused_of :: "uuid \<Rightarrow> recovery_code \<Rightarrow> bool" where
  "unused_of u r = (rc_user r = u \<and> rc_used r = None)"

definition ListUnusedRecoveryCodes :: "faults \<Rightarrow> totp_db \<Rightarrow> uuid \<Rightarrow> totp_error + recovery_code list" where
  "ListUnusedRecoveryCodes flt d u =
     (if flt ''list unused recovery codes'' then Inl (TotpErr ''list unused recovery codes'')
      else Inr (filter (unused_of u) (recovery_codes d)))"

definition MarkRecoveryCodeUsed ::
  "totp_env \<Rightarrow> faults \<Rightarrow> uuid \<Rightarrow> time \<Rightarrow> totp_db \<Rightarrow> totp_error option \<times> totp_db" where
  "MarkRecoveryCodeUsed env flt i at d =
     (if flt ''mark recovery code used'' then (Some (TotpErr ''mark recovery code used''), d)
      else if rows_affected (\<lambda>r. rc_id r = i \<and> rc_used r = None) (recovery_codes d) = 0 then (Some TotpErrCodeReplayed, d)
      else (None, d\<lparr>recovery_codes := update_rows (\<lambda>r. rc_id r = i \<and> rc_used r = None)
              (\<lambda>r. r\<lparr>rc_used := Some (te_stored env at)\<rparr>) (recovery_codes d)\<rparr>))"

definition CountUnusedRecoveryCodes :: "faults \<Rightarrow> totp_db \<Rightarrow> uuid \<Rightarrow> totp_error + nat" where
  "CountUnusedRecoveryCodes flt d u =
     (if flt ''count unused recovery codes'' then Inl (TotpErr ''count unused recovery codes'')
      else Inr (length (filter (unused_of u) (recovery_codes d))))"

section \<open>Codes\<close>

definition validate :: "totp_env \<Rightarrow> string \<Rightarrow> string \<Rightarrow> time \<Rightarrow> nat \<Rightarrow> bool" where
  "validate env code secret now skew =
     te_ValidateCustom env code secret now
       \<lparr>vo_period = PeriodSeconds, vo_skew = skew, vo_digits = 6, vo_algorithm = ''SHA1''\<rparr>"

text \<open>The groups of a code, joined by dashes.\<close>

primrec code_groups :: "nat \<Rightarrow> nat \<Rightarrow> string \<Rightarrow> string" where
  "code_groups 0 i s = []"
| "code_groups (Suc n) i s = (if 0 < i then ''-'' else []) @ take RecoveryCodeGroupSize (drop (i * RecoveryCodeGroupSize) s)
     @ code_groups n (Suc i) s"

definition normalizeRecoveryCode :: "totp_env \<Rightarrow> string \<Rightarrow> string" where
  "normalizeRecoveryCode env input =
     (let flat = filter (\<lambda>c. c \<notin> set [CHR '' '', CHR ''-'', CHR 0x09]) (ToLower (te_unicode_lower env) input) in
      if length flat \<noteq> RecoveryCodeGroups * RecoveryCodeGroupSize then flat
      else code_groups RecoveryCodeGroups 0 flat)"

primrec well_formed_group :: "nat \<Rightarrow> nat \<Rightarrow> string \<Rightarrow> bool" where
  "well_formed_group 0 pos s = True"
| "well_formed_group (Suc n) pos s = (ContainsByte recoveryAlphabet (s ! pos) \<and> well_formed_group n (Suc pos) s)"

primrec well_formed_groups :: "nat \<Rightarrow> nat \<Rightarrow> nat \<Rightarrow> string \<Rightarrow> bool" where
  "well_formed_groups 0 i pos s = True"
| "well_formed_groups (Suc n) i pos s =
     (if 0 < i then s ! pos = CHR ''-'' \<and> well_formed_group RecoveryCodeGroupSize (Suc pos) s
          \<and> well_formed_groups n (Suc i) (Suc pos + RecoveryCodeGroupSize) s
      else well_formed_group RecoveryCodeGroupSize pos s \<and> well_formed_groups n (Suc i) (pos + RecoveryCodeGroupSize) s)"

definition isWellFormedRecoveryCode :: "string \<Rightarrow> bool" where
  "isWellFormedRecoveryCode s =
     (length s = RecoveryCodeGroups * RecoveryCodeGroupSize + (RecoveryCodeGroups - 1)
      \<and> well_formed_groups RecoveryCodeGroups 0 0 s)"

text \<open>Drawing a code: bytes of 248 and more are rejected, so that the 31 letters are equally
  likely.  The loop reads as many bytes as letters are missing, and may go on for ever.\<close>

definition rejection_threshold :: nat where
  "rejection_threshold = 256 div length recoveryAlphabet * length recoveryAlphabet mod 256"

primrec take_letters :: "nat \<Rightarrow> string \<Rightarrow> nat list \<Rightarrow> string" where
  "take_letters want chars [] = chars"
| "take_letters want chars (b # bs) =
     (if rejection_threshold \<le> b then take_letters want chars bs
      else let chars = chars @ [recoveryAlphabet ! (b mod length recoveryAlphabet)]
           in if length chars = want then chars else take_letters want chars bs)"

partial_function (option) draw_letters ::
  "(nat \<Rightarrow> nat \<Rightarrow> nat) \<Rightarrow> (nat \<Rightarrow> bool) \<Rightarrow> nat \<Rightarrow> nat \<Rightarrow> string \<Rightarrow> (totp_error + string) option" where
  "draw_letters random fails want k chars =
     (if length chars < want
      then if fails k then Some (Inl (TotpErr ''rand read''))
           else draw_letters random fails want (Suc k)
                  (take_letters want chars (map (\<lambda>i. random k i mod 256) [0..<want - length chars]))
      else Some (Inr chars))"

declare draw_letters.simps [code]

definition generateOneRecoveryCode :: "totp_env \<Rightarrow> nat \<Rightarrow> (totp_error + string) option" where
  "generateOneRecoveryCode env n =
     (case draw_letters (te_random env n) (te_random_fails env n) (RecoveryCodeGroups * RecoveryCodeGroupSize) 0 [] of
        None \<Rightarrow> None
      | Some (Inl e) \<Rightarrow> Some (Inl e)
      | Some (Inr chars) \<Rightarrow> Some (Inr (code_groups RecoveryCodeGroups 0 chars)))"

primrec generate_codes :: "totp_env \<Rightarrow> nat \<Rightarrow> nat \<Rightarrow> string list \<Rightarrow> string list \<Rightarrow> (totp_error + string list \<times> string list) option" where
  "generate_codes env 0 i plaintexts hashes = Some (Inr (plaintexts, hashes))"
| "generate_codes env (Suc n) i plaintexts hashes =
     (case generateOneRecoveryCode env i of
        None \<Rightarrow> None
      | Some (Inl e) \<Rightarrow> Some (Inl e)
      | Some (Inr code) \<Rightarrow>
          (case te_hash env i code of
             None \<Rightarrow> Some (Inl (TotpErr ''bcrypt hash recovery code''))
           | Some hash \<Rightarrow> generate_codes env n (Suc i) (plaintexts @ [code]) (hashes @ [hash])))"

definition generateRecoveryCodes :: "totp_env \<Rightarrow> nat \<Rightarrow> (totp_error + string list \<times> string list) option" where
  "generateRecoveryCodes env n = generate_codes env n 0 [] []"

section \<open>Secrets and the address of an enrolment\<close>

text \<open>\<^verbatim>\<open>base32.StdEncoding\<close>: five bits at a time, the last group padded.\<close>

definition base32_alphabet :: string where "base32_alphabet = ''ABCDEFGHIJKLMNOPQRSTUVWXYZ234567''"

definition base32_group :: "nat list \<Rightarrow> string" where
  "base32_group bs =
     (let n = foldl (\<lambda>acc b. acc * 256 + int b) 0 (bs @ replicate (5 - length bs) 0);
          used = (length bs * 8 + 4) div 5
      in map (\<lambda>i. base32_alphabet ! nat (n div 32 ^ (7 - i) mod 32)) [0..<used] @ replicate (8 - used) CHR ''='')"

fun base32 :: "nat list \<Rightarrow> string" where
  "base32 bs = (if bs = [] then [] else base32_group (take 5 bs) @ base32 (drop 5 bs))"

declare base32.simps [simp del]

definition TrimRightByte :: "string \<Rightarrow> char \<Rightarrow> string" where
  "TrimRightByte s c = rev (dropWhile (\<lambda>x. x = c) (rev s))"

text \<open>Labels are valid UTF-8 (database texts), so that escaping runes is escaping bytes.\<close>

definition otpauthEscape :: "string \<Rightarrow> string" where
  "otpauthEscape s = concat (map (\<lambda>c.
     if c = CHR '' '' then ''%20'' else if c = CHR ''?'' then ''%3F'' else if c = CHR ''#'' then ''%23''
     else if c = CHR ''&'' then ''%26'' else if c = CHR ''='' then ''%3D'' else if c = CHR ''/'' then ''%2F''
     else if c = CHR ''%'' then ''%25'' else [c]) s)"

definition buildOtpauthURI :: "string \<Rightarrow> string \<Rightarrow> string \<Rightarrow> string" where
  "buildOtpauthURI issuer account secret =
     ''otpauth://totp/'' @ otpauthEscape (issuer @ '':'' @ account) @ ''?secret='' @ secret
       @ ''&issuer='' @ otpauthEscape issuer @ ''&algorithm=SHA1&digits=6&period=30''"

section \<open>The service\<close>

text \<open>
  Each operation reads the credential (or the codes) and writes later, in separate statements.
  \<open>d\<close> is the database at the read, \<open>d'\<close> the one at the write; they are the same when no other
  request runs in between.  The issuer is a parameter, \<open>now\<close> and \<open>later\<close> are readings of the
  clock of the service.
\<close>

record enrollment_challenge =
  en_secret :: string
  en_uri :: string
  en_qr :: string

text \<open>The part of \<^verbatim>\<open>BeginEnrollment\<close> after the check of the existing credential.\<close>

definition enroll_pending ::
  "totp_env \<Rightarrow> string \<Rightarrow> faults \<Rightarrow> totp_db \<Rightarrow> uuid \<Rightarrow> string \<Rightarrow> (totp_error + enrollment_challenge) \<times> totp_db" where
  "enroll_pending env issuer flt d u accountLabel =
     (if flt ''read random secret'' then (Inl (TotpErr ''read random secret''), d)
      else
        (let secret = TrimRightByte (base32 (map (\<lambda>i. te_secret_byte env i mod 256) [0..<SecretBytes])) CHR ''='' in
         case te_NewKeyFromURL env (buildOtpauthURI issuer accountLabel secret) of
           None \<Rightarrow> (Inl (TotpErr ''build otpauth key''), d)
         | Some url \<Rightarrow>
             (case te_encrypt env secret of
                None \<Rightarrow> (Inl (TotpErr ''encrypt totp secret''), d)
              | Some encrypted \<Rightarrow>
                  (case UpsertCredential env flt u encrypted None None d of
                     (Some e, d') \<Rightarrow> (Inl (TotpErr ''upsert pending credential''), d')
                   | (None, d') \<Rightarrow>
                       (case te_qr env url of
                          None \<Rightarrow> (Inl (TotpErr ''render qr code''), d')
                        | Some png \<Rightarrow> (Inr \<lparr>en_secret = secret, en_uri = url, en_qr = png\<rparr>, d'))))))"

definition BeginEnrollment ::
  "totp_env \<Rightarrow> string \<Rightarrow> faults \<Rightarrow> totp_db \<Rightarrow> totp_db \<Rightarrow> uuid \<Rightarrow> string \<Rightarrow> (totp_error + enrollment_challenge) \<times> totp_db" where
  "BeginEnrollment env issuer flt d d' u accountLabel =
     (if accountLabel = [] then (Inl TotpErrLabelRequired, d')
      else case GetCredential flt d u of
        Inl e \<Rightarrow> if e = TotpErrNotEnrolled then enroll_pending env issuer flt d' u accountLabel
                 else (Inl (TotpErr ''probe existing credential''), d')
      | Inr c \<Rightarrow> if IsActivated c then (Inl TotpErrAlreadyActivated, d') else enroll_pending env issuer flt d' u accountLabel)"

definition totp_FinalizeEnrollment ::
  "totp_env \<Rightarrow> faults \<Rightarrow> totp_db \<Rightarrow> totp_db \<Rightarrow> uuid \<Rightarrow> string \<Rightarrow> time \<Rightarrow> time
     \<Rightarrow> ((totp_error + string list) \<times> totp_db) option" where
  "totp_FinalizeEnrollment env flt d d' u code now later =
     (case GetCredential flt d u of
        Inl e \<Rightarrow> Some (Inl e, d')
      | Inr cred \<Rightarrow>
          if IsActivated cred then Some (Inl TotpErrAlreadyActivated, d')
          else case te_decrypt env (tc_secret cred) of
            None \<Rightarrow> Some (Inl (TotpErr ''decrypt totp secret''), d')
          | Some secret \<Rightarrow>
              if \<not> validate env code secret now SkewPeriods then Some (Inl TotpErrInvalidCode, d')
              else (case generateRecoveryCodes env RecoveryCodeCount of
                None \<Rightarrow> None
              | Some (Inl e) \<Rightarrow> Some (Inl (TotpErr ''generate recovery codes''), d')
              | Some (Inr (plaintexts, hashes)) \<Rightarrow>
                  (case repo_FinalizeEnrollment env flt u later hashes d' of
                     (Some e, d'') \<Rightarrow> Some (Inl e, d'')
                   | (None, d'') \<Rightarrow> Some (Inr plaintexts, d''))))"

definition totp_Verify ::
  "totp_env \<Rightarrow> faults \<Rightarrow> totp_db \<Rightarrow> totp_db \<Rightarrow> uuid \<Rightarrow> string \<Rightarrow> time \<Rightarrow> totp_error option \<times> totp_db" where
  "totp_Verify env flt d d' u code now =
     (case GetCredential flt d u of
        Inl e \<Rightarrow> (Some e, d')
      | Inr cred \<Rightarrow>
          if \<not> IsActivated cred then (Some TotpErrNotActivated, d')
          else case te_decrypt env (tc_secret cred) of
            None \<Rightarrow> (Some (TotpErr ''decrypt totp secret''), d')
          | Some secret \<Rightarrow>
              if \<not> validate env code secret now SkewPeriods then (Some TotpErrInvalidCode, d')
              else if (case tc_last_used cred of None \<Rightarrow> False | Some t \<Rightarrow> \<not> t < now) then (Some TotpErrCodeReplayed, d')
              else (case UpdateLastUsed env flt u now d' of
                 (Some e, d'') \<Rightarrow> (Some (TotpErr ''update last_used_at''), d'')
               | (None, d'') \<Rightarrow> (None, d'')))"

text \<open>The first listed code whose hash matches decides; \<open>Inr i\<close> is the row that was burned.\<close>

fun consume_loop :: "totp_env \<Rightarrow> faults \<Rightarrow> string \<Rightarrow> time \<Rightarrow> recovery_code list \<Rightarrow> totp_db \<Rightarrow> (totp_error + uuid) \<times> totp_db" where
  "consume_loop env flt code at [] d = (Inl TotpErrInvalidCode, d)"
| "consume_loop env flt code at (r # rs) d =
     (if \<not> te_compare env (rc_hash r) code then consume_loop env flt code at rs d
      else case MarkRecoveryCodeUsed env flt (rc_id r) at d of
        (Some e, d') \<Rightarrow> (Inl (if e = TotpErrCodeReplayed then TotpErrInvalidCode else TotpErr ''mark recovery code used''), d')
      | (None, d') \<Rightarrow> (Inr (rc_id r), d'))"

definition ConsumeRecoveryCode ::
  "totp_env \<Rightarrow> faults \<Rightarrow> totp_db \<Rightarrow> totp_db \<Rightarrow> uuid \<Rightarrow> string \<Rightarrow> time \<Rightarrow> (totp_error + uuid) \<times> totp_db" where
  "ConsumeRecoveryCode env flt d d' u code at =
     (let normalized = normalizeRecoveryCode env code in
      if \<not> isWellFormedRecoveryCode normalized then (Inl TotpErrInvalidCode, d')
      else case ListUnusedRecoveryCodes flt d u of
        Inl e \<Rightarrow> (Inl (TotpErr ''list unused recovery codes''), d')
      | Inr codes \<Rightarrow>
          if codes = [] then (Inl TotpErrInvalidCode, d') else consume_loop env flt normalized at codes d')"

definition totp_Disable :: "faults \<Rightarrow> uuid \<Rightarrow> totp_db \<Rightarrow> totp_error option \<times> totp_db" where
  "totp_Disable flt u d = DeleteCredential flt u d"

definition totp_Status :: "faults \<Rightarrow> totp_db \<Rightarrow> totp_db \<Rightarrow> uuid \<Rightarrow> totp_error + totp_status" where
  "totp_Status flt d d' u =
     (case GetCredential flt d u of
        Inl e \<Rightarrow>
          if e = TotpErrNotEnrolled
          then Inr \<lparr>ts_enabled = False, ts_pending = False, ts_activated = None, ts_last_used = None, ts_remaining = 0\<rparr>
          else Inl e
      | Inr cred \<Rightarrow>
          (case CountUnusedRecoveryCodes flt d' u of
             Inl e \<Rightarrow> Inl e
           | Inr n \<Rightarrow> Inr \<lparr>ts_enabled = IsActivated cred, ts_pending = \<not> IsActivated cred,
               ts_activated = tc_activated cred, ts_last_used = tc_last_used cred, ts_remaining = n\<rparr>))"

end
