(* ===== verification/Totp_Properties.thy ===== *)
theory Totp_Properties
  imports Totp Decimal
begin

text \<open>
  What the second factor guarantees: generated recovery codes are accepted in whatever layout they
  are typed, each is burned at most once however requests interleave; and two things it does not
  do although the comments promise them: refuse a one-time code that was accepted before, and
  remove the recovery codes when the second factor is switched off.
\<close>

section \<open>Recovery codes\<close>

lemma rejection_threshold_eq: "rejection_threshold = 248"
  by (simp add: rejection_threshold_def recoveryAlphabet_def)

lemma take_letters_extends:
  assumes "length cs < want"
  shows "prefix cs (take_letters want cs bs) \<and> length (take_letters want cs bs) \<le> want
    \<and> set (take_letters want cs bs) \<subseteq> set cs \<union> set recoveryAlphabet"
  using assms
proof (induction bs arbitrary: cs)
  case Nil
  then show ?case by simp
next
  case (Cons b bs)
  let ?c = "recoveryAlphabet ! (b mod length recoveryAlphabet)"
  have c: "?c \<in> set recoveryAlphabet" by (intro nth_mem) (simp add: recoveryAlphabet_def)
  show ?case
  proof (cases "length (cs @ [?c]) < want")
    case True
    from Cons.IH [OF this] Cons.IH [OF Cons.prems] c show ?thesis
      by (auto simp: Let_def dest: append_prefixD)
  next
    case False
    with Cons.prems Cons.IH [OF Cons.prems] c show ?thesis by (auto simp: Let_def)
  qed
qed

lemma take_letters_progress:
  assumes "length cs < want" "b < rejection_threshold"
  shows "length cs < length (take_letters want cs (b # bs))"
proof -
  let ?cs = "cs @ [recoveryAlphabet ! (b mod length recoveryAlphabet)]"
  have "length ?cs < want \<Longrightarrow> length ?cs \<le> length (take_letters want ?cs bs)"
    using take_letters_extends [of ?cs want bs] by (auto dest: prefix_length_le)
  with assms show ?thesis by (auto simp: Let_def)
qed

text \<open>Drawing letters ends as soon as enough reads begin with a byte that is not rejected.\<close>

lemma draw_letters_step:
  assumes "length cs < want" "\<not> fails k"
  shows "draw_letters random fails want k cs =
    draw_letters random fails want (Suc k) (take_letters want cs (map (\<lambda>i. random k i mod 256) [0..<want - length cs]))"
  using assms by (subst draw_letters.simps) simp

lemma draw_letters_returns:
  assumes "\<And>k. \<not> fails k" "\<And>k. \<exists>j \<ge> k. random j 0 mod 256 < rejection_threshold"
    and "length cs \<le> want" "set cs \<subseteq> set recoveryAlphabet"
  shows "\<exists>cs'. draw_letters random fails want k cs = Some (Inr cs') \<and> length cs' = want \<and> set cs' \<subseteq> set recoveryAlphabet"
  using assms(3,4)
proof (induction "want - length cs" arbitrary: cs k rule: less_induct)
  case less
  show ?case
  proof (cases "length cs < want")
    case False
    with less.prems show ?thesis by (subst draw_letters.simps) simp
  next
    case True
    obtain j where j: "j \<ge> k" "random j 0 mod 256 < rejection_threshold" using assms(2) by blast
    have "\<exists>cs'. draw_letters random fails want i cs = Some (Inr cs') \<and> length cs' = want \<and> set cs' \<subseteq> set recoveryAlphabet"
      if "i \<le> j" for i
      using that
    proof (induction "j - i" arbitrary: i)
      case (0 i)
      let ?bs = "map (\<lambda>l. random i l mod 256) [0..<want - length cs]"
      obtain bs where bs: "?bs = (random i 0 mod 256) # bs" using True by (simp add: upt_rec)
      have "length cs < length (take_letters want cs ?bs)"
        unfolding bs by (rule take_letters_progress) (use True j 0 in auto)
      with True take_letters_extends [OF True, of ?bs] less.prems show ?case
        unfolding draw_letters_step [of cs want fails i random, OF True assms(1)] by (intro less.hyps) auto
    next
      case (Suc m i)
      let ?bs = "map (\<lambda>l. random i l mod 256) [0..<want - length cs]"
      have next_i: "\<exists>cs'. draw_letters random fails want (Suc i) cs = Some (Inr cs') \<and> length cs' = want \<and> set cs' \<subseteq> set recoveryAlphabet"
        using Suc by auto
      note ext = take_letters_extends [OF True, of ?bs]
      show ?case
      proof (cases "length cs < length (take_letters want cs ?bs)")
        case True
        with \<open>length cs < want\<close> ext less.prems show ?thesis
          unfolding draw_letters_step [of cs want fails i random, OF \<open>length cs < want\<close> assms(1)] by (intro less.hyps) auto
      next
        case False
        with ext have "take_letters want cs ?bs = cs" by (auto simp: prefix_def)
        with next_i show ?thesis unfolding draw_letters_step [of cs want fails i random, OF True assms(1)] by simp
      qed
    qed
    with j(1) show ?thesis by blast
  qed
qed

text \<open>A string of ten letters, in groups and with dashes.\<close>

lemma ten_letters:
  assumes "length cs = RecoveryCodeGroups * RecoveryCodeGroupSize"
  obtains a b c d e f g h i j where "cs = [a, b, c, d, e, f, g, h, i, j]"
proof -
  from assms have "length cs = 10" by (simp add: recovery_sizes)
  then show ?thesis using that by (auto simp: numeral_eq_Suc length_Suc_conv)
qed

lemma code_groups_ten:
  "code_groups RecoveryCodeGroups 0 [a, b, c, d, e, f, g, h, i, j] =
     [a, b, CHR ''-'', c, d, CHR ''-'', e, f, CHR ''-'', g, h, CHR ''-'', i, j]"
  by (simp add: recovery_sizes numeral_eq_Suc)

lemma code_groups_well_formed:
  assumes "length cs = RecoveryCodeGroups * RecoveryCodeGroupSize" "set cs \<subseteq> set recoveryAlphabet"
  shows "isWellFormedRecoveryCode (code_groups RecoveryCodeGroups 0 cs)"
proof -
  obtain a b c d e f g h i j where cs: "cs = [a, b, c, d, e, f, g, h, i, j]" using assms(1) by (rule ten_letters)
  show ?thesis unfolding isWellFormedRecoveryCode_def cs code_groups_ten using assms(2)
    by (simp add: cs recovery_sizes numeral_eq_Suc ContainsByte_def)
qed

lemma code_groups_letters:
  assumes "length cs = RecoveryCodeGroups * RecoveryCodeGroupSize" "CHR ''-'' \<notin> set cs"
  shows "filter (\<lambda>c. c \<noteq> CHR ''-'') (code_groups RecoveryCodeGroups 0 cs) = cs"
proof -
  obtain a b c d e f g h i j where cs: "cs = [a, b, c, d, e, f, g, h, i, j]" using assms(1) by (rule ten_letters)
  show ?thesis unfolding cs code_groups_ten using assms(2) by (auto simp: cs)
qed

text \<open>A text is another layout of a code if it has the same letters up to case, blanks, tabs and
  dashes.\<close>

definition same_code :: "string \<Rightarrow> string \<Rightarrow> bool" where
  "same_code input code =
     ((\<forall>c \<in> set input. of_char c < (128 :: nat))
      \<and> filter (\<lambda>c. c \<notin> set [CHR '' '', CHR ''-'', CHR 0x09]) (map lower_byte input) = filter (\<lambda>c. c \<noteq> CHR ''-'') code)"

lemma normalize_same_code:
  assumes "length cs = RecoveryCodeGroups * RecoveryCodeGroupSize" "CHR ''-'' \<notin> set cs"
    and "same_code input (code_groups RecoveryCodeGroups 0 cs)"
  shows "normalizeRecoveryCode env input = code_groups RecoveryCodeGroups 0 cs"
  using assms code_groups_letters [OF assms(1,2)]
  by (auto simp: normalizeRecoveryCode_def ToLower_def same_code_def Let_def)

text \<open>A letter is ASCII, lower case and none of the characters that are skipped.\<close>

lemma alphabet_letter:
  "list_all (\<lambda>c. of_char c < (128 :: nat) \<and> lower_byte c = c \<and> c \<notin> set [CHR '' '', CHR ''-'', CHR 0x09]) recoveryAlphabet"
  by code_simp

lemma code_groups_same:
  assumes "length cs = RecoveryCodeGroups * RecoveryCodeGroupSize" "set cs \<subseteq> set recoveryAlphabet"
  shows "same_code (code_groups RecoveryCodeGroups 0 cs) (code_groups RecoveryCodeGroups 0 cs)"
proof -
  let ?code = "code_groups RecoveryCodeGroups 0 cs"
  have letters: "of_char c < (128 :: nat) \<and> lower_byte c = c \<and> (c \<in> set [CHR '' '', CHR ''-'', CHR 0x09] \<longleftrightarrow> c = CHR ''-'')"
    if "c \<in> set ?code" for c
  proof -
    obtain a b d e f g h i j k where "cs = [a, b, d, e, f, g, h, i, j, k]" using assms(1) by (rule ten_letters)
    with that have "c = CHR ''-'' \<or> c \<in> set cs" by (simp only: code_groups_ten) auto
    then show ?thesis
    proof
      assume "c \<in> set cs"
      with assms(2) alphabet_letter show ?thesis by (auto simp: list_all_iff)
    qed (simp add: lower_byte_def)
  qed
  then have "map lower_byte ?code = ?code" by (auto intro: map_idI)
  moreover have "filter (\<lambda>c. c \<notin> set [CHR '' '', CHR ''-'', CHR 0x09]) ?code = filter (\<lambda>c. c \<noteq> CHR ''-'') ?code"
    using letters by (intro filter_cong) auto
  ultimately show ?thesis using letters by (auto simp: same_code_def)
qed

lemma dash_not_letter: "CHR ''-'' \<notin> set recoveryAlphabet"
  by (simp add: recoveryAlphabet_def)

text \<open>C22 (roundtrip).  If random reads do not fail and again and again begin with a byte that is
  not rejected, generating a recovery code ends, and every layout of the code a user may type
  (upper case, blanks, tabs, missing or additional dashes) is normalised to the code itself and
  passes the syntax check.\<close>

theorem recovery_code_roundtrip:
  assumes "\<And>k. \<not> te_random_fails env n k" "\<And>k. \<exists>j \<ge> k. te_random env n j 0 mod 256 < rejection_threshold"
  shows "\<exists>code. generateOneRecoveryCode env n = Some (Inr code) \<and> same_code code code
    \<and> (\<forall>input. same_code input code \<longrightarrow>
         normalizeRecoveryCode env input = code \<and> isWellFormedRecoveryCode (normalizeRecoveryCode env input))"
proof -
  obtain cs where cs: "draw_letters (te_random env n) (te_random_fails env n) (RecoveryCodeGroups * RecoveryCodeGroupSize) 0 [] = Some (Inr cs)"
    "length cs = RecoveryCodeGroups * RecoveryCodeGroupSize" "set cs \<subseteq> set recoveryAlphabet"
    using draw_letters_returns [of "te_random_fails env n" "te_random env n" "[]" _ 0, OF assms] by auto
  have dash: "CHR ''-'' \<notin> set cs" using cs(3) dash_not_letter by blast
  have "same_code (code_groups RecoveryCodeGroups 0 cs) (code_groups RecoveryCodeGroups 0 cs)"
    using cs(2,3) by (rule code_groups_same)
  moreover note normalize_same_code [OF cs(2) dash] code_groups_well_formed [OF cs(2,3)]
  ultimately show ?thesis using cs(1) by (auto simp: generateOneRecoveryCode_def)
qed

text \<open>An environment to evaluate: codes are valid in the thirty-second period they name and in the
  neighbouring ones, a hash is the text behind a mark, and every fifth random byte is rejected.\<close>

definition tx_period :: "time \<Rightarrow> int" where "tx_period t = t div (30 * 1000000000)"

definition tx_env :: totp_env where
  "tx_env = \<lparr>te_ValidateCustom = (\<lambda>code secret now opts. secret \<noteq> [] \<and>
       code \<in> set (map show_int [tx_period now - int (vo_skew opts), tx_period now, tx_period now + int (vo_skew opts)])),
     te_encrypt = (\<lambda>s. Some (CHR ''e'' # s)), te_decrypt = (\<lambda>s. Some (tl s)),
     te_hash = (\<lambda>n s. Some (CHR ''h'' # s)), te_compare = (\<lambda>h s. h = CHR ''h'' # s),
     te_NewKeyFromURL = Some, te_qr = Some, te_secret_byte = (\<lambda>i. i), te_random = (\<lambda>n k i. if k mod 5 = 4 then 250 else 7 * n + i),
     te_random_fails = (\<lambda>n k. False), te_unicode_lower = id, te_stored = (\<lambda>t. t div 1000 * 1000),
     te_now = 5, te_ids = (\<lambda>i. 100 + i)\<rparr>"

theorem recovery_code_roundtrip_witness:
  "\<exists>code. generateOneRecoveryCode tx_env 0 = Some (Inr code) \<and> same_code code code
     \<and> isWellFormedRecoveryCode (normalizeRecoveryCode tx_env code)"
proof -
  have "\<exists>j \<ge> k. te_random tx_env 0 j 0 mod 256 < rejection_threshold" for k
    by (rule exI [of _ "5 * k"]) (simp add: tx_env_def rejection_threshold_eq)
  moreover have "\<not> te_random_fails tx_env 0 k" for k by (simp add: tx_env_def)
  ultimately show ?thesis using recovery_code_roundtrip [of tx_env 0] by blast
qed

section \<open>A recovery code is burned at most once\<close>

text \<open>
  A run of the service: the tables, the identifiers of all recovery codes ever stored, the codes
  burned by successful calls in their order, and the number of completed enrolments.  Every call
  may have read its rows from any earlier (or other) database \<open>d\<^sub>0\<close>, may fail anywhere, and the
  database never draws an identifier twice.
\<close>

record totp_run =
  tr_db :: totp_db
  tr_ids :: "uuid set"
  tr_burned :: "uuid list"
  tr_enrolled :: nat

definition drawn_ids :: "totp_env \<Rightarrow> uuid set" where
  "drawn_ids env = te_ids env ` {..<RecoveryCodeCount}"

inductive totp_step :: "totp_run \<Rightarrow> totp_run \<Rightarrow> bool" where
  begin_enrollment:
    "totp_step s (s\<lparr>tr_db := snd (BeginEnrollment env issuer flt d\<^sub>0 (tr_db s) u label)\<rparr>)"
| finalize:
    "totp_FinalizeEnrollment env flt d\<^sub>0 (tr_db s) u code now later = Some (r, d') \<Longrightarrow>
     drawn_ids env \<inter> tr_ids s = {} \<Longrightarrow> inj_on (te_ids env) {..<RecoveryCodeCount} \<Longrightarrow>
     totp_step s (s\<lparr>tr_db := d', tr_ids := tr_ids s \<union> (case r of Inl e \<Rightarrow> {} | Inr codes \<Rightarrow> drawn_ids env),
       tr_enrolled := tr_enrolled s + (case r of Inl e \<Rightarrow> 0 | Inr codes \<Rightarrow> 1)\<rparr>)"
| verify:
    "totp_step s (s\<lparr>tr_db := snd (totp_Verify env flt d\<^sub>0 (tr_db s) u code now)\<rparr>)"
| consume:
    "ConsumeRecoveryCode env flt d\<^sub>0 (tr_db s) u code now = (r, d') \<Longrightarrow>
     totp_step s (s\<lparr>tr_db := d', tr_burned := tr_burned s @ (case r of Inl e \<Rightarrow> [] | Inr i \<Rightarrow> [i])\<rparr>)"
| disable:
    "totp_step s (s\<lparr>tr_db := snd (totp_Disable flt u (tr_db s))\<rparr>)"

inductive_cases totp_stepE: "totp_step s s'"

definition totp_start :: totp_run where
  "totp_start = \<lparr>tr_db = \<lparr>credentials = [], recovery_codes = []\<rparr>, tr_ids = {}, tr_burned = [], tr_enrolled = 0\<rparr>"

definition burned_once :: "totp_run \<Rightarrow> bool" where
  "burned_once s =
     (distinct (tr_burned s) \<and> set (tr_burned s) \<subseteq> tr_ids s \<and> rc_id ` set (recovery_codes (tr_db s)) \<subseteq> tr_ids s
      \<and> (\<forall>r \<in> set (recovery_codes (tr_db s)). rc_id r \<in> set (tr_burned s) \<longrightarrow> rc_used r \<noteq> None)
      \<and> finite (tr_ids s) \<and> card (tr_ids s) \<le> RecoveryCodeCount * tr_enrolled s)"

lemma recovery_codes_upsert [simp]: "recovery_codes (snd (UpsertCredential env flt u secret a l d)) = recovery_codes d"
  by (simp add: UpsertCredential_def)

lemma recovery_codes_last_used [simp]: "recovery_codes (snd (UpdateLastUsed env flt u at d)) = recovery_codes d"
  by (simp add: UpdateLastUsed_def)

lemma recovery_codes_pending: "recovery_codes (snd (enroll_pending env issuer flt d u label)) = recovery_codes d"
  by (simp add: enroll_pending_def Let_def case_prod_beta split: option.split)

lemma recovery_codes_begin [simp]:
  "recovery_codes (snd (BeginEnrollment env issuer flt d\<^sub>0 d u label)) = recovery_codes d"
  by (simp add: BeginEnrollment_def recovery_codes_pending split: sum.split)

lemma recovery_codes_verify [simp]: "recovery_codes (snd (totp_Verify env flt d\<^sub>0 d u code now)) = recovery_codes d"
  by (simp add: totp_Verify_def case_prod_beta split: option.split sum.split)

lemma recovery_codes_disable [simp]: "recovery_codes (snd (totp_Disable flt u d)) = recovery_codes d"
  by (auto simp: totp_Disable_def DeleteCredential_def)

lemma generate_codes_length:
  "generate_codes env n i ps hs = Some (Inr (ps', hs')) \<Longrightarrow> length hs' = length hs + n \<and> length ps' = length ps + n"
  by (induction n arbitrary: i ps hs) (fastforce split: option.splits sum.splits)+

lemma repo_finalize_error: "repo_FinalizeEnrollment env flt u later hashes d = (Some e, d') \<Longrightarrow> d' = d"
  by (auto simp: repo_FinalizeEnrollment_def split: if_splits)

lemma repo_finalize_ok:
  "repo_FinalizeEnrollment env flt u later hashes d = (None, d') \<Longrightarrow>
   recovery_codes d' = delete_rows (\<lambda>r. rc_user r = u) (recovery_codes d) @ recovery_rows env u hashes"
  by (auto simp: repo_FinalizeEnrollment_def split: if_splits)

lemma finalize_cases:
  assumes "totp_FinalizeEnrollment env flt d\<^sub>0 d u code now later = Some (r, d')"
  shows "(\<exists>e. r = Inl e) \<and> d' = d \<or>
    (\<exists>codes hashes. r = Inr codes \<and> length hashes = RecoveryCodeCount
       \<and> recovery_codes d' = delete_rows (\<lambda>r. rc_user r = u) (recovery_codes d) @ recovery_rows env u hashes)"
proof (cases "r")
  case (Inl e)
  with assms show ?thesis
    by (auto simp: totp_FinalizeEnrollment_def dest!: repo_finalize_error split: sum.splits option.splits if_splits prod.splits)
next
  case (Inr codes)
  with assms obtain hashes where "generate_codes env RecoveryCodeCount 0 [] [] = Some (Inr (codes, hashes))"
    "repo_FinalizeEnrollment env flt u later hashes d = (None, d')"
    by (auto simp: totp_FinalizeEnrollment_def generateRecoveryCodes_def split: sum.splits option.splits if_splits prod.splits)
  with Inr repo_finalize_ok generate_codes_length show ?thesis by fastforce
qed

lemma recovery_rows_ids:
  assumes "length hashes = RecoveryCodeCount"
  shows "rc_id ` set (recovery_rows env u hashes) \<subseteq> drawn_ids env"
  using assms by (auto simp: recovery_rows_def drawn_ids_def dest!: set_zip_leftD)

lemma mark_ok:
  assumes "MarkRecoveryCodeUsed env flt i now d = (None, d')"
  shows "(\<exists>r \<in> set (recovery_codes d). rc_id r = i \<and> rc_used r = None)
    \<and> recovery_codes d' = update_rows (\<lambda>r. rc_id r = i \<and> rc_used r = None) (\<lambda>r. r\<lparr>rc_used := Some (te_stored env now)\<rparr>) (recovery_codes d)
    \<and> credentials d' = credentials d"
  using assms by (auto simp: MarkRecoveryCodeUsed_def split: if_splits)

lemma consume_loop_cases:
  assumes "consume_loop env flt code now rs d = (r, d')"
  shows "(\<exists>e. r = Inl e) \<and> d' = d \<or>
    (\<exists>row \<in> set rs. r = Inr (rc_id row) \<and> te_compare env (rc_hash row) code \<and> MarkRecoveryCodeUsed env flt (rc_id row) now d = (None, d'))"
  using assms
proof (induction rs)
  case Nil
  then show ?case by auto
next
  case (Cons row rs)
  have unchanged: "MarkRecoveryCodeUsed env flt i now d = (Some e, d'') \<Longrightarrow> d'' = d" for i e d''
    by (auto simp: MarkRecoveryCodeUsed_def split: if_splits)
  from Cons show ?case by (auto dest!: unchanged split: if_splits prod.splits option.splits)
qed

lemma consume_cases:
  assumes "ConsumeRecoveryCode env flt d\<^sub>0 d u code now = (r, d')"
  shows "(\<exists>e. r = Inl e) \<and> d' = d \<or>
    (\<exists>row \<in> set (recovery_codes d\<^sub>0). r = Inr (rc_id row) \<and> unused_of u row
       \<and> te_compare env (rc_hash row) (normalizeRecoveryCode env code) \<and> MarkRecoveryCodeUsed env flt (rc_id row) now d = (None, d'))"
  using assms
  by (auto simp: ConsumeRecoveryCode_def ListUnusedRecoveryCodes_def Let_def dest!: consume_loop_cases split: if_splits)

lemma burned_once_same_codes:
  "burned_once s \<Longrightarrow> recovery_codes d = recovery_codes (tr_db s) \<Longrightarrow> burned_once (s\<lparr>tr_db := d\<rparr>)"
  by (simp add: burned_once_def)

lemma totp_step_burned_once:
  assumes "totp_step s s'" "burned_once s"
  shows "burned_once s'"
  using assms
proof (cases rule: totp_step.cases)
  case (finalize env flt d\<^sub>0 u code now later r d')
  from finalize_cases [OF finalize(2)] show ?thesis
  proof (elim disjE conjE exE)
    fix e assume "r = Inl e" "d' = tr_db s"
    with assms(2) finalize(1) show ?thesis by simp
  next
    fix codes hashes
    assume r: "r = Inr codes" and "length hashes = RecoveryCodeCount"
      and codes: "recovery_codes d' = delete_rows (\<lambda>r. rc_user r = u) (recovery_codes (tr_db s)) @ recovery_rows env u hashes"
    then have ids: "rc_id ` set (recovery_rows env u hashes) \<subseteq> drawn_ids env" by (intro recovery_rows_ids)
    have "finite (drawn_ids env)" "card (drawn_ids env) = RecoveryCodeCount"
      using finalize(4) by (simp_all add: drawn_ids_def card_image)
    with assms(2) finalize(3) have card: "finite (tr_ids s \<union> drawn_ids env)"
      "card (tr_ids s \<union> drawn_ids env) \<le> RecoveryCodeCount * Suc (tr_enrolled s)"
      by (auto simp: burned_once_def card_Un_disjoint Int_commute)
    have "rc_used row \<noteq> None" if "row \<in> set (recovery_codes d')" "rc_id row \<in> set (tr_burned s)" for row
    proof -
      from that(2) assms(2) finalize(3) ids have "row \<notin> set (recovery_rows env u hashes)" by (auto simp: burned_once_def)
      with that assms(2) codes show ?thesis by (auto simp: burned_once_def table_simps)
    qed
    moreover have "rc_id ` set (recovery_codes d') \<subseteq> tr_ids s \<union> drawn_ids env"
      using assms(2) ids codes by (auto simp: burned_once_def table_simps)
    ultimately show ?thesis using assms(2) card by (auto simp: finalize(1) r burned_once_def)
  qed
next
  case (consume env flt d\<^sub>0 u code now r d')
  from consume_cases [OF consume(2)] show ?thesis
  proof (elim disjE conjE exE bexE)
    fix e assume "r = Inl e" "d' = tr_db s"
    with assms(2) consume(1) show ?thesis by simp
  next
    fix row
    assume r: "r = Inr (rc_id row)" and "MarkRecoveryCodeUsed env flt (rc_id row) now (tr_db s) = (None, d')"
    from mark_ok [OF this(2)] obtain row' where
      row': "row' \<in> set (recovery_codes (tr_db s))" "rc_id row' = rc_id row" "rc_used row' = None"
      and codes: "recovery_codes d' = update_rows (\<lambda>r. rc_id r = rc_id row \<and> rc_used r = None)
        (\<lambda>r. r\<lparr>rc_used := Some (te_stored env now)\<rparr>) (recovery_codes (tr_db s))" by blast
    have "rc_id row \<notin> set (tr_burned s)" "rc_id row \<in> tr_ids s" using row' assms(2) by (auto simp: burned_once_def)
    moreover have "rc_id ` set (recovery_codes d') = rc_id ` set (recovery_codes (tr_db s))"
      unfolding codes set_map [symmetric] by (rule arg_cong [where f = set], rule map_update_rows) simp
    moreover have "rc_used x \<noteq> None" if "x \<in> set (recovery_codes d')" "rc_id x \<in> insert (rc_id row) (set (tr_burned s))" for x
      using that assms(2) by (auto simp: codes table_simps burned_once_def split: if_splits)
    ultimately show ?thesis using assms(2) unfolding consume(1) r by (auto simp: burned_once_def)
  qed
qed (auto intro: burned_once_same_codes)

text \<open>C21 (safety).  However the calls of the service interleave and fail, each stored recovery code
  is accepted at most once, and there are at most ten acceptances per completed enrolment.\<close>

theorem recovery_code_used_once:
  assumes "totp_step\<^sup>*\<^sup>* totp_start s"
  shows "distinct (tr_burned s) \<and> length (tr_burned s) \<le> RecoveryCodeCount * tr_enrolled s"
proof -
  have "burned_once totp_start" by (simp add: burned_once_def totp_start_def)
  with assms have inv: "burned_once s" by (induction rule: rtranclp_induct) (auto intro: totp_step_burned_once)
  then have "card (set (tr_burned s)) \<le> card (tr_ids s)" by (intro card_mono) (auto simp: burned_once_def)
  with inv show ?thesis by (auto simp: burned_once_def distinct_card)
qed

text \<open>User 7 enrols with the code of period 3 and burns the first recovery code.\<close>

definition tx_pending :: totp_db where
  "tx_pending = snd (BeginEnrollment tx_env ''zk'' no_faults (tr_db totp_start) (tr_db totp_start) 7 ''a@b'')"

definition tx_active :: totp_db where
  "tx_active = snd (the (totp_FinalizeEnrollment tx_env no_faults tx_pending tx_pending 7 ''3'' 100000000000 100000000000))"

definition tx_code :: string where "tx_code = ''AB cd-ef-gh-JK''"

definition tx_burned :: totp_db where
  "tx_burned = snd (ConsumeRecoveryCode tx_env no_faults tx_active tx_active 7 tx_code 200000000000)"

definition tx_run :: totp_run where
  "tx_run = \<lparr>tr_db = snd (ConsumeRecoveryCode tx_env no_faults tx_active tx_burned 7 tx_code 300000000000),
     tr_ids = drawn_ids tx_env, tr_burned = [100], tr_enrolled = 1\<rparr>"

lemma tx_run_reachable: "totp_step\<^sup>*\<^sup>* totp_start tx_run"
proof -
  let ?s1 = "totp_start\<lparr>tr_db := tx_pending\<rparr>"
  let ?s2 = "?s1\<lparr>tr_db := tx_active, tr_ids := drawn_ids tx_env, tr_enrolled := 1\<rparr>"
  let ?s3 = "?s2\<lparr>tr_db := tx_burned, tr_burned := [100]\<rparr>"
  have "totp_step totp_start ?s1" unfolding tx_pending_def by (rule totp_step.begin_enrollment)
  moreover have "totp_step ?s1 ?s2"
  proof -
    have "\<exists>codes. totp_FinalizeEnrollment tx_env no_faults tx_pending tx_pending 7 ''3'' 100000000000 100000000000 = Some (Inr codes, tx_active)"
      by (rule exI [of _ "projr (fst (the (totp_FinalizeEnrollment tx_env no_faults tx_pending tx_pending 7 ''3'' 100000000000 100000000000)))"]) code_simp
    then obtain codes where "totp_FinalizeEnrollment tx_env no_faults tx_pending (tr_db ?s1) 7 ''3'' 100000000000 100000000000 = Some (Inr codes, tx_active)"
      by auto
    from totp_step.finalize [OF this] show ?thesis by (simp add: totp_start_def tx_env_def inj_on_def)
  qed
  moreover have "totp_step ?s2 ?s3"
  proof -
    have "ConsumeRecoveryCode tx_env no_faults tx_active (tr_db ?s2) 7 tx_code 200000000000 = (Inr 100, tx_burned)" by code_simp
    from totp_step.consume [OF this] show ?thesis by (simp add: totp_start_def)
  qed
  moreover have "totp_step ?s3 tx_run"
  proof -
    have "ConsumeRecoveryCode tx_env no_faults tx_active (tr_db ?s3) 7 tx_code 300000000000 = (Inl TotpErrInvalidCode, tr_db tx_run)" by code_simp
    from totp_step.consume [OF this] show ?thesis by (simp add: totp_start_def tx_run_def)
  qed
  ultimately show ?thesis by (meson converse_rtranclp_into_rtranclp rtranclp.rtrancl_refl)
qed

theorem recovery_code_used_once_witness: "tr_burned tx_run = [100] \<and> length (tr_burned tx_run) \<le> RecoveryCodeCount * tr_enrolled tx_run"
  using recovery_code_used_once [OF tx_run_reachable] by (simp add: tx_run_def)

section \<open>One-time codes are accepted again\<close>

definition still_valid :: "totp_env \<Rightarrow> totp_db \<Rightarrow> uuid \<Rightarrow> string \<Rightarrow> time \<Rightarrow> bool" where
  "still_valid env d u code now =
     (case find (\<lambda>c. tc_user c = u) (credentials d) of
        None \<Rightarrow> False
      | Some c \<Rightarrow> (case te_decrypt env (tc_secret c) of None \<Rightarrow> False | Some secret \<Rightarrow> validate env code secret now SkewPeriods))"

lemma find_update_rows:
  "find p (update_rows p u rows) = map_option u (find p rows)" if "\<And>r. p r \<Longrightarrow> p (u r)"
  using that by (induction rows) (auto simp: update_rows_def)

lemma verify_ok:
  assumes "totp_Verify env flt d d' u code now = (None, d'')"
  obtains c secret where "find (\<lambda>c. tc_user c = u) (credentials d) = Some c" "IsActivated c"
    "te_decrypt env (tc_secret c) = Some secret" "validate env code secret now SkewPeriods"
    "d'' = d'\<lparr>credentials := update_rows (\<lambda>c. tc_user c = u)
       (\<lambda>c. c\<lparr>tc_last_used := Some (te_stored env now), tc_updated := te_now env\<rparr>) (credentials d')\<rparr>"
  using assms
  by (auto simp: totp_Verify_def GetCredential_def UpdateLastUsed_def split: sum.splits option.splits if_splits prod.splits)

text \<open>The check against replays compares the current time with the time of the last
  acceptance, not the period of the code: a code that was accepted is accepted again at every later
  instant at which the validation itself still takes it, in the same thirty-second period already.\<close>

theorem accepted_code_is_accepted_again:
  assumes "totp_Verify env flt d d u code now = (None, d')" "now < now'" "te_stored env now \<le> now"
    and "still_valid env d u code now'"
  shows "\<exists>d''. totp_Verify env no_faults d' d' u code now' = (None, d'')"
proof -
  from assms(1) obtain c secret where c: "find (\<lambda>c. tc_user c = u) (credentials d) = Some c" "IsActivated c"
    "te_decrypt env (tc_secret c) = Some secret"
    and d': "d' = d\<lparr>credentials := update_rows (\<lambda>c. tc_user c = u)
       (\<lambda>c. c\<lparr>tc_last_used := Some (te_stored env now), tc_updated := te_now env\<rparr>) (credentials d)\<rparr>"
    by (rule verify_ok)
  let ?c = "c\<lparr>tc_last_used := Some (te_stored env now), tc_updated := te_now env\<rparr>"
  have find: "find (\<lambda>c. tc_user c = u) (credentials d') = Some ?c" unfolding d' by (simp add: find_update_rows c(1))
  then have "rows_affected (\<lambda>c. tc_user c = u) (credentials d') \<noteq> 0" by (auto dest!: find_SomeD)
  with find c assms(2-4) show ?thesis
    by (auto simp: totp_Verify_def GetCredential_def UpdateLastUsed_def still_valid_def IsActivated_def)
qed

definition tx_verified :: totp_db where
  "tx_verified = snd (totp_Verify tx_env no_faults tx_active tx_active 7 ''4'' 120000000000)"

theorem accepted_code_is_accepted_again_witness:
  "tx_period 120000000000 = tx_period 120000001000 \<and> (\<exists>d''. totp_Verify tx_env no_faults tx_verified tx_verified 7 ''4'' 120000001000 = (None, d''))"
proof -
  have "totp_Verify tx_env no_faults tx_active tx_active 7 ''4'' 120000000000 = (None, tx_verified)" by code_simp
  moreover have "still_valid tx_env tx_active 7 ''4'' 120000001000" by code_simp
  ultimately show ?thesis
    using accepted_code_is_accepted_again [of tx_env no_faults tx_active 7 "''4''" 120000000000 tx_verified 120000001000]
    by (simp add: tx_env_def tx_period_def)
qed

section \<open>Switching the second factor off\<close>

lemma mark_same_codes:
  "recovery_codes d = recovery_codes d' \<Longrightarrow> fst (MarkRecoveryCodeUsed env flt i now d) = fst (MarkRecoveryCodeUsed env flt i now d')"
  by (auto simp: MarkRecoveryCodeUsed_def)

lemma consume_loop_same_codes:
  "recovery_codes d = recovery_codes d' \<Longrightarrow> fst (consume_loop env flt code now rs d) = fst (consume_loop env flt code now rs d')"
  by (induction rs) (auto simp: mark_same_codes [of d d'] case_prod_beta split: option.splits)

text \<open>Disabling the second factor deletes the credential only: the recovery codes stay,
  and every recovery code that would have been accepted before is accepted afterwards.\<close>

theorem disabling_keeps_recovery_codes:
  assumes "totp_Disable flt u d = (None, d')"
  shows "find (\<lambda>c. tc_user c = u) (credentials d') = None \<and> recovery_codes d' = recovery_codes d
    \<and> fst (ConsumeRecoveryCode env flt' d' d' u code now) = fst (ConsumeRecoveryCode env flt' d d u code now)"
proof -
  have codes: "recovery_codes d' = recovery_codes d" using recovery_codes_disable [of flt u d] assms by simp
  moreover have "find (\<lambda>c. tc_user c = u) (credentials d') = None"
    using assms by (auto simp: totp_Disable_def DeleteCredential_def find_None_iff table_simps split: if_splits)
  moreover have "fst (ConsumeRecoveryCode env flt' d' d' u code now) = fst (ConsumeRecoveryCode env flt' d d u code now)"
    using consume_loop_same_codes [OF codes] by (auto simp: ConsumeRecoveryCode_def ListUnusedRecoveryCodes_def Let_def codes)
  ultimately show ?thesis by blast
qed

definition tx_disabled :: totp_db where "tx_disabled = snd (totp_Disable no_faults 7 tx_active)"

theorem disabling_keeps_recovery_codes_witness:
  "credentials tx_disabled = [] \<and> fst (ConsumeRecoveryCode tx_env no_faults tx_disabled tx_disabled 7 tx_code 200000000000) = Inr 100"
proof -
  have "totp_Disable no_faults 7 tx_active = (None, tx_disabled)" by code_simp
  moreover have "fst (ConsumeRecoveryCode tx_env no_faults tx_active tx_active 7 tx_code 200000000000) = Inr 100" by code_simp
  moreover have "credentials tx_disabled = []" by code_simp
  ultimately show ?thesis using disabling_keeps_recovery_codes by metis
qed

end
