(* ===== verification/Sessions.thy ===== *)
theory Sessions
  imports Decimal
begin

text \<open>
  The session stores (\<^verbatim>\<open>internal/session\<close>): the store in the memory of a replica, the shared
  store in Redis, and the store that fails over from the second to the first.  A session is kept
  under a key of its workspace, with an index of the sessions of each user; a revocation is the
  second up to which the tokens of a user are void.
\<close>

section \<open>Records, errors and fingerprints\<close>

text \<open>The texts of identifiers, SHA-256 in hexadecimal, and the parsing and printing of addresses
  (sixteen bytes) are parameters.\<close>

record session_env =
  se_uuid :: "uuid \<Rightarrow> string"
  se_parse_uuid :: "string \<Rightarrow> uuid option"
  se_sha256 :: "string \<Rightarrow> string"
  se_ParseIP :: "string \<Rightarrow> nat list option"
  se_ip_string :: "nat list \<Rightarrow> string"

text \<open>Why a command to Redis failed; \<open>FailCommand\<close> is an error reply of a reachable server.\<close>

datatype redis_failure =
    FailCanceled | FailDeadline | FailNet | FailEOF | FailUnexpectedEOF | FailClosed | FailPoolExhausted | FailPoolTimeout
  | FailCommand

datatype session_error =
    SessErrNotFound
  | SessErrIDRequired
  | SessErrAnomaly
  | SessErrRedis string redis_failure
  | SessErrParse string

definition isUnavailable :: "session_error \<Rightarrow> bool" where
  "isUnavailable e =
     (case e of
        SessErrRedis _ f \<Rightarrow> f \<notin> {FailCanceled, FailDeadline, FailCommand}
      | _ \<Rightarrow> False)"

definition second :: time where "second = 1000000000"

definition maxUserAgentLen :: nat where "maxUserAgentLen = 512"

definition lastSeenThrottle :: time where "lastSeenThrottle = 60 * second"

text \<open>The zero \<^verbatim>\<open>time.Time\<close>, the first of January of the year 1.\<close>

definition zero_time :: time where "zero_time = - (62135596800 * second)"

definition unix_seconds :: "time \<Rightarrow> int" where "unix_seconds t = t div second"

record session_record =
  sr_id :: string
  sr_user :: uuid
  sr_ws :: uuid
  sr_agent :: string
  sr_ip :: string
  sr_device :: string
  sr_created :: time
  sr_seen :: time

definition networkPrefix :: "session_env \<Rightarrow> string \<Rightarrow> string" where
  "networkPrefix env ip =
     (case se_ParseIP env (TrimSpace ip) of
        None \<Rightarrow> TrimSpace ip
      | Some b \<Rightarrow>
          if take 12 b = replicate 10 0 @ [255, 255]
          then show_nat (b ! 12) @ ''.'' @ show_nat (b ! 13) @ ''.0.0/16''
          else se_ip_string env (take 6 b @ replicate 10 0) @ ''/48'')"

definition Fingerprint :: "session_env \<Rightarrow> string \<Rightarrow> string \<Rightarrow> string" where
  "Fingerprint env agent ip = se_sha256 env (TrimSpace agent @ [CHR 0x00] @ networkPrefix env ip)"

definition clampString :: "string \<Rightarrow> nat \<Rightarrow> string" where
  "clampString s n = (if length s \<le> n then s else take n s)"

definition sessionKey :: "session_env \<Rightarrow> uuid \<Rightarrow> string \<Rightarrow> string" where
  "sessionKey env ws sid = ''ws:'' @ se_uuid env ws @ '':session:'' @ sid"

definition userSessionsKey :: "session_env \<Rightarrow> uuid \<Rightarrow> uuid \<Rightarrow> string" where
  "userSessionsKey env ws u = ''ws:'' @ se_uuid env ws @ '':user_sessions:'' @ se_uuid env u"

definition userRevokedKey :: "session_env \<Rightarrow> uuid \<Rightarrow> uuid \<Rightarrow> string" where
  "userRevokedKey env ws u = ''ws:'' @ se_uuid env ws @ '':user_revoked:'' @ se_uuid env u"

section \<open>The store in memory\<close>

record mem_session =
  me_user :: uuid
  me_ws :: uuid
  me_agent :: string
  me_ip :: string
  me_device :: string
  me_created :: time
  me_seen :: time
  me_expires :: time

record mem_index =
  mi_ids :: "string list"
  mi_expires :: time

record mem_revocation =
  mr_ws :: uuid
  mr_user :: uuid
  mr_cutoff :: int
  mr_expires :: time

record mem_store =
  ms_sessions :: "string \<rightharpoonup> mem_session"
  ms_index :: "string \<rightharpoonup> mem_index"
  ms_revoked :: "string \<rightharpoonup> mem_revocation"

definition NewMemoryStore :: mem_store where
  "NewMemoryStore = \<lparr>ms_sessions = Map.empty, ms_index = Map.empty, ms_revoked = Map.empty\<rparr>"

definition or_time :: "time \<Rightarrow> time \<Rightarrow> time" where
  "or_time t fallback = (if t = zero_time then fallback else t)"

definition mem_Create :: "session_env \<Rightarrow> time \<Rightarrow> session_record \<Rightarrow> time \<Rightarrow> mem_store \<Rightarrow> session_error option \<times> mem_store" where
  "mem_Create env now rec ttl m =
     (if sr_id rec = [] then (Some SessErrIDRequired, m)
      else
        (let created = or_time (sr_created rec) now;
             seen = or_time (sr_seen rec) created;
             exp = now + ttl;
             skey = sessionKey env (sr_ws rec) (sr_id rec);
             createdAt = (case ms_sessions m skey of None \<Rightarrow> created | Some s \<Rightarrow> or_time (me_created s) created);
             ukey = userSessionsKey env (sr_ws rec) (sr_user rec);
             idx = (case ms_index m ukey of None \<Rightarrow> \<lparr>mi_ids = [], mi_expires = zero_time\<rparr> | Some i \<Rightarrow> i)
         in (None, m\<lparr>ms_sessions := (ms_sessions m)(skey \<mapsto>
                 \<lparr>me_user = sr_user rec, me_ws = sr_ws rec, me_agent = clampString (sr_agent rec) maxUserAgentLen, me_ip = sr_ip rec,
                  me_device = sr_device rec, me_created = createdAt, me_seen = seen, me_expires = exp\<rparr>),
               ms_index := (ms_index m)(ukey \<mapsto> \<lparr>mi_ids = List.insert (sr_id rec) (mi_ids idx),
                 mi_expires = (if mi_expires idx < exp then exp else mi_expires idx)\<rparr>)\<rparr>)))"

definition mem_Set :: "session_env \<Rightarrow> time \<Rightarrow> string \<Rightarrow> uuid \<Rightarrow> uuid \<Rightarrow> time \<Rightarrow> mem_store \<Rightarrow> session_error option \<times> mem_store" where
  "mem_Set env now sid u ws ttl m =
     mem_Create env now \<lparr>sr_id = sid, sr_user = u, sr_ws = ws, sr_agent = [], sr_ip = [], sr_device = [], sr_created = now, sr_seen = now\<rparr> ttl m"

definition memRecord :: "string \<Rightarrow> mem_session \<Rightarrow> session_record" where
  "memRecord sid s = \<lparr>sr_id = sid, sr_user = me_user s, sr_ws = me_ws s, sr_agent = me_agent s, sr_ip = me_ip s,
     sr_device = me_device s, sr_created = me_created s, sr_seen = me_seen s\<rparr>"

text \<open>Looking a session up removes it when it has expired.\<close>

definition mem_lookup :: "session_env \<Rightarrow> time \<Rightarrow> uuid \<Rightarrow> string \<Rightarrow> mem_store \<Rightarrow> mem_session option \<times> mem_store" where
  "mem_lookup env now ws sid m =
     (let key = sessionKey env ws sid in
      case ms_sessions m key of
        None \<Rightarrow> (None, m)
      | Some s \<Rightarrow> if now < me_expires s then (Some s, m) else (None, m\<lparr>ms_sessions := (ms_sessions m)(key := None)\<rparr>))"

definition mem_GetRecord :: "session_env \<Rightarrow> time \<Rightarrow> uuid \<Rightarrow> string \<Rightarrow> mem_store \<Rightarrow> (session_error + session_record) \<times> mem_store" where
  "mem_GetRecord env now ws sid m =
     (if sid = [] then (Inl SessErrNotFound, m)
      else case mem_lookup env now ws sid m of
        (None, m') \<Rightarrow> (Inl SessErrNotFound, m')
      | (Some s, m') \<Rightarrow> (Inr (memRecord sid s), m'))"

definition mem_Get :: "session_env \<Rightarrow> time \<Rightarrow> uuid \<Rightarrow> string \<Rightarrow> mem_store \<Rightarrow> (session_error + uuid \<times> uuid) \<times> mem_store" where
  "mem_Get env now ws sid m =
     (if sid = [] then (Inl SessErrNotFound, m)
      else case mem_lookup env now ws sid m of
        (None, m') \<Rightarrow> (Inl SessErrNotFound, m')
      | (Some s, m') \<Rightarrow> (Inr (me_user s, me_ws s), m'))"

definition mem_ValidateSession ::
  "session_env \<Rightarrow> time \<Rightarrow> uuid \<Rightarrow> string \<Rightarrow> string \<Rightarrow> string \<Rightarrow> mem_store \<Rightarrow> session_error option \<times> mem_store" where
  "mem_ValidateSession env now ws sid agent ip m =
     (case mem_lookup env now ws sid m of
        (None, m') \<Rightarrow> (Some SessErrNotFound, m')
      | (Some s, m') \<Rightarrow>
          if me_device s \<noteq> [] \<and> Fingerprint env agent ip \<noteq> me_device s then (Some SessErrAnomaly, m')
          else if lastSeenThrottle \<le> now - me_seen s
          then (None, m'\<lparr>ms_sessions := (ms_sessions m')(sessionKey env ws sid \<mapsto> s\<lparr>me_seen := now\<rparr>)\<rparr>)
          else (None, m'))"

text \<open>Removing a session from an index removes the index with its last entry.\<close>

definition mem_unindex :: "string \<Rightarrow> string list \<Rightarrow> mem_store \<Rightarrow> mem_store" where
  "mem_unindex ukey sids m =
     (case ms_index m ukey of
        None \<Rightarrow> m
      | Some idx \<Rightarrow>
          (let ids = filter (\<lambda>i. i \<notin> set sids) (mi_ids idx) in
           m\<lparr>ms_index := (ms_index m)(ukey := (if ids = [] then None else Some (idx\<lparr>mi_ids := ids\<rparr>)))\<rparr>))"

text \<open>Go visits the entries of a map in any order; \<open>order\<close> is a permutation of them.\<close>

definition mem_ListForUser ::
  "session_env \<Rightarrow> (string list \<Rightarrow> string list) \<Rightarrow> time \<Rightarrow> uuid \<Rightarrow> uuid \<Rightarrow> mem_store \<Rightarrow> session_record list \<times> mem_store" where
  "mem_ListForUser env order now ws u m =
     (case ms_index m (userSessionsKey env ws u) of
        None \<Rightarrow> ([], m)
      | Some idx \<Rightarrow>
          (let live = (\<lambda>sid. case ms_sessions m (sessionKey env ws sid) of None \<Rightarrow> False | Some s \<Rightarrow> now < me_expires s);
               ids = order (mi_ids idx);
               stale = filter (\<lambda>sid. \<not> live sid) ids;
               records = map (\<lambda>sid. memRecord sid (the (ms_sessions m (sessionKey env ws sid)))) (filter live ids);
               m' = mem_unindex (userSessionsKey env ws u) stale
                      (m\<lparr>ms_sessions := (\<lambda>k. if k \<in> sessionKey env ws ` set stale then None else ms_sessions m k)\<rparr>)
           in (sort_key (\<lambda>r. - sr_seen r) records, m')))"

definition mem_RevokeForUser :: "session_env \<Rightarrow> uuid \<Rightarrow> uuid \<Rightarrow> string \<Rightarrow> mem_store \<Rightarrow> bool \<times> mem_store" where
  "mem_RevokeForUser env ws u sid m =
     (if sid = [] then (False, m)
      else case ms_sessions m (sessionKey env ws sid) of
        None \<Rightarrow> (False, m)
      | Some s \<Rightarrow>
          if me_user s \<noteq> u then (False, m)
          else (True, mem_unindex (userSessionsKey env ws u) [sid]
                  (m\<lparr>ms_sessions := (ms_sessions m)(sessionKey env ws sid := None)\<rparr>)))"

definition mem_Revoke :: "session_env \<Rightarrow> uuid \<Rightarrow> string \<Rightarrow> mem_store \<Rightarrow> mem_store" where
  "mem_Revoke env ws sid m =
     (if sid = [] then m
      else case ms_sessions m (sessionKey env ws sid) of
        None \<Rightarrow> m
      | Some s \<Rightarrow> mem_unindex (userSessionsKey env ws (me_user s)) [sid]
                    (m\<lparr>ms_sessions := (ms_sessions m)(sessionKey env ws sid := None)\<rparr>))"

definition mem_RevokeAllForUser :: "session_env \<Rightarrow> uuid \<Rightarrow> uuid \<Rightarrow> mem_store \<Rightarrow> mem_store" where
  "mem_RevokeAllForUser env ws u m =
     (case ms_index m (userSessionsKey env ws u) of
        None \<Rightarrow> m
      | Some idx \<Rightarrow>
          m\<lparr>ms_sessions := (\<lambda>k. if k \<in> sessionKey env ws ` set (mi_ids idx) then None else ms_sessions m k),
            ms_index := (ms_index m)(userSessionsKey env ws u := None)\<rparr>)"

definition revoke_ttl :: "time \<Rightarrow> time" where
  "revoke_ttl ttl = (if ttl \<le> 0 then 24 * 3600 * second else ttl)"

definition mem_RevokeUser :: "session_env \<Rightarrow> time \<Rightarrow> uuid \<Rightarrow> uuid \<Rightarrow> time \<Rightarrow> time \<Rightarrow> mem_store \<Rightarrow> mem_store" where
  "mem_RevokeUser env now ws u at ttl m =
     (let cutoff = unix_seconds at; exp = now + revoke_ttl ttl; key = userRevokedKey env ws u in
      if (case ms_revoked m key of None \<Rightarrow> True | Some r \<Rightarrow> mr_cutoff r < cutoff)
      then m\<lparr>ms_revoked := (ms_revoked m)(key \<mapsto> \<lparr>mr_ws = ws, mr_user = u, mr_cutoff = cutoff, mr_expires = exp\<rparr>)\<rparr>
      else m)"

definition mem_IsRevoked :: "session_env \<Rightarrow> time \<Rightarrow> uuid \<Rightarrow> uuid \<Rightarrow> time \<Rightarrow> mem_store \<Rightarrow> bool \<times> mem_store" where
  "mem_IsRevoked env now ws u issuedAt m =
     (let key = userRevokedKey env ws u in
      case ms_revoked m key of
        None \<Rightarrow> (False, m)
      | Some r \<Rightarrow>
          if now < mr_expires r then (unix_seconds issuedAt \<le> mr_cutoff r, m)
          else (False, m\<lparr>ms_revoked := (ms_revoked m)(key := None)\<rparr>))"

definition reap :: "time \<Rightarrow> mem_store \<Rightarrow> mem_store" where
  "reap now m = m\<lparr>
     ms_sessions := (\<lambda>k. case ms_sessions m k of None \<Rightarrow> None | Some s \<Rightarrow> if now < me_expires s then Some s else None),
     ms_index := (\<lambda>k. case ms_index m k of None \<Rightarrow> None | Some i \<Rightarrow> if now < mi_expires i then Some i else None),
     ms_revoked := (\<lambda>k. case ms_revoked m k of None \<Rightarrow> None | Some r \<Rightarrow> if now < mr_expires r then Some r else None)\<rparr>"

text \<open>The live revocations, for the replay into Redis; \<open>keys\<close> lists the keys of the map in the order
  in which they are visited.\<close>

definition snapshotRevocations :: "string list \<Rightarrow> time \<Rightarrow> mem_store \<Rightarrow> mem_revocation list \<times> mem_store" where
  "snapshotRevocations keys now m =
     (filter (\<lambda>r. now < mr_expires r) (List.map_filter (ms_revoked m) keys),
      m\<lparr>ms_revoked := (\<lambda>k. case ms_revoked m k of None \<Rightarrow> None | Some r \<Rightarrow> if now < mr_expires r then Some r else None)\<rparr>)"

section \<open>The commands of Redis\<close>

text \<open>
  A key holds a hash, a set or a string, and perhaps the time at which it disappears.  Commands work
  on a store whose expired keys are gone; a command on a value of the wrong type fails and changes
  nothing, the other commands of its transaction take effect.
\<close>

datatype redis_value = RHash "string \<rightharpoonup> string" | RSet "string list" | RString string

type_synonym redis_store = "string \<rightharpoonup> redis_value \<times> time option"
type_synonym redis_cmd = "redis_store \<Rightarrow> bool \<times> redis_store"

definition purge :: "time \<Rightarrow> redis_store \<Rightarrow> redis_store" where
  "purge now r = (\<lambda>k. case r k of None \<Rightarrow> None | Some (v, None) \<Rightarrow> Some (v, None)
     | Some (v, Some t) \<Rightarrow> if now < t then Some (v, Some t) else None)"

definition HSet :: "string \<Rightarrow> (string \<times> string) list \<Rightarrow> redis_cmd" where
  "HSet k kvs r =
     (case r k of
        None \<Rightarrow> (True, r(k \<mapsto> (RHash (map_of kvs), None)))
      | Some (RHash m, e) \<Rightarrow> (True, r(k \<mapsto> (RHash (m ++ map_of kvs), e)))
      | Some _ \<Rightarrow> (False, r))"

definition HSetNX :: "string \<Rightarrow> string \<Rightarrow> string \<Rightarrow> redis_cmd" where
  "HSetNX k field v r =
     (case r k of
        None \<Rightarrow> (True, r(k \<mapsto> (RHash [field \<mapsto> v], None)))
      | Some (RHash m, e) \<Rightarrow> (True, if m field = None then r(k \<mapsto> (RHash (m(field \<mapsto> v)), e)) else r)
      | Some _ \<Rightarrow> (False, r))"

text \<open>\<^verbatim>\<open>EXPIRE\<close> counts whole seconds, a positive duration at least one; a duration that is not
  positive deletes the key.\<close>

definition expire_seconds :: "time \<Rightarrow> time" where
  "expire_seconds ttl = (if 0 < ttl \<and> ttl < second then second else ttl div second * second)"

definition set_expiry :: "time \<Rightarrow> string \<Rightarrow> time \<Rightarrow> redis_store \<Rightarrow> redis_store" where
  "set_expiry now k ttl r =
     (case r k of
        None \<Rightarrow> r
      | Some (v, e) \<Rightarrow> if expire_seconds ttl \<le> 0 then r(k := None) else r(k \<mapsto> (v, Some (now + expire_seconds ttl))))"

definition Expire :: "time \<Rightarrow> string \<Rightarrow> time \<Rightarrow> redis_cmd" where
  "Expire now k ttl r = (True, set_expiry now k ttl r)"

definition ExpireNX :: "time \<Rightarrow> string \<Rightarrow> time \<Rightarrow> redis_cmd" where
  "ExpireNX now k ttl r = (True, case r k of Some (v, None) \<Rightarrow> set_expiry now k ttl r | _ \<Rightarrow> r)"

definition ExpireGT :: "time \<Rightarrow> string \<Rightarrow> time \<Rightarrow> redis_cmd" where
  "ExpireGT now k ttl r =
     (True, case r k of Some (v, Some t) \<Rightarrow> if t < now + expire_seconds ttl then set_expiry now k ttl r else r | _ \<Rightarrow> r)"

definition SAdd :: "string \<Rightarrow> string \<Rightarrow> redis_cmd" where
  "SAdd k x r =
     (case r k of
        None \<Rightarrow> (True, r(k \<mapsto> (RSet [x], None)))
      | Some (RSet xs, e) \<Rightarrow> (True, r(k \<mapsto> (RSet (List.insert x xs), e)))
      | Some _ \<Rightarrow> (False, r))"

definition SRem :: "string \<Rightarrow> string list \<Rightarrow> redis_cmd" where
  "SRem k xs r =
     (case r k of
        None \<Rightarrow> (True, r)
      | Some (RSet ys, e) \<Rightarrow>
          (let zs = filter (\<lambda>y. y \<notin> set xs) ys in (True, if zs = [] then r(k := None) else r(k \<mapsto> (RSet zs, e))))
      | Some _ \<Rightarrow> (False, r))"

definition Del :: "string \<Rightarrow> redis_cmd" where
  "Del k r = (True, r(k := None))"

text \<open>\<^verbatim>\<open>TxPipeline\<close>: all commands in order; the reply is an error if one of them failed.\<close>

fun exec_all :: "redis_cmd list \<Rightarrow> redis_cmd" where
  "exec_all [] r = (True, r)"
| "exec_all (c # cs) r = (let (ok, r') = c r; (ok', r'') = exec_all cs r' in (ok \<and> ok', r''))"

text \<open>
  The environment decides for each round trip, named by the text of its error, whether it fails,
  how, and whether the server had carried it out nevertheless.
\<close>

type_synonym redis_faults = "string \<Rightarrow> (redis_failure \<times> bool) option"

definition redis_up :: redis_faults where "redis_up = (\<lambda>_. None)"

definition redis_tx :: "redis_faults \<Rightarrow> string \<Rightarrow> time \<Rightarrow> redis_cmd list \<Rightarrow> redis_store \<Rightarrow> session_error option \<times> redis_store" where
  "redis_tx flt l now cmds r =
     (case flt l of
        Some (f, landed) \<Rightarrow> (Some (SessErrRedis l f), if landed then snd (exec_all cmds (purge now r)) else r)
      | None \<Rightarrow> (case exec_all cmds (purge now r) of (ok, r') \<Rightarrow> (if ok then None else Some (SessErrRedis l FailCommand), r')))"

definition HGetAll :: "redis_faults \<Rightarrow> string \<Rightarrow> time \<Rightarrow> string \<Rightarrow> redis_store \<Rightarrow> session_error + (string \<rightharpoonup> string)" where
  "HGetAll flt l now k r =
     (case flt l of
        Some (f, _) \<Rightarrow> Inl (SessErrRedis l f)
      | None \<Rightarrow>
          (case purge now r k of
             None \<Rightarrow> Inr Map.empty
           | Some (RHash m, _) \<Rightarrow> Inr m
           | Some _ \<Rightarrow> Inl (SessErrRedis l FailCommand)))"

definition SMembers :: "redis_faults \<Rightarrow> string \<Rightarrow> time \<Rightarrow> string \<Rightarrow> redis_store \<Rightarrow> session_error + string list" where
  "SMembers flt l now k r =
     (case flt l of
        Some (f, _) \<Rightarrow> Inl (SessErrRedis l f)
      | None \<Rightarrow>
          (case purge now r k of
             None \<Rightarrow> Inr []
           | Some (RSet xs, _) \<Rightarrow> Inr xs
           | Some _ \<Rightarrow> Inl (SessErrRedis l FailCommand)))"

section \<open>The store in Redis\<close>

definition redis_Create ::
  "session_env \<Rightarrow> redis_faults \<Rightarrow> time \<Rightarrow> session_record \<Rightarrow> time \<Rightarrow> redis_store \<Rightarrow> session_error option \<times> redis_store" where
  "redis_Create env flt now rec ttl r =
     (if sr_id rec = [] then (Some SessErrIDRequired, r)
      else
        (let created = or_time (sr_created rec) now;
             seen = or_time (sr_seen rec) created;
             skey = sessionKey env (sr_ws rec) (sr_id rec);
             ukey = userSessionsKey env (sr_ws rec) (sr_user rec)
         in redis_tx flt ''redis session set'' now
              [HSet skey [(''user_id'', se_uuid env (sr_user rec)), (''workspace_id'', se_uuid env (sr_ws rec)),
                 (''user_agent'', clampString (sr_agent rec) maxUserAgentLen), (''ip'', sr_ip rec),
                 (''device_hash'', sr_device rec), (''last_seen'', show_int (unix_seconds seen))],
               HSetNX skey ''created_at'' (show_int (unix_seconds created)), Expire now skey ttl,
               SAdd ukey (sr_id rec), ExpireNX now ukey ttl, ExpireGT now ukey ttl] r))"

definition redis_session_Set ::
  "session_env \<Rightarrow> redis_faults \<Rightarrow> time \<Rightarrow> string \<Rightarrow> uuid \<Rightarrow> uuid \<Rightarrow> time \<Rightarrow> redis_store \<Rightarrow> session_error option \<times> redis_store" where
  "redis_session_Set env flt now sid u ws ttl r =
     redis_Create env flt now \<lparr>sr_id = sid, sr_user = u, sr_ws = ws, sr_agent = [], sr_ip = [], sr_device = [], sr_created = now, sr_seen = now\<rparr> ttl r"

definition unixToTime :: "string \<Rightarrow> time" where
  "unixToTime s = (if s = [] then zero_time else case ParseInt10 s of None \<Rightarrow> zero_time | Some secs \<Rightarrow> secs * second)"

definition hash_text :: "(string \<rightharpoonup> string) \<Rightarrow> string \<Rightarrow> string" where
  "hash_text values k = (case values k of None \<Rightarrow> [] | Some v \<Rightarrow> v)"

definition hash_identity :: "session_env \<Rightarrow> (string \<rightharpoonup> string) \<Rightarrow> session_error + uuid \<times> uuid" where
  "hash_identity env values =
     (case values ''user_id'' of
        None \<Rightarrow> Inl SessErrNotFound
      | Some uidStr \<Rightarrow>
          (case values ''workspace_id'' of
             None \<Rightarrow> Inl SessErrNotFound
           | Some wsStr \<Rightarrow>
               (case se_parse_uuid env uidStr of
                  None \<Rightarrow> Inl (SessErrParse ''parse user_id'')
                | Some uid \<Rightarrow>
                    (case se_parse_uuid env wsStr of
                       None \<Rightarrow> Inl (SessErrParse ''parse workspace_id'')
                     | Some wid \<Rightarrow> Inr (uid, wid)))))"

definition recordFromHash :: "session_env \<Rightarrow> string \<Rightarrow> (string \<rightharpoonup> string) \<Rightarrow> session_error + session_record" where
  "recordFromHash env sid values =
     (case hash_identity env values of
        Inl e \<Rightarrow> Inl e
      | Inr (uid, wid) \<Rightarrow> Inr \<lparr>sr_id = sid, sr_user = uid, sr_ws = wid, sr_agent = hash_text values ''user_agent'',
          sr_ip = hash_text values ''ip'', sr_device = hash_text values ''device_hash'',
          sr_created = unixToTime (hash_text values ''created_at''), sr_seen = unixToTime (hash_text values ''last_seen'')\<rparr>)"

definition redis_session_Get :: "session_env \<Rightarrow> redis_faults \<Rightarrow> time \<Rightarrow> uuid \<Rightarrow> string \<Rightarrow> redis_store \<Rightarrow> session_error + uuid \<times> uuid" where
  "redis_session_Get env flt now ws sid r =
     (if sid = [] then Inl SessErrNotFound
      else case HGetAll flt ''redis session get'' now (sessionKey env ws sid) r of
        Inl e \<Rightarrow> Inl e
      | Inr values \<Rightarrow> hash_identity env values)"

definition redis_GetRecord ::
  "session_env \<Rightarrow> redis_faults \<Rightarrow> time \<Rightarrow> uuid \<Rightarrow> string \<Rightarrow> redis_store \<Rightarrow> session_error + session_record" where
  "redis_GetRecord env flt now ws sid r =
     (if sid = [] then Inl SessErrNotFound
      else case HGetAll flt ''redis session get'' now (sessionKey env ws sid) r of
        Inl e \<Rightarrow> Inl e
      | Inr values \<Rightarrow> recordFromHash env sid values)"

text \<open>The script that advances \<^verbatim>\<open>last_seen\<close> of a hash that still exists; its outcome is ignored.\<close>

definition redis_touch ::
  "session_env \<Rightarrow> redis_faults \<Rightarrow> time \<Rightarrow> uuid \<Rightarrow> string \<Rightarrow> redis_store \<Rightarrow> session_error option \<times> redis_store" where
  "redis_touch env flt now ws sid r =
     redis_tx flt ''touch'' now
       [(\<lambda>r. if r (sessionKey env ws sid) = None then (True, r)
             else HSet (sessionKey env ws sid) [(''last_seen'', show_int (unix_seconds now))] r)] r"

definition redis_ValidateSession ::
  "session_env \<Rightarrow> redis_faults \<Rightarrow> time \<Rightarrow> uuid \<Rightarrow> string \<Rightarrow> string \<Rightarrow> string \<Rightarrow> redis_store \<Rightarrow> session_error option \<times> redis_store" where
  "redis_ValidateSession env flt now ws sid agent ip r =
     (case redis_GetRecord env flt now ws sid r of
        Inl e \<Rightarrow> (Some e, r)
      | Inr rec \<Rightarrow>
          if sr_device rec \<noteq> [] \<and> Fingerprint env agent ip \<noteq> sr_device rec then (Some SessErrAnomaly, r)
          else if lastSeenThrottle \<le> now - sr_seen rec then (None, snd (redis_touch env flt now ws sid r))
          else (None, r))"

fun collect_records ::
  "session_env \<Rightarrow> (string \<times> (session_error + (string \<rightharpoonup> string))) list \<Rightarrow> session_record list \<Rightarrow> string list
     \<Rightarrow> session_error + session_record list \<times> string list" where
  "collect_records env [] records stale = Inr (records, stale)"
| "collect_records env ((sid, reply) # rest) records stale =
     (case reply of
        Inl e \<Rightarrow> Inl e
      | Inr values \<Rightarrow>
          (case recordFromHash env sid values of
             Inl e \<Rightarrow> if e = SessErrNotFound then collect_records env rest records (stale @ [sid]) else Inl e
           | Inr rec \<Rightarrow> collect_records env rest (records @ [rec]) stale))"

definition redis_ListForUser ::
  "session_env \<Rightarrow> redis_faults \<Rightarrow> (string list \<Rightarrow> string list) \<Rightarrow> time \<Rightarrow> uuid \<Rightarrow> uuid \<Rightarrow> redis_store
     \<Rightarrow> (session_error + session_record list) \<times> redis_store" where
  "redis_ListForUser env flt order now ws u r =
     (case SMembers flt ''redis session list'' now (userSessionsKey env ws u) r of
        Inl e \<Rightarrow> (Inl e, r)
      | Inr members \<Rightarrow>
          (let ids = order members in
           if ids = [] then (Inr [], r)
           else case collect_records env (map (\<lambda>sid. (sid, HGetAll flt ''redis session list fetch'' now (sessionKey env ws sid) r)) ids) [] [] of
             Inl e \<Rightarrow> (Inl e, r)
           | Inr (records, stale) \<Rightarrow>
               (Inr (sort_key (\<lambda>x. - sr_seen x) records),
                if stale = [] then r else snd (redis_tx flt ''prune'' now [SRem (userSessionsKey env ws u) stale] r))))"

text \<open>\<^verbatim>\<open>HGET\<close> of the owner: \<open>Inr None\<close> is Redis' nil reply.\<close>

definition owner_of ::
  "session_env \<Rightarrow> redis_faults \<Rightarrow> string \<Rightarrow> time \<Rightarrow> uuid \<Rightarrow> string \<Rightarrow> redis_store \<Rightarrow> session_error + string option" where
  "owner_of env flt l now ws sid r =
     (case HGetAll flt l now (sessionKey env ws sid) r of Inl e \<Rightarrow> Inl e | Inr values \<Rightarrow> Inr (values ''user_id''))"

text \<open>The revocations read first and delete in a second round trip: \<open>r\<close> is the store at the read,
  \<open>r'\<close> at the deletion.\<close>

definition redis_RevokeForUser ::
  "session_env \<Rightarrow> redis_faults \<Rightarrow> time \<Rightarrow> uuid \<Rightarrow> uuid \<Rightarrow> string \<Rightarrow> redis_store \<Rightarrow> redis_store \<Rightarrow> (session_error + bool) \<times> redis_store" where
  "redis_RevokeForUser env flt now ws u sid r r' =
     (if sid = [] then (Inr False, r')
      else case owner_of env flt ''redis session owner lookup'' now ws sid r of
        Inl e \<Rightarrow> (Inl e, r')
      | Inr owner \<Rightarrow>
          if owner \<noteq> Some (se_uuid env u) then (Inr False, r')
          else (case redis_tx flt ''redis session revoke-for-user'' now [Del (sessionKey env ws sid), SRem (userSessionsKey env ws u) [sid]] r' of
             (Some e, r'') \<Rightarrow> (Inl e, r'')
           | (None, r'') \<Rightarrow> (Inr True, r'')))"

definition redis_Revoke ::
  "session_env \<Rightarrow> redis_faults \<Rightarrow> time \<Rightarrow> uuid \<Rightarrow> string \<Rightarrow> redis_store \<Rightarrow> redis_store \<Rightarrow> session_error option \<times> redis_store" where
  "redis_Revoke env flt now ws sid r r' =
     (if sid = [] then (None, r')
      else case owner_of env flt ''redis session revoke lookup'' now ws sid r of
        Inl e \<Rightarrow> (Some e, r')
      | Inr owner \<Rightarrow>
          redis_tx flt ''redis session revoke'' now
            (Del (sessionKey env ws sid) #
             (case owner \<bind> se_parse_uuid env of None \<Rightarrow> [] | Some uid \<Rightarrow> [SRem (userSessionsKey env ws uid) [sid]])) r')"

definition redis_RevokeAllForUser ::
  "session_env \<Rightarrow> redis_faults \<Rightarrow> time \<Rightarrow> uuid \<Rightarrow> uuid \<Rightarrow> redis_store \<Rightarrow> redis_store \<Rightarrow> session_error option \<times> redis_store" where
  "redis_RevokeAllForUser env flt now ws u r r' =
     (let ukey = userSessionsKey env ws u in
      case SMembers flt ''redis session list'' now ukey r of
        Inl e \<Rightarrow> (Some e, r')
      | Inr ids \<Rightarrow>
          if ids = [] then redis_tx flt ''redis session index del'' now [Del ukey] r'
          else redis_tx flt ''redis session revoke-all'' now (map (\<lambda>sid. Del (sessionKey env ws sid)) ids @ [Del ukey]) r')"

text \<open>The script of the revocation: an atomic maximum that replaces a value which is no number.  The
  values it compares are the texts of integers it wrote itself.\<close>

definition revoke_script :: "time \<Rightarrow> string \<Rightarrow> int \<Rightarrow> time \<Rightarrow> redis_cmd" where
  "revoke_script now key new ttl r =
     (case r key of
        None \<Rightarrow> (True, r(key \<mapsto> (RString (show_int new), Some (now + ttl))))
      | Some (RString v, e) \<Rightarrow>
          (case ParseInt10 v of
             None \<Rightarrow> (True, r(key \<mapsto> (RString (show_int new), Some (now + ttl))))
           | Some current \<Rightarrow> if current < new then (True, r(key \<mapsto> (RString (show_int new), Some (now + ttl)))) else (True, r))
      | Some _ \<Rightarrow> (False, r))"

definition redis_RevokeUser ::
  "session_env \<Rightarrow> redis_faults \<Rightarrow> time \<Rightarrow> uuid \<Rightarrow> uuid \<Rightarrow> time \<Rightarrow> time \<Rightarrow> redis_store \<Rightarrow> session_error option \<times> redis_store" where
  "redis_RevokeUser env flt now ws u at ttl r =
     (let ttlSeconds = revoke_ttl ttl div second;
          ttlSeconds = (if ttlSeconds < 1 then 1 else ttlSeconds)
      in redis_tx flt ''redis revoke user'' now
           [revoke_script now (userRevokedKey env ws u) (unix_seconds at) (ttlSeconds * second)] r)"

definition redis_IsRevoked ::
  "session_env \<Rightarrow> redis_faults \<Rightarrow> time \<Rightarrow> uuid \<Rightarrow> uuid \<Rightarrow> time \<Rightarrow> redis_store \<Rightarrow> session_error + bool" where
  "redis_IsRevoked env flt now ws u issuedAt r =
     (case flt ''redis is-revoked'' of
        Some (f, _) \<Rightarrow> Inl (SessErrRedis ''redis is-revoked'' f)
      | None \<Rightarrow>
          (case purge now r (userRevokedKey env ws u) of
             None \<Rightarrow> Inr False
           | Some (RString raw, _) \<Rightarrow>
               (case ParseInt10 raw of
                  None \<Rightarrow> Inl (SessErrParse ''parse revoke cutoff'')
                | Some cutoff \<Rightarrow> Inr (unix_seconds issuedAt \<le> cutoff))
           | Some _ \<Rightarrow> Inl (SessErrRedis ''redis is-revoked'' FailCommand)))"

section \<open>The store that fails over\<close>

text \<open>One replica: its view of Redis' health and its memory.  Redis is shared.\<close>

record failover =
  fo_healthy :: bool
  fo_memory :: mem_store

definition NewFailoverStore :: failover where
  "NewFailoverStore = \<lparr>fo_healthy = True, fo_memory = NewMemoryStore\<rparr>"

definition markDown :: "failover \<Rightarrow> failover" where
  "markDown f = f\<lparr>fo_healthy := False\<rparr>"

text \<open>Every operation tries Redis while it is healthy and falls back to the memory when Redis cannot be
  reached.  \<open>primary\<close> and \<open>fallback\<close> are the operation on the two stores.\<close>

definition failing_over ::
  "(redis_store \<Rightarrow> (session_error + 'a) \<times> redis_store) \<Rightarrow> (mem_store \<Rightarrow> (session_error + 'a) \<times> mem_store)
     \<Rightarrow> failover \<Rightarrow> redis_store \<Rightarrow> (session_error + 'a) \<times> failover \<times> redis_store" where
  "failing_over primary fallback f r =
     (if fo_healthy f then
        (case primary r of
           (Inr x, r') \<Rightarrow> (Inr x, f, r')
         | (Inl e, r') \<Rightarrow>
             if \<not> isUnavailable e then (Inl e, f, r')
             else (case fallback (fo_memory f) of (res, m) \<Rightarrow> (res, (markDown f)\<lparr>fo_memory := m\<rparr>, r')))
      else (case fallback (fo_memory f) of (res, m) \<Rightarrow> (res, f\<lparr>fo_memory := m\<rparr>, r)))"

definition unit_result :: "session_error option \<times> 's \<Rightarrow> (session_error + unit) \<times> 's" where
  "unit_result p = (case p of (None, s) \<Rightarrow> (Inr (), s) | (Some e, s) \<Rightarrow> (Inl e, s))"

definition fo_Set where
  "fo_Set env flt now sid u ws ttl =
     failing_over (\<lambda>r. unit_result (redis_session_Set env flt now sid u ws ttl r)) (\<lambda>m. unit_result (mem_Set env now sid u ws ttl m))"

definition fo_Create where
  "fo_Create env flt now rec ttl =
     failing_over (\<lambda>r. unit_result (redis_Create env flt now rec ttl r)) (\<lambda>m. unit_result (mem_Create env now rec ttl m))"

definition fo_Get where
  "fo_Get env flt now ws sid =
     failing_over (\<lambda>r. (redis_session_Get env flt now ws sid r, r)) (mem_Get env now ws sid)"

definition fo_GetRecord where
  "fo_GetRecord env flt now ws sid =
     failing_over (\<lambda>r. (redis_GetRecord env flt now ws sid r, r)) (mem_GetRecord env now ws sid)"

definition fo_Revoke where
  "fo_Revoke env flt now ws sid =
     failing_over (\<lambda>r. unit_result (redis_Revoke env flt now ws sid r r)) (\<lambda>m. (Inr (), mem_Revoke env ws sid m))"

definition fo_RevokeAllForUser where
  "fo_RevokeAllForUser env flt now ws u =
     failing_over (\<lambda>r. unit_result (redis_RevokeAllForUser env flt now ws u r r)) (\<lambda>m. (Inr (), mem_RevokeAllForUser env ws u m))"

definition fo_RevokeUser where
  "fo_RevokeUser env flt now ws u at ttl =
     failing_over (\<lambda>r. unit_result (redis_RevokeUser env flt now ws u at ttl r)) (\<lambda>m. (Inr (), mem_RevokeUser env now ws u at ttl m))"

definition fo_IsRevoked where
  "fo_IsRevoked env flt now ws u issuedAt =
     failing_over (\<lambda>r. (redis_IsRevoked env flt now ws u issuedAt r, r))
       (\<lambda>m. case mem_IsRevoked env now ws u issuedAt m of (b, m') \<Rightarrow> (Inr b, m'))"

definition fo_ListForUser where
  "fo_ListForUser env flt order now ws u =
     failing_over (redis_ListForUser env flt order now ws u)
       (\<lambda>m. case mem_ListForUser env order now ws u m of (rs, m') \<Rightarrow> (Inr rs, m'))"

definition fo_RevokeForUser where
  "fo_RevokeForUser env flt now ws u sid =
     failing_over (\<lambda>r. redis_RevokeForUser env flt now ws u sid r r)
       (\<lambda>m. case mem_RevokeForUser env ws u sid m of (b, m') \<Rightarrow> (Inr b, m'))"

text \<open>While degraded, a session the memory does not know is let in.\<close>

definition fo_ValidateSession where
  "fo_ValidateSession env flt now ws sid agent ip =
     failing_over (\<lambda>r. unit_result (redis_ValidateSession env flt now ws sid agent ip r))
       (\<lambda>m. case mem_ValidateSession env now ws sid agent ip m of
              (e, m') \<Rightarrow> unit_result (if e = Some SessErrNotFound then None else e, m'))"

text \<open>The replay of the revocations made while degraded.  \<open>flt i\<close> decides the \<open>i\<close>-th call.\<close>

fun flush_loop ::
  "session_env \<Rightarrow> (nat \<Rightarrow> redis_faults) \<Rightarrow> time \<Rightarrow> nat \<Rightarrow> mem_revocation list \<Rightarrow> redis_store \<Rightarrow> session_error option \<times> redis_store" where
  "flush_loop env flt now i [] r = (None, r)"
| "flush_loop env flt now i (x # xs) r =
     (let ttl = mr_expires x - now in
      if ttl \<le> 0 then flush_loop env flt now (Suc i) xs r
      else case redis_RevokeUser env (flt i) now (mr_ws x) (mr_user x) (mr_cutoff x * second) ttl r of
        (None, r') \<Rightarrow> flush_loop env flt now (Suc i) xs r'
      | (Some e, r') \<Rightarrow> if isUnavailable e then (Some e, r') else flush_loop env flt now (Suc i) xs r')"

definition flushRevocations ::
  "session_env \<Rightarrow> (nat \<Rightarrow> redis_faults) \<Rightarrow> string list \<Rightarrow> time \<Rightarrow> failover \<Rightarrow> redis_store \<Rightarrow> session_error option \<times> failover \<times> redis_store" where
  "flushRevocations env flt keys now f r =
     (case snapshotRevocations keys now (fo_memory f) of
        (xs, m) \<Rightarrow> (case flush_loop env flt now 0 xs r of (e, r') \<Rightarrow> (e, f\<lparr>fo_memory := m\<rparr>, r')))"

text \<open>One tick of the health loop: a ping, the replay, the switch back to Redis, and the replay once more.\<close>

record health_tick =
  ht_ping :: bool
  ht_faults :: "nat \<Rightarrow> redis_faults"
  ht_faults' :: "nat \<Rightarrow> redis_faults"
  ht_keys :: "string list"
  ht_keys' :: "string list"

definition RunHealthLoop_tick :: "session_env \<Rightarrow> health_tick \<Rightarrow> time \<Rightarrow> failover \<Rightarrow> redis_store \<Rightarrow> failover \<times> redis_store" where
  "RunHealthLoop_tick env ht now f r =
     (if fo_healthy f \<or> \<not> ht_ping ht then (f, r)
      else case flushRevocations env (ht_faults ht) (ht_keys ht) now f r of
        (Some e, f', r') \<Rightarrow> (f', r')
      | (None, f', r') \<Rightarrow>
          (case flushRevocations env (ht_faults' ht) (ht_keys' ht) now (f'\<lparr>fo_healthy := True\<rparr>) r' of (_, f'', r'') \<Rightarrow> (f'', r'')))"

end
