(* ===== verification/Session_Contract.thy ===== *)
theory Session_Contract
  imports Sessions
begin

text \<open>
  What a session store promises, as an abstract table of sessions and revocations with expiry times;
  the interface as a locale, with the lemma that a store which keeps it answers every sequence of
  requests as the specification does, up to the agreement of answers that the store is held to; and the
  proof that the store in memory keeps it.
\<close>

section \<open>The specification\<close>

record session_view =
  sv_sessions :: "uuid \<times> string \<rightharpoonup> uuid \<times> string \<times> time"  \<comment> \<open>user, device, expiry\<close>
  sv_revoked :: "uuid \<times> uuid \<rightharpoonup> int \<times> time"  \<comment> \<open>cutoff, expiry\<close>

datatype session_op =
    OpCreate session_record time
  | OpGet uuid string
  | OpValidate uuid string string string
  | OpRevoke uuid string
  | OpRevokeForUser uuid uuid string
  | OpRevokeAll uuid uuid
  | OpRevokeUser uuid uuid time time
  | OpIsRevoked uuid uuid time

datatype session_answer = Done | Failed session_error | Identity uuid uuid | Revoked bool | Deleted bool

fun spec_step :: "session_env \<Rightarrow> time \<Rightarrow> session_op \<Rightarrow> session_view \<Rightarrow> session_answer \<times> session_view" where
  "spec_step env now (OpCreate rec ttl) v =
     (if sr_id rec = [] then (Failed SessErrIDRequired, v)
      else (Done, v\<lparr>sv_sessions := (sv_sessions v)((sr_ws rec, sr_id rec) \<mapsto> (sr_user rec, sr_device rec, now + ttl))\<rparr>))"
| "spec_step env now (OpGet ws sid) v =
     (case sv_sessions v (ws, sid) of None \<Rightarrow> (Failed SessErrNotFound, v) | Some (u, _, _) \<Rightarrow> (Identity u ws, v))"
| "spec_step env now (OpValidate ws sid agent ip) v =
     (case sv_sessions v (ws, sid) of
        None \<Rightarrow> (Failed SessErrNotFound, v)
      | Some (_, device, _) \<Rightarrow> (if device \<noteq> [] \<and> Fingerprint env agent ip \<noteq> device then Failed SessErrAnomaly else Done, v))"
| "spec_step env now (OpRevoke ws sid) v = (Done, v\<lparr>sv_sessions := (sv_sessions v)((ws, sid) := None)\<rparr>)"
| "spec_step env now (OpRevokeForUser ws u sid) v =
     (case sv_sessions v (ws, sid) of
        None \<Rightarrow> (Deleted False, v)
      | Some (u', _, _) \<Rightarrow>
          if u' = u then (Deleted True, v\<lparr>sv_sessions := (sv_sessions v)((ws, sid) := None)\<rparr>) else (Deleted False, v))"
| "spec_step env now (OpRevokeAll ws u) v =
     (Done, v\<lparr>sv_sessions := (\<lambda>(ws', sid). case sv_sessions v (ws', sid) of
        None \<Rightarrow> None | Some s \<Rightarrow> if ws' = ws \<and> fst s = u then None else Some s)\<rparr>)"
| "spec_step env now (OpRevokeUser ws u at ttl) v =
     (Done, if (case sv_revoked v (ws, u) of None \<Rightarrow> True | Some (c, _) \<Rightarrow> c < unix_seconds at)
        then v\<lparr>sv_revoked := (sv_revoked v)((ws, u) \<mapsto> (unix_seconds at, now + revoke_ttl ttl))\<rparr> else v)"
| "spec_step env now (OpIsRevoked ws u issuedAt) v =
     (Revoked (case sv_revoked v (ws, u) of None \<Rightarrow> False | Some (c, _) \<Rightarrow> unix_seconds issuedAt \<le> c), v)"

definition live_view :: "time \<Rightarrow> session_view \<Rightarrow> session_view" where
  "live_view now v = \<lparr>
     sv_sessions = (\<lambda>k. case sv_sessions v k of None \<Rightarrow> None | Some s \<Rightarrow> if now < snd (snd s) then Some s else None),
     sv_revoked = (\<lambda>k. case sv_revoked v k of None \<Rightarrow> None | Some s \<Rightarrow> if now < snd s then Some s else None)\<rparr>"

text \<open>Requests as the program makes them: lifetimes are whole seconds, a revocation is as of now, and a
  session id belongs to one user of its workspace.\<close>

definition whole_seconds :: "time \<Rightarrow> bool" where
  "whole_seconds ttl = (second \<le> ttl \<and> ttl mod second = 0)"

fun proper_op :: "(uuid \<Rightarrow> string \<Rightarrow> uuid) \<Rightarrow> time \<Rightarrow> session_op \<Rightarrow> bool" where
  "proper_op owner now (OpCreate rec ttl) = (whole_seconds ttl \<and> sr_user rec = owner (sr_ws rec) (sr_id rec))"
| "proper_op owner now (OpRevokeUser ws u at ttl) = (at = now \<and> whole_seconds (revoke_ttl ttl) \<and> int64_range (unix_seconds at))"
| "proper_op owner now _ = True"

fun spec_run :: "session_env \<Rightarrow> (time \<times> session_op) list \<Rightarrow> session_view \<Rightarrow> session_answer list \<times> session_view" where
  "spec_run env [] v = ([], v)"
| "spec_run env ((now, op) # ops) v =
     (let (a, v') = spec_step env now op (live_view now v); (as, v'') = spec_run env ops v' in (a # as, v''))"

fun proper_run :: "(uuid \<Rightarrow> string \<Rightarrow> uuid) \<Rightarrow> time \<Rightarrow> (time \<times> session_op) list \<Rightarrow> bool" where
  "proper_run owner t [] = True"
| "proper_run owner t ((now, op) # ops) = (t \<le> now \<and> proper_op owner now op \<and> proper_run owner now ops)"

section \<open>The interface\<close>

fun store_run :: "(time \<Rightarrow> session_op \<Rightarrow> 's \<Rightarrow> session_answer \<times> 's) \<Rightarrow> (time \<times> session_op) list \<Rightarrow> 's \<Rightarrow> session_answer list \<times> 's" where
  "store_run step [] s = ([], s)"
| "store_run step ((now, op) # ops) s =
     (let (a, s') = step now op s; (as, s'') = store_run step ops s' in (a # as, s''))"

locale session_store =
  fixes env :: session_env
    and owner :: "uuid \<Rightarrow> string \<Rightarrow> uuid"
    and step :: "time \<Rightarrow> session_op \<Rightarrow> 's \<Rightarrow> session_answer \<times> 's"
    and view :: "time \<Rightarrow> 's \<Rightarrow> session_view"
    and inv :: "time \<Rightarrow> 's \<Rightarrow> bool"
    and agrees :: "session_answer \<Rightarrow> session_answer \<Rightarrow> bool"
  assumes step_inv: "\<lbrakk>inv now s; proper_op owner now op; step now op s = (a, s')\<rbrakk> \<Longrightarrow> inv now s'"
    and step_spec: "\<lbrakk>inv now s; proper_op owner now op; step now op s = (a, s')\<rbrakk> \<Longrightarrow>
        agrees a (fst (spec_step env now op (view now s))) \<and> snd (spec_step env now op (view now s)) = view now s'"
    and inv_later: "\<lbrakk>inv t s; t \<le> now\<rbrakk> \<Longrightarrow> inv now s"
    and view_later: "\<lbrakk>inv t s; t \<le> now\<rbrakk> \<Longrightarrow> view now s = live_view now (view t s)"
begin

text \<open>A run of the store is a run of the specification.\<close>

lemma run_spec:
  assumes "inv t s" "proper_run owner t ops"
  shows "list_all2 agrees (fst (store_run step ops s)) (fst (spec_run env ops (view t s)))"
  using assms
proof (induction ops arbitrary: t s)
  case Nil
  then show ?case by simp
next
  case (Cons x ops)
  obtain now op where x: "x = (now, op)" by (cases x)
  obtain a s' where s': "step now op s = (a, s')" by (cases "step now op s")
  from Cons.prems x have now: "t \<le> now" "proper_op owner now op" "proper_run owner now ops" by auto
  have inv: "inv now s" using Cons.prems(1) now(1) by (rule inv_later)
  have "agrees a (fst (spec_step env now op (live_view now (view t s))))"
    "snd (spec_step env now op (live_view now (view t s))) = view now s'"
    using step_spec [OF inv now(2) s'] view_later [OF Cons.prems(1) now(1)] by simp_all
  with Cons.IH [OF step_inv [OF inv now(2) s'] now(3)] s' show ?case
    by (simp add: x case_prod_beta)
qed

end

section \<open>Keys\<close>

text \<open>What the keys rely on: the text of an identifier determines it, parses back and has no colon.\<close>

locale session_setup =
  fixes env :: session_env and owner :: "uuid \<Rightarrow> string \<Rightarrow> uuid"
  assumes uuid_inj: "se_uuid env a = se_uuid env b \<Longrightarrow> a = b"
    and uuid_no_colon: "CHR '':'' \<notin> set (se_uuid env a)"
    and uuid_parse: "se_parse_uuid env (se_uuid env a) = Some a"
begin

lemma uuid_eq: "se_uuid env a = se_uuid env b \<longleftrightarrow> a = b"
  using uuid_inj by blast

lemma colon_key:
  "se_uuid env a @ CHR '':'' # x = se_uuid env b @ CHR '':'' # y \<longleftrightarrow> a = b \<and> x = y"
  using split_at_char [OF uuid_no_colon [of a] uuid_no_colon [of b]] uuid_eq by blast

lemma key_simps [simp]:
  "sessionKey env ws sid = sessionKey env ws' sid' \<longleftrightarrow> ws = ws' \<and> sid = sid'"
  "userSessionsKey env ws u = userSessionsKey env ws' u' \<longleftrightarrow> ws = ws' \<and> u = u'"
  "userRevokedKey env ws u = userRevokedKey env ws' u' \<longleftrightarrow> ws = ws' \<and> u = u'"
  by (auto simp: sessionKey_def userSessionsKey_def userRevokedKey_def colon_key uuid_eq)

lemma key_disjoint [simp]:
  "sessionKey env ws sid \<noteq> userSessionsKey env ws' u" "userSessionsKey env ws' u \<noteq> sessionKey env ws sid"
  "sessionKey env ws sid \<noteq> userRevokedKey env ws' u" "userRevokedKey env ws' u \<noteq> sessionKey env ws sid"
  "userSessionsKey env ws u \<noteq> userRevokedKey env ws' u'" "userRevokedKey env ws' u' \<noteq> userSessionsKey env ws u"
  by (auto simp: sessionKey_def userSessionsKey_def userRevokedKey_def colon_key)

lemma session_key_image [simp]:
  "sessionKey env ws sid \<in> sessionKey env ws' ` S \<longleftrightarrow> ws = ws' \<and> sid \<in> S"
  by auto

end

section \<open>The store in memory\<close>

fun answer :: "session_error option \<times> 's \<Rightarrow> session_answer \<times> 's" where
  "answer (None, s) = (Done, s)"
| "answer (Some e, s) = (Failed e, s)"

fun mem_step :: "session_env \<Rightarrow> time \<Rightarrow> session_op \<Rightarrow> mem_store \<Rightarrow> session_answer \<times> mem_store" where
  "mem_step env now (OpCreate rec ttl) m = answer (mem_Create env now rec ttl m)"
| "mem_step env now (OpGet ws sid) m =
     (case mem_Get env now ws sid m of (Inl e, m') \<Rightarrow> (Failed e, m') | (Inr (u, w), m') \<Rightarrow> (Identity u w, m'))"
| "mem_step env now (OpValidate ws sid agent ip) m = answer (mem_ValidateSession env now ws sid agent ip m)"
| "mem_step env now (OpRevoke ws sid) m = (Done, mem_Revoke env ws sid m)"
| "mem_step env now (OpRevokeForUser ws u sid) m = (case mem_RevokeForUser env ws u sid m of (b, m') \<Rightarrow> (Deleted b, m'))"
| "mem_step env now (OpRevokeAll ws u) m = (Done, mem_RevokeAllForUser env ws u m)"
| "mem_step env now (OpRevokeUser ws u at ttl) m = (Done, mem_RevokeUser env now ws u at ttl m)"
| "mem_step env now (OpIsRevoked ws u issuedAt) m = (case mem_IsRevoked env now ws u issuedAt m of (b, m') \<Rightarrow> (Revoked b, m'))"

text \<open>Its answers are those of the specification, but it may answer that a session was deleted that
  had expired and was still stored.\<close>

definition mem_agrees :: "session_answer \<Rightarrow> session_answer \<Rightarrow> bool" where
  "mem_agrees a b = (a = b \<or> a = Deleted True \<and> b = Deleted False)"

definition mem_view :: "session_env \<Rightarrow> time \<Rightarrow> mem_store \<Rightarrow> session_view" where
  "mem_view env now m = \<lparr>
     sv_sessions = (\<lambda>(ws, sid). case ms_sessions m (sessionKey env ws sid) of
        None \<Rightarrow> None | Some s \<Rightarrow> if now < me_expires s then Some (me_user s, me_device s, me_expires s) else None),
     sv_revoked = (\<lambda>(ws, u). case ms_revoked m (userRevokedKey env ws u) of
        None \<Rightarrow> None | Some r \<Rightarrow> if now < mr_expires r then Some (mr_cutoff r, mr_expires r) else None)\<rparr>"

text \<open>Every stored session belongs to its owner, and while it lives the index of the owner lists it and
  lives at least as long; an index lists sessions of its user only; revocations are kept for a second
  at least.\<close>

definition mem_indexed :: "session_env \<Rightarrow> uuid \<Rightarrow> uuid \<Rightarrow> string \<Rightarrow> time \<Rightarrow> mem_store \<Rightarrow> bool" where
  "mem_indexed env ws u sid e m =
     (case ms_index m (userSessionsKey env ws u) of None \<Rightarrow> False | Some i \<Rightarrow> sid \<in> set (mi_ids i) \<and> e \<le> mi_expires i)"

definition mem_inv :: "session_env \<Rightarrow> (uuid \<Rightarrow> string \<Rightarrow> uuid) \<Rightarrow> time \<Rightarrow> mem_store \<Rightarrow> bool" where
  "mem_inv env owner now m =
     ((\<forall>ws sid s. ms_sessions m (sessionKey env ws sid) = Some s \<longrightarrow>
         sid \<noteq> [] \<and> me_ws s = ws \<and> me_user s = owner ws sid
         \<and> (now < me_expires s \<longrightarrow> mem_indexed env ws (owner ws sid) sid (me_expires s) m))
      \<and> (\<forall>ws u i. ms_index m (userSessionsKey env ws u) = Some i \<longrightarrow> (\<forall>sid \<in> set (mi_ids i). owner ws sid = u))
      \<and> (\<forall>ws u r. ms_revoked m (userRevokedKey env ws u) = Some r \<longrightarrow>
           mr_ws r = ws \<and> mr_user r = u \<and> (mr_cutoff r + 1) * second \<le> mr_expires r))"

lemma mem_invD:
  assumes "mem_inv env owner now m"
  shows "ms_sessions m (sessionKey env ws sid) = Some s \<Longrightarrow>
      sid \<noteq> [] \<and> me_ws s = ws \<and> me_user s = owner ws sid \<and> (now < me_expires s \<longrightarrow> mem_indexed env ws (owner ws sid) sid (me_expires s) m)"
    and "ms_index m (userSessionsKey env ws u) = Some i \<Longrightarrow> sid \<in> set (mi_ids i) \<Longrightarrow> owner ws sid = u"
    and "ms_revoked m (userRevokedKey env ws u) = Some r \<Longrightarrow> mr_ws r = ws \<and> mr_user r = u \<and> (mr_cutoff r + 1) * second \<le> mr_expires r"
  using assms by (auto simp: mem_inv_def)

lemma mem_inv_empty: "mem_inv env owner now NewMemoryStore"
  by (simp add: mem_inv_def NewMemoryStore_def)

lemma mem_view_later: "t \<le> now \<Longrightarrow> mem_view env now m = live_view now (mem_view env t m)"
  by (auto simp: mem_view_def live_view_def fun_eq_iff split: option.splits)

lemma mem_inv_later: "mem_inv env owner t m \<Longrightarrow> t \<le> now \<Longrightarrow> mem_inv env owner now m"
  by (auto simp: mem_inv_def)

context session_setup
begin

lemma mem_inv_put:
  assumes inv: "mem_inv env owner now m"
    and s: "sid \<noteq> []" "me_ws s = ws" "me_user s = owner ws sid"
    and i: "sid \<in> set (mi_ids i)" "me_expires s \<le> mi_expires i" "\<And>x. x \<in> set (mi_ids i) \<Longrightarrow> owner ws x = owner ws sid"
    and old: "\<And>i'. ms_index m (userSessionsKey env ws (owner ws sid)) = Some i' \<Longrightarrow> set (mi_ids i') \<subseteq> set (mi_ids i) \<and> mi_expires i' \<le> mi_expires i"
  shows "mem_inv env owner now (m\<lparr>ms_sessions := (ms_sessions m)(sessionKey env ws sid \<mapsto> s),
    ms_index := (ms_index m)(userSessionsKey env ws (owner ws sid) \<mapsto> i)\<rparr>)" (is "mem_inv env owner now ?m")
proof -
  have kept: "mem_indexed env ws' u' sid' e ?m" if "mem_indexed env ws' u' sid' e m" for ws' u' sid' e
    using that old by (auto simp: mem_indexed_def split: option.splits)
  have new: "mem_indexed env ws (owner ws sid) sid (me_expires s) ?m" using i(1,2) by (simp add: mem_indexed_def)
  show ?thesis
    unfolding mem_inv_def
  proof (intro conjI allI impI)
    fix ws' sid' s' assume "ms_sessions ?m (sessionKey env ws' sid') = Some s'"
    then have c: "ws' = ws \<and> sid' = sid \<and> s' = s \<or> ms_sessions m (sessionKey env ws' sid') = Some s'"
      by (cases "ws' = ws \<and> sid' = sid") simp_all
    show "sid' \<noteq> []" using c s mem_invD(1) [OF inv] by blast
    show "me_ws s' = ws'" using c s mem_invD(1) [OF inv] by blast
    show "me_user s' = owner ws' sid'" using c s mem_invD(1) [OF inv] by blast
    assume "now < me_expires s'"
    then show "mem_indexed env ws' (owner ws' sid') sid' (me_expires s') ?m"
      using c new mem_invD(1) [OF inv] kept by blast
  next
    fix ws' u' i' assume "ms_index ?m (userSessionsKey env ws' u') = Some i'"
    then show "\<forall>x \<in> set (mi_ids i'). owner ws' x = u'" using i(3) mem_invD(2) [OF inv] by (auto split: if_splits)
  next
    fix ws' u' r assume "ms_revoked ?m (userRevokedKey env ws' u') = Some r"
    then have r: "ms_revoked m (userRevokedKey env ws' u') = Some r" by simp
    from mem_invD(3) [OF inv r] show "mr_ws r = ws'" "mr_user r = u'" "(mr_cutoff r + 1) * second \<le> mr_expires r" by simp_all
  qed
qed

lemma mem_Create_inv:
  assumes "mem_inv env owner now m" "proper_op owner now (OpCreate rec ttl)" "mem_Create env now rec ttl m = (e, m')"
  shows "mem_inv env owner now m'"
proof (cases "sr_id rec = []")
  case True
  with assms show ?thesis by (simp add: mem_Create_def)
next
  case False
  from assms(2) have u: "sr_user rec = owner (sr_ws rec) (sr_id rec)" by simp
  show ?thesis
    using assms(3) mem_invD(2) [OF assms(1)]
    by (auto simp: mem_Create_def False Let_def u split: option.splits intro!: mem_inv_put [OF assms(1) False])
qed

lemma mem_Create_view:
  assumes "proper_op owner now (OpCreate rec ttl)"
  shows "spec_step env now (OpCreate rec ttl) (mem_view env now m) =
    (case answer (mem_Create env now rec ttl m) of (a, m') \<Rightarrow> (a, mem_view env now m'))"
  using assms by (auto simp: mem_Create_def mem_view_def Let_def fun_eq_iff whole_seconds_def second_def)

text \<open>Operations that only remove or touch sessions.\<close>

lemma mem_inv_shrink:
  assumes inv: "mem_inv env owner now m" and same: "ms_revoked m' = ms_revoked m"
    and sessions: "\<And>ws sid s. ms_sessions m' (sessionKey env ws sid) = Some s \<Longrightarrow>
      \<exists>s'. ms_sessions m (sessionKey env ws sid) = Some s' \<and> me_ws s' = me_ws s \<and> me_user s' = me_user s \<and> me_expires s' = me_expires s
        \<and> (mem_indexed env ws (owner ws sid) sid (me_expires s) m \<longrightarrow> mem_indexed env ws (owner ws sid) sid (me_expires s) m')"
    and index: "\<And>ws u i. ms_index m' (userSessionsKey env ws u) = Some i \<Longrightarrow>
      \<exists>i'. ms_index m (userSessionsKey env ws u) = Some i' \<and> set (mi_ids i) \<subseteq> set (mi_ids i')"
  shows "mem_inv env owner now m'"
  unfolding mem_inv_def
proof (intro conjI allI impI ballI)
  fix ws sid s assume "ms_sessions m' (sessionKey env ws sid) = Some s"
  from sessions [OF this] obtain s' where s': "ms_sessions m (sessionKey env ws sid) = Some s'" "me_ws s' = me_ws s"
    "me_user s' = me_user s" "me_expires s' = me_expires s"
    "mem_indexed env ws (owner ws sid) sid (me_expires s) m \<longrightarrow> mem_indexed env ws (owner ws sid) sid (me_expires s) m'" by blast
  from mem_invD(1) [OF inv s'(1)] s'(2-) show "sid \<noteq> []" "me_ws s = ws" "me_user s = owner ws sid"
    "now < me_expires s \<Longrightarrow> mem_indexed env ws (owner ws sid) sid (me_expires s) m'" by auto
next
  fix ws u i sid assume "ms_index m' (userSessionsKey env ws u) = Some i" "sid \<in> set (mi_ids i)"
  with index mem_invD(2) [OF inv] show "owner ws sid = u" by (meson subsetD)
next
  fix ws u r assume "ms_revoked m' (userRevokedKey env ws u) = Some r"
  with same mem_invD(3) [OF inv] show "mr_ws r = ws" "mr_user r = u" "(mr_cutoff r + 1) * second \<le> mr_expires r" by metis+
qed

lemma mem_lookup_inv:
  assumes "mem_inv env owner now m"
  shows "mem_inv env owner now (snd (mem_lookup env now ws sid m))"
  using assms
  by (rule mem_inv_shrink) (auto simp: mem_lookup_def Let_def mem_indexed_def split: option.splits if_splits)

lemma mem_lookup_view:
  "mem_view env now (snd (mem_lookup env now ws sid m)) = mem_view env now m"
  "fst (mem_lookup env now ws sid m) = None \<longleftrightarrow> sv_sessions (mem_view env now m) (ws, sid) = None"
  "fst (mem_lookup env now ws sid m) = Some s \<Longrightarrow> ms_sessions m (sessionKey env ws sid) = Some s \<and> now < me_expires s
     \<and> snd (mem_lookup env now ws sid m) = m \<and> sv_sessions (mem_view env now m) (ws, sid) = Some (me_user s, me_device s, me_expires s)"
  by (auto simp: mem_lookup_def mem_view_def Let_def fun_eq_iff split: option.splits if_splits)

lemma mem_Get_ok:
  assumes "mem_inv env owner now m" "mem_step env now (OpGet ws sid) m = (a, m')"
  shows "mem_inv env owner now m' \<and> spec_step env now (OpGet ws sid) (mem_view env now m) = (a, mem_view env now m')"
proof (cases "sid = []")
  case True
  have "sv_sessions (mem_view env now m) (ws, sid) = None"
    using mem_invD(1) [OF assms(1), of ws sid] True by (auto simp: mem_view_def split: option.splits)
  with True assms show ?thesis by (simp add: mem_Get_def)
next
  case False
  obtain x m'' where l: "mem_lookup env now ws sid m = (x, m'')" by (cases "mem_lookup env now ws sid m")
  show ?thesis
  proof (cases x)
    case None
    with l mem_lookup_inv [OF assms(1), of ws sid] mem_lookup_view(1,2) [of now ws sid m] assms(2) False
    show ?thesis by (auto simp: mem_Get_def)
  next
    case (Some s)
    with l mem_lookup_view(3) [of now ws sid m s]
    have s: "ms_sessions m (sessionKey env ws sid) = Some s" "m'' = m"
      "sv_sessions (mem_view env now m) (ws, sid) = Some (me_user s, me_device s, me_expires s)" by auto
    from mem_invD(1) [OF assms(1) s(1)] have "me_ws s = ws" by simp
    with s l Some assms False show ?thesis by (simp add: mem_Get_def)
  qed
qed

lemma mem_Validate_ok:
  assumes "mem_inv env owner now m" "mem_step env now (OpValidate ws sid agent ip) m = (a, m')"
  shows "mem_inv env owner now m' \<and> spec_step env now (OpValidate ws sid agent ip) (mem_view env now m) = (a, mem_view env now m')"
proof -
  obtain x m'' where l: "mem_lookup env now ws sid m = (x, m'')" by (cases "mem_lookup env now ws sid m")
  show ?thesis
  proof (cases x)
    case None
    with l mem_lookup_inv [OF assms(1), of ws sid] mem_lookup_view(1,2) [of now ws sid m] assms(2)
    show ?thesis by (auto simp: mem_ValidateSession_def)
  next
    case (Some s)
    with l mem_lookup_view(3) [of now ws sid m s]
    have s: "ms_sessions m (sessionKey env ws sid) = Some s" "now < me_expires s" "m'' = m"
      "sv_sessions (mem_view env now m) (ws, sid) = Some (me_user s, me_device s, me_expires s)" by auto
    let ?m = "m\<lparr>ms_sessions := (ms_sessions m)(sessionKey env ws sid \<mapsto> s\<lparr>me_seen := now\<rparr>)\<rparr>"
    have "mem_inv env owner now ?m" using assms(1) by (rule mem_inv_shrink) (auto simp: s(1) mem_indexed_def split: if_splits)
    moreover have "mem_view env now ?m = mem_view env now m" using s by (auto simp: mem_view_def fun_eq_iff)
    ultimately show ?thesis using assms l s Some by (auto simp: mem_ValidateSession_def split: if_splits)
  qed
qed

text \<open>Dropping one session together with its entry in the index of its owner.\<close>

lemma mem_drop_inv:
  assumes inv: "mem_inv env owner now m"
  shows "mem_inv env owner now (mem_unindex (userSessionsKey env ws (owner ws sid)) [sid]
    (m\<lparr>ms_sessions := (ms_sessions m)(sessionKey env ws sid := None)\<rparr>))" (is "mem_inv env owner now ?m")
proof -
  have kept: "mem_indexed env ws' (owner ws' sid') sid' e ?m"
    if "mem_indexed env ws' (owner ws' sid') sid' e m" "(ws', sid') \<noteq> (ws, sid)" for ws' sid' e
    using that by (auto simp: mem_indexed_def mem_unindex_def Let_def filter_empty_conv split: option.splits)
  have sessions: "ms_sessions ?m (sessionKey env ws' sid') = (if (ws', sid') = (ws, sid) then None else ms_sessions m (sessionKey env ws' sid'))"
    for ws' sid' by (auto simp: mem_unindex_def Let_def split: option.split)
  show ?thesis
    using inv
  proof (rule mem_inv_shrink)
    show "ms_revoked ?m = ms_revoked m" by (simp add: mem_unindex_def Let_def split: option.split)
  next
    fix ws' sid' s assume "ms_sessions ?m (sessionKey env ws' sid') = Some s"
    then have s: "ms_sessions m (sessionKey env ws' sid') = Some s" "(ws', sid') \<noteq> (ws, sid)" unfolding sessions by (auto split: if_splits)
    with kept [of ws' sid' "me_expires s"] show "\<exists>s'. ms_sessions m (sessionKey env ws' sid') = Some s' \<and> me_ws s' = me_ws s \<and> me_user s' = me_user s
        \<and> me_expires s' = me_expires s
        \<and> (mem_indexed env ws' (owner ws' sid') sid' (me_expires s) m \<longrightarrow> mem_indexed env ws' (owner ws' sid') sid' (me_expires s) ?m)"
      by blast
  next
    fix ws' u i assume "ms_index ?m (userSessionsKey env ws' u) = Some i"
    then show "\<exists>i'. ms_index m (userSessionsKey env ws' u) = Some i' \<and> set (mi_ids i) \<subseteq> set (mi_ids i')"
      by (auto simp: mem_unindex_def Let_def split: option.splits if_splits)
  qed
qed

lemma mem_drop_view:
  "mem_view env now (mem_unindex ukey sids (m\<lparr>ms_sessions := (ms_sessions m)(sessionKey env ws sid := None)\<rparr>))
   = (mem_view env now m)\<lparr>sv_sessions := (sv_sessions (mem_view env now m))((ws, sid) := None)\<rparr>"
  by (auto simp: mem_view_def mem_unindex_def Let_def fun_eq_iff split: option.split)

lemma mem_Revoke_ok:
  assumes "mem_inv env owner now m" "mem_step env now (OpRevoke ws sid) m = (a, m')"
  shows "mem_inv env owner now m' \<and> spec_step env now (OpRevoke ws sid) (mem_view env now m) = (a, mem_view env now m')"
proof (cases "ms_sessions m (sessionKey env ws sid)")
  case None
  then have "sv_sessions (mem_view env now m) (ws, sid) = None" by (simp add: mem_view_def)
  then have "(sv_sessions (mem_view env now m))((ws, sid) := None) = sv_sessions (mem_view env now m)" by (rule fun_upd_idem)
  with None assms show ?thesis by (auto simp: mem_Revoke_def split: if_splits)
next
  case (Some s)
  from mem_invD(1) [OF assms(1) this] have s: "sid \<noteq> []" "me_user s = owner ws sid" by auto
  with Some assms mem_drop_inv [OF assms(1), of ws sid] show ?thesis by (auto simp: mem_Revoke_def mem_drop_view)
qed

lemma mem_RevokeForUser_ok:
  assumes "mem_inv env owner now m" "mem_step env now (OpRevokeForUser ws u sid) m = (a, m')"
  shows "mem_inv env owner now m' \<and> mem_agrees a (fst (spec_step env now (OpRevokeForUser ws u sid) (mem_view env now m)))
    \<and> snd (spec_step env now (OpRevokeForUser ws u sid) (mem_view env now m)) = mem_view env now m'"
proof (cases "ms_sessions m (sessionKey env ws sid)")
  case None
  then have "sv_sessions (mem_view env now m) (ws, sid) = None" by (simp add: mem_view_def)
  with None assms show ?thesis by (auto simp: mem_RevokeForUser_def mem_agrees_def split: if_splits)
next
  case (Some s)
  from mem_invD(1) [OF assms(1) this] have s: "sid \<noteq> []" "me_user s = owner ws sid" by auto
  have v: "sv_sessions (mem_view env now m) (ws, sid) = (if now < me_expires s then Some (me_user s, me_device s, me_expires s) else None)"
    using Some by (simp add: mem_view_def)
  have gone: "(sv_sessions (mem_view env now m))((ws, sid) := None) = sv_sessions (mem_view env now m)" if "\<not> now < me_expires s"
    using that v by (intro fun_upd_idem) simp
  show ?thesis
  proof (cases "me_user s = u")
    case True
    with Some s assms mem_drop_inv [OF assms(1), of ws sid] show ?thesis
      by (auto simp: mem_RevokeForUser_def mem_agrees_def mem_drop_view v gone)
  next
    case False
    with Some s assms v show ?thesis by (auto simp: mem_RevokeForUser_def mem_agrees_def)
  qed
qed

lemma mem_RevokeAll_ok:
  assumes inv: "mem_inv env owner now m" and "mem_step env now (OpRevokeAll ws u) m = (a, m')"
  shows "mem_inv env owner now m' \<and> spec_step env now (OpRevokeAll ws u) (mem_view env now m) = (a, mem_view env now m')"
proof -
  have m': "a = Done" "m' = mem_RevokeAllForUser env ws u m" using assms(2) by simp_all
  have unlisted: "sv_sessions (mem_view env now m) (ws, sid) \<noteq> Some (u, x)"
      if "\<And>i. ms_index m (userSessionsKey env ws u) = Some i \<Longrightarrow> sid \<notin> set (mi_ids i)" for sid x
    using that mem_invD(1) [OF inv, of ws sid] by (auto simp: mem_view_def mem_indexed_def split: option.splits if_splits)
  have listed: "v = u" if "sv_sessions (mem_view env now m) (ws, sid) = Some (v, x)"
      "ms_index m (userSessionsKey env ws u) = Some i" "sid \<in> set (mi_ids i)" for sid v x i
    using that mem_invD(1) [OF inv, of ws sid] mem_invD(2) [OF inv that(2,3)] by (auto simp: mem_view_def split: option.splits if_splits)
  show ?thesis
  proof (cases "ms_index m (userSessionsKey env ws u)")
    case None
    with unlisted inv show ?thesis
      by (auto simp: m' mem_RevokeAllForUser_def fun_eq_iff split: option.split intro!: session_view.equality)
  next
    case (Some i)
    have "mem_view env now m' = (mem_view env now m)\<lparr>sv_sessions := (\<lambda>(ws', sid). if ws' = ws \<and> sid \<in> set (mi_ids i) then None
        else sv_sessions (mem_view env now m) (ws', sid))\<rparr>"
      by (auto simp: m' mem_RevokeAllForUser_def Some mem_view_def fun_eq_iff)
    moreover have "mem_inv env owner now m'"
      using inv by (rule mem_inv_shrink)
        (use Some in \<open>auto simp: m' mem_RevokeAllForUser_def mem_indexed_def split: if_splits\<close>)
    moreover have "(if ws' = ws \<and> sid \<in> set (mi_ids i) then None else sv_sessions (mem_view env now m) (ws', sid)) =
        (case sv_sessions (mem_view env now m) (ws', sid) of None \<Rightarrow> None | Some s \<Rightarrow> if ws' = ws \<and> fst s = u then None else Some s)" for ws' sid
    proof (cases "ws' = ws \<and> sid \<in> set (mi_ids i)")
      case True
      show ?thesis
      proof (cases "sv_sessions (mem_view env now m) (ws', sid)")
        case (Some y)
        obtain v x where "y = (v, x)" by (cases y)
        with listed [OF _ \<open>ms_index m (userSessionsKey env ws u) = Some i\<close>, of sid v x] Some True show ?thesis by simp
      qed simp
    next
      case False
      with unlisted [of sid] Some show ?thesis by (auto split: option.split)
    qed
    ultimately show ?thesis by (simp add: m'(1))
  qed
qed

lemma mem_inv_revoked:
  assumes inv: "mem_inv env owner now m" and "ms_sessions m' = ms_sessions m" "ms_index m' = ms_index m"
    and "\<And>ws u r. ms_revoked m' (userRevokedKey env ws u) = Some r \<Longrightarrow> ms_revoked m (userRevokedKey env ws u) = Some r
      \<or> mr_ws r = ws \<and> mr_user r = u \<and> (mr_cutoff r + 1) * second \<le> mr_expires r"
  shows "mem_inv env owner now m'"
proof -
  have "mem_indexed env ws u sid e m' = mem_indexed env ws u sid e m" for ws u sid e using assms(3) by (simp add: mem_indexed_def)
  moreover have "mr_ws r = ws \<and> mr_user r = u \<and> (mr_cutoff r + 1) * second \<le> mr_expires r"
    if "ms_revoked m' (userRevokedKey env ws u) = Some r" for ws u r
    using assms(4) [OF that] mem_invD(3) [OF inv] by blast
  ultimately show ?thesis using inv unfolding mem_inv_def assms(2,3) by (intro conjI) (blast+)
qed

lemma mem_RevokeUser_ok:
  assumes inv: "mem_inv env owner now m" and op: "proper_op owner now (OpRevokeUser ws u at ttl)"
    and "mem_step env now (OpRevokeUser ws u at ttl) m = (a, m')"
  shows "mem_inv env owner now m' \<and> spec_step env now (OpRevokeUser ws u at ttl) (mem_view env now m) = (a, mem_view env now m')"
proof -
  let ?k = "userRevokedKey env ws u" and ?c = "unix_seconds at" and ?e = "now + revoke_ttl ttl"
  have m': "a = Done" "m' = mem_RevokeUser env now ws u at ttl m" using assms(3) by simp_all
  have at: "at = now" "second \<le> revoke_ttl ttl" using op by (simp_all add: whole_seconds_def)
  have "(?c + 1) * second \<le> ?e" using at by (simp add: unix_seconds_def second_def)
  then have "mem_inv env owner now m'"
    by (intro mem_inv_revoked [OF inv]) (auto simp: m' mem_RevokeUser_def Let_def split: if_splits)
  moreover have "mr_cutoff r < ?c" if "ms_revoked m ?k = Some r" "\<not> now < mr_expires r" for r
  proof -
    from mem_invD(3) [OF inv that(1)] that(2) have "(mr_cutoff r + 1) * second \<le> now" by simp
    then have "(mr_cutoff r + 1) * second div second \<le> now div second" by (intro zdiv_mono1) (simp_all add: second_def)
    then have "mr_cutoff r + 1 \<le> now div second" by (simp add: second_def)
    then show ?thesis by (simp add: at(1) unix_seconds_def)
  qed
  moreover have "now < ?e" using at(2) by (simp add: second_def)
  ultimately show ?thesis
    by (auto simp: m' mem_RevokeUser_def mem_view_def Let_def fun_eq_iff split: option.splits if_splits)
qed

lemma mem_IsRevoked_ok:
  assumes inv: "mem_inv env owner now m" and "mem_step env now (OpIsRevoked ws u iat) m = (a, m')"
  shows "mem_inv env owner now m' \<and> spec_step env now (OpIsRevoked ws u iat) (mem_view env now m) = (a, mem_view env now m')"
proof -
  have "mem_inv env owner now m'"
    using assms(2) by (intro mem_inv_revoked [OF inv]) (auto simp: mem_IsRevoked_def Let_def split: option.splits if_splits)
  with assms(2) show ?thesis
    by (auto simp: mem_IsRevoked_def mem_view_def Let_def fun_eq_iff split: option.splits if_splits)
qed

lemma mem_step_ok:
  assumes "mem_inv env owner now m" "proper_op owner now op" "mem_step env now op m = (a, m')"
  shows "mem_inv env owner now m' \<and> mem_agrees a (fst (spec_step env now op (mem_view env now m)))
    \<and> snd (spec_step env now op (mem_view env now m)) = mem_view env now m'"
proof -
  have exact: ?thesis if "mem_inv env owner now m' \<and> spec_step env now op (mem_view env now m) = (a, mem_view env now m')"
    using that by (simp add: mem_agrees_def)
  show ?thesis
  proof (cases op)
    case (OpCreate rec ttl)
    obtain e m'' where c: "mem_Create env now rec ttl m = (e, m'')" by (cases "mem_Create env now rec ttl m")
    with OpCreate assms mem_Create_inv [OF assms(1) _ c] mem_Create_view [of now rec ttl m] show ?thesis by (intro exact) (cases e, auto)
  next
    case (OpGet ws sid)
    show ?thesis using assms(3) unfolding OpGet by (intro exact [unfolded OpGet]) (rule mem_Get_ok [OF assms(1)])
  next
    case (OpValidate ws sid agent ip)
    show ?thesis using assms(3) unfolding OpValidate by (intro exact [unfolded OpValidate]) (rule mem_Validate_ok [OF assms(1)])
  next
    case (OpRevoke ws sid)
    show ?thesis using assms(3) unfolding OpRevoke by (intro exact [unfolded OpRevoke]) (rule mem_Revoke_ok [OF assms(1)])
  next
    case (OpRevokeForUser ws u sid)
    show ?thesis using assms(3) unfolding OpRevokeForUser by (rule mem_RevokeForUser_ok [OF assms(1)])
  next
    case (OpRevokeAll ws u)
    show ?thesis using assms(3) unfolding OpRevokeAll by (intro exact [unfolded OpRevokeAll]) (rule mem_RevokeAll_ok [OF assms(1)])
  next
    case (OpRevokeUser ws u at ttl)
    show ?thesis using assms(2,3) unfolding OpRevokeUser by (intro exact [unfolded OpRevokeUser]) (rule mem_RevokeUser_ok [OF assms(1)])
  next
    case (OpIsRevoked ws u iat)
    show ?thesis using assms(3) unfolding OpIsRevoked by (intro exact [unfolded OpIsRevoked]) (rule mem_IsRevoked_ok [OF assms(1)])
  qed
qed

text \<open>The janitor removes only what has expired.\<close>

lemma reap_ok:
  assumes "mem_inv env owner now m"
  shows "mem_inv env owner now (reap now m) \<and> mem_view env now (reap now m) = mem_view env now m"
proof -
  have "mem_indexed env ws u sid e (reap now m)" if "mem_indexed env ws u sid e m" "now < e" for ws u sid e
    using that by (auto simp: mem_indexed_def reap_def split: option.splits)
  with assms have "mem_inv env owner now (reap now m)"
    by (auto simp: mem_inv_def reap_def split: option.splits if_splits)
  moreover have "mem_view env now (reap now m) = mem_view env now m"
    by (auto simp: mem_view_def reap_def fun_eq_iff split: option.splits)
  ultimately show ?thesis by blast
qed

end

sublocale session_setup \<subseteq> memory: session_store env owner "mem_step env" "mem_view env" "mem_inv env owner" mem_agrees
proof unfold_locales
  show "mem_inv env owner now s'" if "mem_inv env owner now s" "proper_op owner now op" "mem_step env now op s = (a, s')" for now s op a s'
    using mem_step_ok [OF that] by blast
  show "mem_agrees a (fst (spec_step env now op (mem_view env now s))) \<and> snd (spec_step env now op (mem_view env now s)) = mem_view env now s'"
    if "mem_inv env owner now s" "proper_op owner now op" "mem_step env now op s = (a, s')" for now s op a s'
    using mem_step_ok [OF that] by blast
qed (use mem_inv_later mem_view_later in blast)+

end
