(* ===== verification/Session_Redis.thy ===== *)
theory Session_Redis
  imports Session_Contract
begin

text \<open>The store in Redis keeps the contract of a session store: its invariant over the key space and
  the effect of each operation.\<close>

section \<open>Requests and their view\<close>

fun redis_step :: "session_env \<Rightarrow> time \<Rightarrow> session_op \<Rightarrow> redis_store \<Rightarrow> session_answer \<times> redis_store" where
  "redis_step env now (OpCreate rec ttl) r = answer (redis_Create env redis_up now rec ttl r)"
| "redis_step env now (OpGet ws sid) r =
     (case redis_session_Get env redis_up now ws sid r of Inl e \<Rightarrow> (Failed e, r) | Inr (u, w) \<Rightarrow> (Identity u w, r))"
| "redis_step env now (OpValidate ws sid agent ip) r = answer (redis_ValidateSession env redis_up now ws sid agent ip r)"
| "redis_step env now (OpRevoke ws sid) r = answer (redis_Revoke env redis_up now ws sid r r)"
| "redis_step env now (OpRevokeForUser ws u sid) r =
     (case redis_RevokeForUser env redis_up now ws u sid r r of (Inl e, r') \<Rightarrow> (Failed e, r') | (Inr b, r') \<Rightarrow> (Deleted b, r'))"
| "redis_step env now (OpRevokeAll ws u) r = answer (redis_RevokeAllForUser env redis_up now ws u r r)"
| "redis_step env now (OpRevokeUser ws u at ttl) r = answer (redis_RevokeUser env redis_up now ws u at ttl r)"
| "redis_step env now (OpIsRevoked ws u issuedAt) r =
     (case redis_IsRevoked env redis_up now ws u issuedAt r of Inl e \<Rightarrow> (Failed e, r) | Inr b \<Rightarrow> (Revoked b, r))"

definition session_of :: "session_env \<Rightarrow> redis_value \<times> time option \<Rightarrow> (uuid \<times> string \<times> time) option" where
  "session_of env x =
     (case x of
        (RHash h, Some e) \<Rightarrow> (case h ''user_id'' \<bind> se_parse_uuid env of None \<Rightarrow> None | Some u \<Rightarrow> Some (u, hash_text h ''device_hash'', e))
      | _ \<Rightarrow> None)"

definition revocation_of :: "redis_value \<times> time option \<Rightarrow> (int \<times> time) option" where
  "revocation_of x =
     (case x of (RString v, Some e) \<Rightarrow> (case ParseInt10 v of None \<Rightarrow> None | Some c \<Rightarrow> Some (c, e)) | _ \<Rightarrow> None)"

definition redis_view :: "session_env \<Rightarrow> time \<Rightarrow> redis_store \<Rightarrow> session_view" where
  "redis_view env now r = \<lparr>
     sv_sessions = (\<lambda>(ws, sid). purge now r (sessionKey env ws sid) \<bind> session_of env),
     sv_revoked = (\<lambda>(ws, u). purge now r (userRevokedKey env ws u) \<bind> revocation_of)\<rparr>"

text \<open>The invariant of a store without expired keys.\<close>

definition redis_indexed :: "session_env \<Rightarrow> uuid \<Rightarrow> uuid \<Rightarrow> string \<Rightarrow> time \<Rightarrow> redis_store \<Rightarrow> bool" where
  "redis_indexed env ws u sid e p =
     (\<exists>xs y. p (userSessionsKey env ws u) = Some (RSet xs, Some y) \<and> sid \<in> set xs \<and> e \<le> y)"

definition good_session :: "session_env \<Rightarrow> (uuid \<Rightarrow> string \<Rightarrow> uuid) \<Rightarrow> uuid \<Rightarrow> string \<Rightarrow> redis_value \<times> time option \<Rightarrow> redis_store \<Rightarrow> bool" where
  "good_session env owner ws sid x p =
     (sid \<noteq> [] \<and> (\<exists>h e. x = (RHash h, Some e) \<and> h ''user_id'' = Some (se_uuid env (owner ws sid))
        \<and> h ''workspace_id'' = Some (se_uuid env ws) \<and> redis_indexed env ws (owner ws sid) sid e p))"

definition good_store :: "session_env \<Rightarrow> (uuid \<Rightarrow> string \<Rightarrow> uuid) \<Rightarrow> redis_store \<Rightarrow> bool" where
  "good_store env owner p =
     ((\<forall>ws sid x. p (sessionKey env ws sid) = Some x \<longrightarrow> good_session env owner ws sid x p)
      \<and> (\<forall>ws u x. p (userSessionsKey env ws u) = Some x \<longrightarrow> (\<exists>xs e. x = (RSet xs, Some e) \<and> (\<forall>sid \<in> set xs. owner ws sid = u)))
      \<and> (\<forall>ws u x. p (userRevokedKey env ws u) = Some x \<longrightarrow> (\<exists>c e. x = (RString (show_int c), Some e) \<and> int64_range c)))"

definition redis_inv :: "session_env \<Rightarrow> (uuid \<Rightarrow> string \<Rightarrow> uuid) \<Rightarrow> time \<Rightarrow> redis_store \<Rightarrow> bool" where
  "redis_inv env owner now r = good_store env owner (purge now r)"

lemma good_storeD:
  assumes "good_store env owner p"
  shows "p (sessionKey env ws sid) = Some x \<Longrightarrow> good_session env owner ws sid x p"
    and "p (userSessionsKey env ws u) = Some x \<Longrightarrow> \<exists>xs e. x = (RSet xs, Some e) \<and> (\<forall>sid \<in> set xs. owner ws sid = u)"
    and "p (userRevokedKey env ws u) = Some x \<Longrightarrow> \<exists>c e. x = (RString (show_int c), Some e) \<and> int64_range c"
  using assms unfolding good_store_def by blast+

section \<open>Expired keys\<close>

lemma purge_purge: "t \<le> now \<Longrightarrow> purge now (purge t r) = purge now r"
  by (auto simp: purge_def fun_eq_iff split: option.split)

lemma purge_idem [simp]: "purge now (purge now r) = purge now r"
  by (rule purge_purge) simp

lemma purge_update [simp]:
  "purge now (r(k := None)) = (purge now r)(k := None)"
  "now < e \<Longrightarrow> purge now (r(k \<mapsto> (v, Some e))) = (purge now r)(k \<mapsto> (v, Some e))"
  by (auto simp: purge_def fun_eq_iff)

lemma purge_SomeD: "purge now r k = Some (v, Some e) \<Longrightarrow> now < e"
  by (auto simp: purge_def split: option.splits if_splits)

lemma purge_later: "t \<le> now \<Longrightarrow> purge now r k = (case purge t r k of None \<Rightarrow> None | Some (v, None) \<Rightarrow> Some (v, None)
    | Some (v, Some e) \<Rightarrow> if now < e then Some (v, Some e) else None)"
  by (auto simp: purge_def split: option.split)

lemma redis_view_later: "t \<le> now \<Longrightarrow> redis_view env now r = live_view now (redis_view env t r)"
  by (auto simp: redis_view_def live_view_def purge_later [of t now r] session_of_def revocation_of_def fun_eq_iff
      split: option.split redis_value.split)

lemma redis_inv_later:
  assumes "redis_inv env owner t r" "t \<le> now"
  shows "redis_inv env owner now r"
proof -
  have good: "good_store env owner (purge t r)" using assms(1) by (simp add: redis_inv_def)
  have kept: "purge now r k = Some x \<Longrightarrow> purge t r k = Some x" for k x
    using assms(2) by (auto simp: purge_later [of t now r] split: option.splits if_splits)
  have alive: "purge now r k = Some (v, Some e)" if "purge t r k = Some (v, Some e)" "now < e" for k v e
    using assms(2) that by (simp add: purge_later [of t now r])
  have "good_session env owner ws sid x (purge now r)" if x: "purge now r (sessionKey env ws sid) = Some x" for ws sid x
  proof -
    from good_storeD(1) [OF good kept [OF x]] obtain h e xs y where g: "sid \<noteq> []" "x = (RHash h, Some e)"
      "h ''user_id'' = Some (se_uuid env (owner ws sid))" "h ''workspace_id'' = Some (se_uuid env ws)"
      "purge t r (userSessionsKey env ws (owner ws sid)) = Some (RSet xs, Some y)" "sid \<in> set xs" "e \<le> y"
      by (auto simp: good_session_def redis_indexed_def)
    from x g(2) have "now < e" by (auto dest: purge_SomeD)
    with g alive show ?thesis by (auto simp: good_session_def redis_indexed_def)
  qed
  with good kept show ?thesis unfolding redis_inv_def good_store_def by blast
qed

section \<open>The effect of the commands\<close>

context session_setup
begin

lemma good_put:
  assumes good: "good_store env owner p"
    and h: "sid \<noteq> []" "h ''user_id'' = Some (se_uuid env (owner ws sid))" "h ''workspace_id'' = Some (se_uuid env ws)"
    and xs: "sid \<in> set xs" "e \<le> y" "\<forall>x \<in> set xs. owner ws x = owner ws sid"
    and old: "\<And>ys z. p (userSessionsKey env ws (owner ws sid)) = Some (RSet ys, Some z) \<Longrightarrow> set ys \<subseteq> set xs \<and> z \<le> y"
  shows "good_store env owner (p(sessionKey env ws sid \<mapsto> (RHash h, Some e), userSessionsKey env ws (owner ws sid) \<mapsto> (RSet xs, Some y)))"
    (is "good_store env owner ?p")
proof -
  have kept: "redis_indexed env ws' u' sid' e' ?p" if "redis_indexed env ws' u' sid' e' p" for ws' u' sid' e'
  proof -
    from that obtain ys z where ys: "p (userSessionsKey env ws' u') = Some (RSet ys, Some z)" "sid' \<in> set ys" "e' \<le> z"
      by (auto simp: redis_indexed_def)
    show ?thesis
    proof (cases "ws' = ws \<and> u' = owner ws sid")
      case True
      with ys old [of ys z] show ?thesis by (auto simp: redis_indexed_def)
    next
      case False
      with ys show ?thesis by (auto simp: redis_indexed_def)
    qed
  qed
  have new: "redis_indexed env ws (owner ws sid) sid e ?p" using xs(1,2) by (simp add: redis_indexed_def)
  have "good_session env owner ws' sid' x ?p" if "?p (sessionKey env ws' sid') = Some x" for ws' sid' x
  proof (cases "ws' = ws \<and> sid' = sid")
    case True
    with that new h show ?thesis by (auto simp: good_session_def)
  next
    case False
    with that have "p (sessionKey env ws' sid') = Some x" by simp
    from good_storeD(1) [OF good this] kept show ?thesis by (auto simp: good_session_def)
  qed
  moreover have "\<exists>ys z. x = (RSet ys, Some z) \<and> (\<forall>i \<in> set ys. owner ws' i = u)"
    if x: "?p (userSessionsKey env ws' u) = Some x" for ws' u x
  proof (cases "ws' = ws \<and> u = owner ws sid")
    case True
    with x have "x = (RSet xs, Some y)" by simp
    with True xs(3) show ?thesis by blast
  next
    case False
    with x have "p (userSessionsKey env ws' u) = Some x" by (auto split: if_splits)
    from good_storeD(2) [OF good this] show ?thesis .
  qed
  moreover have "?p (userRevokedKey env ws' u) = p (userRevokedKey env ws' u)" for ws' u by simp
  ultimately show ?thesis using good_storeD(3) [OF good] unfolding good_store_def by simp
qed

text \<open>Operations that only remove or touch sessions.\<close>

lemma good_shrink:
  assumes good: "good_store env owner p"
    and revoked: "\<And>ws u. p' (userRevokedKey env ws u) = p (userRevokedKey env ws u)"
    and sessions: "\<And>ws sid x. p' (sessionKey env ws sid) = Some x \<Longrightarrow>
      \<exists>h h' e. p (sessionKey env ws sid) = Some (RHash h, Some e) \<and> x = (RHash h', Some e)
        \<and> h' ''user_id'' = h ''user_id'' \<and> h' ''workspace_id'' = h ''workspace_id''
        \<and> (redis_indexed env ws (owner ws sid) sid e p \<longrightarrow> redis_indexed env ws (owner ws sid) sid e p')"
    and index: "\<And>ws u x. p' (userSessionsKey env ws u) = Some x \<Longrightarrow>
      \<exists>xs ys e. p (userSessionsKey env ws u) = Some (RSet xs, Some e) \<and> x = (RSet ys, Some e) \<and> set ys \<subseteq> set xs"
  shows "good_store env owner p'"
  unfolding good_store_def
proof (intro conjI allI impI)
  fix ws sid x assume "p' (sessionKey env ws sid) = Some x"
  from sessions [OF this] good_storeD(1) [OF good, of ws sid] show "good_session env owner ws sid x p'"
    by (fastforce simp: good_session_def)
next
  fix ws u x assume "p' (userSessionsKey env ws u) = Some x"
  from index [OF this] good_storeD(2) [OF good, of ws u] show "\<exists>xs e. x = (RSet xs, Some e) \<and> (\<forall>sid \<in> set xs. owner ws sid = u)"
    by fastforce
next
  fix ws u x assume "p' (userRevokedKey env ws u) = Some x"
  with revoked good_storeD(3) [OF good] show "\<exists>c e. x = (RString (show_int c), Some e) \<and> int64_range c" by metis
qed

lemma redis_tx_up: "redis_tx redis_up l now cmds r =
   (if fst (exec_all cmds (purge now r)) then None else Some (SessErrRedis l FailCommand), snd (exec_all cmds (purge now r)))"
  by (simp add: redis_tx_def redis_up_def case_prod_beta)

lemma expire_whole: "whole_seconds ttl \<Longrightarrow> expire_seconds ttl = ttl \<and> 0 < ttl"
  by (auto simp: whole_seconds_def expire_seconds_def second_def)

lemma exec_all_append: "exec_all (cs @ ds) r = (fst (exec_all cs r) \<and> fst (exec_all ds (snd (exec_all cs r))), snd (exec_all ds (snd (exec_all cs r))))"
  by (induction cs arbitrary: r) (auto simp: case_prod_beta)

lemma hash_put:
  assumes "\<And>x. p k = Some x \<Longrightarrow> \<exists>h e. x = (RHash h, Some e)" "expire_seconds ttl = ttl" "0 < ttl"
  shows "\<exists>h. exec_all [HSet k kvs, HSetNX k f v, Expire now k ttl] p = (True, p(k \<mapsto> (RHash h, Some (now + ttl))))
    \<and> (\<forall>x w. map_of kvs x = Some w \<longrightarrow> h x = Some w)"
proof -
  define g where "g = (case p k of Some (RHash m, _) \<Rightarrow> m ++ map_of kvs | _ \<Rightarrow> map_of kvs)"
  define h where "h = (if g f = None then g(f \<mapsto> v) else g)"
  have g: "map_of kvs x = Some w \<Longrightarrow> g x = Some w" for x w
    by (auto simp: g_def split: option.split redis_value.split)
  have "exec_all [HSet k kvs, HSetNX k f v, Expire now k ttl] p = (True, p(k \<mapsto> (RHash h, Some (now + ttl))))"
  proof (cases "p k")
    case None
    with assms(2,3) show ?thesis by (simp add: HSet_def HSetNX_def Expire_def set_expiry_def h_def g_def)
  next
    case (Some x)
    with assms(1) obtain m e where "p k = Some (RHash m, Some e)" by blast
    with assms(2,3) show ?thesis by (simp add: HSet_def HSetNX_def Expire_def set_expiry_def h_def g_def)
  qed
  moreover have "map_of kvs x = Some w \<Longrightarrow> h x = Some w" for x w using g [of x w] by (auto simp: h_def)
  ultimately show ?thesis by blast
qed

lemma index_put:
  assumes "\<And>x. p k = Some x \<Longrightarrow> \<exists>xs e. x = (RSet xs, Some e)" "expire_seconds ttl = ttl" "0 < ttl"
  shows "\<exists>xs y. exec_all [SAdd k i, ExpireNX now k ttl, ExpireGT now k ttl] p = (True, p(k \<mapsto> (RSet xs, Some y)))
    \<and> now + ttl \<le> y \<and> set xs = insert i (case p k of Some (RSet ys, _) \<Rightarrow> set ys | _ \<Rightarrow> {})
    \<and> (\<forall>ys z. p k = Some (RSet ys, Some z) \<longrightarrow> z \<le> y)"
proof (cases "p k")
  case None
  with assms(2,3) show ?thesis by (intro exI [of _ "[i]"] exI [of _ "now + ttl"]) (auto simp: SAdd_def ExpireNX_def ExpireGT_def set_expiry_def)
next
  case (Some x)
  with assms(1) obtain ys z where "p k = Some (RSet ys, Some z)" by blast
  with assms(2,3) show ?thesis
    by (intro exI [of _ "List.insert i ys"] exI [of _ "max z (now + ttl)"]) (auto simp: SAdd_def ExpireNX_def ExpireGT_def set_expiry_def)
qed

lemma redis_Create_effect:
  assumes "redis_inv env owner now r" "proper_op owner now (OpCreate rec ttl)" "sr_id rec \<noteq> []"
  obtains h xs y where "redis_Create env redis_up now rec ttl r =
      (None, (purge now r)(sessionKey env (sr_ws rec) (sr_id rec) \<mapsto> (RHash h, Some (now + ttl)),
         userSessionsKey env (sr_ws rec) (sr_user rec) \<mapsto> (RSet xs, Some y)))"
    "h ''user_id'' = Some (se_uuid env (sr_user rec))" "h ''workspace_id'' = Some (se_uuid env (sr_ws rec))"
    "h ''device_hash'' = Some (sr_device rec)" "sr_id rec \<in> set xs" "now + ttl \<le> y"
    "\<forall>x \<in> set xs. owner (sr_ws rec) x = sr_user rec"
    "\<And>ys z. purge now r (userSessionsKey env (sr_ws rec) (sr_user rec)) = Some (RSet ys, Some z) \<Longrightarrow> set ys \<subseteq> set xs \<and> z \<le> y"
proof -
  let ?p = "purge now r" and ?sk = "sessionKey env (sr_ws rec) (sr_id rec)" and ?uk = "userSessionsKey env (sr_ws rec) (sr_user rec)"
  let ?created = "or_time (sr_created rec) now"
  let ?kvs = "[(''user_id'', se_uuid env (sr_user rec)), (''workspace_id'', se_uuid env (sr_ws rec)),
    (''user_agent'', clampString (sr_agent rec) maxUserAgentLen), (''ip'', sr_ip rec), (''device_hash'', sr_device rec),
    (''last_seen'', show_int (unix_seconds (or_time (sr_seen rec) ?created)))]"
  let ?f = "show_int (unix_seconds ?created)"
  have good: "good_store env owner ?p" using assms(1) by (simp add: redis_inv_def)
  have ttl: "expire_seconds ttl = ttl" "0 < ttl" using assms(2) expire_whole by auto
  have "\<exists>h e. x = (RHash h, Some e)" if "?p ?sk = Some x" for x
    using good_storeD(1) [OF good that] by (auto simp: good_session_def)
  from hash_put [of ?p ?sk ttl ?kvs "''created_at''" ?f now, OF this ttl] obtain h where
    h: "exec_all [HSet ?sk ?kvs, HSetNX ?sk ''created_at'' ?f, Expire now ?sk ttl] ?p = (True, ?p(?sk \<mapsto> (RHash h, Some (now + ttl))))"
    "\<forall>x w. map_of ?kvs x = Some w \<longrightarrow> h x = Some w" by blast
  let ?q = "?p(?sk \<mapsto> (RHash h, Some (now + ttl)))"
  have q: "?q ?uk = ?p ?uk" by simp
  have "\<exists>xs e. x = (RSet xs, Some e)" if "?q ?uk = Some x" for x
    using good_storeD(2) [OF good] that q by metis
  from index_put [of ?q ?uk ttl "sr_id rec" now, OF this ttl] obtain xs y where
    xs: "exec_all [SAdd ?uk (sr_id rec), ExpireNX now ?uk ttl, ExpireGT now ?uk ttl] ?q = (True, ?q(?uk \<mapsto> (RSet xs, Some y)))"
    "now + ttl \<le> y" "set xs = insert (sr_id rec) (case ?p ?uk of Some (RSet ys, _) \<Rightarrow> set ys | _ \<Rightarrow> {})"
    "\<forall>ys z. ?p ?uk = Some (RSet ys, Some z) \<longrightarrow> z \<le> y" unfolding q by blast
  have "redis_Create env redis_up now rec ttl r = (None, ?q(?uk \<mapsto> (RSet xs, Some y)))"
    using exec_all_append [of "[HSet ?sk ?kvs, HSetNX ?sk ''created_at'' ?f, Expire now ?sk ttl]"
        "[SAdd ?uk (sr_id rec), ExpireNX now ?uk ttl, ExpireGT now ?uk ttl]" ?p] h(1) xs(1) assms(3)
    by (simp add: redis_Create_def redis_tx_up Let_def del: exec_all.simps)
  moreover have "\<forall>x \<in> set xs. owner (sr_ws rec) x = sr_user rec"
    using good_storeD(2) [OF good, of "sr_ws rec" "sr_user rec"] assms(2) by (auto simp: xs(3) split: option.splits redis_value.splits)
  ultimately show thesis using that [of h xs y] h(2) xs(2-4) by auto
qed

section \<open>Each operation keeps the contract\<close>

lemma redis_Create_ok:
  assumes "redis_inv env owner now r" "proper_op owner now (OpCreate rec ttl)" "redis_step env now (OpCreate rec ttl) r = (a, r')"
  shows "redis_inv env owner now r' \<and> spec_step env now (OpCreate rec ttl) (redis_view env now r) = (a, redis_view env now r')"
proof (cases "sr_id rec = []")
  case True
  with assms show ?thesis by (simp add: redis_Create_def)
next
  case False
  let ?p = "purge now r"
  obtain h xs y where eff: "redis_Create env redis_up now rec ttl r =
      (None, ?p(sessionKey env (sr_ws rec) (sr_id rec) \<mapsto> (RHash h, Some (now + ttl)),
         userSessionsKey env (sr_ws rec) (sr_user rec) \<mapsto> (RSet xs, Some y)))"
    "h ''user_id'' = Some (se_uuid env (sr_user rec))" "h ''workspace_id'' = Some (se_uuid env (sr_ws rec))"
    "h ''device_hash'' = Some (sr_device rec)" "sr_id rec \<in> set xs" "now + ttl \<le> y"
    "\<forall>x \<in> set xs. owner (sr_ws rec) x = sr_user rec"
    "\<And>ys z. ?p (userSessionsKey env (sr_ws rec) (sr_user rec)) = Some (RSet ys, Some z) \<Longrightarrow> set ys \<subseteq> set xs \<and> z \<le> y"
    using redis_Create_effect [OF assms(1,2) False] by blast
  have ttl: "0 < ttl" using assms(2) expire_whole by auto
  have u: "sr_user rec = owner (sr_ws rec) (sr_id rec)" using assms(2) by simp
  have r': "a = Done" "r' = ?p(sessionKey env (sr_ws rec) (sr_id rec) \<mapsto> (RHash h, Some (now + ttl)),
         userSessionsKey env (sr_ws rec) (sr_user rec) \<mapsto> (RSet xs, Some y))" using assms(3) eff(1) by auto
  have pr: "purge now r' = r'" using ttl eff(6) by (simp add: r')
  have "good_store env owner ?p" using assms(1) by (simp add: redis_inv_def)
  from good_put [OF this False eff(2) [unfolded u] eff(3) eff(5,6) eff(7) [unfolded u] eff(8) [unfolded u]]
  have "good_store env owner r'" unfolding r'(2) u .
  then have "redis_inv env owner now r'" by (simp add: redis_inv_def pr)
  moreover have "redis_view env now r' = (redis_view env now r)\<lparr>sv_sessions :=
      (sv_sessions (redis_view env now r))((sr_ws rec, sr_id rec) \<mapsto> (sr_user rec, sr_device rec, now + ttl))\<rparr>"
    unfolding redis_view_def pr using eff(2,4)
    by (auto simp: r' fun_eq_iff session_of_def uuid_parse hash_text_def)
  ultimately show ?thesis using False r'(1) by simp
qed

text \<open>What a lookup finds.\<close>

lemma redis_lookup:
  assumes "redis_inv env owner now r"
  shows "sv_sessions (redis_view env now r) (ws, sid) = None \<longleftrightarrow> purge now r (sessionKey env ws sid) = None"
    and "purge now r (sessionKey env ws sid) = Some x \<Longrightarrow> \<exists>h e. x = (RHash h, Some e) \<and> sid \<noteq> [] \<and> now < e
      \<and> h ''user_id'' = Some (se_uuid env (owner ws sid)) \<and> h ''workspace_id'' = Some (se_uuid env ws)
      \<and> sv_sessions (redis_view env now r) (ws, sid) = Some (owner ws sid, hash_text h ''device_hash'', e)"
proof -
  have found: "\<exists>h e. x = (RHash h, Some e) \<and> sid \<noteq> [] \<and> now < e
      \<and> h ''user_id'' = Some (se_uuid env (owner ws sid)) \<and> h ''workspace_id'' = Some (se_uuid env ws)
      \<and> sv_sessions (redis_view env now r) (ws, sid) = Some (owner ws sid, hash_text h ''device_hash'', e)"
    if x: "purge now r (sessionKey env ws sid) = Some x" for x
  proof -
    from assms have "good_store env owner (purge now r)" by (simp add: redis_inv_def)
    from good_storeD(1) [OF this x] obtain h e where h: "sid \<noteq> []" "x = (RHash h, Some e)"
      "h ''user_id'' = Some (se_uuid env (owner ws sid))" "h ''workspace_id'' = Some (se_uuid env ws)"
      by (auto simp: good_session_def)
    with x show ?thesis by (auto simp: redis_view_def session_of_def uuid_parse dest: purge_SomeD)
  qed
  show "sv_sessions (redis_view env now r) (ws, sid) = None \<longleftrightarrow> purge now r (sessionKey env ws sid) = None"
    using found by (cases "purge now r (sessionKey env ws sid)") (auto simp: redis_view_def)
  show "purge now r (sessionKey env ws sid) = Some x \<Longrightarrow> \<exists>h e. x = (RHash h, Some e) \<and> sid \<noteq> [] \<and> now < e
      \<and> h ''user_id'' = Some (se_uuid env (owner ws sid)) \<and> h ''workspace_id'' = Some (se_uuid env ws)
      \<and> sv_sessions (redis_view env now r) (ws, sid) = Some (owner ws sid, hash_text h ''device_hash'', e)" by (rule found)
qed

lemma redis_hash:
  assumes "redis_inv env owner now r"
  shows "HGetAll redis_up l now (sessionKey env ws sid) r =
    Inr (case purge now r (sessionKey env ws sid) of Some (RHash h, _) \<Rightarrow> h | _ \<Rightarrow> Map.empty)"
  using redis_lookup(2) [OF assms, of ws sid]
  by (auto simp: HGetAll_def redis_up_def split: option.split redis_value.split)

lemma redis_Get_ok:
  assumes "redis_inv env owner now r" "redis_step env now (OpGet ws sid) r = (a, r')"
  shows "redis_inv env owner now r' \<and> spec_step env now (OpGet ws sid) (redis_view env now r) = (a, redis_view env now r')"
proof (cases "purge now r (sessionKey env ws sid)")
  case None
  with assms redis_lookup(1) [OF assms(1), of ws sid] show ?thesis
    by (auto simp: redis_session_Get_def redis_hash hash_identity_def split: if_splits)
next
  case (Some x)
  from redis_lookup(2) [OF assms(1) Some] obtain h e where h: "x = (RHash h, Some e)" "sid \<noteq> []"
    "h ''user_id'' = Some (se_uuid env (owner ws sid))" "h ''workspace_id'' = Some (se_uuid env ws)"
    "sv_sessions (redis_view env now r) (ws, sid) = Some (owner ws sid, hash_text h ''device_hash'', e)" by blast
  with assms Some show ?thesis by (simp add: redis_session_Get_def redis_hash hash_identity_def uuid_parse)
qed

lemma redis_touch_ok:
  assumes inv: "redis_inv env owner now r"
  shows "redis_inv env owner now (snd (redis_touch env redis_up now ws sid r)) \<and>
    redis_view env now (snd (redis_touch env redis_up now ws sid r)) = redis_view env now r"
proof (cases "purge now r (sessionKey env ws sid)")
  case None
  then have "snd (redis_touch env redis_up now ws sid r) = purge now r" by (simp add: redis_touch_def redis_tx_up case_prod_beta)
  with inv show ?thesis by (simp add: redis_inv_def redis_view_def)
next
  case (Some x)
  let ?p = "purge now r"
  from redis_lookup(2) [OF inv Some] obtain h e where h: "?p (sessionKey env ws sid) = Some (RHash h, Some e)" "now < e"
    using Some by blast
  let ?h = "h(''last_seen'' \<mapsto> show_int (unix_seconds now))"
  have t: "snd (redis_touch env redis_up now ws sid r) = ?p(sessionKey env ws sid \<mapsto> (RHash ?h, Some e))"
    using h by (simp add: redis_touch_def redis_tx_up case_prod_beta HSet_def)
  have "good_store env owner ?p" using inv by (simp add: redis_inv_def)
  then have "good_store env owner (?p(sessionKey env ws sid \<mapsto> (RHash ?h, Some e)))"
    by (rule good_shrink) (use h good_storeD(1,2) [OF \<open>good_store env owner ?p\<close>] in \<open>fastforce simp: redis_indexed_def good_session_def split: if_splits\<close>)+
  with h(2) show ?thesis
    by (auto simp: t redis_inv_def redis_view_def fun_eq_iff h(1) session_of_def hash_text_def split: option.split)
qed

lemma redis_Validate_ok:
  assumes "redis_inv env owner now r" "redis_step env now (OpValidate ws sid agent ip) r = (a, r')"
  shows "redis_inv env owner now r' \<and> spec_step env now (OpValidate ws sid agent ip) (redis_view env now r) = (a, redis_view env now r')"
proof (cases "purge now r (sessionKey env ws sid)")
  case None
  with assms redis_lookup(1) [OF assms(1), of ws sid] show ?thesis
    by (auto simp: redis_ValidateSession_def redis_GetRecord_def recordFromHash_def redis_hash hash_identity_def split: if_splits)
next
  case (Some x)
  from redis_lookup(2) [OF assms(1) Some] obtain h e where h: "x = (RHash h, Some e)" "sid \<noteq> []"
    "h ''user_id'' = Some (se_uuid env (owner ws sid))" "h ''workspace_id'' = Some (se_uuid env ws)"
    "sv_sessions (redis_view env now r) (ws, sid) = Some (owner ws sid, hash_text h ''device_hash'', e)" by blast
  with assms Some redis_touch_ok [OF assms(1), of ws sid] show ?thesis
    by (auto simp: redis_ValidateSession_def redis_GetRecord_def recordFromHash_def redis_hash hash_identity_def uuid_parse
        split: if_splits)
qed

text \<open>Dropping a session together with its entry in the index.\<close>

lemma redis_drop:
  assumes inv: "redis_inv env owner now r"
  obtains p where "redis_tx redis_up l now [Del (sessionKey env ws sid), SRem (userSessionsKey env ws (owner ws sid)) [sid]] r = (None, p)"
    "redis_inv env owner now p"
    "redis_view env now p = (redis_view env now r)\<lparr>sv_sessions := (sv_sessions (redis_view env now r))((ws, sid) := None)\<rparr>"
proof -
  let ?p = "purge now r" and ?sk = "sessionKey env ws sid" and ?uk = "userSessionsKey env ws (owner ws sid)"
  have good: "good_store env owner ?p" using inv by (simp add: redis_inv_def)
  define i where "i = (case ?p ?uk of
      Some (RSet ys, e) \<Rightarrow> (let zs = filter (\<lambda>y. y \<noteq> sid) ys in if zs = [] then None else Some (RSet zs, e)) | x \<Rightarrow> x)"
  define p where "p = ?p(?sk := None, ?uk := i)"
  have i: "\<exists>xs ys e. ?p ?uk = Some (RSet xs, Some e) \<and> x = (RSet ys, Some e) \<and> set ys = set xs - {sid} \<and> now < e" if "i = Some x" for x
    using good_storeD(2) [OF good, of ws "owner ws sid"] that
    by (auto simp: i_def Let_def split: option.splits redis_value.splits if_splits dest!: purge_SomeD)
  have kept: "\<exists>ys e'. i = Some (RSet ys, Some e') \<and> sid' \<in> set ys \<and> e \<le> e'"
    if "?p ?uk = Some (RSet xs, Some e')" "sid' \<in> set xs" "sid' \<noteq> sid" "e \<le> e'" for sid' xs e e'
    using that by (auto simp: i_def Let_def filter_empty_conv)
  have tx: "redis_tx redis_up l now [Del ?sk, SRem ?uk [sid]] r = (None, p)"
  proof (cases "?p ?uk")
    case None
    then show ?thesis by (simp add: redis_tx_up Del_def SRem_def p_def i_def fun_upd_idem)
  next
    case (Some x)
    with good_storeD(2) [OF good Some] obtain xs e where "?p ?uk = Some (RSet xs, Some e)" by blast
    then show ?thesis by (simp add: redis_tx_up Del_def SRem_def p_def i_def Let_def)
  qed
  have pp: "purge now p = p"
  proof (cases i)
    case (Some x)
    from i [OF this] obtain ys e where "x = (RSet ys, Some e)" "now < e" by blast
    with Some show ?thesis by (simp add: p_def)
  qed (simp add: p_def)
  have "good_store env owner p"
    using good
  proof (rule good_shrink)
    show "p (userRevokedKey env ws' u) = ?p (userRevokedKey env ws' u)" for ws' u by (simp add: p_def)
  next
    fix ws' sid' x assume x: "p (sessionKey env ws' sid') = Some x"
    then have ne: "(ws', sid') \<noteq> (ws, sid)" and x: "?p (sessionKey env ws' sid') = Some x" by (auto simp: p_def split: if_splits)
    from good_storeD(1) [OF good x] obtain h e xs y where g: "x = (RHash h, Some e)"
      "?p (userSessionsKey env ws' (owner ws' sid')) = Some (RSet xs, Some y)" "sid' \<in> set xs" "e \<le> y"
      by (auto simp: good_session_def redis_indexed_def)
    have "redis_indexed env ws' (owner ws' sid') sid' e p"
    proof (cases "ws' = ws \<and> owner ws' sid' = owner ws sid")
      case True
      with g ne kept [of xs y sid' e] show ?thesis by (auto simp: redis_indexed_def p_def)
    next
      case False
      with g show ?thesis by (auto simp: redis_indexed_def p_def)
    qed
    with g x show "\<exists>h h' e. ?p (sessionKey env ws' sid') = Some (RHash h, Some e) \<and> x = (RHash h', Some e)
        \<and> h' ''user_id'' = h ''user_id'' \<and> h' ''workspace_id'' = h ''workspace_id''
        \<and> (redis_indexed env ws' (owner ws' sid') sid' e ?p \<longrightarrow> redis_indexed env ws' (owner ws' sid') sid' e p)" by blast
  next
    fix ws' u x assume x: "p (userSessionsKey env ws' u) = Some x"
    show "\<exists>xs ys e. ?p (userSessionsKey env ws' u) = Some (RSet xs, Some e) \<and> x = (RSet ys, Some e) \<and> set ys \<subseteq> set xs"
    proof (cases "ws' = ws \<and> u = owner ws sid")
      case True
      with x i show ?thesis by (fastforce simp: p_def)
    next
      case False
      with x have "?p (userSessionsKey env ws' u) = Some x" by (auto simp: p_def)
      with good_storeD(2) [OF good this] show ?thesis by blast
    qed
  qed
  then have "redis_inv env owner now p" by (simp add: redis_inv_def pp)
  moreover have "redis_view env now p = (redis_view env now r)\<lparr>sv_sessions := (sv_sessions (redis_view env now r))((ws, sid) := None)\<rparr>"
    unfolding redis_view_def pp by (auto simp: p_def fun_eq_iff)
  ultimately show thesis using that tx by blast
qed

lemma redis_owner:
  assumes "redis_inv env owner now r"
  shows "owner_of env redis_up l now ws sid r =
    Inr (if purge now r (sessionKey env ws sid) = None then None else Some (se_uuid env (owner ws sid)))"
  using redis_lookup(2) [OF assms, of ws sid]
  by (auto simp: owner_of_def redis_hash [OF assms] split: option.split redis_value.split)

lemma redis_view_unchanged:
  assumes "redis_inv env owner now r" "purge now r (sessionKey env ws sid) = None"
  shows "(sv_sessions (redis_view env now r))((ws, sid) := None) = sv_sessions (redis_view env now r)"
  using redis_lookup(1) [OF assms(1), of ws sid] assms(2) by (intro fun_upd_idem) simp

lemma redis_purged:
  assumes "redis_inv env owner now r"
  shows "redis_inv env owner now (purge now r)" "redis_view env now (purge now r) = redis_view env now r"
  using assms by (simp_all add: redis_inv_def redis_view_def)

lemma redis_Revoke_ok:
  assumes inv: "redis_inv env owner now r" and "redis_step env now (OpRevoke ws sid) r = (a, r')"
  shows "redis_inv env owner now r' \<and> spec_step env now (OpRevoke ws sid) (redis_view env now r) = (a, redis_view env now r')"
proof (cases "purge now r (sessionKey env ws sid)")
  case None
  have "redis_Revoke env redis_up now ws sid r r = (None, if sid = [] then r else purge now r)"
    using None by (simp add: redis_Revoke_def redis_owner [OF inv] redis_tx_up Del_def fun_upd_idem)
  with assms(2) inv redis_purged [OF inv] redis_view_unchanged [OF inv None] show ?thesis by (auto split: if_splits)
next
  case (Some x)
  obtain p where p: "redis_tx redis_up ''redis session revoke'' now [Del (sessionKey env ws sid), SRem (userSessionsKey env ws (owner ws sid)) [sid]] r = (None, p)"
    "redis_inv env owner now p"
    "redis_view env now p = (redis_view env now r)\<lparr>sv_sessions := (sv_sessions (redis_view env now r))((ws, sid) := None)\<rparr>"
    using redis_drop [OF inv] by blast
  from redis_lookup(2) [OF inv Some] have "sid \<noteq> []" by blast
  with p(1) Some have "redis_Revoke env redis_up now ws sid r r = (None, p)"
    by (simp add: redis_Revoke_def redis_owner [OF inv] uuid_parse)
  with assms(2) p(2,3) show ?thesis by simp
qed

lemma redis_RevokeForUser_ok:
  assumes inv: "redis_inv env owner now r" and "redis_step env now (OpRevokeForUser ws u sid) r = (a, r')"
  shows "redis_inv env owner now r' \<and> spec_step env now (OpRevokeForUser ws u sid) (redis_view env now r) = (a, redis_view env now r')"
proof (cases "purge now r (sessionKey env ws sid)")
  case None
  then have "redis_RevokeForUser env redis_up now ws u sid r r = (Inr False, r)"
    by (simp add: redis_RevokeForUser_def redis_owner [OF inv])
  with assms redis_lookup(1) [OF inv, of ws sid] None show ?thesis by simp
next
  case (Some x)
  obtain p where p: "redis_tx redis_up ''redis session revoke-for-user'' now [Del (sessionKey env ws sid), SRem (userSessionsKey env ws (owner ws sid)) [sid]] r = (None, p)"
    "redis_inv env owner now p"
    "redis_view env now p = (redis_view env now r)\<lparr>sv_sessions := (sv_sessions (redis_view env now r))((ws, sid) := None)\<rparr>"
    using redis_drop [OF inv] by blast
  from redis_lookup(2) [OF inv Some] obtain dev e where s: "sid \<noteq> []" "sv_sessions (redis_view env now r) (ws, sid) = Some (owner ws sid, dev, e)" by blast
  have "redis_RevokeForUser env redis_up now ws u sid r r = (if u = owner ws sid then (Inr True, p) else (Inr False, r))"
    using s(1) Some p(1) uuid_eq [of "owner ws sid" u] by (auto simp: redis_RevokeForUser_def redis_owner [OF inv])
  with assms(2) p(2,3) s(2) inv show ?thesis by (auto split: if_splits)
qed

lemma exec_dels: "exec_all (map (\<lambda>k. Del (f k)) ks) p = (True, \<lambda>k. if k \<in> f ` set ks then None else p k)"
  by (induction ks arbitrary: p) (auto simp: Del_def fun_eq_iff)

lemma redis_RevokeAll_ok:
  assumes inv: "redis_inv env owner now r" and "redis_step env now (OpRevokeAll ws u) r = (a, r')"
  shows "redis_inv env owner now r' \<and> spec_step env now (OpRevokeAll ws u) (redis_view env now r) = (a, redis_view env now r')"
proof -
  let ?p = "purge now r" and ?uk = "userSessionsKey env ws u"
  have good: "good_store env owner ?p" using inv by (simp add: redis_inv_def)
  define ids where "ids = (case ?p ?uk of Some (RSet xs, _) \<Rightarrow> xs | _ \<Rightarrow> [])"
  define p where "p = (\<lambda>k. if k \<in> sessionKey env ws ` set ids \<or> k = ?uk then None else ?p k)"
  have ids: "SMembers redis_up ''redis session list'' now ?uk r = Inr ids"
    using good_storeD(2) [OF good, of ws u] by (auto simp: SMembers_def redis_up_def ids_def split: option.split redis_value.split)
  have owned: "owner ws sid = u" if "sid \<in> set ids" for sid
  proof -
    from that obtain xs e where "?p ?uk = Some (RSet xs, e)" "sid \<in> set xs"
      by (auto simp: ids_def eq_commute [of "Some _"] split: option.splits redis_value.splits)
    with good_storeD(2) [OF good this(1)] show ?thesis by blast
  qed
  have listed: "sid \<in> set ids" if "?p (sessionKey env ws sid) = Some x" "owner ws sid = u" for sid x
    using good_storeD(1) [OF good that(1)] that(2) by (auto simp: good_session_def redis_indexed_def ids_def)
  have "redis_RevokeAllForUser env redis_up now ws u r r = (None, p)"
    by (auto simp: redis_RevokeAllForUser_def ids redis_tx_up exec_all_append exec_dels Let_def Del_def p_def fun_eq_iff)
  then have r': "a = Done" "r' = p" using assms(2) by simp_all
  have pp: "purge now p = p" using purge_idem [of now r] by (auto simp: p_def purge_def fun_eq_iff split: option.splits)
  have "good_store env owner p"
    using good
  proof (rule good_shrink)
    show "p (userRevokedKey env ws' v) = ?p (userRevokedKey env ws' v)" for ws' v by (auto simp: p_def)
  next
    fix ws' sid x assume x: "p (sessionKey env ws' sid) = Some x"
    then have x: "?p (sessionKey env ws' sid) = Some x" "\<not> (ws' = ws \<and> sid \<in> set ids)" by (auto simp: p_def split: if_splits)
    from good_storeD(1) [OF good x(1)] obtain h e where g: "x = (RHash h, Some e)" by (auto simp: good_session_def)
    have "redis_indexed env ws' (owner ws' sid) sid e p" if "redis_indexed env ws' (owner ws' sid) sid e ?p"
      using that x listed [of sid x] by (auto simp: redis_indexed_def p_def)
    with g x show "\<exists>h h' e. ?p (sessionKey env ws' sid) = Some (RHash h, Some e) \<and> x = (RHash h', Some e)
        \<and> h' ''user_id'' = h ''user_id'' \<and> h' ''workspace_id'' = h ''workspace_id''
        \<and> (redis_indexed env ws' (owner ws' sid) sid e ?p \<longrightarrow> redis_indexed env ws' (owner ws' sid) sid e p)" by blast
  next
    fix ws' v x assume "p (userSessionsKey env ws' v) = Some x"
    then have "?p (userSessionsKey env ws' v) = Some x" by (auto simp: p_def split: if_splits)
    with good_storeD(2) [OF good this]
    show "\<exists>xs ys e. ?p (userSessionsKey env ws' v) = Some (RSet xs, Some e) \<and> x = (RSet ys, Some e) \<and> set ys \<subseteq> set xs" by blast
  qed
  then have "redis_inv env owner now p" by (simp add: redis_inv_def pp)
  moreover have "sv_sessions (redis_view env now p) (ws', sid) = (case sv_sessions (redis_view env now r) (ws', sid) of
      None \<Rightarrow> None | Some s \<Rightarrow> if ws' = ws \<and> fst s = u then None else Some s)" for ws' sid
  proof (cases "?p (sessionKey env ws' sid)")
    case None
    then show ?thesis unfolding redis_view_def pp by (simp add: p_def)
  next
    case (Some x)
    from redis_lookup(2) [OF inv this] obtain dev e where
      v: "sv_sessions (redis_view env now r) (ws', sid) = Some (owner ws' sid, dev, e)" by blast
    have "sv_sessions (redis_view env now p) (ws', sid) = (if ws' = ws \<and> sid \<in> set ids then None else sv_sessions (redis_view env now r) (ws', sid))"
      unfolding redis_view_def pp by (simp add: p_def)
    with v owned [of sid] listed [of sid x] Some show ?thesis by auto
  qed
  moreover have "sv_revoked (redis_view env now p) = sv_revoked (redis_view env now r)"
    unfolding redis_view_def pp by (auto simp: p_def fun_eq_iff)
  ultimately show ?thesis by (auto simp: r' fun_eq_iff intro!: session_view.equality)
qed

lemma redis_RevokeUser_ok:
  assumes inv: "redis_inv env owner now r" and op: "proper_op owner now (OpRevokeUser ws u at ttl)"
    and "redis_step env now (OpRevokeUser ws u at ttl) r = (a, r')"
  shows "redis_inv env owner now r' \<and> spec_step env now (OpRevokeUser ws u at ttl) (redis_view env now r) = (a, redis_view env now r')"
proof -
  let ?p = "purge now r" and ?k = "userRevokedKey env ws u" and ?c = "unix_seconds at" and ?e = "now + revoke_ttl ttl"
  let ?new = "?p(?k \<mapsto> (RString (show_int ?c), Some ?e))"
  have good: "good_store env owner ?p" using inv by (simp add: redis_inv_def)
  have range: "int64_range ?c" and ttl: "(if revoke_ttl ttl div second < 1 then 1 else revoke_ttl ttl div second) * second = revoke_ttl ttl"
    "0 < revoke_ttl ttl" using op by (auto simp: whole_seconds_def second_def)
  have wins: "(case sv_revoked (redis_view env now r) (ws, u) of None \<Rightarrow> True | Some (c, _) \<Rightarrow> c < ?c) \<longleftrightarrow>
      (case ?p ?k of Some (RString v, _) \<Rightarrow> the (ParseInt10 v) < ?c | _ \<Rightarrow> True)"
    using good_storeD(3) [OF good, of ws u]
    by (auto simp: redis_view_def revocation_of_def ParseInt10_show_int split: option.split)
  have eff: "redis_RevokeUser env redis_up now ws u at ttl r =
      (None, if (case ?p ?k of Some (RString v, _) \<Rightarrow> the (ParseInt10 v) < ?c | _ \<Rightarrow> True) then ?new else ?p)"
    using good_storeD(3) [OF good, of ws u] ttl
    by (auto simp: redis_RevokeUser_def redis_tx_up revoke_script_def Let_def ParseInt10_show_int split: option.split)
  have new: "purge now ?new = ?new" using ttl by simp
  have "good_store env owner ?new"
    unfolding good_store_def
  proof (intro conjI allI impI)
    fix ws' sid x assume "?new (sessionKey env ws' sid) = Some x"
    then have "?p (sessionKey env ws' sid) = Some x" by simp
    from good_storeD(1) [OF good this] show "good_session env owner ws' sid x ?new"
      by (auto simp: good_session_def redis_indexed_def)
  next
    fix ws' v x assume "?new (userSessionsKey env ws' v) = Some x"
    then have "?p (userSessionsKey env ws' v) = Some x" by simp
    from good_storeD(2) [OF good this] show "\<exists>xs e. x = (RSet xs, Some e) \<and> (\<forall>sid \<in> set xs. owner ws' sid = v)" .
  next
    fix ws' v x assume x: "?new (userRevokedKey env ws' v) = Some x"
    show "\<exists>c e. x = (RString (show_int c), Some e) \<and> int64_range c"
    proof (cases "ws' = ws \<and> v = u")
      case True
      with x range show ?thesis by auto
    next
      case False
      with x have "?p (userRevokedKey env ws' v) = Some x" by (auto split: if_splits)
      from good_storeD(3) [OF good this] show ?thesis .
    qed
  qed
  then have new_inv: "redis_inv env owner now ?new" by (simp add: redis_inv_def new)
  have new_view: "redis_view env now ?new = (redis_view env now r)\<lparr>sv_revoked := (sv_revoked (redis_view env now r))((ws, u) \<mapsto> (?c, ?e))\<rparr>"
    unfolding redis_view_def new using range by (auto simp: fun_eq_iff revocation_of_def ParseInt10_show_int)
  show ?thesis using assms(3) redis_purged [OF inv] new_inv new_view by (auto simp: eff wins split: if_splits)
qed

lemma redis_IsRevoked_ok:
  assumes inv: "redis_inv env owner now r" and "redis_step env now (OpIsRevoked ws u iat) r = (a, r')"
  shows "redis_inv env owner now r' \<and> spec_step env now (OpIsRevoked ws u iat) (redis_view env now r) = (a, redis_view env now r')"
proof -
  have good: "good_store env owner (purge now r)" using inv by (simp add: redis_inv_def)
  show ?thesis
  proof (cases "purge now r (userRevokedKey env ws u)")
    case None
    with assms show ?thesis by (auto simp: redis_IsRevoked_def redis_up_def redis_view_def)
  next
    case (Some x)
    with good_storeD(3) [OF good Some] obtain c e where "purge now r (userRevokedKey env ws u) = Some (RString (show_int c), Some e)" "int64_range c" by blast
    with assms show ?thesis by (auto simp: redis_IsRevoked_def redis_up_def redis_view_def revocation_of_def ParseInt10_show_int)
  qed
qed

lemma redis_step_ok:
  assumes "redis_inv env owner now r" "proper_op owner now op" "redis_step env now op r = (a, r')"
  shows "redis_inv env owner now r' \<and> spec_step env now op (redis_view env now r) = (a, redis_view env now r')"
proof (cases op)
  case (OpCreate rec ttl)
  show ?thesis using assms(2,3) unfolding OpCreate by (rule redis_Create_ok [OF assms(1)])
next
  case (OpGet ws sid)
  show ?thesis using assms(3) unfolding OpGet by (rule redis_Get_ok [OF assms(1)])
next
  case (OpValidate ws sid agent ip)
  show ?thesis using assms(3) unfolding OpValidate by (rule redis_Validate_ok [OF assms(1)])
next
  case (OpRevoke ws sid)
  show ?thesis using assms(3) unfolding OpRevoke by (rule redis_Revoke_ok [OF assms(1)])
next
  case (OpRevokeForUser ws u sid)
  show ?thesis using assms(3) unfolding OpRevokeForUser by (rule redis_RevokeForUser_ok [OF assms(1)])
next
  case (OpRevokeAll ws u)
  show ?thesis using assms(3) unfolding OpRevokeAll by (rule redis_RevokeAll_ok [OF assms(1)])
next
  case (OpRevokeUser ws u at ttl)
  show ?thesis using assms(2,3) unfolding OpRevokeUser by (rule redis_RevokeUser_ok [OF assms(1)])
next
  case (OpIsRevoked ws u iat)
  show ?thesis using assms(3) unfolding OpIsRevoked by (rule redis_IsRevoked_ok [OF assms(1)])
qed

end

sublocale session_setup \<subseteq> redis: session_store env owner "redis_step env" "redis_view env" "redis_inv env owner" "(=)"
proof unfold_locales
  show "redis_inv env owner now s'" if "redis_inv env owner now s" "proper_op owner now op" "redis_step env now op s = (a, s')" for now s op a s'
    using redis_step_ok [OF that] by blast
  show "a = fst (spec_step env now op (redis_view env now s)) \<and> snd (spec_step env now op (redis_view env now s)) = redis_view env now s'"
    if "redis_inv env owner now s" "proper_op owner now op" "redis_step env now op s = (a, s')" for now s op a s'
    using redis_step_ok [OF that] by simp
qed (use redis_inv_later redis_view_later in blast)+

end
