(* ===== verification/Session_Failover.thy ===== *)
theory Session_Failover
  imports Session_Redis
begin

text \<open>
  Several replicas with their memories over one Redis: every call of the failing-over store, the
  health loop and the janitor as steps, and what becomes of a revocation that a replica took while
  Redis was unreachable.
\<close>

section \<open>The system\<close>

record fo_system =
  fs_replica :: "nat \<Rightarrow> failover"
  fs_redis :: redis_store
  fs_now :: time

definition put_replica :: "nat \<Rightarrow> failover \<Rightarrow> redis_store \<Rightarrow> fo_system \<Rightarrow> fo_system" where
  "put_replica i f r s = s\<lparr>fs_replica := (fs_replica s)(i := f), fs_redis := r\<rparr>"

definition fo_start :: fo_system where
  "fo_start = \<lparr>fs_replica = (\<lambda>_. NewFailoverStore), fs_redis = Map.empty, fs_now = 0\<rparr>"

text \<open>The calls that do not concern revocations of users.\<close>

inductive session_call :: "session_env \<Rightarrow> time \<Rightarrow> failover \<Rightarrow> redis_store \<Rightarrow> failover \<Rightarrow> redis_store \<Rightarrow> bool"
  for env now f r where
  set_call: "fo_Set env flt now sid u ws ttl f r = (res, f', r') \<Longrightarrow> session_call env now f r f' r'"
| create: "fo_Create env flt now rec ttl f r = (res, f', r') \<Longrightarrow> session_call env now f r f' r'"
| get: "fo_Get env flt now ws sid f r = (res, f', r') \<Longrightarrow> session_call env now f r f' r'"
| get_record: "fo_GetRecord env flt now ws sid f r = (res, f', r') \<Longrightarrow> session_call env now f r f' r'"
| revoke: "fo_Revoke env flt now ws sid f r = (res, f', r') \<Longrightarrow> session_call env now f r f' r'"
| revoke_all: "fo_RevokeAllForUser env flt now ws u f r = (res, f', r') \<Longrightarrow> session_call env now f r f' r'"
| revoke_for_user: "fo_RevokeForUser env flt now ws u sid f r = (res, f', r') \<Longrightarrow> session_call env now f r f' r'"
| list_for_user: "fo_ListForUser env flt order now ws u f r = (res, f', r') \<Longrightarrow> session_call env now f r f' r'"
| validate_session: "fo_ValidateSession env flt now ws sid agent ip f r = (res, f', r') \<Longrightarrow> session_call env now f r f' r'"

text \<open>A tick of the health loop whose replay visits every key of the map, and in which the call that replays a
  revocation of one user fails, if at all, because Redis cannot be reached.  Every other call may fail in any way:
  the calls for other users, and those of the second replay.\<close>

definition connectivity_only :: "redis_faults \<Rightarrow> bool" where
  "connectivity_only flt = (\<forall>l f landed. flt l = Some (f, landed) \<longrightarrow> isUnavailable (SessErrRedis l f))"

definition not_skipped :: "uuid \<Rightarrow> uuid \<Rightarrow> (nat \<Rightarrow> redis_faults) \<Rightarrow> mem_revocation list \<Rightarrow> bool" where
  "not_skipped ws u flt xs = (\<forall>i < length xs. mr_ws (xs ! i) = ws \<and> mr_user (xs ! i) = u \<longrightarrow> connectivity_only (flt i))"

definition proper_tick :: "uuid \<Rightarrow> uuid \<Rightarrow> time \<Rightarrow> health_tick \<Rightarrow> failover \<Rightarrow> bool" where
  "proper_tick ws u now ht f =
     (dom (ms_revoked (fo_memory f)) \<subseteq> set (ht_keys ht)
      \<and> not_skipped ws u (ht_faults ht) (fst (snapshotRevocations (ht_keys ht) now (fo_memory f))))"

inductive fo_step :: "session_env \<Rightarrow> time \<Rightarrow> uuid \<Rightarrow> uuid \<Rightarrow> fo_system \<Rightarrow> fo_system \<Rightarrow> bool" for env ttl pw pu where
  time_passes: "fs_now s \<le> now \<Longrightarrow> fo_step env ttl pw pu s (s\<lparr>fs_now := now\<rparr>)"
| revoke_user: "fo_RevokeUser env flt (fs_now s) ws u (fs_now s) ttl (fs_replica s i) (fs_redis s) = (res, f, r) \<Longrightarrow>
    int64_range (unix_seconds (fs_now s)) \<Longrightarrow> fo_step env ttl pw pu s (put_replica i f r s)"
| is_revoked: "fo_IsRevoked env flt (fs_now s) ws u issuedAt (fs_replica s i) (fs_redis s) = (res, f, r) \<Longrightarrow>
    fo_step env ttl pw pu s (put_replica i f r s)"
| call: "session_call env (fs_now s) (fs_replica s i) (fs_redis s) f r \<Longrightarrow> fo_step env ttl pw pu s (put_replica i f r s)"
| health: "RunHealthLoop_tick env ht (fs_now s) (fs_replica s i) (fs_redis s) = (f, r) \<Longrightarrow> proper_tick pw pu (fs_now s) ht (fs_replica s i) \<Longrightarrow>
    fo_step env ttl pw pu s (put_replica i f r s)"
| janitor: "fo_step env ttl pw pu s
    (put_replica i ((fs_replica s i)\<lparr>fo_memory := reap (fs_now s) (fo_memory (fs_replica s i))\<rparr>) (fs_redis s) s)"

section \<open>Calls that leave the revocations alone\<close>

lemma failing_over_cases:
  assumes "failing_over primary fallback f r = (res, f', r')"
  obtains (primary) "fo_healthy f" "f' = f" "snd (primary r) = r'" "res = fst (primary r)"
      "\<And>e. res = Inl e \<Longrightarrow> \<not> isUnavailable e"
    | (fallen) e where "fo_healthy f" "primary r = (Inl e, r')" "isUnavailable e" "fo_healthy f' = False"
        "fallback (fo_memory f) = (res, fo_memory f')"
    | (fallback) "\<not> fo_healthy f" "r' = r" "fo_healthy f' = False" "fallback (fo_memory f) = (res, fo_memory f')"
proof (cases "fo_healthy f")
  case True
  obtain x y where p: "primary r = (x, y)" by (cases "primary r")
  show thesis
  proof (cases x)
    case (Inl e)
    with assms True p show thesis
      by (cases "isUnavailable e") (auto simp: failing_over_def markDown_def split: prod.splits intro: primary fallen)
  next
    case (Inr a)
    with assms True p show thesis by (auto simp: failing_over_def intro: primary)
  qed
next
  case False
  with assms show thesis by (auto simp: failing_over_def split: prod.splits intro: fallback)
qed

text \<open>A command leaves a key alone.\<close>

definition leaves :: "string \<Rightarrow> redis_cmd \<Rightarrow> bool" where
  "leaves k c = (\<forall>r. snd (c r) k = r k)"

lemma leaves_cmds:
  "k \<noteq> k' \<Longrightarrow> leaves k (HSet k' kvs)" "k \<noteq> k' \<Longrightarrow> leaves k (HSetNX k' x v)" "k \<noteq> k' \<Longrightarrow> leaves k (Expire now k' t)"
  "k \<noteq> k' \<Longrightarrow> leaves k (ExpireNX now k' t)" "k \<noteq> k' \<Longrightarrow> leaves k (ExpireGT now k' t)" "k \<noteq> k' \<Longrightarrow> leaves k (SAdd k' m)"
  "k \<noteq> k' \<Longrightarrow> leaves k (SRem k' ms)" "k \<noteq> k' \<Longrightarrow> leaves k (Del k')"
  by (auto simp: leaves_def HSet_def HSetNX_def Expire_def ExpireNX_def ExpireGT_def set_expiry_def SAdd_def SRem_def Del_def Let_def
      split: option.split redis_value.split)

lemma exec_all_leaves: "(\<And>c. c \<in> set cs \<Longrightarrow> leaves k c) \<Longrightarrow> snd (exec_all cs r) k = r k"
  by (induction cs arbitrary: r) (auto simp: leaves_def case_prod_beta)

lemma exec_all_single: "exec_all [c] r = c r"
  by (cases "c r") simp

lemma redis_tx_store:
  "redis_tx flt l now cmds r = (e, r') \<Longrightarrow> r' = r \<or> r' = snd (exec_all cmds (purge now r))"
  by (auto simp: redis_tx_def split: option.splits prod.splits if_splits)

text \<open>What a call may do to a key it leaves alone: nothing, or let it expire.\<close>

definition same_key :: "time \<Rightarrow> string \<Rightarrow> redis_store \<Rightarrow> redis_store \<Rightarrow> bool" where
  "same_key now k r r' = (r' k = r k \<or> r' k = purge now r k)"

lemma same_key_refl [simp]: "same_key now k r r"
  by (simp add: same_key_def)

lemma same_key_tx: "(\<And>c. c \<in> set cmds \<Longrightarrow> leaves k c) \<Longrightarrow> same_key now k r (snd (redis_tx flt l now cmds r))"
  using redis_tx_store [of flt l now cmds r "fst (redis_tx flt l now cmds r)" "snd (redis_tx flt l now cmds r)"]
    exec_all_leaves [of cmds k "purge now r"] by (auto simp: same_key_def)

lemma unit_result_snd [simp]: "snd (unit_result p) = snd p"
  by (auto simp: unit_result_def split: prod.split option.split)

definition no_revocation_change where
  "no_revocation_change env now f r f' r' =
     (ms_revoked (fo_memory f') = ms_revoked (fo_memory f) \<and> (fo_healthy f' \<longrightarrow> fo_healthy f)
      \<and> (\<forall>ws u. same_key now (userRevokedKey env ws u) r r'))"

lemma failing_over_frame:
  assumes "failing_over primary fallback f r = (res, f', r')"
    and "\<And>ws u. same_key now (userRevokedKey env ws u) r (snd (primary r))"
    and "ms_revoked (snd (fallback (fo_memory f))) = ms_revoked (fo_memory f)"
  shows "no_revocation_change env now f r f' r'"
  using assms(1)
proof (cases rule: failing_over_cases)
  case primary
  with assms(2) show ?thesis by (simp add: no_revocation_change_def)
next
  case (fallen e)
  with assms(2,3) show ?thesis by (simp add: no_revocation_change_def)
next
  case fallback
  with assms(3) show ?thesis by (simp add: no_revocation_change_def)
qed

lemma mem_revoked_frame:
  "ms_revoked (snd (mem_Create env now rec ttl m)) = ms_revoked m"
  "ms_revoked (snd (mem_lookup env now ws sid m)) = ms_revoked m"
  "ms_revoked (mem_unindex k sids m) = ms_revoked m"
  by (simp_all add: mem_Create_def mem_lookup_def mem_unindex_def Let_def split: option.split)

lemma mem_revoked_frame_ops:
  "ms_revoked (snd (mem_Get env now ws sid m)) = ms_revoked m"
  "ms_revoked (snd (mem_GetRecord env now ws sid m)) = ms_revoked m"
  "ms_revoked (snd (mem_ValidateSession env now ws sid agent ip m)) = ms_revoked m"
  "ms_revoked (mem_Revoke env ws sid m) = ms_revoked m"
  "ms_revoked (snd (mem_RevokeForUser env ws u sid m)) = ms_revoked m"
  "ms_revoked (mem_RevokeAllForUser env ws u m) = ms_revoked m"
  "ms_revoked (snd (mem_ListForUser env order now ws u m)) = ms_revoked m"
  by (simp_all add: mem_Get_def mem_GetRecord_def mem_ValidateSession_def mem_Revoke_def mem_RevokeForUser_def
      mem_RevokeAllForUser_def mem_ListForUser_def mem_revoked_frame case_prod_beta Let_def split: option.split)

context session_setup
begin

lemma redis_frame:
  "same_key now (userRevokedKey env ws' v) r (snd (redis_Create env flt now rec ttl r))"
  "same_key now (userRevokedKey env ws' v) r (snd (redis_Revoke env flt now ws sid r r))"
  "same_key now (userRevokedKey env ws' v) r (snd (redis_RevokeAllForUser env flt now ws u r r))"
  "same_key now (userRevokedKey env ws' v) r (snd (redis_RevokeForUser env flt now ws u sid r r))"
  "same_key now (userRevokedKey env ws' v) r (snd (redis_ValidateSession env flt now ws sid agent ip r))"
  "same_key now (userRevokedKey env ws' v) r (snd (redis_ListForUser env flt order now ws u r))"
proof -
  show "same_key now (userRevokedKey env ws' v) r (snd (redis_Create env flt now rec ttl r))"
    by (auto simp: redis_Create_def Let_def intro!: same_key_tx leaves_cmds)
  show "same_key now (userRevokedKey env ws' v) r (snd (redis_Revoke env flt now ws sid r r))"
    by (auto simp: redis_Revoke_def split: sum.split option.split intro!: same_key_tx leaves_cmds)
  show "same_key now (userRevokedKey env ws' v) r (snd (redis_RevokeAllForUser env flt now ws u r r))"
    by (auto simp: redis_RevokeAllForUser_def Let_def split: sum.split intro!: same_key_tx leaves_cmds)
  show "same_key now (userRevokedKey env ws' v) r (snd (redis_RevokeForUser env flt now ws u sid r r))"
    by (auto simp: redis_RevokeForUser_def case_prod_beta split: sum.split option.split intro!: same_key_tx leaves_cmds)
  have "leaves (userRevokedKey env ws' v) (\<lambda>r. if r (sessionKey env ws sid) = None then (True, r)
      else HSet (sessionKey env ws sid) kvs r)" for kvs
    using leaves_cmds(1) [of "userRevokedKey env ws' v" "sessionKey env ws sid" kvs] by (auto simp: leaves_def)
  then show "same_key now (userRevokedKey env ws' v) r (snd (redis_ValidateSession env flt now ws sid agent ip r))"
    by (auto simp: redis_ValidateSession_def redis_touch_def split: sum.split intro!: same_key_tx)
  show "same_key now (userRevokedKey env ws' v) r (snd (redis_ListForUser env flt order now ws u r))"
    by (auto simp: redis_ListForUser_def Let_def split: sum.split intro!: same_key_tx leaves_cmds)
qed

lemma session_call_frame:
  assumes "session_call env now f r f' r'"
  shows "no_revocation_change env now f r f' r'"
  using assms
proof cases
  case (set_call flt sid u ws ttl res)
  then show ?thesis unfolding fo_Set_def
    by (rule failing_over_frame) (simp_all add: redis_session_Set_def mem_Set_def redis_frame mem_revoked_frame)
next
  case (create flt rec ttl res)
  then show ?thesis unfolding fo_Create_def by (rule failing_over_frame) (simp_all add: redis_frame mem_revoked_frame)
next
  case (get flt ws sid res)
  then show ?thesis unfolding fo_Get_def by (rule failing_over_frame) (simp_all add: mem_revoked_frame_ops)
next
  case (get_record flt ws sid res)
  then show ?thesis unfolding fo_GetRecord_def by (rule failing_over_frame) (simp_all add: mem_revoked_frame_ops)
next
  case (revoke flt ws sid res)
  then show ?thesis unfolding fo_Revoke_def by (rule failing_over_frame) (simp_all add: redis_frame mem_revoked_frame_ops)
next
  case (revoke_all flt ws u res)
  then show ?thesis unfolding fo_RevokeAllForUser_def by (rule failing_over_frame) (simp_all add: redis_frame mem_revoked_frame_ops)
next
  case (revoke_for_user flt ws u sid res)
  then show ?thesis unfolding fo_RevokeForUser_def
    by (rule failing_over_frame) (simp_all add: redis_frame mem_revoked_frame_ops case_prod_beta)
next
  case (list_for_user flt order ws u res)
  then show ?thesis unfolding fo_ListForUser_def
    by (rule failing_over_frame) (simp_all add: redis_frame mem_revoked_frame_ops case_prod_beta)
next
  case (validate_session flt ws sid agent ip res)
  then show ?thesis unfolding fo_ValidateSession_def
    by (rule failing_over_frame) (simp_all add: redis_frame mem_revoked_frame_ops case_prod_beta)
qed

end

section \<open>What memory and Redis hold of a revocation\<close>

definition record_ok :: "time \<Rightarrow> mem_revocation \<Rightarrow> bool" where
  "record_ok ttl x = (mr_cutoff x * second + ttl \<le> mr_expires x \<and> int64_range (mr_cutoff x))"

definition memory_ok :: "session_env \<Rightarrow> time \<Rightarrow> mem_store \<Rightarrow> bool" where
  "memory_ok env ttl m =
     (\<forall>k x. ms_revoked m k = Some x \<longrightarrow> k = userRevokedKey env (mr_ws x) (mr_user x) \<and> record_ok ttl x)"

definition redis_ok :: "session_env \<Rightarrow> time \<Rightarrow> redis_store \<Rightarrow> bool" where
  "redis_ok env ttl r =
     (\<forall>ws u y. r (userRevokedKey env ws u) = Some y \<longrightarrow>
        (\<exists>c e. y = (RString (show_int c), Some e) \<and> int64_range c \<and> c * second + ttl - second < e))"

definition in_memory :: "session_env \<Rightarrow> uuid \<Rightarrow> uuid \<Rightarrow> int \<Rightarrow> mem_store \<Rightarrow> bool" where
  "in_memory env ws u c m = (\<exists>x. ms_revoked m (userRevokedKey env ws u) = Some x \<and> c \<le> mr_cutoff x)"

definition in_redis :: "session_env \<Rightarrow> uuid \<Rightarrow> uuid \<Rightarrow> int \<Rightarrow> redis_store \<Rightarrow> bool" where
  "in_redis env ws u c r = (\<exists>c' e. r (userRevokedKey env ws u) = Some (RString (show_int c'), Some e) \<and> c \<le> c')"

text \<open>Until a second before the last token of the revoked second expires.\<close>

definition in_time :: "time \<Rightarrow> time \<Rightarrow> int \<Rightarrow> bool" where
  "in_time now ttl c = (now < c * second + ttl - second)"

lemma in_time_mono: "in_time now ttl c \<Longrightarrow> c \<le> c' \<Longrightarrow> in_time now ttl c'"
  by (simp add: in_time_def second_def)

lemma redis_okD:
  "redis_ok env ttl r \<Longrightarrow> r (userRevokedKey env ws u) = Some y \<Longrightarrow>
   \<exists>c e. y = (RString (show_int c), Some e) \<and> int64_range c \<and> c * second + ttl - second < e"
  unfolding redis_ok_def by blast

lemma redis_ok_purge: "redis_ok env ttl r \<Longrightarrow> redis_ok env ttl (purge now r)"
  unfolding redis_ok_def by (fastforce simp: purge_def split: option.splits if_splits)

lemma in_redis_purge:
  assumes "redis_ok env ttl r" "in_redis env ws u c r" "in_time now ttl c"
  shows "in_redis env ws u c (purge now r)"
proof -
  from assms(2) obtain c' e where r: "r (userRevokedKey env ws u) = Some (RString (show_int c'), Some e)" "c \<le> c'"
    by (auto simp: in_redis_def)
  from redis_okD [OF assms(1) r(1)] obtain c'' where c: "show_int c' = show_int c''" "c'' * second + ttl - second < e" by auto
  then have "c'' = c'" using show_int_inj by auto
  with in_time_mono [OF assms(3) r(2)] c(2) have "now < e" by (simp add: in_time_def)
  with r show ?thesis by (auto simp: in_redis_def purge_def)
qed

lemma redis_ok_same_key:
  "redis_ok env ttl r \<Longrightarrow> (\<And>ws u. same_key now (userRevokedKey env ws u) r r') \<Longrightarrow> redis_ok env ttl r'"
  using redis_ok_purge [of env ttl r now] unfolding redis_ok_def same_key_def by metis

lemma in_redis_same_key:
  assumes "redis_ok env ttl r" "in_redis env ws u c r" "in_time now ttl c" "same_key now (userRevokedKey env ws u) r r'"
  shows "in_redis env ws u c r'"
  using assms(4) assms(2) in_redis_purge [OF assms(1-3)] by (auto simp: in_redis_def same_key_def)

context session_setup
begin

text \<open>The script writes a cutoff that is greater than the stored one, and nothing else.\<close>

lemma revoke_script_entry:
  assumes "redis_ok env ttl p" "int64_range c" "c * second + ttl - second < now + t"
  shows "fst (revoke_script now (userRevokedKey env ws u) c t p)"
    and "redis_ok env ttl (snd (revoke_script now (userRevokedKey env ws u) c t p))"
    and "in_redis env ws' u' c' p \<Longrightarrow> in_redis env ws' u' c' (snd (revoke_script now (userRevokedKey env ws u) c t p))"
    and "c' \<le> c \<Longrightarrow> in_redis env ws u c' (snd (revoke_script now (userRevokedKey env ws u) c t p))"
proof -
  let ?k = "userRevokedKey env ws u"
  let ?new = "p(?k \<mapsto> (RString (show_int c), Some (now + t)))"
  have new: "redis_ok env ttl ?new" using assms unfolding redis_ok_def by auto
  have cases: "(p ?k = None \<and> revoke_script now ?k c t p = (True, ?new)) \<or>
    (\<exists>d e. p ?k = Some (RString (show_int d), Some e) \<and> revoke_script now ?k c t p = (True, if d < c then ?new else p))"
  proof (cases "p ?k")
    case None
    then show ?thesis by (simp add: revoke_script_def)
  next
    case (Some y)
    with redis_okD [OF assms(1) Some] obtain d e where "p ?k = Some (RString (show_int d), Some e)" "int64_range d" by blast
    then show ?thesis by (auto simp: revoke_script_def ParseInt10_show_int)
  qed
  then show "fst (revoke_script now ?k c t p)" by auto
  show "redis_ok env ttl (snd (revoke_script now ?k c t p))" using cases new assms(1) by auto
  show "in_redis env ws' u' c' (snd (revoke_script now ?k c t p))" if "in_redis env ws' u' c' p"
    using cases that
  proof (elim disjE exE conjE)
    fix d e assume d: "p ?k = Some (RString (show_int d), Some e)" "revoke_script now ?k c t p = (True, if d < c then ?new else p)"
    show ?thesis
    proof (cases "ws' = ws \<and> u' = u")
      case True
      from that d(1) True have "c' \<le> d" using show_int_inj by (auto simp: in_redis_def)
      with that d True show ?thesis by (auto simp: in_redis_def)
    next
      case False
      with that d show ?thesis by (auto simp: in_redis_def)
    qed
  qed (auto simp: in_redis_def)
  show "in_redis env ws u c' (snd (revoke_script now ?k c t p))" if "c' \<le> c"
    using cases that by (force simp: in_redis_def)
qed

lemma redis_RevokeUser_eff:
  assumes ok: "redis_ok env ttl r" and range: "int64_range (unix_seconds at)"
    and exp: "unix_seconds at * second + ttl - second < now + (if revoke_ttl t div second < 1 then 1 else revoke_ttl t div second) * second"
    and eff: "redis_RevokeUser env flt now ws u at t r = (res, r')"
  shows "redis_ok env ttl r'"
    and "in_redis env ws' u' c r \<Longrightarrow> in_time now ttl c \<Longrightarrow> in_redis env ws' u' c r'"
    and "res = None \<Longrightarrow> c \<le> unix_seconds at \<Longrightarrow> in_redis env ws u c r'"
    and "connectivity_only flt \<Longrightarrow> res = Some e \<Longrightarrow> isUnavailable e"
proof -
  let ?t = "(if revoke_ttl t div second < 1 then 1 else revoke_ttl t div second) * second"
  let ?s = "revoke_script now (userRevokedKey env ws u) (unix_seconds at) ?t"
  note script = revoke_script_entry [OF redis_ok_purge [OF ok, of now] range exp, where ws = ws and u = u]
  have tx: "redis_tx flt ''redis revoke user'' now [?s] r = (res, r')" using eff by (simp add: redis_RevokeUser_def Let_def)
  have exec: "exec_all [?s] (purge now r) = (True, snd (?s (purge now r)))" 
    unfolding exec_all_single using script(1) by (metis prod.collapse)
  have r': "r' = r \<or> r' = snd (?s (purge now r))" using redis_tx_store [OF tx] by (simp add: exec del: exec_all.simps)
  have none: "res = None \<Longrightarrow> r' = snd (?s (purge now r))" using tx by (auto simp: redis_tx_def exec simp del: exec_all.simps split: option.splits)
  show "redis_ok env ttl r'" using r' ok script(2) by blast
  show "in_redis env ws' u' c r'" if "in_redis env ws' u' c r" "in_time now ttl c"
    using r' that script(3) in_redis_purge [OF ok that] by blast
  show "in_redis env ws u c r'" if "res = None" "c \<le> unix_seconds at" using none [OF that(1)] script(4) [OF that(2)] by simp
  show "isUnavailable e" if "connectivity_only flt" "res = Some e"
    using tx that by (auto simp: redis_tx_def exec connectivity_only_def simp del: exec_all.simps split: option.splits)
qed

section \<open>The replay\<close>

lemma not_skipped_Cons:
  assumes "not_skipped ws u (\<lambda>j. flt (i + j)) (x # xs)"
  shows "not_skipped ws u (\<lambda>j. flt (Suc i + j)) xs \<and> (mr_ws x = ws \<and> mr_user x = u \<longrightarrow> connectivity_only (flt i))"
proof -
  have "mr_ws ((x # xs) ! k) = ws \<and> mr_user ((x # xs) ! k) = u \<longrightarrow> connectivity_only (flt (i + k))" if "k \<le> length xs" for k
    using assms that by (simp add: not_skipped_def)
  from this [of 0] this [of "Suc _"] show ?thesis by (auto simp: not_skipped_def)
qed

lemma flush_loop_eff:
  assumes "flush_loop env flt now i xs r = (res, r')" "redis_ok env ttl r" "\<And>x. x \<in> set xs \<Longrightarrow> record_ok ttl x"
  shows "redis_ok env ttl r' \<and> (\<forall>ws u c. in_redis env ws u c r \<and> in_time now ttl c \<longrightarrow> in_redis env ws u c r')
    \<and> (res = None \<longrightarrow> not_skipped ws u (\<lambda>j. flt (i + j)) xs \<longrightarrow>
         (\<forall>x \<in> set xs. mr_ws x = ws \<and> mr_user x = u \<longrightarrow> (\<forall>c. c \<le> mr_cutoff x \<and> in_time now ttl c \<longrightarrow> in_redis env ws u c r')))"
  using assms
proof (induction xs arbitrary: i r)
  case Nil
  then show ?case by simp
next
  case (Cons x xs)
  let ?ttl = "mr_expires x - now"
  have x: "record_ok ttl x" and xs: "\<And>y. y \<in> set xs \<Longrightarrow> record_ok ttl y" using Cons.prems(3) by auto
  show ?case
  proof (cases "?ttl \<le> 0")
    case True
    with Cons.prems(1) have rest: "flush_loop env flt now (Suc i) xs r = (res, r')" by simp
    have "\<not> in_time now ttl c" if "c \<le> mr_cutoff x" for c
      using True x in_time_mono [OF _ that, of now ttl] by (auto simp: record_ok_def in_time_def second_def)
    moreover have "not_skipped ws u (\<lambda>j. flt (Suc i + j)) xs" if "not_skipped ws u (\<lambda>j. flt (i + j)) (x # xs)"
      using not_skipped_Cons [OF that] by blast
    ultimately show ?thesis using Cons.IH [OF rest Cons.prems(2) xs] by auto
  next
    case False
    obtain e r1 where rev: "redis_RevokeUser env (flt i) now (mr_ws x) (mr_user x) (mr_cutoff x * second) ?ttl r = (e, r1)"
      by (cases "redis_RevokeUser env (flt i) now (mr_ws x) (mr_user x) (mr_cutoff x * second) ?ttl r")
    have cut: "unix_seconds (mr_cutoff x * second) = mr_cutoff x" by (simp add: unix_seconds_def second_def)
    have "mr_cutoff x * second + ttl - second < now + (if revoke_ttl ?ttl div second < 1 then 1 else revoke_ttl ?ttl div second) * second"
      using False x by (auto simp: record_ok_def revoke_ttl_def second_def)
    note eff = redis_RevokeUser_eff [where at = "mr_cutoff x * second", unfolded cut, OF Cons.prems(2) _ this rev]
    have range: "int64_range (mr_cutoff x)" using x by (simp add: record_ok_def)
    note ok1 = eff(1) [OF range]
    show ?thesis
    proof (cases "e \<noteq> None \<and> isUnavailable (the e)")
      case True
      with Cons.prems(1) False rev have "res = e" "r' = r1" by auto
      with True ok1 eff(2) [OF range] show ?thesis by auto
    next
      case go: False
      with Cons.prems(1) False rev have rest: "flush_loop env flt now (Suc i) xs r1 = (res, r')" by (auto split: option.splits if_splits)
      have now: "in_redis env (mr_ws x) (mr_user x) c r1" if "connectivity_only (flt i)" "c \<le> mr_cutoff x" for c
        using eff(3,4) [OF range] that go by (cases e) auto
      have "not_skipped ws u (\<lambda>j. flt (Suc i + j)) xs \<and> (mr_ws x = ws \<and> mr_user x = u \<longrightarrow> connectivity_only (flt i))"
        if "not_skipped ws u (\<lambda>j. flt (i + j)) (x # xs)" using that by (rule not_skipped_Cons)
      with now Cons.IH [OF rest ok1 xs] eff(2) [OF range] show ?thesis by auto
    qed
  qed
qed

lemma snapshot_records:
  assumes "memory_ok env ttl m" "snapshotRevocations keys now m = (xs, m')"
  shows "\<And>x. x \<in> set xs \<Longrightarrow> record_ok ttl x" and "memory_ok env ttl m'" and "dom (ms_revoked m') \<subseteq> dom (ms_revoked m)"
    and "in_memory env ws u c m \<Longrightarrow> in_time now ttl c \<Longrightarrow> in_memory env ws u c m'"
    and "in_memory env ws u c m \<Longrightarrow> in_time now ttl c \<Longrightarrow> dom (ms_revoked m) \<subseteq> set keys \<Longrightarrow>
      \<exists>x \<in> set xs. mr_ws x = ws \<and> mr_user x = u \<and> c \<le> mr_cutoff x"
proof -
  show "record_ok ttl x" if "x \<in> set xs" for x
    using assms that by (auto simp: snapshotRevocations_def memory_ok_def List.map_filter_def)
  show "memory_ok env ttl m'" using assms by (auto simp: snapshotRevocations_def memory_ok_def split: option.splits if_splits)
  show "dom (ms_revoked m') \<subseteq> dom (ms_revoked m)" using assms(2) by (auto simp: snapshotRevocations_def split: option.splits)
  have live: "\<exists>x. ms_revoked m (userRevokedKey env ws u) = Some x \<and> c \<le> mr_cutoff x \<and> mr_ws x = ws \<and> mr_user x = u \<and> now < mr_expires x"
    if "in_memory env ws u c m" "in_time now ttl c"
  proof -
    from that(1) obtain x where x: "ms_revoked m (userRevokedKey env ws u) = Some x" "c \<le> mr_cutoff x" by (auto simp: in_memory_def)
    from assms(1) x(1) have "userRevokedKey env ws u = userRevokedKey env (mr_ws x) (mr_user x)" "record_ok ttl x" unfolding memory_ok_def by blast+
    with in_time_mono [OF that(2) x(2)] x show ?thesis by (auto simp: record_ok_def in_time_def second_def)
  qed
  show "in_memory env ws u c m'" if "in_memory env ws u c m" "in_time now ttl c"
    using live [OF that] assms(2) by (auto simp: snapshotRevocations_def in_memory_def)
  show "\<exists>x \<in> set xs. mr_ws x = ws \<and> mr_user x = u \<and> c \<le> mr_cutoff x"
    if c: "in_memory env ws u c m" "in_time now ttl c" and keys: "dom (ms_revoked m) \<subseteq> set keys"
  proof -
    from live [OF c] obtain x where x: "ms_revoked m (userRevokedKey env ws u) = Some x" "c \<le> mr_cutoff x" "mr_ws x = ws" "mr_user x = u"
      "now < mr_expires x" by blast
    have "userRevokedKey env ws u \<in> set keys" using x(1) keys by blast
    with x assms(2) have "x \<in> set xs" by (force simp: snapshotRevocations_def List.map_filter_def)
    with x show ?thesis by blast
  qed
qed

end

text \<open>What a replica remembers of a revocation.\<close>

definition remembers :: "session_env \<Rightarrow> uuid \<Rightarrow> uuid \<Rightarrow> int \<Rightarrow> failover \<Rightarrow> redis_store \<Rightarrow> bool" where
  "remembers env ws u c f r = (in_memory env ws u c (fo_memory f) \<and> (fo_healthy f \<longrightarrow> in_redis env ws u c r))"

text \<open>The common form of what a step of one replica does.\<close>

definition tightens :: "session_env \<Rightarrow> time \<Rightarrow> uuid \<Rightarrow> uuid \<Rightarrow> time \<Rightarrow> failover \<Rightarrow> redis_store \<Rightarrow> failover \<Rightarrow> redis_store \<Rightarrow> bool" where
  "tightens env ttl pw pu now f r f' r' =
     (memory_ok env ttl (fo_memory f') \<and> redis_ok env ttl r'
      \<and> (\<forall>ws u c. in_redis env ws u c r \<and> in_time now ttl c \<longrightarrow> in_redis env ws u c r')
      \<and> (\<forall>c. remembers env pw pu c f r \<and> in_time now ttl c \<longrightarrow> remembers env pw pu c f' r'))"

context session_setup
begin

lemma flush_eff:
  assumes "flushRevocations env flt keys now f r = (res, f', r')" "memory_ok env ttl (fo_memory f)" "redis_ok env ttl r"
  shows "memory_ok env ttl (fo_memory f')" "redis_ok env ttl r'" "fo_healthy f' = fo_healthy f"
    "dom (ms_revoked (fo_memory f')) \<subseteq> dom (ms_revoked (fo_memory f))"
    "in_memory env ws u c (fo_memory f) \<Longrightarrow> in_time now ttl c \<Longrightarrow> in_memory env ws u c (fo_memory f')"
    "in_redis env ws u c r \<Longrightarrow> in_time now ttl c \<Longrightarrow> in_redis env ws u c r'"
    "res = None \<Longrightarrow> not_skipped ws u flt (fst (snapshotRevocations keys now (fo_memory f))) \<Longrightarrow> dom (ms_revoked (fo_memory f)) \<subseteq> set keys \<Longrightarrow>
       in_memory env ws u c (fo_memory f) \<Longrightarrow> in_time now ttl c \<Longrightarrow> in_redis env ws u c r'"
proof -
  obtain xs m where snap: "snapshotRevocations keys now (fo_memory f) = (xs, m)"
    by (cases "snapshotRevocations keys now (fo_memory f)")
  obtain e r1 where loop: "flush_loop env flt now 0 xs r = (e, r1)" by (cases "flush_loop env flt now 0 xs r")
  from assms(1) snap loop have f': "f' = f\<lparr>fo_memory := m\<rparr>" "r' = r1" "res = e" by (auto simp: flushRevocations_def)
  note recs = snapshot_records [OF assms(2) snap]
  note eff = flush_loop_eff [OF loop assms(3) recs(1)]
  show "memory_ok env ttl (fo_memory f')" using recs(2) by (simp add: f')
  show "redis_ok env ttl r'" using eff by (simp add: f')
  show "fo_healthy f' = fo_healthy f" by (simp add: f')
  show "dom (ms_revoked (fo_memory f')) \<subseteq> dom (ms_revoked (fo_memory f))" using recs(3) by (simp add: f')
  show "in_memory env ws u c (fo_memory f) \<Longrightarrow> in_time now ttl c \<Longrightarrow> in_memory env ws u c (fo_memory f')" using recs(4) by (simp add: f')
  show "in_redis env ws u c r \<Longrightarrow> in_time now ttl c \<Longrightarrow> in_redis env ws u c r'" using eff by (auto simp: f')
  show "in_redis env ws u c r'" if "res = None" "not_skipped ws u flt (fst (snapshotRevocations keys now (fo_memory f)))" "dom (ms_revoked (fo_memory f)) \<subseteq> set keys"
    "in_memory env ws u c (fo_memory f)" "in_time now ttl c"
  proof -
    from recs(5) [OF that(4,5,3)] obtain x where "x \<in> set xs" "mr_ws x = ws" "mr_user x = u" "c \<le> mr_cutoff x" by blast
    moreover have "not_skipped ws u (\<lambda>j. flt (0 + j)) xs" using that(2) by (simp add: snap)
    ultimately show ?thesis using eff(1) [of ws u] that(1,5) by (auto simp: f')
  qed
qed

lemma tick_eff:
  assumes tick: "RunHealthLoop_tick env ht now f r = (f', r')" and proper: "proper_tick pw pu now ht f"
    and ok: "memory_ok env ttl (fo_memory f)" "redis_ok env ttl r"
  shows "memory_ok env ttl (fo_memory f') \<and> redis_ok env ttl r'
    \<and> (\<forall>ws u c. in_redis env ws u c r \<and> in_time now ttl c \<longrightarrow> in_redis env ws u c r')
    \<and> (\<forall>c. remembers env pw pu c f r \<and> in_time now ttl c \<longrightarrow> remembers env pw pu c f' r')"
proof (cases "fo_healthy f \<or> \<not> ht_ping ht")
  case True
  with tick have "f' = f" "r' = r" by (auto simp: RunHealthLoop_tick_def)
  with ok show ?thesis by simp
next
  case False
  obtain e f1 r1 where f1: "flushRevocations env (ht_faults ht) (ht_keys ht) now f r = (e, f1, r1)"
    by (cases "flushRevocations env (ht_faults ht) (ht_keys ht) now f r") auto
  note e1 = flush_eff [OF f1 ok]
  have keys: "dom (ms_revoked (fo_memory f)) \<subseteq> set (ht_keys ht)" and conn: "not_skipped pw pu (ht_faults ht) (fst (snapshotRevocations (ht_keys ht) now (fo_memory f)))"
    using proper by (auto simp: proper_tick_def)
  show ?thesis
  proof (cases e)
    case (Some err)
    with tick False f1 have "f' = f1" "r' = r1" by (auto simp: RunHealthLoop_tick_def)
    with e1 False show ?thesis by (auto simp: remembers_def)
  next
    case None
    let ?f = "f1\<lparr>fo_healthy := True\<rparr>"
    obtain e2 f2 r2 where f2: "flushRevocations env (ht_faults' ht) (ht_keys' ht) now ?f r1 = (e2, f2, r2)"
      by (cases "flushRevocations env (ht_faults' ht) (ht_keys' ht) now ?f r1") auto
    from tick False f1 f2 None have r': "f' = f2" "r' = r2" by (auto simp: RunHealthLoop_tick_def)
    have ok1: "memory_ok env ttl (fo_memory ?f)" using e1(1) by simp
    note e2 = flush_eff [OF f2 ok1 e1(2)]
    have "remembers env pw pu c f' r'" if "remembers env pw pu c f r" "in_time now ttl c" for c
    proof -
      from that(1) have m: "in_memory env pw pu c (fo_memory f)" by (simp add: remembers_def)
      from e1(5) [OF m that(2)] e2(5) [of pw pu c] that(2) have "in_memory env pw pu c (fo_memory f2)" by simp
      moreover from e1(7) [OF None conn keys m that(2)] e2(6) that(2) have "in_redis env pw pu c r2" by blast
      ultimately show ?thesis by (simp add: remembers_def r')
    qed
    with e1(6) e2(1,2,6) show ?thesis unfolding r' by blast
  qed
qed

section \<open>The steps\<close>

lemma in_memory_live:
  assumes "memory_ok env ttl m" "ms_revoked m (userRevokedKey env ws u) = Some x" "c \<le> mr_cutoff x" "in_time now ttl c"
  shows "now < mr_expires x"
proof -
  from assms(1,2) have "record_ok ttl x" unfolding memory_ok_def by blast
  with in_time_mono [OF assms(4,3)] show ?thesis by (simp add: record_ok_def in_time_def second_def)
qed

lemma mem_RevokeUser_eff:
  assumes "memory_ok env ttl m" "whole_seconds ttl" "int64_range (unix_seconds now)"
  shows "memory_ok env ttl (mem_RevokeUser env now ws u now ttl m)"
    and "in_memory env ws' u' c m \<Longrightarrow> in_memory env ws' u' c (mem_RevokeUser env now ws u now ttl m)"
    and "in_memory env ws u (unix_seconds now) (mem_RevokeUser env now ws u now ttl m)"
proof -
  have "revoke_ttl ttl = ttl" using assms(2) by (auto simp: whole_seconds_def revoke_ttl_def second_def)
  moreover have "unix_seconds now * second \<le> now" by (simp add: unix_seconds_def second_def)
  ultimately show "memory_ok env ttl (mem_RevokeUser env now ws u now ttl m)"
    using assms(1,3) by (auto simp: mem_RevokeUser_def Let_def memory_ok_def record_ok_def)
  show "in_memory env ws' u' c m \<Longrightarrow> in_memory env ws' u' c (mem_RevokeUser env now ws u now ttl m)"
    by (auto simp: mem_RevokeUser_def Let_def in_memory_def)
  show "in_memory env ws u (unix_seconds now) (mem_RevokeUser env now ws u now ttl m)"
    by (auto simp: mem_RevokeUser_def Let_def in_memory_def split: option.splits)
qed

lemma revoke_tightens:
  assumes call: "fo_RevokeUser env flt now ws u now ttl f r = (res, f', r')"
    and ok: "memory_ok env ttl (fo_memory f)" "redis_ok env ttl r" and ttl: "whole_seconds ttl" "int64_range (unix_seconds now)"
  shows "tightens env ttl pw pu now f r f' r'" and "\<not> fo_healthy f' \<Longrightarrow> remembers env ws u (unix_seconds now) f' r'"
proof -
  have "revoke_ttl ttl = ttl" "ttl div second * second = ttl" "1 \<le> ttl div second" using ttl(1)
    by (auto simp: whole_seconds_def revoke_ttl_def second_def)
  then have exp: "unix_seconds now * second + ttl - second < now + (if revoke_ttl ttl div second < 1 then 1 else revoke_ttl ttl div second) * second"
    by (simp add: unix_seconds_def second_def)
  note mem = mem_RevokeUser_eff [OF ok(1) ttl]
  note rd = redis_RevokeUser_eff [OF ok(2) ttl(2) exp, of flt ws u]
  have "tightens env ttl pw pu now f r f' r' \<and> (\<not> fo_healthy f' \<longrightarrow> remembers env ws u (unix_seconds now) f' r')"
    using call unfolding fo_RevokeUser_def
  proof (cases rule: failing_over_cases)
    case primary
    obtain e where e: "redis_RevokeUser env flt now ws u now ttl r = (e, r')"
      using primary(3) by (cases "redis_RevokeUser env flt now ws u now ttl r") simp
    with primary(1,2) ok(1) rd(1,2) [OF e] show ?thesis by (auto simp: tightens_def remembers_def)
  next
    case (fallen err)
    from fallen(2) obtain e where e: "redis_RevokeUser env flt now ws u now ttl r = (e, r')"
      by (cases "redis_RevokeUser env flt now ws u now ttl r") (auto simp: unit_result_def split: option.splits)
    have "fo_memory f' = mem_RevokeUser env now ws u now ttl (fo_memory f)" using fallen(5) by simp
    with fallen(4) mem rd(1,2) [OF e] show ?thesis by (auto simp: tightens_def remembers_def)
  next
    case fallback
    have "fo_memory f' = mem_RevokeUser env now ws u now ttl (fo_memory f)" using fallback(4) by simp
    with fallback(2,3) mem ok(2) show ?thesis by (auto simp: tightens_def remembers_def)
  qed
  then show "tightens env ttl pw pu now f r f' r'" and "\<not> fo_healthy f' \<Longrightarrow> remembers env ws u (unix_seconds now) f' r'" by blast+
qed

lemma mem_IsRevoked_eff:
  assumes "memory_ok env ttl m"
  shows "memory_ok env ttl (snd (mem_IsRevoked env now ws u iat m))"
    and "in_memory env ws' u' c m \<Longrightarrow> in_time now ttl c \<Longrightarrow> in_memory env ws' u' c (snd (mem_IsRevoked env now ws u iat m))"
    and "in_memory env ws u c m \<Longrightarrow> in_time now ttl c \<Longrightarrow> unix_seconds iat \<le> c \<Longrightarrow> fst (mem_IsRevoked env now ws u iat m)"
proof -
  show "memory_ok env ttl (snd (mem_IsRevoked env now ws u iat m))"
    using assms by (auto simp: mem_IsRevoked_def Let_def memory_ok_def split: option.split)
  show "in_memory env ws' u' c (snd (mem_IsRevoked env now ws u iat m))" if "in_memory env ws' u' c m" "in_time now ttl c"
    using that in_memory_live [OF assms _ _ that(2), of ws' u'] by (auto simp: mem_IsRevoked_def Let_def in_memory_def split: option.split)
  show "fst (mem_IsRevoked env now ws u iat m)" if c: "in_memory env ws u c m" "in_time now ttl c" "unix_seconds iat \<le> c"
    using c(1,3) in_memory_live [OF assms _ _ c(2), of ws u] by (auto simp: mem_IsRevoked_def Let_def in_memory_def)
qed

lemma is_revoked_tightens:
  assumes call: "fo_IsRevoked env flt now ws u iat f r = (res, f', r')"
    and ok: "memory_ok env ttl (fo_memory f)" "redis_ok env ttl r"
  shows "tightens env ttl pw pu now f r f' r'"
  using call unfolding fo_IsRevoked_def
proof (cases rule: failing_over_cases)
  case primary
  with ok show ?thesis by (auto simp: tightens_def)
next
  case (fallen e)
  then have "fo_memory f' = snd (mem_IsRevoked env now ws u iat (fo_memory f))" "r' = r" by (auto simp: case_prod_beta)
  with fallen(4) mem_IsRevoked_eff(1,2) [OF ok(1)] ok(2) show ?thesis by (auto simp: tightens_def remembers_def)
next
  case fallback
  then have "fo_memory f' = snd (mem_IsRevoked env now ws u iat (fo_memory f))" by (auto simp: case_prod_beta)
  with fallback(2,3) mem_IsRevoked_eff(1,2) [OF ok(1)] ok(2) show ?thesis by (auto simp: tightens_def remembers_def)
qed

lemma frame_tightens:
  assumes "no_revocation_change env now f r f' r'" "memory_ok env ttl (fo_memory f)" "redis_ok env ttl r"
  shows "tightens env ttl pw pu now f r f' r'"
  using assms redis_ok_same_key [OF assms(3)] in_redis_same_key [OF assms(3)]
  unfolding no_revocation_change_def tightens_def remembers_def in_memory_def memory_ok_def by metis

lemma reap_tightens:
  assumes "memory_ok env ttl (fo_memory f)" "redis_ok env ttl r"
  shows "tightens env ttl pw pu now f r (f\<lparr>fo_memory := reap now (fo_memory f)\<rparr>) r"
proof -
  have "memory_ok env ttl (reap now (fo_memory f))" using assms(1) by (auto simp: memory_ok_def reap_def split: option.splits if_splits)
  moreover have "in_memory env ws u c (reap now (fo_memory f))" if "in_memory env ws u c (fo_memory f)" "in_time now ttl c" for ws u c
    using that(1) in_memory_live [OF assms(1) _ _ that(2)] by (auto simp: in_memory_def reap_def)
  ultimately show ?thesis using assms(2) by (auto simp: tightens_def remembers_def)
qed

end

end
