(* ===== verification/Session_Properties.thy ===== *)
theory Session_Properties
  imports Session_Failover
begin

text \<open>
  What the session stores promise: the two stores refine one specification, and answer alike but for the
  revocation of a session that has expired; a revocation taken during an outage is not forgotten, unless the
  replay of it fails for another reason than lost connectivity, a deadline for instance.
\<close>

section \<open>Example values\<close>

text \<open>Identifiers as decimal numbers, a hash that marks its argument, no address parses.\<close>

definition sx_env :: session_env where
  "sx_env = \<lparr>se_uuid = show_nat, se_parse_uuid = (\<lambda>s. parse_digits 0 s), se_sha256 = (\<lambda>s. CHR ''#'' # s),
     se_ParseIP = (\<lambda>_. None), se_ip_string = (\<lambda>_. [])\<rparr>"



section \<open>One specification, two stores\<close>





text \<open>The exception: the stores differ on a session that has expired.\<close>

lemma expired_session_deleted_in_memory_only:
  "fst (store_run (mem_step sx_env) [(0, OpCreate rec second), (second, OpRevokeForUser 7 1 ''s1'')] NewMemoryStore) = [Done, Deleted True]
   \<and> fst (store_run (redis_step sx_env) [(0, OpCreate rec second), (second, OpRevokeForUser 7 1 ''s1'')] Map.empty) = [Done, Deleted False]"
  if "rec = \<lparr>sr_id = ''s1'', sr_user = 1, sr_ws = 7, sr_agent = ''a'', sr_ip = ''ip'', sr_device = [], sr_created = 0, sr_seen = 0\<rparr>"
  unfolding that by code_simp




section \<open>Revocations across an outage\<close>




text \<open>The first replica loses Redis while revoking user 1, recovers, and is asked about an old token.\<close>

definition sx_down :: redis_faults where
  "sx_down = (\<lambda>_. Some (FailNet, False))"


definition sx_revoked :: "failover \<times> redis_store" where
  "sx_revoked = snd (fo_RevokeUser sx_env sx_down 0 7 1 0 (100 * second) NewFailoverStore Map.empty)"



section \<open>A replay that runs out of time\<close>

text \<open>A deadline is not taken for a lost connection.\<close>

lemma flush_loop_timed_out:
  assumes "\<And>i. flt i ''redis revoke user'' = Some (FailDeadline, False)"
  shows "flush_loop env flt now i xs r = (None, r)"
  by (induction xs arbitrary: i) (simp_all add: assms redis_RevokeUser_def redis_tx_def isUnavailable_def)

lemma flush_timed_out:
  assumes "\<And>i. flt i ''redis revoke user'' = Some (FailDeadline, False)"
  shows "flushRevocations env flt keys now f r = (None, f\<lparr>fo_memory := snd (snapshotRevocations keys now (fo_memory f))\<rparr>, r)"
  by (simp add: flushRevocations_def flush_loop_timed_out [of flt, OF assms] case_prod_beta)

text \<open>The ping succeeds and then the replay exceeds its deadline, the one context of the whole
  replay, so that no revocation reaches Redis.  The replica resumes with Redis all the same, and a token
  it had refused is good again.\<close>

theorem timed_out_flush_forgets_revocation:
  assumes "\<not> fo_healthy f" "fst (fo_IsRevoked env redis_up now ws u iat f r) = Inr True"
    and "purge now r (userRevokedKey env ws u) = None" "ht_ping ht"
    and "\<And>i. ht_faults ht i ''redis revoke user'' = Some (FailDeadline, False)"
    and "\<And>i. ht_faults' ht i ''redis revoke user'' = Some (FailDeadline, False)"
    and "RunHealthLoop_tick env ht now f r = (f', r')"
  shows "fo_healthy f' \<and> r' = r \<and> fst (fo_IsRevoked env redis_up now ws u iat f' r') = Inr False"
proof -
  have "fo_healthy f'" "r' = r" using assms(1,4,7)
    by (auto simp: RunHealthLoop_tick_def flush_timed_out [of "ht_faults ht", OF assms(5)] flush_timed_out [of "ht_faults' ht", OF assms(6)])
  with assms(3) show ?thesis by (simp add: fo_IsRevoked_def failing_over_def redis_IsRevoked_def redis_up_def)
qed

definition sx_slow_tick :: health_tick where
  "sx_slow_tick = \<lparr>ht_ping = True, ht_faults = (\<lambda>_ _. Some (FailDeadline, False)), ht_faults' = (\<lambda>_ _. Some (FailDeadline, False)),
     ht_keys = [userRevokedKey sx_env 7 1], ht_keys' = [userRevokedKey sx_env 7 1]\<rparr>"

theorem timed_out_flush_forgets_revocation_witness:
  "fst (fo_IsRevoked sx_env redis_up 0 7 1 0 (fst sx_revoked) (snd sx_revoked)) = Inr True
   \<and> fst (fo_IsRevoked sx_env redis_up 0 7 1 0 (fst (RunHealthLoop_tick sx_env sx_slow_tick 0 (fst sx_revoked) (snd sx_revoked)))
       (snd (RunHealthLoop_tick sx_env sx_slow_tick 0 (fst sx_revoked) (snd sx_revoked)))) = Inr False"
proof -
  have revoked: "fst (fo_IsRevoked sx_env redis_up 0 7 1 0 (fst sx_revoked) (snd sx_revoked)) = Inr True" by code_simp
  have down: "\<not> fo_healthy (fst sx_revoked)" by code_simp
  have gone: "purge 0 (snd sx_revoked) (userRevokedKey sx_env 7 1) = None" by code_simp
  obtain f r where tick: "RunHealthLoop_tick sx_env sx_slow_tick 0 (fst sx_revoked) (snd sx_revoked) = (f, r)"
    by (cases "RunHealthLoop_tick sx_env sx_slow_tick 0 (fst sx_revoked) (snd sx_revoked)")
  have "fst (fo_IsRevoked sx_env redis_up 0 7 1 0 f r) = Inr False"
    using timed_out_flush_forgets_revocation [OF down revoked gone _ _ _ tick] by (auto simp: sx_slow_tick_def)
  with revoked tick show ?thesis by simp
qed

end
