(* ===== verification/Documents.thy ===== *)
theory Documents
  imports Folders
begin

text \<open>
  Collaborative documents (\<^verbatim>\<open>internal/document\<close>): a document lives in a folder, its content is a
  snapshot and a log of updates above the snapshot's floor, and compaction folds the log into the
  snapshot.  The folds are those of \<^verbatim>\<open>internal/collab\<close>.
\<close>

section \<open>Modes and capabilities\<close>

definition CollabModeMarkdown :: string where "CollabModeMarkdown = ''markdown''"
definition CollabModeRich :: string where "CollabModeRich = ''rich''"
definition CollabModeRichPresence :: string where "CollabModeRichPresence = ''rich_presence''"
definition CollabModeDisabled :: string where "CollabModeDisabled = ''disabled''"

definition allCollabModes :: "string list" where
  "allCollabModes = [CollabModeMarkdown, CollabModeRich, CollabModeRichPresence, CollabModeDisabled]"

definition IsValidCollabMode :: "string \<Rightarrow> bool" where
  "IsValidCollabMode m = (m \<in> set allCollabModes)"

record capability =
  ServerSnapshotAllowed :: bool
  RichExtensionsAllowed :: bool
  PresenceAllowed :: bool

definition ResolveCapability :: "string \<Rightarrow> capability" where
  "ResolveCapability mode =
     (if mode = EncryptionManagedEncrypted
      then \<lparr>ServerSnapshotAllowed = True, RichExtensionsAllowed = True, PresenceAllowed = True\<rparr>
      else \<lparr>ServerSnapshotAllowed = False, RichExtensionsAllowed = False, PresenceAllowed = False\<rparr>)"

definition AllowedCollabModesFor :: "string \<Rightarrow> string list" where
  "AllowedCollabModesFor mode =
     (let c = ResolveCapability mode in
      [CollabModeMarkdown]
      @ (if ServerSnapshotAllowed c \<and> RichExtensionsAllowed c then [CollabModeRich] else [])
      @ (if ServerSnapshotAllowed c \<and> RichExtensionsAllowed c \<and> PresenceAllowed c then [CollabModeRichPresence] else []))"

definition IsCollabModeAllowed :: "string \<Rightarrow> string \<Rightarrow> bool" where
  "IsCollabModeAllowed mode collab = (collab \<noteq> CollabModeDisabled \<and> collab \<in> set (AllowedCollabModesFor mode))"

definition DefaultCollabModeFor :: "string \<Rightarrow> string" where
  "DefaultCollabModeFor mode =
     (if AllowedCollabModesFor mode = [] then CollabModeMarkdown else last (AllowedCollabModesFor mode))"

definition CompactionThreshold :: nat where "CompactionThreshold = 64"
definition MaxDeltaPayloadBytes :: int where "MaxDeltaPayloadBytes = 1048576"
definition MaxNameBytes :: nat where "MaxNameBytes = 512"
definition MaxDeltaPageLimit :: int where "MaxDeltaPageLimit = 500"
definition MaxDeltaListLimit :: int where "MaxDeltaListLimit = 1000"
definition MaxDocumentsPerFolder :: nat where "MaxDocumentsPerFolder = 1000"
definition MaxSnapshotTailDeltas :: int where "MaxSnapshotTailDeltas = 640"

definition isValidDocumentName :: "string \<Rightarrow> bool" where
  "isValidDocumentName name = (name \<noteq> [] \<and> length name \<le> MaxNameBytes \<and> \<not> ContainsByte name CHR ''/'')"

section \<open>The tables\<close>

record delta =
  dl_doc :: uuid
  dl_seq :: int
  dl_payload :: string
  dl_author :: uuid
  dl_created_at :: time
  dl_ws :: uuid

record doc_store =
  ds_db :: db
  ds_deltas :: "delta list"

datatype document_error =
    DocErrNotFound
  | DocErrInvalidName
  | DocErrInvalidCollabMode
  | DocErrCollabModeNotAllowed
  | DocErrPayloadTooLarge
  | DocErrEmptyPayload
  | DocErrSnapshotVersionConflict
  | DocErrNotProgressing
  | DocErrFold string
  | DocErrFolder folder_error
  | DocErrDB string

abbreviation docs :: "doc_store \<Rightarrow> document_row list" where
  "docs s \<equiv> documents (ds_db s)"

definition set_docs :: "document_row list \<Rightarrow> doc_store \<Rightarrow> doc_store" where
  "set_docs rows s = s\<lparr>ds_db := (ds_db s)\<lparr>documents := rows\<rparr>\<rparr>"

definition visible_doc :: "uuid \<Rightarrow> uuid \<Rightarrow> document_row \<Rightarrow> bool" where
  "visible_doc ws i r = (d_ws r = ws \<and> d_id r = i \<and> doc_live r)"

text \<open>Rows read without the binary columns have empty ones.\<close>

definition list_item :: "document_row \<Rightarrow> document_row" where
  "list_item r = r\<lparr>d_state := [], d_vector := []\<rparr>"

section \<open>The repository\<close>

definition doc_row_Create :: "faults \<Rightarrow> uuid \<Rightarrow> time \<Rightarrow> document_row \<Rightarrow> doc_store \<Rightarrow> (document_error + document_row) \<times> doc_store" where
  "doc_row_Create flt new now r s =
     (let r = (if d_id r = uuid_Nil then r\<lparr>d_id := new\<rparr> else r);
          r = (if d_collab r = [] then r\<lparr>d_collab := CollabModeMarkdown\<rparr> else r);
          r = r\<lparr>d_floor := 0, d_snapshot := 0, d_created_at := now, d_updated_at := now, d_deleted_at := None\<rparr>
      in if flt ''insert document'' \<or> d_id r \<in> d_id ` set (docs s) \<or> d_folder r \<notin> f_id ` set (folders (ds_db s))
            \<or> d_name r = [] \<or> \<not> IsValidCollabMode (d_collab r)
         then (Inl (DocErrDB ''insert document''), s)
         else (Inr r, set_docs (docs s @ [r]) s))"

definition doc_row_GetByID :: "faults \<Rightarrow> doc_store \<Rightarrow> uuid \<Rightarrow> uuid \<Rightarrow> document_error + document_row" where
  "doc_row_GetByID flt s ws i =
     (if flt ''get document'' then Inl (DocErrDB ''get document'')
      else case find (visible_doc ws i) (docs s) of None \<Rightarrow> Inl DocErrNotFound | Some r \<Rightarrow> Inr r)"

definition doc_row_GetMetadata :: "faults \<Rightarrow> doc_store \<Rightarrow> uuid \<Rightarrow> uuid \<Rightarrow> document_error + document_row" where
  "doc_row_GetMetadata flt s ws i =
     (if flt ''get document metadata'' then Inl (DocErrDB ''get document metadata'')
      else case find (visible_doc ws i) (docs s) of None \<Rightarrow> Inl DocErrNotFound | Some r \<Rightarrow> Inr (list_item r))"

text \<open>\<^verbatim>\<open>UPDATE ... RETURNING\<close> of one visible document.\<close>

definition update_doc ::
  "faults \<Rightarrow> string \<Rightarrow> bool \<Rightarrow> uuid \<Rightarrow> uuid \<Rightarrow> (document_row \<Rightarrow> document_row) \<Rightarrow> doc_store
     \<Rightarrow> (document_error + document_row) \<times> doc_store" where
  "update_doc flt label violated ws i u s =
     (case find (visible_doc ws i) (docs s) of
        None \<Rightarrow> (Inl (if flt label then DocErrDB label else DocErrNotFound), s)
      | Some r \<Rightarrow>
          if flt label \<or> violated then (Inl (DocErrDB label), s)
          else (Inr (list_item (u r)), set_docs (update_rows (visible_doc ws i) u (docs s)) s))"

definition UpdateName ::
  "faults \<Rightarrow> time \<Rightarrow> uuid \<Rightarrow> uuid \<Rightarrow> string \<Rightarrow> doc_store \<Rightarrow> (document_error + document_row) \<times> doc_store" where
  "UpdateName flt now ws i name s =
     update_doc flt ''update document name'' (name = []) ws i (\<lambda>r. r\<lparr>d_name := name, d_updated_at := now\<rparr>) s"

definition UpdateCollabMode ::
  "faults \<Rightarrow> time \<Rightarrow> uuid \<Rightarrow> uuid \<Rightarrow> string \<Rightarrow> doc_store \<Rightarrow> (document_error + document_row) \<times> doc_store" where
  "UpdateCollabMode flt now ws i mode s =
     update_doc flt ''update collab mode'' (\<not> IsValidCollabMode mode) ws i (\<lambda>r. r\<lparr>d_collab := mode, d_updated_at := now\<rparr>) s"

definition doc_row_SoftDelete :: "faults \<Rightarrow> time \<Rightarrow> uuid \<Rightarrow> uuid \<Rightarrow> doc_store \<Rightarrow> document_error option \<times> doc_store" where
  "doc_row_SoftDelete flt now ws i s =
     (if flt ''soft-delete document'' then (Some (DocErrDB ''soft-delete document''), s)
      else if rows_affected (visible_doc ws i) (docs s) = 0 then (Some DocErrNotFound, s)
      else (None, set_docs (update_rows (visible_doc ws i) (\<lambda>r. r\<lparr>d_deleted_at := Some now, d_updated_at := now\<rparr>) (docs s)) s))"

definition ListByFolder :: "faults \<Rightarrow> doc_store \<Rightarrow> uuid \<Rightarrow> uuid \<Rightarrow> document_error + document_row list" where
  "ListByFolder flt s ws folderID =
     (if flt ''list documents by folder'' then Inl (DocErrDB ''list documents by folder'')
      else Inr (map list_item (take MaxDocumentsPerFolder (sort_key (\<lambda>r. - d_updated_at r)
             (filter (\<lambda>r. d_ws r = ws \<and> d_folder r = folderID \<and> doc_live r) (docs s))))))"

definition ListByFolderSubtree :: "faults \<Rightarrow> doc_store \<Rightarrow> uuid \<Rightarrow> uuid \<Rightarrow> (document_error + document_row list) option" where
  "ListByFolderSubtree flt s ws folderID =
     (if flt ''list documents in folder subtree'' then Some (Inl (DocErrDB ''list documents in folder subtree''))
      else do {
        subtree \<leftarrow> subtree_rows live ws folderID (folders (ds_db s));
        Some (Inr (map list_item (sort_key d_folder (sort_key (\<lambda>r. - d_updated_at r)
          (filter (\<lambda>r. d_ws r = ws \<and> d_folder r \<in> f_id ` set subtree \<and> doc_live r) (docs s))))))
      })"

text \<open>The lock on the document's row makes the transaction of an append atomic among appends and
  compactions of the document.\<close>

definition next_seq :: "uuid \<Rightarrow> delta list \<Rightarrow> int" where
  "next_seq i ds = fold max (map dl_seq (filter (\<lambda>x. dl_doc x = i) ds)) 0 + 1"

text \<open>\<^verbatim>\<open>COALESCE(MAX(seq), 0)\<close> of positive numbers is the fold of the maximum from zero.\<close>

definition repo_AppendDelta ::
  "faults \<Rightarrow> time \<Rightarrow> delta \<Rightarrow> doc_store \<Rightarrow> (document_error + delta) \<times> doc_store" where
  "repo_AppendDelta flt now x s =
     (let ws = dl_ws x; i = dl_doc x in
      if dl_payload x = [] then (Inl DocErrEmptyPayload, s)
      else if MaxDeltaPayloadBytes < int (length (dl_payload x)) then (Inl DocErrPayloadTooLarge, s)
      else if flt ''begin tx'' then (Inl (DocErrDB ''begin tx''), s)
      else if flt ''lock document'' then (Inl (DocErrDB ''lock document''), s)
      else if find (visible_doc ws i) (docs s) = None then (Inl DocErrNotFound, s)
      else if flt ''compute next seq'' then (Inl (DocErrDB ''compute next seq''), s)
      else
        (let x = x\<lparr>dl_seq := next_seq i (ds_deltas s), dl_created_at := now\<rparr>
         in if flt ''insert delta'' then (Inl (DocErrDB ''insert delta''), s)
            else if flt ''bump document updated_at'' then (Inl (DocErrDB ''bump document updated_at''), s)
            else if flt ''commit delta'' then (Inl (DocErrDB ''commit delta''), s)
            else (Inr x, set_docs (update_rows (\<lambda>r. d_ws r = ws \<and> d_id r = i) (\<lambda>r. r\<lparr>d_updated_at := now\<rparr>) (docs s))
                           (s\<lparr>ds_deltas := ds_deltas s @ [x]\<rparr>))))"

definition deltas_after :: "doc_store \<Rightarrow> uuid \<Rightarrow> uuid \<Rightarrow> int \<Rightarrow> delta list" where
  "deltas_after s ws i seq = sort_key dl_seq (filter (\<lambda>x. dl_ws x = ws \<and> dl_doc x = i \<and> seq < dl_seq x) (ds_deltas s))"

definition repo_ListDeltas :: "faults \<Rightarrow> doc_store \<Rightarrow> uuid \<Rightarrow> uuid \<Rightarrow> int \<Rightarrow> int \<Rightarrow> document_error + delta list" where
  "repo_ListDeltas flt s ws i afterSeq limit =
     (let limit = (if limit \<le> 0 then 100 else limit);
          limit = (if MaxDeltaListLimit < limit then MaxDeltaListLimit else limit)
      in if flt ''list deltas'' then Inl (DocErrDB ''list deltas'')
         else Inr (take (nat limit) (deltas_after s ws i afterSeq)))"

definition CountDeltasAfter :: "faults \<Rightarrow> doc_store \<Rightarrow> uuid \<Rightarrow> uuid \<Rightarrow> int \<Rightarrow> document_error + nat" where
  "CountDeltasAfter flt s ws i afterSeq =
     (if flt ''count deltas'' then Inl (DocErrDB ''count deltas'') else Inr (length (deltas_after s ws i afterSeq)))"

text \<open>The statements of the serializable transaction may fail because of a concurrent writer, which
  the code recognises by its code.\<close>

datatype tx_fault = SerializationFailure | OtherFailure

type_synonym tx_faults = "string \<Rightarrow> tx_fault option"

definition conflict_or :: "tx_fault \<Rightarrow> string \<Rightarrow> document_error" where
  "conflict_or f label = (if f = SerializationFailure then DocErrSnapshotVersionConflict else DocErrDB label)"

text \<open>Byte slices that may be nil are options: a nil slice is SQL's \<^verbatim>\<open>NULL\<close>, which the columns do
  not admit.\<close>

definition ReplaceSnapshot ::
  "tx_faults \<Rightarrow> time \<Rightarrow> uuid \<Rightarrow> uuid \<Rightarrow> string option \<Rightarrow> string option \<Rightarrow> int \<Rightarrow> int \<Rightarrow> doc_store
     \<Rightarrow> (document_error + document_row) \<times> doc_store" where
  "ReplaceSnapshot flt now ws i yState yVector upToSeq expected s =
     (if flt ''begin compaction tx'' \<noteq> None then (Inl (DocErrDB ''begin compaction tx''), s)
      else case flt ''update snapshot'' of
        Some f \<Rightarrow> (Inl (conflict_or f ''update snapshot''), s)
      | None \<Rightarrow>
          (case find (\<lambda>r. visible_doc ws i r \<and> (expected = 0 \<or> d_snapshot r = expected)) (docs s) of
             None \<Rightarrow>
               (if expected \<noteq> 0 \<and> flt ''probe'' = None \<and> find (visible_doc ws i) (docs s) \<noteq> None
                then (Inl DocErrSnapshotVersionConflict, s) else (Inl DocErrNotFound, s))
           | Some r \<Rightarrow>
               (case (yState, yVector) of
                  (Some st, Some vec) \<Rightarrow>
                    (let u = (\<lambda>r. r\<lparr>d_state := st, d_vector := vec, d_floor := max (d_floor r) upToSeq,
                                d_snapshot := d_snapshot r + 1, d_updated_at := now\<rparr>);
                         s' = set_docs (update_rows (\<lambda>r. visible_doc ws i r \<and> (expected = 0 \<or> d_snapshot r = expected)) u (docs s))
                                (s\<lparr>ds_deltas := delete_rows (\<lambda>x. dl_ws x = ws \<and> dl_doc x = i \<and> dl_seq x \<le> upToSeq) (ds_deltas s)\<rparr>)
                     in case flt ''trim folded deltas'' of
                          Some f \<Rightarrow> (Inl (conflict_or f ''trim folded deltas''), s)
                        | None \<Rightarrow>
                            (case flt ''commit compaction'' of
                               Some f \<Rightarrow> (Inl (conflict_or f ''commit compaction''), s)
                             | None \<Rightarrow> (Inr (u r), s')))
                | _ \<Rightarrow> (Inl (DocErrDB ''update snapshot''), s))))"

definition GetSnapshotBundle ::
  "faults \<Rightarrow> doc_store \<Rightarrow> uuid \<Rightarrow> uuid \<Rightarrow> int \<Rightarrow> document_error + document_row \<times> delta list" where
  "GetSnapshotBundle flt s ws i tailLimit =
     (let tailLimit = (if tailLimit \<le> 0 then MaxDeltaPageLimit else tailLimit) in
      if flt ''begin snapshot tx'' then Inl (DocErrDB ''begin snapshot tx'')
      else case doc_row_GetByID flt s ws i of
        Inl e \<Rightarrow> Inl e
      | Inr r \<Rightarrow>
          if flt ''list snapshot tail'' then Inl (DocErrDB ''list snapshot tail'')
          else if flt ''commit snapshot tx'' then Inl (DocErrDB ''commit snapshot tx'')
          else Inr (r, take (nat tailLimit) (deltas_after s ws i (d_floor r))))"

section \<open>The service\<close>

definition doc_Create ::
  "faults \<Rightarrow> uuid \<Rightarrow> time \<Rightarrow> uuid \<Rightarrow> uuid \<Rightarrow> string \<Rightarrow> string \<Rightarrow> uuid \<Rightarrow> doc_store
     \<Rightarrow> (document_error + document_row \<times> folder) \<times> doc_store" where
  "doc_Create flt new now ws folderID name collab by s =
     (let name = TrimSpace name in
      if \<not> isValidDocumentName name then (Inl DocErrInvalidName, s)
      else case folder_GetByID flt ''get folder'' (ds_db s) ws folderID of
        Inl e \<Rightarrow> (Inl (DocErrFolder e), s)
      | Inr parent \<Rightarrow>
          if collab \<noteq> [] \<and> \<not> IsValidCollabMode collab then (Inl DocErrInvalidCollabMode, s)
          else if collab \<noteq> [] \<and> \<not> IsCollabModeAllowed (f_mode parent) collab then (Inl DocErrCollabModeNotAllowed, s)
          else (case doc_row_Create flt new now
                  \<lparr>d_id = uuid_Nil, d_ws = ws, d_folder = folderID, d_name = name,
                   d_collab = (if collab = [] then DefaultCollabModeFor (f_mode parent) else collab), d_state = [], d_vector = [],
                   d_floor = 0, d_snapshot = 0, d_created_by = by, d_created_at = 0, d_updated_at = 0, d_deleted_at = None\<rparr> s of
             (Inl e, s') \<Rightarrow> (Inl e, s')
           | (Inr r, s') \<Rightarrow> (Inr (r, parent), s')))"

text \<open>A document with its folder.  \<open>read\<close> is the repository's lookup with or without the content.\<close>

definition doc_with_folder ::
  "(faults \<Rightarrow> doc_store \<Rightarrow> uuid \<Rightarrow> uuid \<Rightarrow> document_error + document_row) \<Rightarrow> faults \<Rightarrow> doc_store \<Rightarrow> uuid \<Rightarrow> uuid
     \<Rightarrow> document_error + document_row \<times> folder" where
  "doc_with_folder read flt s ws i =
     (case read flt s ws i of
        Inl e \<Rightarrow> Inl e
      | Inr r \<Rightarrow>
          (case folder_GetByID flt ''lookup document folder'' (ds_db s) ws (d_folder r) of
             Inl e \<Rightarrow> Inl (DocErrFolder e)
           | Inr parent \<Rightarrow> Inr (r, parent)))"

definition doc_GetByID :: "faults \<Rightarrow> doc_store \<Rightarrow> uuid \<Rightarrow> uuid \<Rightarrow> document_error + document_row \<times> folder" where
  "doc_GetByID = doc_with_folder doc_row_GetByID"

definition doc_GetMetadata :: "faults \<Rightarrow> doc_store \<Rightarrow> uuid \<Rightarrow> uuid \<Rightarrow> document_error + document_row \<times> folder" where
  "doc_GetMetadata = doc_with_folder doc_row_GetMetadata"

definition doc_Rename ::
  "faults \<Rightarrow> time \<Rightarrow> uuid \<Rightarrow> uuid \<Rightarrow> string \<Rightarrow> doc_store \<Rightarrow> (document_error + document_row) \<times> doc_store" where
  "doc_Rename flt now ws i name s =
     (let name = TrimSpace name in
      if \<not> isValidDocumentName name then (Inl DocErrInvalidName, s) else UpdateName flt now ws i name s)"

definition collab_mode_check :: "faults \<Rightarrow> uuid \<Rightarrow> uuid \<Rightarrow> string \<Rightarrow> doc_store \<Rightarrow> document_error option" where
  "collab_mode_check flt ws i mode s =
     (if \<not> IsValidCollabMode mode then Some DocErrInvalidCollabMode
      else if mode = CollabModeDisabled then Some DocErrInvalidCollabMode
      else case doc_row_GetMetadata flt s ws i of
        Inl e \<Rightarrow> Some e
      | Inr r \<Rightarrow>
          (case folder_GetByID flt ''lookup folder for collab mode change'' (ds_db s) ws (d_folder r) of
             Inl e \<Rightarrow> Some (DocErrFolder e)
           | Inr parent \<Rightarrow> if \<not> IsCollabModeAllowed (f_mode parent) mode then Some DocErrCollabModeNotAllowed else None))"

text \<open>Between its check and its update other requests may change the store: \<open>others\<close>.\<close>

definition SetCollabMode ::
  "faults \<Rightarrow> (doc_store \<Rightarrow> doc_store) \<Rightarrow> time \<Rightarrow> uuid \<Rightarrow> uuid \<Rightarrow> string \<Rightarrow> doc_store
     \<Rightarrow> (document_error + document_row) \<times> doc_store" where
  "SetCollabMode flt others now ws i mode s =
     (case collab_mode_check flt ws i mode s of
        Some e \<Rightarrow> (Inl e, s)
      | None \<Rightarrow> UpdateCollabMode flt now ws i mode (others s))"

definition doc_Delete :: "faults \<Rightarrow> time \<Rightarrow> uuid \<Rightarrow> uuid \<Rightarrow> doc_store \<Rightarrow> document_error option \<times> doc_store" where
  "doc_Delete flt now ws i s = doc_row_SoftDelete flt now ws i s"

record append_result =
  ar_delta :: delta
  ar_due :: bool
  ar_count :: nat

definition doc_AppendDelta ::
  "faults \<Rightarrow> (doc_store \<Rightarrow> doc_store) \<Rightarrow> (doc_store \<Rightarrow> doc_store) \<Rightarrow> time \<Rightarrow> uuid \<Rightarrow> uuid \<Rightarrow> string \<Rightarrow> uuid \<Rightarrow> doc_store
     \<Rightarrow> (document_error + append_result) \<times> doc_store" where
  "doc_AppendDelta flt others others' now ws i payload author s =
     (if payload = [] then (Inl DocErrEmptyPayload, s)
      else if MaxDeltaPayloadBytes < int (length payload) then (Inl DocErrPayloadTooLarge, s)
      else case doc_row_GetMetadata flt s ws i of
        Inl e \<Rightarrow> (Inl e, s)
      | Inr r \<Rightarrow>
          if d_collab r = CollabModeDisabled then (Inl DocErrCollabModeNotAllowed, s)
          else (case repo_AppendDelta flt now
                  \<lparr>dl_doc = i, dl_seq = 0, dl_payload = payload, dl_author = author, dl_created_at = 0, dl_ws = ws\<rparr> (others s) of
             (Inl e, s') \<Rightarrow> (Inl e, s')
           | (Inr x, s') \<Rightarrow>
               (case CountDeltasAfter flt (others' s') ws i (d_floor r) of
                  Inl _ \<Rightarrow> (Inr \<lparr>ar_delta = x, ar_due = False, ar_count = 0\<rparr>, others' s')
                | Inr n \<Rightarrow> (Inr \<lparr>ar_delta = x, ar_due = (CompactionThreshold \<le> n), ar_count = n\<rparr>, others' s'))))"

record snapshot_result =
  sn_document :: document_row
  sn_folder :: folder
  sn_capability :: capability
  sn_tail :: "delta list"

definition Snapshot :: "faults \<Rightarrow> doc_store \<Rightarrow> uuid \<Rightarrow> uuid \<Rightarrow> document_error + snapshot_result" where
  "Snapshot flt s ws i =
     (case GetSnapshotBundle flt s ws i MaxSnapshotTailDeltas of
        Inl e \<Rightarrow> Inl e
      | Inr (r, tail) \<Rightarrow>
          (case folder_GetByID flt ''lookup folder for snapshot'' (ds_db s) ws (d_folder r) of
             Inl e \<Rightarrow> Inl (DocErrFolder e)
           | Inr parent \<Rightarrow> Inr \<lparr>sn_document = r, sn_folder = parent, sn_capability = ResolveCapability (f_mode parent), sn_tail = tail\<rparr>))"

text \<open>A fold gives the new state, the new state vector and the number of the last folded update.\<close>

type_synonym fold_func = "string \<Rightarrow> string \<Rightarrow> delta list \<Rightarrow> string + string option \<times> string option \<times> int"

text \<open>What a compaction decides from its read: it is over, or there is a snapshot to write.\<close>

definition compact_fold ::
  "fold_func \<Rightarrow> document_row \<Rightarrow> delta list \<Rightarrow> (document_error + document_row) + (string option \<times> string option \<times> int)" where
  "compact_fold foldf r tail =
     (if tail = [] then Inl (Inr r)
      else case foldf (d_state r) (d_vector r) tail of
        Inl e \<Rightarrow> Inl (Inl (DocErrFold e))
      | Inr (st, vec, upToSeq) \<Rightarrow> if upToSeq \<le> d_floor r then Inl (Inl DocErrNotProgressing) else Inr (st, vec, upToSeq))"

definition Compact ::
  "faults \<Rightarrow> tx_faults \<Rightarrow> (doc_store \<Rightarrow> doc_store) \<Rightarrow> fold_func \<Rightarrow> time \<Rightarrow> uuid \<Rightarrow> uuid \<Rightarrow> doc_store
     \<Rightarrow> (document_error + document_row) \<times> doc_store" where
  "Compact flt tx others foldf now ws i s =
     (case GetSnapshotBundle flt s ws i MaxSnapshotTailDeltas of
        Inl e \<Rightarrow> (Inl e, s)
      | Inr (r, tail) \<Rightarrow>
          (case compact_fold foldf r tail of
             Inl res \<Rightarrow> (res, s)
           | Inr (st, vec, upToSeq) \<Rightarrow> ReplaceSnapshot tx now ws i st vec upToSeq (d_snapshot r) (others s)))"

section \<open>Folds\<close>

text \<open>A length as four bytes, the high one first; \<^verbatim>\<open>uint32\<close> of a longer length wraps around.\<close>

definition PutUint32 :: "nat \<Rightarrow> string" where
  "PutUint32 n = map (\<lambda>k. char_of (n div 256 ^ k mod 256)) [3, 2, 1, 0]"

definition LengthPrefix :: "string \<Rightarrow> string" where
  "LengthPrefix b = PutUint32 (length b mod 2 ^ 32) @ b"

definition OpaqueConcatFold :: fold_func where
  "OpaqueConcatFold st vec tail =
     (if tail = [] then Inl ''OpaqueConcatFold called with empty tail''
      else Inr (Some (LengthPrefix st @ concat (map (\<lambda>x. LengthPrefix (dl_payload x)) tail)), None, dl_seq (last tail)))"

text \<open>The merge of updates and the state vector of an update are computed by a WebAssembly module.\<close>

record yjs_runtime =
  MergeUpdates :: "string list \<Rightarrow> string + string"
  EncodeStateVector :: "string \<Rightarrow> string + string"

definition YjsMergeFold :: "yjs_runtime \<Rightarrow> fold_func" where
  "YjsMergeFold rt st vec tail =
     (if tail = [] then Inl ''YjsMergeFold called with empty tail''
      else case MergeUpdates rt ((if st \<noteq> [] then [st] else []) @ map dl_payload tail) of
        Inl e \<Rightarrow> Inl e
      | Inr merged \<Rightarrow>
          Inr (Some merged, (case EncodeStateVector rt merged of Inl _ \<Rightarrow> None | Inr sv \<Rightarrow> Some sv), dl_seq (last tail)))"

definition FoldFor :: "bool \<Rightarrow> yjs_runtime option \<Rightarrow> fold_func option" where
  "FoldFor serverSnapshotAllowed rt =
     (if \<not> serverSnapshotAllowed then None
      else case rt of Some r \<Rightarrow> Some (YjsMergeFold r) | None \<Rightarrow> Some OpaqueConcatFold)"

text \<open>What the server does when a compaction is due: it looks the document up again, chooses the fold
  and drops every error.\<close>

definition scheduled_compaction ::
  "faults \<Rightarrow> tx_faults \<Rightarrow> (doc_store \<Rightarrow> doc_store) \<Rightarrow> yjs_runtime option \<Rightarrow> time \<Rightarrow> uuid \<Rightarrow> uuid \<Rightarrow> doc_store \<Rightarrow> doc_store" where
  "scheduled_compaction flt tx others rt now ws i s =
     (case doc_GetMetadata flt s ws i of
        Inl _ \<Rightarrow> s
      | Inr (r, parent) \<Rightarrow>
          (case FoldFor (ServerSnapshotAllowed (ResolveCapability (f_mode parent))) rt of
             None \<Rightarrow> s
           | Some foldf \<Rightarrow> snd (Compact flt tx others foldf now ws i s)))"

end
