(* ===== verification/Document_Content.thy ===== *)
theory Document_Content
  imports Documents Folder_Properties
begin

text \<open>
  Documents under concurrency: appends, compactions whose read and write are separate transactions,
  and every other request, as a step relation; the invariant that relates what a compaction has read
  to what it will overwrite; and what a compaction and an append do to the content of a document.
\<close>

section \<open>The system\<close>

record doc_system =
  dy_store :: doc_store
  dy_compacting :: "(document_row \<times> delta list) list"  \<comment> \<open>what running compactions have read\<close>
  dy_checked :: "(uuid \<times> uuid \<times> string) list"  \<comment> \<open>mode changes that passed their check\<close>

definition doc_start :: doc_system where
  "doc_start = \<lparr>dy_store = \<lparr>ds_db = empty_db, ds_deltas = []\<rparr>, dy_compacting = [], dy_checked = []\<rparr>"

abbreviation put_store :: "doc_store \<Rightarrow> doc_system \<Rightarrow> doc_system" where
  "put_store s y \<equiv> y\<lparr>dy_store := s\<rparr>"

inductive doc_step :: "fold_func \<Rightarrow> doc_system \<Rightarrow> doc_system \<Rightarrow> bool" for foldf where
  append: "repo_AppendDelta flt now x (dy_store y) = (res, s) \<Longrightarrow> doc_step foldf y (put_store s y)"
| begin_compaction: "GetSnapshotBundle flt (dy_store y) ws i MaxSnapshotTailDeltas = Inr c \<Longrightarrow>
    doc_step foldf y (y\<lparr>dy_compacting := c # dy_compacting y\<rparr>)"
| end_compaction: "(r, tail) \<in> set (dy_compacting y) \<Longrightarrow> compact_fold foldf r tail = Inr (st, vec, n) \<Longrightarrow>
    ReplaceSnapshot tx now (d_ws r) (d_id r) st vec n (d_snapshot r) (dy_store y) = (res, s) \<Longrightarrow>
    doc_step foldf y (put_store s (y\<lparr>dy_compacting := remove1 (r, tail) (dy_compacting y)\<rparr>))"
| create_doc: "doc_Create flt new now ws fid name m by (dy_store y) = (res', s) \<Longrightarrow> doc_step foldf y (put_store s y)"
| rename_doc: "doc_Rename flt now ws i name (dy_store y) = (res, s) \<Longrightarrow> doc_step foldf y (put_store s y)"
| check_mode: "collab_mode_check flt ws i m (dy_store y) = None \<Longrightarrow>
    doc_step foldf y (y\<lparr>dy_checked := (ws, i, m) # dy_checked y\<rparr>)"
| set_mode: "(ws, i, m) \<in> set (dy_checked y) \<Longrightarrow> UpdateCollabMode flt now ws i m (dy_store y) = (res, s) \<Longrightarrow>
    doc_step foldf y (put_store s y)"
| delete_doc: "doc_Delete flt now ws i (dy_store y) = (res'', s) \<Longrightarrow> doc_step foldf y (put_store s y)"
| folder_request: "folder_step (ds_db (dy_store y)) d \<Longrightarrow> doc_step foldf y (put_store ((dy_store y)\<lparr>ds_db := d\<rparr>) y)"

section \<open>What a step keeps of the documents\<close>

text \<open>The part of a row the content depends on.\<close>

definition core :: "document_row \<Rightarrow> uuid \<times> uuid \<times> string \<times> int \<times> int" where
  "core r = (d_ws r, d_folder r, d_state r, d_floor r, d_snapshot r)"

definition doc_row :: "doc_store \<Rightarrow> uuid \<Rightarrow> document_row option" where
  "doc_row s i = find (\<lambda>r. d_id r = i) (docs s)"

definition doc_core :: "doc_store \<Rightarrow> uuid \<Rightarrow> (uuid \<times> uuid \<times> string \<times> int \<times> int) option" where
  "doc_core s i = map_option core (doc_row s i)"

lemma docs_set_docs [simp]:
  "docs (set_docs rows s) = rows" "ds_deltas (set_docs rows s) = ds_deltas s" "folders (ds_db (set_docs rows s)) = folders (ds_db s)"
  by (simp_all add: set_docs_def)

lemma find_key_update_rows:
  assumes "\<And>r. k (u r) = k r"
  shows "find (\<lambda>r. k r = i) (update_rows p u rows) = map_option (\<lambda>r. if p r then u r else r) (find (\<lambda>r. k r = i) rows)"
  using assms by (simp add: update_rows_def find_map_pred if_distrib cong: if_cong)

lemma doc_core_update:
  assumes "docs s' = update_rows p u (docs s)" "\<And>r. d_id (u r) = d_id r" "\<And>r. core (u r) = core r"
  shows "doc_core s' i = doc_core s i" and "map d_id (docs s') = map d_id (docs s)"
proof -
  show "doc_core s' i = doc_core s i"
    using assms by (simp add: doc_core_def doc_row_def find_key_update_rows option.map_comp comp_def if_distrib cong: if_cong)
  show "map d_id (docs s') = map d_id (docs s)" using assms(1,2) by (simp add: update_rows_def)
qed

text \<open>The well-formedness of the tables.\<close>

definition store_ok :: "doc_store \<Rightarrow> bool" where
  "store_ok s =
     (distinct (map d_id (docs s))
      \<and> distinct (map (\<lambda>x. (dl_doc x, dl_seq x)) (ds_deltas s))
      \<and> (\<forall>x \<in> set (ds_deltas s). 0 < dl_seq x \<and> (\<exists>c. doc_core s (dl_doc x) = Some c \<and> fst c = dl_ws x)))"

text \<open>A request that touches neither the content of a document nor its log.\<close>

definition same_content :: "doc_store \<Rightarrow> doc_store \<Rightarrow> bool" where
  "same_content s s' =
     ((\<forall>i. doc_core s i \<noteq> None \<longrightarrow> doc_core s' i = doc_core s i)
      \<and> ds_deltas s' = ds_deltas s
      \<and> (distinct (map d_id (docs s)) \<longrightarrow> distinct (map d_id (docs s'))))"

lemma same_content_refl [simp]: "same_content s s"
  by (simp add: same_content_def)

lemma same_content_update:
  assumes "docs s' = update_rows p u (docs s)" "ds_deltas s' = ds_deltas s"
    and "\<And>r. d_id (u r) = d_id r" "\<And>r. core (u r) = core r"
  shows "same_content s s'"
  using doc_core_update [OF assms(1,3,4)] assms(2) by (simp add: same_content_def)

lemma same_content_ok: "same_content s s' \<Longrightarrow> store_ok s \<Longrightarrow> store_ok s'"
  unfolding same_content_def store_ok_def by (metis option.distinct(1))

lemma allowed_mode_nonempty: "IsCollabModeAllowed m c \<Longrightarrow> c \<noteq> []"
  by (auto simp: IsCollabModeAllowed_def AllowedCollabModesFor_def Let_def CollabModeMarkdown_def CollabModeRich_def
      CollabModeRichPresence_def split: if_splits)

lemma doc_row_Create_shape:
  assumes "doc_row_Create flt new now r s = (res, s')"
  obtains "s' = s"
  | r' where "s' = set_docs (docs s @ [r']) s" "d_id r' \<notin> d_id ` set (docs s)" "d_ws r' = d_ws r" "d_folder r' = d_folder r"
      "d_collab r \<noteq> [] \<Longrightarrow> d_collab r' = d_collab r"
proof -
  define r1 where "r1 = (if d_id r = uuid_Nil then r\<lparr>d_id := new\<rparr> else r)"
  define r2 where "r2 = (if d_collab r1 = [] then r1\<lparr>d_collab := CollabModeMarkdown\<rparr> else r1)"
  define r' where "r' = r2\<lparr>d_floor := 0, d_snapshot := 0, d_created_at := now, d_updated_at := now, d_deleted_at := None\<rparr>"
  have "d_id r' = d_id r2" by (simp add: r'_def)
  with assms have "s' = s \<or> s' = set_docs (docs s @ [r']) s \<and> d_id r' \<notin> d_id ` set (docs s)"
    by (auto simp: doc_row_Create_def Let_def r1_def [symmetric] r2_def [symmetric] r'_def [symmetric] split: if_splits)
  moreover have "d_ws r' = d_ws r" "d_folder r' = d_folder r" "d_collab r \<noteq> [] \<Longrightarrow> d_collab r' = d_collab r"
    by (simp_all add: r'_def r2_def r1_def)
  ultimately show thesis using that by blast
qed

lemma doc_Create_shape:
  assumes "doc_Create flt new now ws fid name m by s = (res, s')"
  obtains "s' = s"
  | r parent where "s' = set_docs (docs s @ [r]) s" "d_id r \<notin> d_id ` set (docs s)" "d_ws r = ws" "d_folder r = fid"
      "folder_GetByID flt ''get folder'' (ds_db s) ws fid = Inr parent" "IsCollabModeAllowed (f_mode parent) (d_collab r)"
proof (cases "folder_GetByID flt ''get folder'' (ds_db s) ws fid")
  case (Inl e)
  with assms have "s' = s" by (auto simp: doc_Create_def Let_def split: if_splits)
  then show thesis by (rule that(1))
next
  case (Inr parent)
  let ?m = "if m = [] then DefaultCollabModeFor (f_mode parent) else m"
  let ?r = "\<lparr>d_id = uuid_Nil, d_ws = ws, d_folder = fid, d_name = TrimSpace name, d_collab = ?m, d_state = [], d_vector = [],
      d_floor = 0, d_snapshot = 0, d_created_by = by, d_created_at = 0, d_updated_at = 0, d_deleted_at = None\<rparr>"
  have "s' = s \<or> (\<exists>x. doc_row_Create flt new now ?r s = (x, s')) \<and> (m = [] \<or> IsCollabModeAllowed (f_mode parent) m)"
    using assms Inr by (auto simp: doc_Create_def Let_def split: if_splits sum.splits prod.splits)
  moreover have allowed: "IsCollabModeAllowed (f_mode parent) (DefaultCollabModeFor (f_mode parent))"
    by (simp add: DefaultCollabModeFor_def IsCollabModeAllowed_def AllowedCollabModesFor_def Let_def CollabModeMarkdown_def
        CollabModeRich_def CollabModeRichPresence_def CollabModeDisabled_def)
  ultimately consider "s' = s" | x where "doc_row_Create flt new now ?r s = (x, s')" "IsCollabModeAllowed (f_mode parent) ?m" by fastforce
  then show thesis
  proof cases
    case 1
    then show thesis by (rule that(1))
  next
    case 2
    have m: "?m \<noteq> []" using allowed_mode_nonempty [OF 2(2)] .
    from 2(1) show thesis
    proof (cases rule: doc_row_Create_shape)
      case 1
      then show thesis by (rule that(1))
    next
      case (2 r')
      have "d_collab r' = ?m" using 2(5) m by simp
      with 2(1-4) Inr \<open>IsCollabModeAllowed (f_mode parent) ?m\<close> show thesis by (intro that(2) [of r' parent]) simp_all
    qed
  qed
qed

lemma doc_Create_same: "doc_Create flt new now ws fid name m by s = (res, s') \<Longrightarrow> same_content s s'"
proof (erule doc_Create_shape)
  fix r
  assume "s' = set_docs (docs s @ [r]) s" "d_id r \<notin> d_id ` set (docs s)"
  then show "same_content s s'" by (auto simp: same_content_def doc_core_def doc_row_def find_append split: option.splits)
qed simp

lemma update_doc_same:
  assumes "update_doc flt l v ws i u s = (res, s')" "\<And>r. d_id (u r) = d_id r" "\<And>r. core (u r) = core r"
  shows "same_content s s'"
proof -
  from assms(1) consider "s' = s" | "s' = set_docs (update_rows (visible_doc ws i) u (docs s)) s"
    by (auto simp: update_doc_def split: option.splits if_splits)
  then show ?thesis
  proof cases
    case 1
    then show ?thesis by simp
  next
    case 2
    then show ?thesis using assms(2,3) by (intro same_content_update [of _ "visible_doc ws i" u]) simp_all
  qed
qed

lemma UpdateCollabMode_same: "UpdateCollabMode flt now ws i m s = (res, s') \<Longrightarrow> same_content s s'"
  unfolding UpdateCollabMode_def by (erule update_doc_same) (simp_all add: core_def)

lemma doc_Rename_same: "doc_Rename flt now ws i name s = (res, s') \<Longrightarrow> same_content s s'"
  by (auto simp: doc_Rename_def UpdateName_def Let_def core_def split: if_splits elim!: update_doc_same)

lemma doc_Delete_same: "doc_Delete flt now ws i s = (res, s') \<Longrightarrow> same_content s s'"
  by (auto simp: doc_Delete_def doc_row_SoftDelete_def core_def split: if_splits
      intro: same_content_update [of _ "visible_doc ws i" "\<lambda>r. r\<lparr>d_deleted_at := Some now, d_updated_at := now\<rparr>"])

text \<open>Requests on folders mark documents deleted at most.\<close>

lemma folder_step_documents:
  assumes "folder_step d d'"
  shows "documents d' = documents d \<or>
    (\<exists>p now. documents d' = update_rows p (\<lambda>r. r\<lparr>d_deleted_at := Some now, d_updated_at := now\<rparr>) (documents d))"
  using assms
proof cases
  case (create dm flt new now ws par name m u)
  obtain res x where c: "CreateWithMode dm flt new now ws par name m u d = (res, x)" by (cases "CreateWithMode dm flt new now ws par name m u d")
  show ?thesis
  proof (cases res)
    case (Inl e)
    with c create CreateWithMode_Inl show ?thesis by fastforce
  next
    case (Inr f)
    with c have "CreateWithMode dm flt new now ws par name m u d = (Inr f, x)" by simp
    then have "documents x = documents d" by (rule CreateWithMode_insert) (drule folder_row_Create_Inr(1), simp)
    with c create show ?thesis by simp
  qed
next
  case (rename flt now ws fid n)
  then show ?thesis
    by (auto simp: folder_Rename_def RenameWithDescendants_def Let_def split: sum.splits prod.splits if_splits option.splits)
next
  case (move flt now ws fid par)
  then show ?thesis
    by (auto simp: folder_Move_def MoveWithDescendants_def Let_def split: sum.splits prod.splits if_splits option.splits)
next
  case (delete flt now ws fid res)
  then show ?thesis
    by (auto simp: folder_Delete_def SoftDeleteSubtree_def Let_def bind_Some_iff split: sum.splits prod.splits if_splits option.splits) blast
qed

lemma folder_step_same: "folder_step (ds_db s) d \<Longrightarrow> same_content s (s\<lparr>ds_db := d\<rparr>)"
proof -
  assume "folder_step (ds_db s) d"
  then consider "documents d = docs s"
    | p now where "documents d = update_rows p (\<lambda>r. r\<lparr>d_deleted_at := Some now, d_updated_at := now\<rparr>) (docs s)"
    using folder_step_documents by blast
  then show ?thesis
  proof cases
    case 1
    then show ?thesis by (simp add: same_content_def doc_core_def doc_row_def)
  next
    case 2
    then show ?thesis
      by (intro same_content_update [of _ p "\<lambda>r. r\<lparr>d_deleted_at := Some now, d_updated_at := now\<rparr>"]) (simp_all add: core_def)
  qed
qed

section \<open>Appends\<close>

lemma next_seq_above: "x \<in> set ds \<Longrightarrow> dl_doc x = i \<Longrightarrow> dl_seq x < next_seq i ds"
  using fold_max_ge [where b = 0 and xs = "map dl_seq (filter (\<lambda>x. dl_doc x = i) ds)"] by (auto simp: next_seq_def zless_add1_eq)

lemma next_seq_pos: "0 < next_seq i ds"
  using fold_max_ge [where b = 0 and xs = "map dl_seq (filter (\<lambda>x. dl_doc x = i) ds)"] by (auto simp: next_seq_def)

lemma repo_AppendDelta_shape:
  assumes "repo_AppendDelta flt now x s = (res, s')"
  obtains e where "res = Inl e" "s' = s"
  | x' where "res = Inr x'" "ds_deltas s' = ds_deltas s @ [x']" "x' = x\<lparr>dl_seq := next_seq (dl_doc x) (ds_deltas s), dl_created_at := now\<rparr>"
      "find (visible_doc (dl_ws x) (dl_doc x)) (docs s) \<noteq> None"
      "docs s' = update_rows (\<lambda>r. d_ws r = dl_ws x \<and> d_id r = dl_doc x) (\<lambda>r. r\<lparr>d_updated_at := now\<rparr>) (docs s)"
      "folders (ds_db s') = folders (ds_db s)"
proof (cases res)
  case (Inl e)
  with assms have "s' = s" by (auto simp: repo_AppendDelta_def Let_def split: if_splits)
  with Inl show thesis by (rule that(1))
next
  case (Inr x')
  with assms show thesis by (intro that(2)) (auto simp: repo_AppendDelta_def Let_def split: if_splits)
qed

text \<open>With unique ids, the visible row of an id is the row of the id.\<close>

lemma visible_doc_row:
  assumes "distinct (map d_id (docs s))" "find (visible_doc ws i) (docs s) = Some r"
  shows "doc_row s i = Some r" "d_ws r = ws" "doc_live r" "d_id r = i"
proof -
  from find_SomeD [OF assms(2)] have r: "r \<in> set (docs s)" "d_ws r = ws" "doc_live r" "d_id r = i" by (auto simp: visible_doc_def)
  then show "d_ws r = ws" "doc_live r" "d_id r = i" by simp_all
  show "doc_row s i = Some r"
    unfolding doc_row_def using r assms(1) by (intro find_unique) (auto dest: distinct_map_inj)
qed

lemma append_ok:
  assumes "repo_AppendDelta flt now x s = (res, s')" "store_ok s"
  shows "store_ok s'" "doc_core s' i = doc_core s i"
proof -
  have "store_ok s' \<and> doc_core s' i = doc_core s i"
    using assms(1)
  proof (cases rule: repo_AppendDelta_shape)
    case (2 x')
    have same: "doc_core s' j = doc_core s j" "map d_id (docs s') = map d_id (docs s)" for j
      using doc_core_update [OF 2(5)] by (simp_all add: core_def)
    from assms(2) have dist: "distinct (map d_id (docs s))" by (simp add: store_ok_def)
    from 2(4) obtain r where "find (visible_doc (dl_ws x) (dl_doc x)) (docs s) = Some r" by blast
    from visible_doc_row [OF dist this] have "\<exists>c. doc_core s (dl_doc x) = Some c \<and> fst c = dl_ws x"
      by (simp add: doc_core_def core_def)
    moreover have "(dl_doc x', dl_seq x') \<notin> (\<lambda>x. (dl_doc x, dl_seq x)) ` set (ds_deltas s)"
      using next_seq_above [of _ "ds_deltas s" "dl_doc x"] by (fastforce simp: 2(3))
    ultimately show ?thesis using assms(2) 2(2,3) next_seq_pos by (auto simp: store_ok_def same)
  qed (use assms(2) in simp)
  then show "store_ok s'" "doc_core s' i = doc_core s i" by simp_all
qed

section \<open>Compactions\<close>

lemma set_take_sorted:
  fixes f :: "'a \<Rightarrow> 'k::linorder"
  assumes "sorted (map f xs)" "distinct (map f xs)" "take n xs \<noteq> []"
  shows "set (take n xs) = {x \<in> set xs. f x \<le> f (last (take n xs))}"
proof -
  have xs: "xs = take n xs @ drop n xs" by simp
  obtain ys y where ys: "take n xs = ys @ [y]" using assms(3) by (metis append_butlast_last_id)
  have "sorted (map f (ys @ [y]) @ map f (drop n xs))" "distinct (map f (ys @ [y]) @ map f (drop n xs))"
    using assms(1,2) by (metis append_take_drop_id map_append ys)+
  then have "\<forall>x \<in> set ys. f x \<le> f y" "\<forall>x \<in> set (drop n xs). f y < f x" by (auto simp: sorted_append order.strict_iff_order)
  moreover have "set xs = set ys \<union> {y} \<union> set (drop n xs)" by (subst xs) (simp add: ys)
  ultimately show ?thesis by (auto simp: ys)
qed

text \<open>What a running compaction has read of a document, against the store: as long as the version of the
  snapshot has not changed, the snapshot is the one it read, and its updates are those of the log up
  to its last.\<close>

definition read_ok :: "doc_store \<Rightarrow> document_row \<times> delta list \<Rightarrow> bool" where
  "read_ok s c =
     (case c of (r, tail) \<Rightarrow>
        (\<exists>fd st fl sn. doc_core s (d_id r) = Some (d_ws r, fd, st, fl, sn) \<and> d_snapshot r \<le> sn
           \<and> (sn = d_snapshot r \<longrightarrow> st = d_state r \<and> fl = d_floor r
                \<and> (tail \<noteq> [] \<longrightarrow> set tail = {x \<in> set (ds_deltas s). dl_doc x = d_id r \<and> d_floor r < dl_seq x \<and> dl_seq x \<le> dl_seq (last tail)}))))"

definition system_inv :: "doc_system \<Rightarrow> bool" where
  "system_inv y = (store_ok (dy_store y) \<and> (\<forall>c \<in> set (dy_compacting y). read_ok (dy_store y) c))"

lemma begin_read_ok:
  assumes "GetSnapshotBundle flt s ws i n = Inr (r, tail)" "store_ok s"
  shows "read_ok s (r, tail)"
proof -
  from assms(1) obtain k where r: "find (visible_doc ws i) (docs s) = Some r" and tail: "tail = take k (deltas_after s ws i (d_floor r))"
    by (auto simp: GetSnapshotBundle_def doc_row_GetByID_def Let_def split: if_splits sum.splits option.splits)
  from assms(2) have dist: "distinct (map d_id (docs s))" by (simp add: store_ok_def)
  note row = visible_doc_row [OF dist r]
  let ?log = "deltas_after s ws i (d_floor r)"
  have core: "doc_core s i = Some (core r)" by (simp add: doc_core_def row)
  have log: "set ?log = {x \<in> set (ds_deltas s). dl_doc x = i \<and> d_floor r < dl_seq x}"
    using assms(2) core row(2) by (fastforce simp: deltas_after_def store_ok_def core_def)
  have "distinct (map (\<lambda>x. (dl_doc x, dl_seq x)) (filter (\<lambda>x. dl_ws x = ws \<and> dl_doc x = i \<and> d_floor r < dl_seq x) (ds_deltas s)))"
    using assms(2) unfolding store_ok_def by (blast intro: distinct_map_filter)
  then have "distinct ?log" "inj_on dl_seq (set ?log)" by (auto simp: deltas_after_def distinct_map inj_on_def)
  then have "distinct (map dl_seq ?log)" by (simp add: distinct_map)
  moreover have "sorted (map dl_seq ?log)" by (simp add: deltas_after_def)
  ultimately have "tail \<noteq> [] \<Longrightarrow> set tail = {x \<in> set ?log. dl_seq x \<le> dl_seq (last tail)}"
    unfolding tail using set_take_sorted by blast
  with log row core show ?thesis by (auto simp: read_ok_def core_def)
qed

lemma ReplaceSnapshot_shape:
  assumes "ReplaceSnapshot tx now ws i st vec n expected s = (res, s')" "distinct (map d_id (docs s))"
  obtains e where "res = Inl e" "s' = s"
  | r st' vec' where "st = Some st'" "vec = Some vec'" "doc_row s i = Some r" "d_ws r = ws" "expected = 0 \<or> d_snapshot r = expected"
      "res = Inr (r\<lparr>d_state := st', d_vector := vec', d_floor := max (d_floor r) n, d_snapshot := d_snapshot r + 1, d_updated_at := now\<rparr>)"
      "doc_row s' i = Some (r\<lparr>d_state := st', d_vector := vec', d_floor := max (d_floor r) n, d_snapshot := d_snapshot r + 1, d_updated_at := now\<rparr>)"
      "\<And>j. j \<noteq> i \<Longrightarrow> doc_row s' j = doc_row s j" "map d_id (docs s') = map d_id (docs s)"
      "ds_deltas s' = delete_rows (\<lambda>x. dl_ws x = ws \<and> dl_doc x = i \<and> dl_seq x \<le> n) (ds_deltas s)"
      "folders (ds_db s') = folders (ds_db s)"
proof (cases res)
  case (Inl e)
  with assms have "s' = s"
    by (auto simp: ReplaceSnapshot_def Let_def split: option.splits if_splits prod.splits)
  with Inl show thesis by (rule that(1))
next
  case (Inr r')
  let ?p = "\<lambda>r. visible_doc ws i r \<and> (expected = 0 \<or> d_snapshot r = expected)"
  from assms(1) Inr obtain r st' vec' where r: "find ?p (docs s) = Some r" and st: "st = Some st'" "vec = Some vec'"
    and r': "r' = r\<lparr>d_state := st', d_vector := vec', d_floor := max (d_floor r) n, d_snapshot := d_snapshot r + 1, d_updated_at := now\<rparr>"
    and s': "s' = set_docs (update_rows ?p (\<lambda>r. r\<lparr>d_state := st', d_vector := vec', d_floor := max (d_floor r) n,
        d_snapshot := d_snapshot r + 1, d_updated_at := now\<rparr>) (docs s))
      (s\<lparr>ds_deltas := delete_rows (\<lambda>x. dl_ws x = ws \<and> dl_doc x = i \<and> dl_seq x \<le> n) (ds_deltas s)\<rparr>)"
    by (auto simp: ReplaceSnapshot_def Let_def split: option.splits if_splits prod.splits)
  from find_SomeD [OF r] have in_docs: "r \<in> set (docs s)" and p: "?p r" by auto
  then have id: "d_id r = i" "d_ws r = ws" by (auto simp: visible_doc_def)
  have row: "doc_row s i = Some r" unfolding doc_row_def using in_docs id assms(2) by (intro find_unique) (auto dest: distinct_map_inj)
  have row': "doc_row s' j = map_option (\<lambda>r. if ?p r then r\<lparr>d_state := st', d_vector := vec', d_floor := max (d_floor r) n,
        d_snapshot := d_snapshot r + 1, d_updated_at := now\<rparr> else r) (doc_row s j)" for j
    by (simp add: doc_row_def s' find_key_update_rows)
  have other: "doc_row s' j = doc_row s j" if "j \<noteq> i" for j
    using that unfolding row' by (cases "doc_row s j") (auto simp: doc_row_def visible_doc_def dest!: find_SomeD)
  show thesis
    by (rule that(2) [OF st row id(2) _ _ _ other]) (use p row row' [of i] Inr r' s' in \<open>auto simp: update_rows_def\<close>)
qed

lemma replace_ok:
  assumes "ReplaceSnapshot tx now ws i st vec n expected s = (res, s')" "store_ok s"
  shows "store_ok s'" "read_ok s c \<Longrightarrow> read_ok s' c"
proof -
  from assms(2) have dist: "distinct (map d_id (docs s))" by (simp add: store_ok_def)
  have "store_ok s' \<and> (read_ok s c \<longrightarrow> read_ok s' c)"
    using assms(1) dist
  proof (cases rule: ReplaceSnapshot_shape)
    case (1 e)
    with assms(2) show ?thesis by simp
  next
    case (2 r st' vec')
    have same: "doc_core s' j = doc_core s j" if "j \<noteq> i" for j using 2(8) [OF that] by (simp add: doc_core_def)
    have new: "doc_core s' i = Some (ws, d_folder r, st', max (d_floor r) n, d_snapshot r + 1)"
      using 2(4,7) by (simp add: doc_core_def core_def)
    have old: "doc_core s i = Some (ws, d_folder r, d_state r, d_floor r, d_snapshot r)" using 2(3,4) by (simp add: doc_core_def core_def)
    have log: "set (ds_deltas s') = {x \<in> set (ds_deltas s). \<not> (dl_ws x = ws \<and> dl_doc x = i \<and> dl_seq x \<le> n)}"
      using 2(10) by (simp add: set_delete_rows)
    have "\<exists>c. doc_core s' (dl_doc x) = Some c \<and> fst c = dl_ws x" if "x \<in> set (ds_deltas s')" for x
    proof -
      have "\<exists>c. doc_core s (dl_doc x) = Some c \<and> fst c = dl_ws x" using that log assms(2) by (auto simp: store_ok_def)
      with same new old show ?thesis by (cases "dl_doc x = i") auto
    qed
    moreover have "distinct (map (\<lambda>x. (dl_doc x, dl_seq x)) (ds_deltas s'))"
      using assms(2) unfolding 2(10) delete_rows_def store_ok_def by (blast intro: distinct_map_filter)
    ultimately have "store_ok s'" using assms(2) 2(9) log by (auto simp: store_ok_def)
    moreover have "read_ok s' c" if c: "read_ok s c"
    proof -
      obtain r0 tail where c0: "c = (r0, tail)" by (cases c)
      show ?thesis
      proof (cases "d_id r0 = i")
        case True
        with c new old show ?thesis by (auto simp: read_ok_def c0)
      next
        case False
        then have eq: "{x \<in> set (ds_deltas s'). dl_doc x = d_id r0 \<and> P x} = {x \<in> set (ds_deltas s). dl_doc x = d_id r0 \<and> P x}" for P
          unfolding log by (intro Collect_cong) auto
        show ?thesis using c unfolding read_ok_def c0 prod.case same [OF False] eq [of "\<lambda>x. d_floor r0 < dl_seq x \<and> dl_seq x \<le> dl_seq (last tail)"] .
      qed
    qed
    ultimately show ?thesis by blast
  qed
  then show "store_ok s'" "read_ok s c \<Longrightarrow> read_ok s' c" by blast+
qed

lemma append_read_ok:
  assumes "repo_AppendDelta flt now x s = (res, s')" "store_ok s" "read_ok s c"
  shows "read_ok s' c"
  using assms(1)
proof (cases rule: repo_AppendDelta_shape)
  case (1 e)
  with assms(3) show ?thesis by simp
next
  case (2 x')
  obtain r tail where c: "c = (r, tail)" by (cases c)
  note core = append_ok(2) [OF assms(1,2), of "d_id r"]
  have "\<not> (dl_doc x' = d_id r \<and> dl_seq x' \<le> dl_seq (last tail))"
    if "last tail \<in> set (ds_deltas s)" "dl_doc (last tail) = d_id r"
    using next_seq_above [OF that] by (auto simp: 2(3))
  moreover have "last tail \<in> set tail" if "tail \<noteq> []" using that by simp
  ultimately have log: "set tail = {x \<in> set (ds_deltas s'). dl_doc x = d_id r \<and> d_floor r < dl_seq x \<and> dl_seq x \<le> dl_seq (last tail)}"
    if "tail \<noteq> []" "set tail = {x \<in> set (ds_deltas s). dl_doc x = d_id r \<and> d_floor r < dl_seq x \<and> dl_seq x \<le> dl_seq (last tail)}"
    using that unfolding 2(2) by auto
  show ?thesis using assms(3) log unfolding read_ok_def c prod.case core by blast
qed

lemma same_content_read_ok: "same_content s s' \<Longrightarrow> read_ok s c \<Longrightarrow> read_ok s' c"
  by (auto simp: same_content_def read_ok_def split: prod.splits)

lemma same_content_inv: "same_content (dy_store y) s \<Longrightarrow> system_inv y \<Longrightarrow> system_inv (put_store s y)"
  using same_content_ok same_content_read_ok by (auto simp: system_inv_def)

lemma doc_step_inv: "doc_step foldf y y' \<Longrightarrow> system_inv y \<Longrightarrow> system_inv y'"
proof (induction rule: doc_step.induct)
  case (append flt now x y res s)
  then show ?case using append_ok(1) append_read_ok unfolding system_inv_def by fastforce
next
  case (begin_compaction flt y ws i c)
  then show ?case using begin_read_ok by (cases c) (auto simp: system_inv_def)
next
  case (end_compaction r tail y st vec n tx now res s)
  then have "store_ok (dy_store y)" "\<And>c. c \<in> set (remove1 (r, tail) (dy_compacting y)) \<Longrightarrow> read_ok (dy_store y) c"
    by (auto simp: system_inv_def dest: notin_set_remove1 set_remove1_subset [THEN subsetD])
  with replace_ok [OF end_compaction(3)] show ?case by (simp add: system_inv_def)
next
  case (create_doc flt new now ws fid name m u y res s)
  then show ?case using doc_Create_same same_content_inv by blast
next
  case (rename_doc flt now ws i name y res s)
  then show ?case using doc_Rename_same same_content_inv by blast
next
  case (check_mode flt ws i m y)
  then show ?case by (simp add: system_inv_def)
next
  case (set_mode ws i m y flt now res s)
  then show ?case using UpdateCollabMode_same same_content_inv by blast
next
  case (delete_doc flt now ws i y res s)
  then show ?case using doc_Delete_same same_content_inv by blast
next
  case (folder_request y d)
  then show ?case using folder_step_same same_content_inv by blast
qed

lemma doc_start_inv: "system_inv doc_start"
  by (simp add: system_inv_def doc_start_def store_ok_def empty_db_def)

lemma reachable_inv: "(doc_step foldf)\<^sup>*\<^sup>* doc_start y \<Longrightarrow> system_inv y"
  by (induction rule: rtranclp_induct) (auto intro: doc_start_inv doc_step_inv)

section \<open>The content of a document\<close>

text \<open>\<open>upd\<close> tells which edits an update or a snapshot contains.  The content is what the snapshot and
  the updates above its floor contain together.\<close>

definition content :: "(string \<Rightarrow> 'e set) \<Rightarrow> doc_store \<Rightarrow> uuid \<Rightarrow> 'e set" where
  "content upd s i =
     (case doc_core s i of
        None \<Rightarrow> {}
      | Some (ws, fd, st, fl, sn) \<Rightarrow>
          upd st \<union> (\<Union>x \<in> {x \<in> set (ds_deltas s). dl_doc x = i \<and> fl < dl_seq x}. upd (dl_payload x)))"

lemma same_content_content: "same_content s s' \<Longrightarrow> doc_core s i \<noteq> None \<Longrightarrow> content upd s' i = content upd s i"
  by (auto simp: same_content_def content_def)

text \<open>What compaction relies on of a fold: it covers the updates it was given, up to the last.\<close>

locale fold_contract =
  fixes foldf :: fold_func and upd :: "string \<Rightarrow> 'e set"
  assumes fold_covers: "foldf st vec tail = Inr (Some st', vec', n) \<Longrightarrow>
    n = dl_seq (last tail) \<and> upd st' = upd st \<union> (\<Union>x \<in> set tail. upd (dl_payload x))"
begin

text \<open>The content after the write of a compaction, whatever happened since its read.\<close>

lemma end_compaction_content:
  assumes "compact_fold foldf r tail = Inr (st, vec, n)" "store_ok s"
    and "ReplaceSnapshot tx now (d_ws r) (d_id r) st vec n (d_snapshot r) s = (Inr r', s')"
  shows "n = dl_seq (last tail)" "tail \<noteq> []" "d_floor r < n"
    and "\<exists>fd st0 fl sn. doc_core s (d_id r) = Some (d_ws r, fd, st0, fl, sn) \<and> (d_snapshot r = 0 \<or> sn = d_snapshot r)
      \<and> content upd s' (d_id r) = upd (d_state r) \<union> (\<Union>x \<in> set tail. upd (dl_payload x))
          \<union> (\<Union>x \<in> {x \<in> set (ds_deltas s). dl_doc x = d_id r \<and> max fl n < dl_seq x}. upd (dl_payload x))"
    and "j \<noteq> d_id r \<Longrightarrow> content upd s' j = content upd s j"
proof -
  from assms(2) have dist: "distinct (map d_id (docs s))" by (simp add: store_ok_def)
  from assms(3) dist obtain r0 st' vec' where sh: "st = Some st'" "vec = Some vec'" "doc_row s (d_id r) = Some r0" "d_ws r0 = d_ws r"
      "d_snapshot r = 0 \<or> d_snapshot r0 = d_snapshot r"
      "doc_row s' (d_id r) = Some (r0\<lparr>d_state := st', d_vector := vec', d_floor := max (d_floor r0) n, d_snapshot := d_snapshot r0 + 1, d_updated_at := now\<rparr>)"
      "\<And>j. j \<noteq> d_id r \<Longrightarrow> doc_row s' j = doc_row s j"
      "ds_deltas s' = delete_rows (\<lambda>x. dl_ws x = d_ws r \<and> dl_doc x = d_id r \<and> dl_seq x \<le> n) (ds_deltas s)"
    by (rule ReplaceSnapshot_shape) auto
  from assms(1) sh(1,2) have f: "foldf (d_state r) (d_vector r) tail = Inr (Some st', Some vec', n)" and "tail \<noteq> []" "d_floor r < n"
    by (auto simp: compact_fold_def split: if_splits sum.splits)
  from fold_covers [OF f] show "n = dl_seq (last tail)" by blast
  show "tail \<noteq> []" "d_floor r < n" by fact+
  have log: "set (ds_deltas s') = {x \<in> set (ds_deltas s). \<not> (dl_ws x = d_ws r \<and> dl_doc x = d_id r \<and> dl_seq x \<le> n)}"
    by (simp add: sh(8) set_delete_rows)
  have "{x \<in> set (ds_deltas s'). dl_doc x = d_id r \<and> max (d_floor r0) n < dl_seq x} =
      {x \<in> set (ds_deltas s). dl_doc x = d_id r \<and> max (d_floor r0) n < dl_seq x}"
    unfolding log by (rule Collect_cong) (simp, linarith)
  then have "content upd s' (d_id r) = upd st' \<union> (\<Union>x \<in> {x \<in> set (ds_deltas s). dl_doc x = d_id r \<and> max (d_floor r0) n < dl_seq x}. upd (dl_payload x))"
    unfolding content_def by (simp add: doc_core_def sh(6) core_def)
  moreover have "doc_core s (d_id r) = Some (d_ws r, d_folder r0, d_state r0, d_floor r0, d_snapshot r0)"
    by (simp add: doc_core_def sh(3,4) core_def)
  ultimately show "\<exists>fd st0 fl sn. doc_core s (d_id r) = Some (d_ws r, fd, st0, fl, sn) \<and> (d_snapshot r = 0 \<or> sn = d_snapshot r)
      \<and> content upd s' (d_id r) = upd (d_state r) \<union> (\<Union>x \<in> set tail. upd (dl_payload x))
          \<union> (\<Union>x \<in> {x \<in> set (ds_deltas s). dl_doc x = d_id r \<and> max fl n < dl_seq x}. upd (dl_payload x))"
    using fold_covers [OF f] sh(5) by auto
  show "content upd s' j = content upd s j" if "j \<noteq> d_id r"
  proof -
    have "{x \<in> set (ds_deltas s'). dl_doc x = j \<and> P x} = {x \<in> set (ds_deltas s). dl_doc x = j \<and> P x}" for P
      unfolding log using that by (intro Collect_cong) auto
    with sh(7) [OF that] show ?thesis by (cases "doc_row s j") (simp_all add: content_def doc_core_def core_def)
  qed
qed

text \<open>If the version is the one that was read, the content is as before.\<close>

lemma checked_compaction_content:
  assumes "compact_fold foldf r tail = Inr (st, vec, n)" "store_ok s" "read_ok s (r, tail)"
    and "ReplaceSnapshot tx now (d_ws r) (d_id r) st vec n (d_snapshot r) s = (res, s')"
    and "d_snapshot r \<noteq> 0 \<or> (\<exists>r0. doc_row s (d_id r) = Some r0 \<and> d_snapshot r0 = 0)"
  shows "content upd s' j = content upd s j"
proof (cases res)
  case (Inl e)
  with ReplaceSnapshot_shape [OF assms(4)] assms(2) have "s' = s" unfolding store_ok_def by blast
  then show ?thesis by simp
next
  case (Inr r')
  note eff = end_compaction_content [OF assms(1,2) assms(4) [unfolded Inr]]
  show ?thesis
  proof (cases "j = d_id r")
    case False
    with eff(5) show ?thesis by blast
  next
    case True
    from eff(4) obtain fd st0 fl sn where core: "doc_core s (d_id r) = Some (d_ws r, fd, st0, fl, sn)" "d_snapshot r = 0 \<or> sn = d_snapshot r"
      and c: "content upd s' (d_id r) = upd (d_state r) \<union> (\<Union>x \<in> set tail. upd (dl_payload x))
          \<union> (\<Union>x \<in> {x \<in> set (ds_deltas s). dl_doc x = d_id r \<and> max fl n < dl_seq x}. upd (dl_payload x))" by blast
    have "sn = d_snapshot r" using core assms(5) by (auto simp: doc_core_def core_def)
    with assms(3) core(1) eff(2) have same: "st0 = d_state r" "fl = d_floor r"
      and tail: "set tail = {x \<in> set (ds_deltas s). dl_doc x = d_id r \<and> d_floor r < dl_seq x \<and> dl_seq x \<le> dl_seq (last tail)}"
      by (auto simp: read_ok_def)
    have "{x \<in> set (ds_deltas s). dl_doc x = d_id r \<and> d_floor r < dl_seq x} =
        set tail \<union> {x \<in> set (ds_deltas s). dl_doc x = d_id r \<and> max fl n < dl_seq x}"
      using eff(1,3) unfolding tail same by auto
    then have "content upd s (d_id r) = upd (d_state r) \<union> (\<Union>x \<in> set tail. upd (dl_payload x))
          \<union> (\<Union>x \<in> {x \<in> set (ds_deltas s). dl_doc x = d_id r \<and> max fl n < dl_seq x}. upd (dl_payload x))"
      by (simp add: content_def core(1) same UN_Un Un_assoc)
    with c show ?thesis by (simp add: True)
  qed
qed

end

end
