(* ===== verification/Collab.thy ===== *)
theory Collab
  imports Documents
begin

text \<open>
  The relay of the collaborative editor (\<^verbatim>\<open>internal/collab\<close>: protocol, hub): the frames on the wire,
  the rooms of connected editors, and the handling of an editor's frame, which stores its update and
  passes it on.  The splitting of a snapshot bundle is that of the browser's client.
\<close>

section \<open>Frames\<close>

definition MessageSync :: char where "MessageSync = CHR 0x00"
definition MessageAwareness :: char where "MessageAwareness = CHR 0x01"
definition MessageAuth :: char where "MessageAuth = CHR 0x02"

definition SyncStepStateVector :: char where "SyncStepStateVector = CHR 0x00"
definition SyncStepUpdates :: char where "SyncStepUpdates = CHR 0x01"
definition SyncUpdate :: char where "SyncUpdate = CHR 0x02"

definition MaxFrameBytes :: int where "MaxFrameBytes = 1048576 + 1024"

record frame =
  fr_type :: char
  fr_sub :: char
  fr_payload :: string

definition DecodeFrame :: "string \<Rightarrow> string + frame" where
  "DecodeFrame raw =
     (case raw of
        [] \<Rightarrow> Inl ''frame too short''
      | t # rest \<Rightarrow>
          if MaxFrameBytes < int (length raw) then Inl ''frame too large''
          else if t = MessageSync then
            (case rest of
               [] \<Rightarrow> Inl ''sync frame missing sub-type''
             | sub # payload \<Rightarrow> Inr \<lparr>fr_type = MessageSync, fr_sub = sub, fr_payload = payload\<rparr>)
          else if t = MessageAwareness \<or> t = MessageAuth then Inr \<lparr>fr_type = t, fr_sub = CHR 0x00, fr_payload = rest\<rparr>
          else Inl ''unknown message type'')"

definition EncodeSyncStepUpdates :: "string \<Rightarrow> string" where
  "EncodeSyncStepUpdates payload = MessageSync # SyncStepUpdates # payload"

definition EncodeSyncUpdate :: "string \<Rightarrow> string" where
  "EncodeSyncUpdate payload = MessageSync # SyncUpdate # payload"

definition EncodeAwareness :: "string \<Rightarrow> string" where
  "EncodeAwareness payload = MessageAwareness # payload"

definition AssembleSnapshotBundle :: "string \<Rightarrow> string list \<Rightarrow> string" where
  "AssembleSnapshotBundle yState tail = LengthPrefix yState @ concat (map LengthPrefix tail)"

definition encodeSnapshotFrame :: "string \<Rightarrow> string list \<Rightarrow> string" where
  "encodeSnapshotFrame yState tail = EncodeSyncStepUpdates (AssembleSnapshotBundle yState tail)"

definition getUint32 :: "string \<Rightarrow> nat" where
  "getUint32 b = foldl (\<lambda>n c. 256 * n + of_char c) 0 (take 4 b)"

function splitLengthPrefixed :: "string \<Rightarrow> string list" where
  "splitLengthPrefixed buf =
     (if length buf < 4 then []
      else let n = getUint32 buf; rest = drop 4 buf in
        if length rest < n then [] else take n rest # splitLengthPrefixed (drop n rest))"
  by pat_completeness auto
termination by (relation "measure length") auto

declare splitLengthPrefixed.simps [simp del]

section \<open>The hub\<close>

text \<open>\<open>cl_sent\<close> are all frames ever put into the queue of an editor, \<open>cl_taken\<close> how many of them its
  writer has taken out; the queue holds the difference.\<close>

record client =
  cl_ws :: uuid
  cl_user :: uuid
  cl_doc :: uuid
  cl_can_write :: bool
  cl_presence :: bool
  cl_snapshot :: bool
  cl_sent :: "string list"
  cl_taken :: nat
  cl_done :: bool

definition ClientSendBufferSize :: nat where "ClientSendBufferSize = 128"

definition NewClient :: "uuid \<Rightarrow> uuid \<Rightarrow> uuid \<Rightarrow> bool \<Rightarrow> capability \<Rightarrow> client" where
  "NewClient ws user i canWrite c = \<lparr>cl_ws = ws, cl_user = user, cl_doc = i, cl_can_write = canWrite,
     cl_presence = PresenceAllowed c, cl_snapshot = ServerSnapshotAllowed c, cl_sent = [], cl_taken = 0, cl_done = False\<rparr>"

text \<open>Editors are known by a number, Go's pointer.\<close>

record hub =
  hb_clients :: "nat \<Rightarrow> client"
  hb_rooms :: "uuid \<rightharpoonup> nat list"
  hb_shutting_down :: bool

definition put_client :: "nat \<Rightarrow> client \<Rightarrow> hub \<Rightarrow> hub" where
  "put_client c x h = h\<lparr>hb_clients := (hb_clients h)(c := x)\<rparr>"

definition room_of :: "hub \<Rightarrow> uuid \<Rightarrow> nat list" where
  "room_of h i = (case hb_rooms h i of None \<Rightarrow> [] | Some cs \<Rightarrow> cs)"

definition has_room :: "client \<Rightarrow> bool" where
  "has_room x = (length (cl_sent x) - cl_taken x < ClientSendBufferSize)"

definition send_frame :: "nat \<Rightarrow> string \<Rightarrow> hub \<Rightarrow> hub" where
  "send_frame c p h = put_client c ((hb_clients h c)\<lparr>cl_sent := cl_sent (hb_clients h c) @ [p]\<rparr>) h"

definition hub_Register :: "nat \<Rightarrow> hub \<Rightarrow> hub" where
  "hub_Register c h =
     (let i = cl_doc (hb_clients h c) in h\<lparr>hb_rooms := (hb_rooms h)(i \<mapsto> List.insert c (room_of h i))\<rparr>)"

definition hub_Unregister :: "nat \<Rightarrow> hub \<Rightarrow> hub" where
  "hub_Unregister c h =
     (let i = cl_doc (hb_clients h c);
          h' = (case hb_rooms h i of
                  None \<Rightarrow> h
                | Some cs \<Rightarrow>
                    (let cs' = filter (\<lambda>x. x \<noteq> c) cs in h\<lparr>hb_rooms := (hb_rooms h)(i := (if cs' = [] then None else Some cs'))\<rparr>))
      in put_client c ((hb_clients h c)\<lparr>cl_done := True\<rparr>) h')"

definition RoomSize :: "hub \<Rightarrow> uuid \<Rightarrow> nat" where
  "RoomSize h i = length (room_of h i)"

text \<open>A select with two ready cases takes any: \<open>coin\<close> decides whether an editor that has left still
  gets the frame.\<close>

definition deliverTo :: "bool \<Rightarrow> string \<Rightarrow> nat \<Rightarrow> hub \<Rightarrow> hub" where
  "deliverTo coin p c h =
     (let x = hb_clients h c in
      if has_room x \<and> (coin \<or> \<not> cl_done x) then send_frame c p h
      else if cl_done x then h
      else hub_Unregister c h)"

definition SendSnapshot :: "bool \<Rightarrow> nat \<Rightarrow> string \<Rightarrow> string list \<Rightarrow> hub \<Rightarrow> hub" where
  "SendSnapshot coin c yState tail h = deliverTo coin (encodeSnapshotFrame yState tail) c h"

definition RegisterWithSnapshot :: "nat \<Rightarrow> string \<Rightarrow> string list \<Rightarrow> hub \<Rightarrow> hub" where
  "RegisterWithSnapshot c yState tail h =
     hub_Register c (if has_room (hb_clients h c) then send_frame c (encodeSnapshotFrame yState tail) h else h)"

definition BroadcastFromRelay :: "bool \<Rightarrow> uuid \<Rightarrow> string \<Rightarrow> hub \<Rightarrow> hub" where
  "BroadcastFromRelay coin i p h = fold (deliverTo coin p) (room_of h i) h"

definition broadcastExcept :: "bool \<Rightarrow> nat \<Rightarrow> string \<Rightarrow> hub \<Rightarrow> hub" where
  "broadcastExcept coin from p h =
     fold (deliverTo coin p) (filter (\<lambda>c. c \<noteq> from) (room_of h (cl_doc (hb_clients h from)))) h"

definition hub_Shutdown :: "hub \<Rightarrow> hub" where
  "hub_Shutdown h = h\<lparr>hb_shutting_down := True, hb_rooms := Map.empty,
     hb_clients := (\<lambda>c. if c \<in> set (room_of h (cl_doc (hb_clients h c))) then (hb_clients h c)\<lparr>cl_done := True\<rparr> else hb_clients h c)\<rparr>"

section \<open>Handling a frame\<close>

datatype collab_error =
    CollabErrDisabled
  | CollabErrUnauthorizedWrite
  | CollabErrPresenceNotAllowed
  | CollabErrUnrecognised
  | CollabErrUnknownSub
  | CollabErrDoc document_error

text \<open>What happens around a handled frame: failures and requests of others for the store, whether
  other replicas are connected, and whether compactions are scheduled at all.\<close>

record handle_env =
  he_faults :: faults
  he_others :: "doc_store \<Rightarrow> doc_store"
  he_others' :: "doc_store \<Rightarrow> doc_store"
  he_now :: time
  he_coin :: bool
  he_relay :: bool
  he_scheduler :: bool

text \<open>The outcome: an error, the hub, the store, what is published to the other replicas, and whether
  a compaction is started.\<close>

record handled =
  ho_error :: "collab_error option"
  ho_hub :: hub
  ho_store :: doc_store
  ho_published :: "(uuid \<times> string) list"
  ho_compacts :: bool

definition unhandled :: "collab_error option \<Rightarrow> hub \<Rightarrow> doc_store \<Rightarrow> handled" where
  "unhandled e h s = \<lparr>ho_error = e, ho_hub = h, ho_store = s, ho_published = [], ho_compacts = False\<rparr>"

definition handleSyncUpdate :: "handle_env \<Rightarrow> nat \<Rightarrow> string \<Rightarrow> hub \<Rightarrow> doc_store \<Rightarrow> handled" where
  "handleSyncUpdate env c payload h s =
     (let x = hb_clients h c in
      if \<not> cl_can_write x then unhandled (Some CollabErrUnauthorizedWrite) h s
      else case doc_AppendDelta (he_faults env) (he_others env) (he_others' env) (he_now env) (cl_ws x) (cl_doc x) payload (cl_user x) s of
        (Inl e, s') \<Rightarrow> unhandled (Some (if e = DocErrCollabModeNotAllowed then CollabErrDisabled else CollabErrDoc e)) h s'
      | (Inr res, s') \<Rightarrow>
          \<lparr>ho_error = None, ho_hub = broadcastExcept (he_coin env) c (EncodeSyncUpdate payload) h, ho_store = s',
           ho_published = (if he_relay env then [(cl_doc x, EncodeSyncUpdate payload)] else []),
           ho_compacts = (ar_due res \<and> cl_snapshot x \<and> he_scheduler env \<and> \<not> hb_shutting_down h)\<rparr>)"

definition handleSync :: "handle_env \<Rightarrow> nat \<Rightarrow> frame \<Rightarrow> hub \<Rightarrow> doc_store \<Rightarrow> handled" where
  "handleSync env c f h s =
     (if fr_sub f = SyncStepStateVector then unhandled None h s
      else if fr_sub f = SyncStepUpdates then unhandled None h s
      else if fr_sub f = SyncUpdate then handleSyncUpdate env c (fr_payload f) h s
      else unhandled (Some CollabErrUnknownSub) h s)"

definition handleAwareness :: "handle_env \<Rightarrow> nat \<Rightarrow> frame \<Rightarrow> hub \<Rightarrow> doc_store \<Rightarrow> handled" where
  "handleAwareness env c f h s =
     (let x = hb_clients h c in
      if \<not> cl_presence x then unhandled (Some CollabErrPresenceNotAllowed) h s
      else if \<not> cl_can_write x then unhandled (Some CollabErrUnauthorizedWrite) h s
      else \<lparr>ho_error = None, ho_hub = broadcastExcept (he_coin env) c (EncodeAwareness (fr_payload f)) h, ho_store = s,
            ho_published = (if he_relay env then [(cl_doc x, EncodeAwareness (fr_payload f))] else []), ho_compacts = False\<rparr>)"

definition hub_Handle :: "handle_env \<Rightarrow> nat \<Rightarrow> frame \<Rightarrow> hub \<Rightarrow> doc_store \<Rightarrow> handled" where
  "hub_Handle env c f h s =
     (if fr_type f = MessageSync then handleSync env c f h s
      else if fr_type f = MessageAwareness then handleAwareness env c f h s
      else if fr_type f = MessageAuth then unhandled None h s
      else unhandled (Some CollabErrUnrecognised) h s)"

section \<open>Connecting\<close>

text \<open>The snapshot of a connecting editor is read before the connection is upgraded; the editor enters
  its room afterwards.\<close>

definition connect_client :: "snapshot_result \<Rightarrow> uuid \<Rightarrow> uuid \<Rightarrow> bool \<Rightarrow> nat \<Rightarrow> hub \<Rightarrow> hub" where
  "connect_client sn ws user canWrite c h =
     RegisterWithSnapshot c (d_state (sn_document sn)) (map dl_payload (sn_tail sn))
       (put_client c (NewClient ws user (d_id (sn_document sn)) canWrite (ResolveCapability (f_mode (sn_folder sn)))) h)"

end
