(* ===== verification/Document_Properties.thy ===== *)
theory Document_Properties
  imports Document_Content Collab
begin

text \<open>
  The properties of documents and of the collaborative editor: modes within the encryption mode of
  the folder, what compactions and appends do to the content, and what connected editors receive.
\<close>

section \<open>Modes\<close>

definition mode_ok :: "folder list \<Rightarrow> uuid \<Rightarrow> uuid \<Rightarrow> string \<Rightarrow> bool" where
  "mode_ok rows ws fid m = (\<exists>f \<in> set rows. f_id f = fid \<and> f_ws f = ws \<and> IsCollabModeAllowed (f_mode f) m)"

definition modes_inv :: "doc_system \<Rightarrow> bool" where
  "modes_inv y =
     (tree_inv (folders (ds_db (dy_store y)))
      \<and> (\<forall>r \<in> set (docs (dy_store y)). mode_ok (folders (ds_db (dy_store y))) (d_ws r) (d_folder r) (d_collab r))
      \<and> (\<forall>(ws, i, m) \<in> set (dy_checked y). \<exists>r \<in> set (docs (dy_store y)).
            d_id r = i \<and> d_ws r = ws \<and> mode_ok (folders (ds_db (dy_store y))) ws (d_folder r) m))"

text \<open>A step that changes neither folders nor where documents are and what mode they have.\<close>

definition place :: "document_row \<Rightarrow> uuid \<times> uuid \<times> uuid \<times> string" where
  "place r = (d_id r, d_ws r, d_folder r, d_collab r)"

lemma modes_inv_place:
  assumes "modes_inv y" "folders (ds_db s) = folders (ds_db (dy_store y))" "place ` set (docs s) = place ` set (docs (dy_store y))"
  shows "modes_inv (put_store s y)"
proof -
  have there: "\<exists>r' \<in> set (docs (dy_store y)). place r' = place r" if "r \<in> set (docs s)" for r
    using imageI [OF that, of place] unfolding assms(3) by auto
  have kept: "\<exists>r' \<in> set (docs s). place r' = place r" if "r \<in> set (docs (dy_store y))" for r
    using imageI [OF that, of place] unfolding assms(3) [symmetric] by auto
  have "mode_ok (folders (ds_db s)) (d_ws r) (d_folder r) (d_collab r)" if r: "r \<in> set (docs s)" for r
    using there [OF r] assms(1,2) by (auto simp: modes_inv_def place_def)
  moreover have "\<exists>r \<in> set (docs s). d_id r = i \<and> d_ws r = ws \<and> mode_ok (folders (ds_db s)) ws (d_folder r) m"
    if c: "(ws, i, m) \<in> set (dy_checked y)" for ws i m
  proof -
    from c assms(1) obtain r where r: "r \<in> set (docs (dy_store y))" "d_id r = i" "d_ws r = ws" "mode_ok (folders (ds_db (dy_store y))) ws (d_folder r) m"
      by (fastforce simp: modes_inv_def)
    from kept [OF r(1)] r(2-4) assms(2) show ?thesis by (auto simp: place_def)
  qed
  ultimately show ?thesis using assms(1,2) by (auto simp: modes_inv_def)
qed

lemma place_fields [simp]:
  "place (r\<lparr>d_state := a\<rparr>) = place r" "place (r\<lparr>d_vector := a\<rparr>) = place r" "place (r\<lparr>d_floor := n\<rparr>) = place r"
  "place (r\<lparr>d_snapshot := n\<rparr>) = place r" "place (r\<lparr>d_updated_at := t\<rparr>) = place r" "place (r\<lparr>d_deleted_at := t'\<rparr>) = place r"
  "place (r\<lparr>d_name := a\<rparr>) = place r"
  by (simp_all add: place_def)

lemma place_update: "(\<And>r. place (u r) = place r) \<Longrightarrow> place ` set (update_rows p u rows) = place ` set rows"
  using map_update_rows [of p place u rows] by (metis set_map)

lemma ReplaceSnapshot_rows:
  assumes "ReplaceSnapshot tx now ws i st vec n expected s = (res, s')"
  obtains "s' = s"
  | p st' vec' where "docs s' = update_rows p (\<lambda>r. r\<lparr>d_state := st', d_vector := vec', d_floor := max (d_floor r) n,
        d_snapshot := d_snapshot r + 1, d_updated_at := now\<rparr>) (docs s)" "folders (ds_db s') = folders (ds_db s)"
proof (cases "s' = s")
  case False
  with assms obtain st' vec' where "docs s' = update_rows (\<lambda>r. visible_doc ws i r \<and> (expected = 0 \<or> d_snapshot r = expected))
      (\<lambda>r. r\<lparr>d_state := st', d_vector := vec', d_floor := max (d_floor r) n, d_snapshot := d_snapshot r + 1, d_updated_at := now\<rparr>) (docs s)"
    "folders (ds_db s') = folders (ds_db s)"
    by (auto simp: ReplaceSnapshot_def Let_def split: option.splits if_splits prod.splits)
  then show thesis by (rule that(2))
qed (rule that(1))

lemma doc_step_modes:
  assumes "doc_step foldf y y'" "modes_inv y" "system_inv y"
  shows "modes_inv y'"
  using assms(1)
proof cases
  case (append flt now x res s)
  from append(2) show ?thesis
  proof (cases rule: repo_AppendDelta_shape)
    case (1 e)
    with append assms(2) show ?thesis by simp
  next
    case (2 x')
    have "place ` set (docs s) = place ` set (docs (dy_store y))" by (simp add: 2(5) place_update)
    with 2(6) modes_inv_place [OF assms(2)] append(1) show ?thesis by simp
  qed
next
  case (begin_compaction flt ws i c)
  with assms(2) show ?thesis by (simp add: modes_inv_def)
next
  case (end_compaction r tail st vec n tx now res s)
  from end_compaction(4) have "place ` set (docs s) = place ` set (docs (dy_store y)) \<and> folders (ds_db s) = folders (ds_db (dy_store y))"
    by (cases rule: ReplaceSnapshot_rows) (simp_all add: place_update)
  with modes_inv_place [of "y\<lparr>dy_compacting := remove1 (r, tail) (dy_compacting y)\<rparr>" s] assms(2) end_compaction(1) show ?thesis
    by (simp add: modes_inv_def)
next
  case (create_doc flt new now ws fid name m u res s)
  from create_doc(2) show ?thesis
  proof (cases rule: doc_Create_shape)
    case 1
    with create_doc assms(2) show ?thesis by simp
  next
    case (2 r parent)
    from folder_GetByID_Inr [OF 2(5)] have "mode_ok (folders (ds_db (dy_store y))) (d_ws r) (d_folder r) (d_collab r)"
      using 2(3,4,6) by (auto simp: mode_ok_def)
    with assms(2) create_doc(1) show ?thesis by (fastforce simp: modes_inv_def 2(1))
  qed
next
  case (rename_doc flt now ws i name res s)
  then consider "s = dy_store y" | name' where
      "s = set_docs (update_rows (visible_doc ws i) (\<lambda>r. r\<lparr>d_name := name', d_updated_at := now\<rparr>) (docs (dy_store y))) (dy_store y)"
    by (auto simp: doc_Rename_def UpdateName_def update_doc_def Let_def split: option.splits if_splits)
  then have "place ` set (docs s) = place ` set (docs (dy_store y)) \<and> folders (ds_db s) = folders (ds_db (dy_store y))"
    by cases (simp_all add: place_update)
  with modes_inv_place [OF assms(2)] rename_doc(1) show ?thesis by simp
next
  case (check_mode flt ws i m)
  then obtain r parent where r: "find (visible_doc ws i) (docs (dy_store y)) = Some r"
    and parent: "folder_GetByID flt ''lookup folder for collab mode change'' (ds_db (dy_store y)) ws (d_folder (list_item r)) = Inr parent"
    and ok: "IsCollabModeAllowed (f_mode parent) m"
    by (auto simp: collab_mode_check_def doc_row_GetMetadata_def split: if_splits sum.splits option.splits)
  have "\<exists>r \<in> set (docs (dy_store y)). d_id r = i \<and> d_ws r = ws \<and> mode_ok (folders (ds_db (dy_store y))) ws (d_folder r) m"
    using find_SomeD [OF r] folder_GetByID_Inr [OF parent] ok by (auto simp: visible_doc_def mode_ok_def list_item_def)
  with check_mode(1) assms(2) show ?thesis by (simp add: modes_inv_def)
next
  case (set_mode ws i m flt now res s)
  from assms(2) set_mode(2) obtain r where r: "r \<in> set (docs (dy_store y))" "d_id r = i" "d_ws r = ws"
    "mode_ok (folders (ds_db (dy_store y))) ws (d_folder r) m" by (fastforce simp: modes_inv_def)
  have dist: "distinct (map d_id (docs (dy_store y)))" using assms(3) by (simp add: system_inv_def store_ok_def)
  from set_mode(3) consider "s = dy_store y"
    | "s = set_docs (update_rows (visible_doc ws i) (\<lambda>r. r\<lparr>d_collab := m, d_updated_at := now\<rparr>) (docs (dy_store y))) (dy_store y)"
    by (auto simp: UpdateCollabMode_def update_doc_def split: option.splits if_splits)
  then show ?thesis
  proof cases
    case 1
    with set_mode(1) assms(2) show ?thesis by simp
  next
    case 2
    have "mode_ok (folders (ds_db (dy_store y))) (d_ws x) (d_folder x) m"
      if "x \<in> set (docs (dy_store y))" "visible_doc ws i x" for x
      using that r dist by (auto simp: visible_doc_def dest: distinct_map_inj)
    then have "\<forall>x \<in> set (docs s). mode_ok (folders (ds_db (dy_store y))) (d_ws x) (d_folder x) (d_collab x)"
      using assms(2) by (auto simp: 2 set_update_rows modes_inv_def)
    moreover have "\<exists>x' \<in> set (docs s). d_id x' = d_id x \<and> d_ws x' = d_ws x \<and> d_folder x' = d_folder x" if "x \<in> set (docs (dy_store y))" for x
      using that by (intro bexI [of _ "if visible_doc ws i x then x\<lparr>d_collab := m, d_updated_at := now\<rparr> else x"]) (auto simp: 2 set_update_rows)
    ultimately show ?thesis using assms(2) unfolding modes_inv_def set_mode(1) by (fastforce simp: 2)
  qed
next
  case (delete_doc flt now ws i res s)
  then consider "s = dy_store y" | "s = set_docs (update_rows (visible_doc ws i)
      (\<lambda>r. r\<lparr>d_deleted_at := Some now, d_updated_at := now\<rparr>) (docs (dy_store y))) (dy_store y)"
    by (auto simp: doc_Delete_def doc_row_SoftDelete_def split: if_splits)
  then have "place ` set (docs s) = place ` set (docs (dy_store y)) \<and> folders (ds_db s) = folders (ds_db (dy_store y))"
    by cases (simp_all add: place_update)
  with modes_inv_place [OF assms(2)] delete_doc(1) show ?thesis by simp
next
  case (folder_request d)
  have tree: "tree_inv (folders d)" using folder_step_tree_inv [OF folder_request(2)] assms(2) by (simp add: modes_inv_def)
  have keep: "mode_ok (folders d) ws fid m" if "mode_ok (folders (ds_db (dy_store y))) ws fid m" for ws fid m
    using that folder_step_keeps_mode [OF folder_request(2)] assms(2) unfolding modes_inv_def mode_ok_def by metis
  let ?s = "set_docs (documents d) (dy_store y)"
  have "place ` set (documents d) = place ` set (docs (dy_store y))"
    using folder_step_documents [OF folder_request(2)] by (elim disjE exE) (simp_all add: place_update)
  then have "modes_inv (put_store ?s y)" by (intro modes_inv_place [OF assms(2)]) simp_all
  with tree keep show ?thesis unfolding folder_request(1) modes_inv_def by fastforce
qed

lemma reachable_modes: "(doc_step foldf)\<^sup>*\<^sup>* doc_start y \<Longrightarrow> modes_inv y"
proof (induction rule: rtranclp_induct)
  case base
  show ?case by (simp add: modes_inv_def doc_start_def empty_db_def tree_inv_Nil)
next
  case (step y z)
  then show ?case using doc_step_modes reachable_inv by blast
qed

text \<open>A run: a folder, a document in it, two updates; a compaction reads after the first and one after
  the second update, and writes.\<close>

definition cx_runtime :: yjs_runtime where
  "cx_runtime = \<lparr>MergeUpdates = (\<lambda>us. Inr (concat us)), EncodeStateVector = (\<lambda>_. Inr ''v'')\<rparr>"

definition cx_store0 :: doc_store where
  "cx_store0 = snd (doc_Create no_faults 20 5 7 1 ''notes'' [] 9 \<lparr>ds_db = ex_db1, ds_deltas = []\<rparr>)"

definition cx_delta :: "string \<Rightarrow> delta" where
  "cx_delta p = \<lparr>dl_doc = 20, dl_seq = 0, dl_payload = p, dl_author = 9, dl_created_at = 0, dl_ws = 7\<rparr>"

definition cx_store1 :: doc_store where "cx_store1 = snd (repo_AppendDelta no_faults 6 (cx_delta ''A'') cx_store0)"
definition cx_store2 :: doc_store where "cx_store2 = snd (repo_AppendDelta no_faults 7 (cx_delta ''B'') cx_store1)"

definition cx_read :: "doc_store \<Rightarrow> document_row \<times> delta list" where
  "cx_read s = (case GetSnapshotBundle no_faults s 7 20 MaxSnapshotTailDeltas of Inr c \<Rightarrow> c | Inl _ \<Rightarrow> undefined)"

definition cx_write :: "document_row \<times> delta list \<Rightarrow> doc_store \<Rightarrow> doc_store" where
  "cx_write c s =
     (case compact_fold (YjsMergeFold cx_runtime) (fst c) (snd c) of
        Inr (st, vec, n) \<Rightarrow> snd (ReplaceSnapshot (\<lambda>_. None) 8 (d_ws (fst c)) (d_id (fst c)) st vec n (d_snapshot (fst c)) s)
      | Inl _ \<Rightarrow> s)"

definition cx_store3 :: doc_store where "cx_store3 = cx_write (cx_read cx_store2) cx_store2"

definition cx_sys :: "doc_store \<Rightarrow> (document_row \<times> delta list) list \<Rightarrow> doc_system" where
  "cx_sys s cs = \<lparr>dy_store = s, dy_compacting = cs, dy_checked = []\<rparr>"

lemma cx_reads:
  "GetSnapshotBundle no_faults cx_store1 7 20 MaxSnapshotTailDeltas = Inr (cx_read cx_store1)"
  "GetSnapshotBundle no_faults cx_store2 7 20 MaxSnapshotTailDeltas = Inr (cx_read cx_store2)"
  by code_simp+

lemma cx_folds:
  "compact_fold (YjsMergeFold cx_runtime) (fst (cx_read cx_store1)) (snd (cx_read cx_store1)) = Inr (Some ''A'', Some ''v'', 1)"
  "compact_fold (YjsMergeFold cx_runtime) (fst (cx_read cx_store2)) (snd (cx_read cx_store2)) = Inr (Some ''AB'', Some ''v'', 2)"
  by code_simp+

lemma cx_sys_steps:
  "repo_AppendDelta flt now x s = (res, s') \<Longrightarrow> doc_step f (cx_sys s cs) (cx_sys s' cs)"
  "GetSnapshotBundle flt s ws i MaxSnapshotTailDeltas = Inr c \<Longrightarrow> doc_step f (cx_sys s cs) (cx_sys s (c # cs))"
  "doc_Create flt new now ws fid name m u s = (res', s') \<Longrightarrow> doc_step f (cx_sys s cs) (cx_sys s' cs)"
  "folder_step (ds_db s) d \<Longrightarrow> doc_step f (cx_sys s cs) (cx_sys (s\<lparr>ds_db := d\<rparr>) cs)"
  using doc_step.append [of flt now x "cx_sys s cs" res s' f] doc_step.begin_compaction [of flt "cx_sys s cs" ws i c f]
    doc_step.create_doc [of flt new now ws fid name m u "cx_sys s cs" res' s' f] doc_step.folder_request [of "cx_sys s cs" d f]
  by (simp_all add: cx_sys_def)

lemma cx_sys_write:
  assumes "c \<in> set cs" "compact_fold f (fst c) (snd c) = Inr (st, vec, n)"
    "ReplaceSnapshot tx now (d_ws (fst c)) (d_id (fst c)) st vec n (d_snapshot (fst c)) s = (res, s')"
  shows "doc_step f (cx_sys s cs) (cx_sys s' (remove1 c cs))"
  using doc_step.end_compaction [of "fst c" "snd c" "cx_sys s cs" f st vec n tx now res s'] assms by (simp add: cx_sys_def)

lemma cx_reach2:
  "(doc_step (YjsMergeFold cx_runtime))\<^sup>*\<^sup>* doc_start (cx_sys cx_store2 [cx_read cx_store2, cx_read cx_store1])"
proof -
  let ?F = "YjsMergeFold cx_runtime" and ?s = "\<lparr>ds_db = empty_db, ds_deltas = []\<rparr>"
  have "folder_step empty_db ex_db1" unfolding ex_db1_def by (rule folder_step.create)
  from cx_sys_steps(4) [of ?s, simplified, OF this, of ?F "[]"]
  have a: "doc_step ?F doc_start (cx_sys \<lparr>ds_db = ex_db1, ds_deltas = []\<rparr> [])" by (simp add: doc_start_def cx_sys_def)
  have b: "doc_step ?F (cx_sys \<lparr>ds_db = ex_db1, ds_deltas = []\<rparr> []) (cx_sys cx_store0 [])"
    unfolding cx_store0_def by (rule cx_sys_steps(3), rule prod.collapse [symmetric])
  have c: "doc_step ?F (cx_sys cx_store0 []) (cx_sys cx_store1 [])"
    unfolding cx_store1_def by (rule cx_sys_steps(1), rule prod.collapse [symmetric])
  have d: "doc_step ?F (cx_sys cx_store1 []) (cx_sys cx_store1 [cx_read cx_store1])" by (rule cx_sys_steps(2) [OF cx_reads(1)])
  have e: "doc_step ?F (cx_sys cx_store1 cs) (cx_sys cx_store2 cs)" for cs
    unfolding cx_store2_def by (rule cx_sys_steps(1), rule prod.collapse [symmetric])
  have f: "doc_step ?F (cx_sys cx_store2 cs) (cx_sys cx_store2 (cx_read cx_store2 # cs))" for cs by (rule cx_sys_steps(2) [OF cx_reads(2)])
  show ?thesis
    using a b c d e f by (meson rtranclp.rtrancl_refl rtranclp.rtrancl_into_rtrancl)
qed

lemma cx_write3:
  "ReplaceSnapshot (\<lambda>_. None) 8 (d_ws (fst (cx_read cx_store2))) (d_id (fst (cx_read cx_store2))) (Some ''AB'') (Some ''v'') 2
     (d_snapshot (fst (cx_read cx_store2))) cx_store2 = (Inr (fst (cx_read cx_store3)), cx_store3)"
  by code_simp

lemma cx_reach3: "(doc_step (YjsMergeFold cx_runtime))\<^sup>*\<^sup>* doc_start (cx_sys cx_store3 [cx_read cx_store1])"
  using rtranclp.rtrancl_into_rtrancl [OF cx_reach2 cx_sys_write [OF _ cx_folds(2) cx_write3]] by simp

text \<open>C26 (type).  In every state the requests of folders and documents reach, every document lies in a
  folder of its workspace and has a mode that the encryption mode of the folder allows; in a folder
  the server cannot read it is the one mode that needs no server-side content.\<close>

theorem collab_mode_within_encryption:
  assumes "(doc_step foldf)\<^sup>*\<^sup>* doc_start y" "r \<in> set (docs (dy_store y))"
  shows "\<exists>f \<in> set (folders (ds_db (dy_store y))). f_id f = d_folder r \<and> f_ws f = d_ws r
    \<and> d_collab r \<in> set (AllowedCollabModesFor (f_mode f)) \<and> (f_mode f = EncryptionStrictZK \<longrightarrow> d_collab r = CollabModeMarkdown)"
  using reachable_modes [OF assms(1)] assms(2)
  by (auto simp: modes_inv_def mode_ok_def IsCollabModeAllowed_def AllowedCollabModesFor_def ResolveCapability_def
      EncryptionStrictZK_def EncryptionManagedEncrypted_def Let_def split: if_splits)

theorem collab_mode_within_encryption_witness:
  "map d_collab (docs cx_store2) = [CollabModeRichPresence]
   \<and> (\<exists>f \<in> set (folders (ds_db cx_store2)). f_id f = 1 \<and> CollabModeRichPresence \<in> set (AllowedCollabModesFor (f_mode f)))"
proof -
  have modes: "map d_collab (docs cx_store2) = [CollabModeRichPresence]" by code_simp
  have row: "hd (docs cx_store2) \<in> set (docs cx_store2)" "d_collab (hd (docs cx_store2)) = CollabModeRichPresence" "d_folder (hd (docs cx_store2)) = 1"
    by code_simp+
  with collab_mode_within_encryption [OF cx_reach2, of "hd (docs cx_store2)"] modes show ?thesis
    by (auto simp: cx_sys_def)
qed

section \<open>Compactions and appends\<close>

text \<open>What compaction relies on of the merge of Yjs updates: a merged update contains the edits of the
  updates it was made of, and the empty state contains none.\<close>

locale yjs_merge =
  fixes rt :: yjs_runtime and upd :: "string \<Rightarrow> 'e set"
  assumes merge_union: "MergeUpdates rt us = Inr m \<Longrightarrow> upd m = (\<Union>u \<in> set us. upd u)"
    and empty_state: "upd [] = {}"
begin

lemma merge_fold_covers:
  "YjsMergeFold rt st vec tail = Inr (Some st', vec', n) \<Longrightarrow>
   n = dl_seq (last tail) \<and> upd st' = upd st \<union> (\<Union>x \<in> set tail. upd (dl_payload x))"
  using empty_state by (auto simp: YjsMergeFold_def split: if_splits sum.splits dest!: merge_union)

end

sublocale yjs_merge \<subseteq> fold_contract "YjsMergeFold rt" upd
  by unfold_locales (rule merge_fold_covers)

lemma merge_fold_contract: "yjs_merge rt upd \<Longrightarrow> fold_contract (YjsMergeFold rt) upd"
  by (rule fold_contract.intro) (rule yjs_merge.merge_fold_covers)

interpretation cx: yjs_merge cx_runtime set
  by unfold_locales (simp_all add: cx_runtime_def)

text \<open>C25 (refinement).  A compaction reads a document with its log, folds, and writes in a second
  transaction; other requests and other compactions run in between.  Unless it read a document that
  had never been compacted and another compaction was faster, its write leaves the content of every
  document as it is, whether it succeeds or not.\<close>

theorem compaction_keeps_content:
  assumes merge: "yjs_merge rt upd" and reach: "(doc_step (YjsMergeFold rt))\<^sup>*\<^sup>* doc_start y"
    and reading: "(r, tail) \<in> set (dy_compacting y)" and fold: "compact_fold (YjsMergeFold rt) r tail = Inr (st, vec, n)"
    and wr: "ReplaceSnapshot tx now (d_ws r) (d_id r) st vec n (d_snapshot r) (dy_store y) = (res, s)"
    and checked: "d_snapshot r \<noteq> 0 \<or> (\<exists>r0. doc_row (dy_store y) (d_id r) = Some r0 \<and> d_snapshot r0 = 0)"
  shows "content upd s i = content upd (dy_store y) i"
proof -
  have "store_ok (dy_store y)" "read_ok (dy_store y) (r, tail)" using reachable_inv [OF reach] reading by (auto simp: system_inv_def)
  from fold_contract.checked_compaction_content [OF merge_fold_contract [OF merge] fold this wr checked] show ?thesis .
qed

theorem compaction_keeps_content_witness: "content set cx_store3 20 = content set cx_store2 20 \<and> content set cx_store2 20 = set ''AB''"
proof -
  have "doc_row cx_store2 (d_id (fst (cx_read cx_store2))) \<noteq> None"
    "d_snapshot (the (doc_row cx_store2 (d_id (fst (cx_read cx_store2))))) = 0" by code_simp+
  then have "content set cx_store3 20 = content set (dy_store (cx_sys cx_store2 [cx_read cx_store2, cx_read cx_store1])) 20"
    using cx_folds(2) cx_write3
    by (intro compaction_keeps_content [OF cx.yjs_merge_axioms cx_reach2, of "fst (cx_read cx_store2)" "snd (cx_read cx_store2)"])
      (auto simp: cx_sys_def)
  moreover have "content set cx_store2 20 = set ''AB''" by code_simp
  ultimately show ?thesis by (simp add: cx_sys_def)
qed

text \<open>The version test of the first compaction of a document is off, because the version
  it read is zero, which stands for no test.  Such a compaction overwrites whatever another one has
  written meanwhile: afterwards the content is what it read itself and what lies above the floor the
  other one set, so that updates only the other one folded are gone.\<close>

theorem stale_first_compaction_overwrites:
  assumes merge: "yjs_merge rt upd" and reach: "(doc_step (YjsMergeFold rt))\<^sup>*\<^sup>* doc_start y"
    and first: "d_snapshot r = 0" and row: "find (visible_doc (d_ws r) (d_id r)) (docs (dy_store y)) = Some r0"
    and fold: "compact_fold (YjsMergeFold rt) r tail = Inr (Some st, Some vec, n)"
  shows "\<exists>r' s. ReplaceSnapshot (\<lambda>_. None) now (d_ws r) (d_id r) (Some st) (Some vec) n (d_snapshot r) (dy_store y) = (Inr r', s)
    \<and> content upd s (d_id r) = upd (d_state r) \<union> (\<Union>x \<in> set tail. upd (dl_payload x))
        \<union> (\<Union>x \<in> {x \<in> set (ds_deltas (dy_store y)). dl_doc x = d_id r \<and> max (d_floor r0) n < dl_seq x}. upd (dl_payload x))"
proof -
  have ok: "store_ok (dy_store y)" using reachable_inv [OF reach] by (simp add: system_inv_def)
  then have dist: "distinct (map d_id (docs (dy_store y)))" by (simp add: store_ok_def)
  obtain r' s where wr: "ReplaceSnapshot (\<lambda>_. None) now (d_ws r) (d_id r) (Some st) (Some vec) n (d_snapshot r) (dy_store y) = (Inr r', s)"
    using row first by (simp add: ReplaceSnapshot_def Let_def)
  from fold_contract.end_compaction_content(4) [OF merge_fold_contract [OF merge] fold ok wr] obtain fd st0 fl sn
    where "doc_core (dy_store y) (d_id r) = Some (d_ws r, fd, st0, fl, sn)"
      "content upd s (d_id r) = upd (d_state r) \<union> (\<Union>x \<in> set tail. upd (dl_payload x))
        \<union> (\<Union>x \<in> {x \<in> set (ds_deltas (dy_store y)). dl_doc x = d_id r \<and> max fl n < dl_seq x}. upd (dl_payload x))" by blast
  with visible_doc_row(1) [OF dist row] wr show ?thesis by (auto simp: doc_core_def core_def)
qed

text \<open>The compaction that read the first update only writes after the one that read both.\<close>

theorem stale_first_compaction_overwrites_witness:
  "content set cx_store3 20 = set ''AB'' \<and> content set (cx_write (cx_read cx_store1) cx_store3) 20 = set ''A''"
proof -
  have row: "find (visible_doc (d_ws (fst (cx_read cx_store1))) (d_id (fst (cx_read cx_store1)))) (docs (dy_store (cx_sys cx_store3 [cx_read cx_store1])))
      = Some (hd (docs cx_store3))" by code_simp
  have zero: "d_snapshot (fst (cx_read cx_store1)) = 0" and i: "d_id (fst (cx_read cx_store1)) = 20" by code_simp+
  have wr: "cx_write (cx_read cx_store1) cx_store3 = snd (ReplaceSnapshot (\<lambda>_. None) 8 (d_ws (fst (cx_read cx_store1)))
      (d_id (fst (cx_read cx_store1))) (Some ''A'') (Some ''v'') 1 (d_snapshot (fst (cx_read cx_store1))) cx_store3)"
    by (simp add: cx_write_def cx_folds(1))
  have rest: "set (d_state (fst (cx_read cx_store1))) = {}" "map dl_payload (snd (cx_read cx_store1)) = [''A'']" "ds_deltas cx_store3 = []"
    by code_simp+
  from rest(2) have tail: "(\<Union>x \<in> set (snd (cx_read cx_store1)). set (dl_payload x)) = set ''A''" by (cases "snd (cx_read cx_store1)") auto
  from stale_first_compaction_overwrites [OF cx.yjs_merge_axioms cx_reach3 zero row cx_folds(1), of 8] obtain r' s
    where s: "ReplaceSnapshot (\<lambda>_. None) 8 (d_ws (fst (cx_read cx_store1))) (d_id (fst (cx_read cx_store1))) (Some ''A'') (Some ''v'') 1
        (d_snapshot (fst (cx_read cx_store1))) cx_store3 = (Inr r', s)"
      and c: "content set s 20 = set (d_state (fst (cx_read cx_store1))) \<union> (\<Union>x \<in> set (snd (cx_read cx_store1)). set (dl_payload x))
        \<union> (\<Union>x \<in> {x \<in> set (ds_deltas cx_store3). dl_doc x = 20 \<and> max (d_floor (hd (docs cx_store3))) 1 < dl_seq x}. set (dl_payload x))"
    unfolding i cx_sys_def doc_system.simps by blast
  have "content set (cx_write (cx_read cx_store1) cx_store3) 20 = set ''A''"
    unfolding wr s snd_conv c rest(1,3) tail by simp
  moreover have "content set cx_store3 20 = set ''AB''" by code_simp
  ultimately show ?thesis by blast
qed

text \<open>A compaction that folds the whole log leaves no update of the document.\<close>

lemma full_compaction_empties_log:
  assumes ok: "store_ok s" and row: "doc_row s i = Some r0"
    and log: "deltas_after s ws i (d_floor r0) \<noteq> []" "length (deltas_after s ws i (d_floor r0)) \<le> 640"
    and comp: "Compact flt tx (\<lambda>s. s) (YjsMergeFold rt) now ws i s = (Inr r1, s1)"
  shows "\<forall>x \<in> set (ds_deltas s1). dl_doc x \<noteq> i" "doc_row s1 i = Some r1" "1 \<le> d_floor r1" "distinct (map d_id (docs s1))"
proof -
  let ?log = "deltas_after s ws i (d_floor r0)"
  from ok have dist: "distinct (map d_id (docs s))" by (simp add: store_ok_def)
  obtain r tail where b: "GetSnapshotBundle flt s ws i MaxSnapshotTailDeltas = Inr (r, tail)"
    using comp by (cases "GetSnapshotBundle flt s ws i MaxSnapshotTailDeltas") (auto simp: Compact_def)
  then have find: "find (visible_doc ws i) (docs s) = Some r" and tail: "tail = take 640 (deltas_after s ws i (d_floor r))"
    by (auto simp: GetSnapshotBundle_def doc_row_GetByID_def MaxSnapshotTailDeltas_def Let_def split: if_splits sum.splits option.splits)
  from visible_doc_row [OF dist find] row have r: "r0 = r" "d_ws r = ws" "d_id r = i" by auto
  from tail log(2) r(1) have tail: "tail = ?log" by simp
  from comp b tail log(1) obtain st vec n where fold: "YjsMergeFold rt (d_state r) (d_vector r) tail = Inr (st, vec, n)"
    and wr: "ReplaceSnapshot tx now ws i st vec n (d_snapshot r) s = (Inr r1, s1)" and n: "d_floor r < n"
    by (auto simp: Compact_def compact_fold_def split: sum.splits if_splits)
  have last: "n = dl_seq (last ?log)" using fold log(1) by (auto simp: YjsMergeFold_def tail split: sum.splits)
  have "dl_seq x \<le> n" if "x \<in> set (ds_deltas s)" "dl_doc x = i" for x
  proof (cases "d_floor r < dl_seq x")
    case True
    have "\<exists>c. doc_core s (dl_doc x) = Some c \<and> fst c = dl_ws x" using ok that(1) by (simp add: store_ok_def)
    with row r that(2) have "dl_ws x = ws" by (auto simp: doc_core_def core_def)
    with that True have x: "x \<in> set ?log" by (simp add: deltas_after_def r(1))
    moreover have "sorted (map dl_seq ?log)" by (simp add: deltas_after_def)
    ultimately show ?thesis unfolding last using sorted_le_last [of dl_seq ?log x] by blast
  next
    case False
    with n show ?thesis by linarith
  qed
  moreover have "dl_ws x = ws" if "x \<in> set (ds_deltas s)" "dl_doc x = i" for x
  proof -
    have "\<exists>c. doc_core s (dl_doc x) = Some c \<and> fst c = dl_ws x" using ok that(1) by (simp add: store_ok_def)
    with row r that(2) show ?thesis by (auto simp: doc_core_def core_def)
  qed
  moreover have "last ?log \<in> set (ds_deltas s)" using last_in_set [OF log(1)] by (simp add: deltas_after_def)
  then have "1 \<le> n" using ok last by (auto simp: store_ok_def)
  moreover note shape = wr dist
  ultimately show "\<forall>x \<in> set (ds_deltas s1). dl_doc x \<noteq> i" "doc_row s1 i = Some r1" "1 \<le> d_floor r1" "distinct (map d_id (docs s1))"
    by - (erule (1) ReplaceSnapshot_shape; auto simp: set_delete_rows)+
qed

text \<open>After a compaction that folded the whole log, the next update gets the number one
  again, which lies below the floor of the snapshot.  It is acknowledged and stored, but the document
  as everybody opens it lacks the update, and the updates to be compacted are counted without it.\<close>

theorem append_after_full_compaction_is_hidden:
  assumes "(doc_step foldf)\<^sup>*\<^sup>* doc_start y" "doc_row (dy_store y) i = Some r0"
    and "deltas_after (dy_store y) ws i (d_floor r0) \<noteq> []" "length (deltas_after (dy_store y) ws i (d_floor r0)) \<le> 640"
    and "Compact flt tx (\<lambda>s. s) (YjsMergeFold rt) now ws i (dy_store y) = (Inr r1, s1)"
    and "doc_AppendDelta flt' (\<lambda>s. s) (\<lambda>s. s) now' ws i payload author s1 = (Inr a, s2)"
    and "Snapshot flt'' s2 ws i = Inr sn"
  shows "dl_seq (ar_delta a) = 1 \<and> ar_delta a \<in> set (ds_deltas s2) \<and> ar_count a = 0
    \<and> d_state (sn_document sn) = d_state r1 \<and> sn_tail sn = []"
proof -
  have ok: "store_ok (dy_store y)" using reachable_inv [OF assms(1)] by (simp add: system_inv_def)
  note s1 = full_compaction_empties_log [OF ok assms(2-5)]
  let ?x = "\<lparr>dl_doc = i, dl_seq = 0, dl_payload = payload, dl_author = author, dl_created_at = 0, dl_ws = ws\<rparr>"
  obtain r where meta: "doc_row_GetMetadata flt' s1 ws i = Inr r"
    using assms(6) by (cases "doc_row_GetMetadata flt' s1 ws i") (auto simp: doc_AppendDelta_def split: if_splits)
  then obtain r' where "find (visible_doc ws i) (docs s1) = Some r'" "r = list_item r'"
    by (auto simp: doc_row_GetMetadata_def split: if_splits option.splits)
  with visible_doc_row [OF s1(4)] s1(2) have r: "r = list_item r1" "d_ws r1 = ws" "d_id r1 = i" by auto
  from assms(6) meta obtain x' where ap: "repo_AppendDelta flt' now' ?x s1 = (Inr x', s2)"
    and a: "ar_delta a = x'" "ar_count a = 0 \<or> ar_count a = length (deltas_after s2 ws i (d_floor r))"
    by (auto simp: doc_AppendDelta_def CountDeltasAfter_def split: if_splits sum.splits prod.splits)
  have "filter (\<lambda>x. dl_doc x = i) (ds_deltas s1) = []" using s1(1) by (auto simp: filter_empty_conv)
  then have seq: "next_seq i (ds_deltas s1) = 1" by (simp add: next_seq_def)
  from ap obtain docs: "docs s2 = update_rows (\<lambda>r. d_ws r = ws \<and> d_id r = i) (\<lambda>r. r\<lparr>d_updated_at := now'\<rparr>) (docs s1)"
    and log: "ds_deltas s2 = ds_deltas s1 @ [x']" and x': "dl_seq x' = 1" "dl_doc x' = i"
    by (rule repo_AppendDelta_shape) (auto simp: seq)
  have none: "deltas_after s2 ws i n = []" if "1 \<le> n" for n
    using s1(1) x' that by (auto simp: deltas_after_def log filter_empty_conv)
  have row2: "doc_row s2 i = Some (r1\<lparr>d_updated_at := now'\<rparr>)"
    using s1(2) r(2,3) by (simp add: doc_row_def docs find_key_update_rows)
  have "map d_id (docs s2) = map d_id (docs s1)" by (simp add: docs update_rows_def)
  with s1(4) have dist: "distinct (map d_id (docs s2))" by simp
  from assms(7) obtain r2 tail where b: "GetSnapshotBundle flt'' s2 ws i MaxSnapshotTailDeltas = Inr (r2, tail)"
    and sn: "sn_document sn = r2" "sn_tail sn = tail"
    by (auto simp: Snapshot_def split: sum.splits)
  then obtain k where find2: "find (visible_doc ws i) (docs s2) = Some r2" and tail: "tail = take k (deltas_after s2 ws i (d_floor r2))"
    by (auto simp: GetSnapshotBundle_def doc_row_GetByID_def Let_def split: if_splits sum.splits option.splits)
  from visible_doc_row(1) [OF dist find2] row2 have r2: "r2 = r1\<lparr>d_updated_at := now'\<rparr>" by simp
  show ?thesis using a none [of "d_floor r1"] s1(3) x' log by (auto simp: sn r2 tail r(1) list_item_def)
qed

text \<open>After the compaction of both updates, a third is appended and the document opened.\<close>

theorem append_after_full_compaction_is_hidden_witness:
  "(case doc_AppendDelta no_faults (\<lambda>s. s) (\<lambda>s. s) 9 7 20 ''C'' 9 cx_store3 of
      (Inr a, s) \<Rightarrow> dl_seq (ar_delta a) = 1
        \<and> (case Snapshot no_faults s 7 20 of Inr sn \<Rightarrow> d_state (sn_document sn) = ''AB'' \<and> sn_tail sn = [] | _ \<Rightarrow> False)
    | _ \<Rightarrow> False)"
proof -
  define a where "a = doc_AppendDelta no_faults (\<lambda>s. s) (\<lambda>s. s) 9 7 20 ''C'' 9 cx_store3"
  obtain x s where ap: "doc_AppendDelta no_faults (\<lambda>s. s) (\<lambda>s. s) 9 7 20 ''C'' 9 cx_store3 = (Inr x, s)"
  proof -
    have "\<not> isl (fst a)" unfolding a_def by code_simp
    then show thesis using that by (cases a; cases "fst a") (auto simp: a_def)
  qed
  obtain sn where sn: "Snapshot no_faults s 7 20 = Inr sn"
  proof -
    have "\<not> isl (Snapshot no_faults (snd a) 7 20)" unfolding a_def by code_simp
    then show thesis using that ap by (cases "Snapshot no_faults (snd a) 7 20") (auto simp: a_def)
  qed
  have row: "doc_row (dy_store (cx_sys cx_store2 [cx_read cx_store2, cx_read cx_store1])) 20 = Some (hd (docs cx_store2))" by code_simp
  have log: "deltas_after (dy_store (cx_sys cx_store2 [cx_read cx_store2, cx_read cx_store1])) 7 20 (d_floor (hd (docs cx_store2))) \<noteq> []"
    "length (deltas_after (dy_store (cx_sys cx_store2 [cx_read cx_store2, cx_read cx_store1])) 7 20 (d_floor (hd (docs cx_store2)))) \<le> 640"
    by code_simp+
  have comp: "Compact no_faults (\<lambda>_. None) (\<lambda>s. s) (YjsMergeFold cx_runtime) 8 7 20 (dy_store (cx_sys cx_store2 [cx_read cx_store2, cx_read cx_store1]))
      = (Inr (fst (cx_read cx_store3)), cx_store3)" by code_simp
  have "d_state (fst (cx_read cx_store3)) = ''AB''" by code_simp
  with append_after_full_compaction_is_hidden [OF cx_reach2 row log comp ap sn] show ?thesis by (simp add: ap sn)
qed

section \<open>Frames\<close>

lemma getUint32_PutUint32:
  assumes "n < 2 ^ 32"
  shows "getUint32 (PutUint32 n @ rest) = n"
proof -
  have "n div 16777216 mod 256 = n div 16777216" using assms by (simp add: less_mult_imp_div_less)
  moreover have "256 * (n div 16777216) + n div 65536 mod 256 = n div 65536"
    using div_mult2_eq [of n 65536 256] mult_div_mod_eq [of 256 "n div 65536"] by simp
  moreover have "256 * (n div 65536) + n div 256 mod 256 = n div 256"
    using div_mult2_eq [of n 256 256] mult_div_mod_eq [of 256 "n div 256"] by simp
  moreover have "256 * (n div 256) + n mod 256 = n" by simp
  ultimately show ?thesis by (simp add: getUint32_def PutUint32_def)
qed

lemma length_PutUint32 [simp]: "length (PutUint32 n) = 4"
  by (simp add: PutUint32_def)

lemma split_LengthPrefix:
  assumes "length b < 2 ^ 32"
  shows "splitLengthPrefixed (LengthPrefix b @ rest) = b # splitLengthPrefixed rest"
  by (subst splitLengthPrefixed.simps) (use assms in \<open>simp add: LengthPrefix_def getUint32_PutUint32 Let_def\<close>)

lemma split_bundle: "(\<And>b. b \<in> set bs \<Longrightarrow> length b < 2 ^ 32) \<Longrightarrow> splitLengthPrefixed (concat (map LengthPrefix bs)) = bs"
proof (induction bs)
  case Nil
  show ?case by (simp add: splitLengthPrefixed.simps)
next
  case (Cons b bs)
  then show ?case by (simp add: split_LengthPrefix)
qed

text \<open>C27 (roundtrip).  The frame an editor gets when it connects is one its decoder takes for a bundle,
  and the bundle splits into the state and the updates it was made of; of an update frame the decoder
  gets the update.\<close>

theorem frames_roundtrip:
  assumes "\<And>b. b \<in> set (yState # tail) \<Longrightarrow> length b < 2 ^ 32"
  shows "splitLengthPrefixed (drop 2 (encodeSnapshotFrame yState tail)) = yState # tail
    \<and> take 2 (encodeSnapshotFrame yState tail) = [MessageSync, SyncStepUpdates]
    \<and> (int (length p) \<le> MaxFrameBytes - 2 \<longrightarrow>
         DecodeFrame (EncodeSyncUpdate p) = Inr \<lparr>fr_type = MessageSync, fr_sub = SyncUpdate, fr_payload = p\<rparr>
         \<and> DecodeFrame (EncodeAwareness p) = Inr \<lparr>fr_type = MessageAwareness, fr_sub = CHR 0x00, fr_payload = p\<rparr>)"
  using split_bundle [OF assms, of "yState # tail"]
  by (simp add: encodeSnapshotFrame_def EncodeSyncStepUpdates_def AssembleSnapshotBundle_def DecodeFrame_def EncodeSyncUpdate_def
      EncodeAwareness_def MessageSync_def MessageAwareness_def)

theorem frames_roundtrip_witness:
  "splitLengthPrefixed (drop 2 (encodeSnapshotFrame [] [''ab'', ''c''])) = [[], ''ab'', ''c'']"
proof -
  have "length b < 2 ^ 32" if "b \<in> set ([] # [''ab'', ''c''])" for b :: string using that by auto
  from frames_roundtrip [OF this] show ?thesis by blast
qed

section \<open>Editors\<close>

text \<open>Of the other editors of a room, a delivery changes at most who is still connected.\<close>

lemma deliverTo_client:
  "hb_clients (deliverTo coin p c h) d =
     (if d \<noteq> c then hb_clients h d
      else let x = hb_clients h c in
        if has_room x \<and> (coin \<or> \<not> cl_done x) then x\<lparr>cl_sent := cl_sent x @ [p]\<rparr>
        else if cl_done x then x else x\<lparr>cl_done := True\<rparr>)"
  by (simp add: deliverTo_def send_frame_def hub_Unregister_def put_client_def Let_def split: option.split)

lemma fold_deliver_client:
  assumes "distinct cs"
  shows "hb_clients (fold (deliverTo coin p) cs h) d = (if d \<in> set cs then hb_clients (deliverTo coin p d h) d else hb_clients h d)"
  using assms
proof (induction cs arbitrary: h)
  case (Cons c cs)
  have "hb_clients (deliverTo coin p d (deliverTo coin p c h)) d = hb_clients (deliverTo coin p d h) d" if "d \<noteq> c"
    using that by (simp add: deliverTo_client)
  with Cons show ?case by (auto simp: deliverTo_client [of coin p c h d])
qed simp

definition hub_ok :: "hub \<Rightarrow> bool" where
  "hub_ok h = (\<forall>i. distinct (room_of h i))"

text \<open>A frame of an editor reaches the log and the other editors exactly as it may:
  without write access nothing is stored or passed on; an accepted update is stored under its
  document, and every other connected editor of the room gets it as the next frame, or is
  disconnected if its queue is full; the sender gets nothing back.\<close>

theorem update_reaches_room:
  assumes "hub_ok h" "handleSyncUpdate env c payload h s = out"
  shows "(\<not> cl_can_write (hb_clients h c) \<longrightarrow> ho_error out = Some CollabErrUnauthorizedWrite \<and> ho_hub out = h \<and> ho_store out = s \<and> ho_published out = [])
    \<and> (ho_error out = None \<longrightarrow>
         (\<forall>d \<in> set (room_of h (cl_doc (hb_clients h c))). d \<noteq> c \<and> \<not> cl_done (hb_clients h d) \<longrightarrow>
            hb_clients (ho_hub out) d =
              (if has_room (hb_clients h d) then (hb_clients h d)\<lparr>cl_sent := cl_sent (hb_clients h d) @ [EncodeSyncUpdate payload]\<rparr>
               else (hb_clients h d)\<lparr>cl_done := True\<rparr>))
         \<and> hb_clients (ho_hub out) c = hb_clients h c)"
proof -
  have dist: "distinct (filter (\<lambda>d. d \<noteq> c) (room_of h i))" for i using assms(1) by (simp add: hub_ok_def)
  show ?thesis
    using assms(2) by (auto simp: handleSyncUpdate_def Let_def unhandled_def broadcastExcept_def fold_deliver_client [OF dist] deliverTo_client
        split: sum.splits prod.splits if_splits)
qed

text \<open>Two editors in the room of the document of the example, and a viewer.\<close>

definition cx_hub :: hub where
  "cx_hub = \<lparr>hb_clients = (\<lambda>c. NewClient 7 c 20 (c \<noteq> 3) (ResolveCapability EncryptionManagedEncrypted)),
     hb_rooms = [20 \<mapsto> [1, 2, 3]], hb_shutting_down = False\<rparr>"

definition cx_env :: handle_env where
  "cx_env = \<lparr>he_faults = no_faults, he_others = (\<lambda>s. s), he_others' = (\<lambda>s. s), he_now = 9, he_coin = False, he_relay = True,
     he_scheduler = True\<rparr>"

lemma cx_hub_ok: "hub_ok cx_hub"
  by (simp add: hub_ok_def cx_hub_def room_of_def)

theorem update_reaches_room_witness:
  "ho_error (handleSyncUpdate cx_env 1 ''C'' cx_hub cx_store2) = None
   \<and> cl_sent (hb_clients (ho_hub (handleSyncUpdate cx_env 1 ''C'' cx_hub cx_store2)) 3) = [EncodeSyncUpdate ''C'']
   \<and> ho_error (handleSyncUpdate cx_env 3 ''C'' cx_hub cx_store2) = Some CollabErrUnauthorizedWrite"
proof -
  have ok: "ho_error (handleSyncUpdate cx_env 1 ''C'' cx_hub cx_store2) = None" by code_simp
  have c: "3 \<in> set (room_of cx_hub (cl_doc (hb_clients cx_hub 1)))" "\<not> cl_done (hb_clients cx_hub 3)" "has_room (hb_clients cx_hub 3)"
    "cl_sent (hb_clients cx_hub 3) = []" "\<not> cl_can_write (hb_clients cx_hub 3)" by code_simp+
  from update_reaches_room [where env = cx_env and c = 1 and payload = "''C''" and s = cx_store2, OF cx_hub_ok refl] ok c
  have "cl_sent (hb_clients (ho_hub (handleSyncUpdate cx_env 1 ''C'' cx_hub cx_store2)) 3) = [EncodeSyncUpdate ''C'']" by fastforce
  with update_reaches_room [where env = cx_env and c = 3 and payload = "''C''" and s = cx_store2, OF cx_hub_ok refl] ok c show ?thesis by blast
qed

text \<open>A connecting editor reads its snapshot before it enters the room.  An update that is
  stored and broadcast in between is neither in its snapshot nor sent to it, although the editor is
  connected from then on.\<close>

theorem update_during_connect_is_missed:
  assumes "Snapshot flt s ws i = Inr sn" "handleSyncUpdate env c payload h s = out" "ho_error out = None" "he_others' env = (\<lambda>s. s)"
    and "payload \<notin> set (d_state (sn_document sn) # map dl_payload (sn_tail sn))"
    and "\<And>b. b \<in> set (d_state (sn_document sn) # map dl_payload (sn_tail sn)) \<Longrightarrow> length b < 2 ^ 32"
    and "h' = connect_client sn ws user canWrite d (ho_hub out)"
  shows "(\<exists>x \<in> set (ds_deltas (ho_store out)). dl_doc x = cl_doc (hb_clients h c) \<and> dl_payload x = payload)
    \<and> d \<in> set (room_of h' (d_id (sn_document sn))) \<and> \<not> cl_done (hb_clients h' d)
    \<and> length (cl_sent (hb_clients h' d)) = 1 \<and> payload \<notin> set (splitLengthPrefixed (drop 2 (hd (cl_sent (hb_clients h' d)))))"
proof -
  have "\<exists>x \<in> set (ds_deltas (ho_store out)). dl_doc x = cl_doc (hb_clients h c) \<and> dl_payload x = payload"
    using assms(2-4)
    by (auto simp: handleSyncUpdate_def unhandled_def doc_AppendDelta_def repo_AppendDelta_def Let_def split: if_splits sum.splits prod.splits)
  moreover have "cl_sent (hb_clients h' d) = [encodeSnapshotFrame (d_state (sn_document sn)) (map dl_payload (sn_tail sn))]"
    "d \<in> set (room_of h' (d_id (sn_document sn)))" "\<not> cl_done (hb_clients h' d)"
    by (simp_all add: assms(7) connect_client_def RegisterWithSnapshot_def hub_Register_def put_client_def NewClient_def send_frame_def
        has_room_def ClientSendBufferSize_def room_of_def Let_def)
  moreover have "splitLengthPrefixed (drop 2 (encodeSnapshotFrame (d_state (sn_document sn)) (map dl_payload (sn_tail sn))))
      = d_state (sn_document sn) # map dl_payload (sn_tail sn)"
    using split_bundle [OF assms(6), of "d_state (sn_document sn) # map dl_payload (sn_tail sn)"]
    by (simp add: encodeSnapshotFrame_def EncodeSyncStepUpdates_def AssembleSnapshotBundle_def)
  ultimately show ?thesis using assms(5) by simp
qed

definition cx_snapshot :: snapshot_result where
  "cx_snapshot = (case Snapshot no_faults cx_store2 7 20 of Inr sn \<Rightarrow> sn | Inl _ \<Rightarrow> undefined)"

definition cx_joined :: hub where
  "cx_joined = connect_client cx_snapshot 7 4 True 4 (ho_hub (handleSyncUpdate cx_env 1 ''C'' cx_hub cx_store2))"

theorem update_during_connect_is_missed_witness:
  "map dl_payload (ds_deltas (ho_store (handleSyncUpdate cx_env 1 ''C'' cx_hub cx_store2))) = [''A'', ''B'', ''C'']
   \<and> length (cl_sent (hb_clients cx_joined 4)) = 1
   \<and> ''C'' \<notin> set (splitLengthPrefixed (drop 2 (hd (cl_sent (hb_clients cx_joined 4)))))"
proof -
  have sn: "Snapshot no_faults cx_store2 7 20 = Inr cx_snapshot" by code_simp
  have bytes: "d_state (sn_document cx_snapshot) # map dl_payload (sn_tail cx_snapshot) = [[], ''A'', ''B'']" by code_simp
  have ok: "ho_error (handleSyncUpdate cx_env 1 ''C'' cx_hub cx_store2) = None" "he_others' cx_env = (\<lambda>s. s)"
    by (code_simp, simp add: cx_env_def)
  have "''C'' \<notin> set (d_state (sn_document cx_snapshot) # map dl_payload (sn_tail cx_snapshot))"
    "\<And>b. b \<in> set (d_state (sn_document cx_snapshot) # map dl_payload (sn_tail cx_snapshot)) \<Longrightarrow> length b < 2 ^ 32"
    unfolding bytes by auto
  from update_during_connect_is_missed [OF sn refl ok this, of cx_joined 4 True 4]
  have "length (cl_sent (hb_clients cx_joined 4)) = 1" "''C'' \<notin> set (splitLengthPrefixed (drop 2 (hd (cl_sent (hb_clients cx_joined 4)))))"
    by (simp_all add: cx_joined_def)
  moreover have "map dl_payload (ds_deltas (ho_store (handleSyncUpdate cx_env 1 ''C'' cx_hub cx_store2))) = [''A'', ''B'', ''C'']" by code_simp
  ultimately show ?thesis by blast
qed

end
