(* ===== verification/Webhook_Address.thy ===== *)
theory Webhook_Address
  imports Prelude "HOL-Library.Word"
begin

unbundle bit_operations_syntax

text \<open>
  The addresses webhooks may be sent to (\<^verbatim>\<open>internal/webhooks/ssrf.go\<close>): the tests of package
  \<^verbatim>\<open>net\<close> the code calls, the blocked ranges, and the validation of an address at creation and
  before each attempt.  The parsers of URLs and of IP literals and the DNS resolver are parameters.
\<close>

section \<open>IP addresses\<close>

text \<open>A \<^verbatim>\<open>net.IP\<close> is a slice of 4 or 16 bytes, or nil.\<close>

type_synonym byte = "8 word"
type_synonym ip = "byte list"

definition v4_mapped_prefix :: ip where
  "v4_mapped_prefix = replicate 10 0 @ [0xFF, 0xFF]"

definition To4 :: "ip \<Rightarrow> ip option" where
  "To4 ip =
     (if length ip = 4 then Some ip
      else if length ip = 16 \<and> take 12 ip = v4_mapped_prefix then Some (drop 12 ip)
      else None)"

definition IPv6loopback :: ip where
  "IPv6loopback = replicate 15 0 @ [1]"

definition IPv4zero :: ip where
  "IPv4zero = v4_mapped_prefix @ [0, 0, 0, 0]"

definition IPv6unspecified :: ip where
  "IPv6unspecified = replicate 16 0"

text \<open>\<^verbatim>\<open>IP.Equal\<close>: a mapped address equals the address it maps.\<close>

definition ip_Equal :: "ip \<Rightarrow> ip \<Rightarrow> bool" where
  "ip_Equal a b =
     (if length a = length b then a = b
      else if length a = 4 \<and> length b = 16 then b = v4_mapped_prefix @ a
      else length a = 16 \<and> length b = 4 \<and> a = v4_mapped_prefix @ b)"

definition IsLoopback :: "ip \<Rightarrow> bool" where
  "IsLoopback ip = (case To4 ip of Some v \<Rightarrow> v ! 0 = 127 | None \<Rightarrow> ip_Equal ip IPv6loopback)"

definition IsUnspecified :: "ip \<Rightarrow> bool" where
  "IsUnspecified ip = (ip_Equal ip IPv4zero \<or> ip_Equal ip IPv6unspecified)"

definition IsLinkLocalUnicast :: "ip \<Rightarrow> bool" where
  "IsLinkLocalUnicast ip = (case To4 ip of
      Some v \<Rightarrow> v ! 0 = 169 \<and> v ! 1 = 254
    | None \<Rightarrow> length ip = 16 \<and> ip ! 0 = 0xFE \<and> ip ! 1 AND 0xC0 = 0x80)"

definition IsLinkLocalMulticast :: "ip \<Rightarrow> bool" where
  "IsLinkLocalMulticast ip = (case To4 ip of
      Some v \<Rightarrow> v ! 0 = 224 \<and> v ! 1 = 0 \<and> v ! 2 = 0
    | None \<Rightarrow> length ip = 16 \<and> ip ! 0 = 0xFF \<and> ip ! 1 AND 0x0F = 0x02)"

definition IsMulticast :: "ip \<Rightarrow> bool" where
  "IsMulticast ip = (case To4 ip of
      Some v \<Rightarrow> v ! 0 AND 0xF0 = 0xE0
    | None \<Rightarrow> length ip = 16 \<and> ip ! 0 = 0xFF)"

definition IsPrivate :: "ip \<Rightarrow> bool" where
  "IsPrivate ip = (case To4 ip of
      Some v \<Rightarrow> v ! 0 = 10 \<or> (v ! 0 = 172 \<and> v ! 1 AND 0xF0 = 16) \<or> (v ! 0 = 192 \<and> v ! 1 = 168)
    | None \<Rightarrow> length ip = 16 \<and> ip ! 0 AND 0xFE = 0xFC)"

text \<open>\<^verbatim>\<open>net.CIDRMask\<close> and \<^verbatim>\<open>IPNet.Contains\<close>.\<close>

primrec CIDRMask :: "nat \<Rightarrow> nat \<Rightarrow> ip" where
  "CIDRMask ones 0 = []"
| "CIDRMask ones (Suc l) =
     (if 8 \<le> ones then 0xFF # CIDRMask (ones - 8) l else NOT (drop_bit ones 0xFF) # CIDRMask 0 l)"

fun masked_equal :: "ip \<Rightarrow> ip \<Rightarrow> ip \<Rightarrow> bool" where
  "masked_equal (m # ms) (a # as) (b # bs) = (a AND m = b AND m \<and> masked_equal ms as bs)"
| "masked_equal _ _ _ = True"

text \<open>A network as \<^verbatim>\<open>ParseCIDR\<close> returns it: address and number of leading ones.\<close>

type_synonym ip_net = "ip \<times> nat"

definition Contains :: "ip_net \<Rightarrow> ip \<Rightarrow> bool" where
  "Contains n ip =
     (let ip = (case To4 ip of Some v \<Rightarrow> v | None \<Rightarrow> ip)
      in length ip = length (fst n) \<and> masked_equal (CIDRMask (snd n) (length (fst n))) (fst n) ip)"

section \<open>The validator\<close>

record url =
  u_Scheme :: string
  u_Host :: string
  u_User :: "string option"
  u_String :: string

datatype url_error =
    ErrURLInvalid string
  | ErrURLBlocked string

record url_validator =
  AllowHTTP :: bool
  AllowLoopback :: bool

definition NewURLValidator :: url_validator where
  "NewURLValidator = \<lparr>AllowHTTP = False, AllowLoopback = False\<rparr>"

record net_env =
  ne_ParseURL :: "string \<Rightarrow> url option"
  ne_ParseIP :: "string \<Rightarrow> ip option"
  ne_LookupIPAddr :: "string \<Rightarrow> ip option list option"  \<comment> \<open>\<^const>\<open>None\<close>: the lookup fails\<close>

definition v6_net :: "byte list \<Rightarrow> nat \<Rightarrow> ip_net" where
  "v6_net bs n = (bs @ replicate (16 - length bs) 0, n)"

definition extraBlockedRanges :: "(ip_net \<times> string) list" where
  "extraBlockedRanges =
     [(([100, 64, 0, 0], 10), ''rfc6598 carrier nat''),
      (([192, 0, 0, 0], 24), ''rfc6890 reserved''),
      (([192, 0, 2, 0], 24), ''rfc5737 documentation''),
      (([198, 18, 0, 0], 15), ''rfc2544 benchmark''),
      (([198, 51, 100, 0], 24), ''rfc5737 documentation''),
      (([203, 0, 113, 0], 24), ''rfc5737 documentation''),
      (([240, 0, 0, 0], 4), ''rfc1112 reserved (class e)''),
      (v6_net [0xFC, 0x00] 7, ''ipv6 ula''),
      (v6_net [0x20, 0x01, 0x0D, 0xB8] 32, ''ipv6 documentation'')]"

definition blockedReason :: "url_validator \<Rightarrow> ip option \<Rightarrow> string option" where
  "blockedReason v i =
     (case i of
        None \<Rightarrow> Some ''nil IP''
      | Some ip \<Rightarrow>
          let ip = (case To4 ip of Some v4 \<Rightarrow> v4 | None \<Rightarrow> ip) in
          if IsLoopback ip then (if AllowLoopback v then None else Some ''loopback'')
          else if IsUnspecified ip then Some ''unspecified''
          else if IsLinkLocalUnicast ip \<or> IsLinkLocalMulticast ip then Some ''link-local (includes cloud metadata IPs)''
          else if IsMulticast ip then Some ''multicast''
          else if IsPrivate ip then Some ''rfc1918 private''
          else map_option snd (find (\<lambda>r. Contains (fst r) ip) extraBlockedRanges))"

text \<open>\<^verbatim>\<open>URL.Hostname\<close>: the host without port and brackets.\<close>

definition validOptionalPort :: "string \<Rightarrow> bool" where
  "validOptionalPort p =
     (case p of [] \<Rightarrow> True
      | c # cs \<Rightarrow> c = CHR '':'' \<and> (\<forall>b \<in> set cs. 48 \<le> (of_char b :: nat) \<and> of_char b \<le> (57 :: nat)))"

definition Hostname :: "url \<Rightarrow> string" where
  "Hostname u =
     (let h = u_Host u;
          h = (case LastIndexByte h CHR '':'' of
                 None \<Rightarrow> h
               | Some i \<Rightarrow> if validOptionalPort (drop i h) then take i h else h)
      in if prefix ''['' h \<and> suffix '']'' h then take (length h - 2) (drop 1 h) else h)"

definition lookup :: "net_env \<Rightarrow> string \<Rightarrow> ip option list option" where
  "lookup env host =
     (case ne_ParseIP env host of Some ip \<Rightarrow> Some [Some ip] | None \<Rightarrow> ne_LookupIPAddr env host)"

definition check_addresses :: "url_validator \<Rightarrow> net_env \<Rightarrow> string \<Rightarrow> url_error option" where
  "check_addresses v env host =
     (case lookup env host of
        None \<Rightarrow> Some (ErrURLInvalid ''resolve'')
      | Some [] \<Rightarrow> Some (ErrURLInvalid ''no addresses'')
      | Some addrs \<Rightarrow>
          (case find (\<lambda>a. blockedReason v a \<noteq> None) addrs of
             Some a \<Rightarrow> Some (ErrURLBlocked (the (blockedReason v a)))
           | None \<Rightarrow> None))"

definition Validate :: "url_validator \<Rightarrow> net_env \<Rightarrow> string \<Rightarrow> url_error + url" where
  "Validate v env raw =
     (case ne_ParseURL env (TrimSpace raw) of
        None \<Rightarrow> Inl (ErrURLInvalid ''parse'')
      | Some u \<Rightarrow>
          let scheme = map lower_byte (u_Scheme u) in
          if scheme = ''http'' \<and> \<not> AllowHTTP v then Inl (ErrURLInvalid ''http scheme not allowed'')
          else if scheme \<noteq> ''https'' \<and> scheme \<noteq> ''http'' then Inl (ErrURLInvalid ''scheme not allowed'')
          else if u_Host u = [] then Inl (ErrURLInvalid ''missing host'')
          else if u_User u \<noteq> None then Inl (ErrURLInvalid ''userinfo not allowed in url'')
          else if Hostname u = [] then Inl (ErrURLInvalid ''empty hostname'')
          else case check_addresses v env (Hostname u) of
                 Some e \<Rightarrow> Inl e
               | None \<Rightarrow> Inr u)"

definition ValidateResolved :: "url_validator \<Rightarrow> net_env \<Rightarrow> url \<Rightarrow> url_error option" where
  "ValidateResolved v env u =
     (if Hostname u = [] then Some (ErrURLInvalid ''empty hostname'')
      else check_addresses v env (Hostname u))"

section \<open>Ranges of addresses as numbers\<close>

primrec ip_value :: "ip \<Rightarrow> nat" where
  "ip_value [] = 0"
| "ip_value (b # bs) = unat b * 256 ^ length bs + ip_value bs"

text \<open>The specification of a block \<^verbatim>\<open>a/n\<close>: the addresses whose leading \<open>n\<close> bits are those
  of \<open>a\<close>.\<close>

definition in_block :: "ip_net \<Rightarrow> ip \<Rightarrow> bool" where
  "in_block n ip =
     (length ip = length (fst n)
      \<and> ip_value ip div 2 ^ (8 * length ip - snd n) = ip_value (fst n) div 2 ^ (8 * length ip - snd n))"

lemma unat_byte: "unat (b :: byte) < 256"
proof -
  have "unat b < 2 ^ LENGTH(8)" by (rule unsigned_less)
  then show ?thesis by simp
qed

lemma neg_byte [simp]:
  "(- 256 :: byte) = 0" "(- 64 :: byte) = 0xC0" "(- 16 :: byte) = 0xF0" "(- 2 :: byte) = 0xFE"
  by code_simp+

text \<open>A statement about a byte is decided on the 256 values.\<close>

lemma byte_all:
  assumes "list_all (\<lambda>n. P (word_of_nat n)) [0..<256]"
  shows "P (b :: byte)"
proof -
  have "unat b \<in> set [0..<256]" using unat_byte [of b] by simp
  with assms have "P (word_of_nat (unat b))" by (simp only: list_all_iff)
  then show ?thesis by simp
qed

lemma byte_and_ones [simp]: "(b :: byte) AND 0xFF = b"
  by (rule byte_all) code_simp

lemma ip_value_less: "ip_value bs < 256 ^ length bs"
proof (induction bs)
  case (Cons b bs)
  have "Suc (unat b) * 256 ^ length bs \<le> 256 * 256 ^ length bs"
    using unat_byte [of b] by (intro mult_le_mono1) simp
  moreover have "ip_value (b # bs) < Suc (unat b) * 256 ^ length bs" using Cons by simp
  ultimately show ?case by (simp only: length_Cons power_Suc) 
qed simp

lemma drop_byte: "\<forall>n \<in> set [0..<9]. NOT (drop_bit n (0xFF :: byte)) = NOT (mask (8 - n))"
  by code_simp

lemma masked_byte:
  assumes "n \<le> 8"
  shows "(a :: byte) AND NOT (drop_bit n 0xFF) = b AND NOT (drop_bit n 0xFF)
     \<longleftrightarrow> unat a div 2 ^ (8 - n) = unat b div 2 ^ (8 - n)"
proof -
  have m: "NOT (drop_bit n (0xFF :: byte)) = NOT (mask (8 - n))"
    using drop_byte assms by simp
  have "drop_bit (8 - n) (c AND NOT (mask (8 - n))) = drop_bit (8 - n) c"
    "c AND NOT (mask (8 - n)) = push_bit (8 - n) (drop_bit (8 - n) c)" for c :: byte
    by (rule bit_eqI; auto simp: bit_simps dest: bit_imp_le_length)+
  then have "a AND NOT (mask (8 - n)) = b AND NOT (mask (8 - n)) \<longleftrightarrow> drop_bit (8 - n) a = drop_bit (8 - n) b"
    by metis
  also have "\<dots> \<longleftrightarrow> unat (drop_bit (8 - n) a) = unat (drop_bit (8 - n) b)"
    by (simp add: word_eq_iff_unsigned)
  also have "\<dots> \<longleftrightarrow> unat a div 2 ^ (8 - n) = unat b div 2 ^ (8 - n)"
    unfolding unat_drop_bit_eq unfolding drop_bit_eq_div by (rule refl)
  finally show ?thesis unfolding m .
qed

lemma div_block:
  assumes "v < 256 ^ l" "e \<le> 8 * l"
  shows "(x * 256 ^ l + v) div 2 ^ e = x * 2 ^ (8 * l - e) + v div (2 ^ e :: nat)"
    and "v div 2 ^ e < (2 :: nat) ^ (8 * l - e)"
proof -
  have p: "(256 :: nat) ^ l = 2 ^ (8 * l - e) * 2 ^ e"
    using assms(2) power_mult [of "2 :: nat" 8 l] by (simp flip: power_add)
  have "x * 256 ^ l + v = (x * 2 ^ (8 * l - e)) * 2 ^ e + v" unfolding p by simp
  then show "(x * 256 ^ l + v) div 2 ^ e = x * 2 ^ (8 * l - e) + v div (2 ^ e :: nat)"
    by (metis div_mult_self3 power_not_zero zero_neq_numeral add.commute)
  show "v div 2 ^ e < (2 :: nat) ^ (8 * l - e)"
    using assms(1) unfolding p by (simp add: less_mult_imp_div_less)
qed

lemma mult_add_eq_iff:
  assumes "p < k" "q < (k :: nat)"
  shows "u * k + p = v * k + q \<longleftrightarrow> u = v \<and> p = q"
proof
  assume eq: "u * k + p = v * k + q"
  have "u = (u * k + p) div k" "v = (v * k + q) div k" using assms by auto
  with eq show "u = v \<and> p = q" by auto
qed simp

lemma CIDRMask_0: "masked_equal (CIDRMask 0 l) xs ys"
proof (induction l arbitrary: xs ys)
  case (Suc l xs ys)
  then show ?case by (cases xs; cases ys) auto
qed simp

lemma masked_equal_value:
  assumes "length xs = length ys" "n \<le> 8 * length ys"
  shows "masked_equal (CIDRMask n (length ys)) xs ys
     \<longleftrightarrow> ip_value ys div 2 ^ (8 * length ys - n) = ip_value xs div 2 ^ (8 * length ys - n)"
  using assms
proof (induction xs ys arbitrary: n rule: list_induct2)
  case (Cons x xs y ys)
  let ?l = "length ys"
  note less = ip_value_less [of xs] ip_value_less [of ys]
  show ?case
  proof (cases "8 \<le> n")
    case True
    let ?e = "8 * ?l - (n - 8)" and ?k = "8 * ?l - (8 * ?l - (n - 8))"
    have split: "(u * 256 ^ ?l + v) div 2 ^ ?e = u * 2 ^ ?k + v div 2 ^ ?e" "v div 2 ^ ?e < 2 ^ ?k"
      if "v < 256 ^ ?l" for u v :: nat using div_block(1) [OF that, of ?e u] div_block(2) [OF that, of ?e] by simp_all
    have "masked_equal (CIDRMask n (Suc ?l)) (x # xs) (y # ys)
        \<longleftrightarrow> unat x = unat y \<and> ip_value ys div 2 ^ ?e = ip_value xs div 2 ^ ?e"
      using True Cons by (auto simp: word_eq_iff_unsigned [where ?'a = nat])
    also have "\<dots> \<longleftrightarrow> unat y * 2 ^ ?k + ip_value ys div 2 ^ ?e = unat x * 2 ^ ?k + ip_value xs div 2 ^ ?e"
      using mult_add_eq_iff [of "ip_value ys div 2 ^ ?e" "2 ^ ?k" "ip_value xs div 2 ^ ?e" "unat y" "unat x"]
        split(2) less Cons.hyps by auto
    finally have core: "masked_equal (CIDRMask n (Suc ?l)) (x # xs) (y # ys)
        \<longleftrightarrow> unat y * 2 ^ ?k + ip_value ys div 2 ^ ?e = unat x * 2 ^ ?k + ip_value xs div 2 ^ ?e" .
    moreover have "8 * length (y # ys) - n = ?e" using True by simp
    moreover have "ip_value (y # ys) div 2 ^ ?e = unat y * 2 ^ ?k + ip_value ys div 2 ^ ?e"
      by (simp only: ip_value.simps split(1) [OF less(2)])
    moreover have "ip_value (x # xs) div 2 ^ ?e = unat x * 2 ^ ?k + ip_value xs div 2 ^ ?e"
      using less(1) by (simp only: ip_value.simps Cons.hyps split(1))
    ultimately show ?thesis by (simp only: length_Cons)
  next
    case False
    have "8 * Suc ?l - n = 8 * ?l + (8 - n)" using False by simp
    then have "(u * 256 ^ ?l + v) div 2 ^ (8 * Suc ?l - n) = u div 2 ^ (8 - n)" if "v < 256 ^ ?l" for u v :: nat
      using that power_mult [of "2 :: nat" 8 ?l] by (simp add: power_add div_mult2_eq)
    moreover have "masked_equal (CIDRMask n (Suc ?l)) (x # xs) (y # ys) \<longleftrightarrow> unat x div 2 ^ (8 - n) = unat y div 2 ^ (8 - n)"
      using False CIDRMask_0 masked_byte [of n x y] by simp
    ultimately show ?thesis using less Cons.hyps by auto
  qed
qed simp

lemma Contains_in_block:
  assumes "snd n \<le> 8 * length (fst n)" "To4 ip = None \<or> To4 ip = Some ip"
  shows "Contains n ip \<longleftrightarrow> in_block n ip"
  using assms masked_equal_value [of "fst n" ip "snd n"]
  by (auto simp: Contains_def in_block_def)

text \<open>The ranges the documentation of \<^verbatim>\<open>blockedReason\<close> lists, and the two it leaves out
  (\<^verbatim>\<open>198.18.0.0/15\<close> and \<^verbatim>\<open>240.0.0.0/4\<close>).\<close>

definition loopback_blocks :: "ip_net list" where
  "loopback_blocks = [([127, 0, 0, 0], 8), (IPv6loopback, 128)]"

definition blocked_blocks :: "ip_net list" where
  "blocked_blocks =
     [([0, 0, 0, 0], 32), (IPv6unspecified, 128),
      ([169, 254, 0, 0], 16), v6_net [0xFE, 0x80] 10,
      ([224, 0, 0, 0], 4), v6_net [0xFF] 8,
      ([10, 0, 0, 0], 8), ([172, 16, 0, 0], 12), ([192, 168, 0, 0], 16),
      ([100, 64, 0, 0], 10), v6_net [0xFC] 7,
      ([192, 0, 2, 0], 24), ([198, 51, 100, 0], 24), ([203, 0, 113, 0], 24), v6_net [0x20, 0x01, 0x0D, 0xB8] 32,
      ([192, 0, 0, 0], 24), ([198, 18, 0, 0], 15), ([240, 0, 0, 0], 4)]"

lemma length_4: "length xs = 4 \<longleftrightarrow> (\<exists>a b c d. xs = [a, b, c, d])"
  by (auto simp: length_Suc_conv eval_nat_numeral)

definition unmap :: "ip \<Rightarrow> ip" where
  "unmap ip = (case To4 ip of Some v \<Rightarrow> v | None \<Rightarrow> ip)"

lemma To4_unmap: "To4 (unmap ip) = None \<and> unmap ip = ip \<or> To4 (unmap ip) = Some (unmap ip) \<and> length (unmap ip) = 4"
  by (auto simp: unmap_def To4_def split: option.splits)

text \<open>The masks of the blocks.\<close>

lemma block_masks:
  "CIDRMask 4 4 = [0xF0, 0, 0, 0]" "CIDRMask 8 4 = [0xFF, 0, 0, 0]" "CIDRMask 10 4 = [0xFF, 0xC0, 0, 0]"
  "CIDRMask 12 4 = [0xFF, 0xF0, 0, 0]" "CIDRMask 15 4 = [0xFF, 0xFE, 0, 0]" "CIDRMask 16 4 = [0xFF, 0xFF, 0, 0]"
  "CIDRMask 24 4 = [0xFF, 0xFF, 0xFF, 0]" "CIDRMask 32 4 = [0xFF, 0xFF, 0xFF, 0xFF]"
  "CIDRMask 7 16 = 0xFE # replicate 15 0" "CIDRMask 8 16 = 0xFF # replicate 15 0"
  "CIDRMask 10 16 = 0xFF # 0xC0 # replicate 14 0" "CIDRMask 32 16 = [0xFF, 0xFF, 0xFF, 0xFF] @ replicate 12 0"
  "CIDRMask 128 16 = replicate 16 0xFF"
  by code_simp+

lemma blocked_iff:
  "blockedReason v (Some ip) \<noteq> None \<longleftrightarrow>
     (if IsLoopback (unmap ip) then \<not> AllowLoopback v
      else IsUnspecified (unmap ip) \<or> IsLinkLocalUnicast (unmap ip) \<or> IsLinkLocalMulticast (unmap ip)
           \<or> IsMulticast (unmap ip) \<or> IsPrivate (unmap ip) \<or> (\<exists>r \<in> set extraBlockedRanges. Contains (fst r) (unmap ip)))"
proof -
  have "find P xs \<noteq> None \<longleftrightarrow> (\<exists>x \<in> set xs. P x)" for P and xs :: "(ip_net \<times> string) list"
    by (auto simp: find_None_iff simp del: not_None_eq)
  then show ?thesis
    by (simp add: blockedReason_def unmap_def [symmetric] Let_def del: not_None_eq)
qed

lemma mapped_not_zero: "replicate 16 (0 :: byte) \<noteq> replicate 10 0 @ 255 # xs"
proof
  assume "replicate 16 (0 :: byte) = replicate 10 0 @ 255 # xs"
  then have "replicate 16 (0 :: byte) ! 10 = (replicate 10 0 @ 255 # xs) ! 10" by (rule arg_cong)
  then show False by (simp add: nth_append)
qed

text \<open>The tests on four bytes and on sixteen.\<close>

lemma tests_v4:
  "IsLoopback [a, b, c, d] \<longleftrightarrow> a = 127"
  "IsUnspecified [a, b, c, d] \<longleftrightarrow> Contains ([0, 0, 0, 0], 32) [a, b, c, d]"
  "IsLinkLocalUnicast [a, b, c, d] \<longleftrightarrow> Contains ([169, 254, 0, 0], 16) [a, b, c, d]"
  "IsMulticast [a, b, c, d] \<longleftrightarrow> Contains ([224, 0, 0, 0], 4) [a, b, c, d]"
  "IsPrivate [a, b, c, d] \<longleftrightarrow> Contains ([10, 0, 0, 0], 8) [a, b, c, d] \<or> Contains ([172, 16, 0, 0], 12) [a, b, c, d]
     \<or> Contains ([192, 168, 0, 0], 16) [a, b, c, d]"
  "IsLinkLocalMulticast [a, b, c, d] \<Longrightarrow> IsMulticast [a, b, c, d]"
  "Contains ([127, 0, 0, 0], 8) [a, b, c, d] \<longleftrightarrow> a = 127"
  by (auto simp: To4_def IsLoopback_def IsUnspecified_def IsLinkLocalUnicast_def IsLinkLocalMulticast_def ip_Equal_def
      IPv4zero_def v4_mapped_prefix_def IPv6unspecified_def IsMulticast_def IsPrivate_def Contains_def mapped_not_zero)

lemma tests_v6:
  assumes "length ip = 16" "To4 ip = None"
  shows "IsLoopback ip \<longleftrightarrow> Contains (IPv6loopback, 128) ip"
    "IsUnspecified ip \<longleftrightarrow> Contains (IPv6unspecified, 128) ip"
    "IsLinkLocalUnicast ip \<longleftrightarrow> Contains (v6_net [0xFE, 0x80] 10) ip"
    "IsMulticast ip \<longleftrightarrow> Contains (v6_net [0xFF] 8) ip"
    "IsPrivate ip \<longleftrightarrow> Contains (v6_net [0xFC] 7) ip"
    "IsLinkLocalMulticast ip \<Longrightarrow> IsMulticast ip"
proof -
  obtain a b xs where ip: "ip = a # b # xs" "length xs = 14"
    using assms(1) by (auto simp: length_Suc_conv numeral_eq_Suc)
  have rest: "masked_equal (replicate n 0) (replicate n 0) ys" for n and ys :: ip
  proof (induction n arbitrary: ys)
    case (Suc n)
    then show ?case by (cases ys) auto
  qed simp
  show "IsLinkLocalMulticast ip \<Longrightarrow> IsMulticast ip"
    using assms by (simp add: IsLinkLocalMulticast_def IsMulticast_def)
  have "masked_equal (replicate (length ys) 0xFF) xs ys \<longleftrightarrow> xs = ys" if "length xs = length ys" for xs ys :: ip
    using that by (induction xs ys rule: list_induct2) auto
  from this [of _ ip]
  show "IsLoopback ip \<longleftrightarrow> Contains (IPv6loopback, 128) ip" "IsUnspecified ip \<longleftrightarrow> Contains (IPv6unspecified, 128) ip"
    using assms by (auto simp: IsLoopback_def IsUnspecified_def Contains_def ip_Equal_def IPv6loopback_def IPv6unspecified_def
        IPv4zero_def v4_mapped_prefix_def To4_def block_masks)
  show "IsLinkLocalUnicast ip \<longleftrightarrow> Contains (v6_net [0xFE, 0x80] 10) ip" "IsMulticast ip \<longleftrightarrow> Contains (v6_net [0xFF] 8) ip"
    "IsPrivate ip \<longleftrightarrow> Contains (v6_net [0xFC] 7) ip"
    using assms rest [of 14 xs] rest [of 15 "b # xs"] ip
    by (auto simp: IsLinkLocalUnicast_def IsMulticast_def IsPrivate_def Contains_def v6_net_def block_masks)
qed

lemma blocked_v4:
  assumes "length ip = 4"
  shows "blockedReason v (Some ip) \<noteq> None \<longleftrightarrow>
    \<not> AllowLoopback v \<and> (\<exists>n \<in> set loopback_blocks. Contains n ip) \<or> (\<exists>n \<in> set blocked_blocks. Contains n ip)"
proof -
  obtain a b c d where ip: "ip = [a, b, c, d]" using assms by (auto simp: length_4)
  have u: "unmap [a, b, c, d] = [a, b, c, d]" by (simp add: unmap_def To4_def)
  have v6: "\<not> Contains n [a, b, c, d]" if "length (fst n) = 16" for n using that by (simp add: Contains_def To4_def)
  have l: "\<not> Contains n [127, b, c, d]" if "n \<in> set blocked_blocks" for n
    using that by (auto simp: blocked_blocks_def v6_net_def IPv6unspecified_def Contains_def To4_def block_masks)
  show ?thesis
  proof (cases "a = 127")
    case True
    with l show ?thesis
      unfolding ip blocked_iff u by (simp add: tests_v4 loopback_blocks_def v6 IPv6loopback_def)
  next
    case False
    then have "(\<exists>n \<in> set loopback_blocks. Contains n ip) \<longleftrightarrow> False"
      unfolding ip by (simp add: tests_v4 loopback_blocks_def v6 IPv6loopback_def)
    moreover have "blockedReason v (Some ip) \<noteq> None \<longleftrightarrow> (\<exists>n \<in> set blocked_blocks. Contains n ip)"
      using False tests_v4(6) [of a b c d] unfolding ip blocked_iff u
      by (simp add: tests_v4(1-5) extraBlockedRanges_def blocked_blocks_def v6 v6_net_def IPv6unspecified_def) blast
    ultimately show ?thesis by simp
  qed
qed

lemma blocked_v6:
  assumes "length ip = 16" "To4 ip = None"
  shows "blockedReason v (Some ip) \<noteq> None \<longleftrightarrow>
    \<not> AllowLoopback v \<and> (\<exists>n \<in> set loopback_blocks. Contains n ip) \<or> (\<exists>n \<in> set blocked_blocks. Contains n ip)"
proof -
  have u: "unmap ip = ip" using assms by (simp add: unmap_def)
  have v4: "\<not> Contains n ip" if "length (fst n) = 4" for n using that assms by (simp add: Contains_def)
  have fc: "v6_net [0xFC, 0] 7 = v6_net [0xFC] 7" by (simp add: v6_net_def numeral_eq_Suc)
  have lo: "(\<exists>n \<in> set loopback_blocks. Contains n ip) \<longleftrightarrow> IsLoopback ip"
    using tests_v6 [OF assms] by (simp add: loopback_blocks_def v4)
  show ?thesis
  proof (cases "IsLoopback ip")
    case True
    then have "ip = IPv6loopback" using assms by (simp add: IsLoopback_def ip_Equal_def IPv6loopback_def split: if_splits)
    moreover have "\<not> list_ex (\<lambda>n. Contains n IPv6loopback) blocked_blocks" by code_simp
    ultimately have "\<not> (\<exists>n \<in> set blocked_blocks. Contains n ip)" by (simp only: list_ex_iff) simp
    with True show ?thesis unfolding blocked_iff u lo by simp
  next
    case False
    have "blockedReason v (Some ip) \<noteq> None \<longleftrightarrow> (\<exists>n \<in> set blocked_blocks. Contains n ip)"
      using False tests_v6 [OF assms] unfolding blocked_iff u
      by (simp add: extraBlockedRanges_def blocked_blocks_def v4 fc) blast
    with False lo show ?thesis by simp
  qed
qed

text \<open>The tests of the code and the table of address blocks say the same.\<close>

lemma block_sizes: "n \<in> set (loopback_blocks @ blocked_blocks) \<Longrightarrow> snd n \<le> 8 * length (fst n)"
  by (auto simp: loopback_blocks_def blocked_blocks_def v6_net_def IPv6loopback_def IPv6unspecified_def)

lemma blockedReason_unmap: "blockedReason v (Some ip) = blockedReason v (Some (unmap ip))"
proof -
  have "unmap (unmap ip) = unmap ip" using To4_unmap [of ip] unfolding unmap_def [of "unmap ip"] by auto
  then show ?thesis unfolding blockedReason_def by (simp only: option.case unmap_def [symmetric])
qed

lemma blocked_table:
  assumes "length ip = 4 \<or> length ip = 16"
  shows "blockedReason v (Some ip) \<noteq> None \<longleftrightarrow>
    \<not> AllowLoopback v \<and> (\<exists>n \<in> set loopback_blocks. in_block n (unmap ip))
    \<or> (\<exists>n \<in> set blocked_blocks. in_block n (unmap ip))"
proof -
  consider "length (unmap ip) = 4" "To4 (unmap ip) = Some (unmap ip)" | "length (unmap ip) = 16" "To4 (unmap ip) = None"
    using assms To4_unmap [of ip] by auto (auto simp: To4_def)
  then have "blockedReason v (Some (unmap ip)) \<noteq> None \<longleftrightarrow>
      \<not> AllowLoopback v \<and> (\<exists>n \<in> set loopback_blocks. Contains n (unmap ip)) \<or> (\<exists>n \<in> set blocked_blocks. Contains n (unmap ip))"
    by cases (rule blocked_v4 blocked_v6; assumption)+
  moreover have "Contains n (unmap ip) \<longleftrightarrow> in_block n (unmap ip)" if "n \<in> set (loopback_blocks @ blocked_blocks)" for n
    using Contains_in_block [OF block_sizes [OF that]] To4_unmap [of ip] by blast
  ultimately show ?thesis by (simp add: blockedReason_unmap [of v ip] del: not_None_eq)
qed

end
