(* ===== verification/Webhook_Signer.thy ===== *)
theory Webhook_Signer
  imports Decimal
begin

text \<open>
  Signatures of webhook requests (\<^verbatim>\<open>internal/webhooks/signer.go\<close>), with the functions of
  packages \<^verbatim>\<open>strings\<close> and \<^verbatim>\<open>hex\<close> they use.  HMAC-SHA256 is a parameter.
\<close>

section \<open>Texts\<close>

text \<open>\<^verbatim>\<open>strings.Split\<close> and \<^verbatim>\<open>strings.SplitN(s, sep, 2)\<close> at a one-byte separator.\<close>

fun Split :: "char \<Rightarrow> string \<Rightarrow> string list" where
  "Split c [] = [[]]"
| "Split c (x # xs) =
     (if x = c then [] # Split c xs
      else (case Split c xs of [] \<Rightarrow> [[x]] | p # ps \<Rightarrow> (x # p) # ps))"

definition SplitN2 :: "char \<Rightarrow> string \<Rightarrow> string list" where
  "SplitN2 c s =
     (if c \<in> set s then [takeWhile (\<lambda>x. x \<noteq> c) s, drop 1 (dropWhile (\<lambda>x. x \<noteq> c) s)] else [s])"

definition hex_digit :: "nat \<Rightarrow> char" where
  "hex_digit n = (if n < 10 then char_of (48 + n) else char_of (87 + n))"

definition hex_val :: "char \<Rightarrow> nat option" where
  "hex_val c =
     (let n = of_char c :: nat in
      if 48 \<le> n \<and> n \<le> 57 then Some (n - 48)
      else if 97 \<le> n \<and> n \<le> 102 then Some (n - 87)
      else if 65 \<le> n \<and> n \<le> 70 then Some (n - 55)
      else None)"

definition hex_EncodeToString :: "string \<Rightarrow> string" where
  "hex_EncodeToString s = concat (map (\<lambda>c. [hex_digit (of_char c div 16), hex_digit (of_char c mod 16)]) s)"

fun hex_DecodeString :: "string \<Rightarrow> string option" where
  "hex_DecodeString [] = Some []"
| "hex_DecodeString [c] = None"
| "hex_DecodeString (a # b # s) =
     (case (hex_val a, hex_val b, hex_DecodeString s) of
        (Some x, Some y, Some t) \<Rightarrow> Some (char_of (16 * x + y) # t)
      | _ \<Rightarrow> None)"

section \<open>The signer\<close>

definition SecretMinLength :: nat where "SecretMinLength = 32"

text \<open>Five minutes, in seconds.\<close>

definition timestampToleranceWindow :: int where "timestampToleranceWindow = 300"

datatype signature_error = ErrSignatureMalformed | ErrSignatureExpired | ErrSignatureMismatch

record signer =
  sg_secret :: string

definition NewSigner :: "string \<Rightarrow> signer option" where
  "NewSigner secret = (if length secret < SecretMinLength then None else Some \<lparr>sg_secret = secret\<rparr>)"

type_synonym mac = "string \<Rightarrow> string \<Rightarrow> string"

definition unix_seconds :: "time \<Rightarrow> int" where
  "unix_seconds t = t div 1000000000"

definition signed_bytes :: "int \<Rightarrow> string \<Rightarrow> string" where
  "signed_bytes t body = show_int t @ ''.'' @ body"

definition Sign :: "mac \<Rightarrow> signer \<Rightarrow> string \<Rightarrow> time \<Rightarrow> string" where
  "Sign hmac s body ts =
     (let t = unix_seconds ts
      in ''t='' @ show_int t @ '',v1='' @ hex_EncodeToString (hmac (sg_secret s) (signed_bytes t body)))"

text \<open>The arithmetic of \<^verbatim>\<open>int64\<close> wraps around.\<close>

definition wrap64 :: "int \<Rightarrow> int" where
  "wrap64 i = (i + 2 ^ 63) mod 2 ^ 64 - 2 ^ 63"

definition abs64 :: "int \<Rightarrow> int" where
  "abs64 x = (if x < 0 then wrap64 (- x) else x)"

text \<open>The loop over the parts of the header; \<^const>\<open>None\<close> is its early return.\<close>

primrec header_parts :: "string list \<Rightarrow> int option \<Rightarrow> string option \<Rightarrow> (int option \<times> string option) option" where
  "header_parts [] t v = Some (t, v)"
| "header_parts (part # ps) t v =
     (case SplitN2 CHR ''='' (TrimSpace part) of
        [k, x] \<Rightarrow>
          if k = ''t'' then (case ParseInt10 x of None \<Rightarrow> None | Some n \<Rightarrow> header_parts ps (Some n) v)
          else if k = ''v1'' then header_parts ps t (Some x)
          else header_parts ps t v
      | _ \<Rightarrow> None)"

definition Verify :: "mac \<Rightarrow> signer \<Rightarrow> string \<Rightarrow> string \<Rightarrow> time \<Rightarrow> signature_error option" where
  "Verify hmac s body header now =
     (if header = [] then Some ErrSignatureMalformed
      else case header_parts (Split CHR '','' header) None None of
        Some (Some ts, Some sigHex) \<Rightarrow>
          if timestampToleranceWindow < abs64 (wrap64 (unix_seconds now - ts)) then Some ErrSignatureExpired
          else (case hex_DecodeString sigHex of
                  None \<Rightarrow> Some ErrSignatureMalformed
                | Some expected \<Rightarrow>
                    if expected \<noteq> hmac (sg_secret s) (signed_bytes ts body) then Some ErrSignatureMismatch
                    else None)
      | _ \<Rightarrow> Some ErrSignatureMalformed)"

section \<open>Lemmas\<close>

lemma Split_no_sep [simp]: "c \<notin> set s \<Longrightarrow> Split c s = [s]"
  by (induction s) auto

lemma Split_append: "c \<notin> set u \<Longrightarrow> Split c (u @ c # v) = u # Split c v"
  by (induction u) auto

lemma SplitN2_append: "c \<notin> set u \<Longrightarrow> SplitN2 c (u @ c # v) = [u, v]"
  by (simp add: SplitN2_def takeWhile_append dropWhile_append)

lemma hex_val_digit: "n < 16 \<Longrightarrow> hex_val (hex_digit n) = Some n"
  by (auto simp: hex_val_def hex_digit_def Let_def)

lemma hex_roundtrip: "hex_DecodeString (hex_EncodeToString s) = Some s"
proof (induction s)
  case (Cons c s)
  have "(of_char c :: nat) div 16 < 16" using nat_of_char_less_256 [of c] by (intro less_mult_imp_div_less) simp
  with Cons show ?case by (simp add: hex_EncodeToString_def hex_val_digit)
qed (simp add: hex_EncodeToString_def)

text \<open>Texts of visible ASCII characters are not trimmed.\<close>

definition visible :: "char \<Rightarrow> bool" where
  "visible c = (32 < (of_char c :: nat) \<and> (of_char c :: nat) < 128)"

lemma TrimSpace_visible:
  assumes "\<forall>c \<in> set s. visible c"
  shows "TrimSpace s = s"
proof -
  have enc: "list_all (\<lambda>e. \<exists>c \<in> set (take 1 e). \<not> visible c) (space_encodings @ map rev space_encodings)"
    by (simp add: space_encodings_def visible_def)
  have none: "trim_front es t = t" if "set es \<subseteq> set (space_encodings @ map rev space_encodings)" "\<forall>c \<in> set t. visible c" for es t
  proof (rule trim_front_none, intro ballI impI notI)
    fix e assume e: "e \<in> set es" "prefix e t"
    with enc that(1) obtain c where "c \<in> set (take 1 e)" "\<not> visible c" unfolding list_all_iff by (meson subsetD)
    with e(2) that(2) show False by (meson in_set_takeD set_mono_prefix subsetD)
  qed
  show ?thesis using none [of space_encodings s] none [of "map rev space_encodings" "rev s"] assms
    by (simp add: TrimSpace_def)
qed

lemma visible_digit:
  assumes "n < 10"
  shows "visible (digit n) \<and> digit n \<noteq> CHR '','' \<and> digit n \<noteq> CHR ''.''"
proof -
  have "(of_char CHR '','' :: nat) = 44" "(of_char CHR ''.'' :: nat) = 46" by simp_all
  with of_char_digit [OF assms] assms show ?thesis by (auto simp: visible_def)
qed

lemma show_int_visible: "c \<in> set (show_int i) \<Longrightarrow> visible c \<and> c \<noteq> CHR '','' \<and> c \<noteq> CHR ''.''"
proof -
  assume c: "c \<in> set (show_int i)"
  consider "c = CHR ''-''" | n where "c \<in> set (show_nat n)" using c by (auto simp: show_int_def split: if_splits)
  then show ?thesis
  proof cases
    case 2
    then show ?thesis using show_nat_digits visible_digit by metis
  qed (simp add: visible_def)
qed

lemma hex_visible: "c \<in> set (hex_EncodeToString s) \<Longrightarrow> visible c \<and> c \<noteq> CHR '',''"
proof -
  have code: "(of_char (hex_digit n) :: nat) = (if n < 10 then 48 + n else 87 + n)" if "n < 16" for n
    using that by (simp add: hex_digit_def)
  have d: "visible (hex_digit n) \<and> hex_digit n \<noteq> CHR '',''" if "n < 16" for n
  proof -
    have "(of_char CHR '','' :: nat) = 44" by simp
    then show ?thesis using code [OF that] that by (auto simp: visible_def split: if_splits)
  qed
  assume "c \<in> set (hex_EncodeToString s)"
  then obtain x where "c = hex_digit (of_char x div 16) \<or> c = hex_digit (of_char x mod 16)"
    by (auto simp: hex_EncodeToString_def)
  moreover have "(of_char x :: nat) div 16 < 16"
    using nat_of_char_less_256 [of x] by (intro less_mult_imp_div_less) simp
  ultimately show ?thesis using d [of "of_char x div 16"] d [of "of_char x mod 16"] by fastforce
qed

text \<open>Time stamp and body can be read off the signed bytes.\<close>

lemma signed_bytes_inj: "signed_bytes t body = signed_bytes t' body' \<longleftrightarrow> t = t' \<and> body = body'"
proof -
  have "CHR ''.'' \<notin> set (show_int t)" "CHR ''.'' \<notin> set (show_int t')" using show_int_visible by blast+
  then show ?thesis by (simp add: signed_bytes_def split_at_char)
qed

lemma header_parts_Sign:
  assumes "int64_range (unix_seconds ts)"
  shows "header_parts (Split CHR '','' (Sign hmac s body ts)) None None =
    Some (Some (unix_seconds ts), Some (hex_EncodeToString (hmac (sg_secret s) (signed_bytes (unix_seconds ts) body))))"
proof -
  let ?t = "show_int (unix_seconds ts)" and ?h = "hex_EncodeToString (hmac (sg_secret s) (signed_bytes (unix_seconds ts) body))"
  have sep: "CHR '','' \<notin> set (''t='' @ ?t)" "CHR '','' \<notin> set (''v1='' @ ?h)"
    using show_int_visible hex_visible by auto
  have "Sign hmac s body ts = (''t='' @ ?t) @ CHR '','' # (''v1='' @ ?h)" by (simp add: Sign_def Let_def)
  then have "Split CHR '','' (Sign hmac s body ts) = [''t='' @ ?t, ''v1='' @ ?h]"
    using sep Split_append Split_no_sep by (metis (no_types))
  moreover have "TrimSpace (''t='' @ ?t) = ''t'' @ CHR ''='' # ?t" "TrimSpace (''v1='' @ ?h) = ''v1'' @ CHR ''='' # ?h"
    using show_int_visible hex_visible by (subst TrimSpace_visible; auto simp: visible_def)+
  moreover have "SplitN2 CHR ''='' (''t'' @ CHR ''='' # ?t) = [''t'', ?t]" "SplitN2 CHR ''='' (''v1'' @ CHR ''='' # ?h) = [''v1'', ?h]"
    by (rule SplitN2_append; simp)+
  ultimately show ?thesis by (simp add: ParseInt10_show_int [OF assms])
qed

text \<open>The window, on 64-bit numbers: besides the intended time stamps it admits one, at the distance
  whose absolute value does not exist.\<close>

lemma window_iff:
  assumes "0 \<le> a" "a < 2 ^ 62" "int64_range b"
  shows "abs64 (wrap64 (a - b)) \<le> timestampToleranceWindow \<longleftrightarrow> \<bar>a - b\<bar> \<le> 300 \<or> b = a - 2 ^ 63"
proof (cases "a - b < 2 ^ 63")
  case True
  have "wrap64 (a - b) = a - b"
    using assms True by (simp add: wrap64_def int64_range_def)
  moreover have "wrap64 (- (a - b)) = - (a - b)" if "a - b < 0"
    using assms True that by (simp add: wrap64_def int64_range_def)
  ultimately show ?thesis using True by (auto simp: abs64_def timestampToleranceWindow_def)
next
  case False
  let ?w = "a - b - 2 ^ 64"
  have "(a - b + 2 ^ 63) mod 2 ^ 64 = ?w + 2 ^ 63"
    using assms False by (subst mod_pos_geq) (auto simp: int64_range_def intro!: mod_pos_pos_trivial)
  then have w: "wrap64 (a - b) = ?w" by (simp add: wrap64_def)
  show ?thesis
  proof (cases "a - b = 2 ^ 63")
    case True
    then show ?thesis using w by (simp add: abs64_def wrap64_def timestampToleranceWindow_def)
  next
    case no: False
    have "wrap64 (- ?w) = - ?w"
      using assms False no by (simp add: wrap64_def int64_range_def)
    moreover have "- ?w > 300" "?w < 0" using assms by (auto simp: int64_range_def)
    ultimately show ?thesis using w False no by (auto simp: abs64_def timestampToleranceWindow_def)
  qed
qed

lemma header_parts_range:
  "header_parts ps t v = Some (Some ts, w) \<Longrightarrow> (\<forall>x. t = Some x \<longrightarrow> int64_range x) \<Longrightarrow> int64_range ts"
proof (induction ps arbitrary: t v)
  case (Cons p ps)
  then show ?case by (auto split: list.splits option.splits if_splits dest: ParseInt10_range)
qed auto

end
