(* ===== verification/Webhooks.thy ===== *)
theory Webhooks
  imports Webhook_Address Webhook_Signer Sql
begin

text \<open>
  Webhook subscriptions (\<^verbatim>\<open>internal/webhooks\<close>: events, subscription, repository) and the
  delivery of one event to one subscriber (delivery, test_dispatch).
\<close>

section \<open>Events and rows\<close>

definition EventFileUploadConfirmed :: string where "EventFileUploadConfirmed = ''file.upload.confirmed''"
definition EventFileDeleted :: string where "EventFileDeleted = ''file.deleted''"
definition EventPermissionGranted :: string where "EventPermissionGranted = ''permission.granted''"
definition EventPermissionRevoked :: string where "EventPermissionRevoked = ''permission.revoked''"
definition EventMemberJoined :: string where "EventMemberJoined = ''member.joined''"
definition EventMemberRemoved :: string where "EventMemberRemoved = ''member.removed''"

definition AllEventTypes :: "string list" where
  "AllEventTypes =
     [EventFileUploadConfirmed, EventFileDeleted, EventPermissionGranted, EventPermissionRevoked,
      EventMemberJoined, EventMemberRemoved]"

definition IsValidEventType :: "string \<Rightarrow> bool" where
  "IsValidEventType s = (s \<in> set AllEventTypes)"

definition NormaliseEventType :: "(string \<Rightarrow> string) \<Rightarrow> string \<Rightarrow> string" where
  "NormaliseEventType unicode s = ToLower unicode (TrimSpace s)"

record event =
  ev_id :: uuid
  ev_type :: string
  ev_ws :: uuid
  ev_created :: time
  ev_actor :: "uuid option"
  ev_data :: string

definition NewEvent :: "uuid \<Rightarrow> time \<Rightarrow> string \<Rightarrow> uuid \<Rightarrow> uuid option \<Rightarrow> string \<Rightarrow> event" where
  "NewEvent new now t ws actor payload =
     \<lparr>ev_id = new, ev_type = t, ev_ws = ws, ev_created = now, ev_actor = actor, ev_data = payload\<rparr>"

definition MaxSubscriptionsPerWorkspace :: nat where "MaxSubscriptionsPerWorkspace = 20"
definition AutoPauseThreshold :: int where "AutoPauseThreshold = 50"
definition SecretByteLength :: nat where "SecretByteLength = 32"
definition MaxAttempts :: nat where "MaxAttempts = 5"
definition DefaultMaxResponseBodyBytes :: nat where "DefaultMaxResponseBodyBytes = 4096"

record subscription =
  sb_id :: uuid
  sb_ws :: uuid
  sb_created_by :: uuid
  sb_url :: string
  sb_event :: string
  sb_description :: string
  sb_secret :: string
  sb_active :: bool
  sb_failures :: int
  sb_succeeded :: "time option"
  sb_attempted :: "time option"
  sb_auto_paused :: "time option"
  sb_created :: time
  sb_updated :: time

definition PublicView :: "subscription \<Rightarrow> subscription" where
  "PublicView s = s\<lparr>sb_secret := []\<rparr>"

datatype delivery_outcome = OutcomeSuccess | OutcomeHTTPError | OutcomeNetError | OutcomeBlocked

record delivery =
  dv_id :: uuid
  dv_sub :: uuid
  dv_ws :: uuid
  dv_event :: uuid
  dv_type :: string
  dv_attempt :: nat
  dv_outcome :: delivery_outcome
  dv_status :: nat
  dv_response :: string
  dv_error :: string
  dv_duration_ms :: int
  dv_at :: time
  dv_next_retry :: "time option"

record webhook_db =
  wh_subs :: "subscription list"
  wh_deliveries :: "delivery list"

datatype webhook_error =
    ErrSubscriptionNotFound
  | ErrSubscriptionCapReached
  | WebhookErr string

section \<open>The repository\<close>

definition GenerateSecret :: "string option \<Rightarrow> string option" where
  "GenerateSecret random = map_option (\<lambda>b. hex_EncodeToString (take SecretByteLength b)) random"

text \<open>\<^verbatim>\<open>length\<close> of a text column counts characters: the bytes that do not continue one.\<close>

definition char_length :: "string \<Rightarrow> nat" where
  "char_length s = length (filter (\<lambda>c. \<not> (128 \<le> (of_char c :: nat) \<and> (of_char c :: nat) < 192)) s)"

definition sub_checks :: "subscription \<Rightarrow> bool" where
  "sub_checks s =
     (0 < char_length (sb_url s) \<and> char_length (sb_url s) \<le> 512
      \<and> 0 < char_length (sb_event s) \<and> char_length (sb_event s) \<le> 128
      \<and> 32 \<le> char_length (sb_secret s))"

definition sub_key :: "uuid \<Rightarrow> uuid \<Rightarrow> subscription \<Rightarrow> bool" where
  "sub_key ws i s = (sb_id s = i \<and> sb_ws s = ws)"

text \<open>The statement of \<^verbatim>\<open>Create\<close> counts and inserts; a concurrent statement may run between
  the two.\<close>

definition cap_check :: "webhook_db \<Rightarrow> uuid \<Rightarrow> nat" where
  "cap_check d ws = length (filter (\<lambda>s. sb_ws s = ws \<and> sb_active s) (wh_subs d))"

definition insert_sub :: "faults \<Rightarrow> nat \<Rightarrow> time \<Rightarrow> subscription \<Rightarrow> webhook_db \<Rightarrow> (webhook_error + subscription) \<times> webhook_db" where
  "insert_sub flt n now s d =
     (let row = s\<lparr>sb_active := True, sb_failures := 0, sb_succeeded := None, sb_attempted := None,
                  sb_auto_paused := None, sb_created := now, sb_updated := now\<rparr>
      in if flt ''insert webhook_subscriptions'' then (Inl (WebhookErr ''insert webhook_subscriptions''), d)
         else if MaxSubscriptionsPerWorkspace \<le> n then (Inl ErrSubscriptionCapReached, d)
         else if sb_id s \<in> sb_id ` set (wh_subs d) \<or> \<not> sub_checks row
         then (Inl (WebhookErr ''insert webhook_subscriptions''), d)
         else (Inr row, d\<lparr>wh_subs := wh_subs d @ [row]\<rparr>))"

definition prepare_sub :: "string option \<Rightarrow> uuid \<Rightarrow> subscription \<Rightarrow> webhook_error + subscription" where
  "prepare_sub random new s =
     (let s = (if sb_id s = uuid_Nil then s\<lparr>sb_id := new\<rparr> else s)
      in if sb_secret s = []
         then (case GenerateSecret random of
                 None \<Rightarrow> Inl (WebhookErr ''generate secret'')
               | Some x \<Rightarrow> Inr (s\<lparr>sb_secret := x\<rparr>))
         else Inr s)"

definition sub_Create ::
  "faults \<Rightarrow> string option \<Rightarrow> uuid \<Rightarrow> time \<Rightarrow> subscription \<Rightarrow> webhook_db \<Rightarrow> (webhook_error + subscription) \<times> webhook_db" where
  "sub_Create flt random new now s d =
     (case prepare_sub random new s of
        Inl e \<Rightarrow> (Inl e, d)
      | Inr s \<Rightarrow> insert_sub flt (cap_check d (sb_ws s)) now s d)"

definition sub_GetByID :: "faults \<Rightarrow> webhook_db \<Rightarrow> uuid \<Rightarrow> uuid \<Rightarrow> webhook_error + subscription" where
  "sub_GetByID flt d ws i =
     (if flt ''select webhook_subscriptions'' then Inl (WebhookErr ''select webhook_subscriptions'')
      else case find (sub_key ws i) (wh_subs d) of
        None \<Rightarrow> Inl ErrSubscriptionNotFound
      | Some s \<Rightarrow> Inr s)"

definition sub_List :: "faults \<Rightarrow> webhook_db \<Rightarrow> uuid \<Rightarrow> webhook_error + subscription list" where
  "sub_List flt d ws =
     (if flt ''select webhook_subscriptions'' then Inl (WebhookErr ''select webhook_subscriptions'')
      else Inr (sort_key (\<lambda>s. - sb_created s) (filter (\<lambda>s. sb_ws s = ws) (wh_subs d))))"

definition ListActiveForEvent :: "faults \<Rightarrow> webhook_db \<Rightarrow> uuid \<Rightarrow> string \<Rightarrow> webhook_error + subscription list" where
  "ListActiveForEvent flt d ws t =
     (if flt ''select active webhook_subscriptions'' then Inl (WebhookErr ''select active webhook_subscriptions'')
      else Inr (filter (\<lambda>s. sb_ws s = ws \<and> sb_event s = t \<and> sb_active s) (wh_subs d)))"

definition sub_Delete :: "faults \<Rightarrow> uuid \<Rightarrow> uuid \<Rightarrow> webhook_db \<Rightarrow> webhook_error option \<times> webhook_db" where
  "sub_Delete flt ws i d =
     (if flt ''delete webhook_subscriptions'' then (Some (WebhookErr ''delete webhook_subscriptions''), d)
      else if rows_affected (sub_key ws i) (wh_subs d) = 0 then (Some ErrSubscriptionNotFound, d)
      else (None, d\<lparr>wh_subs := delete_rows (sub_key ws i) (wh_subs d),
                    wh_deliveries := delete_rows (\<lambda>x. dv_sub x = i) (wh_deliveries d)\<rparr>))"

definition update_sub ::
  "faults \<Rightarrow> string \<Rightarrow> uuid \<Rightarrow> uuid \<Rightarrow> (subscription \<Rightarrow> subscription) \<Rightarrow> webhook_db \<Rightarrow> webhook_error option \<times> webhook_db" where
  "update_sub flt label ws i u d =
     (if flt label then (Some (WebhookErr label), d)
      else if rows_affected (sub_key ws i) (wh_subs d) = 0 then (Some ErrSubscriptionNotFound, d)
      else (None, d\<lparr>wh_subs := update_rows (sub_key ws i) u (wh_subs d)\<rparr>))"

definition active_update :: "time \<Rightarrow> bool \<Rightarrow> subscription \<Rightarrow> subscription" where
  "active_update now active s =
     s\<lparr>sb_active := active,
       sb_auto_paused := (if active then None else sb_auto_paused s),
       sb_failures := (if active then 0 else sb_failures s),
       sb_updated := now\<rparr>"

definition SetActive :: "faults \<Rightarrow> time \<Rightarrow> uuid \<Rightarrow> uuid \<Rightarrow> bool \<Rightarrow> webhook_db \<Rightarrow> webhook_error option \<times> webhook_db" where
  "SetActive flt now ws i active d =
     update_sub flt ''update webhook_subscriptions.active'' ws i (active_update now active) d"

definition attempt_update :: "time \<Rightarrow> delivery_outcome \<Rightarrow> time \<Rightarrow> subscription \<Rightarrow> subscription" where
  "attempt_update now outcome at s =
     (let ok = (outcome = OutcomeSuccess);
          pause = (\<not> ok \<and> AutoPauseThreshold \<le> sb_failures s + 1)
      in s\<lparr>sb_attempted := Some at,
           sb_succeeded := (if ok then Some at else sb_succeeded s),
           sb_failures := (if ok then 0 else sb_failures s + 1),
           sb_active := (if pause then False else sb_active s),
           sb_auto_paused := (if pause then Some at else sb_auto_paused s),
           sb_updated := now\<rparr>)"

definition UpdateAttempt ::
  "faults \<Rightarrow> time \<Rightarrow> uuid \<Rightarrow> uuid \<Rightarrow> delivery_outcome \<Rightarrow> time \<Rightarrow> webhook_db \<Rightarrow> webhook_error option \<times> webhook_db" where
  "UpdateAttempt flt now ws i outcome at d =
     update_sub flt ''update webhook_subscriptions attempt counters'' ws i (attempt_update now outcome at) d"

definition InsertDelivery :: "faults \<Rightarrow> uuid \<Rightarrow> delivery \<Rightarrow> webhook_db \<Rightarrow> webhook_error option \<times> webhook_db" where
  "InsertDelivery flt new x d =
     (let x = (if dv_id x = uuid_Nil then x\<lparr>dv_id := new\<rparr> else x)
      in if flt ''insert webhook_deliveries'' \<or> dv_id x \<in> dv_id ` set (wh_deliveries d)
            \<or> dv_sub x \<notin> sb_id ` set (wh_subs d) \<or> dv_attempt x < 1
         then (Some (WebhookErr ''insert webhook_deliveries''), d)
         else (None, d\<lparr>wh_deliveries := wh_deliveries d @ [x]\<rparr>))"

definition ListDeliveries :: "faults \<Rightarrow> webhook_db \<Rightarrow> uuid \<Rightarrow> uuid \<Rightarrow> int \<Rightarrow> webhook_error + delivery list" where
  "ListDeliveries flt d ws i limit =
     (let limit = (if limit \<le> 0 \<or> 500 < limit then 100 else limit)
      in if flt ''select webhook_deliveries'' then Inl (WebhookErr ''select webhook_deliveries'')
         else Inr (take (nat limit) (sort_key (\<lambda>x. - dv_at x)
                (filter (\<lambda>x. dv_sub x = i \<and> dv_ws x = ws) (wh_deliveries d)))))"

section \<open>One delivery\<close>

text \<open>
  What the network does in one attempt: the answers of the resolver while the address is validated
  and while the client connects, the response of whoever listens at the address the client
  connects to, and the time it takes.  The client does not follow redirects.
\<close>

datatype http_result =
    NetFailure string
  | HttpResponse nat string "string option"  \<comment> \<open>status, body, error while reading beyond the body\<close>

record request =
  rq_url :: string
  rq_body :: string
  rq_signature :: string
  rq_event_id :: uuid
  rq_event_type :: string
  rq_delivery_id :: uuid

record exchange =
  ex_validate :: net_env
  ex_connect :: net_env
  ex_build_error :: "string option"
  ex_connected :: "ip option list \<Rightarrow> ip option"  \<comment> \<open>the address, of those resolved, a connection is made to\<close>
  ex_answer :: "ip \<Rightarrow> request \<Rightarrow> http_result"
  ex_elapsed :: int

record delivery_client =
  dc_validator :: url_validator
  dc_max_body :: nat

definition NewDeliveryClient :: "url_validator option \<Rightarrow> delivery_client" where
  "NewDeliveryClient v =
     \<lparr>dc_validator = (case v of None \<Rightarrow> NewURLValidator | Some v \<Rightarrow> v), dc_max_body = DefaultMaxResponseBodyBytes\<rparr>"

record delivery_attempt =
  at_id :: uuid
  at_outcome :: delivery_outcome
  at_status :: nat
  at_response :: string
  at_error :: string
  at_duration :: int
  at_time :: time

definition http_Do :: "exchange \<Rightarrow> string \<Rightarrow> request \<Rightarrow> http_result" where
  "http_Do ex host rq =
     (case lookup (ex_connect ex) host of
        None \<Rightarrow> NetFailure ''lookup''
      | Some addrs \<Rightarrow>
          (case ex_connected ex addrs of
             None \<Rightarrow> NetFailure ''dial''
           | Some a \<Rightarrow> if Some a \<in> set addrs then ex_answer ex a rq else NetFailure ''dial''))"

definition url_error_text :: "url_error \<Rightarrow> string" where
  "url_error_text e = (case e of ErrURLInvalid t \<Rightarrow> ''url invalid: '' @ t | ErrURLBlocked t \<Rightarrow> ''url blocked: '' @ t)"

text \<open>\<^verbatim>\<open>io.CopyN\<close> of one byte more than is kept.\<close>

definition read_response :: "nat \<Rightarrow> string \<Rightarrow> string option \<Rightarrow> string \<times> string" where
  "read_response maxBody body err =
     (let buf = take (maxBody + 1) body
      in if length body < maxBody + 1 \<and> err \<noteq> None then (buf, ''read response body: '' @ the err)
         else if maxBody < length buf then (take maxBody buf @ '' [truncated]'', [])
         else (buf, []))"

definition Deliver ::
  "delivery_client \<Rightarrow> mac \<Rightarrow> exchange \<Rightarrow> url \<Rightarrow> uuid \<Rightarrow> uuid \<Rightarrow> string \<Rightarrow> string \<Rightarrow> signer \<Rightarrow> time \<Rightarrow> delivery_attempt" where
  "Deliver c hmac ex u eventID deliveryID eventType body s ts =
     (let a = \<lparr>at_id = deliveryID, at_outcome = OutcomeBlocked, at_status = 0, at_response = [], at_error = [],
               at_duration = ex_elapsed ex, at_time = ts\<rparr>
      in case ValidateResolved (dc_validator c) (ex_validate ex) u of
           Some e \<Rightarrow> a\<lparr>at_outcome := OutcomeBlocked, at_error := url_error_text e\<rparr>
         | None \<Rightarrow>
             (case ex_build_error ex of
                Some e \<Rightarrow> a\<lparr>at_outcome := OutcomeNetError, at_error := ''build request: '' @ e\<rparr>
              | None \<Rightarrow>
                  (case http_Do ex (Hostname u)
                          \<lparr>rq_url = u_String u, rq_body = body, rq_signature = Sign hmac s body ts, rq_event_id = eventID,
                           rq_event_type = eventType, rq_delivery_id = deliveryID\<rparr> of
                     NetFailure e \<Rightarrow> a\<lparr>at_outcome := OutcomeNetError, at_error := e\<rparr>
                   | HttpResponse status response err \<Rightarrow>
                       let (text, e) = read_response (dc_max_body c) response err
                       in a\<lparr>at_outcome := (if 200 \<le> status \<and> status < 300 then OutcomeSuccess else OutcomeHTTPError),
                            at_status := status, at_response := text, at_error := e\<rparr>)))"

text \<open>The address the request is sent to, if it is sent.\<close>

definition contacted :: "delivery_client \<Rightarrow> exchange \<Rightarrow> url \<Rightarrow> ip option" where
  "contacted c ex u =
     (if ValidateResolved (dc_validator c) (ex_validate ex) u \<noteq> None \<or> ex_build_error ex \<noteq> None then None
      else case lookup (ex_connect ex) (Hostname u) of
             None \<Rightarrow> None
           | Some addrs \<Rightarrow> (case ex_connected ex addrs of
                 None \<Rightarrow> None
               | Some a \<Rightarrow> if Some a \<in> set addrs then Some a else None))"

definition second :: int where "second = 1000000000"

definition BackoffDelay :: "nat \<Rightarrow> int" where
  "BackoffDelay attempt = (if attempt \<le> 1 then 0 else 2 ^ (min (attempt - 2) 6) * second)"

section \<open>Test deliveries\<close>

record dispatch_env =
  de_ParseURL :: "string \<Rightarrow> url option"
  de_marshal :: "event \<Rightarrow> string option"
  de_test_payload :: "uuid \<Rightarrow> string"
  de_exchange :: exchange
  de_now :: time
  de_ids :: "nat \<Rightarrow> uuid"

definition delivery_row :: "uuid \<Rightarrow> uuid \<Rightarrow> string \<Rightarrow> subscription \<Rightarrow> nat \<Rightarrow> time \<Rightarrow> delivery_attempt \<Rightarrow> delivery" where
  "delivery_row i event t sub attempt ts res =
     \<lparr>dv_id = i, dv_sub = sb_id sub, dv_ws = sb_ws sub, dv_event = event, dv_type = t, dv_attempt = attempt,
      dv_outcome = at_outcome res, dv_status = at_status res, dv_response = at_response res, dv_error = at_error res,
      dv_duration_ms = at_duration res div 1000000, dv_at = ts, dv_next_retry = None\<rparr>"

definition recordBlocked :: "dispatch_env \<Rightarrow> faults \<Rightarrow> subscription \<Rightarrow> string \<Rightarrow> webhook_db \<Rightarrow> delivery \<times> webhook_db" where
  "recordBlocked env flt sub msg d =
     (let row = delivery_row (de_ids env 0) (de_ids env 1) (sb_event sub) sub 1 (de_now env)
                  \<lparr>at_id = de_ids env 0, at_outcome = OutcomeBlocked, at_status = 0, at_response = [], at_error = msg,
                   at_duration = 0, at_time = de_now env\<rparr>
      in (row, snd (InsertDelivery flt (de_ids env 3) row d)))"

definition Dispatch ::
  "delivery_client \<Rightarrow> mac \<Rightarrow> dispatch_env \<Rightarrow> faults \<Rightarrow> subscription option \<Rightarrow> webhook_db
     \<Rightarrow> (delivery option \<times> string option) \<times> webhook_db" where
  "Dispatch c hmac env flt target d =
     (case target of
        None \<Rightarrow> ((None, Some ''subscription is required''), d)
      | Some sub \<Rightarrow>
          (case de_ParseURL env (sb_url sub) of
             None \<Rightarrow> let (row, d) = recordBlocked env flt sub ''stored URL no longer parses'' d
                     in ((Some row, Some ''subscription URL invalid''), d)
           | Some u \<Rightarrow>
               (case NewSigner (sb_secret sub) of
                  None \<Rightarrow> let (row, d) = recordBlocked env flt sub ''subscription secret invalid'' d
                          in ((Some row, Some ''subscription secret invalid''), d)
                | Some s \<Rightarrow>
                    let ev = NewEvent (de_ids env 1) (de_now env) (sb_event sub) (sb_ws sub) None (de_test_payload env (sb_id sub))
                    in (case de_marshal env ev of
                          None \<Rightarrow> let (row, d) = recordBlocked env flt sub ''marshal test event'' d
                                  in ((Some row, Some ''marshal test event''), d)
                        | Some body \<Rightarrow>
                            let res = Deliver c hmac (de_exchange env) u (ev_id ev) (de_ids env 2) (ev_type ev) body s (de_now env);
                                row = delivery_row (de_ids env 2) (ev_id ev) (ev_type ev) sub 1 (de_now env) res
                            in (case InsertDelivery flt (de_ids env 3) row d of
                                  (Some e, d) \<Rightarrow> ((Some row, Some ''persist delivery''), d)
                                | (None, d) \<Rightarrow> ((Some row, None), d))))))"

end
