(* ===== verification/Webhook_Worker.thy ===== *)
theory Webhook_Worker
  imports Webhooks
begin

text \<open>
  The delivery worker (\<^verbatim>\<open>internal/webhooks/worker.go\<close>) and its message handler
  (\<^verbatim>\<open>cmd/worker/main.go\<close>): one message, delivered to every active subscriber of the event, and
  redelivered by JetStream until it is acknowledged or terminated, at most as often as the consumer
  is configured to.
\<close>

section \<open>One message\<close>

text \<open>The world during one call of \<^verbatim>\<open>Consume\<close>.  What differs between the subscribers is indexed
  by the subscription, which is served once: the exchange, the clock when the attempt starts and when it is
  over, the failures of the two database calls, the fresh identifiers.\<close>

record worker_env =
  we_unmarshal :: "string \<Rightarrow> event option"
  we_marshal :: "event \<Rightarrow> string option"
  we_ParseURL :: "string \<Rightarrow> url option"
  we_list_faults :: faults
  we_exchange :: "uuid \<Rightarrow> exchange"
  we_started :: "uuid \<Rightarrow> time"
  we_over :: "uuid \<Rightarrow> time"
  we_faults :: "uuid \<Rightarrow> faults"
  we_ids :: "uuid \<Rightarrow> uuid"
  we_fresh :: "uuid \<Rightarrow> uuid"

datatype job_result = JobOk | JobSkip | JobError | JobDropped

definition retry_row :: "bool \<Rightarrow> time \<Rightarrow> nat \<Rightarrow> delivery \<Rightarrow> delivery" where
  "retry_row terminal now attempt x =
     (if dv_outcome x \<noteq> OutcomeSuccess \<and> \<not> terminal
      then x\<lparr>dv_next_retry := Some (now + BackoffDelay (attempt + 1))\<rparr> else x)"

text \<open>Both calls are made whatever the first returns; errors are logged.\<close>

definition record_attempt :: "worker_env \<Rightarrow> uuid \<Rightarrow> delivery \<Rightarrow> time \<Rightarrow> webhook_db \<Rightarrow> webhook_db" where
  "record_attempt env i x ts d =
     snd (UpdateAttempt (we_faults env i) (we_over env i) (dv_ws x) (dv_sub x) (dv_outcome x) ts
            (snd (InsertDelivery (we_faults env i) (we_fresh env i) x d)))"

definition recordFailure ::
  "worker_env \<Rightarrow> event \<Rightarrow> subscription \<Rightarrow> nat \<Rightarrow> string \<Rightarrow> bool \<Rightarrow> webhook_db \<Rightarrow> webhook_db" where
  "recordFailure env ev sub attempt msg terminal d =
     (let i = sb_id sub;
          ts = we_started env i;
          x = delivery_row (we_ids env i) (ev_id ev) (ev_type ev) sub attempt ts
                \<lparr>at_id = we_ids env i, at_outcome = OutcomeBlocked, at_status = 0, at_response = [], at_error = msg,
                 at_duration = 0, at_time = ts\<rparr>
      in record_attempt env i (retry_row terminal (we_over env i) attempt x) ts d)"

definition deliverOne ::
  "delivery_client \<Rightarrow> mac \<Rightarrow> worker_env \<Rightarrow> event \<Rightarrow> subscription \<Rightarrow> string \<Rightarrow> nat \<Rightarrow> bool \<Rightarrow> webhook_db
     \<Rightarrow> bool \<times> webhook_db" where
  "deliverOne c hmac env ev sub body attempt terminal d =
     (case we_ParseURL env (sb_url sub) of
        None \<Rightarrow> (False, recordFailure env ev sub attempt ''stored URL no longer parses'' terminal d)
      | Some u \<Rightarrow>
          (case NewSigner (sb_secret sub) of
             None \<Rightarrow> (False, recordFailure env ev sub attempt ''subscription secret invalid'' terminal d)
           | Some s \<Rightarrow>
               let i = sb_id sub;
                   ts = we_started env i;
                   res = Deliver c hmac (we_exchange env i) u (ev_id ev) (we_ids env i) (ev_type ev) body s ts;
                   x = delivery_row (we_ids env i) (ev_id ev) (ev_type ev) sub attempt ts res
               in (at_outcome res = OutcomeSuccess,
                   record_attempt env i (retry_row terminal (we_over env i) attempt x) ts d)))"

primrec fan_out ::
  "delivery_client \<Rightarrow> mac \<Rightarrow> worker_env \<Rightarrow> event \<Rightarrow> string \<Rightarrow> nat \<Rightarrow> bool \<Rightarrow> subscription list \<Rightarrow> webhook_db
     \<Rightarrow> bool \<times> webhook_db" where
  "fan_out c hmac env ev body attempt terminal [] d = (True, d)"
| "fan_out c hmac env ev body attempt terminal (sub # subs) d =
     (let (ok, d) = deliverOne c hmac env ev sub body attempt terminal d;
          (rest, d) = fan_out c hmac env ev body attempt terminal subs d
      in (ok \<and> rest, d))"

text \<open>The number of the delivery, from the metadata of the message; one if there are none.\<close>

definition attempt_number :: "nat option \<Rightarrow> nat" where
  "attempt_number md = (case md of None \<Rightarrow> 1 | Some n \<Rightarrow> max 1 n)"

definition Consume ::
  "delivery_client \<Rightarrow> mac \<Rightarrow> worker_env \<Rightarrow> string \<Rightarrow> nat option \<Rightarrow> webhook_db \<Rightarrow> job_result \<times> webhook_db" where
  "Consume c hmac env msg md d =
     (if msg = [] then (JobDropped, d)
      else case we_unmarshal env msg of
        None \<Rightarrow> (JobDropped, d)
      | Some ev \<Rightarrow>
          if ev_ws ev = uuid_Nil \<or> ev_type ev = [] then (JobDropped, d)
          else (case ListActiveForEvent (we_list_faults env) d (ev_ws ev) (ev_type ev) of
             Inl e \<Rightarrow> (JobError, d)
           | Inr subs \<Rightarrow>
               if subs = [] then (JobSkip, d)
               else (case we_marshal env ev of
                  None \<Rightarrow> (JobDropped, d)
                | Some body \<Rightarrow>
                    let attempt = attempt_number md;
                        terminal = (MaxAttempts \<le> attempt);
                        (ok, d) = fan_out c hmac env ev body attempt terminal subs d
                    in (if ok then JobOk else if terminal then JobDropped else JobError, d))))"

datatype settlement = MsgAck | MsgTerm | MsgNakWithDelay int

definition webhookDeliveryHandler ::
  "delivery_client \<Rightarrow> mac \<Rightarrow> worker_env \<Rightarrow> string \<Rightarrow> nat option \<Rightarrow> webhook_db \<Rightarrow> settlement \<times> webhook_db" where
  "webhookDeliveryHandler c hmac env msg md d =
     (let (r, d) = Consume c hmac env msg md d
      in (case r of
            JobOk \<Rightarrow> MsgAck
          | JobSkip \<Rightarrow> MsgAck
          | JobDropped \<Rightarrow> MsgTerm
          | JobError \<Rightarrow> MsgNakWithDelay (BackoffDelay (attempt_number md + 1)), d))"

text \<open>JetStream redelivers a message that was refused, with the next number, until the limit
  \<^verbatim>\<open>MaxDeliver\<close> of the consumer, which is \<^const>\<open>MaxAttempts\<close>.\<close>

function deliver_message ::
  "delivery_client \<Rightarrow> mac \<Rightarrow> (nat \<Rightarrow> worker_env) \<Rightarrow> string \<Rightarrow> nat \<Rightarrow> webhook_db \<Rightarrow> (nat \<times> settlement) \<times> webhook_db" where
  "deliver_message c hmac env msg n d =
     (let (r, d) = webhookDeliveryHandler c hmac (env n) msg (Some n) d
      in (case r of
            MsgNakWithDelay _ \<Rightarrow> if n < MaxAttempts then deliver_message c hmac env msg (Suc n) d else ((n, r), d)
          | _ \<Rightarrow> ((n, r), d)))"
  by pat_completeness auto
termination
  by (relation "measure (\<lambda>(c, hmac, env, msg, n, d). MaxAttempts - n)") auto

declare deliver_message.simps [simp del]

section \<open>The state of the subscriptions\<close>

text \<open>Identifiers are keys; an active subscription is below the threshold and not marked as paused;
  deliveries belong to subscriptions, their number is positive, their outcome agrees with the status,
  the stored response is bounded, and nothing is scheduled after a success.\<close>

definition sub_ok :: "subscription \<Rightarrow> bool" where
  "sub_ok s = (0 \<le> sb_failures s \<and> (sb_active s \<longrightarrow> sb_failures s < AutoPauseThreshold \<and> sb_auto_paused s = None)
     \<and> sub_checks s)"

definition delivery_ok :: "delivery \<Rightarrow> bool" where
  "delivery_ok x = (1 \<le> dv_attempt x \<and> (dv_outcome x = OutcomeSuccess \<longleftrightarrow> 200 \<le> dv_status x \<and> dv_status x < 300)
     \<and> length (dv_response x) \<le> DefaultMaxResponseBodyBytes + 12 \<and> (dv_outcome x = OutcomeSuccess \<longrightarrow> dv_next_retry x = None))"

definition webhook_inv :: "webhook_db \<Rightarrow> bool" where
  "webhook_inv d =
     (distinct (map sb_id (wh_subs d)) \<and> distinct (map dv_id (wh_deliveries d))
      \<and> (\<forall>s \<in> set (wh_subs d). sub_ok s)
      \<and> (\<forall>x \<in> set (wh_deliveries d). dv_sub x \<in> sb_id ` set (wh_subs d) \<and> delivery_ok x))"

text \<open>Workers and requests interleave statement by statement.\<close>

inductive webhook_step :: "webhook_db \<Rightarrow> webhook_db \<Rightarrow> bool" where
  create_sub: "webhook_step d (snd (insert_sub flt n now s d))"
| delete_sub: "webhook_step d (snd (sub_Delete flt ws i d))"
| set_active: "webhook_step d (snd (SetActive flt now ws i active d))"
| update_attempt: "webhook_step d (snd (UpdateAttempt flt now ws i outcome at d))"
| insert_delivery: "delivery_ok x \<Longrightarrow> webhook_step d (snd (InsertDelivery flt new x d))"

lemma sub_ok_active_update: "sub_ok s \<Longrightarrow> sub_ok (active_update now active s)"
  by (auto simp: sub_ok_def active_update_def sub_checks_def AutoPauseThreshold_def)

lemma sub_ok_attempt_update: "sub_ok s \<Longrightarrow> sub_ok (attempt_update now outcome at s)"
  by (auto simp: sub_ok_def attempt_update_def sub_checks_def Let_def AutoPauseThreshold_def)

lemma sb_id_updates [simp]: "sb_id (active_update now active s) = sb_id s" "sb_id (attempt_update now outcome at s) = sb_id s"
  "sb_ws (active_update now active s) = sb_ws s" "sb_ws (attempt_update now outcome at s) = sb_ws s"
  "sb_event (attempt_update now outcome at s) = sb_event s" "sb_url (attempt_update now outcome at s) = sb_url s"
  "sb_secret (attempt_update now outcome at s) = sb_secret s"
  by (simp_all add: active_update_def attempt_update_def Let_def)

lemma wh_deliveries_update_sub [simp]: "wh_deliveries (snd (update_sub flt label ws i u d)) = wh_deliveries d"
  by (simp add: update_sub_def)

lemma update_sub_subs:
  "wh_subs (snd (update_sub flt label ws i u d)) = (if flt label then wh_subs d else update_rows (sub_key ws i) u (wh_subs d))"
  by (auto simp: update_sub_def update_rows_nochange)

lemma webhook_inv_update_sub:
  assumes "webhook_inv d" "\<And>s. sub_ok s \<Longrightarrow> sub_ok (u s)" "\<And>s. sb_id (u s) = sb_id s"
  shows "webhook_inv (snd (update_sub flt label ws i u d))"
proof -
  let ?rows = "update_rows (sub_key ws i) u (wh_subs d)"
  have ids: "map sb_id ?rows = map sb_id (wh_subs d)" by (rule map_update_rows) (rule assms(3))
  moreover from ids have "sb_id ` set ?rows = sb_id ` set (wh_subs d)" by (metis set_map)
  moreover have "\<forall>s \<in> set ?rows. sub_ok s" using assms(1,2) by (auto simp: set_update_rows webhook_inv_def)
  ultimately show ?thesis using assms(1) by (auto simp: webhook_inv_def update_sub_subs simp del: set_map)
qed

lemma webhook_inv_insert_sub: "webhook_inv d \<Longrightarrow> webhook_inv (snd (insert_sub flt n now s d))"
  by (auto simp: webhook_inv_def insert_sub_def Let_def sub_ok_def AutoPauseThreshold_def)

lemma webhook_inv_delete: "webhook_inv d \<Longrightarrow> webhook_inv (snd (sub_Delete flt ws i d))"
  by (auto simp: webhook_inv_def sub_Delete_def set_delete_rows delete_rows_def distinct_map_filter sub_key_def)

lemma webhook_inv_insert_delivery: "webhook_inv d \<Longrightarrow> delivery_ok x \<Longrightarrow> webhook_inv (snd (InsertDelivery flt new x d))"
  by (auto simp: webhook_inv_def InsertDelivery_def Let_def delivery_ok_def)

lemma webhook_inv_step: "webhook_step d d' \<Longrightarrow> webhook_inv d \<Longrightarrow> webhook_inv d'"
  by (induction rule: webhook_step.induct)
    (simp_all add: webhook_inv_insert_sub webhook_inv_delete webhook_inv_insert_delivery SetActive_def UpdateAttempt_def
      webhook_inv_update_sub sub_ok_active_update sub_ok_attempt_update)

section \<open>What a delivery records\<close>

definition std_client :: "delivery_client \<Rightarrow> bool" where
  "std_client c = (dc_max_body c = DefaultMaxResponseBodyBytes)"

lemma read_response_length: "read_response m body err = (x, e) \<Longrightarrow> length x \<le> m + 12"
  by (auto simp: read_response_def Let_def split: if_splits)

lemma Deliver_row:
  assumes "std_client c"
  shows "at_outcome (Deliver c hmac ex u e i t body s ts) = OutcomeSuccess
      \<longleftrightarrow> 200 \<le> at_status (Deliver c hmac ex u e i t body s ts) \<and> at_status (Deliver c hmac ex u e i t body s ts) < 300"
    and "length (at_response (Deliver c hmac ex u e i t body s ts)) \<le> DefaultMaxResponseBodyBytes + 12"
  using assms
  by (auto simp: Deliver_def Let_def std_client_def split: option.splits http_result.splits prod.splits
      dest: read_response_length)

lemma delivery_ok_row:
  assumes "1 \<le> attempt" "at_outcome res = OutcomeSuccess \<longleftrightarrow> 200 \<le> at_status res \<and> at_status res < 300"
    "length (at_response res) \<le> DefaultMaxResponseBodyBytes + 12"
  shows "delivery_ok (delivery_row i e t sub attempt ts res)"
  using assms by (auto simp: delivery_ok_def delivery_row_def)

lemma delivery_ok_retry_row: "delivery_ok x \<Longrightarrow> delivery_ok (retry_row terminal now attempt x)"
  by (auto simp: delivery_ok_def retry_row_def)

lemma record_attempt_steps: "delivery_ok x \<Longrightarrow> webhook_step\<^sup>*\<^sup>* d (record_attempt env i x ts d)"
  unfolding record_attempt_def
  by (meson insert_delivery update_attempt converse_rtranclp_into_rtranclp r_into_rtranclp)

lemma deliverOne_steps:
  assumes "std_client c" "1 \<le> attempt"
  shows "webhook_step\<^sup>*\<^sup>* d (snd (deliverOne c hmac env ev sub body attempt terminal d))"
  using assms
  by (auto simp: deliverOne_def recordFailure_def Let_def Deliver_row split: option.splits
      intro!: record_attempt_steps delivery_ok_retry_row delivery_ok_row)

lemma fan_out_Cons:
  "snd (fan_out c hmac env ev body attempt terminal (sub # subs) d)
     = snd (fan_out c hmac env ev body attempt terminal subs (snd (deliverOne c hmac env ev sub body attempt terminal d)))"
  "fst (fan_out c hmac env ev body attempt terminal (sub # subs) d) \<longleftrightarrow>
     fst (deliverOne c hmac env ev sub body attempt terminal d)
     \<and> fst (fan_out c hmac env ev body attempt terminal subs (snd (deliverOne c hmac env ev sub body attempt terminal d)))"
  by (simp_all add: Let_def split: prod.splits)

declare fan_out.simps(2) [simp del]

lemma fan_out_steps:
  assumes "std_client c" "1 \<le> attempt"
  shows "webhook_step\<^sup>*\<^sup>* d (snd (fan_out c hmac env ev body attempt terminal subs d))"
proof (induction subs arbitrary: d)
  case (Cons sub subs)
  show ?case
    unfolding fan_out_Cons using deliverOne_steps [OF assms] Cons by (rule rtranclp_trans)
qed simp

lemma attempt_number_pos [simp]: "1 \<le> attempt_number md" "Suc 0 \<le> attempt_number md"
  by (simp_all add: attempt_number_def split: option.split)

lemma Consume_fan_out:
  "snd (Consume c hmac env msg md d) = d
   \<or> (\<exists>ev subs body. we_unmarshal env msg = Some ev \<and> we_marshal env ev = Some body
        \<and> snd (Consume c hmac env msg md d)
          = snd (fan_out c hmac env ev body (attempt_number md) (MaxAttempts \<le> attempt_number md) subs d))"
  by (auto simp: Consume_def Let_def split: option.splits sum.splits prod.splits) (metis snd_conv)+

lemma Consume_steps:
  assumes "std_client c"
  shows "webhook_step\<^sup>*\<^sup>* d (snd (Consume c hmac env msg md d))"
  using Consume_fan_out [of c hmac env msg md d] fan_out_steps [OF assms] by (metis attempt_number_pos(1) rtranclp.rtrancl_refl)

lemma handler_Consume: "snd (webhookDeliveryHandler c hmac env msg md d) = snd (Consume c hmac env msg md d)"
  by (simp add: webhookDeliveryHandler_def Let_def split: prod.split)

text \<open>One delivery of the message: it is over, or goes on with the next number.\<close>

lemma deliver_message_unfold:
  assumes "webhookDeliveryHandler c hmac (env n) msg (Some n) d = (r, d')"
  shows "deliver_message c hmac env msg n d =
    (if (\<exists>w. r = MsgNakWithDelay w) \<and> n < MaxAttempts then deliver_message c hmac env msg (Suc n) d' else ((n, r), d'))"
  using assms by (subst deliver_message.simps) (auto split: settlement.split)

lemma deliver_message_steps:
  assumes "std_client c"
  shows "webhook_step\<^sup>*\<^sup>* d (snd (deliver_message c hmac env msg n d))"
proof (induction "MaxAttempts - n" arbitrary: n d)
  case 0
  obtain r d' where h: "webhookDeliveryHandler c hmac (env n) msg (Some n) d = (r, d')" by fastforce
  with 0 Consume_steps [OF assms] handler_Consume show ?case by (simp add: deliver_message_unfold [of c hmac env n msg d r d', OF h]) (metis snd_conv)
next
  case (Suc m)
  obtain r d' where h: "webhookDeliveryHandler c hmac (env n) msg (Some n) d = (r, d')" by fastforce
  then have "webhook_step\<^sup>*\<^sup>* d d'" using Consume_steps [OF assms] handler_Consume by (metis snd_conv)
  with Suc show ?case by (auto simp: deliver_message_unfold [of c hmac env n msg d r d', OF h] intro: rtranclp_trans)
qed

lemma Dispatch_db:
  "snd (Dispatch c hmac env flt target d) = d
   \<or> (\<exists>new x. (std_client c \<longrightarrow> delivery_ok x) \<and> snd (Dispatch c hmac env flt target d) = snd (InsertDelivery flt new x d))"
proof -
  have blocked: "\<exists>new x. delivery_ok x \<and> snd (recordBlocked env flt sub msg d) = snd (InsertDelivery flt new x d)" for sub msg
    by (auto simp: recordBlocked_def Let_def intro!: exI [of _ "de_ids env 3"] exI delivery_ok_row)
  have sent: "\<exists>new x. (std_client c \<longrightarrow> delivery_ok x) \<and>
      snd (InsertDelivery flt (de_ids env 3) (delivery_row i e t sub 1 ts (Deliver c hmac ex u e' i' t' body s ts')) d)
        = snd (InsertDelivery flt new x d)" for i e t sub ts ex u e' i' t' body s ts'
    by (rule exI [of _ "de_ids env 3"], rule exI, rule conjI [OF _ refl]) (simp add: delivery_ok_row Deliver_row)
  show ?thesis
    using blocked sent
    by (auto simp: Dispatch_def Let_def split: option.splits prod.splits) (metis snd_conv)+
qed

end
