(* ===== verification/Webhook_Progress.thy ===== *)
theory Webhook_Progress
  imports Webhook_Worker
begin

text \<open>
  Progress of a message through its deliveries: what one fan-out leaves of a subscription and adds to
  the history, and the induction over the redeliveries.
\<close>

section \<open>One attempt\<close>

text \<open>The row an attempt records depends on the subscription as it was listed, not on the database.\<close>

definition attempt_result :: "delivery_client \<Rightarrow> mac \<Rightarrow> worker_env \<Rightarrow> event \<Rightarrow> subscription \<Rightarrow> string \<Rightarrow> delivery_attempt" where
  "attempt_result c hmac env ev sub body =
     (let i = sb_id sub; ts = we_started env i;
          failed = (\<lambda>msg. \<lparr>at_id = we_ids env i, at_outcome = OutcomeBlocked, at_status = 0, at_response = [], at_error = msg,
                           at_duration = 0, at_time = ts\<rparr>)
      in case (we_ParseURL env (sb_url sub), NewSigner (sb_secret sub)) of
           (None, _) \<Rightarrow> failed ''stored URL no longer parses''
         | (Some u, None) \<Rightarrow> failed ''subscription secret invalid''
         | (Some u, Some s) \<Rightarrow> Deliver c hmac (we_exchange env i) u (ev_id ev) (we_ids env i) (ev_type ev) body s ts)"

definition attempt_row ::
  "delivery_client \<Rightarrow> mac \<Rightarrow> worker_env \<Rightarrow> event \<Rightarrow> subscription \<Rightarrow> string \<Rightarrow> nat \<Rightarrow> bool \<Rightarrow> delivery" where
  "attempt_row c hmac env ev sub body attempt terminal =
     retry_row terminal (we_over env (sb_id sub)) attempt
       (delivery_row (we_ids env (sb_id sub)) (ev_id ev) (ev_type ev) sub attempt (we_started env (sb_id sub))
          (attempt_result c hmac env ev sub body))"

lemma attempt_row_fields [simp]:
  "dv_id (attempt_row c hmac env ev sub body attempt terminal) = we_ids env (sb_id sub)"
  "dv_sub (attempt_row c hmac env ev sub body attempt terminal) = sb_id sub"
  "dv_ws (attempt_row c hmac env ev sub body attempt terminal) = sb_ws sub"
  "dv_event (attempt_row c hmac env ev sub body attempt terminal) = ev_id ev"
  "dv_attempt (attempt_row c hmac env ev sub body attempt terminal) = attempt"
  "dv_outcome (attempt_row c hmac env ev sub body attempt terminal) = at_outcome (attempt_result c hmac env ev sub body)"
  by (simp_all add: attempt_row_def retry_row_def delivery_row_def)

lemma deliverOne_eq:
  "deliverOne c hmac env ev sub body attempt terminal d =
     (at_outcome (attempt_result c hmac env ev sub body) = OutcomeSuccess,
      record_attempt env (sb_id sub) (attempt_row c hmac env ev sub body attempt terminal) (we_started env (sb_id sub)) d)"
  by (simp add: deliverOne_def recordFailure_def attempt_row_def attempt_result_def Let_def split: option.split)

lemma wh_subs_InsertDelivery [simp]: "wh_subs (snd (InsertDelivery flt new x d)) = wh_subs d"
  by (simp add: InsertDelivery_def Let_def)

lemma record_attempt_subs:
  "wh_subs (record_attempt env i x ts d) = wh_subs d
   \<or> wh_subs (record_attempt env i x ts d)
      = update_rows (sub_key (dv_ws x) (dv_sub x)) (attempt_update (we_over env i) (dv_outcome x) ts) (wh_subs d)"
  by (auto simp: record_attempt_def UpdateAttempt_def update_sub_subs)

lemma record_attempt_deliveries:
  assumes "dv_id x \<noteq> uuid_Nil"
  shows "wh_deliveries (record_attempt env i x ts d) =
    (if we_faults env i ''insert webhook_deliveries'' \<or> dv_id x \<in> dv_id ` set (wh_deliveries d)
        \<or> dv_sub x \<notin> sb_id ` set (wh_subs d) \<or> dv_attempt x < 1
     then wh_deliveries d else wh_deliveries d @ [x])"
  using assms by (simp add: record_attempt_def UpdateAttempt_def InsertDelivery_def Let_def)

lemma map_sb_id_record_attempt: "map sb_id (wh_subs (record_attempt env i x ts d)) = map sb_id (wh_subs d)"
proof -
  let ?p = "sub_key (dv_ws x) (dv_sub x)" and ?u = "attempt_update (we_over env i) (dv_outcome x) ts"
  have "map sb_id (update_rows ?p ?u (wh_subs d)) = map sb_id (wh_subs d)" by (rule map_update_rows) simp
  then show ?thesis using record_attempt_subs [of env i x ts d] by metis
qed

lemma sb_id_record_attempt: "sb_id ` set (wh_subs (record_attempt env i x ts d)) = sb_id ` set (wh_subs d)"
  using map_sb_id_record_attempt by (metis set_map)

section \<open>What an attempt leaves of a subscription\<close>

definition subscribed :: "subscription \<Rightarrow> event \<Rightarrow> int \<Rightarrow> webhook_db \<Rightarrow> bool" where
  "subscribed s ev f d =
     (\<exists>r \<in> set (wh_subs d). sb_id r = sb_id s \<and> sb_ws r = ev_ws ev \<and> sb_event r = ev_type ev \<and> sb_url r = sb_url s
        \<and> sb_secret r = sb_secret s \<and> sb_active r \<and> sb_failures r \<le> f)"

lemma subscribed_mono: "subscribed s ev f d \<Longrightarrow> f \<le> g \<Longrightarrow> subscribed s ev g d"
  by (fastforce simp: subscribed_def)

lemma attempt_update_row:
  assumes "sb_active r" "sb_failures r \<le> f" "0 \<le> f" "f + 1 < AutoPauseThreshold"
  shows "sb_active (attempt_update now outcome at r)" "sb_failures (attempt_update now outcome at r) \<le> f + 1"
  using assms by (auto simp: attempt_update_def Let_def)

lemma subscribed_attempt:
  assumes "subscribed s ev f d" "sb_id sub = sb_id s \<Longrightarrow> 0 \<le> f \<and> f + 1 < AutoPauseThreshold"
  shows "subscribed s ev (if sb_id sub = sb_id s then f + 1 else f)
    (snd (deliverOne c hmac env ev' sub body attempt terminal d))"
proof -
  let ?x = "attempt_row c hmac env ev' sub body attempt terminal" and ?i = "sb_id sub"
  let ?u = "attempt_update (we_over env ?i) (dv_outcome ?x) (we_started env ?i)"
  let ?d = "snd (deliverOne c hmac env ev' sub body attempt terminal d)"
  consider "wh_subs ?d = wh_subs d" | "wh_subs ?d = update_rows (sub_key (sb_ws sub) ?i) ?u (wh_subs d)"
    unfolding deliverOne_eq snd_conv using record_attempt_subs [of env ?i ?x] by fastforce
  then show ?thesis
  proof cases
    case 1
    with assms(1) show ?thesis using subscribed_mono by (auto simp: subscribed_def) 
  next
    case 2
    from assms(1) obtain r where r: "r \<in> set (wh_subs d)" "sb_id r = sb_id s" "sb_ws r = ev_ws ev" "sb_event r = ev_type ev"
      "sb_url r = sb_url s" "sb_secret r = sb_secret s" "sb_active r" "sb_failures r \<le> f" by (auto simp: subscribed_def)
    let ?r = "if sub_key (sb_ws sub) ?i r then ?u r else r"
    have "?r \<in> set (wh_subs ?d)" using r(1) by (simp add: 2 set_update_rows)
    moreover have "sb_active ?r" "sb_failures ?r \<le> (if ?i = sb_id s then f + 1 else f)"
      using attempt_update_row [OF r(7,8)] assms(2) r(2,7,8) by (auto simp: sub_key_def)
    ultimately show ?thesis using r unfolding subscribed_def by (intro bexI [of _ ?r]) auto
  qed
qed

section \<open>One fan-out\<close>

lemma subscribed_fan_out_others:
  assumes "sb_id s \<notin> sb_id ` set subs" "subscribed s ev f d"
  shows "subscribed s ev f (snd (fan_out c hmac env ev' body attempt terminal subs d))"
  using assms
proof (induction subs arbitrary: d)
  case (Cons sub subs)
  then have "subscribed s ev f (snd (deliverOne c hmac env ev' sub body attempt terminal d))"
    using subscribed_attempt [of s ev f d sub c hmac env ev' body attempt terminal] by auto
  with Cons show ?case unfolding fan_out_Cons by simp
qed simp

lemma subscribed_fan_out:
  assumes "distinct (map sb_id subs)" "subscribed s ev f d" "0 \<le> f" "f + 1 < AutoPauseThreshold"
  shows "subscribed s ev (f + 1) (snd (fan_out c hmac env ev' body attempt terminal subs d))"
  using assms
proof (induction subs arbitrary: d)
  case (Cons sub subs)
  let ?d = "snd (deliverOne c hmac env ev' sub body attempt terminal d)"
  have "subscribed s ev (if sb_id sub = sb_id s then f + 1 else f) ?d"
    using Cons.prems by (intro subscribed_attempt) auto
  then show ?case
    using Cons subscribed_fan_out_others [of s subs ev "f + 1" ?d] unfolding fan_out_Cons by (cases "sb_id sub = sb_id s") auto
qed (simp add: subscribed_mono)

lemma map_sb_id_fan_out:
  "map sb_id (wh_subs (snd (fan_out c hmac env ev body attempt terminal subs d))) = map sb_id (wh_subs d)"
  by (induction subs arbitrary: d) (simp_all add: fan_out_Cons deliverOne_eq map_sb_id_record_attempt)

definition nonnil_ids :: "worker_env \<Rightarrow> bool" where
  "nonnil_ids env = (\<forall>i. we_ids env i \<noteq> uuid_Nil)"

lemma fan_out_history:
  assumes "nonnil_ids env"
  shows "set (wh_deliveries d) \<subseteq> set (wh_deliveries (snd (fan_out c hmac env ev body attempt terminal subs d)))"
    and "dv_id ` set (wh_deliveries (snd (fan_out c hmac env ev body attempt terminal subs d)))
      \<subseteq> dv_id ` set (wh_deliveries d) \<union> we_ids env ` sb_id ` set subs"
proof (induction subs arbitrary: d)
  case (Cons sub subs)
  let ?d = "\<lambda>d. snd (deliverOne c hmac env ev sub body attempt terminal d)"
  have one: "set (wh_deliveries d) \<subseteq> set (wh_deliveries (?d d))"
    "dv_id ` set (wh_deliveries (?d d)) \<subseteq> insert (we_ids env (sb_id sub)) (dv_id ` set (wh_deliveries d))" for d
    using assms by (auto simp: deliverOne_eq record_attempt_deliveries nonnil_ids_def)
  {
    case (1 d)
    show ?case using one(1) [of d] Cons(1) [of "?d d"] unfolding fan_out_Cons by (rule subset_trans)
  next
    case (2 d)
    have chain: "A \<subseteq> insert x B \<Longrightarrow> C \<subseteq> A \<union> S \<Longrightarrow> C \<subseteq> B \<union> insert x S" for A B C S and x :: uuid by blast
    show ?case unfolding fan_out_Cons list.set image_insert using one(2) Cons(2) by (rule chain)
  }
qed simp_all

lemma fan_out_success:
  assumes "nonnil_ids env" "inj (we_ids env)" "1 \<le> attempt" "distinct (map sb_id subs)"
    "sub \<in> set subs" "sb_id sub \<in> sb_id ` set (wh_subs d)" "we_ids env (sb_id sub) \<notin> dv_id ` set (wh_deliveries d)"
    "\<not> we_faults env (sb_id sub) ''insert webhook_deliveries''"
  shows "attempt_row c hmac env ev sub body attempt terminal
    \<in> set (wh_deliveries (snd (fan_out c hmac env ev body attempt terminal subs d)))"
  using assms(4-7)
proof (induction subs arbitrary: d)
  case (Cons s subs)
  let ?d = "snd (deliverOne c hmac env ev s body attempt terminal d)"
  have nn: "we_ids env i \<noteq> uuid_Nil" for i using assms(1) by (simp add: nonnil_ids_def)
  show ?case
  proof (cases "sub = s")
    case True
    with Cons.prems assms(3,8) nn have "attempt_row c hmac env ev sub body attempt terminal \<in> set (wh_deliveries ?d)"
      by (auto simp: deliverOne_eq record_attempt_deliveries)
    then show ?thesis using fan_out_history(1) [OF assms(1), of ?d] unfolding fan_out_Cons by blast
  next
    case False
    then have sub: "sub \<in> set subs" "sb_id s \<noteq> sb_id sub" using Cons.prems(1,2) by auto
    moreover have "we_ids env (sb_id sub) \<notin> dv_id ` set (wh_deliveries ?d)"
      using Cons.prems(4) sub(2) assms(2) nn by (auto simp: deliverOne_eq record_attempt_deliveries dest: injD)
    moreover have "sb_id sub \<in> sb_id ` set (wh_subs ?d)"
      using Cons.prems(3) by (simp add: deliverOne_eq sb_id_record_attempt)
    ultimately show ?thesis using Cons unfolding fan_out_Cons by simp
  qed
qed simp

lemma fan_out_ok: "fst (fan_out c hmac env ev body attempt terminal subs d) \<longleftrightarrow>
    (\<forall>sub \<in> set subs. at_outcome (attempt_result c hmac env ev sub body) = OutcomeSuccess)"
  by (induction subs arbitrary: d) (simp_all add: fan_out_Cons deliverOne_eq)

section \<open>One message\<close>

text \<open>The message holds the event; the worker can list the subscribers.\<close>

definition carries :: "worker_env \<Rightarrow> string \<Rightarrow> event \<Rightarrow> bool" where
  "carries env msg ev =
     (msg \<noteq> [] \<and> we_unmarshal env msg = Some ev \<and> ev_ws ev \<noteq> uuid_Nil \<and> ev_type ev \<noteq> []
      \<and> we_marshal env ev \<noteq> None)"

definition can_list :: "worker_env \<Rightarrow> bool" where
  "can_list env = (\<not> we_list_faults env ''select active webhook_subscriptions'')"

abbreviation listed :: "event \<Rightarrow> webhook_db \<Rightarrow> subscription list" where
  "listed ev d \<equiv> filter (\<lambda>s. sb_ws s = ev_ws ev \<and> sb_event s = ev_type ev \<and> sb_active s) (wh_subs d)"

lemma handler_carries:
  assumes "carries env msg ev" "can_list env" "listed ev d \<noteq> []" "1 \<le> n"
  shows "webhookDeliveryHandler c hmac env msg (Some n) d =
    (let r = fan_out c hmac env ev (the (we_marshal env ev)) n (MaxAttempts \<le> n) (listed ev d) d
     in (if fst r then MsgAck else if MaxAttempts \<le> n then MsgTerm else MsgNakWithDelay (BackoffDelay (n + 1)), snd r))"
  using assms
  by (auto simp: webhookDeliveryHandler_def Consume_def carries_def can_list_def ListActiveForEvent_def attempt_number_def Let_def
      max_def split: prod.splits)

text \<open>If the subscribers cannot be listed, the message is refused and nothing is recorded.\<close>

lemma handler_cannot_list:
  assumes "carries env msg ev" "\<not> can_list env" "webhookDeliveryHandler c hmac env msg (Some n) d = (r, d')"
  shows "d' = d" and "\<exists>w. r = MsgNakWithDelay w"
  using assms
  by (auto simp: webhookDeliveryHandler_def Consume_def carries_def can_list_def ListActiveForEvent_def Let_def)

text \<open>The endpoint can be reached at a permitted address and accepts whatever it is sent.\<close>

definition endpoint_up :: "delivery_client \<Rightarrow> worker_env \<Rightarrow> subscription \<Rightarrow> bool" where
  "endpoint_up c env s =
     (SecretMinLength \<le> length (sb_secret s)
      \<and> (\<exists>u a. we_ParseURL env (sb_url s) = Some u \<and> contacted c (we_exchange env (sb_id s)) u = Some a
           \<and> (\<forall>rq. \<exists>st b e. ex_answer (we_exchange env (sb_id s)) a rq = HttpResponse st b e \<and> 200 \<le> st \<and> st < 300)))"

lemma endpoint_up_success:
  assumes "endpoint_up c env s"
  shows "at_outcome (attempt_result c hmac env ev s body) = OutcomeSuccess"
proof -
  let ?ex = "we_exchange env (sb_id s)"
  from assms obtain u a where u: "we_ParseURL env (sb_url s) = Some u" "contacted c ?ex u = Some a"
    and ans: "\<And>rq. \<exists>st b e. ex_answer ?ex a rq = HttpResponse st b e \<and> 200 \<le> st \<and> st < 300"
    by (auto simp: endpoint_up_def)
  from assms have "NewSigner (sb_secret s) = Some \<lparr>sg_secret = sb_secret s\<rparr>"
    by (simp add: endpoint_up_def NewSigner_def)
  moreover have "http_Do ?ex (Hostname u) rq = ex_answer ?ex a rq" for rq
    using u(2) by (auto simp: contacted_def http_Do_def split: option.splits if_splits)
  moreover have "ValidateResolved (dc_validator c) (ex_validate ?ex) u = None" "ex_build_error ?ex = None"
    using u(2) by (auto simp: contacted_def split: if_splits)
  ultimately show ?thesis
    using u(1) ans by (auto simp: attempt_result_def Deliver_def Let_def split: http_result.splits prod.splits) (metis http_result.inject(2) http_result.distinct(1))+
qed

lemma endpoint_up_cong:
  "sb_id r = sb_id s \<Longrightarrow> sb_url r = sb_url s \<Longrightarrow> sb_secret r = sb_secret s \<Longrightarrow> endpoint_up c env r = endpoint_up c env s"
  by (simp add: endpoint_up_def)

text \<open>Identifiers of attempts are new: not nil, not in the history, and never drawn twice.\<close>

definition fresh_ids :: "(nat \<Rightarrow> worker_env) \<Rightarrow> bool" where
  "fresh_ids env = ((\<forall>n. nonnil_ids (env n)) \<and> inj (\<lambda>(n, i). we_ids (env n) i))"

lemma fresh_idsD:
  assumes "fresh_ids env"
  shows "nonnil_ids (env n)" "inj (we_ids (env n))" "we_ids (env n) i = we_ids (env m) j \<Longrightarrow> n = m \<and> i = j"
proof -
  have inj: "inj (\<lambda>(n, i). we_ids (env n) i)" using assms by (simp add: fresh_ids_def)
  show "nonnil_ids (env n)" using assms by (simp add: fresh_ids_def)
  show same: "we_ids (env n) i = we_ids (env m) j \<Longrightarrow> n = m \<and> i = j" for n m i j
    using injD [OF inj, of "(n, i)" "(m, j)"] by simp
  show "inj (we_ids (env n))" by (rule injI) (drule same, simp)
qed

definition unused_from :: "(nat \<Rightarrow> worker_env) \<Rightarrow> nat \<Rightarrow> webhook_db \<Rightarrow> bool" where
  "unused_from env n d = (\<forall>m \<ge> n. \<forall>i. we_ids (env m) i \<notin> dv_id ` set (wh_deliveries d))"

lemma unused_from_fan_out:
  assumes "fresh_ids env" "unused_from env n d"
  shows "unused_from env (Suc n) (snd (fan_out c hmac (env n) ev body attempt terminal subs d))"
proof -
  have "we_ids (env m) i \<notin> we_ids (env n) ` sb_id ` set subs" if "Suc n \<le> m" for m i
    using fresh_idsD(3) [OF assms(1)] that by (metis imageE not_less_eq_eq order_refl)
  moreover have "we_ids (env m) i \<notin> dv_id ` set (wh_deliveries d)" if "Suc n \<le> m" for m i
    using assms(2) that by (simp add: unused_from_def)
  ultimately have "we_ids (env m) i \<notin> dv_id ` set (wh_deliveries (snd (fan_out c hmac (env n) ev body attempt terminal subs d)))"
    if "Suc n \<le> m" for m i
    using that subsetD [OF fan_out_history(2) [OF fresh_idsD(1) [OF assms(1)]]] by (metis UnE)
  then show ?thesis unfolding unused_from_def by simp
qed

lemma handler_history:
  assumes "nonnil_ids env"
  shows "set (wh_deliveries d) \<subseteq> set (wh_deliveries (snd (webhookDeliveryHandler c hmac env msg md d)))"
  using Consume_fan_out [of c hmac env msg md d]
proof (elim disjE exE conjE)
  fix ev subs body
  assume "snd (Consume c hmac env msg md d)
    = snd (fan_out c hmac env ev body (attempt_number md) (MaxAttempts \<le> attempt_number md) subs d)"
  then show ?thesis unfolding handler_Consume using fan_out_history(1) [OF assms] by simp
qed (simp add: handler_Consume)

lemma deliver_message_history:
  assumes "fresh_ids env"
  shows "set (wh_deliveries d) \<subseteq> set (wh_deliveries (snd (deliver_message c hmac env msg n d)))"
proof (induction "MaxAttempts - n" arbitrary: n d)
  case 0
  obtain r d' where h: "webhookDeliveryHandler c hmac (env n) msg (Some n) d = (r, d')" by fastforce
  then have "set (wh_deliveries d) \<subseteq> set (wh_deliveries d')" using handler_history [OF fresh_idsD(1) [OF assms]] by (metis snd_conv)
  with 0 show ?case by (simp add: deliver_message_unfold [of c hmac env n msg d r d', OF h])
next
  case (Suc m)
  obtain r d' where h: "webhookDeliveryHandler c hmac (env n) msg (Some n) d = (r, d')" by fastforce
  then have "set (wh_deliveries d) \<subseteq> set (wh_deliveries d')" using handler_history [OF fresh_idsD(1) [OF assms]] by (metis snd_conv)
  moreover have "m = MaxAttempts - Suc n" using Suc(2) by simp
  ultimately show ?case using Suc(1) [of "Suc n" d']
    by (auto simp: deliver_message_unfold [of c hmac env n msg d r d', OF h])
qed

text \<open>The subscription has a successful delivery of the event in its history.\<close>

definition received :: "subscription \<Rightarrow> event \<Rightarrow> webhook_db \<Rightarrow> bool" where
  "received s ev d = (\<exists>x \<in> set (wh_deliveries d). dv_sub x = sb_id s \<and> dv_event x = ev_id ev \<and> dv_outcome x = OutcomeSuccess)"

lemma received_deliver_message:
  "fresh_ids env \<Longrightarrow> received s ev d \<Longrightarrow> received s ev (snd (deliver_message c hmac env msg n d))"
  using deliver_message_history [of env d c hmac msg n] unfolding received_def by blast

text \<open>One delivery of the message to a subscription in good standing: the event is received, or the
  endpoint was down and the message is refused, or terminated if this was the last attempt, and the
  subscription still stands.\<close>

lemma handler_progress:
  assumes ev: "carries (env n) msg ev" "can_list (env n)" "1 \<le> n"
    and d: "subscribed s ev f d" "0 \<le> f" "f + 1 < AutoPauseThreshold" "distinct (map sb_id (wh_subs d))"
    and env: "fresh_ids env" "unused_from env n d" "\<not> we_faults (env n) (sb_id s) ''insert webhook_deliveries''"
    and h: "webhookDeliveryHandler c hmac (env n) msg (Some n) d = (r, d')"
  shows "received s ev d' \<or> \<not> endpoint_up c (env n) s \<and> (n < MaxAttempts \<longrightarrow> (\<exists>w. r = MsgNakWithDelay w))"
    and "subscribed s ev (f + 1) d'" "unused_from env (Suc n) d'" "distinct (map sb_id (wh_subs d'))"
proof -
  let ?L = "listed ev d" and ?b = "the (we_marshal (env n) ev)"
  let ?r = "fan_out c hmac (env n) ev ?b n (MaxAttempts \<le> n) ?L d"
  from d(1) obtain r0 where r0: "r0 \<in> set ?L" "sb_id r0 = sb_id s" "sb_url r0 = sb_url s" "sb_secret r0 = sb_secret s"
    by (auto simp: subscribed_def)
  then have "?L \<noteq> []" by (metis empty_iff list.set(1))
  with h ev have r: "d' = snd ?r"
    "r = (if fst ?r then MsgAck else if MaxAttempts \<le> n then MsgTerm else MsgNakWithDelay (BackoffDelay (n + 1)))"
    by (simp_all add: handler_carries Let_def)
  have dist: "distinct (map sb_id ?L)" using d(4) by (rule distinct_map_filter)
  show "subscribed s ev (f + 1) d'" unfolding r(1) by (rule subscribed_fan_out [OF dist d(1-3)])
  show "unused_from env (Suc n) d'" unfolding r(1) by (rule unused_from_fan_out [OF env(1,2)])
  show "distinct (map sb_id (wh_subs d'))" unfolding r(1) map_sb_id_fan_out by (rule d(4))
  have "sb_id s \<in> sb_id ` set (wh_subs d)" using r0(1) by (simp flip: r0(2))
  then have row: "attempt_row c hmac (env n) ev r0 ?b n (MaxAttempts \<le> n) \<in> set (wh_deliveries d')"
    unfolding r(1) using r0(1,2) env ev(3) fresh_idsD(1,2) [OF env(1)] dist
    by (intro fan_out_success) (auto simp: unused_from_def)
  have "received s ev d'" if "at_outcome (attempt_result c hmac (env n) ev r0 ?b) = OutcomeSuccess"
    unfolding received_def using row by (rule bexI [rotated]) (simp add: r0(2) that)
  moreover have "endpoint_up c (env n) s \<Longrightarrow> at_outcome (attempt_result c hmac (env n) ev r0 ?b) = OutcomeSuccess"
    using endpoint_up_cong [OF r0(2-4)] endpoint_up_success by blast
  moreover have "fst ?r \<Longrightarrow> at_outcome (attempt_result c hmac (env n) ev r0 ?b) = OutcomeSuccess"
    using r0(1) unfolding fan_out_ok by blast
  ultimately show "received s ev d' \<or> \<not> endpoint_up c (env n) s \<and> (n < MaxAttempts \<longrightarrow> (\<exists>w. r = MsgNakWithDelay w))"
    unfolding r(2) by auto
qed

lemma unused_from_later: "unused_from env n d \<Longrightarrow> unused_from env (Suc n) d"
  by (simp add: unused_from_def)

text \<open>Repeated for every number up to the one at which the endpoint is up.\<close>

lemma deliver_message_progress:
  assumes "\<forall>m. carries (env m) msg ev" "fresh_ids env"
    and "\<forall>m. 1 \<le> m \<and> m \<le> k \<longrightarrow> \<not> we_faults (env m) (sb_id s) ''insert webhook_deliveries''"
    and "k \<le> MaxAttempts" "can_list (env k)" "endpoint_up c (env k) s"
  shows "1 \<le> n \<Longrightarrow> n \<le> k \<Longrightarrow> subscribed s ev f d \<Longrightarrow> 0 \<le> f \<Longrightarrow> f + int (k - n) + 1 < AutoPauseThreshold
     \<Longrightarrow> unused_from env n d \<Longrightarrow> distinct (map sb_id (wh_subs d))
     \<Longrightarrow> received s ev (snd (deliver_message c hmac env msg n d))"
proof (induction "k - n" arbitrary: n f d)
  case (0 n f d)
  then have n: "n = k" by simp
  obtain r d' where h: "webhookDeliveryHandler c hmac (env n) msg (Some n) d = (r, d')" by fastforce
  have "\<not> we_faults (env n) (sb_id s) ''insert webhook_deliveries''" using assms(3) 0 by simp
  then have "received s ev d'"
    using handler_progress(1) [OF _ _ _ _ _ _ _ assms(2) _ _ h, of ev s f] 0 assms(1,4-6) n by auto
  then show ?case using received_deliver_message [OF assms(2)]
    by (auto simp: deliver_message_unfold [of c hmac env n msg d r d', OF h])
next
  case (Suc m n f d)
  obtain r d' where h: "webhookDeliveryHandler c hmac (env n) msg (Some n) d = (r, d')" by fastforce
  have less: "n < MaxAttempts" "f + 1 < AutoPauseThreshold" using Suc.hyps(2) assms(4) Suc.prems(5) by simp_all
  have m: "m = k - Suc n" "Suc n \<le> k" using Suc.hyps(2) by simp_all
  show ?case
  proof (cases "can_list (env n)")
    case True
    have "\<not> we_faults (env n) (sb_id s) ''insert webhook_deliveries''" using assms(3) Suc.prems(1,2) by simp
    note step = handler_progress [OF assms(1) [rule_format] True Suc.prems(1) Suc.prems(3,4) less(2) Suc.prems(7) assms(2)
        Suc.prems(6) this h]
    have next': "received s ev (snd (deliver_message c hmac env msg (Suc n) d'))"
      using Suc.hyps(1) [OF m(1) _ m(2) step(2) _ _ step(3,4)] Suc.prems(4,5) m by simp
    show ?thesis
      using step(1) less(1) next' received_deliver_message [OF assms(2)]
      by (auto simp: deliver_message_unfold [of c hmac env n msg d r d', OF h])
  next
    case False
    note refused = handler_cannot_list [OF assms(1) [rule_format] False h]
    have "received s ev (snd (deliver_message c hmac env msg (Suc n) d))"
      using Suc.hyps(1) [OF m(1) _ m(2) Suc.prems(3,4) _ unused_from_later [OF Suc.prems(6)] Suc.prems(7)] Suc.prems(5) m by simp
    then show ?thesis using refused less(1)
      by (auto simp: deliver_message_unfold [of c hmac env n msg d r d', OF h])
  qed
qed

text \<open>Every message is settled.  It is refused for good only if the subscribers could not be listed at
  the last attempt.\<close>

lemma handler_last:
  assumes "webhookDeliveryHandler c hmac env msg (Some n) d = (MsgNakWithDelay w, d')" "MaxAttempts \<le> n"
  shows "we_list_faults env ''select active webhook_subscriptions''"
  using assms
  by (auto simp: webhookDeliveryHandler_def Consume_def attempt_number_def ListActiveForEvent_def Let_def max_def
      split: option.splits prod.splits if_splits job_result.splits)

lemma deliver_message_settles:
  assumes "n \<le> MaxAttempts" "deliver_message c hmac env msg n d = ((m, r), d')"
  shows "n \<le> m \<and> m \<le> MaxAttempts
    \<and> ((\<exists>w. r = MsgNakWithDelay w) \<longrightarrow> m = MaxAttempts \<and> we_list_faults (env m) ''select active webhook_subscriptions'')"
  using assms
proof (induction "MaxAttempts - n" arbitrary: n d)
  case (0 n d)
  obtain r1 d1 where h: "webhookDeliveryHandler c hmac (env n) msg (Some n) d = (r1, d1)" by fastforce
  have "(m, r, d') = (n, r1, d1)"
    using 0 deliver_message_unfold [of c hmac env n msg d r1 d1, OF h] by auto
  then show ?case using 0 h handler_last by auto
next
  case (Suc k n d)
  obtain r1 d1 where h: "webhookDeliveryHandler c hmac (env n) msg (Some n) d = (r1, d1)" by fastforce
  have k: "k = MaxAttempts - Suc n" "Suc n \<le> MaxAttempts" using Suc.hyps(2) by simp_all
  show ?case
  proof (cases "\<exists>w. r1 = MsgNakWithDelay w")
    case True
    then have "deliver_message c hmac env msg (Suc n) d1 = ((m, r), d')"
      using Suc.prems k deliver_message_unfold [of c hmac env n msg d r1 d1, OF h] by simp
    from Suc.hyps(1) [OF k this] show ?thesis by auto
  next
    case False
    then show ?thesis using Suc.prems deliver_message_unfold [of c hmac env n msg d r1 d1, OF h] by auto
  qed
qed

section \<open>A failing endpoint\<close>

text \<open>Attempts recorded one after the other, each with its outcome and times.\<close>

definition record_attempts :: "uuid \<Rightarrow> uuid \<Rightarrow> (time \<times> delivery_outcome \<times> time) list \<Rightarrow> webhook_db \<Rightarrow> webhook_db" where
  "record_attempts ws i os d = fold (\<lambda>(now, outcome, at) d. snd (UpdateAttempt no_faults now ws i outcome at d)) os d"

lemma record_attempts_subs:
  "wh_subs (record_attempts ws i os d) =
     update_rows (sub_key ws i) (fold (\<lambda>(now, outcome, at). attempt_update now outcome at) os) (wh_subs d)"
proof (induction os arbitrary: d)
  case Nil
  show ?case by (simp add: record_attempts_def update_rows_def)
next
  case (Cons a os)
  obtain now outcome at where a: "a = (now, outcome, at)" by (cases a)
  have key: "sub_key ws i (attempt_update now outcome at s) = sub_key ws i s" for s by (simp add: sub_key_def)
  show ?case
    using Cons [of "snd (UpdateAttempt no_faults now ws i outcome at d)"]
    by (simp add: a record_attempts_def UpdateAttempt_def update_sub_subs update_rows_def key comp_def cong: if_cong)
qed

lemma failures_count:
  assumes "\<forall>(now, outcome, at) \<in> set os. outcome \<noteq> OutcomeSuccess" "0 \<le> sb_failures s"
  shows "sb_failures (fold (\<lambda>(now, outcome, at). attempt_update now outcome at) os s) = sb_failures s + int (length os)"
    and "sb_active (fold (\<lambda>(now, outcome, at). attempt_update now outcome at) os s) \<longleftrightarrow>
      sb_active s \<and> (os = [] \<or> sb_failures s + int (length os) < AutoPauseThreshold)"
  using assms
proof (induction os arbitrary: s)
  case (Cons a os)
  obtain now outcome at where a: "a = (now, outcome, at)" by (cases a)
  let ?s = "attempt_update now outcome at s"
  {
    case (1 s)
    then show ?case using Cons(1) [of "attempt_update now outcome at s"] by (simp add: a attempt_update_def Let_def)
  next
    case (2 s)
    then show ?case using Cons(2) [of "attempt_update now outcome at s"] by (auto simp: a attempt_update_def Let_def)
  }
qed simp_all

lemma fold_attempts_fields:
  "sb_id (fold (\<lambda>(now, outcome, at). attempt_update now outcome at) os s) = sb_id s"
  "sb_ws (fold (\<lambda>(now, outcome, at). attempt_update now outcome at) os s) = sb_ws s"
  "sb_event (fold (\<lambda>(now, outcome, at). attempt_update now outcome at) os s) = sb_event s"
  by (induction os arbitrary: s) (auto split: prod.splits)

end
