(* ===== verification/Webhook_Api.thy ===== *)
theory Webhook_Api
  imports Webhook_Worker
begin

text \<open>
  The requests of workspace admins (\<^verbatim>\<open>api/webhooks/handler.go\<close>).  A handler returns the response,
  the audit entry it logs if any, and the new tables.  Texts of times are a parameter, and so are the
  decoding of the request's body (the handlers get the decoded request), the text of an identifier and the Unicode tables.
  The audit service is configured, as it is in \<^verbatim>\<open>cmd/server\<close>.
\<close>

section \<open>Requests, responses and views\<close>

record request_context =
  rc_role :: "string option"
  rc_workspace :: "uuid option"
  rc_userID :: "uuid option"

text \<open>Values absent from the context read as the zero value.\<close>

definition ctx_workspace :: "request_context \<Rightarrow> uuid" where
  "ctx_workspace r = (case rc_workspace r of None \<Rightarrow> uuid_Nil | Some w \<Rightarrow> w)"

definition ctx_user :: "request_context \<Rightarrow> uuid" where
  "ctx_user r = (case rc_userID r of None \<Rightarrow> uuid_Nil | Some u \<Rightarrow> u)"

definition RoleAdmin :: string where "RoleAdmin = ''admin''"

record subscription_view =
  sv_id :: uuid
  sv_ws :: uuid
  sv_url :: string
  sv_event :: string
  sv_description :: string
  sv_secret :: string
  sv_active :: bool
  sv_failures :: int
  sv_succeeded :: "string option"
  sv_attempted :: "string option"
  sv_auto_paused :: "string option"
  sv_created :: string
  sv_updated :: string

record delivery_view =
  dw_id :: uuid
  dw_event :: uuid
  dw_type :: string
  dw_attempt :: nat
  dw_outcome :: delivery_outcome
  dw_status :: nat
  dw_response :: string
  dw_error :: string
  dw_duration_ms :: int
  dw_at :: string
  dw_next_retry :: "string option"

definition toView :: "(time \<Rightarrow> string) \<Rightarrow> subscription \<Rightarrow> bool \<Rightarrow> subscription_view" where
  "toView fmt s includeSecret =
     \<lparr>sv_id = sb_id s, sv_ws = sb_ws s, sv_url = sb_url s, sv_event = sb_event s, sv_description = sb_description s,
      sv_secret = (if includeSecret then sb_secret s else []), sv_active = sb_active s, sv_failures = sb_failures s,
      sv_succeeded = map_option fmt (sb_succeeded s), sv_attempted = map_option fmt (sb_attempted s),
      sv_auto_paused = map_option fmt (sb_auto_paused s), sv_created = fmt (sb_created s), sv_updated = fmt (sb_updated s)\<rparr>"

definition toDeliveryView :: "(time \<Rightarrow> string) \<Rightarrow> delivery \<Rightarrow> delivery_view" where
  "toDeliveryView fmt x =
     \<lparr>dw_id = dv_id x, dw_event = dv_event x, dw_type = dv_type x, dw_attempt = dv_attempt x, dw_outcome = dv_outcome x,
      dw_status = dv_status x, dw_response = dv_response x, dw_error = dv_error x, dw_duration_ms = dv_duration_ms x,
      dw_at = fmt (dv_at x), dw_next_retry = map_option fmt (dv_next_retry x)\<rparr>"

datatype api_body =
    NoContent
  | ApiError string
  | SubscriptionBody subscription_view
  | SubscriptionsBody "subscription_view list"
  | DeliveryBody delivery_view
  | DeliveriesBody "delivery_view list"

record api_result =
  ar_status :: nat
  ar_body :: api_body
  ar_audit :: "(string \<times> uuid) option"

definition api_reply :: "nat \<Rightarrow> api_body \<Rightarrow> api_result" where
  "api_reply status body = \<lparr>ar_status = status, ar_body = body, ar_audit = None\<rparr>"

definition RespondError :: "nat \<Rightarrow> string \<Rightarrow> api_result" where
  "RespondError status msg = api_reply status (ApiError msg)"

definition writeServerError :: api_result where
  "writeServerError = RespondError 500 ''internal server error''"

definition audited :: "string \<Rightarrow> uuid \<Rightarrow> api_result \<Rightarrow> api_result" where
  "audited action i r = r\<lparr>ar_audit := Some (action, i)\<rparr>"

record api_env =
  ae_fmt :: "time \<Rightarrow> string"
  ae_unicode :: "string \<Rightarrow> string"
  ae_net :: net_env
  ae_random :: "string option"
  ae_new_id :: uuid
  ae_now :: time
  ae_ParseUUID :: "string \<Rightarrow> uuid option"
  ae_dispatch :: dispatch_env

section \<open>Handlers\<close>

text \<open>\<^const>\<open>None\<close>: the caller is an admin.\<close>

definition requireAdmin :: "request_context \<Rightarrow> api_result option" where
  "requireAdmin r =
     (case rc_role r of
        None \<Rightarrow> Some (RespondError 401 ''authentication required'')
      | Some role \<Rightarrow> if role \<noteq> RoleAdmin then Some (RespondError 403 ''admin role required'') else None)"

record create_request =
  cr_url :: string
  cr_event :: string
  cr_description :: string

definition api_Create ::
  "url_validator \<Rightarrow> api_env \<Rightarrow> faults \<Rightarrow> request_context \<Rightarrow> create_request option \<Rightarrow> webhook_db \<Rightarrow> api_result \<times> webhook_db" where
  "api_Create v env flt r body d =
     (case requireAdmin r of
        Some e \<Rightarrow> (e, d)
      | None \<Rightarrow>
     (case rc_workspace r of
        None \<Rightarrow> (RespondError 400 ''workspace context missing'', d)
      | Some ws \<Rightarrow>
     (case body of
        None \<Rightarrow> (RespondError 400 ''invalid json body'', d)
      | Some req \<Rightarrow>
          let u = TrimSpace (cr_url req);
              t = NormaliseEventType (ae_unicode env) (cr_event req);
              desc = TrimSpace (cr_description req)
          in if u = [] then (RespondError 400 ''url is required'', d)
             else if \<not> IsValidEventType t then (RespondError 400 ''unknown event_type'', d)
             else (case Validate v (ae_net env) u of
                Inl (ErrURLBlocked _) \<Rightarrow> (RespondError 400 ''URL resolves to a restricted address'', d)
              | Inl (ErrURLInvalid e) \<Rightarrow> (RespondError 400 (''url invalid: '' @ e), d)
              | Inr _ \<Rightarrow>
                  let sub = \<lparr>sb_id = uuid_Nil, sb_ws = ws, sb_created_by = ctx_user r, sb_url = u, sb_event = t,
                             sb_description = desc, sb_secret = [], sb_active = False, sb_failures = 0, sb_succeeded = None,
                             sb_attempted = None, sb_auto_paused = None, sb_created = 0, sb_updated = 0\<rparr>
                  in (case sub_Create flt (ae_random env) (ae_new_id env) (ae_now env) sub d of
                        (Inl ErrSubscriptionCapReached, d) \<Rightarrow> (RespondError 409 ''subscription cap reached for this workspace'', d)
                      | (Inl _, d) \<Rightarrow> (writeServerError, d)
                      | (Inr sub, d) \<Rightarrow>
                          (audited ''webhooks.subscription_create'' (sb_id sub)
                             (api_reply 201 (SubscriptionBody (toView (ae_fmt env) sub True))), d))))))"

definition api_List :: "api_env \<Rightarrow> faults \<Rightarrow> request_context \<Rightarrow> webhook_db \<Rightarrow> api_result" where
  "api_List env flt r d =
     (case requireAdmin r of
        Some e \<Rightarrow> e
      | None \<Rightarrow> (case sub_List flt d (ctx_workspace r) of
            Inl _ \<Rightarrow> writeServerError
          | Inr subs \<Rightarrow> api_reply 200 (SubscriptionsBody (map (\<lambda>s. toView (ae_fmt env) s False) subs))))"

text \<open>The other handlers share the check of the role and the parsing of the identifier, and answer
  for a missing subscription in the same way.\<close>

definition with_id :: "api_env \<Rightarrow> request_context \<Rightarrow> string \<Rightarrow> (uuid \<Rightarrow> api_result \<times> webhook_db) \<Rightarrow> webhook_db \<Rightarrow> api_result \<times> webhook_db" where
  "with_id env r i k d =
     (case requireAdmin r of
        Some e \<Rightarrow> (e, d)
      | None \<Rightarrow> (case ae_ParseUUID env i of None \<Rightarrow> (RespondError 400 ''invalid id'', d) | Some i \<Rightarrow> k i))"

definition error_reply :: "webhook_error \<Rightarrow> api_result" where
  "error_reply e = (if e = ErrSubscriptionNotFound then RespondError 404 ''subscription not found'' else writeServerError)"

definition api_Get :: "api_env \<Rightarrow> faults \<Rightarrow> request_context \<Rightarrow> string \<Rightarrow> webhook_db \<Rightarrow> api_result \<times> webhook_db" where
  "api_Get env flt r i d = with_id env r i (\<lambda>i.
     (case sub_GetByID flt d (ctx_workspace r) i of
        Inl e \<Rightarrow> (error_reply e, d)
      | Inr sub \<Rightarrow> (api_reply 200 (SubscriptionBody (toView (ae_fmt env) sub False)), d))) d"

definition api_Delete :: "api_env \<Rightarrow> faults \<Rightarrow> request_context \<Rightarrow> string \<Rightarrow> webhook_db \<Rightarrow> api_result \<times> webhook_db" where
  "api_Delete env flt r i d = with_id env r i (\<lambda>i.
     (case sub_Delete flt (ctx_workspace r) i d of
        (Some e, d) \<Rightarrow> (error_reply e, d)
      | (None, d) \<Rightarrow> (audited ''webhooks.subscription_delete'' i (api_reply 204 NoContent), d))) d"

text \<open>\<^verbatim>\<open>strconv.Atoi\<close> of the parameter; what is not a number from 1 to 500 is ignored.\<close>

definition delivery_limit :: "string \<Rightarrow> int" where
  "delivery_limit raw =
     (let raw = TrimSpace raw
      in if raw = [] then 100
         else case ParseInt10 raw of None \<Rightarrow> 100 | Some n \<Rightarrow> if 0 < n \<and> n \<le> 500 then n else 100)"

definition api_ListDeliveries :: "api_env \<Rightarrow> faults \<Rightarrow> request_context \<Rightarrow> string \<Rightarrow> string \<Rightarrow> webhook_db \<Rightarrow> api_result \<times> webhook_db" where
  "api_ListDeliveries env flt r i limit d = with_id env r i (\<lambda>i.
     (case sub_GetByID flt d (ctx_workspace r) i of
        Inl e \<Rightarrow> (error_reply e, d)
      | Inr _ \<Rightarrow>
          (case ListDeliveries flt d (ctx_workspace r) i (delivery_limit limit) of
             Inl _ \<Rightarrow> (writeServerError, d)
           | Inr xs \<Rightarrow> (api_reply 200 (DeliveriesBody (map (toDeliveryView (ae_fmt env)) xs)), d)))) d"

definition api_Test ::
  "delivery_client option \<Rightarrow> mac \<Rightarrow> api_env \<Rightarrow> faults \<Rightarrow> request_context \<Rightarrow> string \<Rightarrow> webhook_db \<Rightarrow> api_result \<times> webhook_db" where
  "api_Test tester hmac env flt r i d =
     (case requireAdmin r of
        Some e \<Rightarrow> (e, d)
      | None \<Rightarrow> (case tester of
          None \<Rightarrow> (RespondError 503 ''webhook test dispatcher not configured'', d)
        | Some c \<Rightarrow> with_id env r i (\<lambda>i.
            (case sub_GetByID flt d (ctx_workspace r) i of
               Inl e \<Rightarrow> (error_reply e, d)
             | Inr sub \<Rightarrow>
                 (case Dispatch c hmac (ae_dispatch env) flt (Some sub) d of
                    ((None, _), d) \<Rightarrow> (writeServerError, d)
                  | ((Some row, _), d) \<Rightarrow>
                      (audited ''webhooks.subscription_test'' (sb_id sub)
                         (api_reply (if dv_outcome row = OutcomeSuccess then 200 else 502) (DeliveryBody (toDeliveryView (ae_fmt env) row))), d)))) d))"

definition api_Resume :: "api_env \<Rightarrow> faults \<Rightarrow> request_context \<Rightarrow> string \<Rightarrow> webhook_db \<Rightarrow> api_result \<times> webhook_db" where
  "api_Resume env flt r i d = with_id env r i (\<lambda>i.
     (case SetActive flt (ae_now env) (ctx_workspace r) i True d of
        (Some e, d) \<Rightarrow> (error_reply e, d)
      | (None, d) \<Rightarrow> (audited ''webhooks.subscription_resume'' i (api_reply 204 NoContent), d))) d"

end
