(* ===== verification/Webhook_Properties.thy ===== *)
theory Webhook_Properties
  imports Webhook_Progress Webhook_Api "HOL-Library.Countable"
begin

text \<open>
  What webhooks promise: the state of subscriptions and history, progress of an event to its
  subscribers, the addresses requests go to, signatures, and the requests of admins.
\<close>

section \<open>A small world\<close>

text \<open>One event, one subscription, an endpoint that is down or up.\<close>

definition sample_event :: event where
  "sample_event = \<lparr>ev_id = 7, ev_type = EventFileDeleted, ev_ws = 1, ev_created = 0, ev_actor = None, ev_data = ''{}''\<rparr>"

definition sample_sub :: "uuid \<Rightarrow> subscription" where
  "sample_sub i = \<lparr>sb_id = i, sb_ws = 1, sb_created_by = 1, sb_url = ''https://a'', sb_event = EventFileDeleted, sb_description = [],
     sb_secret = replicate 64 CHR ''0'', sb_active = True, sb_failures = 0, sb_succeeded = None, sb_attempted = None,
     sb_auto_paused = None, sb_created = 0, sb_updated = 0\<rparr>"

definition sample_db :: webhook_db where
  "sample_db = \<lparr>wh_subs = [sample_sub 1], wh_deliveries = []\<rparr>"

definition no_webhooks :: webhook_db where
  "no_webhooks = \<lparr>wh_subs = [], wh_deliveries = []\<rparr>"

definition sample_url :: url where
  "sample_url = \<lparr>u_Scheme = ''https'', u_Host = ''a'', u_User = None, u_String = ''https://a''\<rparr>"

definition resolves_to :: "ip \<Rightarrow> net_env" where
  "resolves_to a = \<lparr>ne_ParseURL = (\<lambda>_. Some sample_url), ne_ParseIP = (\<lambda>_. None), ne_LookupIPAddr = (\<lambda>_. Some [Some a])\<rparr>"

definition sample_exchange :: "ip \<Rightarrow> ip \<Rightarrow> http_result \<Rightarrow> exchange" where
  "sample_exchange checked dialled answer =
     \<lparr>ex_validate = resolves_to checked, ex_connect = resolves_to dialled, ex_build_error = None,
      ex_connected = hd, ex_answer = (\<lambda>_ _. answer), ex_elapsed = 0\<rparr>"

definition sample_env :: "nat \<Rightarrow> nat \<Rightarrow> worker_env" where
  "sample_env up n =
     \<lparr>we_unmarshal = (\<lambda>_. Some sample_event), we_marshal = (\<lambda>_. Some ''{}''), we_ParseURL = (\<lambda>_. Some sample_url),
      we_list_faults = no_faults,
      we_exchange = (\<lambda>_. sample_exchange [8, 8, 8, 8] [8, 8, 8, 8]
        (if n = up then HttpResponse 200 [] None else NetFailure ''refused'')),
      we_started = (\<lambda>_. 0), we_over = (\<lambda>_. 0), we_faults = (\<lambda>_. no_faults), we_ids = (\<lambda>i. Suc (to_nat (n, i))), we_fresh = (\<lambda>_. 0)\<rparr>"

definition sample_client :: delivery_client where
  "sample_client = NewDeliveryClient None"

lemma sample_public: "check_addresses NewURLValidator (resolves_to [8, 8, 8, 8]) host = None"
proof -
  have "blockedReason NewURLValidator (Some [8, 8, 8, 8]) = None" by code_simp
  then show ?thesis by (simp add: check_addresses_def lookup_def resolves_to_def)
qed

lemma sample_hostname [simp]: "Hostname sample_url = ''a''"
  by (simp add: Hostname_def sample_url_def)

section \<open>The state\<close>

lemma webhook_inv_reach: "webhook_step\<^sup>*\<^sup>* d d' \<Longrightarrow> webhook_inv d \<Longrightarrow> webhook_inv d'"
  by (induction rule: rtranclp_induct) (auto intro: webhook_inv_step)

lemma webhook_inv_Dispatch: "webhook_inv d \<Longrightarrow> std_client c \<Longrightarrow> webhook_inv (snd (Dispatch c hmac env flt target d))"
  using Dispatch_db [of c hmac env flt target d] webhook_inv_insert_delivery by metis

lemma webhook_inv_Create: "webhook_inv d \<Longrightarrow> webhook_inv (snd (sub_Create flt random new now s d))"
  by (simp add: sub_Create_def webhook_inv_insert_sub split: sum.split)

lemma std_NewDeliveryClient: "std_client (NewDeliveryClient v)"
  by (simp add: std_client_def NewDeliveryClient_def)

text \<open>C28 (invariant).  In every state that the statements of workers and admins reach from empty tables, in any
  interleaving: identifiers are keys, an active subscription has fewer than fifty consecutive failures
  and is not marked as paused, a delivery belongs to a subscription, is a success exactly if the status
  is 2xx, stores at most 4108 bytes of the response and schedules nothing after a success.  Processing a
  message with all its redeliveries, a test delivery, and a creation keep this.\<close>

theorem webhook_state_invariant:
  assumes "webhook_step\<^sup>*\<^sup>* no_webhooks d" "std_client c"
  shows "webhook_inv d \<and> webhook_inv (snd (deliver_message c hmac env msg n d))
    \<and> webhook_inv (snd (Dispatch c hmac denv flt target d)) \<and> webhook_inv (snd (sub_Create flt random new now s d))"
proof -
  have "webhook_inv no_webhooks" by (simp add: no_webhooks_def webhook_inv_def)
  with assms(1) have "webhook_inv d" by (rule webhook_inv_reach)
  with assms(2) show ?thesis
    using webhook_inv_reach [OF deliver_message_steps] webhook_inv_Dispatch webhook_inv_Create by blast
qed

theorem webhook_state_invariant_witness:
  "webhook_inv (snd (deliver_message sample_client (\<lambda>_ _. []) (sample_env 3) ''{}'' 1
     (snd (insert_sub no_faults 0 0 (sample_sub 1) no_webhooks))))"
  using webhook_state_invariant [of "snd (insert_sub no_faults 0 0 (sample_sub 1) no_webhooks)" sample_client]
    create_sub [of no_webhooks no_faults 0 0 "sample_sub 1"]
  by (simp add: sample_client_def std_NewDeliveryClient r_into_rtranclp)

section \<open>Progress\<close>

text \<open>C29 (liveness).  A subscription in good standing receives the event if, at one of the first five deliveries of
  the message, its endpoint is up and the database lists the subscribers, however the other subscribers
  fare and whatever failed before, listings included: the retries go on until then, and the history ends
  up with a successful delivery.  Up to that delivery the database does not fail to insert a delivery of
  the subscription, and between the deliveries nobody else changes the tables; identifiers of attempts are new.\<close>

theorem recovered_endpoint_receives_event:
  assumes "\<forall>n. carries (env n) msg ev" "fresh_ids env" "unused_from env 1 d"
    "\<forall>n. 1 \<le> n \<and> n \<le> k \<longrightarrow> \<not> we_faults (env n) (sb_id s) ''insert webhook_deliveries''"
    "distinct (map sb_id (wh_subs d))" "s \<in> set (wh_subs d)" "sb_active s" "sb_ws s = ev_ws ev" "sb_event s = ev_type ev"
    "0 \<le> sb_failures s" "sb_failures s + int k < AutoPauseThreshold"
    "1 \<le> k" "k \<le> MaxAttempts" "can_list (env k)" "endpoint_up c (env k) s"
  shows "received s ev (snd (deliver_message c hmac env msg 1 d))"
proof (rule deliver_message_progress [OF assms(1,2,4,13,14,15)])
  show "subscribed s ev (sb_failures s) d" using assms(6-9) by (auto simp: subscribed_def)
  show "sb_failures s + int (k - 1) + 1 < AutoPauseThreshold" using assms(11,12) by simp
qed (use assms in auto)

lemma sample_carries: "carries (sample_env up n) ''{}'' sample_event"
  by (simp add: carries_def sample_env_def sample_event_def uuid_Nil_def EventFileDeleted_def)

lemma sample_fresh: "fresh_ids (sample_env up)"
  by (auto simp: fresh_ids_def nonnil_ids_def sample_env_def uuid_Nil_def intro!: injI)

lemma sample_up: "endpoint_up sample_client (sample_env 3 3) (sample_sub 1)"
proof -
  have "contacted sample_client (sample_exchange [8, 8, 8, 8] [8, 8, 8, 8] a) sample_url = Some [8, 8, 8, 8]" for a
    by (simp add: contacted_def ValidateResolved_def sample_client_def NewDeliveryClient_def sample_exchange_def sample_public)
      (simp add: resolves_to_def lookup_def)
  then show ?thesis
    by (simp add: endpoint_up_def sample_env_def SecretMinLength_def sample_sub_def) (simp add: sample_exchange_def)
qed

theorem recovered_endpoint_receives_event_witness:
  "received (sample_sub 1) sample_event (snd (deliver_message sample_client (\<lambda>_ _. []) (sample_env 3) ''{}'' 1 sample_db))"
proof (rule recovered_endpoint_receives_event [where k = 3])
  show "\<forall>n. carries (sample_env 3 n) ''{}'' sample_event" by (simp add: sample_carries)
  show "fresh_ids (sample_env 3)" by (rule sample_fresh)
  show "endpoint_up sample_client (sample_env 3 3) (sample_sub 1)" by (rule sample_up)
qed (simp_all add: sample_db_def sample_sub_def unused_from_def sample_env_def sample_event_def AutoPauseThreshold_def MaxAttempts_def can_list_def)

text \<open>A message is delivered at most five times; it is then acknowledged or terminated, or, if
  the subscribers could not be listed at the fifth delivery, refused without another one.\<close>

theorem message_is_settled:
  assumes "deliver_message c hmac env msg 1 d = ((n, r), d')"
  shows "1 \<le> n \<and> n \<le> 5 \<and> (r = MsgAck \<or> r = MsgTerm
    \<or> n = 5 \<and> we_list_faults (env n) ''select active webhook_subscriptions'')"
  using deliver_message_settles [OF _ assms] by (cases r) (auto simp: MaxAttempts_def)

theorem message_is_settled_witness:
  "\<exists>n r d'. deliver_message sample_client (\<lambda>_ _. []) (sample_env 3) ''{}'' 1 sample_db = ((n, r), d') \<and> 1 \<le> n \<and> n \<le> 5"
proof -
  obtain n r d' where m: "deliver_message sample_client (\<lambda>_ _. []) (sample_env 3) ''{}'' 1 sample_db = ((n, r), d')"
    by (metis surj_pair)
  with message_is_settled [OF m] show ?thesis by blast
qed

text \<open>C30 (functional).  Fifty failures in a row pause a subscription: after the last of them it is not listed for any
  event, and until then it was; other subscriptions are as before.\<close>

theorem failing_endpoint_is_paused:
  assumes "webhook_inv d" "s \<in> set (wh_subs d)" "sb_active s" "sb_failures s = 0" "os \<noteq> []"
    "\<forall>(now, outcome, at) \<in> set os. outcome \<noteq> OutcomeSuccess"
  shows "(\<exists>r. ListActiveForEvent no_faults (record_attempts (sb_ws s) (sb_id s) os d) (sb_ws s) (sb_event s) = Inr r
      \<and> (sb_id s \<in> sb_id ` set r \<longleftrightarrow> length os < 50)
      \<and> (\<forall>s' \<in> set (wh_subs d). sb_id s' \<noteq> sb_id s \<longrightarrow> s' \<in> set (wh_subs (record_attempts (sb_ws s) (sb_id s) os d))))"
proof -
  let ?F = "fold (\<lambda>(now, outcome, at). attempt_update now outcome at) os" and ?d = "record_attempts (sb_ws s) (sb_id s) os d"
  let ?r = "filter (\<lambda>x. sb_ws x = sb_ws s \<and> sb_event x = sb_event s \<and> sb_active x) (wh_subs ?d)"
  have rows: "set (wh_subs ?d) = (\<lambda>x. if sub_key (sb_ws s) (sb_id s) x then ?F x else x) ` set (wh_subs d)"
    by (simp add: record_attempts_subs set_update_rows)
  have uniq: "x = s" if "x \<in> set (wh_subs d)" "sb_id x = sb_id s" for x
    using assms(1,2) that by (auto simp: webhook_inv_def intro: distinct_map_inj)
  have mine: "?F s \<in> set (wh_subs ?d)" using assms(2) by (auto simp: rows sub_key_def)
  have only_mine: "y = ?F s" if "y \<in> set (wh_subs ?d)" "sb_id y = sb_id s" for y
    using that uniq by (auto simp: rows sub_key_def fold_attempts_fields split: if_splits)
  have "sb_id s \<in> sb_id ` set ?r \<longleftrightarrow> sb_active (?F s)"
  proof (intro iffI)
    assume "sb_id s \<in> sb_id ` set ?r"
    then obtain y where "y \<in> set (wh_subs ?d)" "sb_active y" "sb_id y = sb_id s" by auto
    then show "sb_active (?F s)" using only_mine by auto
  next
    assume "sb_active (?F s)"
    then have "?F s \<in> set ?r" using mine by (simp add: fold_attempts_fields)
    then have "sb_id (?F s) \<in> sb_id ` set ?r" by (rule imageI)
    then show "sb_id s \<in> sb_id ` set ?r" by (simp only: fold_attempts_fields)
  qed
  also have "\<dots> \<longleftrightarrow> length os < 50"
    using failures_count(2) [OF assms(6), of s] assms(3-5) by (simp add: AutoPauseThreshold_def)
  finally have "sb_id s \<in> sb_id ` set ?r \<longleftrightarrow> length os < 50" .
  moreover have "\<forall>s' \<in> set (wh_subs d). sb_id s' \<noteq> sb_id s \<longrightarrow> s' \<in> set (wh_subs ?d)"
    unfolding rows by (force simp: sub_key_def)
  ultimately show ?thesis by (simp add: ListActiveForEvent_def)
qed

lemma sample_inv: "webhook_inv sample_db"
  by (simp add: webhook_inv_def sample_db_def sample_sub_def sub_ok_def AutoPauseThreshold_def sub_checks_def char_length_def EventFileDeleted_def)

theorem failing_endpoint_is_paused_witness:
  "\<exists>r. ListActiveForEvent no_faults (record_attempts 1 1 (replicate 50 (0, OutcomeNetError, 0)) sample_db) 1 EventFileDeleted = Inr r
     \<and> 1 \<notin> sb_id ` set r"
proof -
  have s: "sample_sub 1 \<in> set (wh_subs sample_db)" "sb_active (sample_sub 1)" "sb_failures (sample_sub 1) = 0"
    "sb_ws (sample_sub 1) = 1" "sb_id (sample_sub 1) = 1" "sb_event (sample_sub 1) = EventFileDeleted"
    by (simp_all add: sample_db_def sample_sub_def)
  show ?thesis
    using failing_endpoint_is_paused [OF sample_inv s(1-3), of "replicate 50 (0, OutcomeNetError, 0)"]
    by (auto simp: s simp del: One_nat_def)
qed

section \<open>Addresses\<close>

text \<open>C31 (equivalence).  The chain of tests that decides whether an address is blocked is membership in a table of
  address blocks, as numbers: the blocks the documentation lists, the two it does not, and the loopback
  blocks unless they are allowed.  An IPv4 address mapped into IPv6 counts as the IPv4 address.\<close>

theorem blocked_addresses_are_table:
  assumes "length a = 4 \<or> length a = 16"
  shows "blockedReason v (Some a) \<noteq> None \<longleftrightarrow>
    \<not> AllowLoopback v \<and> (\<exists>n \<in> set loopback_blocks. in_block n (unmap a)) \<or> (\<exists>n \<in> set blocked_blocks. in_block n (unmap a))"
  using assms by (rule blocked_table)

theorem blocked_addresses_are_table_witness:
  "(\<exists>n \<in> set blocked_blocks. in_block n (unmap (v4_mapped_prefix @ [169, 254, 169, 254])))"
proof -
  have "blockedReason \<lparr>AllowHTTP = True, AllowLoopback = True\<rparr> (Some (v4_mapped_prefix @ [169, 254, 169, 254])) \<noteq> None" by code_simp
  moreover have "length (v4_mapped_prefix @ [169, 254, 169, 254]) = 16" by code_simp
  ultimately show ?thesis
    using blocked_addresses_are_table [of "v4_mapped_prefix @ [169, 254, 169, 254]" "\<lparr>AllowHTTP = True, AllowLoopback = True\<rparr>"]
    by (simp del: not_None_eq)
qed

lemma check_addresses_ok:
  assumes "check_addresses v env host = None" "lookup env host = Some addrs" "a \<in> set addrs"
  shows "blockedReason v a = None"
proof -
  have "find (\<lambda>a. blockedReason v a \<noteq> None) addrs = None"
    using assms by (cases addrs) (auto simp: check_addresses_def simp del: find.simps not_None_eq split: option.splits)
  with assms(3) show ?thesis by (auto dest: find_NoneD)
qed

lemma contacted_addr: "contacted c ex u = Some a \<Longrightarrow>
    \<exists>addrs. lookup (ex_connect ex) (Hostname u) = Some addrs \<and> Some a \<in> set addrs \<and> ValidateResolved (dc_validator c) (ex_validate ex) u = None"
  by (auto simp: contacted_def split: if_splits option.splits)

text \<open>C32 (safety).  If the name of the host resolves to the same addresses while it is validated and while the
  client connects, no request goes to a blocked address: to none of the blocked blocks, and to no
  loopback address unless the validator of the client allows them.\<close>

theorem stable_names_reach_no_blocked_address:
  assumes "contacted c ex u = Some a" "lookup (ex_connect ex) (Hostname u) = lookup (ex_validate ex) (Hostname u)"
    "length a = 4 \<or> length a = 16"
  shows "(\<forall>n \<in> set blocked_blocks. \<not> in_block n (unmap a))
    \<and> (AllowLoopback (dc_validator c) \<or> (\<forall>n \<in> set loopback_blocks. \<not> in_block n (unmap a)))"
proof -
  obtain addrs where "lookup (ex_connect ex) (Hostname u) = Some addrs" "Some a \<in> set addrs"
    "ValidateResolved (dc_validator c) (ex_validate ex) u = None" using contacted_addr [OF assms(1)] by blast
  then have "blockedReason (dc_validator c) (Some a) = None"
    using assms(2) by (auto simp: ValidateResolved_def split: if_splits intro: check_addresses_ok)
  then show ?thesis using blocked_table [OF assms(3)] by blast
qed

theorem stable_names_reach_no_blocked_address_witness:
  "list_all (\<lambda>n. \<not> in_block n (unmap [8, 8, 8, 8])) (loopback_blocks @ blocked_blocks)"
proof -
  have "contacted sample_client (sample_exchange [8, 8, 8, 8] [8, 8, 8, 8] (NetFailure [])) sample_url = Some [8, 8, 8, 8]"
    by (simp add: contacted_def ValidateResolved_def sample_client_def NewDeliveryClient_def sample_exchange_def sample_public)
      (simp add: resolves_to_def lookup_def)
  moreover have "lookup (ex_connect (sample_exchange [8, 8, 8, 8] [8, 8, 8, 8] (NetFailure []))) (Hostname sample_url)
      = lookup (ex_validate (sample_exchange [8, 8, 8, 8] [8, 8, 8, 8] (NetFailure []))) (Hostname sample_url)"
    by (simp add: sample_exchange_def)
  moreover have "\<not> AllowLoopback (dc_validator sample_client)" by (simp add: sample_client_def NewDeliveryClient_def NewURLValidator_def)
  ultimately show ?thesis
    using stable_names_reach_no_blocked_address
      [of sample_client "sample_exchange [8, 8, 8, 8] [8, 8, 8, 8] (NetFailure [])" sample_url "[8, 8, 8, 8]"]
    by (simp add: list_all_iff ball_Un)
qed

text \<open>The resolution that is validated is not the one the client connects with: a name that answers
  with a public address first and with the metadata service next receives the signed request there,
  and the delivery counts as a success.\<close>

theorem rebinding_reaches_metadata_service:
  "contacted sample_client (sample_exchange [8, 8, 8, 8] [169, 254, 169, 254] (HttpResponse 200 [] None)) sample_url
     = Some [169, 254, 169, 254]
   \<and> at_outcome (Deliver sample_client hmac (sample_exchange [8, 8, 8, 8] [169, 254, 169, 254] (HttpResponse 200 [] None))
       sample_url 7 8 EventFileDeleted body s ts) = OutcomeSuccess
   \<and> blockedReason (dc_validator sample_client) (Some [169, 254, 169, 254]) \<noteq> None"
proof (intro conjI)
  show "blockedReason (dc_validator sample_client) (Some [169, 254, 169, 254]) \<noteq> None" by code_simp
qed (simp_all add: contacted_def Deliver_def http_Do_def ValidateResolved_def sample_client_def NewDeliveryClient_def
    sample_exchange_def sample_public Let_def read_response_def DefaultMaxResponseBodyBytes_def,
    simp_all add: resolves_to_def lookup_def read_response_def)

text \<open>A name that does not resolve counts as blocked, not as a network error.\<close>

lemma unresolved_name_is_blocked:
  assumes "Hostname u \<noteq> []" "lookup (ex_validate ex) (Hostname u) = None"
  shows "at_outcome (Deliver c hmac ex u e i t body s ts) = OutcomeBlocked"
  using assms by (simp add: Deliver_def ValidateResolved_def check_addresses_def Let_def)

section \<open>Signatures\<close>

text \<open>C33 (roundtrip).  A header made by \<^verbatim>\<open>Sign\<close> is accepted by \<^verbatim>\<open>Verify\<close> exactly if the clocks are at most five
  minutes apart (or at the one distance whose absolute value 64 bits cannot hold) and the MAC of the
  received body, with the time stamp, is that of the signed one; the signed bytes determine both.\<close>

theorem signature_roundtrip:
  assumes "int64_range (unix_seconds ts)" "0 \<le> unix_seconds now" "unix_seconds now < 2 ^ 62"
  shows "(Verify hmac s body' (Sign hmac s body ts) now = None \<longleftrightarrow>
      (\<bar>unix_seconds now - unix_seconds ts\<bar> \<le> 300 \<or> unix_seconds ts = unix_seconds now - 2 ^ 63)
      \<and> hmac (sg_secret s) (signed_bytes (unix_seconds ts) body) = hmac (sg_secret s) (signed_bytes (unix_seconds ts) body'))
    \<and> (signed_bytes t body = signed_bytes t' body' \<longleftrightarrow> t = t' \<and> body = body')"
proof -
  have "Sign hmac s body ts \<noteq> []" by (simp add: Sign_def Let_def)
  then show ?thesis
    using window_iff [OF assms(2,3,1)] signed_bytes_inj
    by (auto simp: Verify_def header_parts_Sign [OF assms(1)] hex_roundtrip)
qed

theorem signature_roundtrip_witness:
  "Verify (\<lambda>k m. m) \<lparr>sg_secret = ''k''\<rparr> ''{}'' (Sign (\<lambda>k m. m) \<lparr>sg_secret = ''k''\<rparr> ''{}'' 1000000000) 301000000000 = None
   \<and> Verify (\<lambda>k m. m) \<lparr>sg_secret = ''k''\<rparr> ''[]'' (Sign (\<lambda>k m. m) \<lparr>sg_secret = ''k''\<rparr> ''{}'' 1000000000) 301000000000 \<noteq> None"
  using signature_roundtrip [of 1000000000 301000000000 "\<lambda>k m. m" "\<lparr>sg_secret = ''k''\<rparr>" "''{}''" "''{}''"]
    signature_roundtrip [of 1000000000 301000000000 "\<lambda>k m. m" "\<lparr>sg_secret = ''k''\<rparr>" "''[]''" "''{}''"]
  by (simp add: unix_seconds_def int64_range_def signed_bytes_def)

text \<open>Whatever header is presented, it is accepted only if it carries the MAC of the body with the time
  stamp it names, within the window.\<close>

theorem accepted_header_is_authentic:
  assumes "Verify hmac s body header now = None" "0 \<le> unix_seconds now" "unix_seconds now < 2 ^ 62"
  shows "\<exists>ts sig. header_parts (Split CHR '','' header) None None = Some (Some ts, Some sig)
    \<and> hex_DecodeString sig = Some (hmac (sg_secret s) (signed_bytes ts body))
    \<and> (\<bar>unix_seconds now - ts\<bar> \<le> 300 \<or> ts = unix_seconds now - 2 ^ 63)"
proof -
  from assms(1) obtain ts sig where h: "header_parts (Split CHR '','' header) None None = Some (Some ts, Some sig)"
    "hex_DecodeString sig = Some (hmac (sg_secret s) (signed_bytes ts body))"
    "abs64 (wrap64 (unix_seconds now - ts)) \<le> timestampToleranceWindow"
    by (auto simp: Verify_def split: if_splits option.splits)
  moreover have "int64_range ts" using header_parts_range [OF h(1)] by simp
  ultimately show ?thesis using window_iff [OF assms(2,3)] by blast
qed

theorem accepted_header_is_authentic_witness:
  "\<exists>ts sig. header_parts (Split CHR '','' ''t=1,v1=312e7b7d'') None None = Some (Some ts, Some sig)
    \<and> hex_DecodeString sig = Some (signed_bytes ts ''{}'') \<and> (\<bar>5 - ts\<bar> \<le> 300 \<or> ts = 5 - 2 ^ 63)"
proof -
  have "Verify (\<lambda>k m. m) \<lparr>sg_secret = ''k''\<rparr> ''{}'' ''t=1,v1=312e7b7d'' 5000000000 = None" by code_simp
  from accepted_header_is_authentic [OF this] show ?thesis by (simp add: unix_seconds_def)
qed

section \<open>The limit of active subscriptions\<close>

definition paused :: "subscription \<Rightarrow> subscription" where
  "paused s = s\<lparr>sb_active := False, sb_failures := 50, sb_auto_paused := Some 0\<rparr>"

definition crowded :: "nat \<Rightarrow> webhook_db" where
  "crowded n = \<lparr>wh_subs = map sample_sub [1..<n] @ [paused (sample_sub n)], wh_deliveries = []\<rparr>"

text \<open>C34 (bounds).  A creation by itself respects the limit of twenty active subscriptions.  Two things exceed it: to
  resume a paused subscription, and two creations of which the second counts before the first inserts.\<close>

theorem creation_alone_respects_cap:
  "(fst (sub_Create flt random new now s d) = Inr r \<longrightarrow> cap_check (snd (sub_Create flt random new now s d)) (sb_ws r) \<le> 20)
   \<and> cap_check (crowded 21) 1 = 20 \<and> cap_check (snd (SetActive no_faults 0 1 21 True (crowded 21))) 1 = 21
   \<and> cap_check (crowded 20) 1 = 19
   \<and> cap_check (snd (insert_sub no_faults 19 0 (sample_sub 31) (snd (insert_sub no_faults 19 0 (sample_sub 30) (crowded 20))))) 1 = 21"
proof (intro conjI impI)
  assume r: "fst (sub_Create flt random new now s d) = Inr r"
  then obtain s' where s: "prepare_sub random new s = Inr s'" by (auto simp: sub_Create_def split: sum.splits)
  from r s have "insert_sub flt (cap_check d (sb_ws s')) now s' d = (Inr r, d\<lparr>wh_subs := wh_subs d @ [r]\<rparr>)"
    "cap_check d (sb_ws s') < 20" "sb_ws r = sb_ws s'"
    by (auto simp: sub_Create_def insert_sub_def Let_def MaxSubscriptionsPerWorkspace_def split: if_splits)
  with s show "cap_check (snd (sub_Create flt random new now s d)) (sb_ws r) \<le> 20"
    by (simp add: sub_Create_def) (simp add: cap_check_def)
next
  show "cap_check (crowded 21) 1 = 20" by code_simp
  show "cap_check (snd (SetActive no_faults 0 1 21 True (crowded 21))) 1 = 21" by code_simp
  show "cap_check (crowded 20) 1 = 19" by code_simp
  show "cap_check (snd (insert_sub no_faults 19 0 (sample_sub 31) (snd (insert_sub no_faults 19 0 (sample_sub 30) (crowded 20))))) 1 = 21"
    by code_simp
qed

theorem creation_alone_respects_cap_witness:
  "cap_check (snd (sub_Create no_faults None 30 0 (sample_sub 30) (crowded 20))) 1 \<le> 20"
proof -
  have "fst (sub_Create no_faults None 30 0 (sample_sub 30) (crowded 20)) = Inr (sample_sub 30)" by code_simp
  moreover have "sb_ws (sample_sub 30) = 1" by (simp add: sample_sub_def)
  ultimately show ?thesis
    using creation_alone_respects_cap [of no_faults None 30 0 "sample_sub 30" "crowded 20" "sample_sub 30"] by simp
qed

section \<open>Requests of admins\<close>

definition secrets_in :: "api_body \<Rightarrow> string list" where
  "secrets_in b = (case b of
      SubscriptionBody v \<Rightarrow> [sv_secret v] | SubscriptionsBody vs \<Rightarrow> map sv_secret vs | _ \<Rightarrow> [])"

lemma no_secrets [simp]:
  "secrets_in (ar_body (RespondError st msg)) = []" "secrets_in (ar_body writeServerError) = []"
  "secrets_in (ar_body (error_reply e)) = []" "ar_body (audited action i res) = ar_body res"
  "secrets_in NoContent = []" "secrets_in (DeliveryBody x) = []" "secrets_in (DeliveriesBody xs) = []"
  "ar_body (api_reply st b) = b" "sv_secret (toView fmt s False) = []"
  by (simp_all add: RespondError_def api_reply_def secrets_in_def writeServerError_def error_reply_def audited_def toView_def)

lemma requireAdmin_silent: "requireAdmin r = Some e \<Longrightarrow> secrets_in (ar_body e) = []"
  by (auto simp: requireAdmin_def split: option.splits if_splits)

lemma api_handlers_silent:
  "x \<in> set (secrets_in (ar_body (api_List env flt r d))) \<Longrightarrow> x = []"
  "x \<in> set (secrets_in (ar_body (fst (api_Get env flt r i d)))) \<Longrightarrow> x = []"
  "secrets_in (ar_body (fst (api_Delete env flt r i d))) = []"
  "secrets_in (ar_body (fst (api_ListDeliveries env flt r i limit d))) = []"
  "secrets_in (ar_body (fst (api_Test tester hmac env flt r i d))) = []"
  "secrets_in (ar_body (fst (api_Resume env flt r i d))) = []"
  by (auto simp: api_List_def api_Get_def api_Delete_def api_ListDeliveries_def api_Test_def api_Resume_def with_id_def
      requireAdmin_silent secrets_in_def [of "SubscriptionBody v" for v] secrets_in_def [of "SubscriptionsBody vs" for vs]
      split: option.splits sum.splits prod.splits)

lemma Dispatch_subs: "wh_subs (snd (Dispatch c hmac env flt target d)) = wh_subs d"
  using Dispatch_db [of c hmac env flt target d] by auto

text \<open>C35 (safety).  Without the role of an admin every request is refused and changes nothing; for admins, no request
  but a creation returns a secret, and a test delivery changes no subscription.\<close>

theorem webhook_api_guards:
  "(rc_role r \<noteq> Some RoleAdmin \<longrightarrow>
      (\<forall>res \<in> {api_Create v env flt r req d, (api_List env flt r d, d), api_Get env flt r i d, api_Delete env flt r i d,
               api_ListDeliveries env flt r i limit d, api_Test tester hmac env flt r i d, api_Resume env flt r i d}.
         snd res = d \<and> (ar_status (fst res) = 401 \<or> ar_status (fst res) = 403) \<and> secrets_in (ar_body (fst res)) = []))
   \<and> (\<forall>res \<in> {(api_List env flt r d, d), api_Get env flt r i d, api_Delete env flt r i d,
               api_ListDeliveries env flt r i limit d, api_Test tester hmac env flt r i d, api_Resume env flt r i d}.
         \<forall>x \<in> set (secrets_in (ar_body (fst res))). x = [])
   \<and> wh_subs (snd (api_Test tester hmac env flt r i d)) = wh_subs d"
proof (intro conjI impI)
  assume "rc_role r \<noteq> Some RoleAdmin"
  then obtain e where "requireAdmin r = Some e" "ar_status e = 401 \<or> ar_status e = 403" "secrets_in (ar_body e) = []"
    by (cases "rc_role r") (auto simp: requireAdmin_def RespondError_def api_reply_def secrets_in_def)
  then show "\<forall>res \<in> {api_Create v env flt r req d, (api_List env flt r d, d), api_Get env flt r i d, api_Delete env flt r i d,
               api_ListDeliveries env flt r i limit d, api_Test tester hmac env flt r i d, api_Resume env flt r i d}.
         snd res = d \<and> (ar_status (fst res) = 401 \<or> ar_status (fst res) = 403) \<and> secrets_in (ar_body (fst res)) = []"
    by (simp add: api_Create_def api_List_def api_Get_def api_Delete_def api_ListDeliveries_def api_Test_def api_Resume_def with_id_def)
next
  show "\<forall>res \<in> {(api_List env flt r d, d), api_Get env flt r i d, api_Delete env flt r i d,
               api_ListDeliveries env flt r i limit d, api_Test tester hmac env flt r i d, api_Resume env flt r i d}.
         \<forall>x \<in> set (secrets_in (ar_body (fst res))). x = []"
    by (simp add: api_handlers_silent)
  show "wh_subs (snd (api_Test tester hmac env flt r i d)) = wh_subs d"
    using Dispatch_subs by (auto simp: api_Test_def with_id_def split: option.splits sum.splits prod.splits) (metis snd_conv)+
qed

theorem webhook_api_guards_witness:
  "\<forall>env i. snd (api_Resume env no_faults \<lparr>rc_role = Some ''member'', rc_workspace = Some 1, rc_userID = Some 2\<rparr> i (crowded 21)) = crowded 21"
  using webhook_api_guards [of "\<lparr>rc_role = Some ''member'', rc_workspace = Some 1, rc_userID = Some 2\<rparr>"]
  by (simp add: RoleAdmin_def)

end
