(* ===== verification/Changefeed.thy ===== *)
theory Changefeed
  imports Sql Decimal
begin

text \<open>
  The change feed (\<^verbatim>\<open>internal/changefeed\<close>: changefeed, repository, service): the log of mutations sync
  clients replay by a cursor, with the cache invalidations and the live events that follow a
  recorded mutation.
\<close>

section \<open>Mutations\<close>

definition KindFile :: string where "KindFile = ''file''"
definition KindFolder :: string where "KindFolder = ''folder''"
definition KindPermission :: string where "KindPermission = ''permission''"
definition KindDocument :: string where "KindDocument = ''document''"

definition OpCreate :: string where "OpCreate = ''create''"
definition OpUpdate :: string where "OpUpdate = ''update''"
definition OpRename :: string where "OpRename = ''rename''"
definition OpMove :: string where "OpMove = ''move''"
definition OpDelete :: string where "OpDelete = ''delete''"

definition MaxLimit :: int where "MaxLimit = 500"
definition DefaultLimit :: int where "DefaultLimit = 100"

lemmas kind_op_defs = KindFile_def KindFolder_def KindPermission_def KindDocument_def
  OpCreate_def OpUpdate_def OpRename_def OpMove_def OpDelete_def

text \<open>Metadata are the bytes of a JSON text; none if empty.  The column keeps the JSON value; that its text may be
  laid out differently when it is read back is not modelled.\<close>

record mutation =
  mu_seq :: int
  mu_ws :: uuid
  mu_actor :: "uuid option"
  mu_kind :: string
  mu_op :: string
  mu_resource :: uuid
  mu_parent :: "uuid option"
  mu_name :: string
  mu_metadata :: string
  mu_at :: time

record page =
  pg_mutations :: "mutation list"
  pg_cursor :: int
  pg_has_more :: bool

datatype feed_error = FeedErr string

section \<open>The repository\<close>

text \<open>
  A statement takes its numbers from the sequence of the table when it runs; its rows are visible to
  others when it commits.  The rows of the statements under way are \<open>cl_open\<close>, in the order in which the
  statements started.  Numbers taken by a statement that fails are lost.
\<close>

record change_db =
  cl_rows :: "mutation list"
  cl_open :: "mutation list list"
  cl_next :: int

definition change_checks :: "mutation \<Rightarrow> bool" where
  "change_checks m =
     (mu_kind m \<in> set [KindFile, KindFolder, KindPermission, KindDocument]
      \<and> mu_op m \<in> set [OpCreate, OpUpdate, OpRename, OpMove, OpDelete])"

text \<open>A statement draws the numbers of its rows at once.  (In Postgres two statements that run at the same
  time may draw in turns; here one draws before the other, and the order of their commits is open.)\<close>

primrec number_rows :: "int \<Rightarrow> time \<Rightarrow> mutation list \<Rightarrow> mutation list" where
  "number_rows n now [] = []"
| "number_rows n now (m # ms) = m\<lparr>mu_seq := n, mu_at := now\<rparr> # number_rows (n + 1) now ms"

definition begin_insert :: "time \<Rightarrow> mutation list \<Rightarrow> change_db \<Rightarrow> mutation list \<times> change_db" where
  "begin_insert now ms d =
     (let rows = number_rows (cl_next d) now ms
      in (rows, d\<lparr>cl_open := cl_open d @ [rows], cl_next := cl_next d + int (length ms)\<rparr>))"

definition end_insert :: "bool \<Rightarrow> mutation list \<Rightarrow> change_db \<Rightarrow> change_db" where
  "end_insert commit rows d =
     d\<lparr>cl_open := remove1 rows (cl_open d), cl_rows := (if commit then cl_rows d @ rows else cl_rows d)\<rparr>"

text \<open>A statement outside a transaction commits by itself.  A failure that the caller sees either comes
  before that, or loses the reply to a statement that has committed.\<close>

definition insert_changes :: "faults \<Rightarrow> string \<Rightarrow> time \<Rightarrow> mutation list \<Rightarrow> change_db \<Rightarrow> (feed_error + mutation list) \<times> change_db" where
  "insert_changes flt label now ms d =
     (let (rows, d) = begin_insert now ms d
      in if flt label \<or> \<not> list_all change_checks ms then (Inl (FeedErr label), end_insert False rows d)
         else if flt (label @ '' reply'') then (Inl (FeedErr label), end_insert True rows d)
         else (Inr rows, end_insert True rows d))"

definition repo_Record :: "faults \<Rightarrow> time \<Rightarrow> mutation option \<Rightarrow> change_db \<Rightarrow> (feed_error + mutation) \<times> change_db" where
  "repo_Record flt now m d =
     (case m of
        None \<Rightarrow> (Inl (FeedErr ''nil mutation''), d)
      | Some m \<Rightarrow> (case insert_changes flt ''insert change_log'' now [m] d of
            (Inl e, d) \<Rightarrow> (Inl e, d)
          | (Inr rows, d) \<Rightarrow> (Inr (hd rows), d)))"

definition repo_BatchRecord :: "faults \<Rightarrow> time \<Rightarrow> mutation list \<Rightarrow> change_db \<Rightarrow> (feed_error + mutation list) \<times> change_db" where
  "repo_BatchRecord flt now ms d =
     (if ms = [] then (Inr [], d) else insert_changes flt ''batch insert change_log'' now ms d)"

definition feed_rows :: "change_db \<Rightarrow> uuid \<Rightarrow> mutation list" where
  "feed_rows d ws = sort_key mu_seq (filter (\<lambda>m. mu_ws m = ws) (cl_rows d))"

definition repo_Since :: "faults \<Rightarrow> change_db \<Rightarrow> uuid \<Rightarrow> int \<Rightarrow> int \<Rightarrow> feed_error + mutation list \<times> bool" where
  "repo_Since flt d ws cursor limit =
     (if flt ''query change_log'' then Inl (FeedErr ''query change_log'')
      else let out = take (nat (limit + 1)) (filter (\<lambda>m. cursor < mu_seq m) (feed_rows d ws));
               hasMore = (limit < int (length out))
           in Inr (if hasMore then take (nat limit) out else out, hasMore))"

definition repo_Latest :: "faults \<Rightarrow> change_db \<Rightarrow> uuid \<Rightarrow> feed_error + int" where
  "repo_Latest flt d ws =
     (if flt ''max(change_log.sequence)'' then Inl (FeedErr ''max(change_log.sequence)'')
      else Inr (fold max (map mu_seq (feed_rows d ws)) 0))"

section \<open>The service\<close>

text \<open>What follows a recorded mutation: invalidations of the permission cache and of the content
  caches, and a live event, whose delivery may fail.\<close>

datatype feed_effect =
    BustPermissions uuid
  | BustContent uuid
  | PublishChange uuid mutation

record feed_service =
  fs_cache_buster :: bool
  fs_content_buster :: bool
  fs_publisher :: bool

definition shouldBustForMutation :: "string \<Rightarrow> string \<Rightarrow> bool" where
  "shouldBustForMutation kind op =
     (if kind = KindPermission then True
      else if kind = KindFolder then op = OpMove \<or> op = OpDelete
      else if kind = KindFile then op = OpMove
      else False)"

record record_input =
  ri_ws :: uuid
  ri_actor :: "uuid option"
  ri_kind :: string
  ri_op :: string
  ri_resource :: uuid
  ri_parent :: "uuid option"
  ri_name :: string
  ri_metadata :: "(string \<times> string) list"

definition feed_validate :: "record_input \<Rightarrow> feed_error option" where
  "feed_validate i =
     (if ri_kind i \<notin> set [KindFile, KindFolder, KindPermission, KindDocument] then Some (FeedErr ''invalid kind'')
      else if ri_op i \<notin> set [OpCreate, OpUpdate, OpRename, OpMove, OpDelete] then Some (FeedErr ''invalid op'')
      else if ri_ws i = uuid_Nil then Some (FeedErr ''workspace_id is required'')
      else if ri_resource i = uuid_Nil then Some (FeedErr ''resource_id is required'')
      else None)"

text \<open>\<^verbatim>\<open>json.Marshal\<close> of the metadata is a parameter.\<close>

definition to_mutation :: "((string \<times> string) list \<Rightarrow> string option) \<Rightarrow> record_input \<Rightarrow> feed_error + mutation" where
  "to_mutation marshal i =
     (case feed_validate i of
        Some e \<Rightarrow> Inl e
      | None \<Rightarrow>
          (case (if ri_metadata i = [] then Some [] else marshal (ri_metadata i)) of
             None \<Rightarrow> Inl (FeedErr ''marshal metadata'')
           | Some raw \<Rightarrow> Inr \<lparr>mu_seq = 0, mu_ws = ri_ws i, mu_actor = ri_actor i, mu_kind = ri_kind i, mu_op = ri_op i,
                 mu_resource = ri_resource i, mu_parent = ri_parent i, mu_name = ri_name i, mu_metadata = raw, mu_at = 0\<rparr>))"

definition feed_Record ::
  "feed_service \<Rightarrow> ((string \<times> string) list \<Rightarrow> string option) \<Rightarrow> faults \<Rightarrow> time \<Rightarrow> record_input \<Rightarrow> change_db
     \<Rightarrow> (feed_error + mutation) \<times> feed_effect list \<times> change_db" where
  "feed_Record svc marshal flt now i d =
     (case to_mutation marshal i of
        Inl e \<Rightarrow> (Inl e, [], d)
      | Inr m \<Rightarrow>
          (case repo_Record flt now (Some m) d of
             (Inl e, d) \<Rightarrow> (Inl e, [], d)
           | (Inr m, d) \<Rightarrow>
               (Inr m,
                (if fs_cache_buster svc \<and> shouldBustForMutation (ri_kind i) (ri_op i) then [BustPermissions (ri_ws i)] else [])
                @ (if fs_content_buster svc then [BustContent (ri_ws i)] else [])
                @ (if fs_publisher svc then [PublishChange (ri_ws i) m] else []), d)))"

primrec to_mutations :: "((string \<times> string) list \<Rightarrow> string option) \<Rightarrow> record_input list \<Rightarrow> feed_error + mutation list" where
  "to_mutations marshal [] = Inr []"
| "to_mutations marshal (i # is) =
     (case to_mutation marshal i of
        Inl e \<Rightarrow> Inl e
      | Inr m \<Rightarrow> (case to_mutations marshal is of Inl e \<Rightarrow> Inl e | Inr ms \<Rightarrow> Inr (m # ms)))"

text \<open>The loops that call each workspace once, in the order of first occurrence.\<close>

primrec first_occurrences :: "uuid list \<Rightarrow> uuid list \<Rightarrow> uuid list" where
  "first_occurrences seen [] = []"
| "first_occurrences seen (w # ws) =
     (if w \<in> set seen then first_occurrences seen ws else w # first_occurrences (w # seen) ws)"

definition feed_BatchRecord ::
  "feed_service \<Rightarrow> ((string \<times> string) list \<Rightarrow> string option) \<Rightarrow> faults \<Rightarrow> time \<Rightarrow> record_input list \<Rightarrow> change_db
     \<Rightarrow> (feed_error + mutation list) \<times> feed_effect list \<times> change_db" where
  "feed_BatchRecord svc marshal flt now is d =
     (if is = [] then (Inr [], [], d)
      else case to_mutations marshal is of
        Inl e \<Rightarrow> (Inl e, [], d)
      | Inr ms \<Rightarrow>
          (case repo_BatchRecord flt now ms d of
             (Inl e, d) \<Rightarrow> (Inl e, [], d)
           | (Inr ms, d) \<Rightarrow>
               (Inr ms,
                (if fs_cache_buster svc
                 then map BustPermissions (first_occurrences [] (map mu_ws (filter (\<lambda>m. shouldBustForMutation (mu_kind m) (mu_op m)) ms)))
                 else [])
                @ (if fs_content_buster svc then map BustContent (first_occurrences [] (map mu_ws ms)) else [])
                @ (if fs_publisher svc then map (\<lambda>m. PublishChange (mu_ws m) m) ms else []), d)))"

definition clamp_limit :: "int \<Rightarrow> int" where
  "clamp_limit limit =
     (let limit = (if limit \<le> 0 then DefaultLimit else limit) in if MaxLimit < limit then MaxLimit else limit)"

definition feed_Since :: "faults \<Rightarrow> change_db \<Rightarrow> uuid \<Rightarrow> int \<Rightarrow> int \<Rightarrow> feed_error + page" where
  "feed_Since flt d ws cursor limit =
     (if ws = uuid_Nil then Inl (FeedErr ''workspace_id is required'')
      else let cursor = (if cursor < 0 then 0 else cursor)
           in case repo_Since flt d ws cursor (clamp_limit limit) of
                Inl e \<Rightarrow> Inl e
              | Inr (ms, hasMore) \<Rightarrow>
                  Inr \<lparr>pg_mutations = ms, pg_cursor = (if ms = [] then cursor else mu_seq (last ms)), pg_has_more = hasMore\<rparr>)"

definition feed_Latest :: "faults \<Rightarrow> change_db \<Rightarrow> uuid \<Rightarrow> feed_error + int" where
  "feed_Latest flt d ws = (if ws = uuid_Nil then Inl (FeedErr ''workspace_id is required'') else repo_Latest flt d ws)"

section \<open>The endpoints\<close>

text \<open>The requests of \<^verbatim>\<open>api/drive/changes.go\<close>.  A query parameter that is absent is the empty string; an
  int has 64 bits.\<close>

definition parseInt64Query :: "string \<Rightarrow> int \<Rightarrow> int option" where
  "parseInt64Query param def =
     (let raw = TrimSpace param
      in if raw = [] then Some def
         else case ParseInt10 raw of None \<Rightarrow> None | Some v \<Rightarrow> Some (if v < 0 then def else v))"

definition parseIntQuery :: "string \<Rightarrow> int \<Rightarrow> int option" where
  "parseIntQuery param def =
     (let raw = TrimSpace param
      in if raw = [] then Some def
         else case ParseInt10 raw of None \<Rightarrow> None | Some v \<Rightarrow> Some (if v < 0 then def else v))"

datatype changes_body =
    ChangesResponse page
  | CursorResponse int
  | ChangesError string

definition ListChanges ::
  "bool \<Rightarrow> faults \<Rightarrow> change_db \<Rightarrow> uuid option \<Rightarrow> string \<Rightarrow> string \<Rightarrow> nat \<times> changes_body" where
  "ListChanges configured flt d ctx since limit =
     (if \<not> configured then (501, ChangesError ''change feed not configured'')
      else case ctx of
        None \<Rightarrow> (401, ChangesError ''unauthenticated'')
      | Some ws \<Rightarrow>
          (case parseInt64Query since 0 of
             None \<Rightarrow> (400, ChangesError ''invalid since cursor'')
           | Some c \<Rightarrow>
               (case parseIntQuery limit DefaultLimit of
                  None \<Rightarrow> (400, ChangesError ''invalid limit'')
                | Some l \<Rightarrow>
                    (case feed_Since flt d ws c l of
                       Inl _ \<Rightarrow> (500, ChangesError ''internal error'')
                     | Inr p \<Rightarrow> (200, ChangesResponse p)))))"

definition LatestChange :: "bool \<Rightarrow> faults \<Rightarrow> change_db \<Rightarrow> uuid option \<Rightarrow> nat \<times> changes_body" where
  "LatestChange configured flt d ctx =
     (if \<not> configured then (501, ChangesError ''change feed not configured'')
      else case ctx of
        None \<Rightarrow> (401, ChangesError ''unauthenticated'')
      | Some ws \<Rightarrow>
          (case feed_Latest flt d ws of
             Inl _ \<Rightarrow> (500, ChangesError ''internal error'')
           | Inr c \<Rightarrow> (200, CursorResponse c)))"

section \<open>Live events\<close>

text \<open>
  The channel of a workspace and what one turn of the loop in \<^verbatim>\<open>Subscribe\<close> does with a message: the call of
  the hub of the replica, if there is one.  The text of an identifier and its parser are parameters, and
  so is the encoding of an event.
\<close>

definition channelFor :: "(uuid \<Rightarrow> string) \<Rightarrow> uuid \<Rightarrow> string" where
  "channelFor str ws = ''ws-workspace:'' @ str ws"

definition parseChannel :: "(string \<Rightarrow> uuid option) \<Rightarrow> string \<Rightarrow> feed_error + uuid" where
  "parseChannel parse channel =
     (let pre = ''ws-workspace:''
      in if take (length pre) channel \<noteq> pre then Inl (FeedErr ''unexpected channel prefix'')
         else case parse (drop (length pre) channel) of
                None \<Rightarrow> Inl (FeedErr ''workspace id'')
              | Some ws \<Rightarrow> Inr ws)"

record ws_event =
  we_type :: string
  we_payload :: mutation

definition change_event :: "mutation \<Rightarrow> ws_event" where
  "change_event m = \<lparr>we_type = ''change'', we_payload = m\<rparr>"

text \<open>\<^verbatim>\<open>LocalPublisher.Publish\<close>: the call of the hub.\<close>

definition local_Publish :: "bool \<Rightarrow> (ws_event \<Rightarrow> string option) \<Rightarrow> uuid \<Rightarrow> ws_event \<Rightarrow> feed_error + (uuid \<times> string) option" where
  "local_Publish hub marshal ws e =
     (if \<not> hub then Inr None
      else case marshal e of
        None \<Rightarrow> Inl (FeedErr ''marshal change event'')
      | Some payload \<Rightarrow> Inr (Some (ws, payload)))"

text \<open>\<^verbatim>\<open>RedisPublisher.Publish\<close>: the message on the channel.\<close>

definition redis_Publish ::
  "bool \<Rightarrow> faults \<Rightarrow> (uuid \<Rightarrow> string) \<Rightarrow> (ws_event \<Rightarrow> string option) \<Rightarrow> uuid \<Rightarrow> ws_event \<Rightarrow> feed_error + (string \<times> string) option" where
  "redis_Publish client flt str marshal ws e =
     (if \<not> client then Inr None
      else case marshal e of
        None \<Rightarrow> Inl (FeedErr ''marshal change event'')
      | Some payload \<Rightarrow>
          if flt ''redis publish change'' then Inl (FeedErr ''redis publish change'')
          else Inr (Some (channelFor str ws, payload)))"

definition subscribe_turn :: "(string \<Rightarrow> uuid option) \<Rightarrow> string \<times> string \<Rightarrow> (uuid \<times> string) option" where
  "subscribe_turn parse msg =
     (case parseChannel parse (fst msg) of Inl _ \<Rightarrow> None | Inr ws \<Rightarrow> Some (ws, snd msg))"

section \<open>Clients\<close>

text \<open>A client asks for pages from its cursor until one says that there is no more, as the
  documentation of \<^verbatim>\<open>Page\<close> tells it to.  Not ending is the value \<^const>\<open>None\<close>.\<close>

partial_function (option) catch_up :: "(int \<Rightarrow> page) \<Rightarrow> int \<Rightarrow> (mutation list \<times> int) option" where
  "catch_up fetch cursor =
     (let p = fetch cursor
      in if pg_has_more p
         then do { (rest, c) \<leftarrow> catch_up fetch (pg_cursor p); Some (pg_mutations p @ rest, c) }
         else Some (pg_mutations p, pg_cursor p))"

text \<open>What a client relies on: the pages are cut from a log that is sorted by number, behind the
  cursor, and they say whether something was cut off.\<close>

locale cursor_log =
  fixes log :: "mutation list" and fetch :: "int \<Rightarrow> page" and n :: nat
  assumes log_sorted: "sorted (map mu_seq log)"
    and page_size: "0 < n"
    and fetch_mutations: "0 \<le> c \<Longrightarrow> pg_mutations (fetch c) = take n (filter (\<lambda>m. c < mu_seq m) log)"
    and fetch_has_more: "0 \<le> c \<Longrightarrow> pg_has_more (fetch c) \<longleftrightarrow> n < length (filter (\<lambda>m. c < mu_seq m) log)"
    and fetch_cursor: "0 \<le> c \<Longrightarrow> pg_cursor (fetch c) = (if pg_mutations (fetch c) = [] then c else mu_seq (last (pg_mutations (fetch c))))"
begin

abbreviation rest_of :: "int \<Rightarrow> mutation list" where
  "rest_of c \<equiv> filter (\<lambda>m. c < mu_seq m) log"

lemma rest_after_page:
  assumes "distinct (map mu_seq log)" "n < length (rest_of c)"
  shows "rest_of (mu_seq (last (take n (rest_of c)))) = drop n (rest_of c)"
    and "c < mu_seq (last (take n (rest_of c)))"
proof -
  let ?xs = "rest_of c" and ?l = "last (take n (rest_of c))"
  have l: "?l \<in> set (take n ?xs)" using assms(2) page_size by (intro last_in_set) auto
  then show less: "c < mu_seq ?l" by (metis (mono_tags, lifting) in_set_takeD mem_Collect_eq set_filter)
  have srt: "sorted (map mu_seq ?xs)" "distinct (map mu_seq ?xs)"
    using log_sorted assms(1) by (simp_all add: sorted_filter distinct_map_filter)
  have parts: "sorted (map mu_seq (take n ?xs @ drop n ?xs))" "distinct (map mu_seq (take n ?xs @ drop n ?xs))"
    using srt by simp_all
  have "sorted (map mu_seq (take n ?xs))" using parts(1) unfolding map_append sorted_append by blast
  then have "\<forall>x \<in> set (take n ?xs). mu_seq x \<le> mu_seq ?l" by (auto intro: sorted_le_last)
  moreover have "\<forall>x \<in> set (drop n ?xs). mu_seq ?l < mu_seq x"
  proof
    fix x assume x: "x \<in> set (drop n ?xs)"
    have "mu_seq ?l \<le> mu_seq x" using parts(1) l x unfolding map_append sorted_append by auto
    moreover have "mu_seq ?l \<noteq> mu_seq x"
      using parts(2) l x unfolding map_append distinct_append by (metis IntI emptyE image_eqI set_map)
    ultimately show "mu_seq ?l < mu_seq x" by simp
  qed
  ultimately have "filter (\<lambda>m. mu_seq ?l < mu_seq m) (take n ?xs @ drop n ?xs) = drop n ?xs"
    unfolding filter_append by (simp add: filter_empty_conv filter_id_conv not_less)
  moreover have "rest_of (mu_seq ?l) = filter (\<lambda>m. mu_seq ?l < mu_seq m) ?xs"
    using less by (auto simp: intro: filter_cong)
  ultimately show "rest_of (mu_seq ?l) = drop n ?xs" by simp
qed

lemma catch_up_all:
  assumes "distinct (map mu_seq log)" "0 \<le> c"
  shows "catch_up fetch c = Some (rest_of c, if rest_of c = [] then c else mu_seq (last (rest_of c)))"
  using assms(2)
proof (induction "length (rest_of c)" arbitrary: c rule: less_induct)
  case (less c)
  show ?case
  proof (cases "n < length (rest_of c)")
    case True
    let ?c = "mu_seq (last (take n (rest_of c)))"
    note after = rest_after_page [OF assms(1) True]
    have ne: "take n (rest_of c) \<noteq> []" "drop n (rest_of c) \<noteq> []" using True page_size by auto
    have "catch_up fetch ?c = Some (drop n (rest_of c), mu_seq (last (drop n (rest_of c))))"
      using less(1) [of ?c] after ne less.prems True page_size by simp
    moreover have "pg_cursor (fetch c) = ?c" using fetch_cursor fetch_mutations less.prems ne by simp
    ultimately show ?thesis
      using True fetch_has_more fetch_mutations less.prems ne by (subst catch_up.simps) (auto simp: last_drop)
  next
    case False
    then show ?thesis
      using fetch_has_more fetch_mutations fetch_cursor page_size less.prems by (subst catch_up.simps) simp
  qed
qed

end

text \<open>The service keeps these laws, for every state of the log, every workspace and every limit.\<close>

definition feed_page :: "change_db \<Rightarrow> uuid \<Rightarrow> int \<Rightarrow> int \<Rightarrow> page" where
  "feed_page d ws limit c =
     (case feed_Since no_faults d ws c limit of
        Inr p \<Rightarrow> p
      | Inl _ \<Rightarrow> \<lparr>pg_mutations = [], pg_cursor = c, pg_has_more = False\<rparr>)"

definition feed_log :: "change_db \<Rightarrow> uuid \<Rightarrow> mutation list" where
  "feed_log d ws = (if ws = uuid_Nil then [] else feed_rows d ws)"

lemma clamp_limit_pos: "1 \<le> clamp_limit l \<and> clamp_limit l \<le> 500"
  by (simp add: clamp_limit_def DefaultLimit_def MaxLimit_def Let_def)

lemma feed_page_eq:
  assumes "0 \<le> c"
  shows "feed_page d ws limit c =
    (let xs = filter (\<lambda>m. c < mu_seq m) (feed_log d ws); k = nat (clamp_limit limit)
     in \<lparr>pg_mutations = take k xs, pg_cursor = (if take k xs = [] then c else mu_seq (last (take k xs))),
         pg_has_more = (k < length xs)\<rparr>)"
proof -
  have "nat (clamp_limit limit + 1) = Suc (nat (clamp_limit limit))"
    using clamp_limit_pos [of limit] by (simp add: Suc_nat_eq_nat_zadd1)
  moreover have "(clamp_limit limit < int (min (length xs) (Suc (nat (clamp_limit limit))))) \<longleftrightarrow> nat (clamp_limit limit) < length xs" for xs :: "mutation list"
    using clamp_limit_pos [of limit] by auto
  ultimately show ?thesis
    using assms by (auto simp: feed_page_def feed_Since_def feed_log_def repo_Since_def Let_def min_def)
qed

interpretation change_feed: cursor_log "feed_log d ws" "feed_page d ws limit" "nat (clamp_limit limit)" for d ws limit
  using clamp_limit_pos [of limit] by unfold_locales (simp_all add: feed_page_eq Let_def feed_log_def feed_rows_def)

end
