(* ===== verification/Changefeed_Properties.thy ===== *)
theory Changefeed_Properties
  imports Changefeed
begin

text \<open>
  Properties of the change feed: what a client that replays the log by its cursor has seen, when the
  statements that write the log overlap, and what is announced of a recorded mutation.
\<close>

section \<open>Writers and a client\<close>

text \<open>
  A client of one workspace polls the feed while statements start, commit and fail.  With \<open>ordered\<close>,
  statements commit in the order in which they took their numbers; nothing in the code makes them.
\<close>

record feed_sys =
  fy_db :: change_db
  fy_cursor :: int
  fy_seen :: "mutation list"

inductive feed_step :: "bool \<Rightarrow> uuid \<Rightarrow> feed_sys \<Rightarrow> feed_sys \<Rightarrow> bool" for ordered ws where
  start: "feed_step ordered ws s (s\<lparr>fy_db := snd (begin_insert now ms (fy_db s))\<rparr>)"
| commit: "rows \<in> set (cl_open (fy_db s)) \<Longrightarrow> (ordered \<Longrightarrow> rows = hd (cl_open (fy_db s))) \<Longrightarrow>
    feed_step ordered ws s (s\<lparr>fy_db := end_insert True rows (fy_db s)\<rparr>)"
| abort: "feed_step ordered ws s (s\<lparr>fy_db := end_insert False rows (fy_db s)\<rparr>)"
| poll: "feed_Since no_faults (fy_db s) ws (fy_cursor s) limit = Inr p \<Longrightarrow>
    feed_step ordered ws s (s\<lparr>fy_cursor := pg_cursor p, fy_seen := fy_seen s @ pg_mutations p\<rparr>)"

definition feed_init :: feed_sys where
  "feed_init = \<lparr>fy_db = \<lparr>cl_rows = [], cl_open = [], cl_next = 1\<rparr>, fy_cursor = 0, fy_seen = []\<rparr>"

definition feed_reach :: "bool \<Rightarrow> uuid \<Rightarrow> feed_sys \<Rightarrow> bool" where
  "feed_reach ordered ws s \<longleftrightarrow> (feed_step ordered ws)\<^sup>*\<^sup>* feed_init s"

text \<open>A recorded batch is a start and a commit, or a start and an abort.\<close>

lemma insert_changes_steps:
  assumes "insert_changes flt label now ms (fy_db s) = (r, d')"
  shows "(feed_step False ws)\<^sup>*\<^sup>* s (s\<lparr>fy_db := d'\<rparr>)"
proof -
  let ?rows = "fst (begin_insert now ms (fy_db s))" and ?s = "s\<lparr>fy_db := snd (begin_insert now ms (fy_db s))\<rparr>"
  have one: "feed_step False ws s ?s" by (rule feed_step.start)
  have mem: "?rows \<in> set (cl_open (fy_db ?s))" by (simp add: begin_insert_def Let_def)
  have "d' = end_insert True ?rows (fy_db ?s) \<or> d' = end_insert False ?rows (fy_db ?s)"
    using assms by (auto simp: insert_changes_def Let_def split: prod.splits if_splits)
  then have "feed_step False ws ?s (s\<lparr>fy_db := d'\<rparr>)"
    using feed_step.commit [of ?rows ?s False ws] feed_step.abort [of False ws ?s ?rows] mem by auto
  with one show ?thesis by (meson converse_rtranclp_into_rtranclp r_into_rtranclp)
qed

section \<open>Numbers\<close>

lemma set_number_rows: "m \<in> set (number_rows n now ms) \<Longrightarrow> n \<le> mu_seq m \<and> mu_seq m < n + int (length ms)"
  by (induction ms arbitrary: n) fastforce+

lemma sorted_number_rows: "sorted_wrt (<) (map mu_seq (number_rows n now ms))"
  by (induction ms arbitrary: n) (auto dest: set_number_rows)

text \<open>The numbers of committed and of open rows are positive, below the next one and all different;
  the client has seen committed rows, up to its cursor.\<close>

definition feed_inv :: "uuid \<Rightarrow> feed_sys \<Rightarrow> bool" where
  "feed_inv ws s \<longleftrightarrow>
     (let d = fy_db s; all = cl_rows d @ concat (cl_open d)
      in distinct (map mu_seq all) \<and> (\<forall>m \<in> set all. 0 < mu_seq m \<and> mu_seq m < cl_next d) \<and> 0 < cl_next d
         \<and> 0 \<le> fy_cursor s \<and> set (fy_seen s) \<subseteq> set (cl_rows d))"

lemmas feed_inv_defs = feed_inv_def Let_def

lemma concat_remove1_subset: "set (concat (remove1 x xs)) \<subseteq> set (concat xs)"
  using set_remove1_subset [of x xs] by auto

lemma distinct_shift: "distinct (map f (a @ us @ x @ vs)) \<Longrightarrow> distinct (map f ((a @ x) @ us @ vs))"
  by (auto simp: Int_Un_distrib Int_commute)

lemma split_open:
  assumes "x \<in> set xs"
  obtains us vs where "concat xs = us @ x @ vs" "concat (remove1 x xs) = us @ vs"
proof -
  obtain us vs where "xs = us @ x # vs" "x \<notin> set us" using split_list_first [OF assms] by blast
  then show thesis using that [of "concat us" "concat vs"] by (simp add: remove1_append)
qed

lemma distinct_commit:
  assumes "x \<in> set xs" "distinct (map f (a @ concat xs))"
  shows "distinct (map f ((a @ x) @ concat (remove1 x xs)))"
proof -
  obtain us vs where parts: "concat xs = us @ x @ vs" "concat (remove1 x xs) = us @ vs" using split_open [OF assms(1)] .
  show ?thesis using assms(2) unfolding parts by (rule distinct_shift)
qed

lemma distinct_concat_remove1:
  assumes "distinct (map f (a @ concat xs))"
  shows "distinct (map f (a @ concat (remove1 x xs)))"
proof (cases "x \<in> set xs")
  case True
  from distinct_commit [OF True assms] show ?thesis by (auto simp: Int_Un_distrib Int_Un_distrib2 simp del: set_concat)
qed (use assms in \<open>simp add: remove1_idem\<close>)

lemma feed_Since_poll:
  assumes "feed_Since no_faults d ws c limit = Inr p" "0 \<le> c"
  shows "ws \<noteq> uuid_Nil" "p = feed_page d ws limit c"
  using assms by (auto simp: feed_Since_def feed_page_def split: if_splits)

lemma feed_page_rows:
  "0 \<le> c \<Longrightarrow> set (pg_mutations (feed_page d ws limit c)) \<subseteq> {m \<in> set (cl_rows d). mu_ws m = ws \<and> c < mu_seq m}"
  by (auto simp: feed_page_eq Let_def feed_log_def feed_rows_def dest!: in_set_takeD split: if_splits)

lemma feed_page_cursor:
  assumes "0 \<le> c"
  shows "c \<le> pg_cursor (feed_page d ws limit c)"
proof (cases "pg_mutations (feed_page d ws limit c) = []")
  case False
  then have "last (pg_mutations (feed_page d ws limit c)) \<in> set (pg_mutations (feed_page d ws limit c))" by simp
  then have "c < mu_seq (last (pg_mutations (feed_page d ws limit c)))"
    using feed_page_rows [OF assms, of d ws limit] by blast
  then show ?thesis using change_feed.fetch_cursor [OF assms, of d ws limit] False by simp
qed (use assms in \<open>simp add: feed_page_eq Let_def\<close>)

lemma feed_step_inv:
  assumes "feed_step ordered ws s s'" "feed_inv ws s"
  shows "feed_inv ws s'"
  using assms
proof cases
  case (start now ms)
  define n where "n = cl_next (fy_db s)"
  define old where "old = cl_rows (fy_db s) @ concat (cl_open (fy_db s))"
  define rows where "rows = number_rows n now ms"
  have o: "distinct (map mu_seq old)" "\<And>m. m \<in> set old \<Longrightarrow> 0 < mu_seq m \<and> mu_seq m < n" "0 < n"
    using assms(2) by (simp_all add: feed_inv_defs old_def n_def)
  have r: "distinct (map mu_seq rows)" "\<And>m. m \<in> set rows \<Longrightarrow> n \<le> mu_seq m \<and> mu_seq m < n + int (length ms)"
    using sorted_number_rows strict_sorted_iff set_number_rows unfolding rows_def by blast+
  have "distinct (map mu_seq (old @ rows))" using o(1) r(1) o(2) r(2) by fastforce
  moreover have "\<forall>m \<in> set (old @ rows). 0 < mu_seq m \<and> mu_seq m < n + int (length ms)"
    using o(2) r(2) o(3) by fastforce
  moreover have "cl_open (fy_db s') = cl_open (fy_db s) @ [rows]" "cl_rows (fy_db s') = cl_rows (fy_db s)"
    "cl_next (fy_db s') = n + int (length ms)"
    using start by (simp_all add: begin_insert_def Let_def rows_def n_def)
  ultimately show ?thesis using start assms(2) o(3)
    by (simp add: feed_inv_def Let_def old_def image_Un Un_commute Un_left_commute)
next
  case (commit rows)
  let ?d = "fy_db s"
  have "set ((cl_rows ?d @ rows) @ concat (remove1 rows (cl_open ?d))) \<subseteq> set (cl_rows ?d @ concat (cl_open ?d))"
    using commit(2) concat_remove1_subset [of rows "cl_open ?d"] by auto
  moreover have "distinct (map mu_seq ((cl_rows ?d @ rows) @ concat (remove1 rows (cl_open ?d))))"
    using assms(2) by (intro distinct_commit [OF commit(2)]) (simp add: feed_inv_defs)
  moreover have "set (fy_seen s) \<subseteq> set (cl_rows ?d @ rows)" using assms(2) by (auto simp: feed_inv_defs)
  ultimately show ?thesis using commit(1) assms(2) unfolding feed_inv_defs end_insert_def
    by (simp del: set_append set_concat map_append append_assoc) blast
next
  case (abort rows)
  let ?d = "fy_db s"
  have "set (cl_rows ?d @ concat (remove1 rows (cl_open ?d))) \<subseteq> set (cl_rows ?d @ concat (cl_open ?d))"
    using concat_remove1_subset [of rows "cl_open ?d"] by auto
  moreover have "distinct (map mu_seq (cl_rows ?d @ concat (remove1 rows (cl_open ?d))))"
    using assms(2) by (intro distinct_concat_remove1) (simp add: feed_inv_defs)
  ultimately show ?thesis using abort(1) assms(2) unfolding feed_inv_defs end_insert_def
    by (simp del: set_append set_concat map_append append_assoc) blast
next
  case (poll limit p)
  have c: "0 \<le> fy_cursor s" using assms(2) by (simp add: feed_inv_defs)
  have p: "p = feed_page (fy_db s) ws limit (fy_cursor s)" using feed_Since_poll poll c by blast
  show ?thesis using poll(1) p c assms(2) feed_page_rows [OF c, of "fy_db s" ws limit] feed_page_cursor [OF c, of "fy_db s" ws limit]
    by (auto simp: feed_inv_defs)
qed

lemma feed_reach_inv:
  assumes "feed_reach ordered ws s"
  shows "feed_inv ws s"
  using assms unfolding feed_reach_def
proof induction
  case base
  show ?case by (simp add: feed_init_def feed_inv_defs)
next
  case (step y z)
  then show ?case by (blast intro: feed_step_inv)
qed

section \<open>Commits in the order of the numbers\<close>

lemma sorted_split_at: "sorted (map f xs) \<Longrightarrow> filter (\<lambda>m. f m \<le> c) xs @ filter (\<lambda>m. c < f m) xs = xs" for c :: "'k::linorder"
proof (induction xs)
  case (Cons x xs)
  show ?case
  proof (cases "f x \<le> c")
    case False
    then have "filter (\<lambda>m. f m \<le> c) xs = []" using Cons.prems by (fastforce simp: filter_empty_conv)
    then show ?thesis using False Cons by simp
  qed (use Cons in auto)
qed simp

lemma page_extends:
  fixes c :: "'k::linorder"
  assumes "sorted_wrt (<) (map f xs)" and t: "t = take k (filter (\<lambda>m. c < f m) xs)"
  shows "filter (\<lambda>m. f m \<le> (if t = [] then c else f (last t))) xs = filter (\<lambda>m. f m \<le> c) xs @ t"
proof (cases "t = []")
  case False
  let ?a = "filter (\<lambda>m. f m \<le> c) xs" and ?b = "drop k (filter (\<lambda>m. c < f m) xs)"
  have "sorted (map f xs)" using assms(1) strict_sorted_imp_sorted by blast
  then have xs: "?a @ t @ ?b = xs" using sorted_split_at [of f xs c] t by simp
  then have srt: "sorted_wrt (<) (map f (?a @ t @ ?b))" using assms(1) by simp
  have l: "last t \<in> set t" using False by simp
  have "\<forall>m \<in> set t. c < f m" using t by (auto dest: in_set_takeD)
  with l have c: "c < f (last t)" by blast
  have "sorted_wrt (<) (map f t)" using srt unfolding map_append sorted_wrt_append by blast
  then have "sorted (map f t)" by (rule strict_sorted_imp_sorted)
  then have le: "\<forall>m \<in> set t. f m \<le> f (last t)" using sorted_le_last [of f t] by simp
  have gt: "\<forall>m \<in> set ?b. \<not> f m \<le> f (last t)"
  proof
    fix m assume "m \<in> set ?b"
    then have "f (last t) < f m" using srt l unfolding map_append sorted_wrt_append set_append set_map by blast
    then show "\<not> f m \<le> f (last t)" by simp
  qed
  have "filter (\<lambda>m. f m \<le> f (last t)) ?a = ?a" using c by (intro filter_True) auto
  moreover have "filter (\<lambda>m. f m \<le> f (last t)) t = t" using le by (simp add: filter_id_conv)
  moreover have "filter (\<lambda>m. f m \<le> f (last t)) ?b = []" using gt unfolding filter_empty_conv .
  ultimately have "filter (\<lambda>m. f m \<le> f (last t)) (?a @ t @ ?b) = ?a @ t" unfolding filter_append by simp
  then show ?thesis using False unfolding xs by simp
qed simp

definition in_step :: "uuid \<Rightarrow> feed_sys \<Rightarrow> bool" where
  "in_step ws s \<longleftrightarrow>
     sorted_wrt (<) (map mu_seq (cl_rows (fy_db s) @ concat (cl_open (fy_db s))))
     \<and> (\<forall>m \<in> set (concat (cl_open (fy_db s))). fy_cursor s < mu_seq m) \<and> fy_cursor s < cl_next (fy_db s)
     \<and> fy_seen s = filter (\<lambda>m. mu_ws m = ws \<and> mu_seq m \<le> fy_cursor s) (cl_rows (fy_db s))"

lemma strict_sorted_remove1:
  assumes "sorted_wrt (<) (map f (a @ concat xs))"
  shows "sorted_wrt (<) (map f (a @ concat (remove1 x xs)))"
proof (cases "x \<in> set xs")
  case True
  obtain us vs where parts: "concat xs = us @ x @ vs" "concat (remove1 x xs) = us @ vs" using split_open [OF True] .
  show ?thesis using assms unfolding parts by (auto simp: sorted_wrt_append)
qed (use assms in \<open>simp add: remove1_idem\<close>)

lemma feed_rows_strict:
  assumes "sorted_wrt (<) (map mu_seq (cl_rows d))"
  shows "feed_rows d ws = filter (\<lambda>m. mu_ws m = ws) (cl_rows d)"
proof -
  have "sorted (map mu_seq (filter (\<lambda>m. mu_ws m = ws) (cl_rows d)))"
    using assms strict_sorted_imp_sorted sorted_filter by blast
  then show ?thesis by (simp add: feed_rows_def sort_key_id_if_sorted)
qed

lemma in_step_poll:
  assumes "in_step ws s" "0 \<le> fy_cursor s" "feed_Since no_faults (fy_db s) ws (fy_cursor s) limit = Inr p"
    and below: "\<forall>m \<in> set (cl_rows (fy_db s)). mu_seq m < cl_next (fy_db s)"
  shows "in_step ws (s\<lparr>fy_cursor := pg_cursor p, fy_seen := fy_seen s @ pg_mutations p\<rparr>)"
proof -
  let ?d = "fy_db s" and ?c = "fy_cursor s" and ?t = "pg_mutations p"
  let ?xs = "filter (\<lambda>m. mu_ws m = ws) (cl_rows ?d)"
  note p = feed_Since_poll [OF assms(3,2)]
  have srt: "sorted_wrt (<) (map mu_seq (cl_rows ?d))" "\<And>m m'. m \<in> set (cl_rows ?d) \<Longrightarrow> m' \<in> set (concat (cl_open ?d)) \<Longrightarrow> mu_seq m < mu_seq m'"
    using assms(1) unfolding in_step_def map_append sorted_wrt_append by auto
  have log: "feed_log ?d ws = ?xs" using p(1) feed_rows_strict [OF srt(1)] by (simp add: feed_log_def)
  have t: "?t = take (nat (clamp_limit limit)) (filter (\<lambda>m. ?c < mu_seq m) ?xs)"
    and cur: "pg_cursor p = (if ?t = [] then ?c else mu_seq (last ?t))"
    using change_feed.fetch_mutations [OF assms(2), of ?d ws limit] change_feed.fetch_cursor [OF assms(2), of ?d ws limit] p(2) log
    by simp_all
  have strict: "sorted_wrt (<) (map mu_seq ?xs)" using srt(1) by (simp add: sorted_wrt_map sorted_wrt_filter)
  have "filter (\<lambda>m. mu_ws m = ws \<and> mu_seq m \<le> pg_cursor p) (cl_rows ?d) = filter (\<lambda>m. mu_ws m = ws \<and> mu_seq m \<le> ?c) (cl_rows ?d) @ ?t"
    using page_extends [OF strict t] cur by (simp add: conj_commute)
  moreover have "last ?t \<in> set (cl_rows ?d)" if "?t \<noteq> []"
    using last_in_set [OF that] unfolding t by (auto dest: in_set_takeD)
  ultimately show ?thesis using assms(1) cur below srt(2) by (auto simp: in_step_def)
qed

lemma in_step_step:
  assumes "feed_step True ws s s'" "in_step ws s" "feed_inv ws s"
  shows "in_step ws s'"
  using assms(1)
proof cases
  case (start now ms)
  let ?d = "fy_db s" and ?rows = "number_rows (cl_next (fy_db s)) now ms"
  let ?all = "cl_rows ?d @ concat (cl_open ?d)"
  have below: "\<And>m. m \<in> set ?all \<Longrightarrow> mu_seq m < cl_next ?d" using assms(3) by (simp add: feed_inv_defs)
  have above: "\<And>m. m \<in> set ?rows \<Longrightarrow> cl_next ?d \<le> mu_seq m" using set_number_rows by blast
  have "sorted_wrt (<) (map mu_seq (?all @ ?rows))"
    using assms(2) sorted_number_rows below above unfolding in_step_def map_append [of _ ?all] sorted_wrt_append [of _ "map mu_seq ?all"]
    by (fastforce simp del: set_append set_concat map_append)
  then show ?thesis using start assms(2) above by (fastforce simp: in_step_def begin_insert_def Let_def)
next
  case (commit rows)
  let ?d = "fy_db s"
  obtain rest where op: "cl_open ?d = rows # rest" using commit(2,3) by (cases "cl_open ?d") auto
  have "\<forall>m \<in> set rows. fy_cursor s < mu_seq m" using assms(2) op by (simp add: in_step_def)
  then have "filter (\<lambda>m. mu_ws m = ws \<and> mu_seq m \<le> fy_cursor s) rows = []" by (fastforce simp: filter_empty_conv)
  then show ?thesis using commit(1) assms(2) op by (simp add: in_step_def end_insert_def)
next
  case (abort rows)
  then show ?thesis
    using assms(2) strict_sorted_remove1 [of mu_seq "cl_rows (fy_db s)" "cl_open (fy_db s)" rows]
      concat_remove1_subset [of rows "cl_open (fy_db s)"]
    unfolding in_step_def end_insert_def by (simp del: set_concat map_append) blast
next
  case (poll limit p)
  then show ?thesis using in_step_poll assms(2,3) by (simp add: feed_inv_defs)
qed

lemma in_step_reach:
  assumes "feed_reach True ws s"
  shows "in_step ws s"
  using assms unfolding feed_reach_def
proof induction
  case base
  show ?case by (simp add: feed_init_def in_step_def)
next
  case (step y z)
  then show ?case using feed_reach_inv unfolding feed_reach_def by (blast intro: in_step_step)
qed

section \<open>Examples\<close>

definition sample_change :: "uuid \<Rightarrow> uuid \<Rightarrow> mutation" where
  "sample_change ws f = \<lparr>mu_seq = 0, mu_ws = ws, mu_actor = None, mu_kind = KindFile, mu_op = OpCreate,
     mu_resource = f, mu_parent = None, mu_name = ''a'', mu_metadata = [], mu_at = 0\<rparr>"

definition numbered :: "int \<Rightarrow> uuid \<Rightarrow> uuid \<Rightarrow> mutation" where
  "numbered n ws f = (sample_change ws f)\<lparr>mu_seq := n, mu_at := 0\<rparr>"

text \<open>Two statements have started, and the second one has committed and been polled.\<close>

definition overtaken :: feed_sys where
  "overtaken = \<lparr>fy_db = \<lparr>cl_rows = [numbered 2 7 11], cl_open = [[numbered 1 7 10]], cl_next = 3\<rparr>,
     fy_cursor = 2, fy_seen = [numbered 2 7 11]\<rparr>"

text \<open>One statement has committed and been polled, and the next one is open.\<close>

definition following :: feed_sys where
  "following = \<lparr>fy_db = \<lparr>cl_rows = [numbered 1 7 10], cl_open = [[numbered 2 7 11]], cl_next = 3\<rparr>,
     fy_cursor = 1, fy_seen = [numbered 1 7 10]\<rparr>"

definition two_open :: feed_sys where
  "two_open = \<lparr>fy_db = \<lparr>cl_rows = [], cl_open = [[numbered 1 7 10], [numbered 2 7 11]], cl_next = 3\<rparr>, fy_cursor = 0, fy_seen = []\<rparr>"

lemma two_open_reach: "(feed_step ordered 7)\<^sup>*\<^sup>* feed_init two_open"
proof -
  let ?s = "feed_init\<lparr>fy_db := snd (begin_insert 0 [sample_change 7 10] (fy_db feed_init))\<rparr>"
  have "two_open = ?s\<lparr>fy_db := snd (begin_insert 0 [sample_change 7 11] (fy_db ?s))\<rparr>"
    by (simp add: two_open_def feed_init_def begin_insert_def numbered_def Let_def)
  then have "feed_step ordered 7 ?s two_open" using feed_step.start by metis
  moreover have "feed_step ordered 7 feed_init ?s" by (rule feed_step.start)
  ultimately show ?thesis by (meson converse_rtranclp_into_rtranclp r_into_rtranclp)
qed

lemma commit_and_poll:
  assumes "rows \<in> set (cl_open (fy_db s))" "ordered \<Longrightarrow> rows = hd (cl_open (fy_db s))"
    "feed_Since no_faults (end_insert True rows (fy_db s)) ws (fy_cursor s) 0 = Inr p"
    "s' = s\<lparr>fy_db := end_insert True rows (fy_db s), fy_cursor := pg_cursor p, fy_seen := fy_seen s @ pg_mutations p\<rparr>"
  shows "(feed_step ordered ws)\<^sup>*\<^sup>* s s'"
proof -
  let ?s = "s\<lparr>fy_db := end_insert True rows (fy_db s)\<rparr>"
  have "feed_step ordered ws s ?s" using assms(1,2) by (rule feed_step.commit)
  moreover have "feed_step ordered ws ?s s'" using feed_step.poll [of ?s ws 0 p ordered] assms(3,4) by simp
  ultimately show ?thesis by (meson converse_rtranclp_into_rtranclp r_into_rtranclp)
qed

lemmas sample_feed_defs = two_open_def end_insert_def feed_Since_def repo_Since_def feed_rows_def clamp_limit_def
  DefaultLimit_def MaxLimit_def numbered_def sample_change_def no_faults_def uuid_Nil_def Let_def

lemma overtaken_reach: "feed_reach False 7 overtaken"
proof -
  have "(feed_step False 7)\<^sup>*\<^sup>* two_open overtaken"
    by (rule commit_and_poll [where rows = "[numbered 2 7 11]"
          and p = "\<lparr>pg_mutations = [numbered 2 7 11], pg_cursor = 2, pg_has_more = False\<rparr>"])
      (simp_all add: sample_feed_defs overtaken_def)
  with two_open_reach show ?thesis unfolding feed_reach_def by (rule rtranclp_trans)
qed

lemma following_reach: "feed_reach True 7 following"
proof -
  have "(feed_step True 7)\<^sup>*\<^sup>* two_open following"
    by (rule commit_and_poll [where rows = "[numbered 1 7 10]"
          and p = "\<lparr>pg_mutations = [numbered 1 7 10], pg_cursor = 1, pg_has_more = False\<rparr>"])
      (simp_all add: sample_feed_defs following_def)
  with two_open_reach show ?thesis unfolding feed_reach_def by (rule rtranclp_trans)
qed

section \<open>What a client has seen\<close>

text \<open>C36 (invariant).  If the statements that write the log commit in the order of their numbers, a
  client that pages until no more is announced has, with what it had seen before, the whole log of its
  workspace: every row once, in order.  The loop ends.\<close>

theorem replay_is_complete:
  assumes "feed_reach True ws s" "ws \<noteq> uuid_Nil"
  shows "\<exists>rest c. catch_up (feed_page (fy_db s) ws limit) (fy_cursor s) = Some (rest, c)
    \<and> fy_seen s @ rest = feed_rows (fy_db s) ws \<and> distinct (map mu_seq (feed_rows (fy_db s) ws))"
proof -
  note inv = feed_reach_inv [OF assms(1)] and step = in_step_reach [OF assms(1)]
  have strict: "sorted_wrt (<) (map mu_seq (cl_rows (fy_db s)))"
    using step unfolding in_step_def map_append sorted_wrt_append by blast
  have log: "feed_log (fy_db s) ws = filter (\<lambda>m. mu_ws m = ws) (cl_rows (fy_db s))"
    using assms(2) feed_rows_strict [OF strict] by (simp add: feed_log_def)
  have srt: "sorted_wrt (<) (map mu_seq (feed_log (fy_db s) ws))"
    unfolding log using strict by (simp add: sorted_wrt_map sorted_wrt_filter)
  then have sd: "sorted (map mu_seq (feed_log (fy_db s) ws))" "distinct (map mu_seq (feed_log (fy_db s) ws))"
    by (simp_all add: strict_sorted_iff)
  have c: "0 \<le> fy_cursor s" using inv by (simp add: feed_inv_defs)
  have seen: "fy_seen s = filter (\<lambda>m. mu_seq m \<le> fy_cursor s) (feed_log (fy_db s) ws)"
    using step log by (simp add: in_step_def conj_commute)
  show ?thesis
    using change_feed.catch_up_all [OF sd(2) c, of limit] sorted_split_at [OF sd(1), of "fy_cursor s"] seen assms(2) sd(2)
    by (simp add: feed_log_def)
qed

theorem replay_is_complete_witness:
  "\<exists>rest c. catch_up (feed_page (fy_db following) 7 2) (fy_cursor following) = Some (rest, c)
    \<and> fy_seen following @ rest = feed_rows (fy_db following) 7 \<and> distinct (map mu_seq (feed_rows (fy_db following) 7))"
  by (rule replay_is_complete [OF following_reach]) (simp add: uuid_Nil_def)

text \<open>The log a client pages through has, in every reachable state, each row behind its cursor once.\<close>

lemma catch_up_returns:
  assumes "feed_reach ordered ws s" "ws \<noteq> uuid_Nil" "0 \<le> c"
  shows "\<exists>c'. catch_up (feed_page (fy_db s) ws limit) c = Some (filter (\<lambda>m. c < mu_seq m) (feed_rows (fy_db s) ws), c')"
proof -
  have "distinct (map mu_seq (filter (\<lambda>m. mu_ws m = ws) (cl_rows (fy_db s))))"
    using feed_reach_inv [OF assms(1)] by (simp add: feed_inv_defs distinct_map_filter)
  then have "distinct (map mu_seq (feed_log (fy_db s) ws))" using assms(2) by (simp add: feed_log_def feed_rows_def distinct_map)
  from change_feed.catch_up_all [OF this assms(3)] assms(2) show ?thesis by (simp add: feed_log_def)
qed

text \<open>C37 (safety).  A row whose statement is still open when the cursor of a client has passed its number
  is never delivered to that client, whatever happens later.\<close>

theorem late_commit_is_never_replayed:
  assumes "feed_reach ordered ws s" "m \<in> set (concat (cl_open (fy_db s)))" "mu_seq m \<le> fy_cursor s"
    "(feed_step ordered ws)\<^sup>*\<^sup>* s s'"
  shows "m \<notin> set (fy_seen s')"
proof -
  have start: "m \<notin> set (fy_seen s)"
    using feed_reach_inv [OF assms(1)] assms(2) by (auto simp: feed_inv_defs)
  from assms(4) have "m \<notin> set (fy_seen s') \<and> mu_seq m \<le> fy_cursor s'"
  proof induction
    case base
    show ?case using start assms(3) by simp
  next
    case (step y z)
    have "feed_reach ordered ws y" using assms(1) step(1) unfolding feed_reach_def by (rule rtranclp_trans)
    then have c: "0 \<le> fy_cursor y" using feed_reach_inv by (fastforce simp: feed_inv_defs)
    from step(2) show ?case
    proof cases
      case (poll limit p)
      note p = feed_Since_poll(2) [OF poll(2) c]
      show ?thesis using poll(1) step(3) feed_page_rows [OF c, of "fy_db y" ws limit] feed_page_cursor [OF c, of "fy_db y" ws limit]
        unfolding p by auto
    qed (use step(3) in auto)
  qed
  then show ?thesis by blast
qed

text \<open>Here the row is committed, it is in the log, and the client has not seen it and never will.\<close>

theorem late_commit_is_never_replayed_witness:
  "numbered 1 7 10 \<notin> set (fy_seen (overtaken\<lparr>fy_db := end_insert True [numbered 1 7 10] (fy_db overtaken)\<rparr>))
   \<and> numbered 1 7 10 \<in> set (cl_rows (end_insert True [numbered 1 7 10] (fy_db overtaken)))"
proof
  let ?s = "overtaken\<lparr>fy_db := end_insert True [numbered 1 7 10] (fy_db overtaken)\<rparr>"
  have "feed_step False 7 overtaken ?s" by (rule feed_step.commit) (simp_all add: overtaken_def)
  then show "numbered 1 7 10 \<notin> set (fy_seen ?s)"
    by (intro late_commit_is_never_replayed [OF overtaken_reach _ _ r_into_rtranclp])
      (simp_all add: overtaken_def numbered_def)
qed (simp add: end_insert_def)

section \<open>What is announced\<close>

lemma number_rows_fields:
  "map mu_ws (number_rows n now ms) = map mu_ws ms" "map mu_kind (number_rows n now ms) = map mu_kind ms"
  "map mu_op (number_rows n now ms) = map mu_op ms" "length (number_rows n now ms) = length ms"
  by (induction ms arbitrary: n) auto

lemma set_first_occurrences: "set (first_occurrences seen ws) = set ws - set seen"
  by (induction ws arbitrary: seen) auto

lemma insert_changes_ok:
  assumes "insert_changes flt label now ms d = (Inr rows, d')"
  shows "cl_rows d' = cl_rows d @ rows" "rows = number_rows (cl_next d) now ms"
  using assms by (auto simp: insert_changes_def begin_insert_def end_insert_def Let_def split: if_splits)

text \<open>After a recorded batch, an event is announced for each row of the log that it added and
  for nothing else, in the order of the numbers; before the first of them, the permission cache is invalidated
  for the workspace of every row that can change access, and the content caches for the workspace of every row.\<close>

theorem announced_rows_are_recorded:
  assumes "feed_BatchRecord \<lparr>fs_cache_buster = True, fs_content_buster = True, fs_publisher = True\<rparr> marshal flt now ins d = (Inr rows, effects, d')"
  shows "\<exists>busts. effects = busts @ map (\<lambda>m. PublishChange (mu_ws m) m) rows
    \<and> cl_rows d' = cl_rows d @ rows \<and> sorted_wrt (<) (map mu_seq rows) \<and> length rows = length ins
    \<and> (\<forall>m \<in> set rows. BustContent (mu_ws m) \<in> set busts)
    \<and> (\<forall>m \<in> set rows. shouldBustForMutation (mu_kind m) (mu_op m) \<longrightarrow> BustPermissions (mu_ws m) \<in> set busts)"
proof (cases "ins = []")
  case False
  have len: "to_mutations marshal xs = Inr ms \<Longrightarrow> length ms = length xs" for xs ms
    by (induction xs arbitrary: ms) (auto split: sum.splits)
  obtain ms where ms: "to_mutations marshal ins = Inr ms"
    and rec: "insert_changes flt ''batch insert change_log'' now ms d = (Inr rows, d')"
    using assms False len [of ins] by (auto simp: feed_BatchRecord_def repo_BatchRecord_def split: sum.splits prod.splits if_splits)
  have "effects = (map BustPermissions (first_occurrences [] (map mu_ws (filter (\<lambda>m. shouldBustForMutation (mu_kind m) (mu_op m)) rows)))
      @ map BustContent (first_occurrences [] (map mu_ws rows))) @ map (\<lambda>m. PublishChange (mu_ws m) m) rows"
    using assms False ms len [OF ms] rec by (auto simp: feed_BatchRecord_def repo_BatchRecord_def split: if_splits)
  then show ?thesis
    using insert_changes_ok [OF rec] len [OF ms] sorted_number_rows
    by (intro exI [of _ "map BustPermissions (first_occurrences [] (map mu_ws (filter (\<lambda>m. shouldBustForMutation (mu_kind m) (mu_op m)) rows)))
      @ map BustContent (first_occurrences [] (map mu_ws rows))"])
      (auto simp: set_first_occurrences number_rows_fields(4))
qed (use assms in \<open>simp add: feed_BatchRecord_def\<close>)

definition sample_input :: "uuid \<Rightarrow> uuid \<Rightarrow> record_input" where
  "sample_input ws f = \<lparr>ri_ws = ws, ri_actor = None, ri_kind = KindFolder, ri_op = OpMove, ri_resource = f, ri_parent = None,
     ri_name = ''a'', ri_metadata = []\<rparr>"

definition sample_recorded :: "int \<Rightarrow> uuid \<Rightarrow> mutation" where
  "sample_recorded n f = \<lparr>mu_seq = n, mu_ws = 7, mu_actor = None, mu_kind = KindFolder, mu_op = OpMove,
     mu_resource = f, mu_parent = None, mu_name = ''a'', mu_metadata = [], mu_at = 5\<rparr>"

lemma sample_batch:
  "feed_BatchRecord \<lparr>fs_cache_buster = True, fs_content_buster = True, fs_publisher = True\<rparr> (\<lambda>_. None) no_faults 5
     [sample_input 7 10, sample_input 7 11] \<lparr>cl_rows = [], cl_open = [], cl_next = 1\<rparr>
   = (Inr [sample_recorded 1 10, sample_recorded 2 11],
      [BustPermissions 7, BustContent 7, PublishChange 7 (sample_recorded 1 10), PublishChange 7 (sample_recorded 2 11)],
      \<lparr>cl_rows = [sample_recorded 1 10, sample_recorded 2 11], cl_open = [], cl_next = 3\<rparr>)"
  by (simp add: feed_BatchRecord_def repo_BatchRecord_def insert_changes_def begin_insert_def end_insert_def Let_def
      to_mutation_def feed_validate_def sample_input_def sample_recorded_def change_checks_def no_faults_def uuid_Nil_def
      shouldBustForMutation_def kind_op_defs)

theorem announced_rows_are_recorded_witness:
  "\<exists>busts. [BustPermissions 7, BustContent 7, PublishChange 7 (sample_recorded 1 10), PublishChange 7 (sample_recorded 2 11)]
     = busts @ map (\<lambda>m. PublishChange (mu_ws m) m) [sample_recorded 1 10, sample_recorded 2 11]
   \<and> BustPermissions 7 \<in> set busts \<and> BustContent 7 \<in> set busts"
  using announced_rows_are_recorded [OF sample_batch]
  by (simp add: sample_recorded_def shouldBustForMutation_def kind_op_defs)

text \<open>A live event published through Redis reaches the hub of every replica with the workspace and the
  payload it was published with, if identifiers are parsed from their texts.\<close>

lemma published_event_is_delivered:
  assumes "parse (str ws) = Some ws" "redis_Publish True flt str marshal ws e = Inr (Some msg)"
  shows "local_Publish True marshal ws e = Inr (subscribe_turn parse msg)"
  using assms by (auto simp: redis_Publish_def local_Publish_def subscribe_turn_def parseChannel_def channelFor_def Let_def
    split: option.splits if_splits)

end
