(* ===== verification/Ip_Allow.thy ===== *)
theory Ip_Allow
  imports Sql Webhook_Address Webhook_Signer
begin

text \<open>
  The address allow list of a workspace (\<^verbatim>\<open>internal/workspace/ipallow.go\<close>, \<^verbatim>\<open>api/middleware/ipallow.go\<close>):
  which networks a rule may name, the statements on rules and on the switch, the cached snapshot, and the
  check of a request with the address it is attributed to.  The parsers of networks, addresses and host/port
  pairs, the text of a network and the text Postgres gives a network are parameters.
\<close>

section \<open>Networks\<close>

record ip_env =
  ie_ParseCIDR :: "string \<Rightarrow> ip_net option"
  ie_NetString :: "ip_net \<Rightarrow> string"
  ie_cidr :: "string \<Rightarrow> string option"  \<comment> \<open>the cast to \<^verbatim>\<open>cidr\<close> and back to text\<close>
  ie_IPParse :: "string \<Rightarrow> ip option"
  ie_SplitHostPort :: "string \<Rightarrow> string option"

text \<open>The address and the mask with which \<^verbatim>\<open>IPNet.Contains\<close> and \<^verbatim>\<open>IPNet.String\<close> work: a network in the
  mapped range counts as the IPv4 network.\<close>

definition network_number :: "ip_net \<Rightarrow> ip_net" where
  "network_number n =
     (if length (fst n) = 16 then (case To4 (fst n) of Some v \<Rightarrow> (v, snd n - 96) | None \<Rightarrow> n) else n)"

definition IPNet_Contains :: "ip_net \<Rightarrow> ip \<Rightarrow> bool" where
  "IPNet_Contains n ip = Contains (network_number n) ip"

definition rfc6598CGNAT :: ip_net where
  "rfc6598CGNAT = ([100, 64, 0, 0], 10)"

definition isPublicIP :: "ip option \<Rightarrow> bool" where
  "isPublicIP i =
     (case i of
        None \<Rightarrow> False
      | Some ip \<Rightarrow>
          \<not> (IsLoopback ip \<or> IsUnspecified ip \<or> IsLinkLocalUnicast ip \<or> IsLinkLocalMulticast ip
             \<or> IsMulticast ip \<or> IsPrivate ip \<or> IPNet_Contains rfc6598CGNAT ip))"

definition reservedNets :: "ip_net list" where
  "reservedNets =
     [([10, 0, 0, 0], 8), ([172, 16, 0, 0], 12), ([192, 168, 0, 0], 16),
      ([127, 0, 0, 0], 8),
      ([169, 254, 0, 0], 16),
      ([100, 64, 0, 0], 10),
      ([224, 0, 0, 0], 4),
      (IPv6loopback, 128),
      v6_net [0xFE, 0x80] 10,
      v6_net [0xFC] 7,
      v6_net [0xFF] 8]"

definition cidrsOverlap :: "ip_net \<Rightarrow> ip_net \<Rightarrow> bool" where
  "cidrsOverlap a b \<longleftrightarrow> IPNet_Contains a (fst b) \<or> IPNet_Contains b (fst a)"

datatype ip_error =
    ErrIPBlocked
  | ErrInvalidCIDR
  | ErrPrivateCIDR
  | ErrTooManyRules
  | ErrDuplicateCIDR
  | ErrNoRulesToEnable
  | ErrCannotRemoveLastRule
  | ErrLabelTooLong
  | IPErrNotFound
  | IPErr string

definition ValidatePublicCIDR :: "ip_env \<Rightarrow> string \<Rightarrow> ip_error + string" where
  "ValidatePublicCIDR env cidr =
     (case ie_ParseCIDR env cidr of
        None \<Rightarrow> Inl ErrInvalidCIDR
      | Some network \<Rightarrow>
          if \<not> isPublicIP (Some (fst network)) then Inl ErrPrivateCIDR
          else if list_ex (cidrsOverlap network) reservedNets then Inl ErrPrivateCIDR
          else Inr (ie_NetString env network))"

section \<open>The store\<close>

definition MaxIPRulesPerWorkspace :: nat where "MaxIPRulesPerWorkspace = 50"
definition MaxIPRuleLabelLen :: nat where "MaxIPRuleLabelLen = 256"
definition ipAllowCacheTTL :: time where "ipAllowCacheTTL = 30 * 1000000000"

record ip_rule =
  ir_id :: uuid
  ir_ws :: uuid
  ir_cidr :: string
  ir_label :: string
  ir_created_by :: uuid
  ir_created :: time

text \<open>The columns of \<^verbatim>\<open>workspaces\<close> the code uses: identifier and switch.\<close>

record allow_db =
  al_workspaces :: "(uuid \<times> bool) list"
  al_rules :: "ip_rule list"

definition rules_of :: "allow_db \<Rightarrow> uuid \<Rightarrow> ip_rule list" where
  "rules_of d ws = filter (\<lambda>r. ir_ws r = ws) (al_rules d)"

definition store_ListRules :: "faults \<Rightarrow> allow_db \<Rightarrow> uuid \<Rightarrow> ip_error + ip_rule list" where
  "store_ListRules flt d ws =
     (if flt ''query ip rules'' then Inl (IPErr ''query ip rules'') else Inr (sort_key ir_created (rules_of d ws)))"

text \<open>The transactions lock the row of the workspace first, so that those of a workspace run one after
  the other; each is one step.\<close>

definition store_AddRule :: "ip_env \<Rightarrow> faults \<Rightarrow> time \<Rightarrow> uuid \<Rightarrow> ip_rule \<Rightarrow> allow_db \<Rightarrow> (ip_error + ip_rule) \<times> allow_db" where
  "store_AddRule env flt now fresh rule d =
     (let rule = (if ir_id rule = uuid_Nil then rule\<lparr>ir_id := fresh\<rparr> else rule)
      in if flt ''begin tx'' then (Inl (IPErr ''begin tx''), d)
         else if flt ''lock workspace'' then (Inl (IPErr ''lock workspace''), d)
         else case map_of (al_workspaces d) (ir_ws rule) of
           None \<Rightarrow> (Inl IPErrNotFound, d)
         | Some _ \<Rightarrow>
             if flt ''count ip rules'' then (Inl (IPErr ''count ip rules''), d)
             else if MaxIPRulesPerWorkspace \<le> length (rules_of d (ir_ws rule)) then (Inl ErrTooManyRules, d)
             else case ie_cidr env (ir_cidr rule) of
               None \<Rightarrow> (Inl (IPErr ''insert ip rule''), d)
             | Some stored \<Rightarrow>
                 let row = rule\<lparr>ir_cidr := stored, ir_created := now\<rparr>
                 in if flt ''insert ip rule'' then (Inl (IPErr ''insert ip rule''), d)
                    else if (\<exists>r \<in> set (al_rules d). ir_id r = ir_id rule \<or> ir_ws r = ir_ws rule \<and> ir_cidr r = stored)
                    then (Inl ErrDuplicateCIDR, d)
                    else if flt ''commit ip rule'' then (Inl (IPErr ''commit ip rule''), d)
                    else (Inr (rule\<lparr>ir_created := now\<rparr>), d\<lparr>al_rules := al_rules d @ [row]\<rparr>))"

definition store_RemoveRule :: "faults \<Rightarrow> uuid \<Rightarrow> uuid \<Rightarrow> allow_db \<Rightarrow> ip_error option \<times> allow_db" where
  "store_RemoveRule flt ws i d =
     (if flt ''begin tx'' then (Some (IPErr ''begin tx''), d)
      else if flt ''lock workspace'' then (Some (IPErr ''lock workspace''), d)
      else case map_of (al_workspaces d) ws of
        None \<Rightarrow> (Some IPErrNotFound, d)
      | Some enabled \<Rightarrow>
          if flt ''count ip rules'' then (Some (IPErr ''count ip rules''), d)
          else let total = length (rules_of d ws); target = length (filter (\<lambda>r. ir_id r = i) (rules_of d ws))
               in if target = 0 then (Some IPErrNotFound, d)
                  else if enabled \<and> total = 1 then (Some ErrCannotRemoveLastRule, d)
                  else if flt ''delete ip rule'' then (Some (IPErr ''delete ip rule''), d)
                  else if flt ''commit remove ip rule'' then (Some (IPErr ''commit remove ip rule''), d)
                  else (None, d\<lparr>al_rules := delete_rows (\<lambda>r. ir_id r = i \<and> ir_ws r = ws) (al_rules d)\<rparr>))"

definition store_IsEnabled :: "faults \<Rightarrow> allow_db \<Rightarrow> uuid \<Rightarrow> ip_error + bool" where
  "store_IsEnabled flt d ws =
     (if flt ''read ip_allowlist_enabled'' then Inl (IPErr ''read ip_allowlist_enabled'')
      else case map_of (al_workspaces d) ws of None \<Rightarrow> Inl IPErrNotFound | Some e \<Rightarrow> Inr e)"

definition LoadSnapshot :: "faults \<Rightarrow> allow_db \<Rightarrow> uuid \<Rightarrow> ip_error + bool \<times> string list" where
  "LoadSnapshot flt d ws =
     (if flt ''load ip allowlist snapshot'' then Inl (IPErr ''load ip allowlist snapshot'')
      else case map_of (al_workspaces d) ws of
        None \<Rightarrow> Inl IPErrNotFound
      | Some e \<Rightarrow> Inr (e, map ir_cidr (sort_key ir_created (rules_of d ws))))"

definition store_SetEnabled :: "faults \<Rightarrow> uuid \<Rightarrow> bool \<Rightarrow> allow_db \<Rightarrow> (ip_error + bool) \<times> allow_db" where
  "store_SetEnabled flt ws enabled d =
     (if flt ''begin tx'' then (Inl (IPErr ''begin tx''), d)
      else if flt ''read ip_allowlist_enabled'' then (Inl (IPErr ''read ip_allowlist_enabled''), d)
      else case map_of (al_workspaces d) ws of
        None \<Rightarrow> (Inl IPErrNotFound, d)
      | Some prev \<Rightarrow>
          if enabled \<and> flt ''count ip rules'' then (Inl (IPErr ''count ip rules''), d)
          else if enabled \<and> length (rules_of d ws) = 0 then (Inl ErrNoRulesToEnable, d)
          else if flt ''update ip_allowlist_enabled'' then (Inl (IPErr ''update ip_allowlist_enabled''), d)
          else if flt ''commit ip_allowlist_enabled'' then (Inl (IPErr ''commit ip_allowlist_enabled''), d)
          else (Inr prev, d\<lparr>al_workspaces := update_rows (\<lambda>w. fst w = ws) (\<lambda>w. (fst w, enabled)) (al_workspaces d)\<rparr>))"

section \<open>The service\<close>

record ip_snapshot =
  sn_enabled :: bool
  sn_cidrs :: "string list"

text \<open>The cached snapshots: a value that decodes or not, and when Redis drops it.\<close>

type_synonym ip_cache = "uuid \<Rightarrow> (ip_snapshot option \<times> time) option"

definition cache_get :: "ip_cache \<Rightarrow> time \<Rightarrow> uuid \<Rightarrow> ip_snapshot option" where
  "cache_get c now ws = (case c ws of Some (Some snap, expires) \<Rightarrow> if now < expires then Some snap else None | _ \<Rightarrow> None)"

definition loadFromStore :: "faults \<Rightarrow> allow_db \<Rightarrow> uuid \<Rightarrow> ip_error + ip_snapshot" where
  "loadFromStore flt d ws =
     (case LoadSnapshot flt d ws of
        Inl e \<Rightarrow> Inl e
      | Inr (enabled, cidrs) \<Rightarrow> Inr \<lparr>sn_enabled = enabled, sn_cidrs = (if enabled then cidrs else [])\<rparr>)"

text \<open>\<open>rdb\<close> tells whether Redis is configured; the lifetime is the one \<^verbatim>\<open>NewIPAllowService\<close> sets.\<close>

definition writeCache :: "bool \<Rightarrow> faults \<Rightarrow> time \<Rightarrow> uuid \<Rightarrow> ip_snapshot \<Rightarrow> ip_cache \<Rightarrow> ip_cache" where
  "writeCache rdb flt now ws snap c =
     (if \<not> rdb \<or> flt ''redis write'' then c else c(ws \<mapsto> (Some snap, now + ipAllowCacheTTL)))"

definition bust :: "bool \<Rightarrow> faults \<Rightarrow> uuid \<Rightarrow> ip_cache \<Rightarrow> ip_cache" where
  "bust rdb flt ws c = (if \<not> rdb \<or> flt ''cache bust'' then c else c(ws := None))"

definition snapshot :: "bool \<Rightarrow> faults \<Rightarrow> time \<Rightarrow> allow_db \<Rightarrow> uuid \<Rightarrow> ip_cache \<Rightarrow> (ip_error + ip_snapshot) \<times> ip_cache" where
  "snapshot rdb flt now d ws c =
     (case (if rdb \<and> \<not> flt ''redis read'' then cache_get c now ws else None) of
        Some snap \<Rightarrow> (Inr snap, c)
      | None \<Rightarrow>
          (case loadFromStore flt d ws of
             Inl e \<Rightarrow> (Inl e, c)
           | Inr snap \<Rightarrow> (Inr snap, writeCache rdb flt now ws snap c)))"

text \<open>The decision on a snapshot; a stored text that does not parse is skipped.\<close>

definition check_snapshot :: "ip_env \<Rightarrow> ip_snapshot \<Rightarrow> ip option \<Rightarrow> ip_error option" where
  "check_snapshot env snap clientIP =
     (if \<not> sn_enabled snap then None
      else case clientIP of
        None \<Rightarrow> Some ErrIPBlocked
      | Some ip \<Rightarrow>
          if list_ex (\<lambda>c. case ie_ParseCIDR env c of None \<Rightarrow> False | Some network \<Rightarrow> IPNet_Contains network ip) (sn_cidrs snap)
          then None else Some ErrIPBlocked)"

definition CheckAccess_ip ::
  "ip_env \<Rightarrow> bool \<Rightarrow> faults \<Rightarrow> time \<Rightarrow> allow_db \<Rightarrow> uuid \<Rightarrow> ip option \<Rightarrow> ip_cache \<Rightarrow> ip_error option \<times> ip_cache" where
  "CheckAccess_ip env rdb flt now d ws clientIP c =
     (case snapshot rdb flt now d ws c of
        (Inl e, c) \<Rightarrow> (Some e, c)
      | (Inr snap, c) \<Rightarrow> (check_snapshot env snap clientIP, c))"

definition svc_AddRule ::
  "ip_env \<Rightarrow> bool \<Rightarrow> faults \<Rightarrow> time \<Rightarrow> uuid \<Rightarrow> uuid \<Rightarrow> string \<Rightarrow> string \<Rightarrow> uuid \<Rightarrow> allow_db \<times> ip_cache
     \<Rightarrow> (ip_error + ip_rule) \<times> allow_db \<times> ip_cache" where
  "svc_AddRule env rdb flt now fresh ws cidr label createdBy s =
     (case ValidatePublicCIDR env cidr of
        Inl e \<Rightarrow> (Inl e, s)
      | Inr canonical \<Rightarrow>
          if MaxIPRuleLabelLen < length label then (Inl ErrLabelTooLong, s)
          else case store_AddRule env flt now fresh
                 \<lparr>ir_id = uuid_Nil, ir_ws = ws, ir_cidr = canonical, ir_label = label, ir_created_by = createdBy, ir_created = 0\<rparr> (fst s) of
            (Inl e, d) \<Rightarrow> (Inl e, d, snd s)
          | (Inr saved, d) \<Rightarrow> (Inr saved, d, bust rdb flt ws (snd s)))"

definition svc_RemoveRule :: "bool \<Rightarrow> faults \<Rightarrow> uuid \<Rightarrow> uuid \<Rightarrow> allow_db \<times> ip_cache \<Rightarrow> ip_error option \<times> allow_db \<times> ip_cache" where
  "svc_RemoveRule rdb flt ws i s =
     (case store_RemoveRule flt ws i (fst s) of
        (Some e, d) \<Rightarrow> (Some e, d, snd s)
      | (None, d) \<Rightarrow> (None, d, bust rdb flt ws (snd s)))"

definition svc_SetEnabled :: "bool \<Rightarrow> faults \<Rightarrow> uuid \<Rightarrow> bool \<Rightarrow> allow_db \<times> ip_cache \<Rightarrow> (ip_error + bool) \<times> allow_db \<times> ip_cache" where
  "svc_SetEnabled rdb flt ws enabled s =
     (case (if enabled then store_ListRules flt (fst s) ws else Inr []) of
        Inl e \<Rightarrow> (Inl e, s)
      | Inr rules \<Rightarrow>
          if enabled \<and> rules = [] then (Inl ErrNoRulesToEnable, s)
          else case store_SetEnabled flt ws enabled (fst s) of
            (Inl e, d) \<Rightarrow> (Inl e, d, snd s)
          | (Inr prev, d) \<Rightarrow> (Inr prev, d, bust rdb flt ws (snd s)))"

section \<open>The middleware\<close>

record http_request =
  rq_workspace :: "uuid option"
  rq_forwarded :: "string list"  \<comment> \<open>the values of the header \<^verbatim>\<open>X-Forwarded-For\<close>\<close>
  rq_RemoteAddr :: string

definition ipFromRemoteAddr :: "ip_env \<Rightarrow> string \<Rightarrow> ip option" where
  "ipFromRemoteAddr env addr =
     (if addr = [] then None
      else let host = (case ie_SplitHostPort env addr of None \<Rightarrow> addr | Some h \<Rightarrow> h)
           in ie_IPParse env (TrimSuffix (TrimPrefix host ''['') '']''))"

text \<open>\<^verbatim>\<open>strings.Join\<close> at a one-byte separator.\<close>

fun JoinByte :: "char \<Rightarrow> string list \<Rightarrow> string" where
  "JoinByte c [] = []"
| "JoinByte c [s] = s"
| "JoinByte c (s # ss) = s @ c # JoinByte c ss"

definition forwarded_ip :: "ip_env \<Rightarrow> string list \<Rightarrow> int \<Rightarrow> ip option" where
  "forwarded_ip env values depth =
     (if depth \<le> 0 \<or> values = [] then None
      else let parts = Split CHR '','' (JoinByte CHR '','' values);
               idx = int (length parts) - depth
           in if 0 \<le> idx \<and> idx < int (length parts) then ie_IPParse env (TrimSpace (parts ! nat idx)) else None)"

definition ClientIPFromRequest :: "ip_env \<Rightarrow> http_request \<Rightarrow> int \<Rightarrow> ip option" where
  "ClientIPFromRequest env r depth =
     (case forwarded_ip env (rq_forwarded r) depth of
        Some ip \<Rightarrow> Some ip
      | None \<Rightarrow> ipFromRemoteAddr env (rq_RemoteAddr r))"

datatype guard_result =
    PassOn
  | IPBlocked
  | GuardFailed string

text \<open>\<open>checker\<close> tells whether the service is configured.\<close>

definition IPAllowlist ::
  "ip_env \<Rightarrow> bool \<Rightarrow> bool \<Rightarrow> faults \<Rightarrow> time \<Rightarrow> allow_db \<Rightarrow> int \<Rightarrow> http_request \<Rightarrow> ip_cache \<Rightarrow> guard_result \<times> ip_cache" where
  "IPAllowlist env checker rdb flt now d depth r c =
     (if \<not> checker then (PassOn, c)
      else case rq_workspace r of
        None \<Rightarrow> (GuardFailed ''workspace not in context'', c)
      | Some ws \<Rightarrow>
          (case CheckAccess_ip env rdb flt now d ws (ClientIPFromRequest env r depth) c of
             (None, c) \<Rightarrow> (PassOn, c)
           | (Some e, c) \<Rightarrow> (if e = ErrIPBlocked then IPBlocked else GuardFailed ''ip allowlist check'', c)))"

section \<open>The requests of admins\<close>

text \<open>The handlers of \<^verbatim>\<open>api/admin/ipallow_handler.go\<close>, with the service and the audit service configured.  They
  get the decoded request, \<^const>\<open>None\<close> for a body or an identifier that does not decode, and return the response, the
  action that is logged, and the new tables and cache.  The text of a time is a parameter.\<close>

record ip_context =
  ic_workspace :: "uuid option"
  ic_user :: "uuid option"

record ip_rule_response =
  rr_id :: uuid
  rr_cidr :: string
  rr_label :: string
  rr_created_by :: uuid
  rr_created :: string

definition toIPRuleResponse :: "(time \<Rightarrow> string) \<Rightarrow> ip_rule \<Rightarrow> ip_rule_response" where
  "toIPRuleResponse fmt r =
     \<lparr>rr_id = ir_id r, rr_cidr = ir_cidr r, rr_label = ir_label r, rr_created_by = ir_created_by r, rr_created = fmt (ir_created r)\<rparr>"

datatype ip_body =
    IPNoContent
  | IPError string
  | IPRuleBody ip_rule_response
  | IPRulesBody bool "ip_rule_response list"
  | IPPolicyBody bool

datatype ip_action =
    ActionIPAllowRuleAdd uuid string string
  | ActionIPAllowRuleRemove uuid
  | ActionIPAllowPolicyChange bool bool

record ip_result =
  ia_status :: nat
  ia_body :: ip_body
  ia_audit :: "ip_action option"
  ia_state :: "allow_db \<times> ip_cache"

definition ip_failed :: "nat \<Rightarrow> string \<Rightarrow> allow_db \<times> ip_cache \<Rightarrow> ip_result" where
  "ip_failed code msg s = \<lparr>ia_status = code, ia_body = IPError msg, ia_audit = None, ia_state = s\<rparr>"

definition ListIPAllowRules :: "(time \<Rightarrow> string) \<Rightarrow> faults \<Rightarrow> ip_context \<Rightarrow> allow_db \<times> ip_cache \<Rightarrow> ip_result" where
  "ListIPAllowRules fmt flt ctx s =
     (case ic_workspace ctx of
        None \<Rightarrow> ip_failed 500 ''workspace not in context'' s
      | Some ws \<Rightarrow>
          (case store_IsEnabled flt (fst s) ws of
             Inl _ \<Rightarrow> ip_failed 500 ''ip allowlist enabled'' s
           | Inr enabled \<Rightarrow>
               (case store_ListRules flt (fst s) ws of
                  Inl _ \<Rightarrow> ip_failed 500 ''list ip allowlist'' s
                | Inr rules \<Rightarrow> \<lparr>ia_status = 200, ia_body = IPRulesBody enabled (map (toIPRuleResponse fmt) rules), ia_audit = None, ia_state = s\<rparr>)))"

text \<open>A user that is absent from the context reads as the nil identifier.\<close>

definition AddIPAllowRule ::
  "ip_env \<Rightarrow> (time \<Rightarrow> string) \<Rightarrow> bool \<Rightarrow> faults \<Rightarrow> time \<Rightarrow> uuid \<Rightarrow> ip_context \<Rightarrow> (string \<times> string) option \<Rightarrow> allow_db \<times> ip_cache \<Rightarrow> ip_result" where
  "AddIPAllowRule env fmt rdb flt now fresh ctx body s =
     (case ic_workspace ctx of
        None \<Rightarrow> ip_failed 500 ''workspace not in context'' s
      | Some ws \<Rightarrow>
          let actor = (case ic_user ctx of None \<Rightarrow> uuid_Nil | Some u \<Rightarrow> u)
          in case body of
            None \<Rightarrow> ip_failed 400 ''invalid json body'' s
          | Some (cidr, label) \<Rightarrow>
              if cidr = [] then ip_failed 400 ''cidr is required'' s
              else case svc_AddRule env rdb flt now fresh ws cidr label actor s of
                (Inl e, s) \<Rightarrow>
                  (case e of
                     ErrInvalidCIDR \<Rightarrow> ip_failed 400 ''cidr is not a valid network'' s
                   | ErrPrivateCIDR \<Rightarrow> ip_failed 400 ''cidr must be a public range'' s
                   | ErrLabelTooLong \<Rightarrow> ip_failed 400 ''label is too long'' s
                   | ErrTooManyRules \<Rightarrow> ip_failed 409 ''ip allowlist rule cap reached'' s
                   | ErrDuplicateCIDR \<Rightarrow> ip_failed 409 ''cidr is already allowlisted'' s
                   | _ \<Rightarrow> ip_failed 500 ''add ip allowlist rule'' s)
              | (Inr rule, s) \<Rightarrow>
                  \<lparr>ia_status = 201, ia_body = IPRuleBody (toIPRuleResponse fmt rule),
                   ia_audit = Some (ActionIPAllowRuleAdd (ir_id rule) (ir_cidr rule) (ir_label rule)), ia_state = s\<rparr>)"

definition RemoveIPAllowRule :: "bool \<Rightarrow> faults \<Rightarrow> ip_context \<Rightarrow> uuid option \<Rightarrow> allow_db \<times> ip_cache \<Rightarrow> ip_result" where
  "RemoveIPAllowRule rdb flt ctx i s =
     (case ic_workspace ctx of
        None \<Rightarrow> ip_failed 500 ''workspace not in context'' s
      | Some ws \<Rightarrow>
          (case i of
             None \<Rightarrow> ip_failed 400 ''invalid id'' s
           | Some i \<Rightarrow>
               (case svc_RemoveRule rdb flt ws i s of
                  (Some e, s) \<Rightarrow>
                    (case e of
                       IPErrNotFound \<Rightarrow> ip_failed 404 ''rule not found'' s
                     | ErrCannotRemoveLastRule \<Rightarrow> ip_failed 409 ''disable the ip allowlist before removing its last rule'' s
                     | _ \<Rightarrow> ip_failed 500 ''remove ip allowlist rule'' s)
                | (None, s) \<Rightarrow> \<lparr>ia_status = 204, ia_body = IPNoContent, ia_audit = Some (ActionIPAllowRuleRemove i), ia_state = s\<rparr>)))"

text \<open>The body of a change of the switch: none if it does not decode, and the key may be absent.\<close>

definition UpdateIPAllowPolicy :: "bool \<Rightarrow> faults \<Rightarrow> ip_context \<Rightarrow> bool option option \<Rightarrow> allow_db \<times> ip_cache \<Rightarrow> ip_result" where
  "UpdateIPAllowPolicy rdb flt ctx body s =
     (case ic_workspace ctx of
        None \<Rightarrow> ip_failed 500 ''workspace not in context'' s
      | Some ws \<Rightarrow>
          (case body of
             None \<Rightarrow> ip_failed 400 ''invalid json body'' s
           | Some None \<Rightarrow> ip_failed 400 ''enabled is required'' s
           | Some (Some on) \<Rightarrow>
               (case svc_SetEnabled rdb flt ws on s of
                  (Inl e, s) \<Rightarrow>
                    (case e of
                       IPErrNotFound \<Rightarrow> ip_failed 404 ''workspace not found'' s
                     | ErrNoRulesToEnable \<Rightarrow> ip_failed 409 ''add at least one rule before enabling the ip allowlist'' s
                     | _ \<Rightarrow> ip_failed 500 ''update ip allowlist policy'' s)
                | (Inr prev, s) \<Rightarrow> \<lparr>ia_status = 200, ia_body = IPPolicyBody on, ia_audit = Some (ActionIPAllowPolicyChange prev on), ia_state = s\<rparr>)))"

end
