(* ===== verification/Ip_Allow_Properties.thy ===== *)
theory Ip_Allow_Properties
  imports Ip_Allow
begin

text \<open>
  Properties of the address allow list: what a rule can admit, the invariant of the rules and the switch,
  how old the snapshot of a decision can be, and whose address a request is checked with.
\<close>

section \<open>Blocks\<close>

lemma div_power_coarser: "a \<le> b \<Longrightarrow> x div 2 ^ a = y div 2 ^ a \<Longrightarrow> x div 2 ^ b = y div (2 ^ b :: nat)"
proof -
  assume le: "a \<le> b" and eq: "x div 2 ^ a = y div (2 ^ a :: nat)"
  have "z div 2 ^ b = z div 2 ^ a div 2 ^ (b - a)" for z :: nat
    using le by (simp flip: div_mult2_eq power_add)
  with eq show ?thesis by simp
qed

lemma in_blockD:
  assumes "in_block n x"
  shows "length x = length (fst n)"
    "ip_value x div 2 ^ (8 * length (fst n) - snd n) = ip_value (fst n) div 2 ^ (8 * length (fst n) - snd n)"
  using assms unfolding in_block_def by auto

text \<open>Two blocks with a common address are nested.\<close>

lemma block_base:
  assumes "in_block m x" "in_block r x" "snd m \<le> snd r"
  shows "in_block m (fst r)"
proof -
  note m = in_blockD [OF assms(1)] and r = in_blockD [OF assms(2)]
  let ?l = "length (fst m)"
  have l: "length (fst r) = ?l" using m(1) r(1) by simp
  have "8 * ?l - snd r \<le> 8 * ?l - snd m" using assms(3) by (rule diff_le_mono2)
  then have "ip_value x div 2 ^ (8 * ?l - snd m) = ip_value (fst r) div 2 ^ (8 * ?l - snd m)"
    using r(2) unfolding l by (rule div_power_coarser)
  then show ?thesis using m(2) l unfolding in_block_def by simp
qed

lemma blocks_nested: "in_block m x \<Longrightarrow> in_block r x \<Longrightarrow> in_block m (fst r) \<or> in_block r (fst m)"
  using block_base [of m x r] block_base [of r x m] nat_le_linear by blast

text \<open>What \<^verbatim>\<open>net.ParseCIDR\<close> documents of the network it returns: an address of four or sixteen bytes, a
  prefix no longer than the address, and no bit set behind the prefix.\<close>

definition well_formed_net :: "ip_net \<Rightarrow> bool" where
  "well_formed_net n \<longleftrightarrow>
     (length (fst n) = 4 \<or> length (fst n) = 16)
     \<and> (let m = network_number n
        in snd m \<le> 8 * length (fst m) \<and> ip_value (fst m) mod 2 ^ (8 * length (fst m) - snd m) = 0)"

lemma network_number_fst: "length (fst n) = 4 \<or> length (fst n) = 16 \<Longrightarrow> fst (network_number n) = unmap (fst n)"
  by (auto simp: network_number_def unmap_def To4_def split: option.splits)

lemma To4_canonical: "To4 (unmap a) = None \<or> To4 (unmap a) = Some (unmap a)"
  using To4_unmap [of a] by blast

lemma unmap_idem [simp]: "unmap (unmap a) = unmap a"
  using To4_unmap [of a] unfolding unmap_def [of "unmap a"] by auto

lemma Contains_unmap: "Contains n a \<longleftrightarrow> Contains n (unmap a)"
  unfolding Contains_def unmap_def [symmetric] by simp

lemma IPNet_Contains_in_block:
  assumes "snd (network_number n) \<le> 8 * length (fst (network_number n))"
  shows "IPNet_Contains n a \<longleftrightarrow> in_block (network_number n) (unmap a)"
  unfolding IPNet_Contains_def Contains_unmap [of _ a] by (rule Contains_in_block [OF assms To4_canonical])

lemma reserved_canonical:
  "list_all (\<lambda>r. network_number r = r \<and> unmap (fst r) = fst r \<and> snd r \<le> 8 * length (fst r)) reservedNets"
  by code_simp

lemma reservedD:
  assumes "r \<in> set reservedNets"
  shows "network_number r = r" "unmap (fst r) = fst r" "snd r \<le> 8 * length (fst r)"
  using reserved_canonical assms by (auto simp: list_all_iff)

text \<open>The tests of an address and the reserved blocks.\<close>

lemma tests_unmap:
  "IsLoopback a \<longleftrightarrow> IsLoopback (unmap a)" "IsLinkLocalUnicast a \<longleftrightarrow> IsLinkLocalUnicast (unmap a)"
  "IsLinkLocalMulticast a \<longleftrightarrow> IsLinkLocalMulticast (unmap a)" "IsMulticast a \<longleftrightarrow> IsMulticast (unmap a)"
  "IsPrivate a \<longleftrightarrow> IsPrivate (unmap a)"
proof -
  consider "unmap a = a" | v where "To4 a = Some v" "unmap a = v" "To4 v = Some v"
    using To4_unmap [of a] by (cases "To4 a") (auto simp: unmap_def To4_def split: if_splits)
  then show "IsLoopback a \<longleftrightarrow> IsLoopback (unmap a)" "IsLinkLocalUnicast a \<longleftrightarrow> IsLinkLocalUnicast (unmap a)"
    "IsLinkLocalMulticast a \<longleftrightarrow> IsLinkLocalMulticast (unmap a)" "IsMulticast a \<longleftrightarrow> IsMulticast (unmap a)"
    "IsPrivate a \<longleftrightarrow> IsPrivate (unmap a)"
    by (cases; simp add: IsLoopback_def IsLinkLocalUnicast_def IsLinkLocalMulticast_def IsMulticast_def IsPrivate_def)+
qed

lemma prefix_12: "length v4_mapped_prefix = 12" "v4_mapped_prefix @ xs \<noteq> IPv6unspecified" "IPv6unspecified \<noteq> v4_mapped_prefix @ xs"
  using mapped_not_zero [of "255 # xs"] by (auto simp: v4_mapped_prefix_def IPv6unspecified_def)

lemma unspecified_4: "length v = 4 \<Longrightarrow> IsUnspecified v \<longleftrightarrow> v = [0, 0, 0, 0]"
  using prefix_12 by (auto simp: IsUnspecified_def ip_Equal_def IPv4zero_def) (simp add: IPv6unspecified_def)

lemma IsUnspecified_unmap:
  assumes "length a = 4 \<or> length a = 16"
  shows "IsUnspecified a \<longleftrightarrow> IsUnspecified (unmap a)"
proof (cases "length a = 16 \<and> take 12 a = v4_mapped_prefix")
  case True
  then have a: "a = v4_mapped_prefix @ drop 12 a" by (metis append_take_drop_id)
  have u: "unmap a = drop 12 a" "length (drop 12 a) = 4" using True by (auto simp: unmap_def To4_def)
  have "length a = length IPv6unspecified" "length a = length IPv4zero" using True prefix_12(1) by (simp_all add: IPv6unspecified_def IPv4zero_def)
  then have "IsUnspecified a \<longleftrightarrow> a = IPv4zero \<or> a = IPv6unspecified" by (simp add: IsUnspecified_def ip_Equal_def)
  also have "\<dots> \<longleftrightarrow> v4_mapped_prefix @ drop 12 a = v4_mapped_prefix @ [0, 0, 0, 0]"
    using a prefix_12(2) unfolding IPv4zero_def by metis
  finally show ?thesis unfolding u(1) unspecified_4 [OF u(2)] by simp
next
  case False
  then show ?thesis using assms by (auto simp: unmap_def To4_def)
qed

lemma unspecified_value:
  assumes "length a = 4 \<or> length a = 16"
  shows "IsUnspecified a \<longleftrightarrow> ip_value (unmap a) = 0"
proof -
  have zero: "ip_value xs = 0 \<longleftrightarrow> xs = replicate (length xs) 0" for xs
    by (induction xs) (auto simp: unat_eq_0)
  consider "length (unmap a) = 4" | "length (unmap a) = 16" "To4 (unmap a) = None"
    using assms To4_unmap [of a] by auto
  then show ?thesis
  proof cases
    case 1
    then show ?thesis unfolding IsUnspecified_unmap [OF assms] unspecified_4 [OF 1] zero by (simp add: numeral_eq_Suc)
  next
    case 2
    then have "unmap a \<noteq> IPv4zero" by (auto simp: IPv4zero_def To4_def prefix_12)
    then have "IsUnspecified (unmap a) \<longleftrightarrow> unmap a = replicate 16 0"
      using 2 by (auto simp: IsUnspecified_def ip_Equal_def IPv6unspecified_def IPv4zero_def prefix_12)
    then show ?thesis unfolding IsUnspecified_unmap [OF assms] zero using 2 by simp
  qed
qed

lemma public_iff:
  assumes "length a = 4 \<or> length a = 16"
  shows "isPublicIP (Some a) \<longleftrightarrow> \<not> IsUnspecified a \<and> (\<forall>r \<in> set reservedNets. \<not> in_block r (unmap a))"
proof -
  have blocks: "in_block r (unmap a) \<longleftrightarrow> Contains r (unmap a)" if "r \<in> set reservedNets" for r
    using Contains_in_block [OF reservedD(3) [OF that] To4_canonical] by simp
  have nat: "IPNet_Contains rfc6598CGNAT a \<longleftrightarrow> Contains ([100, 64, 0, 0], 10) (unmap a)"
    by (simp add: IPNet_Contains_def network_number_def rfc6598CGNAT_def Contains_unmap [of _ a])
  let ?t = "IsLoopback (unmap a) \<or> IsLinkLocalUnicast (unmap a) \<or> IsMulticast (unmap a) \<or> IsPrivate (unmap a)
    \<or> Contains ([100, 64, 0, 0], 10) (unmap a)"
  consider b c d e where "unmap a = [b, c, d, e]" | "length (unmap a) = 16" "To4 (unmap a) = None"
    using assms To4_unmap [of a] by (auto simp: length_4)
  then have "(?t \<longleftrightarrow> (\<exists>r \<in> set reservedNets. Contains r (unmap a)))
    \<and> (IsLinkLocalMulticast (unmap a) \<longrightarrow> IsMulticast (unmap a))"
  proof cases
    case 1
    have v6: "\<not> Contains n [b, c, d, e]" if "length (fst n) = 16" for n using that by (simp add: Contains_def To4_def)
    have "?t \<longleftrightarrow> (\<exists>r \<in> set reservedNets. Contains r (unmap a))"
      unfolding 1 by (simp add: reservedNets_def tests_v4(1,3-5,7) v6 v6_net_def IPv6loopback_def) blast
    then show ?thesis using tests_v4(6) [of b c d e] unfolding 1 by blast
  next
    case 2
    have v4: "\<not> Contains n (unmap a)" if "length (fst n) = 4" for n using that 2 by (simp add: Contains_def)
    have "?t \<longleftrightarrow> (\<exists>r \<in> set reservedNets. Contains r (unmap a))"
      using tests_v6 [OF 2] by (simp add: reservedNets_def v4) blast
    then show ?thesis using tests_v6(6) [OF 2] by blast
  qed
  then show ?thesis using blocks nat tests_unmap [of a] unfolding isPublicIP_def option.case by blast
qed

text \<open>A rule that is accepted admits public addresses only: every address of its network passes the
  test for a single public address, whatever the size of the network.\<close>

lemma accepted_network_is_public:
  assumes "ie_ParseCIDR env cidr = Some n" "ValidatePublicCIDR env cidr = Inr text" "well_formed_net n"
    "length a = 4 \<or> length a = 16" "IPNet_Contains n a"
  shows "isPublicIP (Some a)"
proof -
  let ?m = "network_number n"
  have wf: "length (fst n) = 4 \<or> length (fst n) = 16" "snd ?m \<le> 8 * length (fst ?m)"
    "ip_value (fst ?m) mod 2 ^ (8 * length (fst ?m) - snd ?m) = 0"
    using assms(3) by (auto simp: well_formed_net_def Let_def)
  have ok: "isPublicIP (Some (fst n))" "\<And>r. r \<in> set reservedNets \<Longrightarrow> \<not> cidrsOverlap n r"
    using assms(1,2) by (auto simp: ValidatePublicCIDR_def list_ex_iff split: if_splits)
  have base: "fst ?m = unmap (fst n)" by (rule network_number_fst [OF wf(1)])
  have inm: "in_block ?m (unmap a)" using assms(5) IPNet_Contains_in_block [OF wf(2)] by blast
  have "\<not> in_block r (unmap a)" if r: "r \<in> set reservedNets" for r
  proof
    assume "in_block r (unmap a)"
    with inm have "in_block ?m (fst r) \<or> in_block r (fst ?m)" by (rule blocks_nested)
    then have "cidrsOverlap n r"
      using IPNet_Contains_in_block [OF wf(2), of "fst r"] IPNet_Contains_in_block [of r "fst n"] reservedD [OF r] base
      by (simp add: cidrsOverlap_def)
    then show False using ok(2) [OF r] by blast
  qed
  moreover have "\<not> IsUnspecified a"
  proof
    assume "IsUnspecified a"
    then have "ip_value (fst ?m) div 2 ^ (8 * length (fst ?m) - snd ?m) = 0"
      using in_blockD(2) [OF inm] unspecified_value [OF assms(4)] by simp
    then have "ip_value (fst ?m) = 0" using wf(3) by (metis div_mult_mod_eq mult_is_0 add_0)
    then have "IsUnspecified (fst n)" using unspecified_value [OF wf(1)] base by simp
    then show False using ok(1) by (simp add: isPublicIP_def)
  qed
  ultimately show ?thesis using public_iff [OF assms(4)] by blast
qed

section \<open>Rules and switch\<close>

text \<open>The statements of any number of requests, in any order; workspaces come and go.\<close>

inductive allow_step :: "ip_env \<Rightarrow> allow_db \<Rightarrow> allow_db \<Rightarrow> bool" for env where
  add: "svc_AddRule env rdb flt now fresh ws cidr label createdBy (d, c) = (r, d', c') \<Longrightarrow> allow_step env d d'"
| remove: "store_RemoveRule flt ws i d = (e, d') \<Longrightarrow> allow_step env d d'"
| switch: "store_SetEnabled flt ws enabled d = (r, d') \<Longrightarrow> allow_step env d d'"
| new_workspace: "ws \<notin> fst ` set (al_workspaces d) \<Longrightarrow> \<forall>r \<in> set (al_rules d). ir_ws r \<noteq> ws \<Longrightarrow>
    allow_step env d (d\<lparr>al_workspaces := al_workspaces d @ [(ws, False)]\<rparr>)"
| drop_workspace: "allow_step env d
    \<lparr>al_workspaces = delete_rows (\<lambda>w. fst w = ws) (al_workspaces d), al_rules = delete_rows (\<lambda>r. ir_ws r = ws) (al_rules d)\<rparr>"

definition allow_reach :: "ip_env \<Rightarrow> allow_db \<Rightarrow> bool" where
  "allow_reach env d \<longleftrightarrow> (allow_step env)\<^sup>*\<^sup>* \<lparr>al_workspaces = [], al_rules = []\<rparr> d"

definition rule_ok :: "ip_env \<Rightarrow> ip_rule \<Rightarrow> bool" where
  "rule_ok env r \<longleftrightarrow> length (ir_label r) \<le> 256
     \<and> (\<exists>cidr text. ValidatePublicCIDR env cidr = Inr text \<and> ie_cidr env text = Some (ir_cidr r))"

definition allow_inv :: "ip_env \<Rightarrow> allow_db \<Rightarrow> bool" where
  "allow_inv env d \<longleftrightarrow>
     distinct (map fst (al_workspaces d)) \<and> distinct (map ir_id (al_rules d))
     \<and> distinct (map (\<lambda>r. (ir_ws r, ir_cidr r)) (al_rules d))
     \<and> (\<forall>r \<in> set (al_rules d). rule_ok env r)
     \<and> (\<forall>ws. length (rules_of d ws) \<le> 50)
     \<and> (\<forall>ws. (ws, True) \<in> set (al_workspaces d) \<longrightarrow> rules_of d ws \<noteq> [])"

lemma store_AddRule_cases:
  assumes "store_AddRule env flt now fresh rule d = (r, d')"
  obtains "d' = d" | stored row where "d' = d\<lparr>al_rules := al_rules d @ [row]\<rparr>" "ie_cidr env (ir_cidr rule) = Some stored"
    "ir_ws row = ir_ws rule" "ir_cidr row = stored" "ir_label row = ir_label rule"
    "\<forall>x \<in> set (al_rules d). ir_id x \<noteq> ir_id row \<and> \<not> (ir_ws x = ir_ws row \<and> ir_cidr x = stored)"
    "length (rules_of d (ir_ws rule)) < 50"
  using assms unfolding store_AddRule_def Let_def
  by (auto simp: MaxIPRulesPerWorkspace_def split: if_splits option.splits)

lemma svc_AddRule_cases:
  assumes "svc_AddRule env rdb flt now fresh ws cidr label createdBy (d, c) = (r, d', c')"
  obtains "d' = d" | row where "d' = d\<lparr>al_rules := al_rules d @ [row]\<rparr>" "rule_ok env row"
    "\<forall>x \<in> set (al_rules d). ir_id x \<noteq> ir_id row \<and> (ir_ws x, ir_cidr x) \<noteq> (ir_ws row, ir_cidr row)"
    "length (rules_of d (ir_ws row)) < 50"
proof (cases "ValidatePublicCIDR env cidr")
  case (Inl e)
  then show ?thesis using assms that(1) by (simp add: svc_AddRule_def)
next
  case (Inr canonical)
  let ?rule = "\<lparr>ir_id = uuid_Nil, ir_ws = ws, ir_cidr = canonical, ir_label = label, ir_created_by = createdBy, ir_created = 0\<rparr>"
  show ?thesis
  proof (cases "MaxIPRuleLabelLen < length label")
    case True
    then show ?thesis using assms Inr that(1) by (simp add: svc_AddRule_def)
  next
    case False
    obtain q where q: "store_AddRule env flt now fresh ?rule d = (q, d')"
      using assms Inr False by (auto simp: svc_AddRule_def split: prod.splits sum.splits)
    show ?thesis
    proof (rule store_AddRule_cases [OF q])
      assume "d' = d"
      then show ?thesis by (rule that(1))
    next
      fix stored row
      assume h: "d' = d\<lparr>al_rules := al_rules d @ [row]\<rparr>" "ie_cidr env (ir_cidr ?rule) = Some stored" "ir_ws row = ir_ws ?rule"
        "ir_cidr row = stored" "ir_label row = ir_label ?rule"
        "\<forall>x \<in> set (al_rules d). ir_id x \<noteq> ir_id row \<and> \<not> (ir_ws x = ir_ws row \<and> ir_cidr x = stored)"
        "length (rules_of d (ir_ws ?rule)) < 50"
      have "rule_ok env row" using h(2,4,5) Inr False by (auto simp: rule_ok_def MaxIPRuleLabelLen_def)
      then show ?thesis using h by (intro that(2) [of row]) auto
    qed
  qed
qed

lemma rules_of_append: "rules_of (d\<lparr>al_rules := al_rules d @ [r]\<rparr>) ws = rules_of d ws @ (if ir_ws r = ws then [r] else [])"
  by (simp add: rules_of_def)

lemma allow_inv_add:
  assumes "allow_inv env d" "rule_ok env row"
    "\<forall>x \<in> set (al_rules d). ir_id x \<noteq> ir_id row \<and> (ir_ws x, ir_cidr x) \<noteq> (ir_ws row, ir_cidr row)"
    "length (rules_of d (ir_ws row)) < 50"
  shows "allow_inv env (d\<lparr>al_rules := al_rules d @ [row]\<rparr>)"
  using assms unfolding allow_inv_def rules_of_append by auto

lemma allow_inv_remove:
  assumes "allow_inv env d" "store_RemoveRule flt ws i d = (e, d')"
  shows "allow_inv env d'"
proof (cases "d' = d")
  case False
  let ?p = "\<lambda>r. ir_id r = i \<and> ir_ws r = ws"
  obtain enabled where h: "map_of (al_workspaces d) ws = Some enabled" "\<not> (enabled \<and> length (rules_of d ws) = 1)"
    "d' = d\<lparr>al_rules := delete_rows ?p (al_rules d)\<rparr>"
    using assms(2) False by (auto simp: store_RemoveRule_def Let_def split: option.splits if_splits)
  have sub: "rules_of d' w = filter (\<lambda>r. \<not> ?p r) (rules_of d w)" for w
    unfolding h(3) by (simp add: rules_of_def delete_rows_def conj_commute)
  have "length (rules_of d' w) \<le> 50" for w
    using assms(1) length_filter_le [of "\<lambda>r. \<not> ?p r" "rules_of d w"] unfolding sub allow_inv_def by (meson le_trans)
  moreover have "rules_of d' w \<noteq> []" if on: "(w, True) \<in> set (al_workspaces d)" for w
  proof (cases "w = ws")
    case True
    have "map_of (al_workspaces d) ws = Some True"
      using assms(1) on True by (auto simp: allow_inv_def intro: map_of_is_SomeI)
    then have many: "length (rules_of d ws) \<noteq> 1" "rules_of d ws \<noteq> []"
      using h(1,2) assms(1) on True by (auto simp: allow_inv_def)
    then obtain x y zs where xy: "rules_of d ws = x # y # zs"
      by (cases "rules_of d ws"; cases "tl (rules_of d ws)") auto
    have "distinct (map ir_id (rules_of d ws))" using assms(1) by (auto simp: allow_inv_def rules_of_def distinct_map_filter)
    then have "ir_id x \<noteq> ir_id y" unfolding xy by simp
    then show ?thesis unfolding sub True xy by auto
  next
    case False
    then have "filter (\<lambda>r. \<not> ?p r) (rules_of d w) = rules_of d w"
      by (intro filter_True) (auto simp: rules_of_def)
    then show ?thesis using assms(1) on unfolding sub by (simp add: allow_inv_def)
  qed
  moreover have "al_workspaces d' = al_workspaces d" "al_rules d' = delete_rows ?p (al_rules d)" using h(3) by simp_all
  ultimately show ?thesis using assms(1) unfolding allow_inv_def by (auto simp: delete_rows_def distinct_map_filter)
qed (use assms in simp)

lemma allow_inv_switch:
  assumes "allow_inv env d" "store_SetEnabled flt ws enabled d = (r, d')"
  shows "allow_inv env d'"
proof (cases "d' = d")
  case False
  then have h: "enabled \<Longrightarrow> rules_of d ws \<noteq> []"
    "d' = d\<lparr>al_workspaces := update_rows (\<lambda>w. fst w = ws) (\<lambda>w. (fst w, enabled)) (al_workspaces d)\<rparr>"
    using assms(2) by (auto simp: store_SetEnabled_def split: option.splits if_splits)
  have "map fst (al_workspaces d') = map fst (al_workspaces d)" unfolding h(2) by (simp add: update_rows_def)
  moreover have "rules_of d' w \<noteq> []" if "(w, True) \<in> set (al_workspaces d')" for w
    using that h(1) assms(1) unfolding h(2) by (auto simp: allow_inv_def rules_of_def update_rows_def split: if_splits)
  moreover have "al_rules d' = al_rules d" "rules_of d' = rules_of d" using h(2) by (auto simp: rules_of_def fun_eq_iff)
  ultimately show ?thesis using assms(1) unfolding allow_inv_def by simp
qed (use assms in simp)

lemma allow_step_inv:
  assumes "allow_step env d d'" "allow_inv env d"
  shows "allow_inv env d'"
  using assms(1)
proof cases
  case (add rdb flt now fresh ws cidr label createdBy c r c')
  then show ?thesis using assms(2) by (rule_tac svc_AddRule_cases [OF add]) (auto intro: allow_inv_add)
next
  case (remove flt ws i e)
  then show ?thesis using allow_inv_remove [OF assms(2)] by blast
next
  case (switch flt ws enabled r)
  then show ?thesis using allow_inv_switch [OF assms(2)] by blast
next
  case (new_workspace ws)
  then show ?thesis using assms(2) by (auto simp: allow_inv_def rules_of_def)
next
  case (drop_workspace ws)
  let ?d = "\<lparr>al_workspaces = delete_rows (\<lambda>w. fst w = ws) (al_workspaces d), al_rules = delete_rows (\<lambda>r. ir_ws r = ws) (al_rules d)\<rparr>"
  have "rules_of ?d w = (if w = ws then [] else rules_of d w)" for w
    by (auto simp: rules_of_def delete_rows_def intro!: filter_cong)
  then show ?thesis unfolding drop_workspace using assms(2)
    by (auto simp: allow_inv_def delete_rows_def distinct_map_filter)
qed

lemma allow_reach_inv: "allow_reach env d \<Longrightarrow> allow_inv env d"
proof -
  assume "allow_reach env d"
  then have "(allow_step env)\<^sup>*\<^sup>* \<lparr>al_workspaces = [], al_rules = []\<rparr> d" by (simp add: allow_reach_def)
  then show ?thesis
  proof induction
    case base
    show ?case by (simp add: allow_inv_def rules_of_def)
  next
    case (step y z)
    then show ?case by (blast intro: allow_step_inv)
  qed
qed

text \<open>C38 (invariant).  Whatever requests of admins run one after the other or at the same time, a list that is switched on has a
  rule; a workspace has at most fifty rules, with different networks; every rule was accepted as a public
  network, and its label is short.\<close>

theorem allow_list_invariant:
  assumes "allow_reach env d"
  shows "(\<forall>ws. (ws, True) \<in> set (al_workspaces d) \<longrightarrow> rules_of d ws \<noteq> [])
    \<and> (\<forall>ws. length (rules_of d ws) \<le> 50 \<and> distinct (map ir_cidr (rules_of d ws)))
    \<and> (\<forall>r \<in> set (al_rules d). length (ir_label r) \<le> 256
        \<and> (\<exists>cidr t. ValidatePublicCIDR env cidr = Inr t \<and> ie_cidr env t = Some (ir_cidr r)))"
proof -
  note inv = allow_reach_inv [OF assms, unfolded allow_inv_def]
  have "distinct (map ir_cidr (rules_of d ws))" for ws
  proof -
    have "distinct (map (\<lambda>r. (ir_ws r, ir_cidr r)) (rules_of d ws))" using inv by (simp add: rules_of_def distinct_map_filter)
    moreover have "map (\<lambda>r. (ir_ws r, ir_cidr r)) (rules_of d ws) = map (Pair ws) (map ir_cidr (rules_of d ws))"
      by (simp add: rules_of_def)
    ultimately have "distinct (map (Pair ws) (map ir_cidr (rules_of d ws)))" by (simp only:)
    then show ?thesis unfolding distinct_map [of "Pair ws"] by (rule conjunct1)
  qed
  then show ?thesis using inv unfolding rule_ok_def by blast
qed

text \<open>A workspace with one rule, switched on.\<close>

definition sample_ip_env :: ip_env where
  "sample_ip_env = \<lparr>ie_ParseCIDR = (\<lambda>s. if s = ''8.8.8.0/24'' then Some ([8, 8, 8, 0], 24) else None),
     ie_NetString = (\<lambda>_. ''8.8.8.0/24''), ie_cidr = Some,
     ie_IPParse = (\<lambda>s. if s = ''8.8.8.8'' then Some [8, 8, 8, 8] else None), ie_SplitHostPort = (\<lambda>_. None)\<rparr>"

definition sample_rule :: ip_rule where
  "sample_rule = \<lparr>ir_id = 5, ir_ws = 7, ir_cidr = ''8.8.8.0/24'', ir_label = ''office'', ir_created_by = 2, ir_created = 1\<rparr>"

definition sample_allow :: "bool \<Rightarrow> allow_db" where
  "sample_allow on = \<lparr>al_workspaces = [(7, on)], al_rules = [sample_rule]\<rparr>"

lemma sample_validate: "ValidatePublicCIDR sample_ip_env ''8.8.8.0/24'' = Inr ''8.8.8.0/24''"
proof -
  have "isPublicIP (Some [8, 8, 8, 0])" "\<not> list_ex (cidrsOverlap ([8, 8, 8, 0], 24)) reservedNets" by code_simp+
  then show ?thesis by (simp add: ValidatePublicCIDR_def sample_ip_env_def)
qed

lemma sample_steps:
  "allow_step sample_ip_env \<lparr>al_workspaces = [], al_rules = []\<rparr> \<lparr>al_workspaces = [(7, False)], al_rules = []\<rparr>"
  "allow_step sample_ip_env \<lparr>al_workspaces = [(7, False)], al_rules = []\<rparr> (sample_allow False)"
  "allow_step sample_ip_env (sample_allow False) (sample_allow True)"
proof -
  show "allow_step sample_ip_env \<lparr>al_workspaces = [], al_rules = []\<rparr> \<lparr>al_workspaces = [(7, False)], al_rules = []\<rparr>"
    using allow_step.new_workspace [of 7 "\<lparr>al_workspaces = [], al_rules = []\<rparr>" sample_ip_env] by simp
  have "svc_AddRule sample_ip_env False no_faults 1 5 7 ''8.8.8.0/24'' ''office'' 2 (\<lparr>al_workspaces = [(7, False)], al_rules = []\<rparr>, Map.empty)
      = (Inr sample_rule, sample_allow False, Map.empty)"
    using sample_validate
    by (simp add: svc_AddRule_def store_AddRule_def Let_def MaxIPRuleLabelLen_def MaxIPRulesPerWorkspace_def rules_of_def
        sample_rule_def sample_allow_def uuid_Nil_def) (simp add: sample_ip_env_def bust_def)
  then show "allow_step sample_ip_env \<lparr>al_workspaces = [(7, False)], al_rules = []\<rparr> (sample_allow False)" by (rule allow_step.add)
  have "store_SetEnabled no_faults 7 True (sample_allow False) = (Inr False, sample_allow True)"
    by (simp add: store_SetEnabled_def sample_allow_def rules_of_def sample_rule_def update_rows_def)
  then show "allow_step sample_ip_env (sample_allow False) (sample_allow True)" by (rule allow_step.switch)
qed

lemma sample_reach: "allow_reach sample_ip_env (sample_allow True)"
  unfolding allow_reach_def
  by (rule rtranclp.rtrancl_into_rtrancl [OF rtranclp.rtrancl_into_rtrancl [OF r_into_rtranclp]]) (rule sample_steps)+

theorem allow_list_invariant_witness:
  "rules_of (sample_allow True) 7 \<noteq> [] \<and> length (rules_of (sample_allow True) 7) \<le> 50"
  using allow_list_invariant [OF sample_reach] by (simp add: sample_allow_def)

lemma sample_trim: "TrimSpace ''8.8.8.8'' = ''8.8.8.8''"
  by (rule TrimSpace_visible) (simp add: visible_def)

section \<open>Requests and the cache\<close>

text \<open>
  The rules change while requests load snapshots and write them to the cache, where they may be lost, damaged
  or dropped at any time.  A snapshot is written at most \<open>stall\<close> after it was read; the code has no such bound.
  \<open>ay_past\<close> records what the store held, and when.
\<close>

record allow_sys =
  ay_db :: allow_db
  ay_cache :: ip_cache
  ay_now :: time
  ay_loads :: "(uuid \<times> ip_snapshot \<times> time) list"
  ay_past :: "(time \<times> allow_db) list"

inductive allow_sys_step :: "ip_env \<Rightarrow> time \<Rightarrow> allow_sys \<Rightarrow> allow_sys \<Rightarrow> bool" for env stall where
  tick: "ay_now s \<le> t \<Longrightarrow> allow_sys_step env stall s (s\<lparr>ay_now := t, ay_past := (t, ay_db s) # ay_past s\<rparr>)"
| change: "allow_step env (ay_db s) d \<Longrightarrow> allow_sys_step env stall s (s\<lparr>ay_db := d, ay_past := (ay_now s, d) # ay_past s\<rparr>)"
| read: "loadFromStore flt (ay_db s) ws = Inr snap \<Longrightarrow>
    allow_sys_step env stall s (s\<lparr>ay_loads := (ws, snap, ay_now s) # ay_loads s\<rparr>)"
| store: "(ws, snap, t) \<in> set (ay_loads s) \<Longrightarrow> ay_now s \<le> t + stall \<Longrightarrow>
    allow_sys_step env stall s (s\<lparr>ay_cache := writeCache rdb flt (ay_now s) ws snap (ay_cache s)\<rparr>)"
| lose: "allow_sys_step env stall s (s\<lparr>ay_cache := bust rdb flt ws (ay_cache s)\<rparr>)"
| damage: "allow_sys_step env stall s (s\<lparr>ay_cache := (ay_cache s)(ws \<mapsto> (None, t))\<rparr>)"

definition allow_init :: allow_sys where
  "allow_init = \<lparr>ay_db = \<lparr>al_workspaces = [], al_rules = []\<rparr>, ay_cache = Map.empty, ay_now = 0, ay_loads = [],
     ay_past = [(0, \<lparr>al_workspaces = [], al_rules = []\<rparr>)]\<rparr>"

definition held :: "allow_sys \<Rightarrow> time \<Rightarrow> uuid \<Rightarrow> ip_snapshot \<Rightarrow> bool" where
  "held s t ws snap \<longleftrightarrow> (\<exists>d. (t, d) \<in> set (ay_past s) \<and> loadFromStore no_faults d ws = Inr snap)"

definition cache_inv :: "ip_env \<Rightarrow> time \<Rightarrow> allow_sys \<Rightarrow> bool" where
  "cache_inv env stall s \<longleftrightarrow>
     (ay_now s, ay_db s) \<in> set (ay_past s)
     \<and> (\<forall>(t, d) \<in> set (ay_past s). t \<le> ay_now s \<and> allow_reach env d)
     \<and> (\<forall>(ws, snap, t) \<in> set (ay_loads s). held s t ws snap)
     \<and> (\<forall>ws snap e. ay_cache s ws = Some (Some snap, e) \<longrightarrow> (\<exists>t. held s t ws snap \<and> e \<le> t + stall + ipAllowCacheTTL))"

lemma held_mono: "set (ay_past s) \<subseteq> set (ay_past s') \<Longrightarrow> held s t ws snap \<Longrightarrow> held s' t ws snap"
  unfolding held_def by blast

lemma loadFromStore_ok: "loadFromStore flt d ws = Inr snap \<Longrightarrow> loadFromStore no_faults d ws = Inr snap"
  by (auto simp: loadFromStore_def LoadSnapshot_def split: if_splits sum.splits option.splits)

lemma cache_inv_past:
  assumes "cache_inv env stall s" "ay_cache s' = ay_cache s" "ay_loads s' = ay_loads s"
    "ay_past s' = (ay_now s', ay_db s') # ay_past s" "ay_now s \<le> ay_now s'" "allow_reach env (ay_db s')"
  shows "cache_inv env stall s'"
proof -
  have mono: "held s t ws snap \<Longrightarrow> held s' t ws snap" for t ws snap
    using assms(4) by (intro held_mono [of s s']) auto
  have "\<forall>(t, d) \<in> set (ay_past s'). t \<le> ay_now s' \<and> allow_reach env d"
    using assms(1,4,5,6) unfolding cache_inv_def by fastforce
  moreover have "\<forall>(ws, snap, t) \<in> set (ay_loads s'). held s' t ws snap"
    using assms(1,3) mono unfolding cache_inv_def by fastforce
  moreover have "\<exists>t. held s' t ws snap \<and> e \<le> t + stall + ipAllowCacheTTL" if "ay_cache s' ws = Some (Some snap, e)" for ws snap e
    using assms(1,2) mono that unfolding cache_inv_def by metis
  ultimately show ?thesis using assms(4) unfolding cache_inv_def by simp
qed

lemma cache_inv_step:
  assumes "allow_sys_step env stall s s'" "cache_inv env stall s"
  shows "cache_inv env stall s'"
  using assms(1)
proof cases
  case (tick t)
  then show ?thesis using assms(2) by (intro cache_inv_past [OF assms(2)]) (auto simp: cache_inv_def)
next
  case (change d)
  have "allow_reach env (ay_db s)" using assms(2) by (auto simp: cache_inv_def)
  then have "allow_reach env d" using change(2) unfolding allow_reach_def by (rule rtranclp.rtrancl_into_rtrancl)
  then show ?thesis using change(1) by (intro cache_inv_past [OF assms(2)]) auto
next
  case (read flt ws snap)
  have "held s (ay_now s) ws snap"
    using assms(2) loadFromStore_ok [OF read(2)] by (auto simp: cache_inv_def held_def)
  then show ?thesis using assms(2) read(1) by (simp add: cache_inv_def held_def)
next
  case (store ws snap t rdb flt)
  then have "held s t ws snap" using assms(2) unfolding cache_inv_def by fastforce
  then show ?thesis using assms(2) store(1,3) by (fastforce simp: cache_inv_def held_def writeCache_def)
next
  case (lose rdb flt ws)
  then show ?thesis using assms(2) by (auto simp: cache_inv_def held_def bust_def)
next
  case (damage ws t)
  then show ?thesis using assms(2) by (auto simp: cache_inv_def held_def)
qed

lemma cache_inv_reach:
  assumes "(allow_sys_step env stall)\<^sup>*\<^sup>* allow_init s"
  shows "cache_inv env stall s"
  using assms
proof induction
  case base
  show ?case by (simp add: allow_init_def cache_inv_def allow_reach_def)
next
  case (step y z)
  then show ?case by (blast intro: cache_inv_step)
qed

text \<open>What the code relies on of the parsers and of Postgres: networks and addresses are well formed, and the text
  that Postgres gives back for a stored network is parsed to this network.\<close>

definition ip_env_ok :: "ip_env \<Rightarrow> bool" where
  "ip_env_ok env \<longleftrightarrow>
     (\<forall>s n. ie_ParseCIDR env s = Some n \<longrightarrow> well_formed_net n)
     \<and> (\<forall>s n t. ie_ParseCIDR env s = Some n \<and> ie_cidr env (ie_NetString env n) = Some t \<longrightarrow> ie_ParseCIDR env t = Some (network_number n))
     \<and> (\<forall>s a. ie_IPParse env s = Some a \<longrightarrow> length a = 4 \<or> length a = 16)"

lemma network_number_idem [simp]: "network_number (network_number n) = network_number n"
  by (auto simp: network_number_def To4_def split: option.splits if_splits)

lemma rule_admits_public:
  assumes "rule_ok env r" "ip_env_ok env" "ie_ParseCIDR env (ir_cidr r) = Some n" "IPNet_Contains n a" "length a = 4 \<or> length a = 16"
  shows "isPublicIP (Some a)"
proof -
  obtain cidr t where t: "ValidatePublicCIDR env cidr = Inr t" "ie_cidr env t = Some (ir_cidr r)"
    using assms(1) by (auto simp: rule_ok_def)
  then obtain m where m: "ie_ParseCIDR env cidr = Some m" "t = ie_NetString env m"
    by (auto simp: ValidatePublicCIDR_def split: option.splits if_splits)
  have "ie_ParseCIDR env (ir_cidr r) = Some (network_number m)" "well_formed_net m"
    using assms(2) m t(2) unfolding ip_env_ok_def by blast+
  then have "IPNet_Contains m a" using assms(3,4) by (simp add: IPNet_Contains_def)
  then show ?thesis using accepted_network_is_public [OF m(1) t(1) \<open>well_formed_net m\<close> assms(5)] by blast
qed

lemma snapshot_held:
  assumes "cache_inv env stall s" "snapshot rdb flt (ay_now s) (ay_db s) ws (ay_cache s) = (Inr snap, c)" "0 \<le> stall"
  shows "\<exists>t d. (t, d) \<in> set (ay_past s) \<and> ay_now s \<le> t + stall + ipAllowCacheTTL \<and> loadFromStore no_faults d ws = Inr snap"
proof (cases "if rdb \<and> \<not> flt ''redis read'' then cache_get (ay_cache s) (ay_now s) ws else None")
  case None
  then have "loadFromStore flt (ay_db s) ws = Inr snap"
    using assms(2) by (auto simp: snapshot_def split: sum.splits)
  then show ?thesis using assms(1,3) loadFromStore_ok
    by (intro exI [of _ "ay_now s"] exI [of _ "ay_db s"]) (auto simp: cache_inv_def ipAllowCacheTTL_def)
next
  case (Some x)
  then have "cache_get (ay_cache s) (ay_now s) ws = Some snap" using assms(2) by (auto simp: snapshot_def split: if_splits)
  then obtain e where "ay_cache s ws = Some (Some snap, e)" "ay_now s < e"
    by (auto simp: cache_get_def split: option.splits if_splits)
  then show ?thesis using assms(1) unfolding cache_inv_def held_def by fastforce
qed

text \<open>C39 (safety).  If a request passes, then at some instant not further back than the lifetime of a cached snapshot and
  the time a request takes to write one, the list of its workspace was switched off, or it had a rule that
  covers the address of the client, and that address is public.\<close>

theorem passed_request_was_allowed:
  assumes "(allow_sys_step env stall)\<^sup>*\<^sup>* allow_init s" "ip_env_ok env" "0 \<le> stall"
    "IPAllowlist env True rdb flt (ay_now s) (ay_db s) depth rq (ay_cache s) = (PassOn, c)"
  shows "\<exists>ws t d. rq_workspace rq = Some ws \<and> (t, d) \<in> set (ay_past s) \<and> ay_now s \<le> t + stall + 30 * 1000000000
    \<and> (map_of (al_workspaces d) ws = Some False
       \<or> (\<exists>ip r n. ClientIPFromRequest env rq depth = Some ip \<and> r \<in> set (rules_of d ws)
            \<and> ie_ParseCIDR env (ir_cidr r) = Some n \<and> IPNet_Contains n ip \<and> isPublicIP (Some ip)))"
proof -
  note inv = cache_inv_reach [OF assms(1)]
  obtain ws snap where ws: "rq_workspace rq = Some ws"
    and snap: "snapshot rdb flt (ay_now s) (ay_db s) ws (ay_cache s) = (Inr snap, c)"
    and ok: "check_snapshot env snap (ClientIPFromRequest env rq depth) = None"
    using assms(4) by (auto simp: IPAllowlist_def CheckAccess_ip_def split: option.splits prod.splits sum.splits if_splits)
  obtain t d where td: "(t, d) \<in> set (ay_past s)" "ay_now s \<le> t + stall + ipAllowCacheTTL" "loadFromStore no_faults d ws = Inr snap"
    using snapshot_held [OF inv snap assms(3)] by blast
  have rules: "\<forall>r \<in> set (rules_of d ws). rule_ok env r"
    using inv td(1) allow_reach_inv [of env d] by (auto simp: cache_inv_def allow_inv_def rules_of_def)
  obtain e where e: "map_of (al_workspaces d) ws = Some e"
    "snap = \<lparr>sn_enabled = e, sn_cidrs = (if e then map ir_cidr (sort_key ir_created (rules_of d ws)) else [])\<rparr>"
    using td(3) by (auto simp: loadFromStore_def LoadSnapshot_def split: option.splits)
  show ?thesis
  proof (cases e)
    case False
    then show ?thesis using ws td(1,2) e(1) by (auto simp: ipAllowCacheTTL_def)
  next
    case True
    obtain ip r n where h: "ClientIPFromRequest env rq depth = Some ip" "r \<in> set (rules_of d ws)"
      "ie_ParseCIDR env (ir_cidr r) = Some n" "IPNet_Contains n ip"
      using ok e(2) True by (auto simp: check_snapshot_def list_ex_iff split: option.splits if_splits)
    have "length ip = 4 \<or> length ip = 16"
      using h(1) assms(2) unfolding ip_env_ok_def ClientIPFromRequest_def forwarded_ip_def ipFromRemoteAddr_def Let_def
      by (auto split: option.splits if_splits)
    then have "isPublicIP (Some ip)" using rule_admits_public [OF _ assms(2) h(3,4)] rules h(2) by blast
    then show ?thesis using ws td(1,2) h unfolding ipAllowCacheTTL_def by blast
  qed
qed

text \<open>A request from an address of the rule.\<close>

definition sample_sys :: allow_sys where
  "sample_sys = \<lparr>ay_db = sample_allow True, ay_cache = Map.empty, ay_now = 0, ay_loads = [],
     ay_past = [(0, sample_allow True), (0, sample_allow False), (0, \<lparr>al_workspaces = [(7, False)], al_rules = []\<rparr>),
       (0, \<lparr>al_workspaces = [], al_rules = []\<rparr>)]\<rparr>"

definition sample_request :: http_request where
  "sample_request = \<lparr>rq_workspace = Some 7, rq_forwarded = [], rq_RemoteAddr = ''8.8.8.8''\<rparr>"

lemma sample_sys_reach: "(allow_sys_step sample_ip_env 0)\<^sup>*\<^sup>* allow_init sample_sys"
proof -
  have steps: "(allow_sys_step sample_ip_env 0)\<^sup>*\<^sup>* s (s\<lparr>ay_db := d, ay_past := (ay_now s, d) # ay_past s\<rparr>)"
    if "allow_step sample_ip_env (ay_db s) d" for s d using allow_sys_step.change [OF that] by (rule r_into_rtranclp)
  let ?a = "allow_init\<lparr>ay_db := \<lparr>al_workspaces = [(7, False)], al_rules = []\<rparr>,
    ay_past := (0, \<lparr>al_workspaces = [(7, False)], al_rules = []\<rparr>) # ay_past allow_init\<rparr>"
  let ?b = "?a\<lparr>ay_db := sample_allow False, ay_past := (0, sample_allow False) # ay_past ?a\<rparr>"
  have "(allow_sys_step sample_ip_env 0)\<^sup>*\<^sup>* allow_init ?a"
    using steps [of allow_init] sample_steps(1) by (simp add: allow_init_def)
  moreover have "(allow_sys_step sample_ip_env 0)\<^sup>*\<^sup>* ?a ?b"
    using steps [of ?a] sample_steps(2) by (simp add: allow_init_def)
  moreover have "(allow_sys_step sample_ip_env 0)\<^sup>*\<^sup>* ?b sample_sys"
    using steps [of ?b] sample_steps(3) by (simp add: allow_init_def sample_sys_def)
  ultimately show ?thesis by (meson rtranclp_trans)
qed

lemma sample_ip_env_ok: "ip_env_ok sample_ip_env"
proof -
  have "well_formed_net ([8, 8, 8, 0], 24)" by (simp add: well_formed_net_def network_number_def)
  then show ?thesis by (simp add: ip_env_ok_def sample_ip_env_def network_number_def)
qed

lemma sample_passes:
  "IPAllowlist sample_ip_env True False no_faults (ay_now sample_sys) (ay_db sample_sys) 0 sample_request (ay_cache sample_sys) = (PassOn, Map.empty)"
proof -
  have c: "Contains ([8, 8, 8, 0], 24) [8, 8, 8, 8]" by code_simp
  have addr: "ClientIPFromRequest sample_ip_env sample_request 0 = Some [8, 8, 8, 8]"
    by (simp add: ClientIPFromRequest_def forwarded_ip_def ipFromRemoteAddr_def sample_ip_env_def sample_request_def
        TrimPrefix_def TrimSuffix_def suffix_def)
  have "loadFromStore no_faults (ay_db sample_sys) 7 = Inr \<lparr>sn_enabled = True, sn_cidrs = [''8.8.8.0/24'']\<rparr>"
    by (simp add: loadFromStore_def LoadSnapshot_def sample_sys_def sample_allow_def rules_of_def sample_rule_def)
  moreover have "check_snapshot sample_ip_env \<lparr>sn_enabled = True, sn_cidrs = [''8.8.8.0/24'']\<rparr> (Some [8, 8, 8, 8]) = None"
    using c by (simp add: check_snapshot_def sample_ip_env_def IPNet_Contains_def network_number_def)
  ultimately show ?thesis
    using addr by (simp add: IPAllowlist_def CheckAccess_ip_def snapshot_def writeCache_def sample_request_def) (simp add: sample_sys_def)
qed

theorem passed_request_was_allowed_witness:
  "\<exists>ws t d. rq_workspace sample_request = Some ws \<and> (t, d) \<in> set (ay_past sample_sys) \<and> ay_now sample_sys \<le> t + 0 + 30 * 1000000000
    \<and> (map_of (al_workspaces d) ws = Some False
       \<or> (\<exists>ip r n. ClientIPFromRequest sample_ip_env sample_request 0 = Some ip \<and> r \<in> set (rules_of d ws)
            \<and> ie_ParseCIDR sample_ip_env (ir_cidr r) = Some n \<and> IPNet_Contains n ip \<and> isPublicIP (Some ip)))"
  by (rule passed_request_was_allowed [OF sample_sys_reach sample_ip_env_ok _ sample_passes]) simp

section \<open>The address of a request\<close>

lemma Split_not_Nil [simp]: "Split c s \<noteq> []"
  by (induction s) (auto split: list.splits)

lemma Split_append_both: "Split c (u @ c # v) = Split c u @ Split c v"
  by (induction u) (auto split: list.splits)

lemma Split_JoinByte:
  "ss \<noteq> [] \<Longrightarrow> Split c (JoinByte c ss) = concat (map (Split c) ss)"
  by (induction c ss rule: JoinByte.induct) (simp_all add: Split_append_both)

text \<open>C40 (safety).  Behind as many proxies as configured, each of which appends one entry to the header, the request
  is attributed to what the outermost of them appended, or to its connection if that is no address: nothing a
  client puts into the header before, in lines of its own or in one line with the entries of the proxies, has any effect.\<close>

theorem claimed_entries_are_ignored:
  assumes "entries \<noteq> []" "\<forall>e \<in> set entries. CHR '','' \<notin> set e"
  shows "ClientIPFromRequest env (r\<lparr>rq_forwarded := claimed @ entries\<rparr>) (int (length entries)) =
      (case ie_IPParse env (TrimSpace (hd entries)) of Some ip \<Rightarrow> Some ip | None \<Rightarrow> ipFromRemoteAddr env (rq_RemoteAddr r))
    \<and> ClientIPFromRequest env (r\<lparr>rq_forwarded := [JoinByte CHR '','' (claimed @ entries)]\<rparr>) (int (length entries)) =
      (case ie_IPParse env (TrimSpace (hd entries)) of Some ip \<Rightarrow> Some ip | None \<Rightarrow> ipFromRemoteAddr env (rq_RemoteAddr r))"
proof -
  have "concat (map (Split CHR '','') entries) = entries" using assms(2) by (induction entries) auto
  then have parts: "Split CHR '','' (JoinByte CHR '','' (claimed @ entries)) = concat (map (Split CHR '','') claimed) @ entries"
    using assms(1) by (simp add: Split_JoinByte)
  have "forwarded_ip env vs (int (length entries)) = ie_IPParse env (TrimSpace (hd entries))"
    if "vs \<noteq> []" "JoinByte CHR '','' vs = JoinByte CHR '','' (claimed @ entries)" for vs
    using that assms(1) unfolding forwarded_ip_def Let_def that(2) parts by (simp add: nth_append hd_conv_nth)
  then show ?thesis using assms(1) by (simp add: ClientIPFromRequest_def split: option.splits)
qed

theorem claimed_entries_are_ignored_witness:
  "ClientIPFromRequest sample_ip_env \<lparr>rq_workspace = Some 7, rq_forwarded = [''10.0.0.1, 127.0.0.1''] @ [''8.8.8.8''], rq_RemoteAddr = ''10.1.1.1:80''\<rparr>
     (int (length [''8.8.8.8''])) = Some [8, 8, 8, 8]"
  using claimed_entries_are_ignored [of "[''8.8.8.8'']" sample_ip_env "[''10.0.0.1, 127.0.0.1'']"
      "\<lparr>rq_workspace = Some 7, rq_forwarded = [], rq_RemoteAddr = ''10.1.1.1:80''\<rparr>"]
  by (simp add: sample_trim) (simp add: sample_ip_env_def)

section \<open>The requests of admins\<close>

lemma store_errors:
  "store_AddRule env flt now fresh rule d = (Inl e, d') \<Longrightarrow> d' = d"
  "store_RemoveRule flt ws i d = (Some e', d') \<Longrightarrow> d' = d"
  "store_SetEnabled flt ws enabled d = (Inl e, d') \<Longrightarrow> d' = d"
  by (auto simp: store_AddRule_def store_RemoveRule_def store_SetEnabled_def Let_def split: option.splits if_splits)

lemma svc_errors:
  "svc_AddRule env rdb flt now fresh ws cidr label createdBy s = (Inl e, s') \<Longrightarrow> s' = s"
  "svc_RemoveRule rdb flt ws i s = (Some e', s') \<Longrightarrow> s' = s"
  "svc_SetEnabled rdb flt ws enabled s = (Inl e, s') \<Longrightarrow> s' = s"
proof -
  show "svc_RemoveRule rdb flt ws i s = (Some e', s') \<Longrightarrow> s' = s"
    using store_errors(2) [of flt ws i "fst s"] by (auto simp: svc_RemoveRule_def split: prod.splits option.splits)
  show "svc_SetEnabled rdb flt ws enabled s = (Inl e, s') \<Longrightarrow> s' = s"
    using store_errors(3) [of flt ws enabled "fst s"]
    by (auto simp: svc_SetEnabled_def split: prod.splits sum.splits if_splits)
  show "svc_AddRule env rdb flt now fresh ws cidr label createdBy s = (Inl e, s') \<Longrightarrow> s' = s"
    by (cases s) (auto simp: svc_AddRule_def split: prod.splits sum.splits if_splits dest!: store_errors(1))
qed

text \<open>A request of an admin that is answered with an error changes neither rules nor switch nor cache and leaves no
  audit entry; one that succeeds leaves exactly one.\<close>

definition settled :: "allow_db \<times> ip_cache \<Rightarrow> ip_result \<Rightarrow> bool" where
  "settled s r \<longleftrightarrow> 400 \<le> ia_status r \<and> ia_audit r = None \<and> ia_state r = s \<or> ia_status r < 300 \<and> ia_audit r \<noteq> None"

lemma settled_failed [simp]: "400 \<le> code \<Longrightarrow> settled s (ip_failed code msg s)"
  by (simp add: settled_def ip_failed_def)

lemma ip_admin_outcome:
  "settled s (AddIPAllowRule env fmt rdb flt now fresh ctx body s)"
  "settled s (RemoveIPAllowRule rdb flt ctx i s)"
  "settled s (UpdateIPAllowPolicy rdb flt ctx on s)"
proof -
  have ok: "settled s \<lparr>ia_status = code, ia_body = b, ia_audit = Some act, ia_state = s'\<rparr>" if "code < 300" for code b act s'
    using that by (simp add: settled_def)
  have add: "settled s (case svc_AddRule env rdb flt now fresh ws cidr label actor s of
      (Inl e, s) \<Rightarrow> (case e of ErrInvalidCIDR \<Rightarrow> ip_failed 400 m1 s | ErrPrivateCIDR \<Rightarrow> ip_failed 400 m2 s
        | ErrLabelTooLong \<Rightarrow> ip_failed 400 m3 s | ErrTooManyRules \<Rightarrow> ip_failed 409 m4 s | ErrDuplicateCIDR \<Rightarrow> ip_failed 409 m5 s
        | _ \<Rightarrow> ip_failed 500 m6 s)
    | (Inr rule, s) \<Rightarrow> \<lparr>ia_status = 201, ia_body = b rule, ia_audit = Some (act rule), ia_state = s\<rparr>)"
    for ws cidr label actor m1 m2 m3 m4 m5 m6 b act
  proof -
    obtain q s' where "svc_AddRule env rdb flt now fresh ws cidr label actor s = (q, s')" using prod.exhaust by blast
    then show ?thesis using svc_errors(1) [of env rdb flt now fresh ws cidr label actor s] ok
      by (cases q) (auto split: ip_error.splits)
  qed
  show "settled s (AddIPAllowRule env fmt rdb flt now fresh ctx body s)"
    unfolding AddIPAllowRule_def Let_def
    by (simp add: add split: option.split prod.split)
  have rem: "settled s (case svc_RemoveRule rdb flt ws i s of
      (Some e, s) \<Rightarrow> (case e of IPErrNotFound \<Rightarrow> ip_failed 404 m1 s | ErrCannotRemoveLastRule \<Rightarrow> ip_failed 409 m2 s | _ \<Rightarrow> ip_failed 500 m3 s)
    | (None, s) \<Rightarrow> \<lparr>ia_status = 204, ia_body = b, ia_audit = Some act, ia_state = s\<rparr>)" for ws i m1 m2 m3 b act
  proof -
    obtain q s' where "svc_RemoveRule rdb flt ws i s = (q, s')" using prod.exhaust by blast
    then show ?thesis using svc_errors(2) [of rdb flt ws i s] ok by (cases q) (auto split: ip_error.splits)
  qed
  show "settled s (RemoveIPAllowRule rdb flt ctx i s)"
    unfolding RemoveIPAllowRule_def by (simp add: rem split: option.split)
  have swi: "settled s (case svc_SetEnabled rdb flt ws on s of
      (Inl e, s) \<Rightarrow> (case e of IPErrNotFound \<Rightarrow> ip_failed 404 m1 s | ErrNoRulesToEnable \<Rightarrow> ip_failed 409 m2 s | _ \<Rightarrow> ip_failed 500 m3 s)
    | (Inr prev, s) \<Rightarrow> \<lparr>ia_status = 200, ia_body = b, ia_audit = Some (act prev), ia_state = s\<rparr>)" for ws on m1 m2 m3 b act
  proof -
    obtain q s' where "svc_SetEnabled rdb flt ws on s = (q, s')" using prod.exhaust by blast
    then show ?thesis using svc_errors(3) [of rdb flt ws on s] ok by (cases q) (auto split: ip_error.splits)
  qed
  show "settled s (UpdateIPAllowPolicy rdb flt ctx on s)"
    unfolding UpdateIPAllowPolicy_def by (simp add: swi split: option.split)
qed

end
