(* ===== verification/Spec2Isabelle.thy ===== *)
theory Spec2Isabelle
  imports Folder_Properties Permission_Properties Cache_Coherence File_Properties Orphan_GC Sharing_Properties Room_Properties
    Audit_Properties Archive_Properties Totp_Properties Session_Properties Document_Properties
    Webhook_Properties Changefeed_Properties Ip_Allow_Properties
begin

text \<open>
  ZK Drive keeps the files of many workspaces in object storage and their metadata in
  Postgres.  The server's core is a set of services over the metadata tables, each a package
  under \<^verbatim>\<open>internal/\<close> with a repository (the SQL) and a service (the rules).  This
  development models these services, function by function, and proves what they promise.

  \<^bold>\<open>Modelling.\<close>  The database is a record of tables, a table a list of rows, a row a record
  with the columns of the Go struct (theory \<^verbatim>\<open>Schema\<close>; the audit log has tables of its
  own).  A repository method is a function from the database to its result and the new
  database; the constraints of the schema (\<^verbatim>\<open>migrations/\<close>: unique indexes, foreign
  keys, checks) that the code relies on are error branches of the method.  Theory \<^verbatim>\<open>Sql\<close>
  has what the statements share: updates and deletes of the rows that satisfy a condition,
  \<^verbatim>\<open>LIKE\<close>, and recursive queries, which may run forever (the result \<^const>\<open>None\<close>), so
  that their return is a theorem.  Every database, cache or storage call may fail: a value of
  type \<^typ>\<open>faults\<close> tells which calls do, by name, and theorems quantify over it; where
  calls repeat in a loop, each turn has its own.  Errors are values of a sum type, clocks and
  fresh identifiers are arguments, identifiers are natural numbers, times are nanoseconds,
  strings are byte lists.  Concurrency is modelled where the code is written for it: as
  interleaved steps (cache, share links), as changes by others between two statements
  (collection of orphans, verification of the audit chain), or as the row lock that
  serialises the transactions (audit log).  Code outside the repository (bcrypt,
  HMAC-SHA256, JSON, gzip, address syntax, UUID text, the collation of Postgres) is a
  parameter.

  \<^bold>\<open>Components.\<close>
  \<^item> \<^bold>\<open>Prelude\<close>, \<^bold>\<open>Sql\<close>, \<^bold>\<open>Schema\<close>, \<^bold>\<open>Decimal\<close>: types, Go's \<^verbatim>\<open>strings\<close> functions,
    SQL, the tables, decimal numbers with their round trip.
  \<^item> \<^bold>\<open>Folders\<close> (\<^verbatim>\<open>internal/folder\<close>): repository and service.  \<^bold>\<open>Folder_Tree\<close> has the
    invariant (a forest whose paths spell the names on the way from the root), \<^bold>\<open>Folder_Service\<close>
    its preservation by every operation and the contract of a collation, a locale;
    \<^bold>\<open>Folder_Properties\<close> the properties: the invariant in all reachable states, the
    cycle test of a move, what a move and a delete change, one encryption mode per tree, the
    escaping of \<^verbatim>\<open>LIKE\<close> patterns, the order of ancestors.
  \<^item> \<^bold>\<open>Permissions\<close> (\<^verbatim>\<open>internal/permission\<close>: models, repository, service).
    \<^bold>\<open>Permission_Rules\<close> states the rule most-specific-wins and proves the row loop of
    \<^verbatim>\<open>CheckAccessWithInheritance\<close> to implement it; \<^bold>\<open>Permission_Properties\<close> has
    the rule for folders and files, decisions under failures, isolation of workspaces,
    expiry.
  \<^item> \<^bold>\<open>Permission_Cache\<close> (\<^verbatim>\<open>internal/permission/cache.go\<close>): generations and cached
    decisions in Redis, with the contract of identifier texts.  \<^bold>\<open>Cache_System\<close> has a system of
    replicas as a step relation, in which checks, changes and busts interleave command by command, commands
    of Redis fail and replies are lost, and its invariant.  A decision of the repository counts as one
    read, requests take at most \<open>lim\<close>, there is one clock, and Redis loses keys by expiry only.
    \<^bold>\<open>Cache_Coherence\<close> links these steps to the functions of \<^bold>\<open>Permission_Cache\<close> and has the
    properties: how old a cached decision can be, with and without counted increments, when a revocation
    takes effect on its own and on other replicas, and a lost update of the local generation.
  \<^item> \<^bold>\<open>Files\<close> (\<^verbatim>\<open>internal/file\<close>), \<^bold>\<open>Orphan_GC\<close> (\<^verbatim>\<open>internal/gc\<close>) and
    \<^bold>\<open>File_Properties\<close>: uploads confirmed during a collection, its counters,
    the invariant of files, versions and tags, confirmations repeated at any later time, the listing of a
    subtree against the cascade of a delete.
  \<^item> \<^bold>\<open>Sharing\<close> (\<^verbatim>\<open>internal/sharing\<close>): share links, guest invites, client rooms,
    templates.  \<^bold>\<open>Sharing_Properties\<close> states what sharing relies on of the permission service as
    a locale, interpreted on the model of that service, and has the properties: download caps
    under concurrency, the condition for resolving a link, invites created, revoked and
    expired.  \<^bold>\<open>Room_Properties\<close> has those of client rooms.
  \<^item> \<^bold>\<open>Audit_Log\<close> (\<^verbatim>\<open>internal/audit\<close>: audit, chain, repository, service).  \<^bold>\<open>Audit_Chain\<close>
    has the encoding of entries, from a locale of self-delimiting fields; \<^bold>\<open>Audit_Properties\<close>
    the properties: injectivity, honest logs verify, tampering with the entries shows (and with the chain heads as
    well need not), and three ways in which
    an entry is lost or an untouched log fails to verify.
  \<^item> \<^bold>\<open>Audit_Archive\<close> (\<^verbatim>\<open>internal/audit\<close>: archive_repository, archive) and
    \<^bold>\<open>Archive_Properties\<close>: no row is lost, the counters add up, and what a run that
    stops half-way does to the chain.
  \<^item> \<^bold>\<open>Totp\<close> (\<^verbatim>\<open>internal/totp\<close>): enrolment, one-time codes, recovery codes.
    \<^bold>\<open>Totp_Properties\<close>: a recovery code is burned once in every interleaving, what is generated is
    accepted in every layout; a one-time code is not protected against replay, and disabling the
    second factor keeps the recovery codes.
  \<^item> \<^bold>\<open>Sessions\<close> (\<^verbatim>\<open>internal/session\<close>): the store in memory, the store in Redis with
    the commands it uses, the store that fails over from one to the other and its recovery loop.
    \<^bold>\<open>Session_Contract\<close> has the abstract specification of a session store and its interface as a
    locale, with the store in memory as an instance, \<^bold>\<open>Session_Redis\<close> the store in Redis as
    another; \<^bold>\<open>Session_Failover\<close> has several replicas over one Redis as a step relation.
    \<^bold>\<open>Session_Properties\<close>: the stores answer as the specification does (but for what the store in memory
    says of the revocation of an expired session), a revocation made during an outage survives every recovery
    whose replay fails by lost connectivity at most, and is lost if the replay runs out of time.
  \<^item> \<^bold>\<open>Documents\<close> (\<^verbatim>\<open>internal/document\<close>, and the folds of \<^verbatim>\<open>internal/collab\<close>): documents,
    their update logs and snapshots, compaction.  \<^bold>\<open>Document_Content\<close> has requests and compactions
    in any interleaving as a step relation, the invariant of a running compaction, and the contract
    of a fold as a locale.  \<^bold>\<open>Collab\<close> (\<^verbatim>\<open>internal/collab\<close>: protocol, hub) has the frames and
    the rooms of connected editors.  \<^bold>\<open>Document_Properties\<close>: modes within the encryption mode of
    the folder, compactions keep the content, two ways in which updates get lost, frames decode,
    who receives an update, and the update a connecting editor misses.
  \<^item> \<^bold>\<open>Webhook_Address\<close>, \<^bold>\<open>Webhook_Signer\<close>, \<^bold>\<open>Webhooks\<close> (\<^verbatim>\<open>internal/webhooks\<close>): the addresses
    that may be contacted, with the byte masks of package net as words and the blocks they stand for as
    ranges of numbers; signatures; subscriptions, one delivery, test deliveries.
    \<^bold>\<open>Webhook_Worker\<close> has the worker, its message handler (\<^verbatim>\<open>cmd/worker\<close>) and the redeliveries of
    a message, the invariant and the interleaving of statements; \<^bold>\<open>Webhook_Progress\<close> the induction over
    the redeliveries; \<^bold>\<open>Webhook_Api\<close> (\<^verbatim>\<open>api/webhooks\<close>) the requests of admins.
    \<^bold>\<open>Webhook_Properties\<close>: the invariant, an event reaches a subscriber that recovers in time, messages
    are settled, failing subscriptions are paused, which addresses are reached and how a name that
    changes its address evades the check, signatures, the limit of subscriptions, secrets.
  \<^item> \<^bold>\<open>Changefeed\<close> (\<^verbatim>\<open>internal/changefeed\<close>, \<^verbatim>\<open>api/drive/changes.go\<close>): the log of mutations, what
    follows a recorded mutation, cursor-paged reads and live events; what a client relies on is a locale,
    interpreted on the service for every state, workspace and limit.  \<^bold>\<open>Changefeed_Properties\<close> has
    overlapping writers and a polling client as a step relation: a client that pages to the end has
    every row once if statements commit in the order of their numbers, a row that is overtaken is never
    delivered, and what is announced has been recorded.
  \<^item> \<^bold>\<open>Ip_Allow\<close> (\<^verbatim>\<open>internal/workspace/ipallow.go\<close>, the middleware and the admin handlers for it): the
    networks a workspace admits requests from, over the address tests of \<^bold>\<open>Webhook_Address\<close>.
    \<^bold>\<open>Ip_Allow_Properties\<close>: a rule admits public addresses only because blocks are nested or
    disjoint, the invariant of rules and switch, how old the rules of a decision can be, and that entries
    a client puts into the forwarding header have no effect.

  \<^bold>\<open>Recursion.\<close>  The loop over the pages of an archive month ends because the ids still to be
  fetched get fewer; recursive queries end in reachable states because parent pointers form
  no cycle; drawing a recovery code ends if the random bytes are not rejected for ever, which is a
  hypothesis; a client's loop over the pages of the change feed ends because every page but the last leaves
  fewer rows behind the cursor; the other loops run over lists.  No fuel is used.

  \<^bold>\<open>Not modelled.\<close>  The HTTP handlers (but for webhooks, the change feed and address allow lists) and middleware, sign-in (passwords, OAuth),
  billing, retention,
  workspaces (but for their address allow lists), notifications, search, previews, AI features,
  configuration and process start-up.  Of the modelled packages: metrics, tracing and log
  lines, constructors and option setters, and the scanning of result rows into structs
  beyond what the queries return.
\<close>

end
